(* ===== verification/Prelude.thy ===== *)
theory Prelude
  imports Main "HOL-Library.Word"
begin

text \<open>
  Shared vocabulary of the development: the C integer types, the collections of
  simplification rules, and the node lists that stand for the linked structures of the code.

  A linked structure of the program (the route table, the neighbour list, the cache table, ...)
  is a list of nodes in link order. A node is a pair of the address \<open>kmalloc\<close> returned for
  it and its contents, so a pointer of the code is an address, two nodes with equal contents
  stay different, and a write through a pointer is \<open>nl_upd\<close> at that address.
  The theory LinkedList shows that the pointer surgery of the code on
  \<open>next\<close>/\<open>prev\<close> fields refines these list operations.
\<close>

type_synonym u8 = "8 word"
type_synonym u16 = "16 word"
type_synonym u32 = "32 word"
type_synonym u64 = "64 word"

type_synonym addr = nat
type_synonym 'a nodes = "(addr \<times> 'a) list"

named_theorems frame "fields a step leaves unchanged"
named_theorems nl_simps "rules for node lists"
named_theorems inv_defs "definitions of the component invariants"

section \<open>Node lists\<close>

definition nl_addrs :: "'a nodes \<Rightarrow> addr list" where
  "nl_addrs ns = map fst ns"

definition nl_vals :: "'a nodes \<Rightarrow> 'a list" where
  "nl_vals ns = map snd ns"

definition nl_get :: "addr \<Rightarrow> 'a nodes \<Rightarrow> 'a option" where
  "nl_get a ns = map_of ns a"

definition nl_upd :: "addr \<Rightarrow> ('a \<Rightarrow> 'a) \<Rightarrow> 'a nodes \<Rightarrow> 'a nodes" where
  "nl_upd a f ns = map (\<lambda>(b, x). if b = a then (b, f x) else (b, x)) ns"

definition nl_del :: "addr \<Rightarrow> 'a nodes \<Rightarrow> 'a nodes" where
  "nl_del a ns = filter (\<lambda>(b, x). b \<noteq> a) ns"

text \<open>The nodes from a given address on: where the code holds a pointer into a list.\<close>

definition nl_from :: "addr \<Rightarrow> 'a nodes \<Rightarrow> 'a nodes" where
  "nl_from a ns = dropWhile (\<lambda>(b, x). b \<noteq> a) ns"

lemma nl_addrs_simps [simp, nl_simps]:
  "nl_addrs [] = []" "nl_addrs (n # ns) = fst n # nl_addrs ns"
  "nl_addrs (ns @ ms) = nl_addrs ns @ nl_addrs ms"
  "length (nl_addrs ns) = length ns"
  by (simp_all add: nl_addrs_def)

lemma nl_vals_simps [simp, nl_simps]:
  "nl_vals [] = []" "nl_vals (n # ns) = snd n # nl_vals ns"
  "nl_vals (ns @ ms) = nl_vals ns @ nl_vals ms"
  "length (nl_vals ns) = length ns"
  by (simp_all add: nl_vals_def)

lemma nl_upd_simps [simp, nl_simps]:
  "nl_upd a f [] = []"
  "nl_upd a f ((b, x) # ns) = (if b = a then (b, f x) else (b, x)) # nl_upd a f ns"
  "nl_upd a f (ns @ ms) = nl_upd a f ns @ nl_upd a f ms"
  "length (nl_upd a f ns) = length ns"
  by (simp_all add: nl_upd_def)

lemma nl_del_simps [simp, nl_simps]:
  "nl_del a [] = []"
  "nl_del a ((b, x) # ns) = (if b = a then nl_del a ns else (b, x) # nl_del a ns)"
  "nl_del a (ns @ ms) = nl_del a ns @ nl_del a ms"
  by (simp_all add: nl_del_def)

lemma nl_get_simps [simp, nl_simps]:
  "nl_get a [] = None"
  "nl_get a ((b, x) # ns) = (if a = b then Some x else nl_get a ns)"
  by (simp_all add: nl_get_def)

lemma nl_from_simps [simp, nl_simps]:
  "nl_from a [] = []"
  "nl_from a ((b, x) # ns) = (if b = a then (b, x) # ns else nl_from a ns)"
  by (simp_all add: nl_from_def)

lemma nl_addrs_upd [simp, nl_simps]: "nl_addrs (nl_upd a f ns) = nl_addrs ns"
  by (induction ns) auto

lemma nl_addrs_del [simp, nl_simps]: "nl_addrs (nl_del a ns) = filter (\<lambda>b. b \<noteq> a) (nl_addrs ns)"
  by (induction ns) auto

lemma nl_upd_absent [simp]: "a \<notin> set (nl_addrs ns) \<Longrightarrow> nl_upd a f ns = ns"
  by (induction ns) auto

lemma nl_del_absent [simp]: "a \<notin> set (nl_addrs ns) \<Longrightarrow> nl_del a ns = ns"
  by (induction ns) auto

lemma nl_get_upd [nl_simps]:
  "nl_get b (nl_upd a f ns) = (if a = b then map_option f (nl_get b ns) else nl_get b ns)"
  by (induction ns) auto

lemma nl_get_del [nl_simps]: "nl_get b (nl_del a ns) = (if a = b then None else nl_get b ns)"
  by (induction ns) auto

lemma nl_get_None_iff [nl_simps]: "nl_get a ns = None \<longleftrightarrow> a \<notin> set (nl_addrs ns)"
  by (induction ns) (auto split: if_splits)

lemma nl_get_Some_in: "nl_get a ns = Some x \<Longrightarrow> (a, x) \<in> set ns"
  by (simp add: nl_get_def map_of_SomeD)

lemma nl_get_in: "(a, x) \<in> set ns \<Longrightarrow> distinct (nl_addrs ns) \<Longrightarrow> nl_get a ns = Some x"
  by (simp add: nl_get_def nl_addrs_def)

lemma nl_addrs_in: "(a, x) \<in> set ns \<Longrightarrow> a \<in> set (nl_addrs ns)"
  by (force simp: nl_addrs_def)

lemma set_nl_del: "set (nl_del a ns) = {n \<in> set ns. fst n \<noteq> a}"
  by (auto simp: nl_del_def)

lemma set_nl_upd: "set (nl_upd a f ns) = (\<lambda>(b, x). if b = a then (b, f x) else (b, x)) ` set ns"
  by (simp add: nl_upd_def)

lemma distinct_nl_del [simp]: "distinct (nl_addrs ns) \<Longrightarrow> distinct (nl_addrs (nl_del a ns))"
  by simp

lemma length_nl_del:
  "distinct (nl_addrs ns) \<Longrightarrow> a \<in> set (nl_addrs ns) \<Longrightarrow> Suc (length (nl_del a ns)) = length ns"
proof (induction ns)
  case (Cons n ns)
  then show ?case by (cases n) (cases "fst n = a"; auto)
qed simp

lemma upd_as_map: "nl_upd p f ns = map (\<lambda>(a, r). (a, if a = p then f r else r)) ns"
  by (auto simp: nl_upd_def)

section \<open>Sorted node lists\<close>

text \<open>\<open>sorted_by k\<close>: the keys of a node list never decrease along the links.\<close>

definition sorted_by :: "('a \<Rightarrow> 'k::linorder) \<Rightarrow> 'a nodes \<Rightarrow> bool" where
  "sorted_by k ns = sorted (map k (nl_vals ns))"

lemma sorted_by_simps [simp]:
  "sorted_by k []"
  "sorted_by k (n # ns) \<longleftrightarrow> (\<forall>x \<in> set (nl_vals ns). k (snd n) \<le> k x) \<and> sorted_by k ns"
  by (auto simp: sorted_by_def)

lemma nl_vals_del_subset: "set (nl_vals (nl_del a ns)) \<subseteq> set (nl_vals ns)"
  by (induction ns) (auto split: if_splits)

lemma sorted_by_del: "sorted_by k ns \<Longrightarrow> sorted_by k (nl_del a ns)"
proof (induction ns)
  case (Cons n ns)
  then show ?case using nl_vals_del_subset [of a ns] by (cases n) auto
qed simp

lemma sorted_by_upd:
  assumes "\<And>x. k (f x) = k x"
  shows "sorted_by k (nl_upd a f ns) = sorted_by k ns"
proof -
  have "map k (nl_vals (nl_upd a f ns)) = map k (nl_vals ns)"
    by (induction ns) (auto simp: assms)
  then show ?thesis by (simp add: sorted_by_def)
qed

section \<open>Searching the linked structures\<close>

text \<open>A walk from the head that stops at the first node with a property.\<close>

fun nl_find :: "('a \<Rightarrow> bool) \<Rightarrow> 'a nodes \<Rightarrow> (addr \<times> 'a) option" where
  "nl_find P [] = None"
| "nl_find P ((a, x) # ns) = (if P x then Some (a, x) else nl_find P ns)"

lemma nl_find_Some: "nl_find P ns = Some (a, x) \<Longrightarrow> (a, x) \<in> set ns \<and> P x"
  by (induction ns) (auto split: if_splits)

lemma nl_find_None: "nl_find P ns = None \<longleftrightarrow> (\<forall>x \<in> set (nl_vals ns). \<not> P x)"
  by (induction ns) (auto split: if_splits)

lemma nl_find_append:
  "nl_find P (ns @ ms) = (case nl_find P ns of None \<Rightarrow> nl_find P ms | Some r \<Rightarrow> Some r)"
  by (induction ns) auto


section \<open>Ordered insertion\<close>

text \<open>Insertion before the first node whose key is not smaller.\<close>

fun nl_insert :: "('a \<Rightarrow> 'k::linorder) \<Rightarrow> addr \<times> 'a \<Rightarrow> 'a nodes \<Rightarrow> 'a nodes" where
  "nl_insert k n [] = [n]"
| "nl_insert k n (m # ms) = (if k (snd m) < k (snd n) then m # nl_insert k n ms else n # m # ms)"

lemma set_nl_insert [simp]: "set (nl_insert k n ns) = insert n (set ns)"
  by (induction ns) auto

lemma set_vals_nl_insert [simp]:
  "set (nl_vals (nl_insert k n ns)) = insert (snd n) (set (nl_vals ns))"
  by (auto simp: nl_vals_def)

lemma set_addrs_nl_insert [simp]:
  "set (nl_addrs (nl_insert k n ns)) = insert (fst n) (set (nl_addrs ns))"
  by (auto simp: nl_addrs_def)

lemma length_nl_insert [simp]: "length (nl_insert k n ns) = Suc (length ns)"
  by (induction ns) auto

lemma distinct_nl_insert [simp]:
  "distinct (nl_addrs (nl_insert k n ns)) \<longleftrightarrow> fst n \<notin> set (nl_addrs ns) \<and> distinct (nl_addrs ns)"
  by (induction ns) auto

lemma sorted_nl_insert: "sorted_by k ns \<Longrightarrow> sorted_by k (nl_insert k n ns)"
  by (induction ns) (auto simp: not_less intro: less_imp_le order_trans)

lemma nl_insert_split:
  "nl_insert k n ns = takeWhile (\<lambda>m. k (snd m) < k (snd n)) ns @ n # dropWhile (\<lambda>m. k (snd m) < k (snd n)) ns"
  by (induction ns) auto

end
