(* ===== verification/KernelEnv.thy ===== *)
theory KernelEnv
  imports Prelude
begin

unbundle bit_operations_syntax

text \<open>
  The part of the Linux kernel the two modules call, and the part of their state that lives
  in it. What the kernel answers is not code of the repository, so every answer is a parameter:
  the record \<open>kenv\<close> holds the macros of \<open>linux/jiffies.h\<close>, whether the n-th
  \<open>kmalloc\<close> succeeds, what an uninitialised block contains and what the socket calls return.
  No theorem fixes these; one that needs a documented law of them names it as a hypothesis.

  The record \<open>kstate\<close> is extended by each module with its own variables. It holds the clock,
  the live heap blocks, the module's kernel timer and, in \<open>k_out\<close>, the trace of everything the
  module made the kernel do. \<open>k_fault\<close> records a memory error: a NULL pointer
  or a freed block used, or a block freed twice.
  The clock stands still while one handler runs and moves only between handlers.
\<close>

section \<open>Devices, packets and events\<close>

text \<open>
  A \<open>struct net_device\<close> as far as the modules look at it. \<open>nd_ip_ptr\<close> is None for a NULL
  \<open>ip_ptr\<close>, Some None for an empty \<open>ifa_list\<close>.
  \<open>nd_word12\<close> is the 32-bit word found 12 bytes into the block \<open>ip_ptr\<close> points to.
\<close>

record netdev =
  nd_name :: string
  nd_ifindex :: u32
  nd_ip_ptr :: "u32 option option"
  nd_word12 :: u32

text \<open>A \<open>struct timeval\<close>: both fields are signed \<open>long\<close>s.\<close>

record timeval =
  tv_sec :: int
  tv_usec :: int

text \<open>
  A \<open>struct sk_buff\<close>. \<open>sk_data\<close> is the linear buffer from \<open>packet->data\<close> on; a read past its
  end yields \<open>sk_beyond\<close>. Addresses and ports are as they lie in memory (network order).
\<close>

record skbuff =
  sk_len :: nat
  sk_data :: "u8 list"
  sk_beyond :: "nat \<Rightarrow> u8"
  sk_saddr :: u32
  sk_daddr :: u32
  sk_ttl :: u8
  sk_has_transport :: bool
  sk_udp_dest :: u16
  sk_h_proto :: u16
  sk_h_source :: "u8 list"
  sk_dev :: netdev

definition skb_byte :: "skbuff \<Rightarrow> nat \<Rightarrow> u8" where
  "skb_byte p i = (if i < length (sk_data p) then sk_data p ! i else sk_beyond p i)"

definition skb_bytes :: "skbuff \<Rightarrow> nat \<Rightarrow> nat \<Rightarrow> u8 list" where
  "skb_bytes p off n = map (skb_byte p) [off ..< off + n]"

lemma length_skb_bytes [simp]: "length (skb_bytes p off n) = n"
  by (simp add: skb_bytes_def)

text \<open>A \<open>struct nf_queue_entry\<close>: a packet netfilter handed to the module to hold.\<close>

record qentry =
  qe_id :: nat
  qe_hook :: nat
  qe_daddr :: u32
  qe_indev :: "u32 option"
  qe_outdev :: "u32 option"

datatype verdict = NF_DROP | NF_ACCEPT | NF_QUEUE

text \<open>Everything a handler makes the kernel do, in the order it does it.\<close>

datatype kevent =
    SetTtl addr u8
  | SendMsg addr u32 "u8 list"
  | RtAdd u32 u32 u32 "string option"
  | RtDel u32 u32
  | RouteHarder nat
  | IcmpUnreach nat
  | Reinject nat verdict
  | FreeEntry nat
  | AddTimer u32
  | ModTimer u32
  | DelTimer
  | WakeThread
  | SockRelease addr
  | SetSpy string "u8 list list"

section \<open>The environment and the kernel-side state\<close>

record kenv =
  ke_big_endian :: bool
  ke_time_before :: "u64 \<Rightarrow> u64 \<Rightarrow> bool"
  ke_time_after :: "u64 \<Rightarrow> u64 \<Rightarrow> bool"
  ke_time_before_eq :: "u64 \<Rightarrow> u64 \<Rightarrow> bool"
  ke_hz :: u32
  ke_kmalloc_ok :: "nat \<Rightarrow> bool"
  ke_junk :: "nat \<Rightarrow> nat \<Rightarrow> u64"
  ke_junk_dev :: "nat \<Rightarrow> netdev option"
  ke_set_ttl :: "nat \<Rightarrow> int"
  ke_wspace :: "nat \<Rightarrow> int"
  ke_sendmsg :: "nat \<Rightarrow> int"

record kstate =
  k_time :: timeval
  k_jiffies :: u32
  k_timer_pending :: bool
  k_allocs :: nat
  k_live :: "addr set"
  k_out :: "kevent list"
  k_fault :: bool

definition emit :: "kevent \<Rightarrow> 'z kstate_scheme \<Rightarrow> 'z kstate_scheme" where
  "emit ev s = s\<lparr>k_out := k_out s @ [ev]\<rparr>"

definition fault :: "'z kstate_scheme \<Rightarrow> 'z kstate_scheme" where
  "fault s = s\<lparr>k_fault := True\<rparr>"

text \<open>
  The n-th call of \<open>kmalloc\<close> returns block n or NULL. Numbering blocks by the call that
  made them means that an address is never reused, so a stale pointer stays visible.
\<close>

definition kmalloc :: "kenv \<Rightarrow> 'z kstate_scheme \<Rightarrow> addr option \<times> 'z kstate_scheme" where
  "kmalloc e s =
     (if ke_kmalloc_ok e (k_allocs s)
      then (Some (k_allocs s),
            s\<lparr>k_allocs := Suc (k_allocs s), k_live := insert (k_allocs s) (k_live s)\<rparr>)
      else (None, s\<lparr>k_allocs := Suc (k_allocs s)\<rparr>))"

definition kfree :: "addr \<Rightarrow> 'z kstate_scheme \<Rightarrow> 'z kstate_scheme" where
  "kfree a s = (if a \<in> k_live s then s\<lparr>k_live := k_live s - {a}\<rparr> else fault s)"

definition kfree_opt :: "addr option \<Rightarrow> 'z kstate_scheme \<Rightarrow> 'z kstate_scheme" where
  "kfree_opt p s = (case p of None \<Rightarrow> s | Some a \<Rightarrow> kfree a s)"

text \<open>The kernel has memory.\<close>

definition no_oom :: "kenv \<Rightarrow> bool" where
  "no_oom e = (\<forall>n. ke_kmalloc_ok e n)"

lemma kmalloc_no_oom: "no_oom e \<Longrightarrow>
  kmalloc e s = (Some (k_allocs s), s\<lparr>k_allocs := Suc (k_allocs s), k_live := insert (k_allocs s) (k_live s)\<rparr>)"
  by (simp add: kmalloc_def no_oom_def)

text \<open>No block is live before it is allocated.\<close>

definition heap_ok :: "'z kstate_scheme \<Rightarrow> bool" where
  "heap_ok s = (\<forall>a \<in> k_live s. a < k_allocs s)"

section \<open>Time\<close>

text \<open>Milliseconds, computed in unsigned 64-bit arithmetic from the kernel's \<open>timeval\<close>.\<close>

definition getcurrtime :: "'z kstate_scheme \<Rightarrow> u64" where
  "getcurrtime s =
     (let result = (word_of_int (tv_usec (k_time s)) :: u64) div 1000
      in (word_of_int (tv_sec (k_time s)) :: u64) * 1000 + result)"

text \<open>
  The documented relations between the comparison macros, and that \<open>time_before\<close> orders a set
  of times linearly, as it does when they lie within half the range of a \<open>long\<close>.
\<close>

definition time_macros :: "kenv \<Rightarrow> bool" where
  "time_macros e =
     (\<forall>a b. ke_time_after e a b = ke_time_before e b a \<and>
            ke_time_before_eq e a b = (\<not> ke_time_before e b a))"

definition time_window :: "kenv \<Rightarrow> u64 set \<Rightarrow> bool" where
  "time_window e T =
     (\<forall>a \<in> T. \<forall>b \<in> T. ke_time_before e a b = (a < b))"

section \<open>Memory layout and byte order\<close>

text \<open>The four bytes of a 32-bit value as they lie in the memory of the host.\<close>

definition u32_bytes :: "bool \<Rightarrow> u32 \<Rightarrow> u8 list" where
  "u32_bytes be w =
     (let l = [ucast (drop_bit 24 w), ucast (drop_bit 16 w), ucast (drop_bit 8 w), ucast w]
      in if be then l else rev l)"

fun be_bytes_u32 :: "u8 list \<Rightarrow> u32" where
  "be_bytes_u32 [a, b, c, d] =
     push_bit 24 (ucast a) OR push_bit 16 (ucast b) OR push_bit 8 (ucast c) OR ucast d"
| "be_bytes_u32 _ = 0"

definition bytes_u32 :: "bool \<Rightarrow> u8 list \<Rightarrow> u32" where
  "bytes_u32 be l = be_bytes_u32 (if be then l else rev l)"

definition htonl :: "kenv \<Rightarrow> u32 \<Rightarrow> u32" where
  "htonl e w = bytes_u32 (ke_big_endian e) (u32_bytes True w)"

definition ntohl :: "kenv \<Rightarrow> u32 \<Rightarrow> u32" where
  "ntohl e w = bytes_u32 True (u32_bytes (ke_big_endian e) w)"

definition htons :: "kenv \<Rightarrow> u16 \<Rightarrow> u16" where
  "htons e w = (if ke_big_endian e then w else push_bit 8 w OR drop_bit 8 w)"


lemma length_u32_bytes [simp]: "length (u32_bytes be w) = 4"
  by (simp add: u32_bytes_def Let_def)

lemma length_4E:
  assumes "length l = 4"
  obtains a b c d where "l = [a, b, c, d]"
proof -
  from assms have "\<exists>a b c d. l = [a, b, c, d]"
    by (auto simp: eval_nat_numeral length_Suc_conv)
  then show thesis using that by blast
qed

lemma be_bytes_u32_bytes [simp]: "be_bytes_u32 (u32_bytes True w) = w"
proof (rule bit_word_eqI)
  fix n :: nat
  assume n: "n < LENGTH(32)"
  then show "bit (be_bytes_u32 (u32_bytes True w)) n = bit w n"
    by (cases "24 \<le> n"; cases "16 \<le> n"; cases "8 \<le> n")
      (auto simp add: u32_bytes_def bit_or_iff bit_push_bit_iff bit_ucast_iff bit_drop_bit_eq)
qed

lemma bit_u8_beyond: "8 \<le> n \<Longrightarrow> bit (b :: u8) n = False"
  using bit_imp_le_length [of b n] by auto

lemma bit_u8_add: "bit (b :: u8) (8 + n) = False" "bit (b :: u8) (16 + n) = False" "bit (b :: u8) (24 + n) = False"
  by (simp_all add: bit_u8_beyond)

lemma u32_bytes_be_bytes [simp]: "u32_bytes True (be_bytes_u32 [a, b, c, d]) = [a, b, c, d]"
  by (simp add: u32_bytes_def bit_eq_iff bit_or_iff bit_push_bit_iff bit_ucast_iff bit_drop_bit_eq bit_u8_add)

lemma u32_bytes_False: "u32_bytes False w = rev (u32_bytes True w)"
  by (simp add: u32_bytes_def Let_def)

lemma bytes_u32_bytes [simp]: "bytes_u32 be (u32_bytes be w) = w"
  by (cases be) (simp_all add: bytes_u32_def u32_bytes_False)

lemma u32_bytes_bytes: "length l = 4 \<Longrightarrow> u32_bytes be (bytes_u32 be l) = l"
  by (erule length_4E) (cases be; simp add: bytes_u32_def u32_bytes_False del: be_bytes_u32.simps)

lemma ntohl_htonl [simp]: "ntohl e (htonl e w) = w"
  by (simp add: ntohl_def htonl_def u32_bytes_bytes)

lemma htonl_ntohl [simp]: "htonl e (ntohl e w) = w"
  by (simp add: ntohl_def htonl_def u32_bytes_bytes)

text \<open>Both conversions swap the bytes or do nothing, so they are the same function.\<close>

lemma htonl_eq_ntohl: "htonl e w = ntohl e w"
  by (cases "ke_big_endian e")
     (simp_all add: htonl_def ntohl_def bytes_u32_def u32_bytes_False)

lemma htonl_big_endian [simp]: "ke_big_endian e \<Longrightarrow> htonl e w = w"
  by (simp add: htonl_def)

lemma ntohl_big_endian [simp]: "ke_big_endian e \<Longrightarrow> ntohl e w = w"
  by (simp add: ntohl_def)

lemma htonl_bytes: "u32_bytes (ke_big_endian e) (htonl e w) = u32_bytes True w"
  by (simp add: htonl_def u32_bytes_bytes)

text \<open>
  A message is a four-byte header followed by 32-bit words in host layout.
\<close>

definition words_bytes :: "bool \<Rightarrow> u32 list \<Rightarrow> u8 list" where
  "words_bytes be ws = concat (map (u32_bytes be) ws)"

definition word_at :: "bool \<Rightarrow> u8 list \<Rightarrow> nat \<Rightarrow> u32" where
  "word_at be bs k = bytes_u32 be (take 4 (drop (4 + 4 * k) bs))"

lemma length_words_bytes [simp]: "length (words_bytes be ws) = 4 * length ws"
  by (induction ws) (auto simp: words_bytes_def)

lemma drop_words_bytes: "drop (4 * k) (words_bytes be ws) = words_bytes be (drop k ws)"
proof (induction ws arbitrary: k)
  case (Cons w ws)
  then show ?case by (cases k) (auto simp: words_bytes_def)
qed (simp add: words_bytes_def)

lemma word_at_words:
  assumes "length h = 4" "k < length ws"
  shows "word_at be (h @ words_bytes be ws) k = ws ! k"
proof -
  have "drop k ws = ws ! k # drop (Suc k) ws" using assms(2) by (simp add: Cons_nth_drop_Suc)
  then have "take 4 (drop (4 + 4 * k) (h @ words_bytes be ws)) = u32_bytes be (ws ! k)"
    using assms(1) by (simp add: drop_words_bytes) (simp add: words_bytes_def)
  then show ?thesis by (simp add: word_at_def)
qed

lemma word_at_words4 [simp]:
  "k < length ws \<Longrightarrow> word_at be (a # b # c # d # words_bytes be ws) k = ws ! k"
  using word_at_words [of "[a, b, c, d]" k ws be] by simp

section \<open>Laws of the memory functions\<close>

lemma kmalloc_fresh:
  "heap_ok s \<Longrightarrow> kmalloc e s = (Some a, t) \<Longrightarrow> a \<notin> k_live s \<and> a \<in> k_live t \<and> heap_ok t"
  by (fastforce simp: kmalloc_def heap_ok_def split: if_splits)

lemma emit_frame [simp, frame]:
  "k_time (emit ev s) = k_time s" "k_allocs (emit ev s) = k_allocs s"
  "k_live (emit ev s) = k_live s" "k_fault (emit ev s) = k_fault s"
  "k_out (emit ev s) = k_out s @ [ev]" "kstate.more (emit ev s) = kstate.more s"
  by (simp_all add: emit_def)

lemma fault_frame [simp, frame]:
  "k_time (fault s) = k_time s" "k_allocs (fault s) = k_allocs s"
  "k_live (fault s) = k_live s" "k_fault (fault s)"
  "k_out (fault s) = k_out s" "kstate.more (fault s) = kstate.more s"
  by (simp_all add: fault_def)

lemma kfree_frame [simp, frame]:
  "k_time (kfree a s) = k_time s" "k_allocs (kfree a s) = k_allocs s"
  "k_live (kfree a s) = k_live s - {a}"
  "k_out (kfree a s) = k_out s" "kstate.more (kfree a s) = kstate.more s"
  by (auto simp: kfree_def fault_def)

lemma kfree_fault [simp]: "k_fault (kfree a s) \<longleftrightarrow> k_fault s \<or> a \<notin> k_live s"
  by (simp add: kfree_def fault_def)

lemma getcurrtime_cong: "k_time t = k_time s \<Longrightarrow> getcurrtime t = getcurrtime s"
  by (simp add: getcurrtime_def)

lemma getcurrtime_simps [simp, frame]:
  "getcurrtime (emit ev s) = getcurrtime s" "getcurrtime (fault s) = getcurrtime s"
  "getcurrtime (kfree a s) = getcurrtime s"
  by (simp_all add: getcurrtime_def)

end
