(* ===== verification/InetUtils.thy ===== *)
theory InetUtils
  imports KernelEnv
begin

unbundle bit_operations_syntax

text \<open>
  The helper functions of \<open>kaodv/src/utils.c\<close> (\<open>inet_aton\<close> is copied unchanged into
  \<open>caching/src/cUtils.c\<close> and \<open>simpleFS/src/fUtils.c\<close>): dotted addresses, netmasks and the
  circular comparison of AODV sequence numbers.

  A C string is its characters before the NUL. \<open>inet_aton\<close> returns None where the C function
  returns 0 and Some of the value it stores otherwise.
\<close>

section \<open>Character classes\<close>

definition isascii :: "char \<Rightarrow> bool" where
  "isascii c = (of_char c < (128 :: nat))"

definition isdigit :: "char \<Rightarrow> bool" where
  "isdigit c = (of_char CHR ''0'' \<le> (of_char c :: nat) \<and> of_char c \<le> (of_char CHR ''9'' :: nat))"

definition islower :: "char \<Rightarrow> bool" where
  "islower c = (of_char CHR ''a'' \<le> (of_char c :: nat) \<and> of_char c \<le> (of_char CHR ''z'' :: nat))"

definition isxdigit :: "char \<Rightarrow> bool" where
  "isxdigit c = (isdigit c
     \<or> of_char CHR ''a'' \<le> (of_char c :: nat) \<and> of_char c \<le> (of_char CHR ''f'' :: nat)
     \<or> of_char CHR ''A'' \<le> (of_char c :: nat) \<and> of_char c \<le> (of_char CHR ''F'' :: nat))"

definition isspace :: "char \<Rightarrow> bool" where
  "isspace c = (c = CHR '' '' \<or> (9 \<le> (of_char c :: nat) \<and> of_char c \<le> (13 :: nat)))"

definition char_u32 :: "char \<Rightarrow> u32" where
  "char_u32 c = of_nat (of_char c)"

section \<open>Printing an address\<close>

definition digit_char :: "nat \<Rightarrow> char" where
  "digit_char d = char_of (48 + d)"

fun dec :: "nat \<Rightarrow> string" where
  "dec n = (if n < 10 then [digit_char n] else dec (n div 10) @ [digit_char (n mod 10)])"

declare dec.simps [simp del]

definition dotted :: "u8 list \<Rightarrow> string" where
  "dotted bs = dec (unat (bs ! 0)) @ ''.'' @ dec (unat (bs ! 1)) @ ''.''
     @ dec (unat (bs ! 2)) @ ''.'' @ dec (unat (bs ! 3))"

definition inet_ntoa :: "kenv \<Rightarrow> u32 \<Rightarrow> string" where
  "inet_ntoa e ina = dotted (u32_bytes (ke_big_endian e) ina)"

section \<open>Parsing an address\<close>

fun aton_digits :: "u32 \<Rightarrow> u32 \<Rightarrow> string \<Rightarrow> u32 \<times> string" where
  "aton_digits base val [] = (val, [])"
| "aton_digits base val (c # cp) =
     (if isascii c \<and> isdigit c
      then aton_digits base (val * base + (char_u32 c - char_u32 CHR ''0'')) cp
      else if base = 16 \<and> isascii c \<and> isxdigit c
      then aton_digits base
             (push_bit 4 val + (char_u32 c + 10 - char_u32 (if islower c then CHR ''a'' else CHR ''A''))) cp
      else (val, c # cp))"

definition aton_number :: "string \<Rightarrow> u32 \<times> string" where
  "aton_number cp =
     (case cp of
        [] \<Rightarrow> aton_digits 10 0 cp
      | c # r \<Rightarrow>
          if c = CHR ''0''
          then (case r of
                  [] \<Rightarrow> aton_digits 8 0 r
                | x # r' \<Rightarrow> if x = CHR ''x'' \<or> x = CHR ''X''
                            then aton_digits 16 0 r' else aton_digits 8 0 r)
          else aton_digits 10 0 cp)"

lemma length_aton_digits: "length (snd (aton_digits b v cp)) \<le> length cp"
  by (induction b v cp rule: aton_digits.induct) auto

lemma length_aton_number: "length (snd (aton_number cp)) \<le> length cp"
  by (auto simp: aton_number_def split: list.splits
      intro: order_trans [OF length_aton_digits])

text \<open>The dotted parts: every part but the last is at most 255 and there are at most four.\<close>

function aton_parts :: "u32 list \<Rightarrow> string \<Rightarrow> (u32 list \<times> u32 \<times> string) option" where
  "aton_parts parts cp =
     (let (val, r) = aton_number cp in
      case r of
        [] \<Rightarrow> Some (parts, val, r)
      | c # r' \<Rightarrow>
          if c = CHR ''.''
          then (if 3 \<le> length parts \<or> 0xff < val then None else aton_parts (parts @ [val]) r')
          else Some (parts, val, r))"
  by pat_completeness auto
termination
proof (relation "measure (\<lambda>(parts, cp). length cp)")
  fix parts :: "u32 list" and cp :: string and x val r c r'
  assume "x = aton_number cp" "(val, r) = x" "r = c # r'"
  then have "snd (aton_number cp) = c # r'" by (metis snd_conv)
  then show "((parts @ [val], r'), parts, cp) \<in> measure (\<lambda>(parts, cp). length cp)"
    using length_aton_number [of cp] by simp
qed simp

declare aton_parts.simps [simp del]

definition aton_concoct :: "u32 list \<Rightarrow> u32 \<Rightarrow> u32 option" where
  "aton_concoct parts val =
     (let n = length parts + 1 in
      if n = 2 then (if 0xffffff < val then None else Some (val OR push_bit 24 (parts ! 0)))
      else if n = 3 then (if 0xffff < val then None
        else Some (val OR push_bit 24 (parts ! 0) OR push_bit 16 (parts ! 1)))
      else if n = 4 then (if 0xff < val then None
        else Some (val OR push_bit 24 (parts ! 0) OR push_bit 16 (parts ! 1)
                       OR push_bit 8 (parts ! 2)))
      else Some val)"

definition inet_aton :: "kenv \<Rightarrow> string \<Rightarrow> u32 option" where
  "inet_aton e cp =
     (case aton_parts [] cp of
        None \<Rightarrow> None
      | Some (parts, val, r) \<Rightarrow>
          if r \<noteq> [] \<and> (\<not> isascii (hd r) \<or> \<not> isspace (hd r)) then None
          else map_option (htonl e) (aton_concoct parts val))"

section \<open>Netmasks\<close>

fun netmask_loop :: "nat \<Rightarrow> u32 \<Rightarrow> u32" where
  "netmask_loop 0 final = final"
| "netmask_loop (Suc k) final = netmask_loop k (push_bit 1 (final + 1))"

definition calculate_netmask :: "int \<Rightarrow> u32" where
  "calculate_netmask t = NOT (netmask_loop (nat (32 - t)) 0 + 1)"

definition lowest_bit :: "u32 \<Rightarrow> nat" where
  "lowest_bit t = (LEAST n. bit t n)"

lemma lowest_bit_push:
  assumes "t \<noteq> (0 :: u32)" "push_bit 1 t \<noteq> 0"
  shows "lowest_bit t < lowest_bit (push_bit 1 t) \<and> lowest_bit (push_bit 1 t) < 32"
proof -
  from assms(2) obtain m where m: "bit (push_bit 1 t) m" by (auto simp: bit_eq_iff)
  let ?l = "lowest_bit (push_bit 1 t)"
  have l: "bit (push_bit 1 t) ?l" unfolding lowest_bit_def using m by (rule LeastI)
  then have "?l < 32" using bit_imp_le_length by fastforce
  from l have "1 \<le> ?l" "bit t (?l - 1)" 
    by (simp_all only: bit_push_bit_iff)
  then have "lowest_bit t \<le> ?l - 1" unfolding lowest_bit_def by (intro Least_le)
  with \<open>1 \<le> ?l\<close> \<open>?l < 32\<close> show ?thesis by simp
qed

function prefix_loop :: "u32 \<Rightarrow> int \<Rightarrow> int" where
  "prefix_loop t i = (if t \<noteq> 0 then prefix_loop (push_bit 1 t) (i + 1) else i)"
  by pat_completeness auto
termination
proof (relation "measure (\<lambda>(t, i). if t = 0 then 0 else 33 - lowest_bit t)")
  fix t :: u32 and i :: int
  assume "t \<noteq> 0"
  moreover from this have "lowest_bit t < 32"
  proof -
    from \<open>t \<noteq> 0\<close> obtain m where "bit t m" by (auto simp: bit_eq_iff)
    then have "bit t (lowest_bit t)" unfolding lowest_bit_def by (rule LeastI)
    then show ?thesis using bit_imp_le_length by fastforce
  qed
  ultimately show "((push_bit 1 t, i + 1), t, i)
      \<in> measure (\<lambda>(t, i). if t = 0 then 0 else 33 - lowest_bit t)"
    using lowest_bit_push [of t] by auto
qed simp

declare prefix_loop.simps [simp del]

definition calculate_prefix :: "u32 \<Rightarrow> int" where
  "calculate_prefix t = prefix_loop t 1"

section \<open>Sequence numbers\<close>

text \<open>
  Both functions reinterpret the unsigned numbers as \<open>int\<close> and look at the sign of the
  difference, computed with the wrap-around the kernel is compiled for.
\<close>

definition seq_less_or_equal :: "u32 \<Rightarrow> u32 \<Rightarrow> bool" where
  "seq_less_or_equal seq_one seq_two = (\<not> 0 < sint (seq_one - seq_two))"

definition seq_greater :: "u32 \<Rightarrow> u32 \<Rightarrow> bool" where
  "seq_greater seq_one seq_two = (\<not> sint (seq_one - seq_two) < 0)"


section \<open>Printing and parsing agree\<close>

lemma char_0_code: "of_char CHR ''0'' = (48 :: nat)" "digit_char 0 = CHR ''0''"
  by code_simp+

lemma digit_char_simps:
  assumes "d < 10"
  shows "isascii (digit_char d)" "isdigit (digit_char d)"
    "char_u32 (digit_char d) - char_u32 CHR ''0'' = of_nat d"
    "digit_char d = CHR ''0'' \<longleftrightarrow> d = 0"
proof -
  have c: "of_char (digit_char d) = 48 + d"
    using assms by (simp add: digit_char_def)
  show "isascii (digit_char d)" "isdigit (digit_char d)"
    using assms by (simp_all add: isascii_def isdigit_def c)
  show "char_u32 (digit_char d) - char_u32 CHR ''0'' = of_nat d"
    by (simp add: char_u32_def c)
  show "digit_char d = CHR ''0'' \<longleftrightarrow> d = 0"
  proof
    assume "digit_char d = CHR ''0''"
    then have "of_char (digit_char d) = (48 :: nat)" by (simp only: char_0_code)
    then show "d = 0" by (simp add: c)
  qed (simp only: char_0_code)
qed

lemma dec_neq_Nil [simp]: "dec n \<noteq> []"
  by (subst dec.simps) simp

lemma hd_dec: "hd (dec n) = CHR ''0'' \<longleftrightarrow> n = 0"
proof (induction n rule: dec.induct)
  case (1 n)
  then show ?case by (subst dec.simps) (auto simp: digit_char_simps)
qed

lemma hd_dec_ascii: "isascii (hd (dec n)) \<and> isdigit (hd (dec n))"
proof (induction n rule: dec.induct)
  case (1 n)
  then show ?case by (subst (1 2) dec.simps) (auto simp: digit_char_simps)
qed

lemma aton_digits_dec:
  "\<exists>k. \<forall>v. aton_digits 10 v (dec n @ r) = aton_digits 10 (v * k + of_nat n) r"
proof (induction n arbitrary: r rule: dec.induct)
  case (1 n)
  show ?case
  proof (cases "n < 10")
    case True
    then show ?thesis
      by (subst dec.simps) (auto simp: digit_char_simps intro!: exI [of _ 10])
  next
    case False
    let ?d = "digit_char (n mod 10)"
    from 1 [OF False, of "?d # r"] obtain k where
      k: "aton_digits 10 v (dec (n div 10) @ ?d # r)
           = aton_digits 10 (v * k + of_nat (n div 10)) (?d # r)" for v by blast
    have n: "of_nat (n div 10) * 10 + of_nat (n mod 10) = (of_nat n :: u32)"
      by (metis div_mult_mod_eq of_nat_add of_nat_mult of_nat_numeral)
    have "aton_digits 10 v (dec n @ r) = aton_digits 10 (v * (k * 10) + of_nat n) r" for v
      using False by (subst dec.simps) (simp add: k digit_char_simps n [symmetric] algebra_simps)
    then show ?thesis by blast
  qed
qed

lemma aton_digits_stop:
  "r = [] \<or> hd r = CHR ''.'' \<Longrightarrow> aton_digits b v r = (v, r)"
  by (cases r) (auto simp: isdigit_def isxdigit_def)

lemma aton_number_dec:
  assumes r: "r = [] \<or> hd r = CHR ''.''"
  shows "aton_number (dec n @ r) = (of_nat n, r)"
proof (cases "n = 0")
  case True
  have "dec n = [CHR ''0'']" by (subst dec.simps) (simp add: True char_0_code)
  then show ?thesis
    using r by (cases r) (simp_all add: aton_number_def True aton_digits_stop del: aton_digits.simps)
next
  case False
  then obtain c cs where c: "dec n = c # cs" "c \<noteq> CHR ''0''"
    using hd_dec [of n] by (cases "dec n") auto
  then have "aton_number (dec n @ r) = aton_digits 10 0 (dec n @ r)"
    by (simp add: aton_number_def)
  also obtain k where "aton_digits 10 0 (dec n @ r) = aton_digits 10 (0 * k + of_nat n) r"
    using aton_digits_dec [of n r] by blast
  finally show ?thesis using r by (simp add: aton_digits_stop)
qed

lemma aton_parts_last:
  "aton_parts ps (dec n) = Some (ps, of_nat n, [])"
  using aton_number_dec [of "[]" n] by (subst aton_parts.simps) simp

lemma aton_parts_step:
  "aton_parts ps (dec n @ CHR ''.'' # r) =
     (if 3 \<le> length ps \<or> 0xff < (of_nat n :: u32) then None else aton_parts (ps @ [of_nat n]) r)"
  using aton_number_dec [of "CHR ''.'' # r" n] by (subst aton_parts.simps) simp

lemma of_nat_le_ff: "n < 2 ^ 32 \<Longrightarrow> 0xff < (of_nat n :: u32) \<longleftrightarrow> 255 < n"
  by (simp add: word_less_nat_alt unsigned_of_nat take_bit_nat_eq_self)

text \<open>The number a decimal quadruple denotes, and the quadruples that are rejected.\<close>

lemma inet_aton_quad:
  assumes "a < 2 ^ 32" "b < 2 ^ 32" "c < 2 ^ 32" "d < 2 ^ 32"
  shows "inet_aton e (dec a @ CHR ''.'' # dec b @ CHR ''.'' # dec c @ CHR ''.'' # dec d) =
    (if a < 256 \<and> b < 256 \<and> c < 256 \<and> d < 256
     then Some (htonl e (be_bytes_u32 [of_nat a, of_nat b, of_nat c, of_nat d]))
     else None)"
proof -
  have u: "ucast (of_nat k :: u8) = (of_nat k :: u32)" if "k < 256" for k
    using that by (simp add: word_eq_iff_unsigned unsigned_of_nat take_bit_nat_eq_self)
  show ?thesis
    using assms
    by (auto simp: inet_aton_def aton_parts_step aton_parts_last aton_concoct_def of_nat_le_ff u
        or.commute or.left_commute or.assoc not_less not_le)
qed

lemma dotted_quad: "length bs = 4 \<Longrightarrow> inet_aton e (dotted bs) = Some (htonl e (be_bytes_u32 bs))"
proof (erule length_4E)
  fix a b c d assume "bs = [a, b, c, d]"
  moreover have "unat x < 256" for x :: u8 using unsigned_less [of x] by simp
  moreover from this have "unat x < 2 ^ 32" for x :: u8 by (rule less_trans) simp
  ultimately show ?thesis by (simp add: dotted_def inet_aton_quad del: be_bytes_u32.simps)
qed

section \<open>Netmask lemmas\<close>

lemma netmask_loop_mask: "netmask_loop n (mask (Suc k) - 1) = mask (Suc (n + k)) - 1"
proof (induction n arbitrary: k)
  case (Suc n)
  have "push_bit 1 (mask (Suc k)) = (mask (Suc (Suc k)) - 1 :: u32)"
    by (simp add: mask_eq_exp_minus_1 push_bit_eq_mult algebra_simps)
  then show ?case using Suc [of "Suc k"] by simp
qed simp

lemma push_not_mask: "push_bit 1 (NOT (mask m) :: u32) = NOT (mask (Suc m))"
  by (rule bit_word_eqI) (auto simp only: bit_push_bit_iff bit_not_iff bit_mask_iff possible_bit_word)

lemma prefix_loop_mask: "m \<le> 32 \<Longrightarrow> prefix_loop (NOT (mask m)) i = i + (32 - int m)"
proof (induction "32 - m" arbitrary: m i)
  case 0
  then have m: "NOT (mask m) = (0 :: u32)"
    by (intro bit_word_eqI) (auto simp: bit_not_iff bit_mask_iff)
  have "m = 32" using 0 by simp
  then show ?case unfolding m by (subst prefix_loop.simps) simp
next
  case (Suc k)
  have nz: "NOT (mask m) \<noteq> (0 :: u32)"
  proof
    assume "NOT (mask m) = (0 :: u32)"
    moreover have "bit (NOT (mask m) :: u32) m"
      using Suc.hyps(2) by (simp add: bit_not_iff bit_mask_iff)
    ultimately show False by simp
  qed
  have "prefix_loop (NOT (mask m)) i = prefix_loop (NOT (mask (Suc m))) (i + 1)"
    using nz by (subst prefix_loop.simps) (simp add: push_not_mask [simplified])
  also have "\<dots> = i + 1 + (32 - int (Suc m))"
    using Suc.hyps by (intro Suc.hyps(1)) auto
  finally show ?case by simp
qed


section \<open>Properties\<close>

lemma inet_aton_ntoa: "inet_aton e (inet_ntoa e ina) = Some ina"
proof -
  let ?bs = "u32_bytes (ke_big_endian e) ina"
  obtain a b c d where bs: "?bs = [a, b, c, d]" by (rule length_4E [OF length_u32_bytes])
  have "inet_aton e (dotted ?bs) = Some (htonl e (be_bytes_u32 ?bs))" by (simp add: dotted_quad)
  moreover have "htonl e (be_bytes_u32 ?bs) = bytes_u32 (ke_big_endian e) ?bs"
    by (simp add: htonl_def bs del: be_bytes_u32.simps)
  ultimately show ?thesis by (simp add: inet_ntoa_def)
qed

text \<open>Printing an address with \<open>inet_ntoa\<close> and parsing the text with \<open>inet_aton\<close> gives the
  address back, for every 32-bit address and on a host of either byte order.\<close>

theorem inet_roundtrip: "inet_aton e (inet_ntoa e ina) = Some ina"
  by (rule inet_aton_ntoa)

text \<open>A decimal quadruple is accepted exactly when every part is at most 255, and then denotes
  the address with these four bytes in network order.\<close>

theorem inet_aton_decimal_quad:
  assumes "a < 2 ^ 32" "b < 2 ^ 32" "c < 2 ^ 32" "d < 2 ^ 32"
  shows "inet_aton e (dec a @ ''.'' @ dec b @ ''.'' @ dec c @ ''.'' @ dec d) =
    (if a < 256 \<and> b < 256 \<and> c < 256 \<and> d < 256
     then Some (htonl e (be_bytes_u32 [of_nat a, of_nat b, of_nat c, of_nat d]))
     else None)"
  using inet_aton_quad [OF assms, of e] by simp

theorem inet_aton_decimal_quad_witness:
  "\<forall>e. inet_aton e (dec 192 @ ''.'' @ dec 168 @ ''.'' @ dec 0 @ ''.'' @ dec 300) = None
   \<and> inet_aton e (dec 192 @ ''.'' @ dec 168 @ ''.'' @ dec 0 @ ''.'' @ dec 40)
       = Some (htonl e (be_bytes_u32 [of_nat 192, of_nat 168, of_nat 0, of_nat 40]))"
  using inet_aton_decimal_quad [of 192 168 0 300] inet_aton_decimal_quad [of 192 168 0 40]
  by simp

text \<open>\<open>calculate_netmask t\<close> is not the mask with t leading ones: it has one less (a /24 request
  gives the /23 mask). \<open>calculate_prefix\<close> has the opposite error, so it still inverts it
  for every prefix length from 1 to 32.\<close>

theorem netmask_off_by_one:
  assumes "t \<le> 32"
  shows "calculate_netmask t = NOT (mask (nat (33 - t)))
    \<and> (1 \<le> t \<longrightarrow> calculate_prefix (calculate_netmask t) = t)"
proof -
  have "netmask_loop (nat (32 - t)) 0 + 1 = mask (nat (33 - t))"
    using netmask_loop_mask [of "nat (32 - t)" 0] assms by (simp add: nat_diff_distrib' Suc_nat_eq_nat_zadd1)
  then have m: "calculate_netmask t = NOT (mask (nat (33 - t)))"
    by (simp add: calculate_netmask_def)
  moreover have "calculate_prefix (NOT (mask (nat (33 - t)))) = t" if "1 \<le> t"
    using that assms by (simp add: calculate_prefix_def prefix_loop_mask)
  ultimately show ?thesis by simp
qed

theorem netmask_off_by_one_witness:
  "calculate_netmask 24 = NOT (mask 9) \<and> calculate_prefix (calculate_netmask 24) = 24"
proof -
  have t: "(24 :: int) \<le> 32" "(1 :: int) \<le> 24" and n: "nat (33 - 24) = 9" by simp_all
  show ?thesis using netmask_off_by_one [OF t(1)] t(2) unfolding n by blast
qed

text \<open>The sequence number comparison is circular: advancing a number by less than half the
  range makes it greater, wrap-around included; and \<open>seq_greater\<close> also holds of equal numbers,
  so it is the negation of "strictly less", not of \<open>seq_less_or_equal\<close>.\<close>

theorem seq_compare:
  assumes "0 < k" "k < 2 ^ 31"
  shows "seq_greater (a + k) a \<and> \<not> seq_greater a (a + k) \<and> \<not> seq_less_or_equal (a + k) a
    \<and> seq_less_or_equal a (a + k) \<and> seq_greater a a \<and> seq_less_or_equal a a"
proof -
  have u: "uint k < 2 ^ 31" using assms(2) by (simp add: word_less_def)
  have p: "0 < uint k" using assms(1) by (simp add: word_less_def)
  have s: "sint k = uint k" using u p by (simp add: sint_uint signed_take_bit_int_eq_self)
  have "sint (- k) = - uint k"
    using u p by (simp add: sint_word_ariths(4) s signed_take_bit_int_eq_self)
  with p s show ?thesis by (simp add: seq_greater_def seq_less_or_equal_def)
qed

theorem seq_compare_witness:
  "seq_greater 5 0xfffffff0 \<and> \<not> seq_less_or_equal 5 0xfffffff0"
proof -
  have "0xfffffff0 + 21 = (5 :: u32)" by simp
  then show ?thesis using seq_compare [of 21 "0xfffffff0"] by (simp only:) simp
qed

end
