(* ===== verification/FloodCore.thy ===== *)
theory FloodCore
  imports KernelEnv
begin

text \<open>
  The queue of flooded messages already seen: \<open>kaodv/src/flood_id.c\<close> and \<open>caching/src/cFlood.c\<close>
  are the same code on two copies of the structure. An entry holds the originator and the
  number of a flooded message and the time until which it is remembered. New entries go to the
  front; the search stops at the first entry that has expired. The locale \<open>dup_filter\<close> states
  what the handlers rely on when they drop a message they have seen.
\<close>

record flood_id =
  fl_src_ip :: u32
  fl_dst_ip :: u32
  fl_id :: u32
  fl_lifetime :: u64

text \<open>The loop of \<open>find_flood_id\<close>.\<close>

fun find_flood_loop :: "kenv \<Rightarrow> u64 \<Rightarrow> u32 \<Rightarrow> u32 \<Rightarrow> flood_id nodes \<Rightarrow> (addr \<times> flood_id) option" where
  "find_flood_loop e now src i [] = None"
| "find_flood_loop e now src i ((a, f) # fs) =
     (if ke_time_before e (fl_lifetime f) now then None
      else if src = fl_src_ip f \<and> i = fl_id f then Some (a, f)
      else find_flood_loop e now src i fs)"

text \<open>The loop of \<open>flush_flood_id_queue\<close>: the entries that stay, the state with the others
  freed and their number.\<close>

fun flush_flood_loop :: "kenv \<Rightarrow> u64 \<Rightarrow> flood_id nodes \<Rightarrow> 'z kstate_scheme
    \<Rightarrow> flood_id nodes \<times> 'z kstate_scheme \<times> nat" where
  "flush_flood_loop e now [] s = ([], s, 0)"
| "flush_flood_loop e now ((a, f) # fs) s =
     (if ke_time_before e (fl_lifetime f) now
      then (let (ks, t, n) = flush_flood_loop e now fs (kfree a s) in (ks, t, Suc n))
      else (let (ks, t, n) = flush_flood_loop e now fs s in ((a, f) # ks, t, n)))"

text \<open>The loop of \<open>cleanup_flood_id_queue\<close>.\<close>

fun free_floods :: "flood_id nodes \<Rightarrow> 'z kstate_scheme \<Rightarrow> 'z kstate_scheme" where
  "free_floods [] s = s"
| "free_floods ((a, f) # fs) s = free_floods fs (kfree a s)"

section \<open>The interface: a filter for duplicates\<close>

datatype ('k, 't) filter_op = Add 'k 't | Flush 't

locale dup_filter =
  fixes seen :: "'t \<Rightarrow> 'k \<Rightarrow> 'q \<Rightarrow> bool"
    and add :: "'k \<Rightarrow> 't \<Rightarrow> 'q \<Rightarrow> 'q"
    and flush :: "'t \<Rightarrow> 'q \<Rightarrow> 'q"
    and expired :: "'t \<Rightarrow> 't \<Rightarrow> bool"
    and known :: "'k \<Rightarrow> 'q \<Rightarrow> bool"
  assumes seen_add: "\<not> expired x t \<Longrightarrow> seen t k (add k' x q) \<longleftrightarrow> k = k' \<or> seen t k q"
    and seen_flush: "(\<And>x. expired x now \<Longrightarrow> expired x t) \<Longrightarrow> seen t k q \<Longrightarrow> seen t k (flush now q)"
    and seen_known: "seen t k q \<Longrightarrow> known k q"
    and known_add: "known k (add k' x q) \<Longrightarrow> k = k' \<or> known k q"
    and known_flush: "known k (flush now q) \<Longrightarrow> known k q"
begin

definition apply_op :: "('k, 't) filter_op \<Rightarrow> 'q \<Rightarrow> 'q" where
  "apply_op oper q = (case oper of Add k x \<Rightarrow> add k x q | Flush now \<Rightarrow> flush now q)"

definition run_ops :: "('k, 't) filter_op list \<Rightarrow> 'q \<Rightarrow> 'q" where
  "run_ops ops q = fold apply_op ops q"

text \<open>An operation a message seen at time t survives: an entry added lives at t, and
  a flush happens at a time by which nothing has expired that lives at t.\<close>

definition harmless :: "'t \<Rightarrow> ('k, 't) filter_op \<Rightarrow> bool" where
  "harmless t oper = (case oper of Add k x \<Rightarrow> \<not> expired x t
     | Flush now \<Rightarrow> (\<forall>x. expired x now \<longrightarrow> expired x t))"

lemma seen_op: "harmless t oper \<Longrightarrow> seen t k q \<Longrightarrow> seen t k (apply_op oper q)"
  by (cases oper) (auto simp: harmless_def apply_op_def seen_add intro: seen_flush)

lemma seen_run: "list_all (harmless t) ops \<Longrightarrow> seen t k q \<Longrightarrow> seen t k (run_ops ops q)"
  unfolding run_ops_def
  by (induction ops arbitrary: q) (auto intro: seen_op)

text \<open>A message stays recognised until its own entry expires.\<close>

lemma seen_after_add:
  assumes "\<not> expired x t" "list_all (harmless t) ops"
  shows "seen t k (run_ops ops (add k x q))"
  using assms by (intro seen_run) (simp_all add: seen_add)

text \<open>A message that was never added is never recognised.\<close>

lemma known_run: "known k (run_ops ops q) \<Longrightarrow> known k q \<or> (\<exists>x. Add k x \<in> set ops)"
  unfolding run_ops_def
proof (induction ops arbitrary: q)
  case (Cons oper ops)
  then have "known k (apply_op oper q) \<or> (\<exists>x. Add k x \<in> set ops)" by simp
  then show ?case
    by (cases oper) (auto simp: apply_op_def dest: known_add known_flush)
qed simp

lemma not_seen_run: "\<not> known k q \<Longrightarrow> (\<forall>x. Add k x \<notin> set ops) \<Longrightarrow> \<not> seen t k (run_ops ops q)"
  using known_run seen_known by blast

end

section \<open>The flood queue is such a filter\<close>

text \<open>The key of a flooded message is its originator and its number.\<close>

definition flood_seen :: "kenv \<Rightarrow> u64 \<Rightarrow> u32 \<times> u32 \<Rightarrow> flood_id nodes \<Rightarrow> bool" where
  "flood_seen e t k q = (find_flood_loop e t (fst k) (snd k) q \<noteq> None)"

definition flood_add :: "addr \<Rightarrow> u32 \<Rightarrow> u32 \<times> u32 \<Rightarrow> u64 \<Rightarrow> flood_id nodes \<Rightarrow> flood_id nodes" where
  "flood_add a dst k x q =
     (a, \<lparr>fl_src_ip = fst k, fl_dst_ip = dst, fl_id = snd k, fl_lifetime = x\<rparr>) # q"

definition flood_live :: "kenv \<Rightarrow> u64 \<Rightarrow> flood_id nodes \<Rightarrow> flood_id nodes" where
  "flood_live e now q = filter (\<lambda>n. \<not> ke_time_before e (fl_lifetime (snd n)) now) q"

definition flood_known :: "u32 \<times> u32 \<Rightarrow> flood_id nodes \<Rightarrow> bool" where
  "flood_known k q = (\<exists>f \<in> set (nl_vals q). fl_src_ip f = fst k \<and> fl_id f = snd k)"

lemma flush_flood_live: "fst (flush_flood_loop e now q s) = flood_live e now q"
  by (induction e now q s rule: flush_flood_loop.induct)
    (auto simp: flood_live_def case_prod_beta)

lemma flush_flood_count:
  "length (fst (flush_flood_loop e now q s)) + snd (snd (flush_flood_loop e now q s)) = length q"
  by (induction e now q s rule: flush_flood_loop.induct) (auto simp: case_prod_beta)

lemma flood_seen_flush:
  assumes "\<And>x. ke_time_before e x now \<Longrightarrow> ke_time_before e x t"
  shows "flood_seen e t k q \<Longrightarrow> flood_seen e t k (flood_live e now q)"
proof (induction q)
  case (Cons n q)
  then show ?case using assms [of "fl_lifetime (snd n)"]
    by (cases n) (auto simp: flood_seen_def flood_live_def split: if_splits)
qed (simp add: flood_seen_def)

lemma flood_seen_known: "flood_seen e t k q \<Longrightarrow> flood_known k q"
  by (induction q) (auto simp: flood_seen_def flood_known_def split: if_splits)

interpretation fl: dup_filter "flood_seen e" "flood_add a dst" "flood_live e" "ke_time_before e" flood_known
  for e a dst
proof unfold_locales
  fix x t k k' q
  assume "\<not> ke_time_before e x t"
  then show "flood_seen e t k (flood_add a dst k' x q) \<longleftrightarrow> k = k' \<or> flood_seen e t k q"
    by (cases k; cases k') (auto simp: flood_seen_def flood_add_def)
next
  fix now t k q
  assume "\<And>x. ke_time_before e x now \<Longrightarrow> ke_time_before e x t" "flood_seen e t k q"
  then show "flood_seen e t k (flood_live e now q)" by (rule flood_seen_flush)
next
  fix t k q
  assume "flood_seen e t k q"
  then show "flood_known k q" by (rule flood_seen_known)
next
  fix k k' x q
  assume "flood_known k (flood_add a dst k' x q)"
  then show "k = k' \<or> flood_known k q"
    by (cases k; cases k') (auto simp: flood_known_def flood_add_def)
next
  fix k now q
  assume "flood_known k (flood_live e now q)"
  then show "flood_known k q" by (force simp: flood_known_def flood_live_def nl_vals_def)
qed

lemma find_flood_loop_in: "find_flood_loop e t src i q = Some (a, f) \<Longrightarrow>
  (a, f) \<in> set q \<and> fl_src_ip f = src \<and> fl_id f = i \<and> \<not> ke_time_before e (fl_lifetime f) t"
  by (induction q) (auto split: if_splits)

text \<open>Where the lifetimes never increase from the front, stopping at the first expired entry
  loses nothing: the search is that of every live entry.\<close>

lemma find_flood_loop_sorted:
  assumes "sorted_wrt (\<lambda>f g. ke_time_before e (fl_lifetime f) t \<longrightarrow> ke_time_before e (fl_lifetime g) t) (nl_vals q)"
  shows "find_flood_loop e t src i q =
    nl_find (\<lambda>f. \<not> ke_time_before e (fl_lifetime f) t \<and> src = fl_src_ip f \<and> i = fl_id f) q"
  using assms
proof (induction q)
  case (Cons n q)
  then show ?case
    by (cases n) (auto simp: nl_find_None [THEN iffD2] eq_commute [of None])
qed simp

lemma flush_flood_loop_frame [simp, frame]:
  "k_time (fst (snd (flush_flood_loop e now q s))) = k_time s"
  "k_jiffies (fst (snd (flush_flood_loop e now q s))) = k_jiffies s"
  "k_timer_pending (fst (snd (flush_flood_loop e now q s))) = k_timer_pending s"
  "k_allocs (fst (snd (flush_flood_loop e now q s))) = k_allocs s"
  "k_out (fst (snd (flush_flood_loop e now q s))) = k_out s"
  "kstate.more (fst (snd (flush_flood_loop e now q s))) = kstate.more s"
  by (induction e now q s rule: flush_flood_loop.induct) (simp_all add: case_prod_beta kfree_def fault_def)

end
