(* ===== verification/AodvData.thy ===== *)
theory AodvData
  imports InetUtils FloodCore
begin

unbundle bit_operations_syntax

text \<open>
  The data of the routing module, from \<open>kaodv/src/aodv.h\<close>: its constants, its tables' entries,
  its messages with their layout on the wire, and \<open>aodv_state\<close>, the module's global variables
  on top of \<open>kstate\<close>. Addresses (u32) are as they lie in memory, that is in network order, and
  are compared as the code compares them. An \<open>n:1\<close> bit field is a bool. A table is a node list in
  link order; \<open>a_tasks\<close> holds the task queue oldest first (TaskQueue shows that the
  pointer structure delivers it in this order).
\<close>

section \<open>Constants\<close>

abbreviation (input) AODVPORT :: "'a::numeral" where "AODVPORT \<equiv> 654"
abbreviation (input) ACTIVE_ROUTE_TIMEOUT :: "'a::numeral" where "ACTIVE_ROUTE_TIMEOUT \<equiv> 3000"
abbreviation (input) ALLOWED_HELLO_LOSS :: "'a::numeral" where "ALLOWED_HELLO_LOSS \<equiv> 2"
abbreviation (input) HELLO_INTERVAL :: "'a::numeral" where "HELLO_INTERVAL \<equiv> 1000"
abbreviation (input) DELETE_PERIOD :: "u64" where "DELETE_PERIOD \<equiv> ALLOWED_HELLO_LOSS * HELLO_INTERVAL"
abbreviation (input) MY_ROUTE_TIMEOUT :: "'a::numeral" where "MY_ROUTE_TIMEOUT \<equiv> ACTIVE_ROUTE_TIMEOUT"
abbreviation (input) NET_DIAMETER :: "'a::numeral" where "NET_DIAMETER \<equiv> 10"
abbreviation (input) NODE_TRAVERSAL_TIME :: "'a::numeral" where "NODE_TRAVERSAL_TIME \<equiv> 40"
abbreviation (input) NET_TRAVERSAL_TIME :: "u64" where
  "NET_TRAVERSAL_TIME \<equiv> 2 * NODE_TRAVERSAL_TIME * NET_DIAMETER"
abbreviation (input) PATH_DISCOVERY_TIME :: "u64" where "PATH_DISCOVERY_TIME \<equiv> 2 * NET_TRAVERSAL_TIME"
abbreviation (input) RREQ_RETRIES :: "'a::numeral" where "RREQ_RETRIES \<equiv> 2"

abbreviation (input) RREQ_MESSAGE :: u8 where "RREQ_MESSAGE \<equiv> 1"
abbreviation (input) RREP_MESSAGE :: u8 where "RREP_MESSAGE \<equiv> 2"
abbreviation (input) RERR_MESSAGE :: u8 where "RERR_MESSAGE \<equiv> 3"

abbreviation (input) TASK_RREQ :: int where "TASK_RREQ \<equiv> 1"
abbreviation (input) TASK_RREP :: int where "TASK_RREP \<equiv> 2"
abbreviation (input) TASK_RERR :: int where "TASK_RERR \<equiv> 3"
abbreviation (input) TASK_RESEND_RREQ :: int where "TASK_RESEND_RREQ \<equiv> 101"
abbreviation (input) TASK_HELLO :: int where "TASK_HELLO \<equiv> 102"
abbreviation (input) TASK_NEIGHBOR :: int where "TASK_NEIGHBOR \<equiv> 103"
abbreviation (input) TASK_CLEANUP :: int where "TASK_CLEANUP \<equiv> 104"
abbreviation (input) TASK_ROUTE_CLEANUP :: int where "TASK_ROUTE_CLEANUP \<equiv> 105"

text \<open>Hook numbers and error codes of the kernel headers the code names.\<close>

abbreviation (input) NF_INET_POST_ROUTING :: nat where "NF_INET_POST_ROUTING \<equiv> 4"
abbreviation (input) ENOMEM :: int where "ENOMEM \<equiv> 12"
abbreviation (input) EBUSY :: int where "EBUSY \<equiv> 16"
abbreviation (input) ENODEV :: int where "ENODEV \<equiv> 19"
abbreviation (input) ENODATA :: int where "ENODATA \<equiv> 61"
abbreviation (input) ETIMEDOUT :: int where "ETIMEDOUT \<equiv> 110"
abbreviation (input) EHOSTUNREACH :: int where "EHOSTUNREACH \<equiv> 113"

section \<open>Table entries\<close>

record aodv_route =
  rt_ip :: u32
  rt_netmask :: u32
  rt_seq :: u32
  rt_old_seq :: u32
  rt_metric :: u8
  rt_next_hop :: u32
  rt_rreq_id :: u32
  rt_lifetime :: u64
  rt_dev :: "netdev option"
  rt_valid :: bool
  rt_seq_valid :: bool
  rt_self :: bool

record aodv_dev =
  dv_dev :: netdev
  dv_route_entry :: addr
  dv_ip :: u32
  dv_netmask :: u32
  dv_name :: string
  dv_sock :: "addr option"

record aodv_neigh =
  nb_ip :: u32
  nb_seq :: u32
  nb_lifetime :: u64
  nb_hw_addr :: "u8 list"
  nb_dev :: "netdev option"
  nb_route_entry :: "addr option"
  nb_link :: int
  nb_valid_link :: bool

record task =
  tk_type :: int
  tk_id :: u32
  tk_time :: u64
  tk_dst_ip :: u32
  tk_src_ip :: u32
  tk_dev :: "netdev option"
  tk_ttl :: u8
  tk_retries :: u16
  tk_src_hw_addr :: "u8 list"
  tk_data_len :: nat
  tk_data :: "(addr \<times> u8 list) option"

section \<open>Messages\<close>

record rreq =
  rq_type :: u8
  rq_j :: bool
  rq_r :: bool
  rq_g :: bool
  rq_d :: bool
  rq_u :: bool
  rq_reserved :: u8
  rq_second_reserved :: u8
  rq_metric :: u8
  rq_rreq_id :: u32
  rq_dst_ip :: u32
  rq_dst_seq :: u32
  rq_src_ip :: u32
  rq_src_seq :: u32

record rrep =
  rp_type :: u8
  rp_a :: bool
  rp_reserved1 :: u8
  rp_reserved2 :: u8
  rp_metric :: u8
  rp_dst_ip :: u32
  rp_dst_seq :: u32
  rp_src_ip :: u32
  rp_lifetime :: u32

record rerr =
  re_type :: u8
  re_n :: bool
  re_reserved :: u16
  re_dst_count :: u8

record aodv_dst =
  ds_ip :: u32
  ds_seq :: u32

abbreviation (input) sizeof_rreq :: nat where "sizeof_rreq \<equiv> 24"
abbreviation (input) sizeof_rrep :: nat where "sizeof_rrep \<equiv> 20"
abbreviation (input) sizeof_rerr :: nat where "sizeof_rerr \<equiv> 4"
abbreviation (input) sizeof_aodv_dst :: nat where "sizeof_aodv_dst \<equiv> 8"
abbreviation (input) sizeof_rrep_ack :: nat where "sizeof_rrep_ack \<equiv> 1"

definition flag :: "bool \<Rightarrow> nat \<Rightarrow> u8" where
  "flag b n = (if b then push_bit n 1 else 0)"

definition rreq_bytes :: "bool \<Rightarrow> rreq \<Rightarrow> u8 list" where
  "rreq_bytes be r =
     [rq_type r,
      flag (rq_j r) 7 OR flag (rq_r r) 6 OR flag (rq_g r) 5 OR flag (rq_d r) 4
        OR flag (rq_u r) 3 OR (rq_reserved r AND 7),
      rq_second_reserved r, rq_metric r]
     @ words_bytes be [rq_rreq_id r, rq_dst_ip r, rq_dst_seq r, rq_src_ip r, rq_src_seq r]"

definition bytes_rreq :: "bool \<Rightarrow> u8 list \<Rightarrow> rreq" where
  "bytes_rreq be bs =
     \<lparr>rq_type = bs ! 0, rq_j = bit (bs ! 1) 7, rq_r = bit (bs ! 1) 6, rq_g = bit (bs ! 1) 5,
      rq_d = bit (bs ! 1) 4, rq_u = bit (bs ! 1) 3, rq_reserved = (bs ! 1) AND 7,
      rq_second_reserved = bs ! 2, rq_metric = bs ! 3,
      rq_rreq_id = word_at be bs 0, rq_dst_ip = word_at be bs 1, rq_dst_seq = word_at be bs 2,
      rq_src_ip = word_at be bs 3, rq_src_seq = word_at be bs 4\<rparr>"

definition rrep_bytes :: "bool \<Rightarrow> rrep \<Rightarrow> u8 list" where
  "rrep_bytes be r =
     [rp_type r, flag (rp_a r) 7 OR (rp_reserved1 r AND 127), rp_reserved2 r, rp_metric r]
     @ words_bytes be [rp_dst_ip r, rp_dst_seq r, rp_src_ip r, rp_lifetime r]"

definition bytes_rrep :: "bool \<Rightarrow> u8 list \<Rightarrow> rrep" where
  "bytes_rrep be bs =
     \<lparr>rp_type = bs ! 0, rp_a = bit (bs ! 1) 7, rp_reserved1 = (bs ! 1) AND 127,
      rp_reserved2 = bs ! 2, rp_metric = bs ! 3,
      rp_dst_ip = word_at be bs 0, rp_dst_seq = word_at be bs 1,
      rp_src_ip = word_at be bs 2, rp_lifetime = word_at be bs 3\<rparr>"

text \<open>The order of \<open>n\<close> and \<open>reserved\<close> within their two bytes depends on the host.\<close>

definition rerr_bytes :: "bool \<Rightarrow> rerr \<Rightarrow> u8 list" where
  "rerr_bytes be r =
     (let n = flag (re_n r) 7; hi = ucast (drop_bit 8 (re_reserved r)) AND 127;
          lo = ucast (re_reserved r)
      in if be then [re_type r, n OR hi, lo, re_dst_count r]
         else [re_type r, lo, n OR hi, re_dst_count r])"

definition dsts_bytes :: "bool \<Rightarrow> aodv_dst list \<Rightarrow> u8 list" where
  "dsts_bytes be ds = words_bytes be (concat (map (\<lambda>d. [ds_ip d, ds_seq d]) ds))"

definition rerr_dst_at :: "bool \<Rightarrow> u8 list \<Rightarrow> nat \<Rightarrow> aodv_dst" where
  "rerr_dst_at be bs i = \<lparr>ds_ip = word_at be bs (2 * i), ds_seq = word_at be bs (2 * i + 1)\<rparr>"

definition rerr_count :: "u8 list \<Rightarrow> u8" where
  "rerr_count bs = bs ! 3"

section \<open>The module's state\<close>

record aodv_state = kstate +
  g_my_route :: "addr option"
  g_my_ip :: u32
  g_broadcast_ip :: u32
  g_aodv_gateway :: u8
  aodv_overhead :: u32
  a_routes :: "aodv_route nodes"
  a_loose :: "aodv_route nodes"
  a_neighs :: "aodv_neigh nodes"
  a_floods :: "flood_id nodes"
  a_timers :: "task nodes"
  a_tasks :: "task nodes"
  a_devs :: "aodv_dev nodes"
  q_block :: "addr option"
  q_list :: "qentry list"
  q_len :: int
  q_maxlen :: int
  q_flushing :: bool
  q_terminate :: bool

section \<open>Layout lemmas\<close>

lemma length_rreq_bytes [simp]: "length (rreq_bytes be r) = sizeof_rreq"
  by (simp add: rreq_bytes_def)

lemma length_rrep_bytes [simp]: "length (rrep_bytes be r) = sizeof_rrep"
  by (simp add: rrep_bytes_def)

lemma length_rerr_bytes [simp]: "length (rerr_bytes be r) = sizeof_rerr"
  by (simp add: rerr_bytes_def Let_def)

lemma length_dsts_bytes [simp]: "length (dsts_bytes be ds) = sizeof_aodv_dst * length ds"
  by (induction ds) (auto simp: dsts_bytes_def)

lemma bit_flag [bit_simps]: "bit (flag b n) m \<longleftrightarrow> b \<and> m = n \<and> n < 8"
  by (auto simp: flag_def bit_exp_iff)

lemma bit_low_mask [simp]:
  "bit ((w :: u8) AND 7) n \<longleftrightarrow> bit w n \<and> n < 3"
  "bit ((w :: u8) AND 127) n \<longleftrightarrow> bit w n \<and> n < 7"
  using bit_mask_iff [of 3 n, where 'a = u8] bit_mask_iff [of 7 n, where 'a = u8]
  by (auto simp: bit_and_iff mask_eq_exp_minus_1)

lemma u8_and_eqI: "(\<And>n. n < 8 \<Longrightarrow> bit (a :: u8) n = bit b n) \<Longrightarrow> a = b"
  by (rule bit_word_eqI) simp


text \<open>The flag byte of a RREQ and of a RREP.\<close>

lemma rreq_flags:
  fixes w :: u8
  assumes "f = flag j 7 OR flag r 6 OR flag g 5 OR flag d 4 OR flag u 3 OR (w AND 7)"
  shows "bit f 7 = j" "bit f 6 = r" "bit f 5 = g" "bit f 4 = d" "bit f 3 = u" "f AND 7 = w AND 7"
proof -
  show "bit f 7 = j" "bit f 6 = r" "bit f 5 = g" "bit f 4 = d" "bit f 3 = u"
    by (simp_all add: assms bit_or_iff bit_flag)
  show "f AND 7 = w AND 7"
    by (rule bit_word_eqI) (auto simp: assms bit_or_iff bit_flag)
qed

lemma rrep_flags:
  fixes w :: u8
  assumes "f = flag a 7 OR (w AND 127)"
  shows "bit f 7 = a" "f AND 127 = w AND 127"
proof -
  show "bit f 7 = a" by (simp add: assms bit_or_iff bit_flag)
  show "f AND 127 = w AND 127"
    by (rule bit_word_eqI) (auto simp: assms bit_or_iff bit_flag)
qed

lemma bytes_rreq_rreq_bytes [simp]:
  "bytes_rreq be (rreq_bytes be r) = r\<lparr>rq_reserved := rq_reserved r AND 7\<rparr>"
  by (simp add: bytes_rreq_def rreq_bytes_def rreq_flags [OF refl])

lemma bytes_rrep_rrep_bytes [simp]:
  "bytes_rrep be (rrep_bytes be r) = r\<lparr>rp_reserved1 := rp_reserved1 r AND 127\<rparr>"
  by (simp add: bytes_rrep_def rrep_bytes_def rrep_flags [OF refl])

lemma concat_pairs_nth:
  "i < length ds \<Longrightarrow> concat (map (\<lambda>d. [f d, g d]) ds) ! (2 * i) = f (ds ! i)
     \<and> concat (map (\<lambda>d. [f d, g d]) ds) ! (2 * i + 1) = g (ds ! i)"
proof (induction ds arbitrary: i)
  case (Cons d ds)
  then show ?case by (cases i) auto
qed simp

lemma length_concat_pairs [simp]: "length (concat (map (\<lambda>d. [f d, g d]) ds)) = 2 * length ds"
  by (induction ds) auto

lemma rerr_dst_at_bytes:
  assumes "i < length ds"
  shows "rerr_dst_at be (rerr_bytes be r @ dsts_bytes be ds) i = ds ! i"
proof -
  have "2 * i < 2 * length ds" "2 * i + 1 < 2 * length ds" using assms by simp_all
  then show ?thesis using concat_pairs_nth [OF assms, of ds_ip ds_seq] assms
    by (simp add: rerr_dst_at_def dsts_bytes_def word_at_words)
qed

lemma rerr_count_bytes [simp]: "rerr_count (rerr_bytes be r @ bs) = re_dst_count r"
  by (simp add: rerr_count_def rerr_bytes_def Let_def)

end
