(* ===== verification/TimerCore.thy ===== *)
theory TimerCore
  imports KernelEnv
begin

text \<open>
  The timer queue both modules keep, parametric in the kind of task: \<open>kaodv/src/timer_queue.c\<close>
  and \<open>caching/src/cTimer.c\<close> differ only in the fields of a task. A queue is a singly linked list,
  here a node list; \<open>tm\<close> reads the due time of a task.
  The kernel timer that drives it is the flag \<open>k_timer_pending\<close> and the events AddTimer,
  ModTimer and DelTimer. A \<open>long\<close> is 32 bits on the MIPS target of the Makefiles.
\<close>

text \<open>The loop and the three ways to link of \<open>queue_timer\<close>: before the first task that the
  new one is not after.\<close>

fun link_timer :: "kenv \<Rightarrow> ('a \<Rightarrow> u64) \<Rightarrow> addr \<times> 'a \<Rightarrow> 'a nodes \<Rightarrow> 'a nodes" where
  "link_timer e tm new [] = [new]"
| "link_timer e tm new (t # ts) =
     (if ke_time_after e (tm (snd new)) (tm (snd t)) then t # link_timer e tm new ts
      else new # t # ts)"

text \<open>\<open>first_timer_due\<close>: the head of the queue if it is due.\<close>

definition take_due :: "kenv \<Rightarrow> ('a \<Rightarrow> u64) \<Rightarrow> u64 \<Rightarrow> 'a nodes \<Rightarrow> (addr \<times> 'a) option \<times> 'a nodes" where
  "take_due e tm currtime q =
     (case q of
        [] \<Rightarrow> (None, q)
      | t # ts \<Rightarrow> if ke_time_before_eq e (tm (snd t)) currtime then (Some t, ts) else (None, q))"

text \<open>The loop of \<open>timer_queue_signal\<close>: the tasks taken out and the queue that is left.\<close>

fun due_loop :: "kenv \<Rightarrow> ('a \<Rightarrow> u64) \<Rightarrow> u64 \<Rightarrow> 'a nodes \<Rightarrow> 'a nodes \<times> 'a nodes" where
  "due_loop e tm currtime [] = ([], [])"
| "due_loop e tm currtime (t # ts) =
     (case take_due e tm currtime (t # ts) of
        (None, q) \<Rightarrow> ([], q)
      | (Some d, q) \<Rightarrow> (let (ds, r) = due_loop e tm currtime ts in (d # ds, r)))"

text \<open>\<open>tvtojiffies\<close> on the unsigned seconds and microseconds, in 32-bit arithmetic.\<close>

definition tvtojiffies :: "kenv \<Rightarrow> u32 \<Rightarrow> u32 \<Rightarrow> u32" where
  "tvtojiffies e sec usec =
     (if (- 1) div ke_hz e < sec then - 1
      else (let u = usec + (1000000 div ke_hz e - 1) in
            ke_hz e * sec + u div (1000000 div ke_hz e)))"

definition timer_delay :: "kenv \<Rightarrow> u64 \<Rightarrow> u64 \<Rightarrow> u32 \<times> u32" where
  "timer_delay e due currtime =
     (if ke_time_before e due currtime then (0, 1)
      else (let numerator = due - currtime in
            (ucast (numerator div 1000), ucast (numerator mod 1000) * 1000)))"

text \<open>\<open>update_timer_queue\<close>: stop the kernel timer, or set it for the head of the queue.\<close>

definition arm_timer :: "kenv \<Rightarrow> ('a \<Rightarrow> u64) \<Rightarrow> 'a nodes \<Rightarrow> 'z kstate_scheme \<Rightarrow> 'z kstate_scheme" where
  "arm_timer e tm q s =
     (case q of
        [] \<Rightarrow> emit DelTimer (s\<lparr>k_timer_pending := False\<rparr>)
      | t # ts \<Rightarrow>
          let delay_time = timer_delay e (tm (snd t)) (getcurrtime s);
              expires = k_jiffies s + tvtojiffies e (fst delay_time) (snd delay_time)
          in if k_timer_pending s then emit (ModTimer expires) s
             else emit (AddTimer expires) (s\<lparr>k_timer_pending := True\<rparr>))"

section \<open>Lemmas\<close>

lemma set_link_timer [simp]: "set (link_timer e tm t q) = insert t (set q)"
  by (induction q) auto

lemma set_addrs_link_timer [simp]:
  "set (nl_addrs (link_timer e tm t q)) = insert (fst t) (set (nl_addrs q))"
  by (auto simp: nl_addrs_def)

lemma distinct_link_timer [simp]:
  "distinct (nl_addrs (link_timer e tm t q)) \<longleftrightarrow> fst t \<notin> set (nl_addrs q) \<and> distinct (nl_addrs q)"
  by (induction q) auto

text \<open>Where the times are linearly ordered, the queue is kept sorted, and it is a
  priority queue in which a new task goes before those due at the same time.\<close>

lemma link_timer_insert:
  assumes "time_macros e" "time_window e T" "tm (snd t) \<in> T" "\<forall>x \<in> set (nl_vals q). tm x \<in> T"
  shows "link_timer e tm t q = nl_insert tm t q"
  using assms by (induction q) (auto simp: time_macros_def time_window_def)

lemma due_loop_takeWhile:
  "due_loop e tm now q =
     (takeWhile (\<lambda>t. ke_time_before_eq e (tm (snd t)) now) q,
      dropWhile (\<lambda>t. ke_time_before_eq e (tm (snd t)) now) q)"
  by (induction q) (auto simp: take_due_def)

lemma takeWhile_sorted:
  assumes "sorted_by k ns" "\<And>x y. x \<in> set (nl_vals ns) \<Longrightarrow> y \<in> set (nl_vals ns) \<Longrightarrow> k x \<le> k y \<Longrightarrow> P y \<Longrightarrow> P x"
  shows "takeWhile (\<lambda>n. P (snd n)) ns = filter (\<lambda>n. P (snd n)) ns
    \<and> dropWhile (\<lambda>n. P (snd n)) ns = filter (\<lambda>n. \<not> P (snd n)) ns"
  using assms
proof (induction ns)
  case (Cons n ns)
  have IH: "takeWhile (\<lambda>n. P (snd n)) ns = filter (\<lambda>n. P (snd n)) ns
      \<and> dropWhile (\<lambda>n. P (snd n)) ns = filter (\<lambda>n. \<not> P (snd n)) ns"
    using Cons.prems by (intro Cons.IH) auto
  have "\<forall>m \<in> set ns. \<not> P (snd m)" if "\<not> P (snd n)"
    using that Cons.prems by (fastforce simp: nl_vals_def)
  with IH show ?case by (auto simp: filter_empty_conv filter_id_conv)
qed simp

lemma arm_timer_frame [simp, frame]:
  "k_time (arm_timer e tm q s) = k_time s" "k_allocs (arm_timer e tm q s) = k_allocs s"
  "k_live (arm_timer e tm q s) = k_live s" "k_fault (arm_timer e tm q s) = k_fault s"
  "kstate.more (arm_timer e tm q s) = kstate.more s"
  by (cases q; simp add: arm_timer_def Let_def emit_def)+

text \<open>The kernel timer runs exactly when a task waits.\<close>

lemma arm_timer_pending: "k_timer_pending (arm_timer e tm q s) \<longleftrightarrow> q \<noteq> []"
  by (cases q) (simp_all add: arm_timer_def Let_def emit_def)

end
