(* ===== verification/AodvTimers.thy ===== *)
theory AodvTimers
  imports AodvData TimerCore
begin

unbundle bit_operations_syntax

text \<open>
  Tasks and timers of the routing module: \<open>kaodv/src/task_queue.c\<close> (creating and queueing a task)
  and \<open>kaodv/src/timer_queue.c\<close>. A timer is a task in \<open>a_timers\<close>; the kernel timer moves
  the due ones to \<open>a_tasks\<close>, from where the thread takes them.
\<close>

section \<open>What the memory functions and events leave alone\<close>

lemma emit_aodv_frame [simp, frame]:
  "g_my_route (emit ev s) = g_my_route s"
  "g_my_ip (emit ev s) = g_my_ip s"
  "g_broadcast_ip (emit ev s) = g_broadcast_ip s"
  "g_aodv_gateway (emit ev s) = g_aodv_gateway s"
  "aodv_overhead (emit ev s) = aodv_overhead s"
  "a_routes (emit ev s) = a_routes s"
  "a_loose (emit ev s) = a_loose s"
  "a_neighs (emit ev s) = a_neighs s"
  "a_floods (emit ev s) = a_floods s"
  "a_timers (emit ev s) = a_timers s"
  "a_tasks (emit ev s) = a_tasks s"
  "a_devs (emit ev s) = a_devs s"
  "q_list (emit ev s) = q_list s"
  "q_len (emit ev s) = q_len s"
  "q_maxlen (emit ev s) = q_maxlen s"
  "q_flushing (emit ev s) = q_flushing s"
  "q_terminate (emit ev s) = q_terminate s"
  by (simp_all add: emit_def)

lemma fault_aodv_frame [simp, frame]:
  "g_my_route (fault s) = g_my_route s"
  "g_my_ip (fault s) = g_my_ip s"
  "g_broadcast_ip (fault s) = g_broadcast_ip s"
  "g_aodv_gateway (fault s) = g_aodv_gateway s"
  "aodv_overhead (fault s) = aodv_overhead s"
  "a_routes (fault s) = a_routes s"
  "a_loose (fault s) = a_loose s"
  "a_neighs (fault s) = a_neighs s"
  "a_floods (fault s) = a_floods s"
  "a_timers (fault s) = a_timers s"
  "a_tasks (fault s) = a_tasks s"
  "a_devs (fault s) = a_devs s"
  "q_list (fault s) = q_list s"
  "q_len (fault s) = q_len s"
  "q_maxlen (fault s) = q_maxlen s"
  "q_flushing (fault s) = q_flushing s"
  "q_terminate (fault s) = q_terminate s"
  by (simp_all add: fault_def)

lemma kfree_aodv_frame [simp, frame]:
  "g_my_route (kfree a s) = g_my_route s"
  "g_my_ip (kfree a s) = g_my_ip s"
  "g_broadcast_ip (kfree a s) = g_broadcast_ip s"
  "g_aodv_gateway (kfree a s) = g_aodv_gateway s"
  "aodv_overhead (kfree a s) = aodv_overhead s"
  "a_routes (kfree a s) = a_routes s"
  "a_loose (kfree a s) = a_loose s"
  "a_neighs (kfree a s) = a_neighs s"
  "a_floods (kfree a s) = a_floods s"
  "a_timers (kfree a s) = a_timers s"
  "a_tasks (kfree a s) = a_tasks s"
  "a_devs (kfree a s) = a_devs s"
  "q_list (kfree a s) = q_list s"
  "q_len (kfree a s) = q_len s"
  "q_maxlen (kfree a s) = q_maxlen s"
  "q_flushing (kfree a s) = q_flushing s"
  "q_terminate (kfree a s) = q_terminate s"
  by (simp_all add: kfree_def fault_def)

lemma kfree_opt_frame [simp, frame]:
  "k_time (kfree_opt p s) = k_time s"
  "k_jiffies (kfree_opt p s) = k_jiffies s"
  "k_timer_pending (kfree_opt p s) = k_timer_pending s"
  "k_allocs (kfree_opt p s) = k_allocs s"
  "k_out (kfree_opt p s) = k_out s"
  "g_my_route (kfree_opt p s) = g_my_route s"
  "g_my_ip (kfree_opt p s) = g_my_ip s"
  "g_broadcast_ip (kfree_opt p s) = g_broadcast_ip s"
  "g_aodv_gateway (kfree_opt p s) = g_aodv_gateway s"
  "aodv_overhead (kfree_opt p s) = aodv_overhead s"
  "a_routes (kfree_opt p s) = a_routes s"
  "a_loose (kfree_opt p s) = a_loose s"
  "a_neighs (kfree_opt p s) = a_neighs s"
  "a_floods (kfree_opt p s) = a_floods s"
  "a_timers (kfree_opt p s) = a_timers s"
  "a_tasks (kfree_opt p s) = a_tasks s"
  "a_devs (kfree_opt p s) = a_devs s"
  "q_list (kfree_opt p s) = q_list s"
  "q_len (kfree_opt p s) = q_len s"
  "q_maxlen (kfree_opt p s) = q_maxlen s"
  "q_flushing (kfree_opt p s) = q_flushing s"
  "q_terminate (kfree_opt p s) = q_terminate s"
  by (simp_all add: kfree_opt_def kfree_def fault_def split: option.splits)

lemma kfree_frame2 [simp, frame]:
  "k_jiffies (kfree a s) = k_jiffies s" "k_timer_pending (kfree a s) = k_timer_pending s"
  "k_jiffies (emit ev s) = k_jiffies s" "k_timer_pending (emit ev s) = k_timer_pending s"
  "k_jiffies (fault s) = k_jiffies s" "k_timer_pending (fault s) = k_timer_pending s"
  by (simp_all add: kfree_def fault_def emit_def)

lemma kfree_opt_None [simp]: "kfree_opt None s = s"
  by (simp add: kfree_opt_def)

lemma kfree_opt_Some [simp]: "kfree_opt (Some a) s = kfree a s"
  by (simp add: kfree_opt_def)

lemma kmalloc_frame [simp, frame]:
  "k_time (snd (kmalloc e s)) = k_time s"
  "k_jiffies (snd (kmalloc e s)) = k_jiffies s"
  "k_timer_pending (snd (kmalloc e s)) = k_timer_pending s"
  "k_out (snd (kmalloc e s)) = k_out s"
  "k_fault (snd (kmalloc e s)) = k_fault s"
  "g_my_route (snd (kmalloc e s)) = g_my_route s"
  "g_my_ip (snd (kmalloc e s)) = g_my_ip s"
  "g_broadcast_ip (snd (kmalloc e s)) = g_broadcast_ip s"
  "g_aodv_gateway (snd (kmalloc e s)) = g_aodv_gateway s"
  "aodv_overhead (snd (kmalloc e s)) = aodv_overhead s"
  "a_routes (snd (kmalloc e s)) = a_routes s"
  "a_loose (snd (kmalloc e s)) = a_loose s"
  "a_neighs (snd (kmalloc e s)) = a_neighs s"
  "a_floods (snd (kmalloc e s)) = a_floods s"
  "a_timers (snd (kmalloc e s)) = a_timers s"
  "a_tasks (snd (kmalloc e s)) = a_tasks s"
  "a_devs (snd (kmalloc e s)) = a_devs s"
  "q_list (snd (kmalloc e s)) = q_list s"
  "q_len (snd (kmalloc e s)) = q_len s"
  "q_maxlen (snd (kmalloc e s)) = q_maxlen s"
  "q_flushing (snd (kmalloc e s)) = q_flushing s"
  "q_terminate (snd (kmalloc e s)) = q_terminate s"
  by (simp_all add: kmalloc_def)

lemma getcurrtime_upd [simp, frame]:
  "getcurrtime (s\<lparr>k_jiffies := x0\<rparr>) = getcurrtime s"
  "getcurrtime (s\<lparr>k_timer_pending := x1\<rparr>) = getcurrtime s"
  "getcurrtime (s\<lparr>k_allocs := x2\<rparr>) = getcurrtime s"
  "getcurrtime (s\<lparr>k_live := x3\<rparr>) = getcurrtime s"
  "getcurrtime (s\<lparr>k_out := x4\<rparr>) = getcurrtime s"
  "getcurrtime (s\<lparr>k_fault := x5\<rparr>) = getcurrtime s"
  "getcurrtime (s\<lparr>g_my_route := x6\<rparr>) = getcurrtime s"
  "getcurrtime (s\<lparr>g_my_ip := x7\<rparr>) = getcurrtime s"
  "getcurrtime (s\<lparr>g_broadcast_ip := x8\<rparr>) = getcurrtime s"
  "getcurrtime (s\<lparr>g_aodv_gateway := x9\<rparr>) = getcurrtime s"
  "getcurrtime (s\<lparr>aodv_overhead := x10\<rparr>) = getcurrtime s"
  "getcurrtime (s\<lparr>a_routes := x11\<rparr>) = getcurrtime s"
  "getcurrtime (s\<lparr>a_neighs := x12\<rparr>) = getcurrtime s"
  "getcurrtime (s\<lparr>a_floods := x13\<rparr>) = getcurrtime s"
  "getcurrtime (s\<lparr>a_timers := x14\<rparr>) = getcurrtime s"
  "getcurrtime (s\<lparr>a_tasks := x15\<rparr>) = getcurrtime s"
  "getcurrtime (s\<lparr>a_devs := x16\<rparr>) = getcurrtime s"
  "getcurrtime (s\<lparr>q_list := x17\<rparr>) = getcurrtime s"
  "getcurrtime (s\<lparr>q_len := x18\<rparr>) = getcurrtime s"
  "getcurrtime (s\<lparr>q_maxlen := x19\<rparr>) = getcurrtime s"
  "getcurrtime (s\<lparr>q_flushing := x20\<rparr>) = getcurrtime s"
  "getcurrtime (s\<lparr>q_terminate := x21\<rparr>) = getcurrtime s"
  "getcurrtime (s\<lparr>a_loose := x22\<rparr>) = getcurrtime s"
  "getcurrtime (s\<lparr>q_block := x23\<rparr>) = getcurrtime s"
  "getcurrtime (snd (kmalloc e s)) = getcurrtime s"
  "getcurrtime (kfree_opt p s) = getcurrtime s"
  by (simp_all add: getcurrtime_def)

section \<open>Tasks\<close>

text \<open>\<open>id\<close> and \<open>src_hw_addr\<close> of a new task are whatever the block contained.\<close>

definition new_task :: "kenv \<Rightarrow> int \<Rightarrow> addr \<Rightarrow> u64 \<Rightarrow> task" where
  "new_task e type a now =
     \<lparr>tk_type = type, tk_id = ucast (ke_junk e a 0), tk_time = now, tk_dst_ip = 0, tk_src_ip = 0,
      tk_dev = None, tk_ttl = 0, tk_retries = 0,
      tk_src_hw_addr = map (\<lambda>i. ucast (ke_junk e a (1 + i))) [0 ..< 6],
      tk_data_len = 0, tk_data = None\<rparr>"

definition create_task :: "kenv \<Rightarrow> int \<Rightarrow> aodv_state \<Rightarrow> (addr \<times> task) option \<times> aodv_state" where
  "create_task e type s =
     (case kmalloc e s of
        (None, s1) \<Rightarrow> (None, s1)
      | (Some a, s1) \<Rightarrow> (Some (a, new_task e type a (getcurrtime s)), s1))"

definition queue_aodv_task :: "addr \<times> task \<Rightarrow> aodv_state \<Rightarrow> aodv_state" where
  "queue_aodv_task t s = emit WakeThread (s\<lparr>a_tasks := a_tasks s @ [t]\<rparr>)"

definition insert_task_from_timer :: "(addr \<times> task) option \<Rightarrow> aodv_state \<Rightarrow> aodv_state" where
  "insert_task_from_timer timer_task s =
     (case timer_task of None \<Rightarrow> s | Some t \<Rightarrow> queue_aodv_task t s)"

text \<open>The block of a task's data, if it has any.\<close>

definition data_block :: "task \<Rightarrow> addr option" where
  "data_block t = map_option fst (tk_data t)"

section \<open>Timers\<close>

definition update_timer_queue :: "kenv \<Rightarrow> aodv_state \<Rightarrow> aodv_state" where
  "update_timer_queue e s = arm_timer e tk_time (a_timers s) s"

definition queue_timer :: "kenv \<Rightarrow> addr \<times> task \<Rightarrow> aodv_state \<Rightarrow> aodv_state" where
  "queue_timer e new s = s\<lparr>a_timers := link_timer e tk_time new (a_timers s)\<rparr>"

definition first_timer_due :: "kenv \<Rightarrow> u64 \<Rightarrow> aodv_state \<Rightarrow> (addr \<times> task) option \<times> aodv_state" where
  "first_timer_due e currtime s =
     (let (r, q) = take_due e tk_time currtime (a_timers s) in (r, s\<lparr>a_timers := q\<rparr>))"

fun signal_loop :: "kenv \<Rightarrow> u64 \<Rightarrow> nat \<Rightarrow> aodv_state \<Rightarrow> aodv_state" where
  "signal_loop e currtime 0 s = s"
| "signal_loop e currtime (Suc n) s =
     (case first_timer_due e currtime s of
        (None, s1) \<Rightarrow> s1
      | (Some t, s1) \<Rightarrow> signal_loop e currtime n (insert_task_from_timer (Some t) s1))"

text \<open>The loop takes one timer per round, so it runs at most once more than there are timers.\<close>

definition timer_queue_signal :: "kenv \<Rightarrow> aodv_state \<Rightarrow> aodv_state" where
  "timer_queue_signal e s =
     update_timer_queue e (signal_loop e (getcurrtime s) (Suc (length (a_timers s))) s)"

definition insert_timer :: "kenv \<Rightarrow> u8 \<Rightarrow> u32 \<Rightarrow> u32 \<Rightarrow> aodv_state \<Rightarrow> int \<times> aodv_state" where
  "insert_timer e task_type delay ip s =
     (case create_task e (uint task_type) s of
        (None, s1) \<Rightarrow> (- ENOMEM, s1)
      | (Some (a, t), s1) \<Rightarrow>
          (0, queue_timer e (a, t\<lparr>tk_src_ip := ip, tk_dst_ip := ip, tk_id := ip,
                                  tk_time := getcurrtime s1 + ucast delay\<rparr>) s1))"

text \<open>The back-off of \<open>insert_rreq_timer\<close>, with C's \<open>^\<close>, which is exclusive or.\<close>

definition rreq_backoff :: "u8 \<Rightarrow> u64" where
  "rreq_backoff retries = word_of_int ((2 XOR (RREQ_RETRIES - uint retries)) * (2 * 40 * 10))"

definition insert_rreq_timer :: "kenv \<Rightarrow> rreq \<Rightarrow> u8 \<Rightarrow> aodv_state \<Rightarrow> int \<times> aodv_state" where
  "insert_rreq_timer e tmp_rreq retries s =
     (case create_task e TASK_RESEND_RREQ s of
        (None, s1) \<Rightarrow> (- ENOMEM, s1)
      | (Some (a, t), s1) \<Rightarrow>
          (0, queue_timer e (a, t\<lparr>tk_src_ip := rq_src_ip tmp_rreq, tk_dst_ip := rq_dst_ip tmp_rreq,
                tk_id := rq_dst_ip tmp_rreq, tk_retries := ucast retries, tk_ttl := 30,
                tk_time := getcurrtime s1 + rreq_backoff retries\<rparr>) s1))"

definition timer_matches :: "u32 \<Rightarrow> u8 \<Rightarrow> task \<Rightarrow> bool" where
  "timer_matches i type t = (tk_id t = i \<and> tk_type t = uint type)"

definition find_timer :: "u32 \<Rightarrow> u8 \<Rightarrow> aodv_state \<Rightarrow> (addr \<times> task) option" where
  "find_timer i type s = nl_find (timer_matches i type) (a_timers s)"

text \<open>The loop of \<open>delete_timer\<close>: the tasks that stay, and the state with the others freed.\<close>

fun delete_timer_loop :: "u32 \<Rightarrow> u8 \<Rightarrow> task nodes \<Rightarrow> aodv_state \<Rightarrow> task nodes \<times> aodv_state" where
  "delete_timer_loop i type [] s = ([], s)"
| "delete_timer_loop i type ((a, t) # ts) s =
     (if timer_matches i type t
      then delete_timer_loop i type ts (kfree a (kfree_opt (data_block t) s))
      else (let (ks, s1) = delete_timer_loop i type ts s in ((a, t) # ks, s1)))"

definition delete_timer :: "u32 \<Rightarrow> u8 \<Rightarrow> aodv_state \<Rightarrow> aodv_state" where
  "delete_timer i type s =
     (let (ks, s1) = delete_timer_loop i type (a_timers s) s in s1\<lparr>a_timers := ks\<rparr>)"


section \<open>Frame lemmas\<close>

lemma create_task_frame [simp, frame]:
  "k_time (snd (create_task e type s)) = k_time s"
  "k_jiffies (snd (create_task e type s)) = k_jiffies s"
  "k_timer_pending (snd (create_task e type s)) = k_timer_pending s"
  "k_out (snd (create_task e type s)) = k_out s"
  "k_fault (snd (create_task e type s)) = k_fault s"
  "g_my_route (snd (create_task e type s)) = g_my_route s"
  "g_my_ip (snd (create_task e type s)) = g_my_ip s"
  "g_broadcast_ip (snd (create_task e type s)) = g_broadcast_ip s"
  "g_aodv_gateway (snd (create_task e type s)) = g_aodv_gateway s"
  "aodv_overhead (snd (create_task e type s)) = aodv_overhead s"
  "a_routes (snd (create_task e type s)) = a_routes s"
  "a_loose (snd (create_task e type s)) = a_loose s"
  "a_neighs (snd (create_task e type s)) = a_neighs s"
  "a_floods (snd (create_task e type s)) = a_floods s"
  "a_timers (snd (create_task e type s)) = a_timers s"
  "a_tasks (snd (create_task e type s)) = a_tasks s"
  "a_devs (snd (create_task e type s)) = a_devs s"
  "q_list (snd (create_task e type s)) = q_list s"
  "q_len (snd (create_task e type s)) = q_len s"
  "q_maxlen (snd (create_task e type s)) = q_maxlen s"
  "q_flushing (snd (create_task e type s)) = q_flushing s"
  "q_terminate (snd (create_task e type s)) = q_terminate s"
  by (simp_all add: create_task_def kmalloc_def)

lemma queue_aodv_task_frame [simp, frame]:
  "k_time (queue_aodv_task t s) = k_time s"
  "k_jiffies (queue_aodv_task t s) = k_jiffies s"
  "k_timer_pending (queue_aodv_task t s) = k_timer_pending s"
  "k_allocs (queue_aodv_task t s) = k_allocs s"
  "k_live (queue_aodv_task t s) = k_live s"
  "k_fault (queue_aodv_task t s) = k_fault s"
  "g_my_route (queue_aodv_task t s) = g_my_route s"
  "g_my_ip (queue_aodv_task t s) = g_my_ip s"
  "g_broadcast_ip (queue_aodv_task t s) = g_broadcast_ip s"
  "g_aodv_gateway (queue_aodv_task t s) = g_aodv_gateway s"
  "aodv_overhead (queue_aodv_task t s) = aodv_overhead s"
  "a_routes (queue_aodv_task t s) = a_routes s"
  "a_loose (queue_aodv_task t s) = a_loose s"
  "a_neighs (queue_aodv_task t s) = a_neighs s"
  "a_floods (queue_aodv_task t s) = a_floods s"
  "a_timers (queue_aodv_task t s) = a_timers s"
  "a_devs (queue_aodv_task t s) = a_devs s"
  "q_list (queue_aodv_task t s) = q_list s"
  "q_len (queue_aodv_task t s) = q_len s"
  "q_maxlen (queue_aodv_task t s) = q_maxlen s"
  "q_flushing (queue_aodv_task t s) = q_flushing s"
  "q_terminate (queue_aodv_task t s) = q_terminate s"
  by (simp_all add: queue_aodv_task_def)

lemma update_timer_queue_frame [simp, frame]:
  "k_time (update_timer_queue e s) = k_time s"
  "k_allocs (update_timer_queue e s) = k_allocs s"
  "k_live (update_timer_queue e s) = k_live s"
  "k_fault (update_timer_queue e s) = k_fault s"
  "g_my_route (update_timer_queue e s) = g_my_route s"
  "g_my_ip (update_timer_queue e s) = g_my_ip s"
  "g_broadcast_ip (update_timer_queue e s) = g_broadcast_ip s"
  "g_aodv_gateway (update_timer_queue e s) = g_aodv_gateway s"
  "aodv_overhead (update_timer_queue e s) = aodv_overhead s"
  "a_routes (update_timer_queue e s) = a_routes s"
  "a_loose (update_timer_queue e s) = a_loose s"
  "a_neighs (update_timer_queue e s) = a_neighs s"
  "a_floods (update_timer_queue e s) = a_floods s"
  "a_timers (update_timer_queue e s) = a_timers s"
  "a_tasks (update_timer_queue e s) = a_tasks s"
  "a_devs (update_timer_queue e s) = a_devs s"
  "q_list (update_timer_queue e s) = q_list s"
  "q_len (update_timer_queue e s) = q_len s"
  "q_maxlen (update_timer_queue e s) = q_maxlen s"
  "q_flushing (update_timer_queue e s) = q_flushing s"
  "q_terminate (update_timer_queue e s) = q_terminate s"
  by (simp_all add: update_timer_queue_def) (simp_all add: arm_timer_def emit_def Let_def split: list.splits)

lemma queue_timer_frame [simp, frame]:
  "k_time (queue_timer e t s) = k_time s"
  "k_jiffies (queue_timer e t s) = k_jiffies s"
  "k_timer_pending (queue_timer e t s) = k_timer_pending s"
  "k_allocs (queue_timer e t s) = k_allocs s"
  "k_live (queue_timer e t s) = k_live s"
  "k_out (queue_timer e t s) = k_out s"
  "k_fault (queue_timer e t s) = k_fault s"
  "g_my_route (queue_timer e t s) = g_my_route s"
  "g_my_ip (queue_timer e t s) = g_my_ip s"
  "g_broadcast_ip (queue_timer e t s) = g_broadcast_ip s"
  "g_aodv_gateway (queue_timer e t s) = g_aodv_gateway s"
  "aodv_overhead (queue_timer e t s) = aodv_overhead s"
  "a_routes (queue_timer e t s) = a_routes s"
  "a_loose (queue_timer e t s) = a_loose s"
  "a_neighs (queue_timer e t s) = a_neighs s"
  "a_floods (queue_timer e t s) = a_floods s"
  "a_tasks (queue_timer e t s) = a_tasks s"
  "a_devs (queue_timer e t s) = a_devs s"
  "q_list (queue_timer e t s) = q_list s"
  "q_len (queue_timer e t s) = q_len s"
  "q_maxlen (queue_timer e t s) = q_maxlen s"
  "q_flushing (queue_timer e t s) = q_flushing s"
  "q_terminate (queue_timer e t s) = q_terminate s"
  by (simp_all add: queue_timer_def)

lemma insert_timer_frame [simp, frame]:
  "k_time (snd (insert_timer e ty d ip s)) = k_time s"
  "k_jiffies (snd (insert_timer e ty d ip s)) = k_jiffies s"
  "k_timer_pending (snd (insert_timer e ty d ip s)) = k_timer_pending s"
  "k_out (snd (insert_timer e ty d ip s)) = k_out s"
  "k_fault (snd (insert_timer e ty d ip s)) = k_fault s"
  "g_my_route (snd (insert_timer e ty d ip s)) = g_my_route s"
  "g_my_ip (snd (insert_timer e ty d ip s)) = g_my_ip s"
  "g_broadcast_ip (snd (insert_timer e ty d ip s)) = g_broadcast_ip s"
  "g_aodv_gateway (snd (insert_timer e ty d ip s)) = g_aodv_gateway s"
  "aodv_overhead (snd (insert_timer e ty d ip s)) = aodv_overhead s"
  "a_routes (snd (insert_timer e ty d ip s)) = a_routes s"
  "a_loose (snd (insert_timer e ty d ip s)) = a_loose s"
  "a_neighs (snd (insert_timer e ty d ip s)) = a_neighs s"
  "a_floods (snd (insert_timer e ty d ip s)) = a_floods s"
  "a_tasks (snd (insert_timer e ty d ip s)) = a_tasks s"
  "a_devs (snd (insert_timer e ty d ip s)) = a_devs s"
  "q_list (snd (insert_timer e ty d ip s)) = q_list s"
  "q_len (snd (insert_timer e ty d ip s)) = q_len s"
  "q_maxlen (snd (insert_timer e ty d ip s)) = q_maxlen s"
  "q_flushing (snd (insert_timer e ty d ip s)) = q_flushing s"
  "q_terminate (snd (insert_timer e ty d ip s)) = q_terminate s"
  by (simp_all add: insert_timer_def create_task_def kmalloc_def)

lemma insert_rreq_timer_frame [simp, frame]:
  "k_time (snd (insert_rreq_timer e r n s)) = k_time s"
  "k_jiffies (snd (insert_rreq_timer e r n s)) = k_jiffies s"
  "k_timer_pending (snd (insert_rreq_timer e r n s)) = k_timer_pending s"
  "k_out (snd (insert_rreq_timer e r n s)) = k_out s"
  "k_fault (snd (insert_rreq_timer e r n s)) = k_fault s"
  "g_my_route (snd (insert_rreq_timer e r n s)) = g_my_route s"
  "g_my_ip (snd (insert_rreq_timer e r n s)) = g_my_ip s"
  "g_broadcast_ip (snd (insert_rreq_timer e r n s)) = g_broadcast_ip s"
  "g_aodv_gateway (snd (insert_rreq_timer e r n s)) = g_aodv_gateway s"
  "aodv_overhead (snd (insert_rreq_timer e r n s)) = aodv_overhead s"
  "a_routes (snd (insert_rreq_timer e r n s)) = a_routes s"
  "a_loose (snd (insert_rreq_timer e r n s)) = a_loose s"
  "a_neighs (snd (insert_rreq_timer e r n s)) = a_neighs s"
  "a_floods (snd (insert_rreq_timer e r n s)) = a_floods s"
  "a_tasks (snd (insert_rreq_timer e r n s)) = a_tasks s"
  "a_devs (snd (insert_rreq_timer e r n s)) = a_devs s"
  "q_list (snd (insert_rreq_timer e r n s)) = q_list s"
  "q_len (snd (insert_rreq_timer e r n s)) = q_len s"
  "q_maxlen (snd (insert_rreq_timer e r n s)) = q_maxlen s"
  "q_flushing (snd (insert_rreq_timer e r n s)) = q_flushing s"
  "q_terminate (snd (insert_rreq_timer e r n s)) = q_terminate s"
  by (simp_all add: insert_rreq_timer_def create_task_def kmalloc_def)

lemma delete_timer_loop_frame [simp, frame]:
  "k_time (snd (delete_timer_loop i type ts s)) = k_time s"
  "k_jiffies (snd (delete_timer_loop i type ts s)) = k_jiffies s"
  "k_timer_pending (snd (delete_timer_loop i type ts s)) = k_timer_pending s"
  "k_allocs (snd (delete_timer_loop i type ts s)) = k_allocs s"
  "k_out (snd (delete_timer_loop i type ts s)) = k_out s"
  "g_my_route (snd (delete_timer_loop i type ts s)) = g_my_route s"
  "g_my_ip (snd (delete_timer_loop i type ts s)) = g_my_ip s"
  "g_broadcast_ip (snd (delete_timer_loop i type ts s)) = g_broadcast_ip s"
  "g_aodv_gateway (snd (delete_timer_loop i type ts s)) = g_aodv_gateway s"
  "aodv_overhead (snd (delete_timer_loop i type ts s)) = aodv_overhead s"
  "a_routes (snd (delete_timer_loop i type ts s)) = a_routes s"
  "a_loose (snd (delete_timer_loop i type ts s)) = a_loose s"
  "a_neighs (snd (delete_timer_loop i type ts s)) = a_neighs s"
  "a_floods (snd (delete_timer_loop i type ts s)) = a_floods s"
  "a_timers (snd (delete_timer_loop i type ts s)) = a_timers s"
  "a_tasks (snd (delete_timer_loop i type ts s)) = a_tasks s"
  "a_devs (snd (delete_timer_loop i type ts s)) = a_devs s"
  "q_list (snd (delete_timer_loop i type ts s)) = q_list s"
  "q_len (snd (delete_timer_loop i type ts s)) = q_len s"
  "q_maxlen (snd (delete_timer_loop i type ts s)) = q_maxlen s"
  "q_flushing (snd (delete_timer_loop i type ts s)) = q_flushing s"
  "q_terminate (snd (delete_timer_loop i type ts s)) = q_terminate s"
  by (induction i type ts s rule: delete_timer_loop.induct) (simp_all add: case_prod_beta)

lemma delete_timer_frame [simp, frame]:
  "k_time (delete_timer i type s) = k_time s"
  "k_jiffies (delete_timer i type s) = k_jiffies s"
  "k_timer_pending (delete_timer i type s) = k_timer_pending s"
  "k_allocs (delete_timer i type s) = k_allocs s"
  "k_out (delete_timer i type s) = k_out s"
  "g_my_route (delete_timer i type s) = g_my_route s"
  "g_my_ip (delete_timer i type s) = g_my_ip s"
  "g_broadcast_ip (delete_timer i type s) = g_broadcast_ip s"
  "g_aodv_gateway (delete_timer i type s) = g_aodv_gateway s"
  "aodv_overhead (delete_timer i type s) = aodv_overhead s"
  "a_routes (delete_timer i type s) = a_routes s"
  "a_loose (delete_timer i type s) = a_loose s"
  "a_neighs (delete_timer i type s) = a_neighs s"
  "a_floods (delete_timer i type s) = a_floods s"
  "a_tasks (delete_timer i type s) = a_tasks s"
  "a_devs (delete_timer i type s) = a_devs s"
  "q_list (delete_timer i type s) = q_list s"
  "q_len (delete_timer i type s) = q_len s"
  "q_maxlen (delete_timer i type s) = q_maxlen s"
  "q_flushing (delete_timer i type s) = q_flushing s"
  "q_terminate (delete_timer i type s) = q_terminate s"
  by (simp_all add: delete_timer_def case_prod_beta)

text \<open>What a successful \<open>insert_timer\<close> leaves in the queue.\<close>

lemma insert_timer_timers:
  assumes "ke_kmalloc_ok e (k_allocs s)"
  shows "a_timers (snd (insert_timer e ty d ip s)) =
    link_timer e tk_time (k_allocs s, (new_task e (uint ty) (k_allocs s) (getcurrtime s))
      \<lparr>tk_src_ip := ip, tk_dst_ip := ip, tk_id := ip, tk_time := getcurrtime s + ucast d\<rparr>) (a_timers s)"
  using assms by (simp add: insert_timer_def create_task_def kmalloc_def queue_timer_def)

lemma update_timer_queue_pending [simp]:
  "k_timer_pending (update_timer_queue e s) \<longleftrightarrow> a_timers s \<noteq> []"
  by (simp add: update_timer_queue_def arm_timer_pending)

lemma link_timer_not_Nil [simp]: "link_timer e tm n q \<noteq> []"
  by (cases q) simp_all

end
