(* ===== verification/NeighTable.thy ===== *)
theory NeighTable
  imports AodvTimers
begin

text \<open>
  The neighbour list of \<open>kaodv/src/aodv_neigh.c\<close>: its searches, \<open>create_aodv_neigh\<close> and
  \<open>update_aodv_neigh_link\<close>. What happens to the routes when a neighbour appears or vanishes
  is in AodvRerr. The list is kept in the order of the addresses and without duplicates, which
  is what lets the search stop early. LINK_LIMIT is not defined by the Makefile.
\<close>

fun find_neigh_loop :: "u32 \<Rightarrow> aodv_neigh nodes \<Rightarrow> (addr \<times> aodv_neigh) option" where
  "find_neigh_loop target_ip [] = None"
| "find_neigh_loop target_ip ((a, n) # ns) =
     (if nb_ip n \<le> target_ip
      then if nb_ip n = target_ip then Some (a, n) else find_neigh_loop target_ip ns
      else None)"

definition init_aodv_neigh_list :: "aodv_state \<Rightarrow> aodv_state" where
  "init_aodv_neigh_list s = s\<lparr>a_neighs := []\<rparr>"

definition find_aodv_neigh :: "u32 \<Rightarrow> aodv_state \<Rightarrow> (addr \<times> aodv_neigh) option" where
  "find_aodv_neigh target_ip s = find_neigh_loop target_ip (a_neighs s)"

definition valid_aodv_neigh :: "kenv \<Rightarrow> u32 \<Rightarrow> aodv_state \<Rightarrow> bool" where
  "valid_aodv_neigh e target_ip s =
     (case find_aodv_neigh target_ip s of
        None \<Rightarrow> False
      | Some (a, n) \<Rightarrow> nb_valid_link n \<and> ke_time_before e (getcurrtime s) (nb_lifetime n))"

definition find_aodv_neigh_by_hw :: "u8 list \<Rightarrow> aodv_state \<Rightarrow> (addr \<times> aodv_neigh) option" where
  "find_aodv_neigh_by_hw hw_addr s = nl_find (\<lambda>n. nb_hw_addr n = hw_addr) (a_neighs s)"

definition update_aodv_neigh_link :: "u8 list \<Rightarrow> u8 \<Rightarrow> aodv_state \<Rightarrow> aodv_state" where
  "update_aodv_neigh_link hw_addr link s =
     (case nl_find (\<lambda>n. nb_hw_addr n = hw_addr) (a_neighs s) of
        None \<Rightarrow> s
      | Some (a, _) \<Rightarrow>
          s\<lparr>a_neighs := nl_upd a (\<lambda>n. n\<lparr>nb_link := (if link \<noteq> 0 then 256 - uint link else 0)\<rparr>) (a_neighs s)\<rparr>)"

text \<open>\<open>seq\<close>, \<open>hw_addr\<close> and \<open>dev\<close> of a new neighbour are not set.\<close>

definition new_neigh :: "kenv \<Rightarrow> addr \<Rightarrow> u32 \<Rightarrow> aodv_neigh" where
  "new_neigh e a ip =
     \<lparr>nb_ip = ip, nb_seq = ucast (ke_junk e a 0), nb_lifetime = 0,
      nb_hw_addr = map (\<lambda>i. ucast (ke_junk e a i)) [1 ..< 7], nb_dev = ke_junk_dev e a,
      nb_route_entry = None, nb_link = 0, nb_valid_link = True\<rparr>"

definition create_aodv_neigh :: "kenv \<Rightarrow> u32 \<Rightarrow> aodv_state \<Rightarrow> addr option \<times> aodv_state" where
  "create_aodv_neigh e ip s =
     (case dropWhile (\<lambda>n. nb_ip (snd n) < ip) (a_neighs s) of
        n # _ \<Rightarrow>
          if nb_ip (snd n) = ip then (None, s)
          else (case kmalloc e s of
                  (None, s1) \<Rightarrow> (None, s1)
                | (Some a, s1) \<Rightarrow>
                    (Some a, s1\<lparr>a_neighs := nl_insert nb_ip (a, new_neigh e a ip) (a_neighs s1)\<rparr>))
      | [] \<Rightarrow> (case kmalloc e s of
                 (None, s1) \<Rightarrow> (None, s1)
               | (Some a, s1) \<Rightarrow>
                   (Some a, s1\<lparr>a_neighs := nl_insert nb_ip (a, new_neigh e a ip) (a_neighs s1)\<rparr>)))"

section \<open>Invariant and lemmas\<close>

definition neighs_ok :: "aodv_state \<Rightarrow> bool" where
  "neighs_ok s = (sorted_by nb_ip (a_neighs s) \<and> distinct (map nb_ip (nl_vals (a_neighs s)))
     \<and> distinct (nl_addrs (a_neighs s)) \<and> (\<forall>a \<in> set (nl_addrs (a_neighs s)). a < k_allocs s))"

lemma find_neigh_loop_Some:
  "find_neigh_loop ip ns = Some (a, n) \<Longrightarrow> (a, n) \<in> set ns \<and> nb_ip n = ip"
  by (induction ns) (auto split: if_splits)

lemma find_neigh_loop_sorted:
  "sorted_by nb_ip ns \<Longrightarrow> find_neigh_loop ip ns = nl_find (\<lambda>n. nb_ip n = ip) ns"
proof (induction ns)
  case (Cons m ns)
  have "nl_find (\<lambda>n. nb_ip n = ip) ns = None" if "ip < nb_ip (snd m)"
    using Cons.prems that by (auto simp: nl_find_None)
  with Cons show ?case by (cases m) (auto simp: not_le)
qed simp

lemma neighs_ok_cong:
  "a_neighs t = a_neighs s \<Longrightarrow> k_allocs s \<le> k_allocs t \<Longrightarrow> neighs_ok s \<Longrightarrow> neighs_ok t"
  by (auto simp: neighs_ok_def)

lemma map_upd_key: "(\<And>x. k (f x) = k x) \<Longrightarrow> map k (nl_vals (nl_upd a f ns)) = map k (nl_vals ns)"
  by (induction ns) auto

lemma neighs_ok_upd:
  assumes "neighs_ok s" "\<And>n. nb_ip (f n) = nb_ip n"
  shows "neighs_ok (s\<lparr>a_neighs := nl_upd a f (a_neighs s)\<rparr>)"
  using assms by (simp add: neighs_ok_def sorted_by_upd map_upd_key)

lemma distinct_map_del: "distinct (map k (nl_vals ns)) \<Longrightarrow> distinct (map k (nl_vals (nl_del a ns)))"
proof (induction ns)
  case (Cons n ns)
  then show ?case using nl_vals_del_subset [of a ns] by (cases n) auto
qed simp

lemma neighs_ok_del: "neighs_ok s \<Longrightarrow> neighs_ok (s\<lparr>a_neighs := nl_del a (a_neighs s)\<rparr>)"
  by (simp add: neighs_ok_def sorted_by_del distinct_map_del)

lemma distinct_map_insert:
  "distinct (map k (nl_vals (nl_insert k n ns))) \<longleftrightarrow>
     k (snd n) \<notin> k ` set (nl_vals ns) \<and> distinct (map k (nl_vals ns))"
  by (induction ns) auto

lemma dropWhile_sorted_absent:
  assumes "sorted_by k ns" "case dropWhile (\<lambda>n. k (snd n) < x) ns of [] \<Rightarrow> True | n # _ \<Rightarrow> k (snd n) \<noteq> x"
  shows "x \<notin> k ` set (nl_vals ns)"
  using assms by (induction ns) (auto split: if_splits simp: order.order_iff_strict)

lemma create_aodv_neigh_Some:
  assumes "create_aodv_neigh e ip s = (Some a, t)"
  shows "a = k_allocs s
    \<and> t = (snd (kmalloc e s))\<lparr>a_neighs := nl_insert nb_ip (a, new_neigh e a ip) (a_neighs s)\<rparr>
    \<and> (case dropWhile (\<lambda>n. nb_ip (snd n) < ip) (a_neighs s) of [] \<Rightarrow> True | n # _ \<Rightarrow> nb_ip (snd n) \<noteq> ip)"
  using assms
  by (auto simp: create_aodv_neigh_def kmalloc_def simp del: dropWhile_eq_Nil_conv
      split: list.splits if_splits)

lemma create_aodv_neigh_None:
  assumes "create_aodv_neigh e ip s = (None, t)"
  shows "t = s \<or> t = snd (kmalloc e s)"
  using assms
  by (auto simp: create_aodv_neigh_def kmalloc_def simp del: dropWhile_eq_Nil_conv
      split: list.splits if_splits)

lemma create_aodv_neigh_ok:
  assumes "neighs_ok s"
  shows "neighs_ok (snd (create_aodv_neigh e ip s))"
proof (cases "create_aodv_neigh e ip s")
  case (Pair p t)
  show ?thesis
  proof (cases p)
    case None
    then show ?thesis using create_aodv_neigh_None [of e ip s t] Pair assms
      by (auto intro!: neighs_ok_cong [OF _ _ assms] simp: kmalloc_def)
  next
    case (Some a)
    note * = create_aodv_neigh_Some [OF Pair [unfolded Some]]
    have "ip \<notin> nb_ip ` set (nl_vals (a_neighs s))"
      using * assms by (intro dropWhile_sorted_absent) (auto simp: neighs_ok_def)
    then show ?thesis using assms * Pair
      by (auto simp: neighs_ok_def sorted_nl_insert distinct_map_insert new_neigh_def kmalloc_def
          less_Suc_eq dest!: bspec)
  qed
qed

end
