(* ===== verification/KernelRoute.thy ===== *)
theory KernelRoute
  imports AodvTimers
begin

unbundle bit_operations_syntax

text \<open>
  \<open>kaodv/src/kernel_route.c\<close>: what the module writes into the kernel's routing table. The table
  is not code of the repository; a call of \<open>ip_rt_ioctl\<close> is an event with the fields of the
  \<open>rtentry\<close> that matter. \<open>ip_rt_ioctl\<close> returns 0 or a negative error, never a positive
  number, so the \<open>while\<close> around SIOCDELRT makes one call.
\<close>

record rtentry =
  kr_dst :: u32
  kr_gateway :: u32
  kr_genmask :: u32
  kr_dev :: "string option"

definition create_kernel_route_entry :: "kenv \<Rightarrow> u32 \<Rightarrow> u32 \<Rightarrow> u32 \<Rightarrow> string option \<Rightarrow> aodv_state
    \<Rightarrow> (addr \<times> rtentry) option \<times> aodv_state" where
  "create_kernel_route_entry e dst_ip gw_ip genmask_ip interf s =
     (case kmalloc e s of
        (None, s1) \<Rightarrow> (None, s1)
      | (Some a, s1) \<Rightarrow>
          (Some (a, \<lparr>kr_dst = dst_ip AND genmask_ip, kr_gateway = gw_ip, kr_genmask = genmask_ip,
                     kr_dev = interf\<rparr>), s1))"

definition insert_kernel_route_entry :: "kenv \<Rightarrow> u32 \<Rightarrow> u32 \<Rightarrow> u32 \<Rightarrow> string option \<Rightarrow> aodv_state
    \<Rightarrow> int \<times> aodv_state" where
  "insert_kernel_route_entry e dst_ip gw_ip genmask_ip interf s =
     (case create_kernel_route_entry e dst_ip gw_ip genmask_ip interf s of
        (None, s1) \<Rightarrow> (- 1, s1)
      | (Some (a, r), s1) \<Rightarrow>
          (0, kfree a (emit (RtAdd (kr_dst r) (kr_gateway r) (kr_genmask r) (kr_dev r)) s1)))"

definition delete_kernel_route_entry :: "kenv \<Rightarrow> u32 \<Rightarrow> u32 \<Rightarrow> u32 \<Rightarrow> aodv_state \<Rightarrow> int \<times> aodv_state" where
  "delete_kernel_route_entry e dst_ip gw_ip genmask_ip s =
     (case create_kernel_route_entry e dst_ip 0 genmask_ip None s of
        (None, s1) \<Rightarrow> (1, s1)
      | (Some (a, r), s1) \<Rightarrow> (0, kfree a (emit (RtDel (kr_dst r) (kr_genmask r)) s1)))"

text \<open>Both calls allocate a block and give it back: what is left is the event.\<close>

lemma delete_kernel_route_entry_eq:
  "snd (delete_kernel_route_entry e dst gw gm s) =
     s\<lparr>k_allocs := Suc (k_allocs s),
       k_live := (if ke_kmalloc_ok e (k_allocs s) then k_live s - {k_allocs s} else k_live s),
       k_out := k_out s @ (if ke_kmalloc_ok e (k_allocs s) then [RtDel (dst AND gm) gm] else [])\<rparr>"
  by (simp add: delete_kernel_route_entry_def create_kernel_route_entry_def kmalloc_def kfree_def emit_def)

lemma insert_kernel_route_entry_eq:
  "snd (insert_kernel_route_entry e dst gw gm dev s) =
     s\<lparr>k_allocs := Suc (k_allocs s),
       k_live := (if ke_kmalloc_ok e (k_allocs s) then k_live s - {k_allocs s} else k_live s),
       k_out := k_out s @ (if ke_kmalloc_ok e (k_allocs s) then [RtAdd (dst AND gm) gw gm dev] else [])\<rparr>"
  by (simp add: insert_kernel_route_entry_def create_kernel_route_entry_def kmalloc_def kfree_def emit_def)

lemma heap_ok_live: "heap_ok s \<Longrightarrow> k_live s - {k_allocs s} = k_live s"
  by (auto simp: heap_ok_def)

end
