(* ===== verification/PacketQueue.thy ===== *)
theory PacketQueue
  imports AodvTimers
begin

text \<open>
  \<open>kaodv/src/packet_queue.c\<close>: the packets netfilter has handed over while a route is looked for.
  \<open>q_list\<close> is the list in arrival order (\<open>list_add_tail\<close>), the other \<open>q_\<close> fields are those of
  \<open>ipq_queue_t\<close>, whose block is \<open>q_block\<close>. \<open>nf_reinject\<close>, \<open>ip_route_me_harder\<close> and \<open>icmp_send\<close> are events.
\<close>

abbreviation (input) IPQ_QMAX_DEFAULT :: int where "IPQ_QMAX_DEFAULT \<equiv> 1024"

text \<open>The walk of \<open>ipq_dequeue\<close>: the first element that matches, and the list without it.\<close>

fun dequeue_first :: "(qentry \<Rightarrow> bool) \<Rightarrow> qentry list \<Rightarrow> qentry option \<times> qentry list" where
  "dequeue_first cmp [] = (None, [])"
| "dequeue_first cmp (q # qs) =
     (if cmp q then (Some q, qs)
      else (let (r, rest) = dequeue_first cmp qs in (r, q # rest)))"

definition ipq_dequeue :: "(qentry \<Rightarrow> bool) \<Rightarrow> aodv_state \<Rightarrow> qentry option \<times> aodv_state" where
  "ipq_dequeue cmp s =
     (case dequeue_first cmp (q_list s) of
        (None, _) \<Rightarrow> (None, s)
      | (Some q, rest) \<Rightarrow> (Some q, s\<lparr>q_list := rest, q_len := q_len s - 1\<rparr>))"

lemma dequeue_first_length:
  "dequeue_first cmp qs = (Some q, rest) \<Longrightarrow> length qs = Suc (length rest)"
  by (induction qs arbitrary: rest) (auto split: if_splits prod.splits)

text \<open>\<open>while ((e = ipq_dequeue(cmp, data)))\<close> with a body that makes kernel calls.\<close>

function ipq_while :: "(qentry \<Rightarrow> bool) \<Rightarrow> (qentry \<Rightarrow> aodv_state \<Rightarrow> aodv_state) \<Rightarrow> aodv_state \<Rightarrow> aodv_state" where
  "ipq_while cmp body s =
     (case ipq_dequeue cmp s of
        (None, s1) \<Rightarrow> s1
      | (Some q, s1) \<Rightarrow>
          let s2 = body q s1
          in if length (q_list s2) < length (q_list s) then ipq_while cmp body s2 else s2)"
  by pat_completeness auto
termination by (relation "measure (\<lambda>(_, _, s). length (q_list s))") auto

declare ipq_while.simps [simp del]

definition dev_cmp :: "u32 \<Rightarrow> qentry \<Rightarrow> bool" where
  "dev_cmp ifindex q = (qe_indev q = Some ifindex \<or> qe_outdev q = Some ifindex)"

definition ip_cmp :: "u32 \<Rightarrow> qentry \<Rightarrow> bool" where
  "ip_cmp ip q = (qe_hook q = NF_INET_POST_ROUTING \<and> qe_daddr q = ip)"

definition nf_reinject :: "verdict \<Rightarrow> qentry \<Rightarrow> aodv_state \<Rightarrow> aodv_state" where
  "nf_reinject v q s = emit (Reinject (qe_id q) v) s"

definition ipq_flush :: "aodv_state \<Rightarrow> aodv_state" where
  "ipq_flush s =
     (ipq_while (\<lambda>_. True) (nf_reinject NF_DROP) (s\<lparr>q_flushing := True\<rparr>))\<lparr>q_flushing := False\<rparr>"

definition ipq_dev_drop :: "u32 \<Rightarrow> aodv_state \<Rightarrow> aodv_state" where
  "ipq_dev_drop ifindex s = ipq_while (dev_cmp ifindex) (nf_reinject NF_DROP) s"

definition ipq_send_ip :: "u32 \<Rightarrow> aodv_state \<Rightarrow> aodv_state" where
  "ipq_send_ip ip s =
     ipq_while (ip_cmp ip) (\<lambda>q s. nf_reinject NF_ACCEPT q (emit (RouteHarder (qe_id q)) s)) s"

definition ipq_drop_ip :: "u32 \<Rightarrow> aodv_state \<Rightarrow> aodv_state" where
  "ipq_drop_ip ip s =
     ipq_while (ip_cmp ip) (\<lambda>q s. nf_reinject NF_DROP q (emit (IcmpUnreach (qe_id q)) s)) s"

text \<open>\<open>ipq_enqueue\<close> when called by \<open>netfilter_receive\<close>, with the module's own queue.\<close>

definition ipq_enqueue :: "qentry \<Rightarrow> aodv_state \<Rightarrow> int \<times> aodv_state" where
  "ipq_enqueue q s =
     (if q_len s \<ge> q_maxlen s then (- EBUSY, emit (FreeEntry (qe_id q)) s)
      else if q_flushing s \<or> q_terminate s then (- EBUSY, emit (FreeEntry (qe_id q)) s)
      else (let s1 = s\<lparr>q_list := q_list s @ [q], q_len := q_len s + 1\<rparr> in (q_len s1, s1)))"

definition netfilter_receive :: "qentry \<Rightarrow> aodv_state \<Rightarrow> int \<times> aodv_state" where
  "netfilter_receive entry s = ipq_enqueue entry s"

text \<open>\<open>ipq_create_queue\<close>; \<open>status\<close> is what \<open>nf_register_queue_handler\<close> returns.\<close>

definition ipq_create_queue :: "kenv \<Rightarrow> int \<Rightarrow> int \<Rightarrow> aodv_state \<Rightarrow> int \<times> aodv_state" where
  "ipq_create_queue e status sysctl_qmax s =
     (case kmalloc e s of
        (None, s1) \<Rightarrow> (0, s1\<lparr>q_block := None\<rparr>)
      | (Some a, s1) \<Rightarrow>
          let s2 = s1\<lparr>q_block := Some a, q_len := 0, q_maxlen := sysctl_qmax,
                      q_flushing := False, q_terminate := False\<rparr>
          in if status < 0 then (0, kfree a s2) else (1, s2))"

definition init_packet_queue :: "kenv \<Rightarrow> int \<Rightarrow> aodv_state \<Rightarrow> int \<times> aodv_state" where
  "init_packet_queue e status s = ipq_create_queue e status IPQ_QMAX_DEFAULT (s\<lparr>q_list := []\<rparr>)"

definition ipq_destroy_queue :: "aodv_state \<Rightarrow> aodv_state" where
  "ipq_destroy_queue s =
     (let s1 = ipq_flush (s\<lparr>q_terminate := True\<rparr>)
      in case q_block s1 of None \<Rightarrow> fault s1 | Some a \<Rightarrow> kfree a s1)"

definition cleanup_packet_queue :: "aodv_state \<Rightarrow> aodv_state" where
  "cleanup_packet_queue s = ipq_destroy_queue s"

text \<open>\<open>receive_event\<close>: a device going down.\<close>

abbreviation (input) NETDEV_DOWN :: nat where "NETDEV_DOWN \<equiv> 2"

definition ipq_receive_event :: "nat \<Rightarrow> netdev \<Rightarrow> aodv_state \<Rightarrow> aodv_state" where
  "ipq_receive_event event dev s =
     (if event = NETDEV_DOWN then ipq_dev_drop (nd_ifindex dev) s else s)"

section \<open>What the loops compute\<close>

text \<open>The length field is right and bounded.\<close>

definition queue_ok :: "aodv_state \<Rightarrow> bool" where
  "queue_ok s = (q_len s = int (length (q_list s)) \<and> q_len s \<le> q_maxlen s)"

lemma dequeue_first_eq:
  "dequeue_first cmp qs =
     (case dropWhile (\<lambda>q. \<not> cmp q) qs of
        [] \<Rightarrow> (None, qs)
      | q # rest \<Rightarrow> (Some q, takeWhile (\<lambda>q. \<not> cmp q) qs @ rest))"
proof (induction qs)
  case (Cons q qs)
  then show ?case by (cases "dropWhile (\<lambda>q. \<not> cmp q) qs") (simp_all del: dropWhile_eq_Nil_conv)
qed simp

text \<open>A loop whose body emits the events \<open>evs\<close> serves exactly the matching packets, in order.\<close>

definition emits :: "(qentry \<Rightarrow> aodv_state \<Rightarrow> aodv_state) \<Rightarrow> (qentry \<Rightarrow> kevent list) \<Rightarrow> bool" where
  "emits body evs = (\<forall>q s. body q s = s\<lparr>k_out := k_out s @ evs q\<rparr>)"

lemma ipq_while_split:
  assumes "emits body evs" "\<forall>q \<in> set ns. \<not> cmp q"
  shows "q_list s = ns @ qs \<Longrightarrow> ipq_while cmp body s =
    s\<lparr>q_list := ns @ filter (\<lambda>q. \<not> cmp q) qs, q_len := q_len s - int (length (filter cmp qs)),
      k_out := k_out s @ concat (map evs (filter cmp qs))\<rparr>"
  using assms(2)
proof (induction qs arbitrary: s ns)
  case Nil
  then have "dequeue_first cmp (q_list s) = (None, q_list s)"
    by (subst dequeue_first_eq) (simp add: dropWhile_eq_Nil_conv [THEN iffD2])
  with Nil show ?case by (subst ipq_while.simps) (simp add: ipq_dequeue_def)
next
  case (Cons q qs)
  show ?case
  proof (cases "cmp q")
    case False
    then show ?thesis using Cons.IH [of s "ns @ [q]"] Cons.prems by auto
  next
    case True
    have "dequeue_first cmp (q_list s) = (Some q, ns @ qs)"
      using Cons.prems True by (simp add: dequeue_first_eq)
    moreover have "body q (s\<lparr>q_list := ns @ qs, q_len := q_len s - 1\<rparr>) =
        s\<lparr>q_list := ns @ qs, q_len := q_len s - 1, k_out := k_out s @ evs q\<rparr>"
      using assms(1) by (simp add: emits_def)
    ultimately show ?thesis
      using Cons.IH [of "s\<lparr>q_list := ns @ qs, q_len := q_len s - 1, k_out := k_out s @ evs q\<rparr>" ns]
        Cons.prems True
      by (subst ipq_while.simps) (simp add: ipq_dequeue_def)
  qed
qed

lemma ipq_while_eq:
  assumes "emits body evs"
  shows "ipq_while cmp body s =
    s\<lparr>q_list := filter (\<lambda>q. \<not> cmp q) (q_list s), q_len := q_len s - int (length (filter cmp (q_list s))),
      k_out := k_out s @ concat (map evs (filter cmp (q_list s)))\<rparr>"
  using ipq_while_split [OF assms, of "[]" cmp s "q_list s"] by simp

lemma emits_reinject [simp]:
  "emits (nf_reinject v) (\<lambda>q. [Reinject (qe_id q) v])"
  "emits (\<lambda>q s. nf_reinject v q (emit (RouteHarder (qe_id q)) s)) (\<lambda>q. [RouteHarder (qe_id q), Reinject (qe_id q) v])"
  "emits (\<lambda>q s. nf_reinject v q (emit (IcmpUnreach (qe_id q)) s)) (\<lambda>q. [IcmpUnreach (qe_id q), Reinject (qe_id q) v])"
  by (simp_all add: emits_def nf_reinject_def emit_def)

lemma ipq_send_ip_eq:
  "ipq_send_ip ip s =
    s\<lparr>q_list := filter (\<lambda>q. \<not> ip_cmp ip q) (q_list s),
      q_len := q_len s - int (length (filter (ip_cmp ip) (q_list s))),
      k_out := k_out s @ concat (map (\<lambda>q. [RouteHarder (qe_id q), Reinject (qe_id q) NF_ACCEPT])
                                     (filter (ip_cmp ip) (q_list s)))\<rparr>"
  by (simp add: ipq_send_ip_def ipq_while_eq [OF emits_reinject(2)])

lemma ipq_drop_ip_eq:
  "ipq_drop_ip ip s =
    s\<lparr>q_list := filter (\<lambda>q. \<not> ip_cmp ip q) (q_list s),
      q_len := q_len s - int (length (filter (ip_cmp ip) (q_list s))),
      k_out := k_out s @ concat (map (\<lambda>q. [IcmpUnreach (qe_id q), Reinject (qe_id q) NF_DROP])
                                     (filter (ip_cmp ip) (q_list s)))\<rparr>"
  by (simp add: ipq_drop_ip_def ipq_while_eq [OF emits_reinject(3)])

lemma ipq_dev_drop_eq:
  "ipq_dev_drop i s =
    s\<lparr>q_list := filter (\<lambda>q. \<not> dev_cmp i q) (q_list s),
      q_len := q_len s - int (length (filter (dev_cmp i) (q_list s))),
      k_out := k_out s @ concat (map (\<lambda>q. [Reinject (qe_id q) NF_DROP]) (filter (dev_cmp i) (q_list s)))\<rparr>"
  by (simp add: ipq_dev_drop_def ipq_while_eq [OF emits_reinject(1)])

lemma ipq_flush_eq:
  "ipq_flush s =
    s\<lparr>q_list := [], q_len := q_len s - int (length (q_list s)), q_flushing := False,
      k_out := k_out s @ concat (map (\<lambda>q. [Reinject (qe_id q) NF_DROP]) (q_list s))\<rparr>"
  by (simp add: ipq_flush_def ipq_while_eq [OF emits_reinject(1)])

lemma queue_ok_preserved:
  assumes "queue_ok s"
  shows "queue_ok (ipq_send_ip ip s)" "queue_ok (ipq_drop_ip ip s)" "queue_ok (ipq_dev_drop i s)"
    "queue_ok (ipq_flush s)" "queue_ok (snd (ipq_enqueue q s))"
proof -
  have len: "int (length (filter P (q_list s))) + int (length (filter (\<lambda>q. \<not> P q) (q_list s))) = int (length (q_list s))" for P
    by (metis of_nat_add sum_length_filter_compl)
  show "queue_ok (ipq_send_ip ip s)" "queue_ok (ipq_drop_ip ip s)"
    using assms len [of "ip_cmp ip"] by (simp_all add: queue_ok_def ipq_send_ip_eq ipq_drop_ip_eq)
  show "queue_ok (ipq_dev_drop i s)"
    using assms len [of "dev_cmp i"] by (simp add: queue_ok_def ipq_dev_drop_eq)
  show "queue_ok (ipq_flush s)" using assms by (simp add: queue_ok_def ipq_flush_eq)
  show "queue_ok (snd (ipq_enqueue q s))"
    using assms by (simp add: queue_ok_def ipq_enqueue_def Let_def emit_def)
qed

end
