(* ===== verification/RouteTable.thy ===== *)
theory RouteTable
  imports NeighTable KernelRoute PacketQueue
begin

unbundle bit_operations_syntax

text \<open>
  The route table, \<open>kaodv/src/aodv_route.c\<close>. \<open>a_routes\<close> is \<open>aodv_route_table\<close> in link order, ordered
  by address. A route of address 0 is allocated but not linked (\<open>create_aodv_route\<close>); such
  blocks are in \<open>a_loose\<close>, where the pointers to them still work. A route pointer is an
  address; \<open>route_get\<close> reads through it and \<open>route_upd\<close> writes, both failing on a block that is
  no route any more.
\<close>

section \<open>Access through a pointer\<close>

definition route_get :: "addr \<Rightarrow> aodv_state \<Rightarrow> aodv_route option" where
  "route_get p s = nl_get p (a_routes s @ a_loose s)"

definition route_upd :: "addr \<Rightarrow> (aodv_route \<Rightarrow> aodv_route) \<Rightarrow> aodv_state \<Rightarrow> aodv_state" where
  "route_upd p f s =
     (if route_get p s = None then fault s
      else s\<lparr>a_routes := nl_upd p f (a_routes s), a_loose := nl_upd p f (a_loose s)\<rparr>)"

definition deref_upd :: "addr option \<Rightarrow> (aodv_route \<Rightarrow> aodv_route) \<Rightarrow> aodv_state \<Rightarrow> aodv_state" where
  "deref_upd p f s = (case p of None \<Rightarrow> fault s | Some a \<Rightarrow> route_upd a f s)"

section \<open>The operations\<close>

definition valid_aodv_route :: "kenv \<Rightarrow> aodv_route \<Rightarrow> aodv_state \<Rightarrow> bool" where
  "valid_aodv_route e r s = (ke_time_after e (rt_lifetime r) (getcurrtime s) \<and> rt_valid r)"

text \<open>\<open>expire_aodv_route\<close>, as the change it makes to the entry.\<close>

definition expire_aodv_route :: "u64 \<Rightarrow> aodv_route \<Rightarrow> aodv_route" where
  "expire_aodv_route now r =
     r\<lparr>rt_lifetime := now + DELETE_PERIOD, rt_seq := rt_seq r + 1, rt_valid := False\<rparr>"

definition remove_aodv_route :: "addr \<Rightarrow> aodv_state \<Rightarrow> aodv_state" where
  "remove_aodv_route p s = kfree p (s\<lparr>a_routes := nl_del p (a_routes s), a_loose := nl_del p (a_loose s)\<rparr>)"

fun cleanup_route_loop :: "kenv \<Rightarrow> aodv_route nodes \<Rightarrow> aodv_state \<Rightarrow> aodv_state" where
  "cleanup_route_loop e [] s = s"
| "cleanup_route_loop e ((a, r) # rs) s =
     cleanup_route_loop e rs
       (kfree a (snd (delete_kernel_route_entry e (rt_ip r) (rt_next_hop r) (rt_netmask r) s)))"

definition cleanup_aodv_route_table :: "kenv \<Rightarrow> aodv_state \<Rightarrow> aodv_state" where
  "cleanup_aodv_route_table e s = (cleanup_route_loop e (a_routes s) s)\<lparr>a_routes := []\<rparr>"

definition route_stale :: "kenv \<Rightarrow> u64 \<Rightarrow> aodv_route \<Rightarrow> bool" where
  "route_stale e now r = (ke_time_before e (rt_lifetime r) now \<and> \<not> rt_self r)"

text \<open>The walk of \<open>flush_aodv_route_table\<close>: the entries that stay, and the state after the
  calls it made for the others.\<close>

fun flush_route_loop :: "kenv \<Rightarrow> u64 \<Rightarrow> aodv_route nodes \<Rightarrow> aodv_state \<Rightarrow> aodv_route nodes \<times> aodv_state" where
  "flush_route_loop e currtime [] s = ([], s)"
| "flush_route_loop e currtime ((a, r) # rs) s =
     (if route_stale e currtime r
      then if rt_valid r
           then (let (ks, t) = flush_route_loop e currtime rs s in ((a, expire_aodv_route currtime r) # ks, t))
           else flush_route_loop e currtime rs
                  (kfree a (snd (delete_kernel_route_entry e (rt_ip r) (rt_next_hop r) (rt_netmask r) s)))
      else (let (ks, t) = flush_route_loop e currtime rs s in ((a, r) # ks, t)))"

definition flush_aodv_route_table :: "kenv \<Rightarrow> aodv_state \<Rightarrow> int \<times> aodv_state" where
  "flush_aodv_route_table e s =
     (let (ks, t) = flush_route_loop e (getcurrtime s) (a_routes s) s in (0, t\<lparr>a_routes := ks\<rparr>))"

fun find_exact :: "u32 \<Rightarrow> aodv_route nodes \<Rightarrow> addr option" where
  "find_exact target_ip [] = None"
| "find_exact target_ip ((a, r) # rs) =
     (if rt_ip r \<le> target_ip
      then if rt_ip r = target_ip then Some a else find_exact target_ip rs
      else None)"

definition delete_aodv_route :: "u32 \<Rightarrow> aodv_state \<Rightarrow> int \<times> aodv_state" where
  "delete_aodv_route target_ip s =
     (case find_exact target_ip (a_routes s) of
        None \<Rightarrow> (0, s)
      | Some a \<Rightarrow> (1, remove_aodv_route a s))"

definition insert_aodv_route :: "addr \<times> aodv_route \<Rightarrow> aodv_state \<Rightarrow> aodv_state" where
  "insert_aodv_route new_route s = s\<lparr>a_routes := nl_insert rt_ip new_route (a_routes s)\<rparr>"

text \<open>\<open>old_seq\<close> and \<open>lifetime\<close> of a new route are not set.\<close>

definition new_route :: "kenv \<Rightarrow> addr \<Rightarrow> u32 \<Rightarrow> u32 \<Rightarrow> aodv_route" where
  "new_route e a ip bcast =
     \<lparr>rt_ip = ip, rt_netmask = bcast, rt_seq = 0, rt_old_seq = ucast (ke_junk e a 0), rt_metric = 0,
      rt_next_hop = ip, rt_rreq_id = 0, rt_lifetime = ke_junk e a 1, rt_dev = None,
      rt_valid = False, rt_seq_valid = False, rt_self = False\<rparr>"

definition create_aodv_route :: "kenv \<Rightarrow> u32 \<Rightarrow> aodv_state \<Rightarrow> addr option \<times> aodv_state" where
  "create_aodv_route e ip s =
     (case kmalloc e s of
        (None, s1) \<Rightarrow> (None, s1)
      | (Some a, s1) \<Rightarrow>
          let tmp_entry = (a, new_route e a ip (g_broadcast_ip s1))
          in if ip \<noteq> 0 then (Some a, insert_aodv_route tmp_entry s1)
             else (Some a, s1\<lparr>a_loose := tmp_entry # a_loose s1\<rparr>))"

definition init_aodv_route_table :: "kenv \<Rightarrow> aodv_state \<Rightarrow> int \<times> aodv_state" where
  "init_aodv_route_table e s =
     (let lo = (case inet_aton e ''127.0.0.1'' of None \<Rightarrow> 0 | Some w \<Rightarrow> w);
          (tmp_route, s1) = create_aodv_route e lo (s\<lparr>a_routes := []\<rparr>)
      in (0, deref_upd tmp_route
               (\<lambda>r. r\<lparr>rt_next_hop := lo, rt_metric := 0, rt_self := True, rt_valid := True, rt_seq := 0\<rparr>) s1))"

definition compare_aodv_route :: "aodv_route \<Rightarrow> u32 \<Rightarrow> bool" where
  "compare_aodv_route r target_ip = (rt_ip r AND rt_netmask r = target_ip AND rt_netmask r)"

text \<open>The walk of \<open>find_aodv_route\<close>, which expires stale routes on its way: the last match so
  far, and the table as it leaves it.\<close>

fun find_route_loop :: "kenv \<Rightarrow> u64 \<Rightarrow> u32 \<Rightarrow> addr option \<Rightarrow> aodv_route nodes \<Rightarrow> addr option \<times> aodv_route nodes" where
  "find_route_loop e now target_ip possible [] = (possible, [])"
| "find_route_loop e now target_ip possible ((a, r) # rs) =
     (if rt_ip r \<le> target_ip
      then (let r1 = (if route_stale e now r \<and> rt_valid r then expire_aodv_route now r else r);
                possible1 = (if compare_aodv_route r1 target_ip then Some a else possible);
                (p, ks) = find_route_loop e now target_ip possible1 rs
            in (p, (a, r1) # ks))
      else (possible, (a, r) # rs))"

definition find_aodv_route :: "kenv \<Rightarrow> u32 \<Rightarrow> aodv_state \<Rightarrow> addr option \<times> aodv_state" where
  "find_aodv_route e target_ip s =
     (let (p, ks) = find_route_loop e (getcurrtime s) target_ip None (a_routes s)
      in (p, s\<lparr>a_routes := ks\<rparr>))"

text \<open>The tail of \<open>update_aodv_route\<close> from "Update values in the RT entry" on. \<open>dev->name\<close> of a NULL
  \<open>dev\<close> is the NULL pointer, as the name is the first field of a \<open>net_device\<close>.\<close>

definition write_route :: "kenv \<Rightarrow> u32 \<Rightarrow> addr \<Rightarrow> u32 \<Rightarrow> u8 \<Rightarrow> u32 \<Rightarrow> netdev option \<Rightarrow> aodv_state \<Rightarrow> aodv_state" where
  "write_route e ip p next_hop_ip metric seq dev s =
     (let s1 = route_upd p (\<lambda>r. r\<lparr>rt_seq := seq, rt_next_hop := next_hop_ip, rt_metric := metric,
                                  rt_dev := dev, rt_valid := True, rt_seq_valid := True\<rparr>) s
      in case route_get p s1 of
           None \<Rightarrow> fault s1
         | Some r \<Rightarrow>
             let s2 = snd (delete_kernel_route_entry e (rt_ip r) (rt_next_hop r) (rt_netmask r) s1);
                 s3 = snd (insert_kernel_route_entry e (rt_ip r) (rt_next_hop r) (rt_netmask r)
                             (map_option nd_name (rt_dev r)) s2);
                 s4 = ipq_send_ip ip s3
             in route_upd p (\<lambda>r. r\<lparr>rt_lifetime := getcurrtime s4 + ACTIVE_ROUTE_TIMEOUT\<rparr>) s4)"

definition update_aodv_route :: "kenv \<Rightarrow> u32 \<Rightarrow> u32 \<Rightarrow> u8 \<Rightarrow> u32 \<Rightarrow> netdev option \<Rightarrow> aodv_state \<Rightarrow> int \<times> aodv_state" where
  "update_aodv_route e ip next_hop_ip metric seq dev s =
     (let (tmp_route, s1) = find_aodv_route e ip s
      in if \<not> valid_aodv_neigh e next_hop_ip s1 then (0, s1)
         else case tmp_route of
           Some p \<Rightarrow>
             (case route_get p s1 of
                None \<Rightarrow> (0, fault s1)
              | Some r \<Rightarrow>
                  if seq_greater (rt_seq r) seq then (0, s1)
                  else if rt_valid r \<and> seq = rt_seq r \<and> metric \<ge> rt_metric r then (0, s1)
                  else (0, write_route e ip p next_hop_ip metric seq dev s1))
         | None \<Rightarrow>
             (case create_aodv_route e ip s1 of
                (None, s2) \<Rightarrow> (- ENOMEM, s2)
              | (Some p, s2) \<Rightarrow>
                  (0, write_route e ip p next_hop_ip metric seq dev
                        (route_upd p (\<lambda>r. r\<lparr>rt_ip := ip\<rparr>) s2))))"

section \<open>Invariant\<close>

definition route_addrs :: "aodv_state \<Rightarrow> addr list" where
  "route_addrs s = nl_addrs (a_routes s @ a_loose s)"

definition routes_ok :: "aodv_state \<Rightarrow> bool" where
  "routes_ok s = (sorted_by rt_ip (a_routes s) \<and> distinct (route_addrs s)
     \<and> (\<forall>a \<in> set (route_addrs s). a < k_allocs s))"

lemma routes_ok_cong:
  "a_routes t = a_routes s \<Longrightarrow> a_loose t = a_loose s \<Longrightarrow> k_allocs s \<le> k_allocs t \<Longrightarrow> routes_ok s \<Longrightarrow> routes_ok t"
  unfolding routes_ok_def route_addrs_def by (metis order_less_le_trans)

lemma nl_get_append: "nl_get a (ns @ ms) = (case nl_get a ns of None \<Rightarrow> nl_get a ms | Some x \<Rightarrow> Some x)"
  by (induction ns) (auto split: option.splits)

lemma route_get_None: "route_get p s = None \<longleftrightarrow> p \<notin> set (route_addrs s)"
  by (simp add: route_get_def route_addrs_def nl_get_None_iff)

lemma route_get_upd:
  "route_get q (route_upd p f s) = (if p = q then map_option f (route_get q s) else route_get q s)"
proof (cases "route_get p s")
  case None
  then show ?thesis by (auto simp: route_upd_def) (simp_all add: route_get_def)
next
  case (Some r)
  then show ?thesis
    by (simp add: route_upd_def) (auto simp: route_get_def nl_get_append nl_get_upd split: option.splits)
qed

lemma route_upd_frame [simp, frame]:
  "k_time (route_upd p f s) = k_time s"
  "k_jiffies (route_upd p f s) = k_jiffies s"
  "k_timer_pending (route_upd p f s) = k_timer_pending s"
  "k_allocs (route_upd p f s) = k_allocs s"
  "k_live (route_upd p f s) = k_live s"
  "k_out (route_upd p f s) = k_out s"
  "g_my_route (route_upd p f s) = g_my_route s"
  "g_my_ip (route_upd p f s) = g_my_ip s"
  "g_broadcast_ip (route_upd p f s) = g_broadcast_ip s"
  "a_neighs (route_upd p f s) = a_neighs s"
  "a_floods (route_upd p f s) = a_floods s"
  "a_timers (route_upd p f s) = a_timers s"
  "a_tasks (route_upd p f s) = a_tasks s"
  "a_devs (route_upd p f s) = a_devs s"
  "q_list (route_upd p f s) = q_list s"
  "q_len (route_upd p f s) = q_len s"
  "q_maxlen (route_upd p f s) = q_maxlen s"
  "getcurrtime (route_upd p f s) = getcurrtime s"
  "route_addrs (route_upd p f s) = route_addrs s"
  by (simp_all add: route_upd_def route_addrs_def)

lemma route_upd_ok:
  assumes "routes_ok s" "\<And>r. rt_ip (f r) = rt_ip r"
  shows "routes_ok (route_upd p f s)"
  using assms by (simp add: routes_ok_def) (simp add: route_upd_def sorted_by_upd)

lemma deref_upd_ok:
  assumes "routes_ok s" "\<And>r. rt_ip (f r) = rt_ip r"
  shows "routes_ok (deref_upd p f s)"
  using assms route_upd_ok [OF assms]
  by (cases p) (simp_all add: deref_upd_def fault_def routes_ok_def route_addrs_def)

section \<open>Finding a route\<close>

text \<open>The table after the search: the stale valid routes it passed are expired.\<close>

definition pass_route :: "kenv \<Rightarrow> u64 \<Rightarrow> u32 \<Rightarrow> aodv_route \<Rightarrow> aodv_route" where
  "pass_route e now target_ip r =
     (if rt_ip r \<le> target_ip \<and> route_stale e now r \<and> rt_valid r then expire_aodv_route now r else r)"

lemma expire_aodv_route_simps [simp]:
  "rt_ip (expire_aodv_route now r) = rt_ip r"
  "rt_netmask (expire_aodv_route now r) = rt_netmask r"
  "rt_next_hop (expire_aodv_route now r) = rt_next_hop r"
  "rt_metric (expire_aodv_route now r) = rt_metric r"
  "rt_self (expire_aodv_route now r) = rt_self r"
  "rt_dev (expire_aodv_route now r) = rt_dev r"
  "rt_valid (expire_aodv_route now r) = False"
  "rt_seq (expire_aodv_route now r) = rt_seq r + 1"
  by (simp_all add: expire_aodv_route_def)

lemma pass_route_simps [simp]:
  "rt_ip (pass_route e now t r) = rt_ip r"
  "rt_netmask (pass_route e now t r) = rt_netmask r"
  "rt_next_hop (pass_route e now t r) = rt_next_hop r"
  "rt_metric (pass_route e now t r) = rt_metric r"
  "rt_self (pass_route e now t r) = rt_self r"
  "rt_dev (pass_route e now t r) = rt_dev r"
  by (simp_all add: pass_route_def)

lemma compare_pass [simp]: "compare_aodv_route (pass_route e now t r) ip = compare_aodv_route r ip"
  "compare_aodv_route (expire_aodv_route now r) ip = compare_aodv_route r ip"
  by (simp_all add: compare_aodv_route_def)

fun last_match :: "u32 \<Rightarrow> aodv_route nodes \<Rightarrow> addr option" where
  "last_match t [] = None"
| "last_match t ((a, r) # rs) =
     (case last_match t rs of
        Some b \<Rightarrow> Some b
      | None \<Rightarrow> if rt_ip r \<le> t \<and> compare_aodv_route r t then Some a else None)"

lemma last_match_Some:
  "last_match t rs = Some a \<Longrightarrow> \<exists>r. (a, r) \<in> set rs \<and> rt_ip r \<le> t \<and> compare_aodv_route r t"
  by (induction rs) (auto split: option.splits if_splits)

lemma last_match_None:
  "last_match t rs = None \<longleftrightarrow> (\<forall>r \<in> set (nl_vals rs). \<not> (rt_ip r \<le> t \<and> compare_aodv_route r t))"
  by (induction rs) (auto split: option.splits)

text \<open>Among the matching entries the search returns one of the greatest address, so of nested
  subnets that contain the target the one that starts last.\<close>

lemma last_match_greatest:
  "sorted_by rt_ip rs \<Longrightarrow> last_match t rs = Some a \<Longrightarrow> distinct (nl_addrs rs) \<Longrightarrow> (a, r) \<in> set rs \<Longrightarrow>
   r' \<in> set (nl_vals rs) \<Longrightarrow> rt_ip r' \<le> t \<Longrightarrow> compare_aodv_route r' t \<Longrightarrow> rt_ip r' \<le> rt_ip r"
proof (induction rs)
  case (Cons n rs)
  obtain b q where n: "n = (b, q)" by (cases n)
  show ?case
  proof (cases "last_match t rs")
    case None
    then have "r' \<notin> set (nl_vals rs)" using Cons.prems(6,7) last_match_None [of t rs] by blast
    then have "r' = q" using Cons.prems(5) n by simp
    moreover have "a = b" using None Cons.prems(2) n by (simp split: if_splits)
    then have "r = q" using Cons.prems(3,4) n nl_addrs_in [of a r rs] by auto
    ultimately show ?thesis by simp
  next
    case (Some c)
    then have c: "last_match t rs = Some a" using Cons.prems(2) n by simp
    then obtain q' where q': "(a, q') \<in> set rs" using last_match_Some by blast
    then have r: "(a, r) \<in> set rs" using Cons.prems(3,4) n nl_addrs_in [OF q'] by auto
    show ?thesis
    proof (cases "r' \<in> set (nl_vals rs)")
      case True
      then show ?thesis using Cons.IH c r Cons.prems n by simp
    next
      case False
      then have "r' = q" using Cons.prems(5) n by simp
      moreover have "r \<in> set (nl_vals rs)" using r by (force simp: nl_vals_def)
      ultimately show ?thesis using Cons.prems(1) n by simp
    qed
  qed
qed simp

lemma find_route_loop_sorted:
  assumes "sorted_by rt_ip rs"
  shows "find_route_loop e now t p rs =
    (case last_match t rs of None \<Rightarrow> p | Some a \<Rightarrow> Some a, map (apsnd (pass_route e now t)) rs)"
  using assms
proof (induction rs arbitrary: p)
  case (Cons n rs)
  obtain a r where n: "n = (a, r)" by (cases n)
  show ?case
  proof (cases "rt_ip r \<le> t")
    case True
    then show ?thesis using Cons by (auto simp: n pass_route_def split: option.splits)
  next
    case False
    then have *: "\<forall>m \<in> set rs. \<not> rt_ip (snd m) \<le> t"
      using Cons.prems by (force simp: n nl_vals_def)
    then have "last_match t rs = None" by (force simp: last_match_None nl_vals_def)
    moreover have "map (apsnd (pass_route e now t)) rs = rs"
      using * by (intro map_idI) (auto simp: pass_route_def)
    moreover have "pass_route e now t r = r" using False by (simp add: pass_route_def)
    ultimately show ?thesis using False by (simp add: n)
  qed
qed simp

text \<open>Without assumptions on the table: nodes stay where they are and keep address and mask.\<close>

lemma find_route_loop_shape:
  "list_all2 (\<lambda>(a, r) (b, r'). a = b \<and> (r' = r \<or> r' = expire_aodv_route now r \<and> route_stale e now r \<and> rt_valid r))
     rs (snd (find_route_loop e now t p rs))"
  by (induction e now t p rs rule: find_route_loop.induct)
    (auto simp: case_prod_beta Let_def list_all2_same)

lemma find_aodv_route_frame [simp, frame]:
  "k_time (snd (find_aodv_route e t s)) = k_time s"
  "k_jiffies (snd (find_aodv_route e t s)) = k_jiffies s"
  "k_timer_pending (snd (find_aodv_route e t s)) = k_timer_pending s"
  "k_allocs (snd (find_aodv_route e t s)) = k_allocs s"
  "k_live (snd (find_aodv_route e t s)) = k_live s"
  "k_out (snd (find_aodv_route e t s)) = k_out s"
  "k_fault (snd (find_aodv_route e t s)) = k_fault s"
  "g_my_route (snd (find_aodv_route e t s)) = g_my_route s"
  "g_my_ip (snd (find_aodv_route e t s)) = g_my_ip s"
  "g_broadcast_ip (snd (find_aodv_route e t s)) = g_broadcast_ip s"
  "g_aodv_gateway (snd (find_aodv_route e t s)) = g_aodv_gateway s"
  "aodv_overhead (snd (find_aodv_route e t s)) = aodv_overhead s"
  "a_loose (snd (find_aodv_route e t s)) = a_loose s"
  "a_neighs (snd (find_aodv_route e t s)) = a_neighs s"
  "a_floods (snd (find_aodv_route e t s)) = a_floods s"
  "a_timers (snd (find_aodv_route e t s)) = a_timers s"
  "a_tasks (snd (find_aodv_route e t s)) = a_tasks s"
  "a_devs (snd (find_aodv_route e t s)) = a_devs s"
  "q_list (snd (find_aodv_route e t s)) = q_list s"
  "q_len (snd (find_aodv_route e t s)) = q_len s"
  "q_maxlen (snd (find_aodv_route e t s)) = q_maxlen s"
  "getcurrtime (snd (find_aodv_route e t s)) = getcurrtime s"
  by (simp_all add: find_aodv_route_def case_prod_beta)

lemma find_aodv_route_eq:
  assumes "sorted_by rt_ip (a_routes s)"
  shows "find_aodv_route e t s =
    (last_match t (a_routes s),
     s\<lparr>a_routes := map (apsnd (pass_route e (getcurrtime s) t)) (a_routes s)\<rparr>)"
  by (simp add: find_aodv_route_def find_route_loop_sorted [OF assms] split: option.splits)

lemma map_apsnd_addrs [simp]: "nl_addrs (map (apsnd f) ns) = nl_addrs ns"
  by (simp add: nl_addrs_def)

lemma map_apsnd_vals [simp]: "nl_vals (map (apsnd f) ns) = map f (nl_vals ns)"
  by (simp add: nl_vals_def)

lemma nl_get_map [simp]: "nl_get a (map (apsnd f) ns) = map_option f (nl_get a ns)"
  by (induction ns) auto

lemma find_aodv_route_ok: "routes_ok s \<Longrightarrow> routes_ok (snd (find_aodv_route e t s))"
  by (simp add: routes_ok_def find_aodv_route_eq route_addrs_def sorted_by_def comp_def)

section \<open>Creating, updating and removing\<close>

definition written_route :: "u32 \<Rightarrow> u8 \<Rightarrow> u32 \<Rightarrow> netdev option \<Rightarrow> u64 \<Rightarrow> aodv_route \<Rightarrow> aodv_route" where
  "written_route next_hop_ip metric seq dev now r =
     r\<lparr>rt_seq := seq, rt_next_hop := next_hop_ip, rt_metric := metric, rt_dev := dev,
       rt_valid := True, rt_seq_valid := True, rt_lifetime := now + ACTIVE_ROUTE_TIMEOUT\<rparr>"

lemma nl_upd_upd: "nl_upd p g (nl_upd p f ns) = nl_upd p (\<lambda>x. g (f x)) ns"
  by (induction ns) auto

text \<open>What a write of a route does outside the route itself: the kernel's entry is replaced
  and the packets held for the destination are released.\<close>

definition write_events :: "kenv \<Rightarrow> u32 \<Rightarrow> u32 \<Rightarrow> netdev option \<Rightarrow> aodv_route \<Rightarrow> aodv_state \<Rightarrow> kevent list" where
  "write_events e ip nh dev r s =
     (if ke_kmalloc_ok e (k_allocs s) then [RtDel (rt_ip r AND rt_netmask r) (rt_netmask r)] else [])
     @ (if ke_kmalloc_ok e (Suc (k_allocs s))
        then [RtAdd (rt_ip r AND rt_netmask r) nh (rt_netmask r) (map_option nd_name dev)] else [])
     @ concat (map (\<lambda>q. [RouteHarder (qe_id q), Reinject (qe_id q) NF_ACCEPT])
                   (filter (ip_cmp ip) (q_list s)))"

definition write_live :: "kenv \<Rightarrow> aodv_state \<Rightarrow> addr set" where
  "write_live e s =
     (let l = (if ke_kmalloc_ok e (k_allocs s) then k_live s - {k_allocs s} else k_live s)
      in if ke_kmalloc_ok e (Suc (k_allocs s)) then l - {Suc (k_allocs s)} else l)"

lemma write_route_eq:
  assumes "route_get p s = Some r"
  shows "write_route e ip p nh metric seq dev s =
    s\<lparr>a_routes := nl_upd p (written_route nh metric seq dev (getcurrtime s)) (a_routes s),
      a_loose := nl_upd p (written_route nh metric seq dev (getcurrtime s)) (a_loose s),
      k_allocs := Suc (Suc (k_allocs s)), k_live := write_live e s,
      k_out := k_out s @ write_events e ip nh dev r s,
      q_list := filter (\<lambda>q. \<not> ip_cmp ip q) (q_list s),
      q_len := q_len s - int (length (filter (ip_cmp ip) (q_list s)))\<rparr>"
proof -
  let ?f = "\<lambda>r. r\<lparr>rt_seq := seq, rt_next_hop := nh, rt_metric := metric, rt_dev := dev,
      rt_valid := True, rt_seq_valid := True\<rparr>"
  define s1 where "s1 = s\<lparr>a_routes := nl_upd p ?f (a_routes s), a_loose := nl_upd p ?f (a_loose s)\<rparr>"
  have u: "route_upd p ?f s = s1" using assms by (simp add: route_upd_def s1_def)
  have g: "route_get p s1 = Some (?f r)" using assms route_get_upd [of p p ?f s] u by simp
  have g': "route_get p (s1\<lparr>k_allocs := n, k_live := l, k_out := k', q_list := ql, q_len := qn\<rparr>) = Some (?f r)"
    for n l k' ql qn using g by (simp add: route_get_def)
  define s4 where "s4 = s1\<lparr>k_allocs := Suc (Suc (k_allocs s)), k_live := write_live e s,
      k_out := k_out s @ write_events e ip nh dev r s,
      q_list := filter (\<lambda>q. \<not> ip_cmp ip q) (q_list s),
      q_len := q_len s - int (length (filter (ip_cmp ip) (q_list s)))\<rparr>"
  define s3 where "s3 = snd (insert_kernel_route_entry e (rt_ip r) nh (rt_netmask r) (map_option nd_name dev)
      (snd (delete_kernel_route_entry e (rt_ip r) nh (rt_netmask r) s1)))"
  have "ipq_send_ip ip s3 = s4"
    by (rule aodv_state.equality)
      (simp_all add: delete_kernel_route_entry_eq insert_kernel_route_entry_eq ipq_send_ip_eq s4_def
        s3_def s1_def write_events_def write_live_def Let_def)
  then have w: "write_route e ip p nh metric seq dev s =
      route_upd p (\<lambda>r. r\<lparr>rt_lifetime := getcurrtime s4 + ACTIVE_ROUTE_TIMEOUT\<rparr>) s4"
    unfolding write_route_def Let_def u g by (simp add: s3_def)
  have g4: "route_get p s4 = Some (?f r)" using g by (simp add: route_get_def s4_def)
  show ?thesis
    unfolding w
    by (simp add: route_upd_def g4) (simp add: s4_def s1_def nl_upd_upd written_route_def [abs_def])
qed

lemma routes_ok_written:
  assumes "routes_ok s"
  shows "routes_ok (write_route e ip p nh metric seq dev s)"
proof (cases "route_get p s")
  case None
  then show ?thesis using assms
    by (simp add: write_route_def route_upd_def route_get_def fault_def routes_ok_def route_addrs_def)
next
  case (Some r)
  show ?thesis using assms unfolding write_route_eq [OF Some]
    by (auto simp: routes_ok_def route_addrs_def sorted_by_upd written_route_def less_SucI)
qed

lemma create_aodv_route_Some:
  assumes "create_aodv_route e ip s = (Some a, t)"
  shows "a = k_allocs s \<and> ke_kmalloc_ok e (k_allocs s)
    \<and> t = s\<lparr>k_allocs := Suc (k_allocs s), k_live := insert (k_allocs s) (k_live s),
           a_routes := (if ip \<noteq> 0 then nl_insert rt_ip (a, new_route e a ip (g_broadcast_ip s)) (a_routes s) else a_routes s),
           a_loose := (if ip \<noteq> 0 then a_loose s else (a, new_route e a ip (g_broadcast_ip s)) # a_loose s)\<rparr>"
  using assms
  by (cases "ip = 0") (auto simp: create_aodv_route_def kmalloc_def insert_aodv_route_def Let_def split: if_splits)

lemma create_aodv_route_None:
  "create_aodv_route e ip s = (None, t) \<Longrightarrow> t = s\<lparr>k_allocs := Suc (k_allocs s)\<rparr>"
  by (simp add: create_aodv_route_def kmalloc_def Let_def split: if_splits)

lemma create_aodv_route_get:
  assumes "routes_ok s" "create_aodv_route e ip s = (Some a, t)"
  shows "route_get a t = Some (new_route e a ip (g_broadcast_ip s))"
    "\<And>b. b \<noteq> a \<Longrightarrow> route_get b t = route_get b s"
proof -
  note c = create_aodv_route_Some [OF assms(2)]
  have ins: "nl_get b (nl_insert k (a, x) ns) = (if b = a then Some x else nl_get b ns)"
    if "a \<notin> set (nl_addrs ns)" for b ns x and k :: "aodv_route \<Rightarrow> u32"
    using that by (induction ns) (auto simp: nl_get_None_iff)
  have fresh: "a \<notin> set (nl_addrs (a_routes s))" "a \<notin> set (nl_addrs (a_loose s))"
    using assms(1) c by (auto simp: routes_ok_def route_addrs_def)
  have n: "nl_get a (a_routes s) = None" using fresh by (simp add: nl_get_None_iff)
  show "route_get a t = Some (new_route e a ip (g_broadcast_ip s))"
    by (simp add: c [THEN conjunct2, THEN conjunct2] route_get_def nl_get_append ins fresh n del: nl_get_None_iff)
  show "route_get b t = route_get b s" if "b \<noteq> a" for b
    using that by (simp add: c [THEN conjunct2, THEN conjunct2] route_get_def nl_get_append ins fresh
        split: option.splits)
qed

lemma create_aodv_route_ok:
  assumes "routes_ok s"
  shows "routes_ok (snd (create_aodv_route e ip s))"
proof (cases "create_aodv_route e ip s")
  case (Pair p t)
  show ?thesis
  proof (cases p)
    case None
    then show ?thesis using create_aodv_route_None [of e ip s t] Pair assms
      by (auto intro: routes_ok_cong [OF _ _ _ assms])
  next
    case (Some a)
    note c = create_aodv_route_Some [OF Pair [unfolded Some]]
    have fresh: "k_allocs s \<notin> set (nl_addrs (a_routes s))" "k_allocs s \<notin> set (nl_addrs (a_loose s))"
      using assms by (auto simp: routes_ok_def route_addrs_def)
    show ?thesis using assms c fresh Pair
      by (auto simp: routes_ok_def route_addrs_def sorted_nl_insert less_SucI)
  qed
qed

text \<open>Writing the address of a route just created changes nothing.\<close>

lemma created_ip_upd:
  assumes s1: "routes_ok s1" and c: "create_aodv_route e ip s1 = (Some a, s2)"
  shows "route_upd a (\<lambda>r. r\<lparr>rt_ip := ip\<rparr>) s2 = s2"
proof -
  have s2: "routes_ok s2" using create_aodv_route_ok [OF s1, of e ip] c by simp
  have g: "route_get a s2 = Some (new_route e a ip (g_broadcast_ip s1))"
    using create_aodv_route_get(1) [OF s1 c] .
  have "nl_upd a (\<lambda>r. r\<lparr>rt_ip := ip\<rparr>) ns = ns" if "\<And>r. (a, r) \<in> set ns \<Longrightarrow> rt_ip r = ip" for ns
    using that
  proof (induction ns)
    case (Cons n ns)
    then show ?case by (cases n) auto
  qed simp
  moreover have "rt_ip r = ip" if "(a, r) \<in> set (a_routes s2 @ a_loose s2)" for r
  proof -
    have "nl_get a (a_routes s2 @ a_loose s2) = Some r"
      using s2 that by (intro nl_get_in) (auto simp: routes_ok_def route_addrs_def)
    then show ?thesis using g by (simp add: route_get_def new_route_def)
  qed
  ultimately have "nl_upd a (\<lambda>r. r\<lparr>rt_ip := ip\<rparr>) (a_routes s2) = a_routes s2"
    "nl_upd a (\<lambda>r. r\<lparr>rt_ip := ip\<rparr>) (a_loose s2) = a_loose s2"
    by (metis UnCI set_append)+
  then show ?thesis using g by (simp add: route_upd_def)
qed

lemma remove_aodv_route_ok: "routes_ok s \<Longrightarrow> routes_ok (remove_aodv_route p s)"
  by (auto simp: remove_aodv_route_def routes_ok_def route_addrs_def sorted_by_del)

lemma delete_aodv_route_ok: "routes_ok s \<Longrightarrow> routes_ok (snd (delete_aodv_route t s))"
  by (simp add: delete_aodv_route_def remove_aodv_route_ok split: option.splits)

lemma flush_route_loop_frame [simp, frame]:
  "k_time (snd (flush_route_loop e now rs s)) = k_time s"
  "a_loose (snd (flush_route_loop e now rs s)) = a_loose s"
  "a_neighs (snd (flush_route_loop e now rs s)) = a_neighs s"
  "a_floods (snd (flush_route_loop e now rs s)) = a_floods s"
  "a_timers (snd (flush_route_loop e now rs s)) = a_timers s"
  "a_tasks (snd (flush_route_loop e now rs s)) = a_tasks s"
  "a_devs (snd (flush_route_loop e now rs s)) = a_devs s"
  "g_my_ip (snd (flush_route_loop e now rs s)) = g_my_ip s"
  "g_my_route (snd (flush_route_loop e now rs s)) = g_my_route s"
  "g_broadcast_ip (snd (flush_route_loop e now rs s)) = g_broadcast_ip s"
  "q_list (snd (flush_route_loop e now rs s)) = q_list s"
  "q_len (snd (flush_route_loop e now rs s)) = q_len s"
  "q_maxlen (snd (flush_route_loop e now rs s)) = q_maxlen s"
  by (induction e now rs s rule: flush_route_loop.induct)
    (simp_all add: case_prod_beta delete_kernel_route_entry_eq)

lemma flush_route_loop_allocs: "k_allocs s \<le> k_allocs (snd (flush_route_loop e now rs s))"
proof (induction e now rs s rule: flush_route_loop.induct)
  case (2 e now a r rs s)
  let ?t = "kfree a (snd (delete_kernel_route_entry e (rt_ip r) (rt_next_hop r) (rt_netmask r) s))"
  have "k_allocs s \<le> k_allocs ?t" by (simp add: delete_kernel_route_entry_eq)
  with 2 show ?case by (auto simp: case_prod_beta intro: order_trans)
qed simp

text \<open>What one pass of \<open>flush_aodv_route_table\<close> does to an entry.\<close>

definition flush_route :: "kenv \<Rightarrow> u64 \<Rightarrow> aodv_route \<Rightarrow> aodv_route option" where
  "flush_route e now r =
     (if \<not> route_stale e now r then Some r
      else if rt_valid r then Some (expire_aodv_route now r) else None)"

lemma flush_route_loop_map:
  "fst (flush_route_loop e now rs s) =
     List.map_filter (\<lambda>(a, r). map_option (Pair a) (flush_route e now r)) rs"
  by (induction e now rs s rule: flush_route_loop.induct)
    (simp_all add: case_prod_beta flush_route_def List.map_filter_simps)

lemma map_filter_addrs:
  "set (nl_addrs (List.map_filter (\<lambda>(a, r). map_option (Pair a) (f r)) rs)) \<subseteq> set (nl_addrs rs)"
  "distinct (nl_addrs rs) \<Longrightarrow> distinct (nl_addrs (List.map_filter (\<lambda>(a, r). map_option (Pair a) (f r)) rs))"
proof -
  show *: "set (nl_addrs (List.map_filter (\<lambda>(a, r). map_option (Pair a) (f r)) rs)) \<subseteq> set (nl_addrs rs)" for rs
    by (induction rs) (auto simp: List.map_filter_simps split: option.splits)
  show "distinct (nl_addrs rs) \<Longrightarrow> distinct (nl_addrs (List.map_filter (\<lambda>(a, r). map_option (Pair a) (f r)) rs))"
  proof (induction rs)
    case (Cons n rs)
    then show ?case using * [of rs] by (cases n) (auto simp: List.map_filter_simps split: option.splits)
  qed (simp add: List.map_filter_simps)
qed

lemma map_filter_sorted:
  assumes "\<And>r r'. f r = Some r' \<Longrightarrow> k r' = k r" "sorted_by k rs"
  shows "sorted_by k (List.map_filter (\<lambda>(a, r). map_option (Pair a) (f r)) rs)
    \<and> k ` set (nl_vals (List.map_filter (\<lambda>(a, r). map_option (Pair a) (f r)) rs)) \<subseteq> k ` set (nl_vals rs)"
  using assms(2)
proof (induction rs)
  case (Cons n rs)
  then show ?case using assms(1)
    by (cases n) (fastforce simp: List.map_filter_simps split: option.splits)
qed (simp add: List.map_filter_simps)

lemma flush_aodv_route_table_ok:
  assumes "routes_ok s"
  shows "routes_ok (snd (flush_aodv_route_table e s))"
proof -
  have k: "\<And>r r'. flush_route e (getcurrtime s) r = Some r' \<Longrightarrow> rt_ip r' = rt_ip r"
    by (auto simp: flush_route_def split: if_splits)
  let ?rs = "List.map_filter (\<lambda>(a, r). map_option (Pair a) (flush_route e (getcurrtime s) r)) (a_routes s)"
  define t where "t = snd (flush_aodv_route_table e s)"
  have t: "a_routes t = ?rs" "a_loose t = a_loose s" "k_allocs s \<le> k_allocs t"
    by (simp_all add: t_def flush_aodv_route_table_def case_prod_beta flush_route_loop_map flush_route_loop_allocs)
  have d: "distinct (nl_addrs (a_routes s))" "sorted_by rt_ip (a_routes s)"
    using assms by (simp_all add: routes_ok_def route_addrs_def)
  have "set (nl_addrs ?rs) \<subseteq> set (nl_addrs (a_routes s))" "distinct (nl_addrs ?rs)" "sorted_by rt_ip ?rs"
    using map_filter_addrs(1) map_filter_addrs(2) [OF d(1)] map_filter_sorted [OF k d(2)] by blast+
  then show ?thesis
    using assms t unfolding t_def [symmetric] routes_ok_def route_addrs_def
    by (simp add: subset_iff disjoint_iff ball_Un) (meson order_less_le_trans)
qed

lemma init_aodv_route_table_ok:
  assumes "a_loose s = []"
  shows "routes_ok (snd (init_aodv_route_table e s))"
proof -
  have "routes_ok (s\<lparr>a_routes := []\<rparr>)" using assms by (simp add: routes_ok_def route_addrs_def)
  then have "routes_ok (snd (create_aodv_route e ip (s\<lparr>a_routes := []\<rparr>)))" for ip
    by (rule create_aodv_route_ok)
  then have "routes_ok (deref_upd (fst (create_aodv_route e ip (s\<lparr>a_routes := []\<rparr>)))
      (\<lambda>r. r\<lparr>rt_next_hop := ip, rt_metric := 0, rt_self := True, rt_valid := True, rt_seq := 0\<rparr>)
      (snd (create_aodv_route e ip (s\<lparr>a_routes := []\<rparr>))))" for ip
    by (rule deref_upd_ok) simp
  then show ?thesis
    by (simp only: init_aodv_route_table_def Let_def case_prod_beta snd_conv)
qed

end
