(* ===== verification/AodvDev.thy ===== *)
theory AodvDev
  imports RouteTable
begin

unbundle bit_operations_syntax

text \<open>
  The interfaces (\<open>kaodv/src/aodv_dev.c\<close>), their sockets (\<open>kaodv/src/socket.c\<close>) and
  \<open>aodv_subnet_test\<close> of \<open>kaodv/src/utils.c\<close>. \<open>a_devs\<close> is \<open>aodv_dev_list\<close>. A socket is the address
  \<open>sock_create\<close> delivered. Setting a TTL and sending are events; what the kernel answers
  depends on the environment and on how many events went before.
\<close>

abbreviation (input) IFNAMSIZ :: nat where "IFNAMSIZ \<equiv> 16"
abbreviation (input) EFAULT :: int where "EFAULT \<equiv> 14"

section \<open>Interfaces\<close>

text \<open>An address of an interface: a \<open>struct in_ifaddr\<close>.\<close>

record in_ifaddr =
  ifa_address :: u32
  ifa_mask :: u32

text \<open>\<open>name\<close> and \<open>sock\<close> of the new entry are not set here but by the caller.\<close>

definition create_aodv_dev :: "kenv \<Rightarrow> netdev \<Rightarrow> in_ifaddr \<Rightarrow> aodv_state \<Rightarrow> (addr \<times> aodv_dev) option \<times> aodv_state" where
  "create_aodv_dev e dev ifa s =
     (case create_aodv_route e (ifa_address ifa) s of
        (None, s1) \<Rightarrow> (None, fault s1)
      | (Some p, s1) \<Rightarrow>
          let s2 = route_upd p (\<lambda>r. r\<lparr>rt_ip := ifa_address ifa, rt_self := True, rt_seq := 1, rt_old_seq := 0,
                     rt_rreq_id := 1, rt_metric := 0, rt_next_hop := ifa_address ifa, rt_lifetime := - 1,
                     rt_valid := True, rt_seq_valid := True, rt_dev := Some dev\<rparr>) s1
          in case kmalloc e s2 of
               (None, s3) \<Rightarrow> (None, s3)
             | (Some a, s3) \<Rightarrow>
                 (case route_get p s3 of
                    None \<Rightarrow> (None, fault s3)
                  | Some r \<Rightarrow>
                      (Some (a, \<lparr>dv_dev = dev, dv_route_entry = p, dv_ip = rt_ip r, dv_netmask = ifa_mask ifa,
                                 dv_name = [], dv_sock = None\<rparr>),
                       snd (insert_kernel_route_entry e (rt_ip r) (rt_next_hop r) (rt_netmask r)
                              (Some (nd_name dev)) (s3\<lparr>g_my_route := Some p, g_my_ip := rt_ip r\<rparr>)))))"

text \<open>The loop of \<open>insert_aodv_dev\<close> over the primary addresses. \<open>sock_create\<close> answers with an error
  or a socket; on an error the entry is freed although it is linked.\<close>

fun insert_dev_loop :: "kenv \<Rightarrow> string \<Rightarrow> (nat \<Rightarrow> int + addr) \<Rightarrow> netdev \<Rightarrow> in_ifaddr list \<Rightarrow> int \<Rightarrow> aodv_state
    \<Rightarrow> int \<times> aodv_state" where
  "insert_dev_loop e g_aodv_dev sock_create dev [] success s = (success, s)"
| "insert_dev_loop e g_aodv_dev sock_create dev (ifa # ifas) success s =
     (if g_aodv_dev \<noteq> [] \<and> take IFNAMSIZ (nd_name dev) = take IFNAMSIZ g_aodv_dev
      then (case create_aodv_dev e dev ifa s of
              (None, s1) \<Rightarrow> (success, fault s1)
            | (Some (a, d), s1) \<Rightarrow>
                (case sock_create (length (k_out s1)) of
                   Inl error \<Rightarrow>
                     (error, kfree a (s1\<lparr>a_devs := (a, d\<lparr>dv_name := take IFNAMSIZ (nd_name dev)\<rparr>) # a_devs s1\<rparr>))
                 | Inr sk \<Rightarrow>
                     insert_dev_loop e g_aodv_dev sock_create dev ifas (success + 1)
                       (s1\<lparr>a_devs := (a, d\<lparr>dv_name := take IFNAMSIZ (nd_name dev), dv_sock := Some sk\<rparr>) # a_devs s1\<rparr>)))
      else insert_dev_loop e g_aodv_dev sock_create dev ifas success s)"

text \<open>\<open>in_dev_get\<close> reads \<open>dev->ip_ptr\<close>: a NULL device is a NULL dereference, a device without
  \<open>in_device\<close> has no addresses.\<close>

definition insert_aodv_dev :: "kenv \<Rightarrow> string \<Rightarrow> (nat \<Rightarrow> int + addr) \<Rightarrow> netdev option \<Rightarrow> in_ifaddr list option
    \<Rightarrow> aodv_state \<Rightarrow> int \<times> aodv_state" where
  "insert_aodv_dev e g_aodv_dev sock_create dev in_dev s =
     (case dev of
        None \<Rightarrow> (0, fault s)
      | Some d \<Rightarrow>
          (case in_dev of
             None \<Rightarrow> (0, s)
           | Some ifas \<Rightarrow> insert_dev_loop e g_aodv_dev sock_create d ifas 0 s))"

definition init_aodv_dev :: "kenv \<Rightarrow> string \<Rightarrow> (nat \<Rightarrow> int + addr) \<Rightarrow> netdev option \<Rightarrow> in_ifaddr list option
    \<Rightarrow> aodv_state \<Rightarrow> int \<times> aodv_state" where
  "init_aodv_dev e g_aodv_dev sock_create dev in_dev s =
     (let (result, s1) = insert_aodv_dev e g_aodv_dev sock_create dev in_dev (s\<lparr>a_devs := []\<rparr>)
      in if result < 0 \<or> result = 0 then (0, s1)
         else (result, update_timer_queue e (snd (insert_timer e 102 HELLO_INTERVAL (g_my_ip s1) s1))))"

definition find_dev_ip :: "netdev option \<Rightarrow> u32" where
  "find_dev_ip dev =
     (case dev of
        None \<Rightarrow> word_of_int (- EFAULT)
      | Some d \<Rightarrow> (case nd_ip_ptr d of
                     None \<Rightarrow> word_of_int (- EFAULT)
                   | Some None \<Rightarrow> 0
                   | Some (Some ip) \<Rightarrow> ip))"

definition find_aodv_dev_by_dev :: "netdev option \<Rightarrow> aodv_state \<Rightarrow> (addr \<times> aodv_dev) option" where
  "find_aodv_dev_by_dev dev s =
     (case dev of
        None \<Rightarrow> None
      | Some d \<Rightarrow> (case nd_ip_ptr d of
                     None \<Rightarrow> None
                   | Some None \<Rightarrow> None
                   | Some (Some ip) \<Rightarrow> nl_find (\<lambda>x. dv_ip x = ip) (a_devs s)))"

fun subnet_loop :: "u32 \<Rightarrow> aodv_dev nodes \<Rightarrow> bool" where
  "subnet_loop tmp_ip [] = False"
| "subnet_loop tmp_ip ((a, d) # ds) =
     (if dv_ip d AND dv_netmask d = dv_netmask d AND tmp_ip then True else subnet_loop tmp_ip ds)"

definition aodv_subnet_test :: "u32 \<Rightarrow> aodv_state \<Rightarrow> bool" where
  "aodv_subnet_test tmp_ip s = subnet_loop tmp_ip (a_devs s)"

definition local_subnet_test :: "u32 \<Rightarrow> int" where
  "local_subnet_test tmp_ip = 0"

section \<open>Sending\<close>

text \<open>The walk of \<open>close_sock\<close>. The list head still names the first entry afterwards.\<close>

fun close_sock_loop :: "aodv_dev nodes \<Rightarrow> aodv_state \<Rightarrow> aodv_state" where
  "close_sock_loop [] s = s"
| "close_sock_loop ((a, d) # ds) s =
     (let s1 = (case dv_sock d of None \<Rightarrow> fault s | Some sk \<Rightarrow> emit (SockRelease sk) s)
      in close_sock_loop ds (kfree a s1))"

definition close_sock :: "aodv_state \<Rightarrow> aodv_state" where
  "close_sock s = close_sock_loop (a_devs s) s"

definition set_ttl :: "kenv \<Rightarrow> addr \<Rightarrow> u8 \<Rightarrow> aodv_state \<Rightarrow> int \<times> aodv_state" where
  "set_ttl e sk ttl s = (ke_set_ttl e (length (k_out s)), emit (SetTtl sk ttl) s)"

definition sock_sendmsg :: "kenv \<Rightarrow> addr \<Rightarrow> u32 \<Rightarrow> u8 list \<Rightarrow> aodv_state \<Rightarrow> int \<times> aodv_state" where
  "sock_sendmsg e sk dst dat s = (ke_sendmsg e (length (k_out s)), emit (SendMsg sk dst dat) s)"

fun broadcast_loop :: "kenv \<Rightarrow> u8 list \<Rightarrow> aodv_dev nodes \<Rightarrow> int \<Rightarrow> aodv_state \<Rightarrow> int \<times> aodv_state" where
  "broadcast_loop e dat [] len s = (len, s)"
| "broadcast_loop e dat ((a, d) # ds) len s =
     (case dv_sock d of
        None \<Rightarrow> (len, s)
      | Some sk \<Rightarrow>
          if ke_wspace e (length (k_out s)) \<ge> int (length dat)
          then (let (len1, s1) = sock_sendmsg e sk (g_broadcast_ip s) dat s in broadcast_loop e dat ds len1 s1)
          else (len, s))"

definition local_broadcast :: "kenv \<Rightarrow> u8 \<Rightarrow> u8 list \<Rightarrow> aodv_state \<Rightarrow> int \<times> aodv_state" where
  "local_broadcast e ttl dat s =
     (if ttl < 1 then (0, s)
      else case a_devs s of
        [] \<Rightarrow> (0, fault s)
      | (a, d) # ds \<Rightarrow>
          (case dv_sock d of
             None \<Rightarrow> (0, fault s)
           | Some sk \<Rightarrow>
               (let (error, s1) = set_ttl e sk ttl s
                in if error < 0 then (0, s1) else broadcast_loop e dat (a_devs s1) 0 s1)))"

definition send_on_dev :: "kenv \<Rightarrow> u32 \<Rightarrow> u8 \<Rightarrow> u8 list \<Rightarrow> (addr \<times> aodv_dev) option \<Rightarrow> aodv_state \<Rightarrow> int \<times> aodv_state" where
  "send_on_dev e dst_ip ttl dat tmp_dev s =
     (case tmp_dev of
        None \<Rightarrow> (- ENODEV, s)
      | Some (a, d) \<Rightarrow>
          (case dv_sock d of
             None \<Rightarrow> (0, fault s)
           | Some sk \<Rightarrow>
               (let space = ke_wspace e (length (k_out s));
                    (error, s1) = set_ttl e sk ttl s
                in if error < 0 then (0, s1)
                   else if space < int (length dat) then (- ENOMEM, s1)
                   else (0, snd (sock_sendmsg e sk dst_ip dat s1)))))"

definition send_message :: "kenv \<Rightarrow> u32 \<Rightarrow> u8 \<Rightarrow> u8 list \<Rightarrow> netdev option \<Rightarrow> aodv_state \<Rightarrow> int \<times> aodv_state" where
  "send_message e dst_ip ttl dat dev s =
     (if ttl = 0 then (0, s)
      else case dev of
        Some _ \<Rightarrow> send_on_dev e dst_ip ttl dat (find_aodv_dev_by_dev dev s) s
      | None \<Rightarrow>
          (case find_aodv_route e dst_ip s of
             (None, s1) \<Rightarrow> (- EHOSTUNREACH, s1)
           | (Some p, s1) \<Rightarrow>
               (case route_get p s1 of
                  None \<Rightarrow> (0, fault s1)
                | Some r \<Rightarrow> send_on_dev e dst_ip ttl dat (find_aodv_dev_by_dev (rt_dev r) s1) s1)))"

section \<open>Lemmas\<close>

text \<open>The state agrees with another up to events and faults: what sending may change.\<close>

definition out_only :: "aodv_state \<Rightarrow> aodv_state \<Rightarrow> bool" where
  "out_only s t = (\<exists>outs f. t = s\<lparr>k_out := k_out s @ outs, k_fault := f\<rparr>)"

lemma out_onlyI: "t = s\<lparr>k_out := k_out s @ outs, k_fault := f\<rparr> \<Longrightarrow> out_only s t"
  by (auto simp: out_only_def)

lemma out_only_refl [intro, simp]: "out_only s s"
  by (rule out_onlyI [where outs = "[]" and f = "k_fault s"]) simp

lemma out_only_emit [intro, simp]: "out_only s (emit ev s)"
  by (rule out_onlyI [where f = "k_fault s"]) (simp add: emit_def)

lemma out_only_fault [intro, simp]: "out_only s (fault s)"
  by (rule out_onlyI [where outs = "[]" and f = True]) (simp add: fault_def)

lemma out_only_trans: "out_only s t \<Longrightarrow> out_only t u \<Longrightarrow> out_only s u"
proof -
  assume "out_only s t" "out_only t u"
  then obtain o1 f1 o2 f2 where "t = s\<lparr>k_out := k_out s @ o1, k_fault := f1\<rparr>"
    "u = t\<lparr>k_out := k_out t @ o2, k_fault := f2\<rparr>" by (auto simp: out_only_def)
  then show ?thesis by (intro out_onlyI [where outs = "o1 @ o2" and f = f2]) simp
qed

lemma out_only_fields:
  assumes "out_only s t"
  shows "k_time t = k_time s" "k_allocs t = k_allocs s" "k_live t = k_live s" "a_routes t = a_routes s"
    "a_loose t = a_loose s" "a_neighs t = a_neighs s" "a_floods t = a_floods s" "a_timers t = a_timers s"
    "a_tasks t = a_tasks s" "a_devs t = a_devs s" "q_list t = q_list s" "q_len t = q_len s"
    "q_maxlen t = q_maxlen s" "g_my_ip t = g_my_ip s" "g_my_route t = g_my_route s"
    "g_broadcast_ip t = g_broadcast_ip s" "k_jiffies t = k_jiffies s" "k_timer_pending t = k_timer_pending s"
    "g_aodv_gateway t = g_aodv_gateway s" "q_block t = q_block s"
  using assms by (auto simp: out_only_def)

lemma broadcast_loop_out: "out_only s (snd (broadcast_loop e dat ds len s))"
proof (induction ds arbitrary: len s)
  case (Cons n ds)
  obtain a d where n: "n = (a, d)" by (cases n)
  have "out_only s (snd (broadcast_loop e dat ds l (emit ev s)))" for l ev
    by (rule out_only_trans [OF out_only_emit Cons.IH])
  then show ?case by (simp add: n sock_sendmsg_def split: option.split)
qed simp

lemma local_broadcast_out: "out_only s (snd (local_broadcast e ttl dat s))"
proof -
  have "out_only s (snd (broadcast_loop e dat ds 0 (emit ev s)))" for ds ev
    using broadcast_loop_out out_only_trans out_only_emit by blast
  then show ?thesis
    by (auto simp: local_broadcast_def set_ttl_def split: list.splits option.splits)
qed

lemma send_on_dev_out: "out_only s (snd (send_on_dev e dst ttl dat d s))"
proof -
  have "out_only s (emit ev1 (emit ev2 s))" for ev1 ev2
    using out_only_trans out_only_emit by blast
  then show ?thesis
    by (auto simp: send_on_dev_def set_ttl_def sock_sendmsg_def Let_def split: option.splits)
qed

lemma routes_ok_out: "out_only s t \<Longrightarrow> routes_ok s \<Longrightarrow> routes_ok t"
  by (rule routes_ok_cong) (auto simp: out_only_fields)

lemma send_message_out:
  "out_only s (snd (send_message e dst ttl dat dev s))
   \<or> out_only (snd (find_aodv_route e dst s)) (snd (send_message e dst ttl dat dev s))"
  by (cases "find_aodv_route e dst s")
    (auto simp: send_message_def intro: send_on_dev_out split: option.splits)

lemma send_message_ok: "routes_ok s \<Longrightarrow> routes_ok (snd (send_message e dst ttl dat dev s))"
  using send_message_out routes_ok_out find_aodv_route_ok by blast

lemma send_message_frame [simp, frame]:
  "k_time (snd (send_message e dst ttl dat dev s)) = k_time s"
  "k_allocs (snd (send_message e dst ttl dat dev s)) = k_allocs s"
  "k_live (snd (send_message e dst ttl dat dev s)) = k_live s"
  "g_my_route (snd (send_message e dst ttl dat dev s)) = g_my_route s"
  "g_my_ip (snd (send_message e dst ttl dat dev s)) = g_my_ip s"
  "g_broadcast_ip (snd (send_message e dst ttl dat dev s)) = g_broadcast_ip s"
  "a_loose (snd (send_message e dst ttl dat dev s)) = a_loose s"
  "a_neighs (snd (send_message e dst ttl dat dev s)) = a_neighs s"
  "a_floods (snd (send_message e dst ttl dat dev s)) = a_floods s"
  "a_timers (snd (send_message e dst ttl dat dev s)) = a_timers s"
  "a_tasks (snd (send_message e dst ttl dat dev s)) = a_tasks s"
  "a_devs (snd (send_message e dst ttl dat dev s)) = a_devs s"
  "q_list (snd (send_message e dst ttl dat dev s)) = q_list s"
  "q_len (snd (send_message e dst ttl dat dev s)) = q_len s"
  "q_maxlen (snd (send_message e dst ttl dat dev s)) = q_maxlen s"
  using send_message_out [of s e dst ttl dat dev]
  by (elim disjE; simp add: out_only_fields)+

end
