(* ===== verification/AodvRerr.thy ===== *)
theory AodvRerr
  imports AodvDev
begin

text \<open>
  Route errors, \<open>kaodv/src/rerr.c\<close>, and what becomes of the routes through a neighbour that is
  lost or found, \<open>delete_aodv_neigh\<close> and \<open>update_aodv_neigh\<close> of \<open>kaodv/src/aodv_neigh.c\<close>.
  A list of \<open>rerr_route\<close>s is a node list of destinations, latest first.
\<close>

section \<open>Sending a route error\<close>

fun free_rerr_routes :: "aodv_dst nodes \<Rightarrow> aodv_state \<Rightarrow> aodv_state" where
  "free_rerr_routes [] s = s"
| "free_rerr_routes ((a, d) # ds) s = free_rerr_routes ds (kfree a s)"

definition rerr_message :: "kenv \<Rightarrow> aodv_dst list \<Rightarrow> u8 list" where
  "rerr_message e ds =
     rerr_bytes (ke_big_endian e)
       \<lparr>re_type = RERR_MESSAGE, re_n = False, re_reserved = 0, re_dst_count = of_nat (length ds)\<rparr>
     @ dsts_bytes (ke_big_endian e) ds"

definition send_rerr :: "kenv \<Rightarrow> aodv_dst nodes \<Rightarrow> aodv_state \<Rightarrow> int \<times> aodv_state" where
  "send_rerr e bad_routes s =
     (case kmalloc e s of
        (None, s1) \<Rightarrow> (- ENOMEM, s1)
      | (Some p, s1) \<Rightarrow>
          let s2 = free_rerr_routes bad_routes s1;
              s3 = snd (local_broadcast e NET_DIAMETER (rerr_message e (nl_vals bad_routes)) s2)
          in (0, kfree p s3))"

text \<open>The walk of \<open>gen_rerr\<close>: the table as it leaves it, the list it built (None if an
  allocation failed) and the state.\<close>

fun gen_rerr_loop :: "kenv \<Rightarrow> u64 \<Rightarrow> u32 \<Rightarrow> aodv_route nodes \<Rightarrow> aodv_dst nodes \<Rightarrow> aodv_state
    \<Rightarrow> aodv_route nodes \<times> aodv_dst nodes option \<times> aodv_state" where
  "gen_rerr_loop e now brk [] bad s = ([], Some bad, s)"
| "gen_rerr_loop e now brk ((a, r) # rs) bad s =
     (if rt_next_hop r = brk \<and> \<not> rt_self r
      then (case kmalloc e s of
              (None, s1) \<Rightarrow> ((a, r) # rs, None, s1)
            | (Some b, s1) \<Rightarrow>
                let (ks, res, t) = gen_rerr_loop e now brk rs
                                     ((b, \<lparr>ds_ip = rt_ip r, ds_seq = htonl e (rt_seq r)\<rparr>) # bad) s1
                in ((a, if rt_valid r then expire_aodv_route now r else r) # ks, res, t))
      else (let (ks, res, t) = gen_rerr_loop e now brk rs bad s in ((a, r) # ks, res, t)))"

definition gen_rerr :: "kenv \<Rightarrow> u32 \<Rightarrow> aodv_state \<Rightarrow> int \<times> aodv_state" where
  "gen_rerr e brk_dst_ip s =
     (let (ks, res, t) = gen_rerr_loop e (getcurrtime s) brk_dst_ip (a_routes s) [] s;
          s1 = t\<lparr>a_routes := ks\<rparr>
      in case res of
           None \<Rightarrow> (0, s1)
         | Some bad \<Rightarrow> (0, if bad = [] then s1 else snd (send_rerr e bad s1)))"

section \<open>Receiving a route error\<close>

text \<open>The loop of \<open>recv_rerr\<close> over n more destinations from the i-th on.\<close>

fun recv_rerr_loop :: "kenv \<Rightarrow> u32 \<Rightarrow> u8 list \<Rightarrow> nat \<Rightarrow> nat \<Rightarrow> aodv_dst nodes \<Rightarrow> aodv_state
    \<Rightarrow> aodv_dst nodes option \<times> aodv_state" where
  "recv_rerr_loop e src bs 0 i out s = (Some out, s)"
| "recv_rerr_loop e src bs (Suc n) i out s =
     (let dst = rerr_dst_at (ke_big_endian e) bs i;
          (tmp_route, s1) = find_aodv_route e (ds_ip dst) s
      in case tmp_route of
           None \<Rightarrow> recv_rerr_loop e src bs n (Suc i) out s1
         | Some p \<Rightarrow>
             (case route_get p s1 of
                None \<Rightarrow> (None, fault s1)
              | Some r \<Rightarrow>
                  if \<not> rt_self r \<and> rt_next_hop r = src
                  then (let s2 = route_upd p (\<lambda>r. r\<lparr>rt_seq := ntohl e (ds_seq dst)\<rparr>) s1
                        in case kmalloc e s2 of
                             (None, s3) \<Rightarrow> (None, s3)
                           | (Some b, s3) \<Rightarrow>
                               recv_rerr_loop e src bs n (Suc i) ((b, dst) # out)
                                 (if rt_valid r then route_upd p (expire_aodv_route (getcurrtime s3)) s3 else s3))
                  else recv_rerr_loop e src bs n (Suc i) out s1))"

definition recv_rerr :: "kenv \<Rightarrow> task \<Rightarrow> aodv_state \<Rightarrow> int \<times> aodv_state" where
  "recv_rerr e tmp_packet s =
     (case tk_data tmp_packet of
        None \<Rightarrow> (0, fault s)
      | Some (_, bs) \<Rightarrow>
          (case recv_rerr_loop e (tk_src_ip tmp_packet) bs (unat (rerr_count bs)) 0 [] s of
             (None, s1) \<Rightarrow> (0, s1)
           | (Some out, s1) \<Rightarrow> (0, if out = [] then s1 else snd (send_rerr e out s1))))"

section \<open>Losing and finding a neighbour\<close>

definition neigh_upd :: "addr \<Rightarrow> (aodv_neigh \<Rightarrow> aodv_neigh) \<Rightarrow> aodv_state \<Rightarrow> aodv_state" where
  "neigh_upd a f s =
     (if nl_get a (a_neighs s) = None then fault s else s\<lparr>a_neighs := nl_upd a f (a_neighs s)\<rparr>)"

definition delete_aodv_neigh :: "kenv \<Rightarrow> u32 \<Rightarrow> aodv_state \<Rightarrow> int \<times> aodv_state" where
  "delete_aodv_neigh e ip s =
     (case nl_find (\<lambda>n. nb_ip n = ip) (a_neighs s) of
        None \<Rightarrow> (- ENODATA, s)
      | Some (a, _) \<Rightarrow>
          let s1 = kfree a (s\<lparr>a_neighs := nl_del a (a_neighs s)\<rparr>);
              s2 = update_timer_queue e (delete_timer ip 103 s1);
              (tmp_route, s3) = find_aodv_route e ip s2
          in case tmp_route of
               None \<Rightarrow> (0, s3)
             | Some p \<Rightarrow>
                 (case route_get p s3 of
                    None \<Rightarrow> (0, fault s3)
                  | Some r \<Rightarrow>
                      if rt_next_hop r = rt_ip r
                      then (let s4 = snd (delete_kernel_route_entry e (rt_ip r) (rt_next_hop r) (rt_netmask r) s3);
                                s5 = snd (gen_rerr e (rt_ip r) s4)
                            in case route_get p s5 of
                                 None \<Rightarrow> (0, fault s5)
                               | Some r1 \<Rightarrow>
                                   (0, if rt_valid r1 then route_upd p (expire_aodv_route (getcurrtime s5)) s5
                                       else remove_aodv_route p s5))
                      else (0, s3)))"

definition update_aodv_neigh_route :: "kenv \<Rightarrow> addr \<Rightarrow> rrep \<Rightarrow> aodv_state \<Rightarrow> aodv_state" where
  "update_aodv_neigh_route e tmp_neigh tmp_rrep s =
     (case nl_get tmp_neigh (a_neighs s) of
        None \<Rightarrow> fault s
      | Some n \<Rightarrow>
          let (found, s1) = find_aodv_route e (nb_ip n) s;
              (tmp_route, s2) = (case found of
                                   Some p \<Rightarrow> (Some p, s1)
                                 | None \<Rightarrow> create_aodv_route e (nb_ip n) s1)
          in case tmp_route of
               None \<Rightarrow> fault s2
             | Some p \<Rightarrow>
                 (case route_get p s2 of
                    None \<Rightarrow> fault s2
                  | Some r \<Rightarrow>
                      let s3 = snd (delete_kernel_route_entry e (rt_ip r) (rt_next_hop r) (rt_netmask r) s2);
                          s4 = snd (insert_kernel_route_entry e (rt_ip r) (rt_next_hop r) (rt_netmask r)
                                      (map_option nd_name (rt_dev r)) s3);
                          s5 = route_upd p (\<lambda>r. r\<lparr>rt_lifetime := getcurrtime s4 + ucast (rp_lifetime tmp_rrep),
                                 rt_dev := nb_dev n, rt_next_hop := nb_ip n, rt_seq_valid := True,
                                 rt_valid := True, rt_seq := rp_dst_seq tmp_rrep\<rparr>) s4;
                          s6 = neigh_upd tmp_neigh (\<lambda>n. n\<lparr>nb_route_entry := Some p\<rparr>) s5
                      in route_upd p (\<lambda>r. r\<lparr>rt_metric := 1\<rparr>) s6))"

definition update_aodv_neigh :: "kenv \<Rightarrow> addr option \<Rightarrow> rrep \<Rightarrow> aodv_state \<Rightarrow> int \<times> aodv_state" where
  "update_aodv_neigh e tmp_neigh tmp_rrep s =
     (case tmp_neigh of
        None \<Rightarrow> (0, s)
      | Some a \<Rightarrow>
          (case nl_get a (a_neighs s) of
             None \<Rightarrow> (1, fault s)
           | Some n \<Rightarrow> (1, if nb_valid_link n then update_aodv_neigh_route e a tmp_rrep s else s)))"

end
