(* ===== verification/AodvHello.thy ===== *)
theory AodvHello
  imports AodvRerr
begin

text \<open>
  \<open>kaodv/src/hello.c\<close> and \<open>kaodv/src/rrep.c\<close>: hello messages, which are route replies about their
  sender, and route replies. A message is converted to host order once, on arrival; the handlers
  work on the decoded record.
\<close>

definition convert_rrep_to_host :: "kenv \<Rightarrow> rrep \<Rightarrow> rrep" where
  "convert_rrep_to_host e r = r\<lparr>rp_dst_seq := ntohl e (rp_dst_seq r), rp_lifetime := ntohl e (rp_lifetime r)\<rparr>"

definition convert_rrep_to_network :: "kenv \<Rightarrow> rrep \<Rightarrow> rrep" where
  "convert_rrep_to_network e r = r\<lparr>rp_dst_seq := htonl e (rp_dst_seq r), rp_lifetime := htonl e (rp_lifetime r)\<rparr>"

text \<open>The fields \<open>a\<close>, \<open>reserved2\<close> and \<open>metric\<close> of a hello are whatever the block contained.\<close>

definition hello_message :: "kenv \<Rightarrow> addr \<Rightarrow> aodv_route \<Rightarrow> rrep" where
  "hello_message e a me =
     \<lparr>rp_type = RREP_MESSAGE, rp_a = bit (ke_junk e a 0) 0, rp_reserved1 = 0,
      rp_reserved2 = ucast (ke_junk e a 1), rp_metric = ucast (ke_junk e a 2),
      rp_dst_ip = rt_ip me, rp_dst_seq = htonl e (rt_seq me), rp_src_ip = rt_ip me,
      rp_lifetime = htonl e MY_ROUTE_TIMEOUT\<rparr>"

definition send_hello :: "kenv \<Rightarrow> aodv_state \<Rightarrow> int \<times> aodv_state" where
  "send_hello e s =
     (case kmalloc e s of
        (None, s1) \<Rightarrow> (0, s1)
      | (Some a, s1) \<Rightarrow>
          (case g_my_route s1 of
             None \<Rightarrow> (0, fault s1)
           | Some p \<Rightarrow>
               (case route_get p s1 of
                  None \<Rightarrow> (0, fault s1)
                | Some me \<Rightarrow>
                    let s2 = snd (local_broadcast e 1 (rrep_bytes (ke_big_endian e) (hello_message e a me)) s1);
                        s3 = kfree a s2;
                        s4 = snd (insert_timer e 102 HELLO_INTERVAL (g_my_ip s3) s3)
                    in (0, update_timer_queue e s4))))"

text \<open>The second half of \<open>recv_hello\<close>, once the neighbour exists.\<close>

definition hello_neigh :: "kenv \<Rightarrow> addr \<Rightarrow> rrep \<Rightarrow> aodv_state \<Rightarrow> int \<times> aodv_state" where
  "hello_neigh e a tmp_rrep s =
     (case nl_get a (a_neighs s) of
        None \<Rightarrow> (0, fault s)
      | Some n \<Rightarrow>
          let s1 = delete_timer (nb_ip n) 103 s;
              s2 = snd (insert_timer e 103 (HELLO_INTERVAL * (1 + ALLOWED_HELLO_LOSS) + 100) (nb_ip n) s1);
              s3 = update_timer_queue e s2;
              s4 = neigh_upd a (\<lambda>n. n\<lparr>nb_lifetime := ucast (rp_lifetime tmp_rrep) + getcurrtime s3 + 20\<rparr>) s3
          in (0, snd (update_aodv_neigh e (Some a) tmp_rrep s4)))"

definition recv_hello :: "kenv \<Rightarrow> rrep \<Rightarrow> task \<Rightarrow> aodv_state \<Rightarrow> int \<times> aodv_state" where
  "recv_hello e tmp_rrep tmp_packet s =
     (case find_aodv_neigh (rp_dst_ip tmp_rrep) s of
        Some (a, _) \<Rightarrow> hello_neigh e a tmp_rrep s
      | None \<Rightarrow>
          (case create_aodv_neigh e (rp_dst_ip tmp_rrep) s of
             (None, s1) \<Rightarrow> (- 1, s1)
           | (Some a, s1) \<Rightarrow>
               hello_neigh e a tmp_rrep
                 (neigh_upd a (\<lambda>n. n\<lparr>nb_hw_addr := tk_src_hw_addr tmp_packet, nb_dev := tk_dev tmp_packet\<rparr>) s1)))"

section \<open>Route replies\<close>

definition check_rrep :: "kenv \<Rightarrow> rrep \<Rightarrow> task \<Rightarrow> aodv_state \<Rightarrow> bool \<times> aodv_state" where
  "check_rrep e tmp_rrep tmp_packet s =
     (if rp_src_ip tmp_rrep = rp_dst_ip tmp_rrep
      then (False, snd (recv_hello e tmp_rrep tmp_packet (s\<lparr>aodv_overhead := aodv_overhead s - 1\<rparr>)))
      else if \<not> valid_aodv_neigh e (tk_src_ip tmp_packet) s then (False, s)
      else (True, update_timer_queue e (delete_timer (rp_dst_ip tmp_rrep) 101 s)))"

definition recv_rrep :: "kenv \<Rightarrow> task \<Rightarrow> aodv_state \<Rightarrow> int \<times> aodv_state" where
  "recv_rrep e tmp_packet s =
     (case tk_data tmp_packet of
        None \<Rightarrow> (0, fault s)
      | Some (_, bs) \<Rightarrow>
          let rep = convert_rrep_to_host e (bytes_rrep (ke_big_endian e) bs);
              (ok, s1) = check_rrep e rep tmp_packet s
          in if \<not> ok then (0, s1)
             else (let rep1 = rep\<lparr>rp_metric := rp_metric rep + 1\<rparr>;
                       s2 = snd (update_aodv_route e (rp_dst_ip rep1) (tk_src_ip tmp_packet) (rp_metric rep1)
                                   (rp_dst_seq rep1) (tk_dev tmp_packet) s1);
                       (send_route, s3) = find_aodv_route e (rp_src_ip rep1) s2
                   in case send_route of
                        None \<Rightarrow> (0, s3)
                      | Some p \<Rightarrow>
                          (case route_get p s3 of
                             None \<Rightarrow> (0, fault s3)
                           | Some r \<Rightarrow>
                               (0, if rt_self r then s3
                                   else snd (send_message e (rt_next_hop r) NET_DIAMETER
                                               (rrep_bytes (ke_big_endian e) (convert_rrep_to_network e rep1))
                                               None s3)))))"

text \<open>\<open>a\<close> of a reply is not set.\<close>

definition reply_message :: "kenv \<Rightarrow> addr \<Rightarrow> aodv_route \<Rightarrow> aodv_route \<Rightarrow> u64 \<Rightarrow> rrep" where
  "reply_message e a src_route dst_route now =
     \<lparr>rp_type = RREP_MESSAGE, rp_a = bit (ke_junk e a 0) 0, rp_reserved1 = 0, rp_reserved2 = 0,
      rp_metric = rt_metric dst_route, rp_dst_ip = rt_ip dst_route,
      rp_dst_seq = htonl e (rt_seq dst_route), rp_src_ip = rt_ip src_route,
      rp_lifetime = (if rt_self dst_route then htonl e MY_ROUTE_TIMEOUT
                     else htonl e (ucast (rt_lifetime dst_route - now)))\<rparr>"

definition send_rrep :: "kenv \<Rightarrow> aodv_route \<Rightarrow> aodv_route \<Rightarrow> aodv_state \<Rightarrow> aodv_state" where
  "send_rrep e src_route dst_route s =
     (case kmalloc e s of
        (None, s1) \<Rightarrow> s1
      | (Some a, s1) \<Rightarrow>
          kfree a (snd (send_message e (rt_next_hop src_route) NET_DIAMETER
                     (rrep_bytes (ke_big_endian e) (reply_message e a src_route dst_route (getcurrtime s1)))
                     None s1)))"

definition gen_rrep :: "kenv \<Rightarrow> u32 \<Rightarrow> u32 \<Rightarrow> aodv_state \<Rightarrow> int \<times> aodv_state" where
  "gen_rrep e src_ip dst_ip s =
     (case find_aodv_route e src_ip s of
        (None, s1) \<Rightarrow> (- EHOSTUNREACH, s1)
      | (Some p, s1) \<Rightarrow>
          (case find_aodv_route e dst_ip s1 of
             (None, s2) \<Rightarrow> (- EHOSTUNREACH, s2)
           | (Some q, s2) \<Rightarrow>
               (case (route_get p s2, route_get q s2) of
                  (Some src_route, Some dst_route) \<Rightarrow> (0, send_rrep e src_route dst_route s2)
                | _ \<Rightarrow> (0, fault s2))))"

end
