(* ===== verification/AodvFlood.thy ===== *)
theory AodvFlood
  imports AodvTimers
begin

text \<open>
  \<open>kaodv/src/flood_id.c\<close> on the module's state: \<open>a_floods\<close> is \<open>flood_id_queue\<close>. The loops are in
  FloodCore. The locks are not modelled: every handler that takes them runs to its end first.
\<close>

definition init_flood_id_queue :: "aodv_state \<Rightarrow> int \<times> aodv_state" where
  "init_flood_id_queue s = (0, s\<lparr>a_floods := []\<rparr>)"

definition find_flood_id :: "kenv \<Rightarrow> u32 \<Rightarrow> u32 \<Rightarrow> aodv_state \<Rightarrow> (addr \<times> flood_id) option" where
  "find_flood_id e src_ip i s = find_flood_loop e (getcurrtime s) src_ip i (a_floods s)"

definition cleanup_flood_id_queue :: "aodv_state \<Rightarrow> aodv_state" where
  "cleanup_flood_id_queue s = (free_floods (a_floods s) s)\<lparr>a_floods := []\<rparr>"

definition insert_flood_id :: "kenv \<Rightarrow> u32 \<Rightarrow> u32 \<Rightarrow> u32 \<Rightarrow> u64 \<Rightarrow> aodv_state \<Rightarrow> int \<times> aodv_state" where
  "insert_flood_id e src_ip dst_ip i lt s =
     (case kmalloc e s of
        (None, s1) \<Rightarrow> (- ENOMEM, s1)
      | (Some a, s1) \<Rightarrow>
          (0, s1\<lparr>a_floods := (a, \<lparr>fl_src_ip = src_ip, fl_dst_ip = dst_ip, fl_id = i, fl_lifetime = lt\<rparr>)
                              # a_floods s1\<rparr>))"

definition flush_flood_id_queue :: "kenv \<Rightarrow> aodv_state \<Rightarrow> nat \<times> aodv_state" where
  "flush_flood_id_queue e s =
     (let (ks, s1, id_count) = flush_flood_loop e (getcurrtime s) (a_floods s) s;
          s2 = s1\<lparr>a_floods := ks\<rparr>;
          s3 = snd (insert_timer e 104 HELLO_INTERVAL (g_my_ip s2) s2);
          s4 = update_timer_queue e s3
      in (id_count, s4))"

section \<open>Lemmas\<close>

lemma insert_flood_id_floods:
  "fst (insert_flood_id e src dst i lt s) = 0 \<Longrightarrow>
   \<exists>a. a_floods (snd (insert_flood_id e src dst i lt s)) = flood_add a dst (src, i) lt (a_floods s)"
  by (auto simp: insert_flood_id_def flood_add_def kmalloc_def split: if_splits)

lemma insert_flood_id_frame [simp, frame]:
  "k_time (snd (insert_flood_id e a b i lt s)) = k_time s"
  "k_jiffies (snd (insert_flood_id e a b i lt s)) = k_jiffies s"
  "k_timer_pending (snd (insert_flood_id e a b i lt s)) = k_timer_pending s"
  "k_out (snd (insert_flood_id e a b i lt s)) = k_out s"
  "k_fault (snd (insert_flood_id e a b i lt s)) = k_fault s"
  "g_my_route (snd (insert_flood_id e a b i lt s)) = g_my_route s"
  "g_my_ip (snd (insert_flood_id e a b i lt s)) = g_my_ip s"
  "g_broadcast_ip (snd (insert_flood_id e a b i lt s)) = g_broadcast_ip s"
  "a_routes (snd (insert_flood_id e a b i lt s)) = a_routes s"
  "a_loose (snd (insert_flood_id e a b i lt s)) = a_loose s"
  "a_neighs (snd (insert_flood_id e a b i lt s)) = a_neighs s"
  "a_timers (snd (insert_flood_id e a b i lt s)) = a_timers s"
  "a_tasks (snd (insert_flood_id e a b i lt s)) = a_tasks s"
  "a_devs (snd (insert_flood_id e a b i lt s)) = a_devs s"
  "q_list (snd (insert_flood_id e a b i lt s)) = q_list s"
  by (simp_all add: insert_flood_id_def kmalloc_def)

lemma flush_flood_loop_aodv [simp, frame]:
  fixes s :: aodv_state
  shows "g_my_ip (fst (snd (flush_flood_loop e now q s))) = g_my_ip s"
  "g_my_route (fst (snd (flush_flood_loop e now q s))) = g_my_route s"
  "a_routes (fst (snd (flush_flood_loop e now q s))) = a_routes s"
  "a_loose (fst (snd (flush_flood_loop e now q s))) = a_loose s"
  "a_neighs (fst (snd (flush_flood_loop e now q s))) = a_neighs s"
  "a_timers (fst (snd (flush_flood_loop e now q s))) = a_timers s"
  "a_tasks (fst (snd (flush_flood_loop e now q s))) = a_tasks s"
  "a_devs (fst (snd (flush_flood_loop e now q s))) = a_devs s"
  by (induction e now q s rule: flush_flood_loop.induct) (simp_all add: case_prod_beta)

lemma flush_flood_id_queue_floods [simp]:
  "a_floods (snd (flush_flood_id_queue e s)) = flood_live e (getcurrtime s) (a_floods s)"
  by (simp add: flush_flood_id_queue_def Let_def case_prod_beta flush_flood_live)

text \<open>The periodic cleanup re-arms itself: unless the allocation fails a cleanup timer is
  queued for one HELLO interval later and the kernel timer runs.\<close>

lemma flush_flood_id_queue_rearm:
  assumes "ke_kmalloc_ok e (k_allocs s)"
  shows "\<exists>a t. (a, t) \<in> set (a_timers (snd (flush_flood_id_queue e s))) \<and> tk_type t = TASK_CLEANUP
    \<and> tk_time t = getcurrtime s + HELLO_INTERVAL
    \<and> k_timer_pending (snd (flush_flood_id_queue e s))"
proof -
  define s2 where "s2 = fst (snd (flush_flood_loop e (getcurrtime s) (a_floods s) s))
    \<lparr>a_floods := fst (flush_flood_loop e (getcurrtime s) (a_floods s) s)\<rparr>"
  have "snd (flush_flood_id_queue e s) =
      update_timer_queue e (snd (insert_timer e 104 HELLO_INTERVAL (g_my_ip s2) s2))"
    by (simp add: flush_flood_id_queue_def Let_def case_prod_beta s2_def)
  moreover have "getcurrtime s2 = getcurrtime s"
    by (rule getcurrtime_cong) (simp add: s2_def)
  moreover have "k_allocs s2 = k_allocs s" by (simp add: s2_def)
  ultimately show ?thesis
    using assms by (force simp: insert_timer_timers new_task_def)
qed

end
