(* ===== verification/AodvRreq.thy ===== *)
theory AodvRreq
  imports AodvHello AodvFlood
begin

text \<open>
  Route requests, \<open>kaodv/src/rreq.c\<close>. \<open>recv_rreq\<close> drops what it has seen or what does not
  come from a valid neighbour, learns the route back to the originator, remembers the request
  and answers or forwards it; \<open>gen_rreq\<close> and \<open>resend_rreq\<close> start one.
\<close>

definition convert_rreq_to_host :: "kenv \<Rightarrow> rreq \<Rightarrow> rreq" where
  "convert_rreq_to_host e r =
     r\<lparr>rq_rreq_id := ntohl e (rq_rreq_id r), rq_dst_seq := ntohl e (rq_dst_seq r), rq_src_seq := ntohl e (rq_src_seq r)\<rparr>"

definition convert_rreq_to_network :: "kenv \<Rightarrow> rreq \<Rightarrow> rreq" where
  "convert_rreq_to_network e r =
     r\<lparr>rq_rreq_id := htonl e (rq_rreq_id r), rq_dst_seq := htonl e (rq_dst_seq r), rq_src_seq := htonl e (rq_src_seq r)\<rparr>"

definition check_rreq :: "kenv \<Rightarrow> rreq \<Rightarrow> u32 \<Rightarrow> aodv_state \<Rightarrow> bool \<times> aodv_state" where
  "check_rreq e tmp_rreq last_hop_ip s =
     (if find_flood_id e (rq_src_ip tmp_rreq) (rq_rreq_id tmp_rreq) s \<noteq> None then (False, s)
      else (let (src_route, s1) = find_aodv_route e (rq_src_ip tmp_rreq) s
            in if \<not> valid_aodv_neigh e last_hop_ip s1 then (False, s1) else (True, s1)))"

text \<open>The block with which \<open>reply_to_rreq\<close> makes a route for an address outside the AODV subnet.\<close>

definition gateway_route :: "kenv \<Rightarrow> u32 \<Rightarrow> aodv_state \<Rightarrow> addr option \<times> aodv_state" where
  "gateway_route e dst_ip s =
     (let (p, s1) = create_aodv_route e dst_ip s
      in case (p, g_my_route s1) of
           (Some d, Some m) \<Rightarrow>
             (case route_get m s1 of
                None \<Rightarrow> (p, fault s1)
              | Some me \<Rightarrow>
                  (p, route_upd d (\<lambda>r. r\<lparr>rt_seq := rt_seq me, rt_next_hop := dst_ip, rt_metric := 1,
                                         rt_dev := rt_dev me\<rparr>) s1))
         | _ \<Rightarrow> (p, fault s1))"

definition validate_route :: "addr option \<Rightarrow> aodv_state \<Rightarrow> aodv_state" where
  "validate_route p s =
     deref_upd p (\<lambda>r. r\<lparr>rt_lifetime := getcurrtime s + ACTIVE_ROUTE_TIMEOUT, rt_valid := True,
                        rt_seq_valid := True\<rparr>) s"

definition reply_to_rreq :: "kenv \<Rightarrow> rreq \<Rightarrow> aodv_state \<Rightarrow> bool \<times> aodv_state" where
  "reply_to_rreq e tmp_rreq s =
     (let dst_ip = rq_dst_ip tmp_rreq;
          (dst_route, s1) = find_aodv_route e dst_ip s;
          r = (case dst_route of None \<Rightarrow> None | Some p \<Rightarrow> route_get p s1)
      in if \<not> aodv_subnet_test dst_ip s1
         then if g_aodv_gateway s1 \<noteq> 0
              then (let (p, s2) = (if dst_route = None then gateway_route e dst_ip s1 else (dst_route, s1))
                    in (True, validate_route p s2))
              else (case r of
                      None \<Rightarrow> (False, s1)
                    | Some d \<Rightarrow>
                        if rt_netmask d \<noteq> g_broadcast_ip s1
                        then (let (p, s2) = gateway_route e dst_ip s1 in (True, validate_route p s2))
                        else (False, s1))
         else (case r of
                 None \<Rightarrow> (False, s1)
               | Some d \<Rightarrow>
                   if rt_self d
                   then (True, if seq_less_or_equal (rt_seq d) (rq_dst_seq tmp_rreq)
                               then deref_upd dst_route (\<lambda>r. r\<lparr>rt_seq := rq_dst_seq tmp_rreq + 1\<rparr>) s1
                               else s1)
                   else (False, s1)))"

definition forward_rreq :: "kenv \<Rightarrow> rreq \<Rightarrow> int \<Rightarrow> aodv_state \<Rightarrow> int \<times> aodv_state" where
  "forward_rreq e tmp_rreq ttl s =
     (0, snd (local_broadcast e (word_of_int (ttl - 1))
                (rreq_bytes (ke_big_endian e) (convert_rreq_to_network e tmp_rreq)) s))"

definition recv_rreq :: "kenv \<Rightarrow> task \<Rightarrow> aodv_state \<Rightarrow> int \<times> aodv_state" where
  "recv_rreq e tmp_packet s =
     (case tk_data tmp_packet of
        None \<Rightarrow> (0, fault s)
      | Some (_, bs) \<Rightarrow>
          let req = convert_rreq_to_host e (bytes_rreq (ke_big_endian e) bs);
              current_time = getcurrtime s
          in if tk_ttl tmp_packet \<le> 1 then (- ETIMEDOUT, s)
             else (let (ok, s1) = check_rreq e req (tk_src_ip tmp_packet) s
                   in if \<not> ok then (1, s1)
                      else (let req1 = req\<lparr>rq_metric := rq_metric req + 1\<rparr>;
                                s2 = snd (update_aodv_route e (rq_src_ip req1) (tk_src_ip tmp_packet) (rq_metric req1)
                                            (rq_src_seq req1) (tk_dev tmp_packet) s1);
                                s3 = snd (insert_flood_id e (rq_src_ip req1) (rq_dst_ip req1) (rq_rreq_id req1)
                                            (current_time + PATH_DISCOVERY_TIME) s2);
                                (reply, s4) = reply_to_rreq e req1 s3
                            in if reply then (0, snd (gen_rrep e (rq_src_ip req1) (rq_dst_ip req1) s4))
                               else (0, snd (forward_rreq e req1 (uint (tk_ttl tmp_packet)) s4)))))"

section \<open>Starting a request\<close>

definition request_message :: "kenv \<Rightarrow> bool \<Rightarrow> u32 \<Rightarrow> u32 \<Rightarrow> aodv_route option \<Rightarrow> aodv_route \<Rightarrow> rreq" where
  "request_message e d src_ip dst_ip dst_route src_route =
     \<lparr>rq_type = RREQ_MESSAGE, rq_j = False, rq_r = False, rq_g = True, rq_d = d,
      rq_u = (dst_route = None), rq_reserved = 0, rq_second_reserved = 0, rq_metric = 0,
      rq_rreq_id = htonl e (rt_rreq_id src_route), rq_dst_ip = dst_ip,
      rq_dst_seq = (case dst_route of None \<Rightarrow> htonl e 0 | Some r \<Rightarrow> htonl e (rt_seq r)),
      rq_src_ip = src_ip, rq_src_seq = htonl e (rt_seq src_route)\<rparr>"

text \<open>
  The part \<open>gen_rreq\<close> and \<open>resend_rreq\<close> share, from the search for the destination on: \<open>a\<close> is
  the message's block, \<open>d\<close> its D flag and \<open>retries\<close> what is left for the timer.
\<close>

definition launch_rreq :: "kenv \<Rightarrow> addr \<Rightarrow> bool \<Rightarrow> u32 \<Rightarrow> u32 \<Rightarrow> u8 \<Rightarrow> aodv_state \<Rightarrow> int \<times> aodv_state" where
  "launch_rreq e a d src_ip dst_ip retries s =
     (let (dst_p, s1) = find_aodv_route e dst_ip s;
          dst_route = (case dst_p of None \<Rightarrow> None | Some p \<Rightarrow> route_get p s1);
          (src_p, s2) = find_aodv_route e src_ip s1
      in case src_p of
           None \<Rightarrow> (- EHOSTUNREACH, kfree a s2)
         | Some p \<Rightarrow>
             (let s3 = route_upd p (\<lambda>r. r\<lparr>rt_rreq_id := rt_rreq_id r + 1, rt_seq := rt_seq r + 1\<rparr>) s2
              in case route_get p s3 of
                   None \<Rightarrow> (0, fault s3)
                 | Some src_route \<Rightarrow>
                     (let out_rreq = request_message e d src_ip dst_ip dst_route src_route;
                          (status, s4) = insert_flood_id e src_ip dst_ip (rt_rreq_id src_route)
                                           (getcurrtime s3 + PATH_DISCOVERY_TIME) s3
                      in if status < 0 then (- ENOMEM, kfree a s4)
                         else (let s5 = update_timer_queue e (snd (insert_rreq_timer e out_rreq retries s4));
                                   s6 = snd (local_broadcast e NET_DIAMETER
                                               (rreq_bytes (ke_big_endian e) out_rreq) s5)
                               in (0, kfree a s6)))))"

definition resend_rreq :: "kenv \<Rightarrow> task \<Rightarrow> aodv_state \<Rightarrow> int \<times> aodv_state" where
  "resend_rreq e tmp_packet s =
     (if tk_retries tmp_packet \<le> 0 then (0, ipq_drop_ip (tk_dst_ip tmp_packet) s)
      else case kmalloc e s of
        (None, s1) \<Rightarrow> (0, s1)
      | (Some a, s1) \<Rightarrow>
          launch_rreq e a False (tk_src_ip tmp_packet) (tk_dst_ip tmp_packet)
            (ucast (tk_retries tmp_packet - 1)) s1)"

text \<open>\<open>gen_rreq\<close> allocates its message twice and loses the first block.\<close>

definition gen_rreq :: "kenv \<Rightarrow> u32 \<Rightarrow> u32 \<Rightarrow> aodv_state \<Rightarrow> int \<times> aodv_state" where
  "gen_rreq e src_ip dst_ip s =
     (if find_timer dst_ip 101 s \<noteq> None then (0, s)
      else case kmalloc e s of
        (None, s1) \<Rightarrow> (0, s1)
      | (Some lost, s1) \<Rightarrow>
          (case kmalloc e s1 of
             (None, s2) \<Rightarrow> (- ENOMEM, s2)
           | (Some a, s2) \<Rightarrow> launch_rreq e a True src_ip dst_ip RREQ_RETRIES s2))"

end
