(* ===== verification/AodvMain.thy ===== *)
theory AodvMain
  imports AodvRreq
begin

text \<open>
  Where packets and timers meet the handlers: \<open>kaodv/src/packet_in.c\<close>, \<open>kaodv/src/packet_out.c\<close>,
  \<open>insert_task\<close> of \<open>kaodv/src/task_queue.c\<close>, the turns of the thread of \<open>kaodv/src/aodv_thread.c\<close> and the set-up
  and tear-down of \<open>kaodv/src/module.c\<close>. \<open>aodv_step\<close> collects what can happen to the module:
  an incoming packet, an outgoing packet, a queued packet, the kernel timer, a turn of the
  thread, a device going down and the passing of time.
\<close>

abbreviation (input) start_point :: nat where "start_point \<equiv> 28"
abbreviation (input) ETH_P_IP :: u16 where "ETH_P_IP \<equiv> 0x0800"

section \<open>Incoming packets\<close>

definition insert_task :: "kenv \<Rightarrow> int \<Rightarrow> skbuff \<Rightarrow> aodv_state \<Rightarrow> int \<times> aodv_state" where
  "insert_task e type packet s =
     (case create_task e type s of
        (None, s1) \<Rightarrow> (- ENOMEM, s1)
      | (Some (a, t), s1) \<Rightarrow>
          if type < 100
          then (let t1 = t\<lparr>tk_src_ip := sk_saddr packet, tk_dst_ip := sk_daddr packet, tk_ttl := sk_ttl packet,
                           tk_dev := Some (sk_dev packet), tk_data_len := sk_len packet - start_point\<rparr>
                in case kmalloc e s1 of
                     (None, s2) \<Rightarrow> (- ENOMEM, kfree a s2)
                   | (Some b, s2) \<Rightarrow>
                       let t2 = t1\<lparr>tk_data := Some (b, skb_bytes packet start_point (tk_data_len t1))\<rparr>;
                           t3 = (if type = TASK_RREP then t2\<lparr>tk_src_hw_addr := sk_h_source packet\<rparr> else t2)
                       in (0, queue_aodv_task (a, t3) s2))
          else (0, queue_aodv_task (a, t) s1))"

text \<open>The counters are changed on the way, as in the code.\<close>

definition valid_aodv_packet :: "int \<Rightarrow> u8 \<Rightarrow> u8 \<Rightarrow> aodv_state \<Rightarrow> bool \<times> aodv_state" where
  "valid_aodv_packet numbytes type dst_count s =
     (if type = 1 then
        if numbytes = int sizeof_rreq then (True, s\<lparr>aodv_overhead := aodv_overhead s + 1\<rparr>) else (False, s)
      else if type = 2 then
        if numbytes = int sizeof_rrep then (True, s\<lparr>aodv_overhead := aodv_overhead s + 1\<rparr>) else (False, s)
      else if type = 3 then
        (numbytes = int sizeof_rerr + int sizeof_aodv_dst * uint dst_count, s)
      else if type = 4 then (numbytes = int sizeof_rrep_ack, s)
      else (False, s))"

definition packet_in :: "kenv \<Rightarrow> skbuff \<Rightarrow> aodv_state \<Rightarrow> verdict \<times> aodv_state" where
  "packet_in e packet s =
     (let aodv_type = skb_byte packet start_point;
          (ok, s1) = valid_aodv_packet (int (sk_len packet) - int start_point) aodv_type
                       (skb_byte packet (start_point + 3)) s
      in if \<not> ok then (NF_DROP, s1)
         else (NF_ACCEPT, snd (insert_task e (uint aodv_type) packet s1)))"

text \<open>\<open>in->ip_ptr\<close> is taken for an IP header: the word compared with the source address is the
  one 12 bytes into the \<open>in_device\<close>.\<close>

definition input_handler :: "kenv \<Rightarrow> skbuff \<Rightarrow> netdev \<Rightarrow> aodv_state \<Rightarrow> verdict \<times> aodv_state" where
  "input_handler e skb indev s =
     (if sk_has_transport skb
      then if sk_udp_dest skb = htons e AODVPORT \<and> sk_h_proto skb = htons e ETH_P_IP
           then if nd_ip_ptr indev = None then (NF_ACCEPT, fault s)
                else if nd_word12 indev \<noteq> sk_saddr skb then packet_in e skb s else (NF_DROP, s)
           else (NF_ACCEPT, s)
      else (NF_ACCEPT, s))"

section \<open>Outgoing packets\<close>

definition output_handler :: "kenv \<Rightarrow> skbuff \<Rightarrow> aodv_state \<Rightarrow> verdict \<times> aodv_state" where
  "output_handler e skb s =
     (if sk_daddr skb = g_broadcast_ip s then (NF_ACCEPT, s)
      else if g_aodv_gateway s \<noteq> 0 \<and> \<not> aodv_subnet_test (sk_daddr skb) s then (NF_ACCEPT, s)
      else (let (tmp_route, s1) = find_aodv_route e (sk_daddr skb) s
            in case tmp_route of
                 None \<Rightarrow> (NF_QUEUE, snd (gen_rreq e (g_my_ip s1) (sk_daddr skb) s1))
               | Some p \<Rightarrow>
                   (case route_get p s1 of
                      None \<Rightarrow> (NF_ACCEPT, fault s1)
                    | Some r \<Rightarrow>
                        if \<not> rt_valid r then (NF_QUEUE, snd (gen_rreq e (g_my_ip s1) (sk_daddr skb) s1))
                        else (NF_ACCEPT,
                              if rt_self r then s1
                              else route_upd p (\<lambda>r. r\<lparr>rt_lifetime := getcurrtime s1 + ACTIVE_ROUTE_TIMEOUT\<rparr>) s1))))"

section \<open>The thread\<close>

definition get_task :: "aodv_state \<Rightarrow> (addr \<times> task) option \<times> aodv_state" where
  "get_task s = (case a_tasks s of [] \<Rightarrow> (None, s) | t # ts \<Rightarrow> (Some t, s\<lparr>a_tasks := ts\<rparr>))"

definition dispatch :: "kenv \<Rightarrow> addr \<times> task \<Rightarrow> aodv_state \<Rightarrow> aodv_state" where
  "dispatch e tmp_task s =
     (let t = snd tmp_task;
          s1 = (if tk_type t = TASK_RREQ then kfree_opt (data_block t) (snd (recv_rreq e t s))
                else if tk_type t = TASK_RREP then kfree_opt (data_block t) (snd (recv_rrep e t s))
                else if tk_type t = TASK_RERR then kfree_opt (data_block t) (snd (recv_rerr e t s))
                else if tk_type t = TASK_CLEANUP
                then snd (flush_aodv_route_table e (snd (flush_flood_id_queue e s)))
                else if tk_type t = TASK_HELLO then snd (send_hello e s)
                else if tk_type t = TASK_NEIGHBOR then snd (delete_aodv_neigh e (tk_src_ip t) s)
                else if tk_type t = TASK_ROUTE_CLEANUP then snd (flush_aodv_route_table e s)
                else if tk_type t = TASK_RESEND_RREQ then snd (resend_rreq e t s)
                else s)
      in kfree (fst tmp_task) s1)"

text \<open>One round of the inner loop of \<open>aodv\<close>, and the loop, bounded by a number of rounds.\<close>

definition thread_round :: "kenv \<Rightarrow> aodv_state \<Rightarrow> aodv_state" where
  "thread_round e s =
     (case get_task s of
        (None, s1) \<Rightarrow> s1
      | (Some t, s1) \<Rightarrow> dispatch e t s1)"

fun thread_loop :: "kenv \<Rightarrow> nat \<Rightarrow> aodv_state \<Rightarrow> aodv_state" where
  "thread_loop e 0 s = s"
| "thread_loop e (Suc n) s =
     (case get_task s of
        (None, s1) \<Rightarrow> s1
      | (Some t, s1) \<Rightarrow> thread_loop e n (dispatch e t s1))"

section \<open>Set-up and tear-down\<close>

text \<open>\<open>init_module\<close> up to the hooks. \<open>subnet\<close> is the address and the mask of the parameter
  \<open>local_subnet\<close>, split at its slash; \<open>qstatus\<close> is the answer to registering the queue
  handler. A \<open>use_dev\<close> that names no device is a NULL \<open>dev\<close>.\<close>

definition init_subnet :: "kenv \<Rightarrow> (string \<times> string) option \<Rightarrow> aodv_state \<Rightarrow> aodv_state" where
  "init_subnet e subnet s =
     (case subnet of
        None \<Rightarrow> s
      | Some (ip_str, mask_str) \<Rightarrow>
          let ip = (case inet_aton e ip_str of None \<Rightarrow> 0 | Some w \<Rightarrow> w);
              nm = (case inet_aton e mask_str of None \<Rightarrow> 0 | Some w \<Rightarrow> w);
              (p, s1) = create_aodv_route e ip s
          in deref_upd p (\<lambda>r. r\<lparr>rt_valid := True, rt_seq_valid := True, rt_netmask := nm, rt_self := True,
                                rt_metric := 1, rt_seq := 1, rt_rreq_id := 1\<rparr>) s1)"

definition aodv_init_module :: "kenv \<Rightarrow> string option \<Rightarrow> u8 \<Rightarrow> (string \<times> string) option \<Rightarrow> int
    \<Rightarrow> (nat \<Rightarrow> int + addr) \<Rightarrow> netdev option \<Rightarrow> in_ifaddr list option \<Rightarrow> aodv_state \<Rightarrow> int \<times> aodv_state" where
  "aodv_init_module e use_dev gateway subnet qstatus sock_create dev in_dev s =
     (case use_dev of
        None \<Rightarrow> (- 1, s)
      | Some name \<Rightarrow>
          let bcast = (case inet_aton e ''255.255.255.255'' of None \<Rightarrow> 0 | Some w \<Rightarrow> w);
              s1 = s\<lparr>g_aodv_gateway := gateway, aodv_overhead := 0, g_broadcast_ip := bcast\<rparr>;
              s2 = init_subnet e subnet (snd (init_aodv_route_table e s1));
              s3 = s2\<lparr>a_tasks := [], a_timers := []\<rparr>;
              s4 = init_aodv_neigh_list (snd (init_flood_id_queue s3));
              s5 = snd (init_packet_queue e qstatus s4);
              (result, s6) = init_aodv_dev e name sock_create dev in_dev s5
          in if result = 0
             then (let t1 = cleanup_packet_queue (emit DelTimer (s6\<lparr>k_timer_pending := False\<rparr>));
                       t2 = cleanup_flood_id_queue t1
                   in (- 1, cleanup_aodv_route_table e t2))
             else (0, update_timer_queue e (snd (insert_timer e 104 HELLO_INTERVAL (g_my_ip s6) s6))))"

section \<open>What can happen to the module\<close>

inductive aodv_step :: "kenv \<Rightarrow> aodv_state \<Rightarrow> aodv_state \<Rightarrow> bool" for e where
  step_in: "aodv_step e s (snd (input_handler e skb indev s))"
| step_out: "aodv_step e s (snd (output_handler e skb s))"
| step_queue: "aodv_step e s (snd (netfilter_receive entry s))"
| step_timer: "aodv_step e s (timer_queue_signal e s)"
| step_thread: "aodv_step e s (thread_round e s)"
| step_down: "aodv_step e s (ipq_receive_event event dev s)"
| step_clock: "aodv_step e s (s\<lparr>k_time := now, k_jiffies := j\<rparr>)"

inductive_cases aodv_stepE: "aodv_step e s t"

inductive aodv_reach :: "kenv \<Rightarrow> aodv_state \<Rightarrow> aodv_state \<Rightarrow> bool" for e s where
  reach_refl: "aodv_reach e s s"
| reach_step: "aodv_reach e s t \<Longrightarrow> aodv_step e t u \<Longrightarrow> aodv_reach e s u"

end
