(* ===== verification/Evolution.thy ===== *)
theory Evolution
  imports Prelude
begin

text \<open>
  How the invariants of the two modules are carried through their handlers. A handler is a nest of
  conditionals, case distinctions and calls that return a result and a state. The locale \<open>evolution\<close> takes a reflexive
  and transitive relation between a state and a later one, and gives for each of these forms the
  rule that reduces it to its parts; a handler's proof then follows its definition.
\<close>

locale evolution =
  fixes R :: "'s \<Rightarrow> 's \<Rightarrow> bool"
  assumes refl: "R s s"
    and trans: "R s t \<Longrightarrow> R t u \<Longrightarrow> R s u"
begin

lemma snd_rule: "R s t \<Longrightarrow> R s (snd (x, t))"
  by simp

lemma if_rule:
  "(c \<Longrightarrow> R s x) \<Longrightarrow> (\<not> c \<Longrightarrow> R s y) \<Longrightarrow> R s (if c then x else y)"
  "(c \<Longrightarrow> R s (snd p)) \<Longrightarrow> (\<not> c \<Longrightarrow> R s (snd q)) \<Longrightarrow> R s (snd (if c then p else q))"
  by auto

lemma option_rule:
  "(v = None \<Longrightarrow> R s x) \<Longrightarrow> (\<And>a. v = Some a \<Longrightarrow> R s (f a)) \<Longrightarrow> R s (case v of None \<Rightarrow> x | Some a \<Rightarrow> f a)"
  "(v = None \<Longrightarrow> R s (snd p)) \<Longrightarrow> (\<And>a. v = Some a \<Longrightarrow> R s (snd (g a))) \<Longrightarrow>
   R s (snd (case v of None \<Rightarrow> p | Some a \<Rightarrow> g a))"
  by (auto split: option.splits)

lemma call_rule:
  fixes p :: "'a \<times> 's"
  shows "R s (snd p) \<Longrightarrow> (\<And>a b. p = (a, b) \<Longrightarrow> R s b \<Longrightarrow> R s (f a b)) \<Longrightarrow> R s (case p of (a, b) \<Rightarrow> f a b)"
  "R s (snd p) \<Longrightarrow> (\<And>a b. p = (a, b) \<Longrightarrow> R s b \<Longrightarrow> R s (snd (g a b))) \<Longrightarrow>
    R s (snd (case p of (a, b) \<Rightarrow> g a b))"
  by (auto split: prod.splits)

lemma node_rule:
  "(\<And>a b. p = (a, b) \<Longrightarrow> R s (h a b)) \<Longrightarrow> R s (case p of (a :: addr, b :: 'b) \<Rightarrow> h a b)"
  "(\<And>a b. p = (a, b) \<Longrightarrow> R s (snd (k a b))) \<Longrightarrow> R s (snd (case p of (a :: addr, b :: 'b) \<Rightarrow> k a b))"
  by (auto split: prod.splits)

lemma data_rule:
  "(\<And>a b. p = (a, b) \<Longrightarrow> R s (h a b)) \<Longrightarrow> R s (case p of (a, b) \<Rightarrow> h a b)"
  "(\<And>a b. p = (a, b) \<Longrightarrow> R s (snd (k a b))) \<Longrightarrow> R s (snd (case p of (a, b) \<Rightarrow> k a b))"
  by (auto split: prod.splits)

lemma fold_rule: "(\<And>x t. R s t \<Longrightarrow> R s (f x t)) \<Longrightarrow> R s t \<Longrightarrow> R s (fold f xs t)"
  by (induction xs arbitrary: t) auto

lemmas rules = refl snd_rule if_rule option_rule call_rule node_rule

end

end
