(* ===== verification/AodvInv.thy ===== *)
theory AodvInv
  imports AodvMain Evolution
begin

text \<open>
  The invariant of the routing module and its proof, one operation at a time. \<open>evolves e s t\<close> says what no
  handler does between s and t: it does not touch the globals, the interfaces or the task queue,
  it never reuses an address, and it keeps the three structural invariants. The rules \<open>ev\<close> follow
  the syntax of the handlers, so a handler's proof is its definition.
\<close>

definition timers_ok :: "aodv_state \<Rightarrow> bool" where
  "timers_ok s = (distinct (nl_addrs (a_timers s)) \<and> (\<forall>a \<in> set (nl_addrs (a_timers s)). a < k_allocs s)
     \<and> (\<forall>t \<in> set (nl_vals (a_timers s)). tk_data t = None \<and> 100 \<le> tk_type t))"

definition floods_ok :: "aodv_state \<Rightarrow> bool" where
  "floods_ok s = (distinct (nl_addrs (a_floods s)) \<and> (\<forall>a \<in> set (nl_addrs (a_floods s)). a < k_allocs s))"

definition tables_ok :: "aodv_state \<Rightarrow> bool" where
  "tables_ok s = (routes_ok s \<and> neighs_ok s \<and> queue_ok s \<and> timers_ok s \<and> floods_ok s)"

definition same_globals :: "aodv_state \<Rightarrow> aodv_state \<Rightarrow> bool" where
  "same_globals s t = (k_time t = k_time s \<and> k_jiffies t = k_jiffies s \<and> a_tasks t = a_tasks s
     \<and> a_devs t = a_devs s \<and> g_my_ip t = g_my_ip s \<and> g_my_route t = g_my_route s
     \<and> g_broadcast_ip t = g_broadcast_ip s \<and> g_aodv_gateway t = g_aodv_gateway s
     \<and> q_maxlen t = q_maxlen s \<and> q_terminate t = q_terminate s \<and> q_block t = q_block s)"

text \<open>
  T is a time from now on by which nothing inserted now has expired. Up to such a time no handler makes the
  module forget a request it has seen.
\<close>

definition in_window :: "kenv \<Rightarrow> u64 \<Rightarrow> u64 \<Rightarrow> bool" where
  "in_window e now T =
     (\<not> ke_time_before e (now + PATH_DISCOVERY_TIME) T \<and> (\<forall>x. ke_time_before e x now \<longrightarrow> ke_time_before e x T))"

definition keeps_seen :: "kenv \<Rightarrow> aodv_state \<Rightarrow> aodv_state \<Rightarrow> bool" where
  "keeps_seen e s t =
     (\<forall>T k. in_window e (getcurrtime s) T \<longrightarrow> flood_seen e T k (a_floods s) \<longrightarrow> flood_seen e T k (a_floods t))"

definition evolves :: "kenv \<Rightarrow> aodv_state \<Rightarrow> aodv_state \<Rightarrow> bool" where
  "evolves e s t = (same_globals s t \<and> k_allocs s \<le> k_allocs t \<and> (tables_ok s \<longrightarrow> tables_ok t) \<and> keeps_seen e s t)"

lemma keeps_seen_same: "a_floods t = a_floods s \<Longrightarrow> keeps_seen e s t"
  by (simp add: keeps_seen_def)

lemma evolves_time: "evolves e s t \<Longrightarrow> getcurrtime t = getcurrtime s"
  by (rule getcurrtime_cong) (simp add: evolves_def same_globals_def)

named_theorems ev "rules for evolves"

interpretation ae: evolution "evolves e" for e
proof unfold_locales
  fix s t u
  show "evolves e s s" by (simp add: evolves_def same_globals_def keeps_seen_def)
  assume "evolves e s t" "evolves e t u"
  then show "evolves e s u"
    using evolves_time [of e s t] by (auto simp: evolves_def same_globals_def keeps_seen_def)
qed

lemmas evolves_refl = ae.refl
lemmas evolves_trans = ae.trans
lemmas ev_rules [ev] = ae.rules

lemmas tables_defs = tables_ok_def routes_ok_def route_addrs_def neighs_ok_def queue_ok_def timers_ok_def floods_ok_def

section \<open>The primitive operations\<close>

lemma evolvesI:
  "same_globals s t \<Longrightarrow> k_allocs s \<le> k_allocs t \<Longrightarrow> (routes_ok s \<Longrightarrow> routes_ok t) \<Longrightarrow> (neighs_ok s \<Longrightarrow> neighs_ok t)
   \<Longrightarrow> (queue_ok s \<Longrightarrow> queue_ok t) \<Longrightarrow> (timers_ok s \<Longrightarrow> timers_ok t) \<Longrightarrow> (floods_ok s \<Longrightarrow> floods_ok t)
   \<Longrightarrow> keeps_seen e s t \<Longrightarrow> evolves e s t"
  by (simp add: evolves_def tables_ok_def)

lemma timers_ok_cong: "a_timers t = a_timers s \<Longrightarrow> k_allocs s \<le> k_allocs t \<Longrightarrow> timers_ok s \<Longrightarrow> timers_ok t"
  unfolding timers_ok_def by (metis order_less_le_trans)

lemma floods_ok_cong: "a_floods t = a_floods s \<Longrightarrow> k_allocs s \<le> k_allocs t \<Longrightarrow> floods_ok s \<Longrightarrow> floods_ok t"
  unfolding floods_ok_def by (metis order_less_le_trans)

lemma queue_ok_cong:
  "q_list t = q_list s \<Longrightarrow> q_len t = q_len s \<Longrightarrow> q_maxlen t = q_maxlen s \<Longrightarrow> queue_ok s \<Longrightarrow> queue_ok t"
  by (simp add: queue_ok_def)

lemma same_globals_maxlen: "same_globals s t \<Longrightarrow> q_maxlen t = q_maxlen s"
  by (simp add: same_globals_def)

text \<open>An operation that changes none of the tables, and one that changes the routes only.\<close>

lemma ev_routes:
  assumes "same_globals s t" "k_allocs s \<le> k_allocs t" "routes_ok s \<Longrightarrow> routes_ok t"
    "a_neighs t = a_neighs s" "q_list t = q_list s" "q_len t = q_len s" "a_timers t = a_timers s"
    "a_floods t = a_floods s"
  shows "evolves e s t"
  using assms(1,2,3)
  by (rule evolvesI)
    (simp_all add: neighs_ok_cong [OF assms(4,2)] queue_ok_cong [OF assms(5,6) same_globals_maxlen [OF assms(1)]]
      timers_ok_cong [OF assms(7,2)] floods_ok_cong [OF assms(8,2)] keeps_seen_same [OF assms(8)])

lemma evolves_same:
  assumes "same_globals s t" "k_allocs s \<le> k_allocs t" "a_routes t = a_routes s" "a_loose t = a_loose s"
    "a_neighs t = a_neighs s" "q_list t = q_list s" "q_len t = q_len s" "a_timers t = a_timers s"
    "a_floods t = a_floods s"
  shows "evolves e s t"
  using assms routes_ok_cong [OF assms(3,4,2)] by (intro ev_routes)

lemma same_globals_refl [simp]: "same_globals s s"
  by (simp add: same_globals_def)

lemma ev_fault: "evolves e s (fault s)"
  by (rule evolves_same) (simp_all add: same_globals_def fault_def)

lemma ev_emit: "evolves e s (emit x s)"
  by (rule evolves_same) (simp_all add: same_globals_def emit_def)

lemma ev_kfree: "evolves e s (kfree a s)"
  by (rule evolves_same) (simp_all add: same_globals_def kfree_def fault_def)

lemma ev_kfree_opt: "evolves e s (kfree_opt p s)"
  by (cases p) (simp_all add: evolves_refl ev_kfree)

lemma ev_kmalloc: "evolves e s (snd (kmalloc e s))"
  by (rule evolves_same) (simp_all add: same_globals_def kmalloc_def)

lemma ev_delete_kernel: "evolves e s (snd (delete_kernel_route_entry e d g m s))"
  by (rule evolves_same) (simp_all add: same_globals_def delete_kernel_route_entry_eq)

lemma ev_insert_kernel: "evolves e s (snd (insert_kernel_route_entry e d g m i s))"
  by (rule evolves_same) (simp_all add: same_globals_def insert_kernel_route_entry_eq)

lemma ev_overhead: "evolves e s (s\<lparr>aodv_overhead := n\<rparr>)"
  by (rule evolves_same) (simp_all add: same_globals_def)

lemma ev_out_only: "out_only s t \<Longrightarrow> evolves e s t"
  by (rule evolves_same) (auto simp: same_globals_def out_only_def)

lemma ev_update_timer_queue: "evolves e s (update_timer_queue e s)"
  by (rule evolves_same) (simp_all add: same_globals_def update_timer_queue_def arm_timer_def emit_def Let_def split: list.splits)

text \<open>Operations on the routes.\<close>

lemma ev_route_upd: "(\<And>r. rt_ip (f r) = rt_ip r) \<Longrightarrow> evolves e s (route_upd p f s)"
  by (rule ev_routes) (simp_all add: same_globals_def route_upd_ok, simp_all add: route_upd_def fault_def)

lemma ev_deref_upd: "(\<And>r. rt_ip (f r) = rt_ip r) \<Longrightarrow> evolves e s (deref_upd p f s)"
  by (cases p) (simp_all add: deref_upd_def ev_fault ev_route_upd)

lemma ev_find: "evolves e s (snd (find_aodv_route e t s))"
  by (rule ev_routes) (simp_all add: same_globals_def find_aodv_route_ok, simp_all add: find_aodv_route_def case_prod_beta)

lemma create_route_fields:
  "same_globals s (snd (create_aodv_route e ip s))"
  "k_allocs s \<le> k_allocs (snd (create_aodv_route e ip s))"
  "a_neighs (snd (create_aodv_route e ip s)) = a_neighs s"
  "q_list (snd (create_aodv_route e ip s)) = q_list s"
  "q_len (snd (create_aodv_route e ip s)) = q_len s"
  "a_timers (snd (create_aodv_route e ip s)) = a_timers s"
  "a_floods (snd (create_aodv_route e ip s)) = a_floods s"
  by (simp_all add: create_aodv_route_def kmalloc_def insert_aodv_route_def Let_def same_globals_def)

lemma ev_create_route: "evolves e s (snd (create_aodv_route e ip s))"
  by (rule ev_routes) (simp_all add: create_route_fields create_aodv_route_ok)

lemma ev_remove: "evolves e s (remove_aodv_route p s)"
  by (rule ev_routes) (simp_all add: same_globals_def remove_aodv_route_ok, simp_all add: remove_aodv_route_def kfree_def fault_def)

lemma ev_flush_routes: "evolves e s (snd (flush_aodv_route_table e s))"
proof -
  have "same_globals s (snd (flush_route_loop e now rs s))" for now rs
    by (induction e now rs s rule: flush_route_loop.induct)
      (simp_all add: case_prod_beta same_globals_def delete_kernel_route_entry_eq kfree_def fault_def)
  then show ?thesis
    by (intro ev_routes flush_aodv_route_table_ok)
      (simp_all add: flush_aodv_route_table_def case_prod_beta same_globals_def flush_route_loop_allocs)
qed

lemma ev_write_route: "evolves e s (write_route e ip p nh m sq d s)"
proof (cases "route_get p s")
  case None
  then show ?thesis
    by (simp add: write_route_def route_upd_def Let_def ev_fault) (simp add: route_get_def fault_def ev_fault [unfolded fault_def])
next
  case (Some r)
  have len: "int (length (filter P xs)) + int (length (filter (\<lambda>q. \<not> P q) xs)) = int (length xs)" for P and xs :: "qentry list"
    by (metis of_nat_add sum_length_filter_compl)
  have "queue_ok s \<Longrightarrow> queue_ok (write_route e ip p nh m sq d s)"
    using len [of "ip_cmp ip" "q_list s"] by (simp add: queue_ok_def write_route_eq [OF Some])
  moreover have "neighs_ok s \<Longrightarrow> neighs_ok (write_route e ip p nh m sq d s)"
    by (rule neighs_ok_cong [of _ s]) (simp_all add: write_route_eq [OF Some])
  moreover have "routes_ok s \<Longrightarrow> routes_ok (write_route e ip p nh m sq d s)"
    by (rule routes_ok_written)
  ultimately show ?thesis
    by (auto simp: evolves_def tables_ok_def timers_ok_def floods_ok_def same_globals_def keeps_seen_def
        write_route_eq [OF Some] less_SucI)
qed

lemma ev_update_route: "evolves e s (snd (update_aodv_route e ip nh m sq d s))"
proof -
  have o: "evolves e s t \<Longrightarrow> evolves e s (write_route e ip p nh m sq d t)" for s t p
    using ev_write_route evolves_trans by blast
  have c: "evolves e s (route_upd p (\<lambda>r. r\<lparr>rt_ip := ip\<rparr>) t)"
    if "create_aodv_route e ip u = (Some p, t)" "evolves e s u" for p t u s
  proof -
    have g: "routes_ok u \<Longrightarrow> routes_ok (route_upd p (\<lambda>r. r\<lparr>rt_ip := ip\<rparr>) t)"
      using created_ip_upd [OF _ that(1)] create_aodv_route_ok [of u e ip] that(1) by simp
    have "evolves e u (route_upd p (\<lambda>r. r\<lparr>rt_ip := ip\<rparr>) t)"
      using create_route_fields [where s = u and e = e and ip = ip] that(1) g
      by (intro ev_routes) (simp_all add: same_globals_def, simp_all add: route_upd_def fault_def)
    then show ?thesis using that(2) evolves_trans by blast
  qed
  obtain p s1 where f: "find_aodv_route e ip s = (p, s1)" by fastforce
  have s1: "evolves e s s1" using ev_find [where s = s and e = e and t = ip] f by simp
  obtain q s2 where cr: "create_aodv_route e ip s1 = (q, s2)" by fastforce
  have s2: "evolves e s s2" using evolves_trans [OF s1] ev_create_route [where s = s1 and e = e and ip = ip] cr by simp
  show ?thesis
    using s1 s2 c [OF _ s1] evolves_trans [OF s1 ev_fault]
    by (auto simp: update_aodv_route_def f cr Let_def intro: o split: option.splits)
qed

text \<open>Operations on the neighbours, the timers, the flood queue and the packets.\<close>

lemma ev_neighs:
  assumes "same_globals s t" "k_allocs s \<le> k_allocs t" "neighs_ok s \<Longrightarrow> neighs_ok t"
    "a_routes t = a_routes s" "a_loose t = a_loose s" "q_list t = q_list s" "q_len t = q_len s"
    "a_timers t = a_timers s" "a_floods t = a_floods s"
  shows "evolves e s t"
  using assms(1,2) routes_ok_cong [OF assms(4,5,2)] assms(3)
  by (rule evolvesI)
    (simp_all add: queue_ok_cong [OF assms(6,7) same_globals_maxlen [OF assms(1)]]
      timers_ok_cong [OF assms(8,2)] floods_ok_cong [OF assms(9,2)] keeps_seen_same [OF assms(9)])

lemma ev_timers:
  assumes "same_globals s t" "k_allocs s \<le> k_allocs t" "timers_ok s \<Longrightarrow> timers_ok t"
    "a_routes t = a_routes s" "a_loose t = a_loose s" "a_neighs t = a_neighs s" "q_list t = q_list s"
    "q_len t = q_len s" "a_floods t = a_floods s"
  shows "evolves e s t"
  using assms(1,2) routes_ok_cong [OF assms(4,5,2)] neighs_ok_cong [OF assms(6,2)]
    queue_ok_cong [OF assms(7,8) same_globals_maxlen [OF assms(1)]] assms(3) floods_ok_cong [OF assms(9,2)]
    keeps_seen_same [OF assms(9), of e]
  by (rule evolvesI)

lemma ev_floods:
  assumes "same_globals s t" "k_allocs s \<le> k_allocs t" "floods_ok s \<Longrightarrow> floods_ok t"
    "a_routes t = a_routes s" "a_loose t = a_loose s" "a_neighs t = a_neighs s" "q_list t = q_list s"
    "q_len t = q_len s" "a_timers t = a_timers s" "keeps_seen e s t"
  shows "evolves e s t"
  using assms(1,2) routes_ok_cong [OF assms(4,5,2)] neighs_ok_cong [OF assms(6,2)]
    queue_ok_cong [OF assms(7,8) same_globals_maxlen [OF assms(1)]] timers_ok_cong [OF assms(9,2)] assms(3,10)
  by (rule evolvesI)

lemma ev_neigh_upd: "(\<And>n. nb_ip (f n) = nb_ip n) \<Longrightarrow> evolves e s (neigh_upd a f s)"
  by (simp add: neigh_upd_def ev_fault)
    (intro impI ev_neighs; simp add: same_globals_def neighs_ok_upd)

lemma ev_neigh_del: "evolves e s (s\<lparr>a_neighs := nl_del a (a_neighs s)\<rparr>)"
  by (rule ev_neighs) (simp_all add: same_globals_def neighs_ok_del)

lemma ev_create_neigh: "evolves e s (snd (create_aodv_neigh e ip s))"
proof -
  have f: "same_globals s t \<and> k_allocs s \<le> k_allocs t \<and> a_routes t = a_routes s \<and> a_loose t = a_loose s
     \<and> q_list t = q_list s \<and> q_len t = q_len s \<and> a_timers t = a_timers s \<and> a_floods t = a_floods s"
    if "t = snd (create_aodv_neigh e ip s)" for t
    unfolding that create_aodv_neigh_def kmalloc_def
    by (simp add: same_globals_def split: list.splits)
  show ?thesis by (rule ev_neighs) (simp_all add: f [OF refl] create_aodv_neigh_ok)
qed

lemma delete_loop_timers:
  "set (nl_addrs (fst (delete_timer_loop i ty ts s))) \<subseteq> set (nl_addrs ts)"
  "distinct (nl_addrs ts) \<Longrightarrow> distinct (nl_addrs (fst (delete_timer_loop i ty ts s)))"
  "set (nl_vals (fst (delete_timer_loop i ty ts s))) \<subseteq> set (nl_vals ts)"
proof -
  show *: "set (nl_addrs (fst (delete_timer_loop i ty ts s))) \<subseteq> set (nl_addrs ts)" for s
    by (induction i ty ts s rule: delete_timer_loop.induct) (auto simp: case_prod_beta)
  show "distinct (nl_addrs ts) \<Longrightarrow> distinct (nl_addrs (fst (delete_timer_loop i ty ts s)))"
  proof (induction ts arbitrary: s)
    case (Cons n ts)
    have "set (nl_addrs (fst (delete_timer_loop i ty ts s))) \<subseteq> set (nl_addrs ts)" for s
      by (induction i ty ts s rule: delete_timer_loop.induct) (auto simp: case_prod_beta)
    then show ?case using Cons by (cases n) (auto simp: case_prod_beta)
  qed simp
  show "set (nl_vals (fst (delete_timer_loop i ty ts s))) \<subseteq> set (nl_vals ts)"
    by (induction i ty ts s rule: delete_timer_loop.induct) (auto simp: case_prod_beta)
qed

lemma delete_loop_globals:
  "same_globals s (snd (delete_timer_loop i ty ts s))"
  by (induction i ty ts s rule: delete_timer_loop.induct)
    (simp_all add: case_prod_beta same_globals_def, simp add: kfree_opt_def kfree_def fault_def split: option.splits)

lemma ev_delete_timer: "evolves e s (delete_timer i ty s)"
proof (rule ev_timers)
  show "same_globals s (delete_timer i ty s)"
    using delete_loop_globals [of s i ty "a_timers s"] by (simp add: delete_timer_def case_prod_beta same_globals_def)
  show "timers_ok s \<Longrightarrow> timers_ok (delete_timer i ty s)"
    using delete_loop_timers [where i = i and ty = ty and ts = "a_timers s" and s = s]
    by (auto simp: delete_timer_def case_prod_beta timers_ok_def)
qed simp_all

lemma link_timer_vals: "set (nl_vals (link_timer e tm n q)) = insert (snd n) (set (nl_vals q))"
  by (induction q) auto

lemma timers_ok_link:
  "tk_data t = None \<Longrightarrow> 100 \<le> tk_type t \<Longrightarrow> timers_ok s \<Longrightarrow> timers_ok (s\<lparr>k_allocs := Suc (k_allocs s), k_live := l,
     a_timers := link_timer e tk_time (k_allocs s, t) (a_timers s)\<rparr>)"
  by (auto simp: timers_ok_def link_timer_vals)

lemma ev_insert_timer: "100 \<le> ty \<Longrightarrow> evolves e s (snd (insert_timer e ty d ip s))"
proof (cases "ke_kmalloc_ok e (k_allocs s)")
  case True
  assume "100 \<le> ty"
  then have "100 \<le> uint ty" by (simp add: word_le_def)
  with True show ?thesis
    by (intro ev_timers)
      (simp_all add: same_globals_def new_task_def insert_timer_def create_task_def kmalloc_def queue_timer_def timers_ok_link)
next
  case False
  then show ?thesis
    by (intro evolves_same)
      (simp_all add: same_globals_def insert_timer_def create_task_def kmalloc_def queue_timer_def)
qed

lemma ev_insert_rreq_timer: "evolves e s (snd (insert_rreq_timer e r n s))"
proof (cases "ke_kmalloc_ok e (k_allocs s)")
  case True
  then show ?thesis
    by (intro ev_timers)
      (simp_all add: same_globals_def new_task_def insert_rreq_timer_def create_task_def kmalloc_def queue_timer_def timers_ok_link)
next
  case False
  then show ?thesis
    by (intro evolves_same)
      (simp_all add: same_globals_def insert_rreq_timer_def create_task_def kmalloc_def queue_timer_def)
qed

lemma ev_insert_flood:
  assumes "lt = getcurrtime s + PATH_DISCOVERY_TIME"
  shows "evolves e s (snd (insert_flood_id e a b i lt s))"
proof (rule ev_floods)
  show "floods_ok s \<Longrightarrow> floods_ok (snd (insert_flood_id e a b i lt s))"
    by (auto simp: floods_ok_def insert_flood_id_def kmalloc_def)
  show "keeps_seen e s (snd (insert_flood_id e a b i lt s))"
  proof (cases "ke_kmalloc_ok e (k_allocs s)")
    case True
    then have "a_floods (snd (insert_flood_id e a b i lt s)) = flood_add (k_allocs s) b (a, i) lt (a_floods s)"
      by (simp add: insert_flood_id_def kmalloc_def flood_add_def)
    then show ?thesis using assms by (simp add: keeps_seen_def in_window_def fl.seen_add)
  qed (simp add: keeps_seen_same insert_flood_id_def kmalloc_def)
qed (simp_all add: same_globals_def insert_flood_id_def kmalloc_def)

lemma ev_flush_loop:
  fixes s :: aodv_state
  shows "evolves e s (fst (snd (flush_flood_loop e now q s)))"
proof (induction e now q s rule: flush_flood_loop.induct)
  case (2 e now a f fs s)
  then show ?case using evolves_trans [OF ev_kfree [where s = s and a = a]] by (auto simp: case_prod_beta)
qed (simp add: evolves_refl)

lemma ev_flood_live:
  assumes "now = getcurrtime s"
  shows "evolves e s (s\<lparr>a_floods := flood_live e now (a_floods s)\<rparr>)"
proof -
  have "nl_addrs (flood_live e now q) = map fst (filter (\<lambda>n. \<not> ke_time_before e (fl_lifetime (snd n)) now) q)" for q
    by (simp add: nl_addrs_def flood_live_def)
  then have "floods_ok s \<Longrightarrow> floods_ok (s\<lparr>a_floods := flood_live e now (a_floods s)\<rparr>)"
    by (auto simp: floods_ok_def nl_addrs_def distinct_map_filter)
  moreover have "keeps_seen e s (s\<lparr>a_floods := flood_live e now (a_floods s)\<rparr>)"
    using assms by (simp add: keeps_seen_def in_window_def fl.seen_flush)
  ultimately show ?thesis by (intro ev_floods) (simp_all add: same_globals_def)
qed

lemma flush_loop_floods [simp]:
  fixes s :: aodv_state
  shows "a_floods (fst (snd (flush_flood_loop e now q s))) = a_floods s"
  by (induction e now q s rule: flush_flood_loop.induct) (simp_all add: case_prod_beta)

lemma ev_flush_floods: "evolves e s (snd (flush_flood_id_queue e s))"
proof -
  let ?u = "fst (snd (flush_flood_loop e (getcurrtime s) (a_floods s) s))"
  have "evolves e s (?u\<lparr>a_floods := flood_live e (getcurrtime s) (a_floods ?u)\<rparr>)"
    by (rule evolves_trans [OF ev_flush_loop ev_flood_live]) (rule evolves_time [OF ev_flush_loop, symmetric])
  then have *: "evolves e s (?u\<lparr>a_floods := fst (flush_flood_loop e (getcurrtime s) (a_floods s) s)\<rparr>)"
    by (simp add: flush_flood_live)
  show ?thesis
    unfolding flush_flood_id_queue_def Let_def case_prod_beta snd_conv
    by (rule evolves_trans [OF evolves_trans [OF * ev_insert_timer] ev_update_timer_queue]) simp
qed

lemma queue_ok_filter:
  assumes "t = s\<lparr>q_list := filter (\<lambda>q. \<not> P q) (q_list s), q_len := q_len s - int (length (filter P (q_list s))), k_out := k\<rparr>"
  shows "evolves e s t"
proof -
  have len: "int (length (filter P xs)) + int (length (filter (\<lambda>q. \<not> P q) xs)) = int (length xs)" for xs :: "qentry list"
    by (metis of_nat_add sum_length_filter_compl)
  show ?thesis
  proof (rule evolvesI)
    show "queue_ok s \<Longrightarrow> queue_ok t" using len [of "q_list s"] by (simp add: assms queue_ok_def)
    show "routes_ok s \<Longrightarrow> routes_ok t" by (erule routes_ok_cong [rotated 3]) (simp_all add: assms)
  qed (simp_all add: assms same_globals_def neighs_ok_def timers_ok_def floods_ok_def keeps_seen_def)
qed

lemma ev_drop_ip: "evolves e s (ipq_drop_ip ip s)"
  by (rule queue_ok_filter [OF ipq_drop_ip_eq])

lemma ev_dev_drop: "evolves e s (ipq_dev_drop i s)"
  by (rule queue_ok_filter [OF ipq_dev_drop_eq])

lemma ev_send_message: "evolves e s (snd (send_message e dst ttl dat dev s))"
  using send_message_out [of s e dst ttl dat dev] ev_out_only evolves_trans [OF ev_find] by blast

section \<open>The rules for the handlers\<close>

lemma timer_types [ev]: "100 \<le> (102 :: u8)" "100 \<le> (103 :: u8)" "100 \<le> (104 :: u8)"
  by simp_all

lemmas ev_ops [ev] =
  ev_fault [THEN evolves_trans [rotated]] ev_emit [THEN evolves_trans [rotated]]
  ev_kfree [THEN evolves_trans [rotated]] ev_kfree_opt [THEN evolves_trans [rotated]]
  ev_kmalloc [THEN evolves_trans [rotated]] ev_delete_kernel [THEN evolves_trans [rotated]]
  ev_insert_kernel [THEN evolves_trans [rotated]] ev_overhead [THEN evolves_trans [rotated]]
  ev_update_timer_queue [THEN evolves_trans [rotated]] ev_find [THEN evolves_trans [rotated]]
  ev_create_route [THEN evolves_trans [rotated]] ev_remove [THEN evolves_trans [rotated]]
  ev_flush_routes [THEN evolves_trans [rotated]] ev_update_route [THEN evolves_trans [rotated]]
  ev_neigh_del [THEN evolves_trans [rotated]] ev_create_neigh [THEN evolves_trans [rotated]]
  ev_delete_timer [THEN evolves_trans [rotated]] ev_insert_timer [THEN evolves_trans [rotated]]
  ev_insert_rreq_timer [THEN evolves_trans [rotated]]
  ev_flush_floods [THEN evolves_trans [rotated]] ev_drop_ip [THEN evolves_trans [rotated]]
  ev_dev_drop [THEN evolves_trans [rotated]] ev_send_message [THEN evolves_trans [rotated]]
  local_broadcast_out [THEN ev_out_only, THEN evolves_trans [rotated]]

lemma ev_insert_flood_id [ev]:
  "evolves e s t \<Longrightarrow> lt = getcurrtime s + PATH_DISCOVERY_TIME \<Longrightarrow> evolves e s (snd (insert_flood_id e a b i lt t))"
  by (rule evolves_trans, assumption, rule ev_insert_flood) (simp add: evolves_time)

lemma ev_upds [ev]:
  "evolves e s t \<Longrightarrow> (\<And>r. rt_ip (f r) = rt_ip r) \<Longrightarrow> evolves e s (route_upd p f t)"
  "evolves e s t \<Longrightarrow> (\<And>r. rt_ip (f r) = rt_ip r) \<Longrightarrow> evolves e s (deref_upd q f t)"
  "evolves e s t \<Longrightarrow> (\<And>n. nb_ip (g n) = nb_ip n) \<Longrightarrow> evolves e s (neigh_upd p g t)"
  using evolves_trans ev_route_upd ev_deref_upd ev_neigh_upd by blast+

section \<open>The handlers\<close>

lemma ev_free_rerr: "evolves e s t \<Longrightarrow> evolves e s (free_rerr_routes ds t)"
  by (induction ds t rule: free_rerr_routes.induct) (simp_all add: ev)

lemma ev_send_rerr: "evolves e s t \<Longrightarrow> evolves e s (snd (send_rerr e bad t))"
  unfolding send_rerr_def Let_def by (intro ev ev_free_rerr; assumption?)

text \<open>\<open>gen_rerr\<close> writes through the table while it allocates: the entries it leaves have the
  addresses they had.\<close>

definition expired_from :: "u64 \<Rightarrow> u32 \<Rightarrow> aodv_route \<Rightarrow> aodv_route" where
  "expired_from now brk r =
     (if rt_next_hop r = brk \<and> \<not> rt_self r \<and> rt_valid r then expire_aodv_route now r else r)"

lemma gen_rerr_loop_shape:
  "\<exists>n. fst (gen_rerr_loop e now brk rs bad s) =
     map (apsnd (expired_from now brk)) (take n rs) @ drop n rs"
proof (induction e now brk rs bad s rule: gen_rerr_loop.induct)
  case (2 e now brk a r rs bad s)
  show ?case
  proof (cases "rt_next_hop r = brk \<and> \<not> rt_self r")
    case True
    show ?thesis
    proof (cases "kmalloc e s")
      case (Pair b s1)
      show ?thesis
      proof (cases b)
        case None
        then show ?thesis using True Pair by (intro exI [of _ 0]) simp
      next
        case (Some c)
        then obtain n where "fst (gen_rerr_loop e now brk rs ((c, \<lparr>ds_ip = rt_ip r, ds_seq = htonl e (rt_seq r)\<rparr>) # bad) s1) =
            map (apsnd (expired_from now brk)) (take n rs) @ drop n rs"
          using 2(1) [OF True Pair [symmetric] Some] by blast
        then show ?thesis using True Pair Some
          by (intro exI [of _ "Suc n"]) (simp add: case_prod_beta expired_from_def)
      qed
    qed
  next
    case False
    then obtain n where "fst (gen_rerr_loop e now brk rs bad s) =
        map (apsnd (expired_from now brk)) (take n rs) @ drop n rs"
      using 2(2) by blast
    with False show ?thesis
      by (intro exI [of _ "Suc n"]) (auto simp: case_prod_beta expired_from_def)
  qed
qed (intro exI [of _ 0], simp)

lemma gen_rerr_loop_ev: "evolves e s (snd (snd (gen_rerr_loop e now brk rs bad s)))
  \<and> a_routes (snd (snd (gen_rerr_loop e now brk rs bad s))) = a_routes s"
proof (induction e now brk rs bad s rule: gen_rerr_loop.induct)
  case (2 e now brk a r rs bad s)
  obtain b s1 where k: "kmalloc e s = (b, s1)" by fastforce
  have "evolves e s s1" "a_routes s1 = a_routes s" using ev_kmalloc [where s = s and e = e] kmalloc_frame [of e s] k by simp_all
  then show ?case using 2 k evolves_trans
    by (auto simp: case_prod_beta split: option.splits)
qed (simp add: evolves_refl)

lemma expired_from_ip [simp]: "rt_ip (expired_from now brk r) = rt_ip r"
  by (simp add: expired_from_def)

lemma keys_partial_map:
  assumes "\<And>x. k (f x) = k x"
  shows "map k (nl_vals (map (apsnd f) (take n rs) @ drop n rs)) = map k (nl_vals rs)"
proof -
  have "map k (nl_vals (map (apsnd f) (take n rs) @ drop n rs)) =
      take n (map k (nl_vals rs)) @ drop n (map k (nl_vals rs))"
    by (simp add: nl_vals_def take_map drop_map assms)
  then show ?thesis by simp
qed

lemma addrs_partial_map: "nl_addrs (map (apsnd f) (take n rs) @ drop n rs) = nl_addrs rs"
proof -
  have "nl_addrs (map (apsnd f) (take n rs) @ drop n rs) = take n (nl_addrs rs) @ drop n (nl_addrs rs)"
    by (simp add: nl_addrs_def take_map drop_map)
  then show ?thesis by simp
qed

lemma ev_gen_rerr: "evolves e s t \<Longrightarrow> evolves e s (snd (gen_rerr e brk t))"
proof -
  assume st: "evolves e s t"
  let ?g = "gen_rerr_loop e (getcurrtime t) brk (a_routes t) [] t"
  define u where "u = snd (snd ?g)"
  have u: "evolves e t u" "a_routes u = a_routes t"
    using gen_rerr_loop_ev [where s = t and e = e and now = "getcurrtime t" and brk = brk and rs = "a_routes t" and bad = "[]"] by (simp_all add: u_def)
  obtain n where n: "fst ?g = map (apsnd (expired_from (getcurrtime t) brk)) (take n (a_routes t)) @ drop n (a_routes t)"
    using gen_rerr_loop_shape by blast
  have "nl_addrs (fst ?g) = nl_addrs (a_routes u)" unfolding n u(2) by (rule addrs_partial_map)
  moreover have "sorted_by rt_ip (fst ?g) = sorted_by rt_ip (a_routes u)"
    unfolding n u(2) sorted_by_def by (subst keys_partial_map) simp_all
  ultimately have "routes_ok u \<Longrightarrow> routes_ok (u\<lparr>a_routes := fst ?g\<rparr>)"
    by (simp add: routes_ok_def route_addrs_def)
  then have "evolves e u (u\<lparr>a_routes := fst ?g\<rparr>)"
    by (intro ev_routes) (simp_all add: same_globals_def)
  then have *: "evolves e s (u\<lparr>a_routes := fst ?g\<rparr>)" using st u(1) evolves_trans by blast
  then have "evolves e s (snd (send_rerr e bad (u\<lparr>a_routes := fst ?g\<rparr>)))" for bad
    by (rule ev_send_rerr)
  with * show ?thesis
    by (simp add: gen_rerr_def case_prod_beta Let_def u_def split: option.splits)
qed

lemma ev_recv_rerr_loop: "evolves e s t \<Longrightarrow> evolves e s (snd (recv_rerr_loop e src bs n i out t))"
proof (induction n arbitrary: i out t)
  case (Suc n)
  note IH = Suc.IH
  show ?case
    unfolding recv_rerr_loop.simps Let_def
    by (intro ev IH Suc.prems; (assumption | simp)?)
qed simp

lemma ev_recv_rerr: "evolves e s t \<Longrightarrow> evolves e s (snd (recv_rerr e p t))"
  unfolding recv_rerr_def
  by (intro ev ev_recv_rerr_loop ev_send_rerr; assumption?)

lemmas ev_rerr [ev] = ev_send_rerr ev_gen_rerr ev_recv_rerr

lemma ev_delete_neigh [ev]: "evolves e s t \<Longrightarrow> evolves e s (snd (delete_aodv_neigh e ip t))"
  unfolding delete_aodv_neigh_def Let_def
  by (intro ev; (assumption | simp)?)

lemma ev_update_neigh [ev]: "evolves e s t \<Longrightarrow> evolves e s (snd (update_aodv_neigh e p r t))"
  unfolding update_aodv_neigh_def update_aodv_neigh_route_def Let_def
  by (intro ev; (assumption | simp)?)

lemma ev_send_hello [ev]: "evolves e s t \<Longrightarrow> evolves e s (snd (send_hello e t))"
  unfolding send_hello_def Let_def by (intro ev; (assumption | simp)?)

lemma ev_recv_hello [ev]: "evolves e s t \<Longrightarrow> evolves e s (snd (recv_hello e r p t))"
  unfolding recv_hello_def hello_neigh_def Let_def by (intro ev; (assumption | simp)?)

lemma ev_check_rrep [ev]: "evolves e s t \<Longrightarrow> evolves e s (snd (check_rrep e r p t))"
  unfolding check_rrep_def by (intro ev; assumption?)

lemma ev_recv_rrep [ev]: "evolves e s t \<Longrightarrow> evolves e s (snd (recv_rrep e p t))"
  unfolding recv_rrep_def Let_def by (intro ev; assumption?)

lemma ev_gen_rrep [ev]: "evolves e s t \<Longrightarrow> evolves e s (snd (gen_rrep e a b t))"
  unfolding gen_rrep_def send_rrep_def by (simp only: prod.case, intro ev; assumption?)

lemma ev_check_rreq [ev]: "evolves e s t \<Longrightarrow> evolves e s (snd (check_rreq e r h t))"
  unfolding check_rreq_def Let_def by (intro ev; assumption?)

lemma ev_gateway_route [ev]: "evolves e s t \<Longrightarrow> evolves e s (snd (gateway_route e ip t))"
  unfolding gateway_route_def Let_def
  by (rule ae.call_rule(2), intro ev, assumption, unfold prod.case) (intro ev; (assumption | simp)?)

lemma ev_validate_route [ev]: "evolves e s t \<Longrightarrow> evolves e s (validate_route p t)"
  unfolding validate_route_def by (intro ev; (assumption | simp)?)

lemma ev_reply [ev]: "evolves e s t \<Longrightarrow> evolves e s (snd (reply_to_rreq e r t))"
  unfolding reply_to_rreq_def Let_def by (intro ev; (assumption | simp)?)

lemma ev_recv_rreq [ev]:
  assumes "evolves e s t"
  shows "evolves e s (snd (recv_rreq e p t))"
proof (rule evolves_trans [OF assms])
  show "evolves e t (snd (recv_rreq e p t))"
    unfolding recv_rreq_def forward_rreq_def Let_def by (intro ev; (assumption | simp)?)
qed

lemma ev_launch [ev]:
  assumes "evolves e s t"
  shows "evolves e s (snd (launch_rreq e a d x y n t))"
proof (rule evolves_trans [OF assms])
  show "evolves e t (snd (launch_rreq e a d x y n t))"
    unfolding launch_rreq_def Let_def
    by (intro ev; (assumption | simp)?) (auto dest: evolves_time)
qed

lemma ev_resend [ev]: "evolves e s t \<Longrightarrow> evolves e s (snd (resend_rreq e p t))"
  unfolding resend_rreq_def by (intro ev; assumption?)

lemma ev_gen_rreq [ev]: "evolves e s t \<Longrightarrow> evolves e s (snd (gen_rreq e a b t))"
  unfolding gen_rreq_def by (intro ev; assumption?)

lemma ev_dispatch: "evolves e s (dispatch e t s)"
  unfolding dispatch_def Let_def by (intro ev)

end
