(* ===== verification/AodvReach.thy ===== *)
theory AodvReach
  imports AodvInv
begin

unbundle bit_operations_syntax

text \<open>
  The structural invariant of every state the routing module reaches after loading, and what the
  kernel timer moves.
\<close>

section \<open>The invariant of reachable states\<close>

text \<open>The structural invariant after an operation that may also touch the task queue or the
  globals.\<close>

lemma tables_ok_evolves: "evolves e s t \<Longrightarrow> tables_ok s \<Longrightarrow> tables_ok t"
  by (simp add: evolves_def)

lemma tables_ok_same:
  assumes "a_routes t = a_routes s" "a_loose t = a_loose s" "a_neighs t = a_neighs s" "q_list t = q_list s"
    "q_len t = q_len s" "q_maxlen t = q_maxlen s" "a_timers t = a_timers s" "a_floods t = a_floods s"
    "k_allocs s \<le> k_allocs t" "tables_ok s"
  shows "tables_ok t"
  using assms(10) routes_ok_cong [OF assms(1,2,9)] neighs_ok_cong [OF assms(3,9)]
    queue_ok_cong [OF assms(4,5,6)] timers_ok_cong [OF assms(7,9)] floods_ok_cong [OF assms(8,9)]
  by (simp add: tables_ok_def)

lemma insert_task_tables: "tables_ok s \<Longrightarrow> tables_ok (snd (insert_task e ty p s))"
  by (rule tables_ok_same [of _ s])
    (simp_all add: insert_task_def create_task_def kmalloc_def queue_aodv_task_def emit_def kfree_def fault_def Let_def)

lemma input_tables: "tables_ok s \<Longrightarrow> tables_ok (snd (input_handler e skb indev s))"
proof -
  assume s: "tables_ok s"
  have "tables_ok (s\<lparr>aodv_overhead := n\<rparr>)" for n
    by (rule tables_ok_same [OF _ _ _ _ _ _ _ _ _ s]) simp_all
  moreover have "tables_ok (fault s)" by (rule tables_ok_evolves [OF ev_fault s])
  ultimately show ?thesis using s
    by (simp add: input_handler_def packet_in_def valid_aodv_packet_def Let_def insert_task_tables)
qed

lemma ev_output: "evolves e s (snd (output_handler e skb s))"
  unfolding output_handler_def Let_def by (intro ev; (assumption | simp)?)

lemma output_tables: "tables_ok s \<Longrightarrow> tables_ok (snd (output_handler e skb s))"
proof (rule tables_ok_evolves)
  show "evolves e s (snd (output_handler e skb s))" by (rule ev_output)
qed

lemma enqueue_tables: "tables_ok s \<Longrightarrow> tables_ok (snd (netfilter_receive q s))"
proof -
  assume s: "tables_ok s"
  have "queue_ok (snd (ipq_enqueue q s))" using s by (simp add: tables_ok_def queue_ok_preserved)
  moreover have "routes_ok (snd (ipq_enqueue q s))"
    by (rule routes_ok_cong [of _ s])
      (use s in \<open>simp_all add: ipq_enqueue_def Let_def emit_def tables_ok_def\<close>)
  ultimately show ?thesis using s
    by (simp add: netfilter_receive_def tables_ok_def)
      (simp add: ipq_enqueue_def Let_def emit_def neighs_ok_def timers_ok_def floods_ok_def)
qed

lemma signal_loop_fields:
  "a_routes (signal_loop e now n s) = a_routes s" "a_loose (signal_loop e now n s) = a_loose s"
  "a_neighs (signal_loop e now n s) = a_neighs s" "a_floods (signal_loop e now n s) = a_floods s"
  "q_list (signal_loop e now n s) = q_list s" "q_len (signal_loop e now n s) = q_len s"
  "q_maxlen (signal_loop e now n s) = q_maxlen s" "k_allocs (signal_loop e now n s) = k_allocs s"
  "k_fault (signal_loop e now n s) = k_fault s" "k_time (signal_loop e now n s) = k_time s"
  by (induction n arbitrary: s)
    (simp_all add: first_timer_due_def case_prod_beta insert_task_from_timer_def split: option.split)

text \<open>What the kernel timer does: the due tasks move from the timer queue to the task queue.\<close>

lemma signal_loop_moves:
  "length (a_timers s) < n \<Longrightarrow>
   a_timers (signal_loop e now n s) = snd (due_loop e tk_time now (a_timers s))
   \<and> a_tasks (signal_loop e now n s) = a_tasks s @ fst (due_loop e tk_time now (a_timers s))"
proof (induction n arbitrary: s)
  case (Suc n)
  show ?case
  proof (cases "a_timers s")
    case Nil
    then show ?thesis by (simp add: first_timer_due_def take_due_def)
  next
    case (Cons t ts)
    show ?thesis
    proof (cases "ke_time_before_eq e (tk_time (snd t)) now")
      case True
      have "length (a_timers (queue_aodv_task t (s\<lparr>a_timers := ts\<rparr>))) < n" using Suc.prems Cons by simp
      from Suc.IH [OF this] show ?thesis using True Cons
        by (simp add: first_timer_due_def take_due_def insert_task_from_timer_def case_prod_beta)
          (simp add: queue_aodv_task_def)
    next
      case False
      then show ?thesis using Cons by (simp add: first_timer_due_def take_due_def)
    qed
  qed
qed simp

lemma timer_signal_tables: "tables_ok s \<Longrightarrow> tables_ok (timer_queue_signal e s)"
proof -
  assume s: "tables_ok s"
  define n where "n = Suc (length (a_timers s))"
  define t where "t = signal_loop e (getcurrtime s) n s"
  have "a_timers t = dropWhile (\<lambda>t. ke_time_before_eq e (tk_time (snd t)) (getcurrtime s)) (a_timers s)"
    using signal_loop_moves [of s n e "getcurrtime s"] by (simp add: due_loop_takeWhile n_def t_def del: signal_loop.simps)
  moreover have "nl_addrs (dropWhile P ns) = drop (length (takeWhile P ns)) (nl_addrs ns)" for P and ns :: "task nodes"
    by (simp add: nl_addrs_def dropWhile_eq_drop drop_map)
  moreover have "nl_vals (dropWhile P ns) = drop (length (takeWhile P ns)) (nl_vals ns)" for P and ns :: "task nodes"
    by (simp add: nl_vals_def dropWhile_eq_drop drop_map)
  moreover have k: "k_allocs t = k_allocs s" by (simp add: t_def signal_loop_fields)
  ultimately have "timers_ok t" using s
    by (auto simp: tables_ok_def timers_ok_def dest: in_set_dropD)
  then have "tables_ok t"
    using s routes_ok_cong [of t s] neighs_ok_cong [of t s] queue_ok_cong [of t s] floods_ok_cong [of t s] k
    by (simp add: tables_ok_def t_def signal_loop_fields)
  then show ?thesis
    unfolding timer_queue_signal_def n_def [symmetric] t_def [symmetric]
    by (rule tables_ok_evolves [OF ev_update_timer_queue])
qed

lemma thread_tables: "tables_ok s \<Longrightarrow> tables_ok (thread_round e s)"
proof -
  assume s: "tables_ok s"
  have "tables_ok (s\<lparr>a_tasks := ts\<rparr>)" for ts
    by (rule tables_ok_same [OF _ _ _ _ _ _ _ _ _ s]) simp_all
  then have "tables_ok (dispatch e t (s\<lparr>a_tasks := ts\<rparr>))" for t ts
    by (rule tables_ok_evolves [OF ev_dispatch])
  with s show ?thesis by (simp add: thread_round_def get_task_def split: list.split)
qed

lemma step_tables: "aodv_step e s t \<Longrightarrow> tables_ok s \<Longrightarrow> tables_ok t"
proof (induction rule: aodv_step.induct)
  case (step_down s event dev)
  then show ?case unfolding ipq_receive_event_def
    by (intro tables_ok_evolves [OF ae.if_rule(1) [OF ev_dev_drop evolves_refl]])
next
  case (step_clock s now j)
  then show ?case by (rule tables_ok_same [rotated 9]) simp_all
qed (simp_all add: input_tables output_tables enqueue_tables timer_signal_tables thread_tables)

lemma reach_tables: "aodv_reach e s t \<Longrightarrow> tables_ok s \<Longrightarrow> tables_ok t"
  by (induction rule: aodv_reach.induct) (simp_all add: step_tables)

text \<open>What no event makes the module forget: \<open>aodv_until e T s t\<close> is a run from s to t in which nothing
  inserted at any point has expired by T.\<close>

inductive aodv_until :: "kenv \<Rightarrow> u64 \<Rightarrow> aodv_state \<Rightarrow> aodv_state \<Rightarrow> bool" for e T s where
  until_refl: "aodv_until e T s s"
| until_step: "aodv_until e T s t \<Longrightarrow> aodv_step e t u \<Longrightarrow> in_window e (getcurrtime t) T \<Longrightarrow> aodv_until e T s u"

lemma evolves_seen:
  "evolves e s t \<Longrightarrow> in_window e (getcurrtime s) T \<Longrightarrow> flood_seen e T k (a_floods s) \<Longrightarrow> flood_seen e T k (a_floods t)"
  unfolding evolves_def keeps_seen_def by blast

lemma input_floods: "a_floods (snd (input_handler e skb indev s)) = a_floods s"
  by (simp add: input_handler_def packet_in_def valid_aodv_packet_def insert_task_def create_task_def
      kmalloc_def queue_aodv_task_def emit_def kfree_def fault_def Let_def)

lemma step_seen:
  "aodv_step e s t \<Longrightarrow> in_window e (getcurrtime s) T \<Longrightarrow> flood_seen e T k (a_floods s) \<Longrightarrow> flood_seen e T k (a_floods t)"
proof (induction rule: aodv_step.induct)
  case (step_in s skb indev)
  then show ?case by (simp add: input_floods)
next
  case (step_out s skb)
  have "evolves e s (snd (output_handler e skb s))" by (rule ev_output)
  with step_out show ?case by (rule evolves_seen [rotated])
next
  case (step_queue s entry)
  then show ?case by (simp add: netfilter_receive_def ipq_enqueue_def Let_def emit_def)
next
  case (step_timer s)
  then show ?case
    by (simp add: timer_queue_signal_def update_timer_queue_def arm_timer_def emit_def Let_def signal_loop_fields
        del: signal_loop.simps split: list.split)
next
  case (step_thread s)
  show ?case
  proof (cases "a_tasks s")
    case Nil
    then show ?thesis using step_thread by (simp add: thread_round_def get_task_def)
  next
    case (Cons x xs)
    then show ?thesis using step_thread evolves_seen [OF ev_dispatch [where s = "s\<lparr>a_tasks := xs\<rparr>" and e = e and t = x]]
      by (simp add: thread_round_def get_task_def)
  qed
next
  case (step_down s event dev)
  have "evolves e s (ipq_receive_event event dev s)"
    unfolding ipq_receive_event_def by (intro ae.if_rule(1) ev_dev_drop evolves_refl)
  with step_down show ?case by (rule evolves_seen [rotated])
qed simp

lemma until_seen:
  "aodv_until e T s t \<Longrightarrow> flood_seen e T k (a_floods s) \<Longrightarrow> flood_seen e T k (a_floods t)"
  by (induction rule: aodv_until.induct) (simp_all add: step_seen)

text \<open>The state right after loading the module: static variables are zero.\<close>

definition blank :: "aodv_state \<Rightarrow> bool" where
  "blank s = (a_routes s = [] \<and> a_loose s = [] \<and> a_neighs s = [] \<and> a_floods s = [] \<and> a_timers s = []
     \<and> a_tasks s = [] \<and> a_devs s = [] \<and> q_list s = [] \<and> q_len s = 0 \<and> q_maxlen s = 0)"

text \<open>A write through a pointer that leaves the address of this one route alone.\<close>

lemma route_upd_ok_at:
  assumes "routes_ok s" "\<And>r. route_get p s = Some r \<Longrightarrow> rt_ip (f r) = rt_ip r"
  shows "routes_ok (route_upd p f s)"
proof -
  have "rt_ip (f r) = rt_ip r" if "(p, r) \<in> set (a_routes s)" for r
  proof (rule assms(2))
    show "route_get p s = Some r"
      unfolding route_get_def using assms(1) that
      by (intro nl_get_in) (auto simp: routes_ok_def route_addrs_def)
  qed
  then have "map rt_ip (nl_vals (nl_upd p f (a_routes s))) = map rt_ip (nl_vals (a_routes s))"
    by (induction "a_routes s") (auto simp: nl_upd_def nl_vals_def)
  then show ?thesis using assms(1)
    by (simp add: routes_ok_def) (simp add: route_upd_def sorted_by_def)
qed

lemma ev_create_dev: "routes_ok s \<Longrightarrow> routes_ok (snd (create_aodv_dev e dev ifa s))
  \<and> k_allocs s \<le> k_allocs (snd (create_aodv_dev e dev ifa s))"
proof -
  assume s: "routes_ok s"
  obtain p s1 where c: "create_aodv_route e (ifa_address ifa) s = (p, s1)" by fastforce
  have s1: "routes_ok s1" "k_allocs s \<le> k_allocs s1"
    using create_aodv_route_ok [OF s, of e "ifa_address ifa"] create_route_fields(2) [where s = s and e = e and ip = "ifa_address ifa"] c
    by simp_all
  show ?thesis
  proof (cases p)
    case None
    then show ?thesis using s1
      by (simp add: create_aodv_dev_def c fault_def routes_ok_def route_addrs_def)
  next
    case (Some a)
    let ?f = "\<lambda>r. r\<lparr>rt_ip := ifa_address ifa, rt_self := True, rt_seq := 1, rt_old_seq := 0,
                     rt_rreq_id := 1, rt_metric := 0, rt_next_hop := ifa_address ifa, rt_lifetime := - 1,
                     rt_valid := True, rt_seq_valid := True, rt_dev := Some dev\<rparr>"
    have "rt_ip r = ifa_address ifa" if "route_get a s1 = Some r" for r
      using create_aodv_route_get(1) [OF s c [unfolded Some]] that by (simp add: new_route_def)
    then have "routes_ok (route_upd a ?f s1)"
      by (intro route_upd_ok_at [OF s1(1)]) simp
    moreover obtain q s3 where k: "kmalloc e (route_upd a ?f s1) = (q, s3)" by fastforce
    ultimately have s3: "routes_ok s3" "k_allocs s1 \<le> k_allocs s3"
      using kmalloc_frame [of e "route_upd a ?f s1"] routes_ok_cong [of s3 "route_upd a ?f s1"]
      by (auto simp: kmalloc_def split: if_splits)
    then show ?thesis using s1 c k Some
      by (auto simp: create_aodv_dev_def insert_kernel_route_entry_eq split: option.split
          intro: routes_ok_cong [OF _ _ _ s3(1)] elim: order_trans)
  qed
qed

lemma create_dev_fields:
  "a_neighs (snd (create_aodv_dev e dev ifa s)) = a_neighs s
   \<and> q_list (snd (create_aodv_dev e dev ifa s)) = q_list s
   \<and> q_len (snd (create_aodv_dev e dev ifa s)) = q_len s
   \<and> q_maxlen (snd (create_aodv_dev e dev ifa s)) = q_maxlen s
   \<and> a_timers (snd (create_aodv_dev e dev ifa s)) = a_timers s
   \<and> a_floods (snd (create_aodv_dev e dev ifa s)) = a_floods s
   \<and> a_tasks (snd (create_aodv_dev e dev ifa s)) = a_tasks s"
proof -
  obtain p s1 where c: "create_aodv_route e (ifa_address ifa) s = (p, s1)" by fastforce
  have f: "a_neighs s1 = a_neighs s" "q_list s1 = q_list s" "q_len s1 = q_len s" "q_maxlen s1 = q_maxlen s"
    "a_timers s1 = a_timers s" "a_floods s1 = a_floods s" "a_tasks s1 = a_tasks s"
    using create_route_fields [where s = s and e = e and ip = "ifa_address ifa"] c by (simp_all add: same_globals_def)
  show ?thesis
  proof (cases p)
    case None
    then show ?thesis using f by (simp add: create_aodv_dev_def c)
  next
    case (Some a)
    obtain q s3 where k: "kmalloc e (route_upd a (\<lambda>r. r\<lparr>rt_ip := ifa_address ifa, rt_self := True, rt_seq := 1, rt_old_seq := 0,
                     rt_rreq_id := 1, rt_metric := 0, rt_next_hop := ifa_address ifa, rt_lifetime := - 1,
                     rt_valid := True, rt_seq_valid := True, rt_dev := Some dev\<rparr>) s1) = (q, s3)" by fastforce
    have "a_neighs s3 = a_neighs s1" "q_list s3 = q_list s1" "q_len s3 = q_len s1" "q_maxlen s3 = q_maxlen s1"
      "a_timers s3 = a_timers s1" "a_floods s3 = a_floods s1" "a_tasks s3 = a_tasks s1"
      using k by (auto simp: kmalloc_def split: if_splits)
    then show ?thesis using f Some k
      by (simp add: create_aodv_dev_def c insert_kernel_route_entry_eq split: option.split)
  qed
qed

lemma create_dev_tables: "tables_ok s \<Longrightarrow> tables_ok (snd (create_aodv_dev e dev ifa s))"
  using ev_create_dev [where s = s and e = e and dev = dev and ifa = ifa]
    create_dev_fields [where s = s and e = e and dev = dev and ifa = ifa]
    neighs_ok_cong [of "snd (create_aodv_dev e dev ifa s)" s] queue_ok_cong [of "snd (create_aodv_dev e dev ifa s)" s]
    timers_ok_cong [of "snd (create_aodv_dev e dev ifa s)" s] floods_ok_cong [of "snd (create_aodv_dev e dev ifa s)" s]
  by (simp add: tables_ok_def)

lemma tables_ok_devs [simp]: "tables_ok (s\<lparr>a_devs := d\<rparr>) = tables_ok s"
  by (simp add: tables_ok_def routes_ok_def route_addrs_def neighs_ok_def queue_ok_def timers_ok_def floods_ok_def)

lemma tables_ok_fault [simp]: "tables_ok s \<Longrightarrow> tables_ok (fault s)"
  by (rule tables_ok_evolves [OF ev_fault])

lemma tables_ok_kfree [simp]: "tables_ok s \<Longrightarrow> tables_ok (kfree a s)"
  by (rule tables_ok_evolves [OF ev_kfree])

lemma insert_dev_tables: "tables_ok s \<Longrightarrow> tables_ok (snd (insert_dev_loop e g sc dev ifas n s))"
proof (induction ifas arbitrary: n s)
  case (Cons ifa ifas)
  obtain r s1 where c: "create_aodv_dev e dev ifa s = (r, s1)" by fastforce
  have "tables_ok s1" using create_dev_tables [OF Cons.prems, of e dev ifa] c by simp
  then show ?case using Cons
    by (simp add: c split: option.split sum.split prod.split)
qed simp

lemma init_dev_tables: "tables_ok s \<Longrightarrow> tables_ok (snd (init_aodv_dev e name sc dev ifas s))"
proof -
  assume s: "tables_ok s"
  have *: "tables_ok (snd (insert_aodv_dev e name sc dev ifas (s\<lparr>a_devs := []\<rparr>)))"
    using s by (simp add: insert_aodv_dev_def insert_dev_tables split: option.split)
  then have "tables_ok (update_timer_queue e (snd (insert_timer e ty d ip
      (snd (insert_aodv_dev e name sc dev ifas (s\<lparr>a_devs := []\<rparr>))))))" if "100 \<le> ty" for ty d ip
    by (intro tables_ok_evolves [OF ev_update_timer_queue] tables_ok_evolves [OF ev_insert_timer] that)
  with * show ?thesis by (simp add: init_aodv_dev_def case_prod_beta Let_def)
qed

text \<open>What \<open>init_module\<close> does before it looks at the interface.\<close>

definition before_dev :: "kenv \<Rightarrow> u8 \<Rightarrow> (string \<times> string) option \<Rightarrow> int \<Rightarrow> aodv_state \<Rightarrow> aodv_state" where
  "before_dev e gw sub qs s = snd (init_packet_queue e qs (init_aodv_neigh_list (snd (init_flood_id_queue
     ((init_subnet e sub (snd (init_aodv_route_table e (s\<lparr>g_aodv_gateway := gw, aodv_overhead := 0,
        g_broadcast_ip := (case inet_aton e ''255.255.255.255'' of None \<Rightarrow> 0 | Some w \<Rightarrow> w)\<rparr>))))
      \<lparr>a_tasks := [], a_timers := []\<rparr>)))))"

lemma init_module_loaded:
  assumes "fst (aodv_init_module e dev gw sub qs sc nd ifas s) = 0"
  obtains name result s6 where "dev = Some name" "init_aodv_dev e name sc nd ifas (before_dev e gw sub qs s) = (result, s6)"
    "result \<noteq> 0" "snd (aodv_init_module e dev gw sub qs sc nd ifas s) = update_timer_queue e (snd (insert_timer e 104 HELLO_INTERVAL (g_my_ip s6) s6))"
proof -
  obtain name where name: "dev = Some name" using assms by (cases dev) (simp_all add: aodv_init_module_def)
  obtain result s6 where i: "init_aodv_dev e name sc nd ifas (before_dev e gw sub qs s) = (result, s6)" by fastforce
  then have m: "aodv_init_module e dev gw sub qs sc nd ifas s = (if result = 0
      then (- 1, cleanup_aodv_route_table e (cleanup_flood_id_queue (cleanup_packet_queue (emit DelTimer (s6\<lparr>k_timer_pending := False\<rparr>)))))
      else (0, update_timer_queue e (snd (insert_timer e 104 HELLO_INTERVAL (g_my_ip s6) s6))))"
    unfolding before_dev_def aodv_init_module_def name option.case Let_def by simp
  show thesis by (rule that [OF name i]) (use assms m in \<open>simp_all split: if_splits\<close>)
qed

lemma table_start:
  assumes "blank s"
  shows "tables_ok (snd (init_aodv_route_table e s)) \<and> q_list (snd (init_aodv_route_table e s)) = []"
proof -
  have "routes_ok (snd (init_aodv_route_table e s))"
    by (rule init_aodv_route_table_ok) (use assms in \<open>simp add: blank_def\<close>)
  moreover have "a_neighs (snd (init_aodv_route_table e s)) = [] \<and> a_timers (snd (init_aodv_route_table e s)) = []
     \<and> a_floods (snd (init_aodv_route_table e s)) = [] \<and> q_list (snd (init_aodv_route_table e s)) = []
     \<and> q_len (snd (init_aodv_route_table e s)) = 0 \<and> q_maxlen (snd (init_aodv_route_table e s)) = 0"
    using assms
    by (simp add: init_aodv_route_table_def Let_def case_prod_beta deref_upd_def blank_def
        create_aodv_route_def kmalloc_def insert_aodv_route_def split: option.split)
  ultimately show ?thesis by (simp add: tables_ok_def neighs_ok_def queue_ok_def timers_ok_def floods_ok_def)
qed

lemma init_subnet_tables:
  assumes "tables_ok s"
  shows "tables_ok (init_subnet e sub s)" "q_list (init_subnet e sub s) = q_list s"
proof -
  have "tables_ok (snd (create_aodv_route e ip s))" for ip
    by (rule tables_ok_evolves [OF ev_create_route assms])
  then have "tables_ok (deref_upd p (\<lambda>r. r\<lparr>rt_valid := True, rt_seq_valid := True, rt_netmask := nm, rt_self := True,
      rt_metric := 1, rt_seq := 1, rt_rreq_id := 1\<rparr>) (snd (create_aodv_route e ip s)))" for p nm ip
    by (rule tables_ok_evolves [OF ev_deref_upd, rotated]) simp
  with assms show "tables_ok (init_subnet e sub s)" by (simp add: init_subnet_def Let_def case_prod_beta split: option.split)
  show "q_list (init_subnet e sub s) = q_list s"
    by (simp add: init_subnet_def Let_def case_prod_beta deref_upd_def create_route_fields split: option.split)
qed

lemma before_dev_tables:
  assumes "blank s"
  shows "tables_ok (before_dev e gw sub qs s)"
proof -
  define s1 where "s1 = s\<lparr>g_aodv_gateway := gw, aodv_overhead := 0,
    g_broadcast_ip := (case inet_aton e ''255.255.255.255'' of None \<Rightarrow> 0 | Some w \<Rightarrow> w)\<rparr>"
  define s2 where "s2 = init_subnet e sub (snd (init_aodv_route_table e s1))"
  define s4 where "s4 = init_aodv_neigh_list (snd (init_flood_id_queue (s2\<lparr>a_tasks := [], a_timers := []\<rparr>)))"
  have "blank s1" using assms by (simp add: s1_def blank_def)
  note i = table_start [OF this, of e]
  have "tables_ok s2" "q_list s2 = []" unfolding s2_def using i init_subnet_tables [OF conjunct1 [OF i]] by auto
  then have "tables_ok s4" "q_list s4 = []"
    by (simp_all add: s4_def init_aodv_neigh_list_def init_flood_id_queue_def tables_ok_def routes_ok_def route_addrs_def
        neighs_ok_def queue_ok_def timers_ok_def floods_ok_def)
  then have "tables_ok (snd (init_packet_queue e qs s4))"
    by (auto simp: init_packet_queue_def ipq_create_queue_def Let_def kmalloc_def tables_ok_def
        routes_ok_def route_addrs_def neighs_ok_def queue_ok_def timers_ok_def floods_ok_def less_SucI)
  then show ?thesis by (simp add: before_dev_def s1_def s2_def s4_def)
qed

lemma init_module_tables:
  assumes "blank s" "fst (aodv_init_module e dev gw sub qs sc nd ifas s) = 0"
  shows "tables_ok (snd (aodv_init_module e dev gw sub qs sc nd ifas s))"
proof -
  obtain name result s6 where i: "init_aodv_dev e name sc nd ifas (before_dev e gw sub qs s) = (result, s6)"
    "snd (aodv_init_module e dev gw sub qs sc nd ifas s) = update_timer_queue e (snd (insert_timer e 104 HELLO_INTERVAL (g_my_ip s6) s6))"
    by (rule init_module_loaded [OF assms(2)])
  have "tables_ok s6" using init_dev_tables [OF before_dev_tables [OF assms(1)]] i(1) by (metis snd_conv)
  then show ?thesis unfolding i(2)
    by (intro tables_ok_evolves [OF ev_update_timer_queue] tables_ok_evolves [OF ev_insert_timer]) simp
qed

section \<open>The types of tasks\<close>

lemma init_module_no_tasks:
  assumes "blank s" "fst (aodv_init_module e dev gw sub qs sc nd ifas s) = 0"
  shows "a_tasks (snd (aodv_init_module e dev gw sub qs sc nd ifas s)) = []"
proof -
  obtain name result s6 where i: "init_aodv_dev e name sc nd ifas (before_dev e gw sub qs s) = (result, s6)"
    "snd (aodv_init_module e dev gw sub qs sc nd ifas s) = update_timer_queue e (snd (insert_timer e 104 HELLO_INTERVAL (g_my_ip s6) s6))"
    by (rule init_module_loaded [OF assms(2)])
  have tm: "a_tasks (update_timer_queue e (snd (insert_timer e ty d ip u))) = a_tasks u" if "100 \<le> ty" for ty d ip u
    using ev_insert_timer [OF that, of e u d ip] ev_update_timer_queue [of e "snd (insert_timer e ty d ip u)"]
    by (simp add: evolves_def same_globals_def)
  have "a_tasks (snd (insert_dev_loop e name sc d ifas n u)) = a_tasks u" for d ifas n u
  proof (induction ifas arbitrary: n u)
    case (Cons ifa ifas)
    have "a_tasks (snd (create_aodv_dev e d ifa u)) = a_tasks u"
      by (simp add: create_dev_fields)
    then show ?case using Cons
      by (cases "create_aodv_dev e d ifa u") (auto split: option.split sum.split prod.split)
  qed simp
  then have "a_tasks s6 = a_tasks (before_dev e gw sub qs s)"
    using i(1) tm by (auto simp: init_aodv_dev_def insert_aodv_dev_def Let_def case_prod_beta split: option.splits if_splits)
  moreover have "a_tasks (before_dev e gw sub qs s) = []"
    by (simp add: before_dev_def init_packet_queue_def ipq_create_queue_def Let_def kmalloc_def init_aodv_neigh_list_def
        init_flood_id_queue_def)
  ultimately show ?thesis by (simp add: i(2) tm)
qed

text \<open>A queued message has the length its type and its own count of entries ask for; other tasks are timers.\<close>

fun msg_len :: "int \<Rightarrow> u8 list \<Rightarrow> nat" where
  "msg_len ty bs = (if ty = 1 then sizeof_rreq else if ty = 2 then sizeof_rrep
     else if ty = 3 then sizeof_rerr + sizeof_aodv_dst * unat (rerr_count bs) else sizeof_rrep_ack)"

definition task_typed :: "task \<Rightarrow> bool" where
  "task_typed t = (case tk_data t of None \<Rightarrow> 100 \<le> tk_type t
     | Some (b, bs) \<Rightarrow> tk_type t \<in> {1, 2, 3, 4} \<and> length bs = msg_len (tk_type t) bs \<and> tk_data_len t = length bs
         \<and> uint (bs ! 0) = tk_type t)"

definition tasks_typed :: "aodv_state \<Rightarrow> bool" where
  "tasks_typed s = (\<forall>t \<in> set (nl_vals (a_tasks s)). task_typed t)"

lemma skb_bytes_nth: "i < n \<Longrightarrow> skb_bytes p off n ! i = skb_byte p (off + i)"
  by (simp add: skb_bytes_def)

lemma packet_in_typed:
  assumes "tasks_typed s"
  shows "tasks_typed (snd (packet_in e p s))"
proof -
  let ?ty = "skb_byte p 28" and ?bs = "skb_bytes p 28 (sk_len p - 28)"
  obtain ok s1 where v: "valid_aodv_packet (int (sk_len p) - 28) ?ty (skb_byte p 31) s = (ok, s1)" by fastforce
  have t1: "a_tasks s1 = a_tasks s" using v by (auto simp: valid_aodv_packet_def split: if_splits)
  have "tasks_typed (snd (insert_task e (uint ?ty) p s1))" if ok
  proof -
    have sz: "n = 32 + 8 * unat w" if "int n = 32 + 8 * uint w" for n and w :: u8
    proof -
      have "int n = int (32 + 8 * unat w)" using that by simp
      then show ?thesis by (simp only: of_nat_eq_iff)
    qed
    have ty: "uint ?ty \<in> {1, 2, 3, 4}" "length ?bs = msg_len (uint ?ty) ?bs" "0 < length ?bs"
      using v that by (auto simp: valid_aodv_packet_def rerr_count_def skb_bytes_nth split: if_splits dest!: sz)
    then have "task_typed (t\<lparr>tk_type := uint ?ty, tk_data_len := sk_len p - 28, tk_data := Some (b, ?bs)\<rparr>)" for t b
      by (simp add: task_typed_def skb_bytes_nth del: msg_len.simps)
    then show ?thesis
      using assms ty(1) t1 
      by (auto simp: insert_task_def create_task_def kmalloc_def new_task_def queue_aodv_task_def emit_def tasks_typed_def nl_vals_def
          Let_def task_typed_def)
  qed
  then show ?thesis using assms v t1 by (simp add: packet_in_def tasks_typed_def)
qed

lemma typed_more: "tasks_typed s \<Longrightarrow> set (a_tasks t) \<subseteq> set (a_tasks s) \<union> set (a_timers s) \<Longrightarrow> timers_ok s \<Longrightarrow> tasks_typed t"
  by (fastforce simp: tasks_typed_def timers_ok_def task_typed_def nl_vals_def)

lemma signal_tasks: "set (a_tasks (timer_queue_signal e s)) \<subseteq> set (a_tasks s) \<union> set (a_timers s)"
proof -
  define n where "n = Suc (length (a_timers s))"
  have "a_tasks (signal_loop e (getcurrtime s) n s)
      = a_tasks s @ takeWhile (\<lambda>t. ke_time_before_eq e (tk_time (snd t)) (getcurrtime s)) (a_timers s)"
    using signal_loop_moves [of s n e "getcurrtime s"] by (simp add: due_loop_takeWhile n_def del: signal_loop.simps)
  then show ?thesis
    unfolding timer_queue_signal_def n_def [symmetric] by (auto dest: set_takeWhileD)
qed

lemma step_typed: "aodv_step e s t \<Longrightarrow> tables_ok s \<Longrightarrow> tasks_typed s \<Longrightarrow> tasks_typed t"
proof (cases rule: aodv_step.cases, assumption)
  fix indev skb
  assume "tasks_typed s" "t = snd (input_handler e skb indev s)"
  then show "tasks_typed t" using packet_in_typed [of s e skb] by (auto simp: input_handler_def tasks_typed_def)
next
  fix skb
  assume "tasks_typed s" "t = snd (output_handler e skb s)"
  then show "tasks_typed t" using ev_output [of e s skb] by (simp add: tasks_typed_def evolves_def same_globals_def)
next
  assume "tables_ok s" "tasks_typed s" "t = timer_queue_signal e s"
  then show "tasks_typed t" using typed_more [OF _ signal_tasks [of e s]] by (simp add: tables_ok_def)
next
  assume "tasks_typed s" "t = thread_round e s"
  then show "tasks_typed t"
    using ev_dispatch [of e]
    by (auto simp: thread_round_def get_task_def tasks_typed_def evolves_def same_globals_def split: list.split)
next
  fix event dev
  assume "tasks_typed s" "t = ipq_receive_event event dev s"
  then show "tasks_typed t" using ev_dev_drop [of e s]
    by (simp add: ipq_receive_event_def tasks_typed_def evolves_def same_globals_def)
qed (simp_all add: tasks_typed_def netfilter_receive_def ipq_enqueue_def Let_def emit_def)

lemma reach_typed: "aodv_reach e s t \<Longrightarrow> tables_ok s \<Longrightarrow> tasks_typed s \<Longrightarrow> tasks_typed t"
  by (induction rule: aodv_reach.induct) (blast intro: step_typed reach_tables)+

end
