(* ===== verification/Demo.thy ===== *)
theory Demo
  imports KernelEnv
begin

text \<open>
  The kernel the properties are instantiated with: a big-endian machine on which every allocation
  succeeds and times are compared as numbers, with one wireless interface.
\<close>

definition demo_env :: kenv where
  "demo_env =
     \<lparr>ke_big_endian = True, ke_time_before = (<), ke_time_after = (>), ke_time_before_eq = (\<le>), ke_hz = 100,
      ke_kmalloc_ok = (\<lambda>_. True), ke_junk = (\<lambda>_ _. 0), ke_junk_dev = (\<lambda>_. None),
      ke_set_ttl = (\<lambda>_. 0), ke_wspace = (\<lambda>_. 65536), ke_sendmsg = (\<lambda>_. 0)\<rparr>"

definition wlan0 :: netdev where
  "wlan0 = \<lparr>nd_name = ''wlan0'', nd_ifindex = 3, nd_ip_ptr = Some (Some 0xc0a80001), nd_word12 = 0\<rparr>"

lemma demo_no_oom: "no_oom demo_env"
  by (simp add: no_oom_def demo_env_def)

end
