(* ===== verification/AodvDemo.thy ===== *)
theory AodvDemo
  imports AodvReach Demo
begin

unbundle bit_operations_syntax

text \<open>
  A node with one wireless interface, on which the properties of the routing module are
  instantiated: the module before and after it is loaded, and in the middle of its work.
\<close>

definition unloaded :: aodv_state where
  "unloaded =
     \<lparr>k_time = \<lparr>tv_sec = 1000, tv_usec = 0\<rparr>, k_jiffies = 0, k_timer_pending = False, k_allocs = 0, k_live = {},
      k_out = [], k_fault = False, g_my_route = None, g_my_ip = 0, g_broadcast_ip = 0, g_aodv_gateway = 0,
      aodv_overhead = 0, a_routes = [], a_loose = [], a_neighs = [], a_floods = [], a_timers = [], a_tasks = [],
      a_devs = [], q_block = None, q_list = [], q_len = 0, q_maxlen = 0, q_flushing = False, q_terminate = False\<rparr>"

definition demo_load :: "int \<times> aodv_state" where
  "demo_load = aodv_init_module demo_env (Some ''wlan0'') 0 None 0 (\<lambda>_. Inr 77) (Some wlan0)
     (Some [\<lparr>ifa_address = 0xc0a80001, ifa_mask = 0xffffff00\<rparr>]) unloaded"

definition loaded :: aodv_state where
  "loaded = snd demo_load"

text \<open>Packets as they arrive on the interface: an IP and a UDP header, then the message.\<close>

definition aodv_packet :: "u32 \<Rightarrow> u8 \<Rightarrow> u8 list \<Rightarrow> skbuff" where
  "aodv_packet src ttl msg =
     \<lparr>sk_len = 28 + length msg, sk_data = replicate 28 0 @ msg, sk_beyond = (\<lambda>_. 0), sk_saddr = src,
      sk_daddr = 0xffffffff, sk_ttl = ttl, sk_has_transport = True, sk_udp_dest = 654, sk_h_proto = 0x0800,
      sk_h_source = [2, 0, 0, 0, 0, ucast src], sk_dev = wlan0\<rparr>"

definition hello_from :: "u32 \<Rightarrow> skbuff" where
  "hello_from src = aodv_packet src 1 (rrep_bytes True
     \<lparr>rp_type = 2, rp_a = False, rp_reserved1 = 0, rp_reserved2 = 0, rp_metric = 0, rp_dst_ip = src,
      rp_dst_seq = 5, rp_src_ip = src, rp_lifetime = 3000\<rparr>)"

definition arrives :: "skbuff \<Rightarrow> aodv_state \<Rightarrow> aodv_state" where
  "arrives p s = thread_round demo_env (snd (input_handler demo_env p wlan0 s))"

text \<open>The node once it knows a neighbour.\<close>

definition met :: aodv_state where
  "met = arrives (hello_from 0xc0a80002) loaded"

text \<open>
  A node 192.168.0.1 in the middle of its work: routes to itself, to its neighbour
  192.168.0.2 and through it to 192.168.0.9, a remembered request of the latter, and two packets
  waiting for a route to 192.168.0.7.
\<close>

definition demo_route :: "u32 \<Rightarrow> u32 \<Rightarrow> u8 \<Rightarrow> u32 \<Rightarrow> aodv_route" where
  "demo_route ip nh metric seq =
     \<lparr>rt_ip = ip, rt_netmask = 0xffffffff, rt_seq = seq, rt_old_seq = 0, rt_metric = metric, rt_next_hop = nh,
      rt_rreq_id = 0, rt_lifetime = 1003000, rt_dev = Some wlan0, rt_valid = True, rt_seq_valid = True,
      rt_self = (ip = nh \<and> metric = 0)\<rparr>"

definition demo_neigh :: "u32 \<Rightarrow> aodv_neigh" where
  "demo_neigh ip =
     \<lparr>nb_ip = ip, nb_seq = 0, nb_lifetime = 1003020, nb_hw_addr = [2, 0, 0, 0, 0, ucast ip],
      nb_dev = Some wlan0, nb_route_entry = Some 11, nb_link = 0, nb_valid_link = True\<rparr>"

definition waiting :: "nat \<Rightarrow> qentry" where
  "waiting i = \<lparr>qe_id = i, qe_hook = 4, qe_daddr = 0xc0a80007, qe_indev = None, qe_outdev = Some 3\<rparr>"

definition node :: aodv_state where
  "node = unloaded
     \<lparr>k_allocs := 20, k_live := {19, 16, 11, 9, 3, 2, 1}, g_my_route := Some 2, g_my_ip := 0xc0a80001,
      g_broadcast_ip := 0xffffffff,
      a_routes := [(2, demo_route 0xc0a80001 0xc0a80001 0 1), (11, demo_route 0xc0a80002 0xc0a80002 1 5),
                   (16, demo_route 0xc0a80009 0xc0a80002 2 4)],
      a_neighs := [(9, demo_neigh 0xc0a80002)],
      a_floods := [(19, \<lparr>fl_src_ip = 0xc0a80009, fl_dst_ip = 0xc0a80007, fl_id = 9, fl_lifetime = 1001600\<rparr>)],
      a_devs := [(3, \<lparr>dv_dev = wlan0, dv_route_entry = 2, dv_ip = 0xc0a80001, dv_netmask = 0xffffff00,
                       dv_name = ''wlan0'', dv_sock = Some 77\<rparr>)],
      q_block := Some 1, q_list := [waiting 1, waiting 2], q_len := 2, q_maxlen := 1024\<rparr>"

lemmas demo_defs = node_def unloaded_def demo_route_def demo_neigh_def demo_env_def wlan0_def waiting_def

lemma node_ok: "tables_ok node"
  by (simp add: demo_defs tables_ok_def routes_ok_def route_addrs_def neighs_ok_def queue_ok_def timers_ok_def floods_ok_def)

lemma node_routes_ok: "routes_ok node"
  using node_ok by (simp add: tables_ok_def)

lemma demo_time [simp]: "getcurrtime node = 1000000"
  by (simp add: demo_defs getcurrtime_def)

definition demo_timer :: "nat \<Rightarrow> u64 \<Rightarrow> addr \<times> task" where
  "demo_timer a due = (a, (new_task demo_env 102 a 0)\<lparr>tk_time := due\<rparr>)"

end
