(* ===== verification/RouteProps.thy ===== *)
theory RouteProps
  imports AodvDemo
begin

unbundle bit_operations_syntax

text \<open>
  The properties of the route table and the packet queue: what a search finds, which updates are
  accepted and what an accepted one does, how routes expire, and which packets are released.
\<close>

section \<open>Lemmas\<close>

lemma routes_okD: "routes_ok s \<Longrightarrow> sorted_by rt_ip (a_routes s)" "routes_ok s \<Longrightarrow> distinct (nl_addrs (a_routes s))"
  by (simp_all add: routes_ok_def route_addrs_def)

lemma valid_neigh_find [simp]:
  "valid_aodv_neigh e ip (snd (find_aodv_route e t s)) = valid_aodv_neigh e ip s"
  by (simp add: valid_aodv_neigh_def find_aodv_neigh_def split: option.split prod.split)

lemma route_get_written:
  assumes "route_get p s = Some r"
  shows "route_get p (write_route e ip p nh metric seq dev s) = Some (written_route nh metric seq dev (getcurrtime s) r)"
    "q \<noteq> p \<Longrightarrow> route_get q (write_route e ip p nh metric seq dev s) = route_get q s"
proof -
  have "route_get q (write_route e ip p nh metric seq dev s) =
      (if q = p then map_option (written_route nh metric seq dev (getcurrtime s)) (route_get q s) else route_get q s)" for q
    unfolding write_route_eq [OF assms]
    by (simp add: route_get_def nl_get_append nl_get_upd split: option.split)
  with assms show "route_get p (write_route e ip p nh metric seq dev s)
      = Some (written_route nh metric seq dev (getcurrtime s) r)"
    "q \<noteq> p \<Longrightarrow> route_get q (write_route e ip p nh metric seq dev s) = route_get q s"
    by simp_all
qed

section \<open>Searching\<close>

definition passed :: "kenv \<Rightarrow> u64 \<Rightarrow> u32 \<Rightarrow> aodv_route \<Rightarrow> aodv_route" where
  "passed e now t r =
     (if rt_ip r \<le> t \<and> rt_valid r \<and> \<not> rt_self r \<and> ke_time_before e (rt_lifetime r) now
      then r\<lparr>rt_lifetime := now + 2000, rt_seq := rt_seq r + 1, rt_valid := False\<rparr> else r)"

lemma passed_eq: "passed e now t = pass_route e now t"
  by (auto simp: fun_eq_iff passed_def pass_route_def route_stale_def expire_aodv_route_def)

text \<open>C4. \<open>find_aodv_route\<close> on a table in order: a route is returned exactly when some entry up to
  the target matches it under its own mask; it is then a matching entry, and none of greater
  address matches. On its way the search expires the entries up to the target
  that are stale, and changes nothing else.\<close>

theorem find_aodv_route_spec:
  assumes "routes_ok s"
  shows "(case fst (find_aodv_route e t s) of
      None \<Rightarrow> \<forall>r \<in> set (nl_vals (a_routes s)). \<not> (rt_ip r \<le> t \<and> compare_aodv_route r t)
    | Some a \<Rightarrow> \<exists>r. (a, r) \<in> set (a_routes s) \<and> rt_ip r \<le> t \<and> compare_aodv_route r t
        \<and> (\<forall>r' \<in> set (nl_vals (a_routes s)). rt_ip r' \<le> t \<and> compare_aodv_route r' t \<longrightarrow> rt_ip r' \<le> rt_ip r))
    \<and> snd (find_aodv_route e t s) = s\<lparr>a_routes := map (apsnd (passed e (getcurrtime s) t)) (a_routes s)\<rparr>"
proof (cases "last_match t (a_routes s)")
  case None
  then show ?thesis
    using last_match_None [of t "a_routes s"] by (simp add: find_aodv_route_eq [OF routes_okD(1) [OF assms]] passed_eq)
next
  case (Some a)
  then obtain r where "(a, r) \<in> set (a_routes s)" "rt_ip r \<le> t" "compare_aodv_route r t"
    using last_match_Some by blast
  then show ?thesis
    using last_match_greatest [OF routes_okD(1) [OF assms] Some routes_okD(2) [OF assms]] Some
    by (auto simp: find_aodv_route_eq [OF routes_okD(1) [OF assms]] passed_eq)
qed

theorem find_aodv_route_spec_witness:
  "\<exists>r. (16, r) \<in> set (a_routes node) \<and> rt_ip r \<le> 0xc0a80009 \<and> compare_aodv_route r 0xc0a80009
     \<and> (\<forall>r' \<in> set (nl_vals (a_routes node)). rt_ip r' \<le> 0xc0a80009 \<and> compare_aodv_route r' 0xc0a80009
          \<longrightarrow> rt_ip r' \<le> rt_ip r)"
proof -
  have "fst (find_aodv_route demo_env 0xc0a80009 node) = Some 16" by code_simp
  then show ?thesis using find_aodv_route_spec [OF node_routes_ok, where e = demo_env and t = "0xc0a80009"] by simp
qed

lemma demo_find: "find_aodv_route demo_env 0xc0a80009 node = (Some 16, node)"
  by (simp add: find_aodv_route_eq [OF routes_okD(1) [OF node_routes_ok]])
    (simp add: demo_defs compare_aodv_route_def pass_route_def route_stale_def getcurrtime_def)

lemma demo_get: "route_get 16 node = Some (demo_route 0xc0a80009 0xc0a80002 2 4)"
  by (simp add: route_get_def demo_defs)

section \<open>Updating\<close>

lemma update_known:
  assumes "find_aodv_route e ip s = (Some p, s1)" "route_get p s1 = Some r" "valid_aodv_neigh e nh s"
  shows "update_aodv_route e ip nh metric seq dev s =
    (0, if seq_greater (rt_seq r) seq then s1 else write_route e ip p nh metric seq dev s1)"
proof -
  have "valid_aodv_neigh e nh s1" using assms(1,3) valid_neigh_find [of e nh ip s] by simp
  moreover have "seq \<noteq> rt_seq r" if "\<not> seq_greater (rt_seq r) seq"
    using that by (auto simp: seq_greater_def)
  ultimately show ?thesis using assms(1,2) by (simp add: update_aodv_route_def)
qed

text \<open>C5. What \<open>update_aodv_route\<close> does with news about a known destination. News whose next hop is not
  a valid neighbour, or whose sequence number does not beat the route's, change nothing beyond
  the search. Accepted news overwrite the route and no other, make it valid for
  ACTIVE_ROUTE_TIMEOUT, replace the kernel's entry and release exactly the packets held for the destination.\<close>

theorem update_aodv_route_known:
  assumes "find_aodv_route e ip s = (Some p, s1)" "route_get p s1 = Some r"
    and "t = snd (update_aodv_route e ip nh metric seq dev s)"
  shows "if \<not> valid_aodv_neigh e nh s \<or> seq_greater (rt_seq r) seq then t = s1
    else route_get p t = Some (r\<lparr>rt_seq := seq, rt_next_hop := nh, rt_metric := metric, rt_dev := dev,
             rt_valid := True, rt_seq_valid := True, rt_lifetime := getcurrtime s + 3000\<rparr>)
       \<and> (\<forall>q. q \<noteq> p \<longrightarrow> route_get q t = route_get q s1)
       \<and> q_list t = filter (\<lambda>q. \<not> ip_cmp ip q) (q_list s)
       \<and> k_out t = k_out s @ write_events e ip nh dev r s1"
proof (cases "\<not> valid_aodv_neigh e nh s \<or> seq_greater (rt_seq r) seq")
  case True
  then show ?thesis
    using assms valid_neigh_find [of e nh ip s] update_known [OF assms(1,2)]
    by (cases "valid_aodv_neigh e nh s") (simp_all add: update_aodv_route_def)
next
  case False
  have f: "getcurrtime s1 = getcurrtime s" "q_list s1 = q_list s" "k_out s1 = k_out s"
    using assms(1) by (metis find_aodv_route_frame snd_conv)+
  have t: "t = write_route e ip p nh metric seq dev s1"
    using False assms(3) update_known [OF assms(1,2)] by simp
  then have "q_list t = filter (\<lambda>q. \<not> ip_cmp ip q) (q_list s)" "k_out t = k_out s @ write_events e ip nh dev r s1"
    by (simp_all add: write_route_eq [OF assms(2)] f)
  then show ?thesis
    using False route_get_written [OF assms(2)] by (simp add: t f written_route_def)
qed

theorem update_aodv_route_known_witness:
  "route_get 16 (snd (update_aodv_route demo_env 0xc0a80009 0xc0a80002 1 5 (Some wlan0) node))
     = Some ((demo_route 0xc0a80009 0xc0a80002 1 5))"
proof -
  have "valid_aodv_neigh demo_env 0xc0a80002 node \<and> \<not> seq_greater 4 5" by code_simp
  then show ?thesis
    using update_aodv_route_known [OF demo_find demo_get refl, of "0xc0a80002" 5 1 "Some wlan0"]
    by (simp add: demo_route_def demo_env_def)
qed

text \<open>News with the sequence number the route already has are never accepted, whatever the
  metric: \<open>seq_greater\<close> holds of equal numbers, so the comparison of metrics that follows it in
  \<open>update_aodv_route\<close> is never reached and a shorter path of the same age is not taken.\<close>

theorem update_same_seq_rejected:
  assumes "find_aodv_route e ip s = (Some p, s1)" "route_get p s1 = Some r"
  shows "update_aodv_route e ip nh metric (rt_seq r) dev s = (0, s1)"
proof (cases "valid_aodv_neigh e nh s")
  case True
  then show ?thesis using update_known [OF assms] by (simp add: seq_greater_def)
next
  case False
  then show ?thesis using assms valid_neigh_find [of e nh ip s] by (simp add: update_aodv_route_def)
qed

theorem update_same_seq_rejected_witness:
  "update_aodv_route demo_env 0xc0a80009 0xc0a80002 1 4 (Some wlan0) node = (0, node)"
  using update_same_seq_rejected [OF demo_find demo_get, of "0xc0a80002" 1 "Some wlan0"]
  by (simp add: demo_route_def)

section \<open>Learning\<close>

lemma last_match_unique:
  assumes "(a, r) \<in> set rs" "rt_ip r \<le> t" "compare_aodv_route r t"
    "\<And>b q. (b, q) \<in> set rs \<Longrightarrow> rt_ip q \<le> t \<Longrightarrow> compare_aodv_route q t \<Longrightarrow> b = a"
  shows "last_match t rs = Some a"
proof (cases "last_match t rs")
  case None
  moreover have "r \<in> set (nl_vals rs)" using assms(1) by (force simp: nl_vals_def)
  ultimately show ?thesis using assms(2,3) by (auto simp: last_match_None)
next
  case (Some b)
  then show ?thesis using last_match_Some assms(4) by fastforce
qed

text \<open>The only match is the entry just inserted and written.\<close>

lemma last_match_inserted:
  assumes "\<forall>r \<in> set (nl_vals rs). \<not> (rt_ip r \<le> ip \<and> compare_aodv_route r ip)" "rt_ip (w n) \<le> ip"
    "compare_aodv_route (w n) ip"
  shows "last_match ip (nl_upd a w (nl_insert rt_ip (a, n) rs)) = Some a"
proof (rule last_match_unique)
  show "(a, w n) \<in> set (nl_upd a w (nl_insert rt_ip (a, n) rs))" by (force simp: set_nl_upd)
  fix b q
  assume q: "(b, q) \<in> set (nl_upd a w (nl_insert rt_ip (a, n) rs))" "rt_ip q \<le> ip" "compare_aodv_route q ip"
  show "b = a"
  proof (rule ccontr)
    assume "b \<noteq> a"
    then have "(b, q) \<in> set rs" using q(1) by (auto simp: set_nl_upd split: if_splits)
    then show False using assms(1) q(2,3) by (force simp: nl_vals_def)
  qed
qed (use assms in simp_all)

lemma find_keeps_route:
  assumes "routes_ok t" "(a, r) \<in> set (a_routes t)" "pass_route e (getcurrtime t) ip r = r"
  shows "route_get a (snd (find_aodv_route e ip t)) = Some r"
proof -
  have "nl_get a (a_routes t) = Some r" by (rule nl_get_in [OF assms(2) routes_okD(2) [OF assms(1)]])
  then show ?thesis
    using assms(3) by (simp add: find_aodv_route_eq [OF routes_okD(1) [OF assms(1)]] route_get_def nl_get_append)
qed

text \<open>The state after news about an unknown destination: a new entry, linked in order and written.\<close>

lemma update_unknown:
  assumes "routes_ok s" "valid_aodv_neigh e nh s" "find_aodv_route e ip s = (None, s1)" "ip \<noteq> 0"
    "ke_kmalloc_ok e (k_allocs s)" "t = snd (update_aodv_route e ip nh metric seq dev s)"
    and "n = new_route e (k_allocs s) ip (g_broadcast_ip s)"
  shows "routes_ok t" "getcurrtime t = getcurrtime s" "q_list t = filter (\<lambda>q. \<not> ip_cmp ip q) (q_list s)"
    "a_routes t = nl_upd (k_allocs s) (written_route nh metric seq dev (getcurrtime s))
       (nl_insert rt_ip (k_allocs s, n) (a_routes s1))"
    "\<exists>u. k_out t = k_out s @ write_events e ip nh dev n u \<and> q_list u = q_list s"
proof -
  have s1: "routes_ok s1" "k_allocs s1 = k_allocs s" "getcurrtime s1 = getcurrtime s" "q_list s1 = q_list s"
    "g_broadcast_ip s1 = g_broadcast_ip s"
    using find_aodv_route_ok [OF assms(1), of e ip] find_aodv_route_frame [where s = s and e = e and t = ip] assms(3)
    by simp_all
  obtain p s2 where c0: "create_aodv_route e ip s1 = (p, s2)" by fastforce
  have p: "p = Some (k_allocs s)"
    using c0 assms(5) s1(2) by (auto simp: create_aodv_route_def kmalloc_def Let_def split: if_splits)
  note c = c0 [unfolded p] and c' = create_aodv_route_Some [OF c0 [unfolded p]]
  have g: "route_get (k_allocs s) s2 = Some n"
    using create_aodv_route_get(1) [OF s1(1) c] s1(2,5) assms(7) by simp
  have now: "getcurrtime s2 = getcurrtime s" using c' s1(3) by simp
  have v: "valid_aodv_neigh e nh s1" using assms(2,3) valid_neigh_find [of e nh ip s] by simp
  have "snd (update_aodv_route e ip nh metric seq dev s) = write_route e ip (k_allocs s) nh metric seq dev s2"
    using assms(3) c v created_ip_upd [OF s1(1) c] by (simp add: update_aodv_route_def)
  then have t: "t = write_route e ip (k_allocs s) nh metric seq dev s2" using assms(6) by simp
  show "routes_ok t" unfolding t using create_aodv_route_ok [OF s1(1), of e ip] c by (simp add: routes_ok_written)
  show "getcurrtime t = getcurrtime s" by (simp add: t write_route_eq [OF g] now)
  show "q_list t = filter (\<lambda>q. \<not> ip_cmp ip q) (q_list s)" unfolding t write_route_eq [OF g] using c' s1(4) by simp
  show "a_routes t = nl_upd (k_allocs s) (written_route nh metric seq dev (getcurrtime s))
      (nl_insert rt_ip (k_allocs s, n) (a_routes s1))"
    unfolding t write_route_eq [OF g] using c' assms(4,7) s1(2,5) now by simp
  have out: "k_out s2 = k_out s" using c' find_aodv_route_frame [where s = s and e = e and t = ip] assms(3) by simp
  have q2: "q_list s2 = q_list s" using c' s1(4) by simp
  show "\<exists>u. k_out t = k_out s @ write_events e ip nh dev n u \<and> q_list u = q_list s"
    unfolding t write_route_eq [OF g] by (rule exI [of _ s2]) (simp add: out q2)
qed

text \<open>A destination that was unknown is learned: when \<open>update_aodv_route\<close> hears of it from a valid
  neighbour it creates a route, in the same call releases every packet that waited for it, and
  from then on the search for the address finds that route, valid and with the next hop, metric and
  sequence number heard.\<close>

theorem update_aodv_route_learns:
  assumes "routes_ok s" "valid_aodv_neigh e nh s" "fst (find_aodv_route e ip s) = None" "ip \<noteq> 0"
    "ke_kmalloc_ok e (k_allocs s)" "\<not> ke_time_before e (getcurrtime s + 3000) (getcurrtime s)"
    and "t = snd (update_aodv_route e ip nh metric seq dev s)"
  shows "fst (find_aodv_route e ip t) = Some (k_allocs s)
    \<and> (\<exists>r. route_get (k_allocs s) (snd (find_aodv_route e ip t)) = Some r \<and> rt_ip r = ip \<and> rt_valid r
         \<and> rt_next_hop r = nh \<and> rt_metric r = metric \<and> rt_seq r = seq)
    \<and> q_list t = filter (\<lambda>q. \<not> ip_cmp ip q) (q_list s)"
proof -
  obtain s1 where f: "find_aodv_route e ip s = (None, s1)" using assms(3) by (cases "find_aodv_route e ip s") simp
  define n where "n = new_route e (k_allocs s) ip (g_broadcast_ip s)"
  let ?w = "written_route nh metric seq dev (getcurrtime s)"
  note u = update_unknown [OF assms(1,2) f assms(4,5,7) n_def]
  have none: "\<forall>r \<in> set (nl_vals (a_routes s1)). \<not> (rt_ip r \<le> ip \<and> compare_aodv_route r ip)"
    using assms(3) f find_aodv_route_eq [OF routes_okD(1) [OF assms(1)], of e ip] by (auto simp: last_match_None)
  have w: "compare_aodv_route (?w n) ip" "rt_ip (?w n) = ip"
    by (simp_all add: compare_aodv_route_def written_route_def new_route_def n_def)
  have "last_match ip (a_routes t) = Some (k_allocs s)"
    unfolding u(4) using none by (rule last_match_inserted) (simp_all add: w)
  moreover have "(k_allocs s, ?w n) \<in> set (a_routes t)" by (force simp: u(4) set_nl_upd)
  then have "route_get (k_allocs s) (snd (find_aodv_route e ip t)) = Some (?w n)"
    by (rule find_keeps_route [OF u(1)])
      (use assms(6) in \<open>simp add: u(2) pass_route_def route_stale_def written_route_def\<close>)
  ultimately show ?thesis
    using u(3) by (simp add: find_aodv_route_eq [OF routes_okD(1) [OF u(1)]] w(2)) (simp add: written_route_def)
qed

theorem update_aodv_route_learns_witness:
  "fst (find_aodv_route demo_env 0xc0a80007
      (snd (update_aodv_route demo_env 0xc0a80007 0xc0a80002 3 8 (Some wlan0) node))) = Some 20
   \<and> q_list (snd (update_aodv_route demo_env 0xc0a80007 0xc0a80002 3 8 (Some wlan0) node)) = []"
proof -
  have "fst (find_aodv_route demo_env 0xc0a80007 node) = None" "valid_aodv_neigh demo_env 0xc0a80002 node"
    by code_simp+
  moreover have "k_allocs node = 20" "filter (\<lambda>q. \<not> ip_cmp 0xc0a80007 q) (q_list node) = []" "ke_kmalloc_ok demo_env 20"
    "\<not> ke_time_before demo_env (getcurrtime node + 3000) (getcurrtime node)"
    by (simp_all add: demo_defs ip_cmp_def getcurrtime_def)
  ultimately show ?thesis
    using update_aodv_route_learns [OF node_routes_ok, where e = demo_env and ip = "0xc0a80007"
      and nh = "0xc0a80002" and metric = 3 and seq = 8 and dev = "Some wlan0"]
    by simp
qed

section \<open>Expiry\<close>

lemma flush_route_loop_out:
  "\<forall>n. ke_kmalloc_ok e n \<Longrightarrow>
   k_out (snd (flush_route_loop e now rs s)) = k_out s
     @ map (\<lambda>r. RtDel (rt_ip r AND rt_netmask r) (rt_netmask r)) (filter (\<lambda>r. flush_route e now r = None) (nl_vals rs))"
  by (induction e now rs s rule: flush_route_loop.induct)
    (simp_all add: case_prod_beta flush_route_def delete_kernel_route_entry_eq)

lemma flush_table_routes:
  "a_routes (snd (flush_aodv_route_table e s)) =
     List.map_filter (\<lambda>(a, r). map_option (Pair a) (flush_route e (getcurrtime s) r)) (a_routes s)"
  by (simp add: flush_aodv_route_table_def case_prod_beta flush_route_loop_map)

text \<open>C33. The periodic \<open>flush_aodv_route_table\<close>: entries that are not stale, and the node's own, stay
  as they are; a stale valid route is expired in place, for DELETE_PERIOD; a stale invalid
  one is removed, and exactly the removed ones are deleted from the kernel's table, in order.\<close>

theorem flush_aodv_route_table_spec:
  assumes "\<forall>n. ke_kmalloc_ok e n" "now = getcurrtime s" "t = snd (flush_aodv_route_table e s)"
  shows "a_routes t = List.map_filter (\<lambda>(a, r).
      if rt_self r \<or> \<not> ke_time_before e (rt_lifetime r) now then Some (a, r)
      else if rt_valid r then Some (a, r\<lparr>rt_lifetime := now + 2000, rt_seq := rt_seq r + 1, rt_valid := False\<rparr>)
      else None) (a_routes s)
    \<and> k_out t = k_out s @ map (\<lambda>r. RtDel (rt_ip r AND rt_netmask r) (rt_netmask r))
        (filter (\<lambda>r. \<not> rt_self r \<and> ke_time_before e (rt_lifetime r) now \<and> \<not> rt_valid r) (nl_vals (a_routes s)))"
proof -
  have 1: "(\<lambda>(a, r). map_option (Pair a) (flush_route e now r)) = (\<lambda>(a, r).
      if rt_self r \<or> \<not> ke_time_before e (rt_lifetime r) now then Some (a, r)
      else if rt_valid r then Some (a, r\<lparr>rt_lifetime := now + 2000, rt_seq := rt_seq r + 1, rt_valid := False\<rparr>)
      else None)"
    by (auto simp: fun_eq_iff flush_route_def route_stale_def expire_aodv_route_def)
  have 2: "(\<lambda>r. flush_route e now r = None) =
      (\<lambda>r. \<not> rt_self r \<and> ke_time_before e (rt_lifetime r) now \<and> \<not> rt_valid r)"
    by (auto simp: fun_eq_iff flush_route_def route_stale_def)
  have 3: "k_out t = k_out (snd (flush_route_loop e now (a_routes s) s))"
    unfolding assms(2,3) by (simp add: flush_aodv_route_table_def case_prod_beta)
  have 4: "a_routes t = List.map_filter (\<lambda>(a, r). map_option (Pair a) (flush_route e now r)) (a_routes s)"
    unfolding assms(2,3) by (rule flush_table_routes)
  show ?thesis
    unfolding 3 4 1 [symmetric] 2 [symmetric] flush_route_loop_out [OF assms(1)] by simp
qed

theorem flush_aodv_route_table_spec_witness:
  "nl_addrs (a_routes (snd (flush_aodv_route_table demo_env (node\<lparr>k_time := \<lparr>tv_sec = 1004, tv_usec = 0\<rparr>\<rparr>)))) = [2, 11, 16]
   \<and> k_out (snd (flush_aodv_route_table demo_env (node\<lparr>k_time := \<lparr>tv_sec = 1004, tv_usec = 0\<rparr>\<rparr>))) = k_out node"
proof -
  let ?s = "node\<lparr>k_time := \<lparr>tv_sec = 1004, tv_usec = 0\<rparr>\<rparr>"
  have k: "\<forall>n. ke_kmalloc_ok demo_env n" by (simp add: demo_env_def)
  have now: "getcurrtime ?s = 1004000" by (simp add: getcurrtime_def)
  show ?thesis
    using flush_aodv_route_table_spec [OF k refl refl, of ?s]
    unfolding now by (simp add: demo_defs List.map_filter_simps)
qed

text \<open>A route dies in two steps. The first flush after its lifetime invalidates it and keeps it;
  a later flush keeps the invalid entry, untouched, as long as DELETE_PERIOD has not passed
  since, and removes it afterwards.\<close>

theorem route_dies_in_two_steps:
  assumes "distinct (nl_addrs (a_routes s))" "(a, r) \<in> set (a_routes s)" "rt_valid r" "\<not> rt_self r"
    "ke_time_before e (rt_lifetime r) (getcurrtime s)"
    and t: "a_routes t = a_routes (snd (flush_aodv_route_table e s))"
  shows "\<exists>r'. (a, r') \<in> set (a_routes t) \<and> \<not> rt_valid r' \<and> rt_lifetime r' = getcurrtime s + 2000
    \<and> (if ke_time_before e (getcurrtime s + 2000) (getcurrtime t)
       then a \<notin> set (nl_addrs (a_routes (snd (flush_aodv_route_table e t))))
       else (a, r') \<in> set (a_routes (snd (flush_aodv_route_table e t))))"
proof -
  have mf: "(b, x) \<in> set (List.map_filter (\<lambda>(a, r). map_option (Pair a) (f r)) rs) \<longleftrightarrow> (\<exists>q. (b, q) \<in> set rs \<and> f q = Some x)"
    for b x and f :: "aodv_route \<Rightarrow> aodv_route option" and rs :: "aodv_route nodes"
    by (induction rs) (auto simp: List.map_filter_simps split: option.splits)
  let ?r = "expire_aodv_route (getcurrtime s) r"
  have r: "flush_route e (getcurrtime s) r = Some ?r"
    using assms(3-5) by (simp add: flush_route_def route_stale_def)
  then have in_t: "(a, ?r) \<in> set (a_routes t)"
    using assms(2) unfolding t flush_table_routes mf by blast
  have d: "distinct (nl_addrs (a_routes t))"
    unfolding t flush_table_routes by (rule map_filter_addrs(2) [OF assms(1)])
  then have u: "q = ?r" if "(a, q) \<in> set (a_routes t)" for q
    using nl_get_in [OF that d] nl_get_in [OF in_t d] by simp
  have "rt_lifetime ?r = getcurrtime s + 2000" by (simp add: expire_aodv_route_def)
  then have f: "flush_route e (getcurrtime t) ?r =
      (if ke_time_before e (getcurrtime s + 2000) (getcurrtime t) then None else Some ?r)"
    using assms(4) by (simp add: flush_route_def route_stale_def)
  have "a \<notin> set (nl_addrs (a_routes (snd (flush_aodv_route_table e t))))"
    if "ke_time_before e (getcurrtime s + 2000) (getcurrtime t)"
  proof
    assume "a \<in> set (nl_addrs (a_routes (snd (flush_aodv_route_table e t))))"
    then obtain x where "(a, x) \<in> set (a_routes (snd (flush_aodv_route_table e t)))"
      by (auto simp: nl_addrs_def)
    then obtain q where "(a, q) \<in> set (a_routes t)" "flush_route e (getcurrtime t) q = Some x"
      unfolding flush_table_routes mf by blast
    then show False using u f that by simp
  qed
  moreover have "(a, ?r) \<in> set (a_routes (snd (flush_aodv_route_table e t)))"
    if "\<not> ke_time_before e (getcurrtime s + 2000) (getcurrtime t)"
    unfolding flush_table_routes mf using in_t f that by auto
  ultimately show ?thesis using in_t by (intro exI [of _ ?r]) (simp add: expire_aodv_route_def)
qed

theorem route_dies_in_two_steps_witness:
  "\<exists>t. k_time t = \<lparr>tv_sec = 1010, tv_usec = 0\<rparr> \<and> 16 \<in> set (nl_addrs (a_routes t))
     \<and> 16 \<notin> set (nl_addrs (a_routes (snd (flush_aodv_route_table demo_env t))))"
proof -
  let ?s = "node\<lparr>k_time := \<lparr>tv_sec = 1004, tv_usec = 0\<rparr>\<rparr>"
  let ?t = "(snd (flush_aodv_route_table demo_env ?s))\<lparr>k_time := \<lparr>tv_sec = 1010, tv_usec = 0\<rparr>\<rparr>"
  have now: "getcurrtime ?s = 1004000" "getcurrtime ?t = 1010000" by (simp_all add: getcurrtime_def)
  have "distinct (nl_addrs (a_routes ?s))" "(16, demo_route 0xc0a80009 0xc0a80002 2 4) \<in> set (a_routes ?s)"
    by (simp_all add: demo_defs)
  then obtain r' where "(16, r') \<in> set (a_routes ?t)"
    "if ke_time_before demo_env (getcurrtime ?s + 2000) (getcurrtime ?t)
     then 16 \<notin> set (nl_addrs (a_routes (snd (flush_aodv_route_table demo_env ?t))))
     else (16, r') \<in> set (a_routes (snd (flush_aodv_route_table demo_env ?t)))"
    using route_dies_in_two_steps [of ?s 16 "demo_route 0xc0a80009 0xc0a80002 2 4" demo_env ?t]
    by (force simp: now demo_route_def demo_env_def)
  then show ?thesis
    unfolding now by (intro exI [of _ ?t]) (auto simp: demo_env_def intro: nl_addrs_in)
qed

section \<open>Held packets\<close>

text \<open>C32. The loops of the packet queue, which search the whole list again after every packet, serve
  exactly the packets they are for, once each and in the order of arrival, and leave the others in
  order: a found route releases the packets for its destination, a failed discovery drops them
  with an ICMP error, a device going down drops what came or goes through it, unloading
  drops everything. The length field stays the number of packets held, within its bound.\<close>

theorem packet_queue_served:
  assumes "queue_ok s"
  shows "q_list (ipq_send_ip ip s) = filter (\<lambda>q. \<not> ip_cmp ip q) (q_list s)
    \<and> k_out (ipq_send_ip ip s) = k_out s
        @ concat (map (\<lambda>q. [RouteHarder (qe_id q), Reinject (qe_id q) NF_ACCEPT]) (filter (ip_cmp ip) (q_list s)))
    \<and> q_list (ipq_drop_ip ip s) = filter (\<lambda>q. \<not> ip_cmp ip q) (q_list s)
    \<and> k_out (ipq_drop_ip ip s) = k_out s
        @ concat (map (\<lambda>q. [IcmpUnreach (qe_id q), Reinject (qe_id q) NF_DROP]) (filter (ip_cmp ip) (q_list s)))
    \<and> q_list (ipq_receive_event 2 dev s) = filter (\<lambda>q. \<not> dev_cmp (nd_ifindex dev) q) (q_list s)
    \<and> k_out (ipq_receive_event 2 dev s) = k_out s
        @ map (\<lambda>q. Reinject (qe_id q) NF_DROP) (filter (dev_cmp (nd_ifindex dev)) (q_list s))
    \<and> q_list (ipq_flush s) = [] \<and> k_out (ipq_flush s) = k_out s @ map (\<lambda>q. Reinject (qe_id q) NF_DROP) (q_list s)
    \<and> (\<forall>u \<in> {ipq_send_ip ip s, ipq_drop_ip ip s, ipq_receive_event 2 dev s, ipq_flush s}.
          q_len u = int (length (q_list u)) \<and> q_len u \<le> q_maxlen u)"
proof -
  have c: "concat (map (\<lambda>q. [f q]) qs) = map f qs" for f :: "qentry \<Rightarrow> kevent" and qs by (induction qs) simp_all
  have "queue_ok (ipq_receive_event 2 dev s)"
    using queue_ok_preserved(3) [OF assms] by (simp add: ipq_receive_event_def)
  then show ?thesis
    using queue_ok_preserved(1,2,4) [OF assms, unfolded queue_ok_def]
    by (simp add: queue_ok_def ipq_send_ip_eq ipq_drop_ip_eq ipq_dev_drop_eq ipq_flush_eq ipq_receive_event_def c)
qed

theorem packet_queue_served_witness:
  "q_list (ipq_send_ip 0xc0a80007 node) = []
   \<and> k_out (ipq_send_ip 0xc0a80007 node) = [RouteHarder 1, Reinject 1 NF_ACCEPT, RouteHarder 2, Reinject 2 NF_ACCEPT]"
proof -
  have "queue_ok node" using node_ok by (simp add: tables_ok_def)
  from packet_queue_served [OF this, of "0xc0a80007"] show ?thesis
    by (simp add: demo_defs ip_cmp_def)
qed

end
