(* ===== verification/AodvProps.thy ===== *)
theory AodvProps
  imports RouteProps
begin

unbundle bit_operations_syntax

text \<open>
  The properties of the routing module's tasks and timers, its entry points and its thread, and
  the invariant of every state it reaches.
\<close>

section \<open>Reachable states\<close>

text \<open>C6. Once the module has been loaded successfully, and after any sequence of incoming, outgoing and
  queued packets, timer interrupts, turns of the thread, devices going down and clock ticks: the route
  table and the neighbour list are ordered by address and no block is in them twice, no
  address has two neighbours, the timer queue and the flood queue hold no block twice, and
  the packet queue's length is right and within its bound.\<close>

theorem aodv_reachable_tables:
  assumes "blank s" "fst (aodv_init_module e dev gw sub qs sc nd ifas s) = 0"
    and "aodv_reach e (snd (aodv_init_module e dev gw sub qs sc nd ifas s)) t"
  shows "sorted_by rt_ip (a_routes t) \<and> distinct (nl_addrs (a_routes t @ a_loose t))
    \<and> sorted_by nb_ip (a_neighs t) \<and> distinct (map nb_ip (nl_vals (a_neighs t))) \<and> distinct (nl_addrs (a_neighs t))
    \<and> distinct (nl_addrs (a_timers t)) \<and> distinct (nl_addrs (a_floods t))
    \<and> q_len t = int (length (q_list t)) \<and> q_len t \<le> q_maxlen t"
  using reach_tables [OF assms(3) init_module_tables [OF assms(1,2)]]
  by (simp add: tables_ok_def routes_ok_def route_addrs_def neighs_ok_def queue_ok_def timers_ok_def floods_ok_def)

theorem aodv_reachable_tables_witness:
  "sorted_by rt_ip (a_routes met) \<and> distinct (map nb_ip (nl_vals (a_neighs met))) \<and> q_len met \<le> q_maxlen met"
proof -
  have 0: "blank unloaded" by (simp add: blank_def unloaded_def)
  have 1: "fst (aodv_init_module demo_env (Some ''wlan0'') 0 None 0 (\<lambda>_. Inr 77) (Some wlan0)
      (Some [\<lparr>ifa_address = 0xc0a80001, ifa_mask = 0xffffff00\<rparr>]) unloaded) = 0"
    unfolding demo_load_def [symmetric] by code_simp
  have "aodv_reach demo_env loaded met"
    unfolding met_def arrives_def by (intro reach_step [OF reach_step [OF reach_refl step_in] step_thread])
  from aodv_reachable_tables [OF 0 1 this [unfolded loaded_def demo_load_def]] show ?thesis by simp
qed

text \<open>C8. What waits in the task queue is well typed. In every state the loaded module reaches, a task of the types 1 to 4
  carries a copy of a message whose first byte is that type and whose length is the one the type asks for, which for a route
  error depends on the count of lost routes within the message: no handler reads past the end of its message. Every
  other task is a timer, of a type from 100 on and without a message.\<close>

theorem task_queue_typed:
  assumes "blank s" "fst (aodv_init_module e dev gw sub qs sc nd ifas s) = 0"
    and "aodv_reach e (snd (aodv_init_module e dev gw sub qs sc nd ifas s)) t" "(a, k) \<in> set (a_tasks t)"
  shows "case tk_data k of None \<Rightarrow> 100 \<le> tk_type k
    | Some (b, bs) \<Rightarrow> tk_type k \<in> {1, 2, 3, 4} \<and> uint (bs ! 0) = tk_type k \<and> tk_data_len k = length bs
        \<and> length bs = (if tk_type k = 1 then 24 else if tk_type k = 2 then 20
            else if tk_type k = 3 then 4 + 8 * unat (bs ! 3) else 1)"
proof -
  have "tasks_typed (snd (aodv_init_module e dev gw sub qs sc nd ifas s))"
    using init_module_no_tasks [OF assms(1,2)] by (simp add: tasks_typed_def)
  from reach_typed [OF assms(3) init_module_tables [OF assms(1,2)] this] have "task_typed k"
    using assms(4) by (force simp: tasks_typed_def nl_vals_def)
  then show ?thesis
    by (cases "tk_data k") (simp_all add: task_typed_def rerr_count_def case_prod_beta)
qed

theorem task_queue_typed_witness:
  "\<exists>a k b bs. a_tasks (snd (input_handler demo_env (hello_from 0xc0a80002) wlan0 loaded)) = [(a, k)]
     \<and> tk_data k = Some (b, bs) \<and> tk_type k = 2 \<and> length bs = 20"
proof -
  let ?t = "snd (input_handler demo_env (hello_from 0xc0a80002) wlan0 loaded)"
  have 0: "blank unloaded" by (simp add: blank_def unloaded_def)
  have 1: "fst (aodv_init_module demo_env (Some ''wlan0'') 0 None 0 (\<lambda>_. Inr 77) (Some wlan0)
      (Some [\<lparr>ifa_address = 0xc0a80001, ifa_mask = 0xffffff00\<rparr>]) unloaded) = 0"
    unfolding demo_load_def [symmetric] by code_simp
  have r: "aodv_reach demo_env loaded ?t" by (intro reach_step [OF reach_refl step_in])
  have "length (a_tasks ?t) = 1" "tk_type (snd (hd (a_tasks ?t))) = 2" "tk_data (snd (hd (a_tasks ?t))) \<noteq> None"
    by code_simp+
  then obtain a k where k: "a_tasks ?t = [(a, k)]" "tk_type k = 2" "tk_data k \<noteq> None"
    by (cases "a_tasks ?t") auto
  then have "(a, k) \<in> set (a_tasks ?t)" by simp
  from task_queue_typed [OF 0 1 r [unfolded loaded_def demo_load_def] this [unfolded loaded_def demo_load_def]] k
  show ?thesis by auto
qed

section \<open>Timers\<close>

text \<open>C34. What the kernel timer does to the timer queue, which \<open>queue_timer\<close> keeps in order of time: it
  moves exactly the tasks that are due, in order, to the end of the task queue, leaves the others, and
  sets the kernel timer again exactly when a task is left.\<close>

theorem timer_queue_signal_due:
  assumes "time_macros e" "time_window e T" "getcurrtime s \<in> T" "tk_time ` set (nl_vals (a_timers s)) \<subseteq> T"
    "sorted_by tk_time (a_timers s)"
  shows "a_tasks (timer_queue_signal e s) = a_tasks s @ filter (\<lambda>n. tk_time (snd n) \<le> getcurrtime s) (a_timers s)
    \<and> a_timers (timer_queue_signal e s) = filter (\<lambda>n. \<not> tk_time (snd n) \<le> getcurrtime s) (a_timers s)
    \<and> k_timer_pending (timer_queue_signal e s) = (a_timers (timer_queue_signal e s) \<noteq> [])"
proof -
  define n where "n = Suc (length (a_timers s))"
  have P: "ke_time_before_eq e (tk_time x) (getcurrtime s) \<longleftrightarrow> tk_time x \<le> getcurrtime s"
    if "x \<in> set (nl_vals (a_timers s))" for x
    using assms(1-4) that by (auto simp: time_macros_def time_window_def)
  have "takeWhile (\<lambda>n. ke_time_before_eq e (tk_time (snd n)) (getcurrtime s)) (a_timers s)
        = filter (\<lambda>n. ke_time_before_eq e (tk_time (snd n)) (getcurrtime s)) (a_timers s)
      \<and> dropWhile (\<lambda>n. ke_time_before_eq e (tk_time (snd n)) (getcurrtime s)) (a_timers s)
        = filter (\<lambda>n. \<not> ke_time_before_eq e (tk_time (snd n)) (getcurrtime s)) (a_timers s)"
    by (rule takeWhile_sorted [OF assms(5)]) (use P in auto)
  moreover have "filter (\<lambda>n. ke_time_before_eq e (tk_time (snd n)) (getcurrtime s)) (a_timers s)
      = filter (\<lambda>n. tk_time (snd n) \<le> getcurrtime s) (a_timers s)"
    "filter (\<lambda>n. \<not> ke_time_before_eq e (tk_time (snd n)) (getcurrtime s)) (a_timers s)
      = filter (\<lambda>n. \<not> tk_time (snd n) \<le> getcurrtime s) (a_timers s)"
    by (intro filter_cong refl; use P in \<open>force simp: nl_vals_def\<close>)+
  moreover have "a_timers (signal_loop e (getcurrtime s) n s) = snd (due_loop e tk_time (getcurrtime s) (a_timers s))"
    "a_tasks (signal_loop e (getcurrtime s) n s) = a_tasks s @ fst (due_loop e tk_time (getcurrtime s) (a_timers s))"
    using signal_loop_moves [of s n e "getcurrtime s"] by (simp_all add: n_def del: signal_loop.simps)
  moreover have "a_timers (timer_queue_signal e s) = a_timers (signal_loop e (getcurrtime s) n s)"
    "a_tasks (timer_queue_signal e s) = a_tasks (signal_loop e (getcurrtime s) n s)"
    unfolding timer_queue_signal_def n_def [symmetric]
    by (simp_all add: update_timer_queue_def arm_timer_def emit_def Let_def split: list.split)
  moreover have "k_timer_pending (timer_queue_signal e s) = (a_timers (signal_loop e (getcurrtime s) n s) \<noteq> [])"
    unfolding timer_queue_signal_def n_def [symmetric] by (simp del: signal_loop.simps)
  ultimately show ?thesis by (simp add: due_loop_takeWhile)
qed

theorem timer_queue_signal_due_witness:
  "a_tasks (timer_queue_signal demo_env (node\<lparr>a_timers := [demo_timer 4 999000, demo_timer 5 1000000, demo_timer 6 1000001]\<rparr>))
     = [demo_timer 4 999000, demo_timer 5 1000000]"
proof -
  let ?s = "node\<lparr>a_timers := [demo_timer 4 999000, demo_timer 5 1000000, demo_timer 6 1000001]\<rparr>"
  have "time_macros demo_env" "time_window demo_env UNIV"
    by (auto simp: time_macros_def time_window_def demo_env_def)
  moreover have "sorted_by tk_time (a_timers ?s)" by (simp add: demo_timer_def)
  ultimately have "a_tasks (timer_queue_signal demo_env ?s)
      = a_tasks ?s @ filter (\<lambda>n. tk_time (snd n) \<le> getcurrtime ?s) (a_timers ?s)"
    using timer_queue_signal_due [of demo_env UNIV ?s] by simp
  moreover have "getcurrtime ?s = 1000000" "a_tasks ?s = []" by (simp_all add: demo_defs getcurrtime_def)
  ultimately show ?thesis by (simp add: demo_timer_def)
qed

text \<open>\<open>insert_timer\<close> puts a task of the given kind and address into the timer queue, due the
  given number of milliseconds from now, loses none and keeps the queue in order of time; a
  failed allocation is reported and leaves the queue alone.\<close>

theorem insert_timer_ordered:
  assumes "time_macros e" "time_window e T" "getcurrtime s + ucast delay \<in> T"
    "tk_time ` set (nl_vals (a_timers s)) \<subseteq> T" "sorted_by tk_time (a_timers s)"
    and "t = snd (insert_timer e kind delay ip s)"
  shows "if ke_kmalloc_ok e (k_allocs s)
    then fst (insert_timer e kind delay ip s) = 0 \<and> sorted_by tk_time (a_timers t)
      \<and> (\<exists>k. set (a_timers t) = insert (k_allocs s, k) (set (a_timers s)) \<and> tk_type k = uint kind
           \<and> tk_time k = getcurrtime s + ucast delay \<and> tk_src_ip k = ip \<and> tk_id k = ip)
    else fst (insert_timer e kind delay ip s) = - 12 \<and> a_timers t = a_timers s"
proof (cases "ke_kmalloc_ok e (k_allocs s)")
  case True
  define k where "k = (new_task e (uint kind) (k_allocs s) (getcurrtime s))
    \<lparr>tk_src_ip := ip, tk_dst_ip := ip, tk_id := ip, tk_time := getcurrtime s + ucast delay\<rparr>"
  have t: "a_timers t = link_timer e tk_time (k_allocs s, k) (a_timers s)" "fst (insert_timer e kind delay ip s) = 0"
    using True assms(6) by (simp_all add: insert_timer_def create_task_def kmalloc_def queue_timer_def k_def)
  have k: "tk_type k = uint kind" "tk_time k = getcurrtime s + ucast delay" "tk_src_ip k = ip" "tk_id k = ip"
    by (simp_all add: k_def new_task_def)
  have "a_timers t = nl_insert tk_time (k_allocs s, k) (a_timers s)"
    unfolding t(1) by (rule link_timer_insert [OF assms(1,2)]) (use assms(3,4) k in auto)
  then show ?thesis using True t(2) k sorted_nl_insert [OF assms(5)] by auto
next
  case False
  then show ?thesis using assms(6) by (simp add: insert_timer_def create_task_def kmalloc_def)
qed

theorem insert_timer_ordered_witness:
  "sorted_by tk_time (a_timers (snd (insert_timer demo_env 103 50 0xc0a80002
      (node\<lparr>a_timers := [demo_timer 4 999000, demo_timer 6 1000100]\<rparr>))))"
proof -
  let ?s = "node\<lparr>a_timers := [demo_timer 4 999000, demo_timer 6 1000100]\<rparr>"
  have "time_macros demo_env" "time_window demo_env UNIV" "ke_kmalloc_ok demo_env (k_allocs ?s)"
    by (auto simp: time_macros_def time_window_def demo_env_def)
  moreover have "sorted_by tk_time (a_timers ?s)" by (simp add: demo_timer_def)
  ultimately show ?thesis
    using insert_timer_ordered [of demo_env UNIV ?s 50 "snd (insert_timer demo_env 103 50 0xc0a80002 ?s)" 103 "0xc0a80002"]
    by simp
qed

text \<open>The back-off before a route request is repeated. \<open>2 ^ (RREQ_RETRIES - retries)\<close> reads as the
  doubling of AODV, 800, 1600 and 3200 milliseconds, but in C it is an exclusive or: the delays
  are 1600, 2400 and 0 milliseconds, so the last timer of a discovery is due at once.\<close>

theorem rreq_backoff_delays:
  "map rreq_backoff [2, 1, 0] = [1600, 2400, 0]"
  by (simp add: rreq_backoff_def)

section \<open>Packets\<close>

text \<open>C35. The messages survive the wire: a route request or reply converted to network order and
  written out is read back as it was, up to the width of its reserved bits. A route error of n
  destinations is read back destination by destination, but its count is a byte, so the receiver
  takes it for valid exactly when n is below 256.\<close>

theorem aodv_wire_roundtrip:
  "convert_rreq_to_host e (bytes_rreq (ke_big_endian e) (rreq_bytes (ke_big_endian e) (convert_rreq_to_network e q)))
     = q\<lparr>rq_reserved := rq_reserved q AND 7\<rparr>
   \<and> convert_rrep_to_host e (bytes_rrep (ke_big_endian e) (rrep_bytes (ke_big_endian e) (convert_rrep_to_network e p)))
     = p\<lparr>rp_reserved1 := rp_reserved1 p AND 127\<rparr>
   \<and> map (rerr_dst_at (ke_big_endian e) (rerr_message e ds)) [0 ..< length ds] = ds
   \<and> (fst (valid_aodv_packet (int (length (rerr_message e ds))) (rerr_message e ds ! 0) (rerr_message e ds ! 3) s)
        \<longleftrightarrow> length ds < 256)"
proof -
  have "map (rerr_dst_at (ke_big_endian e) (rerr_message e ds)) [0 ..< length ds] = ds"
    by (rule nth_equalityI) (simp_all add: rerr_message_def rerr_dst_at_bytes)
  moreover have "rerr_message e ds ! 0 = 3" "rerr_message e ds ! 3 = of_nat (length ds)"
    "length (rerr_message e ds) = 4 + 8 * length ds"
    by (simp_all add: rerr_message_def rerr_bytes_def Let_def)
  moreover have "int n = uint (of_nat n :: u8) \<longleftrightarrow> n < 256" for n
  proof -
    have "uint (of_nat n :: u8) = int (n mod 256)" by (simp add: uint_nat unsigned_of_nat take_bit_eq_mod)
    then show ?thesis by simp (metis mod_less mod_less_divisor zero_less_numeral)
  qed
  ultimately show ?thesis
    by (simp add: convert_rreq_to_host_def convert_rreq_to_network_def convert_rrep_to_host_def
        convert_rrep_to_network_def valid_aodv_packet_def)
qed

text \<open>\<open>packet_in\<close> accepts a packet exactly when its length is the one its type byte (and, for a
  route error, its count byte) asks for. A rejected packet leaves no task. An accepted one, unless an
  allocation fails, appends one task with the packet's source, TTL, device and the bytes of the message.\<close>

theorem packet_in_queues:
  assumes "ty = skb_byte p 28" "n = int (sk_len p) - 28"
    and "valid = (ty = 1 \<and> n = 24 \<or> ty = 2 \<and> n = 20 \<or> ty = 3 \<and> n = 4 + 8 * uint (skb_byte p 31) \<or> ty = 4 \<and> n = 1)"
    and "t = snd (packet_in e p s)"
  shows "fst (packet_in e p s) = (if valid then NF_ACCEPT else NF_DROP)
    \<and> (\<not> valid \<longrightarrow> t = s)
    \<and> (valid \<and> ke_kmalloc_ok e (k_allocs s) \<and> ke_kmalloc_ok e (Suc (k_allocs s)) \<longrightarrow>
        (\<exists>k b. a_tasks t = a_tasks s @ [(k_allocs s, k)] \<and> tk_type k = uint ty \<and> tk_src_ip k = sk_saddr p
          \<and> tk_ttl k = sk_ttl p \<and> tk_dev k = Some (sk_dev p)
          \<and> tk_data k = Some (b, skb_bytes p 28 (sk_len p - 28))))"
proof -
  obtain ok s1 where v: "valid_aodv_packet n ty (skb_byte p 31) s = (ok, s1)" by fastforce
  have ok: "ok = valid" "a_tasks s1 = a_tasks s" "k_allocs s1 = k_allocs s" "\<not> valid \<Longrightarrow> s1 = s"
    using v assms(3) by (auto simp: valid_aodv_packet_def split: if_splits)
  have p: "packet_in e p s = (if ok then (NF_ACCEPT, snd (insert_task e (uint ty) p s1)) else (NF_DROP, s1))"
    using v assms(1,2) by (simp add: packet_in_def)
  have "uint ty < 100" if valid using that assms(3) by auto
  moreover have "\<exists>k b. a_tasks (snd (insert_task e y p s1)) = a_tasks s @ [(k_allocs s, k)] \<and> tk_type k = y
      \<and> tk_src_ip k = sk_saddr p \<and> tk_ttl k = sk_ttl p \<and> tk_dev k = Some (sk_dev p)
      \<and> tk_data k = Some (b, skb_bytes p 28 (sk_len p - 28))"
    if "y < 100" "ke_kmalloc_ok e (k_allocs s)" "ke_kmalloc_ok e (Suc (k_allocs s))" for y
    using that ok by (simp add: insert_task_def create_task_def kmalloc_def queue_aodv_task_def Let_def new_task_def emit_def)
  ultimately show ?thesis unfolding assms(4) p using ok by auto
qed

theorem packet_in_queues_witness:
  "fst (packet_in demo_env (hello_from 0xc0a80002) node) = NF_ACCEPT
   \<and> (\<exists>k b. a_tasks (snd (packet_in demo_env (hello_from 0xc0a80002) node)) = [(20, k)] \<and> tk_type k = 2)"
proof -
  have "skb_byte (hello_from 0xc0a80002) 28 = 2" by (simp add: hello_from_def aodv_packet_def skb_byte_def rrep_bytes_def nth_append)
  moreover have "sk_len (hello_from 0xc0a80002) = 48" by (simp add: hello_from_def aodv_packet_def)
  moreover have "k_allocs node = 20" "a_tasks node = []" "\<And>n. ke_kmalloc_ok demo_env n" by (simp_all add: demo_defs)
  ultimately show ?thesis
    using packet_in_queues [OF refl refl refl refl, where p = "hello_from 0xc0a80002" and e = demo_env and s = node] by auto
qed

end
