(* ===== verification/HandlerProps.thy ===== *)
theory HandlerProps
  imports RouteProps
begin

unbundle bit_operations_syntax

text \<open>
  The properties of the handlers of the routing module: requests, replies, errors, hellos, lost
  neighbours and outgoing packets.
\<close>

section \<open>Lemmas\<close>

text \<open>What the handlers of requests leave of the flood queue.\<close>

lemma update_route_frame:
  "a_floods (snd (update_aodv_route e ip nh m sq d s)) = a_floods s"
  "a_neighs (snd (update_aodv_route e ip nh m sq d s)) = a_neighs s"
  "a_timers (snd (update_aodv_route e ip nh m sq d s)) = a_timers s"
proof -
  let ?f = "\<lambda>s. (a_floods s, a_neighs s, a_timers s)"
  have w: "?f (write_route e ip p nh m sq d s) = ?f s" for p s
  proof (cases "route_get p s")
    case None
    then show ?thesis by (simp add: write_route_def route_upd_def Let_def route_get_def)
  next
    case (Some r)
    then show ?thesis by (simp add: write_route_eq)
  qed
  obtain p s1 where f: "find_aodv_route e ip s = (p, s1)" by fastforce
  have s1: "?f s1 = ?f s" using find_aodv_route_frame [where s = s and e = e and t = ip] f by simp
  obtain q s2 where c: "create_aodv_route e ip s1 = (q, s2)" by fastforce
  have "?f s2 = ?f s1" using create_route_fields [where s = s1 and e = e and ip = ip] c by simp
  with s1 w have "?f (snd (update_aodv_route e ip nh m sq d s)) = ?f s"
    by (auto simp: update_aodv_route_def f c split: option.splits)
  then show "a_floods (snd (update_aodv_route e ip nh m sq d s)) = a_floods s"
    "a_neighs (snd (update_aodv_route e ip nh m sq d s)) = a_neighs s"
    "a_timers (snd (update_aodv_route e ip nh m sq d s)) = a_timers s" by simp_all
qed

lemma create_route_floods: "a_floods (snd (create_aodv_route e ip s)) = a_floods s"
  by (simp add: create_route_fields)

lemma reply_floods: "a_floods (snd (reply_to_rreq e r s)) = a_floods s"
proof -
  have d: "a_floods (deref_upd p f t) = a_floods t" for p f t by (cases p) (simp_all add: deref_upd_def)
  have g: "a_floods (snd (gateway_route e ip t)) = a_floods t" for ip t
  proof -
    obtain p t1 where c: "create_aodv_route e ip t = (p, t1)" by fastforce
    then have "a_floods t1 = a_floods t" using create_route_floods [of e ip t] by simp
    then show ?thesis by (auto simp: gateway_route_def c Let_def split: option.splits)
  qed
  have v: "a_floods (validate_route p t) = a_floods t" for p t by (simp add: validate_route_def d)
  obtain p s1 where f: "find_aodv_route e (rq_dst_ip r) s = (p, s1)" by fastforce
  have s1: "a_floods s1 = a_floods s"
    using find_aodv_route_frame [where s = s and e = e and t = "rq_dst_ip r"] f by simp
  obtain q s2 where gw: "gateway_route e (rq_dst_ip r) s1 = (q, s2)" by fastforce
  have "a_floods s2 = a_floods s1" using g [of "rq_dst_ip r" s1] gw by simp
  with s1 show ?thesis
    by (auto simp: reply_to_rreq_def f gw Let_def v d split: option.splits if_splits prod.splits)
qed

lemma gen_rrep_floods: "a_floods (snd (gen_rrep e a b s)) = a_floods s"
proof -
  obtain p s1 where f: "find_aodv_route e a s = (p, s1)" by fastforce
  obtain q s2 where f2: "find_aodv_route e b s1 = (q, s2)" by fastforce
  have "a_floods s1 = a_floods s" "a_floods s2 = a_floods s1"
    using find_aodv_route_frame [where s = s and e = e and t = a]
      find_aodv_route_frame [where s = s1 and e = e and t = b] f f2 by simp_all
  moreover have "a_floods (send_rrep e r1 r2 t) = a_floods t" for r1 r2 t
    by (simp add: send_rrep_def kmalloc_def split: option.split)
  ultimately show ?thesis by (auto simp: gen_rrep_def f f2 split: option.splits)
qed

lemma forward_floods: "a_floods (snd (forward_rreq e r ttl s)) = a_floods s"
  by (simp add: forward_rreq_def out_only_fields [OF local_broadcast_out])

section \<open>Broadcasts\<close>

text \<open>The interfaces work: every one has a socket, its TTL can be set and n bytes fit into its buffer. Then a
  broadcast sends the message once on every interface; the TTL is set on the first one only.\<close>

definition link_up :: "kenv \<Rightarrow> nat \<Rightarrow> aodv_state \<Rightarrow> bool" where
  "link_up e n s =
     (a_devs s \<noteq> [] \<and> (\<forall>d \<in> set (nl_vals (a_devs s)). dv_sock d \<noteq> None)
      \<and> (\<forall>i. 0 \<le> ke_set_ttl e i \<and> int n \<le> ke_wspace e i))"

definition broadcast_events :: "u8 \<Rightarrow> u8 list \<Rightarrow> aodv_state \<Rightarrow> kevent list" where
  "broadcast_events ttl dat s =
     SetTtl (the (dv_sock (snd (a_devs s ! 0)))) ttl
     # map (\<lambda>d. SendMsg (the (dv_sock d)) (g_broadcast_ip s) dat) (nl_vals (a_devs s))"

lemma broadcast_loop_sent:
  assumes "\<forall>i. int (length dat) \<le> ke_wspace e i"
  shows "\<forall>d \<in> set (nl_vals ds). dv_sock d \<noteq> None \<Longrightarrow>
    k_out (snd (broadcast_loop e dat ds len s)) =
      k_out s @ map (\<lambda>d. SendMsg (the (dv_sock d)) (g_broadcast_ip s) dat) (nl_vals ds)"
proof (induction ds arbitrary: len s)
  case (Cons n ds)
  then show ?case using assms by (cases n) (auto simp: sock_sendmsg_def)
qed simp

lemma local_broadcast_sent:
  assumes "link_up e (length dat) s" "ttl \<noteq> 0"
  shows "k_out (snd (local_broadcast e ttl dat s)) = k_out s @ broadcast_events ttl dat s"
proof (cases "a_devs s")
  case (Cons n ds)
  obtain a d where n: "n = (a, d)" by (cases n)
  obtain sk where sk: "dv_sock d = Some sk" using assms(1) Cons n by (auto simp: link_up_def)
  have "\<not> ttl < 1" using assms(2) by (metis word_less_1)
  moreover have "k_out (snd (broadcast_loop e dat (a_devs s) 0 (emit (SetTtl sk ttl) s))) =
      k_out s @ broadcast_events ttl dat s"
    using assms(1) Cons n sk by (subst broadcast_loop_sent) (auto simp: link_up_def broadcast_events_def)
  moreover have "\<not> ke_set_ttl e i < 0" for i using assms(1) by (simp add: link_up_def not_less)
  ultimately show ?thesis using Cons n sk by (simp add: local_broadcast_def set_ttl_def)
qed (use assms in \<open>simp add: link_up_def\<close>)

lemma demo_link_up: "n \<le> 65536 \<Longrightarrow> link_up demo_env n node"
  by (simp add: link_up_def demo_defs)

section \<open>Route requests\<close>

definition request_of :: "kenv \<Rightarrow> u8 list \<Rightarrow> rreq" where
  "request_of e bs = convert_rreq_to_host e (bytes_rreq (ke_big_endian e) bs)"

definition demo_request :: rreq where
  "demo_request =
     \<lparr>rq_type = 1, rq_j = False, rq_r = False, rq_g = True, rq_d = True, rq_u = True, rq_reserved = 0,
      rq_second_reserved = 0, rq_metric = 1, rq_rreq_id = 9, rq_dst_ip = 0xc0a80007, rq_dst_seq = 0,
      rq_src_ip = 0xc0a80009, rq_src_seq = 4\<rparr>"

definition demo_task :: "u32 \<Rightarrow> u8 list \<Rightarrow> task" where
  "demo_task src msg = (new_task demo_env 1 0 0)
     \<lparr>tk_src_ip := src, tk_ttl := 5, tk_dev := Some wlan0, tk_data := Some (21, msg)\<rparr>"

lemma demo_ttl [simp]: "1 < (5 :: u8)" "\<not> 5 \<le> (1 :: u8)"
  by code_simp+

lemma request_of_bytes: "request_of demo_env (rreq_bytes True demo_request) = demo_request"
proof -
  have "rq_reserved demo_request AND 7 = rq_reserved demo_request" by (simp add: demo_request_def)
  then show ?thesis by (simp add: request_of_def convert_rreq_to_host_def) (simp add: demo_env_def)
qed

lemma recv_rreq_floods:
  assumes "no_oom e" "tk_data k = Some (b, bs)" "1 < tk_ttl k" "q = request_of e bs"
    "find_flood_id e (rq_src_ip q) (rq_rreq_id q) s = None" "valid_aodv_neigh e (tk_src_ip k) s"
  shows "\<exists>a. a_floods (snd (recv_rreq e k s)) =
    flood_add a (rq_dst_ip q) (rq_src_ip q, rq_rreq_id q) (getcurrtime s + 1600) (a_floods s)"
proof -
  let ?q = "q\<lparr>rq_metric := rq_metric q + 1\<rparr>"
  obtain p s1 where f: "find_aodv_route e (rq_src_ip q) s = (p, s1)" by fastforce
  have s1: "a_floods s1 = a_floods s" "valid_aodv_neigh e (tk_src_ip k) s1"
    using find_aodv_route_frame [where s = s and e = e and t = "rq_src_ip q"] f assms(6)
      valid_neigh_find [of e "tk_src_ip k" "rq_src_ip q" s] by simp_all
  define s2 where "s2 = snd (update_aodv_route e (rq_src_ip q) (tk_src_ip k) (rq_metric q + 1) (rq_src_seq q) (tk_dev k) s1)"
  define s3 where "s3 = snd (insert_flood_id e (rq_src_ip q) (rq_dst_ip q) (rq_rreq_id q) (getcurrtime s + 1600) s2)"
  have s2: "a_floods s2 = a_floods s" by (simp add: s2_def update_route_frame(1) s1)
  have s3: "a_floods s3 = flood_add (k_allocs s2) (rq_dst_ip q) (rq_src_ip q, rq_rreq_id q) (getcurrtime s + 1600) (a_floods s)"
    using assms(1) by (simp add: s3_def insert_flood_id_def kmalloc_no_oom flood_add_def s2)
  obtain reply s4 where r: "reply_to_rreq e ?q s3 = (reply, s4)" by fastforce
  have s4: "a_floods s4 = a_floods s3" using reply_floods [of e ?q s3] r by simp
  have "snd (recv_rreq e k s) =
      (if reply then snd (gen_rrep e (rq_src_ip q) (rq_dst_ip q) s4) else snd (forward_rreq e ?q (uint (tk_ttl k)) s4))"
    using assms(2,3,5) f s1(2) r
    by (cases reply)
      (simp_all add: recv_rreq_def request_of_def [symmetric] assms(4) [symmetric] check_rreq_def Let_def not_le
        s2_def [symmetric] s3_def [symmetric])
  then show ?thesis using s3 s4 by (auto simp: gen_rrep_floods forward_floods)
qed

text \<open>C18. A route request is processed exactly when its TTL is not spent, its originator and number are not remembered and it
  comes from a valid neighbour; exactly then it is remembered, and the handler returns 0. Otherwise it leaves no trace: the state is
  the one before, so nothing is sent, allocated, queued or remembered and no neighbour, timer or packet changes, but for the
  case that only the neighbour is wrong, where the search for the originator has expired the stale valid routes up to its
  address that are not the node's own.\<close>

theorem recv_rreq_drops:
  assumes "no_oom e" "sorted_by rt_ip (a_routes s)" "tk_data k = Some (b, bs)" "q = request_of e bs"
    and "new = (1 < tk_ttl k \<and> find_flood_id e (rq_src_ip q) (rq_rreq_id q) s = None)"
    and "valid = valid_aodv_neigh e (tk_src_ip k) s"
  shows "((\<exists>a. a_floods (snd (recv_rreq e k s)) =
        flood_add a (rq_dst_ip q) (rq_src_ip q, rq_rreq_id q) (getcurrtime s + 1600) (a_floods s)) \<longleftrightarrow> new \<and> valid)
    \<and> fst (recv_rreq e k s) = (if new \<and> valid then 0 else if tk_ttl k \<le> 1 then - 110 else 1)
    \<and> (new \<and> valid \<or> snd (recv_rreq e k s) =
        (if new then s\<lparr>a_routes := map (apsnd (passed e (getcurrtime s) (rq_src_ip q))) (a_routes s)\<rparr> else s))"
proof -
  have v: "valid_aodv_neigh e h (s\<lparr>a_routes := x\<rparr>) = valid_aodv_neigh e h s" for h x
  proof -
    have "getcurrtime (s\<lparr>a_routes := x\<rparr>) = getcurrtime s" by (rule getcurrtime_cong) simp
    show ?thesis unfolding valid_aodv_neigh_def find_aodv_neigh_def \<open>getcurrtime _ = _\<close> by simp
  qed
  have d: "recv_rreq e k s = (if tk_ttl k \<le> 1 then - 110 else 1,
      if new then s\<lparr>a_routes := map (apsnd (pass_route e (getcurrtime s) (rq_src_ip q))) (a_routes s)\<rparr> else s)" if "\<not> (new \<and> valid)"
    using assms(3-6) that find_aodv_route_eq [OF assms(2), of e "rq_src_ip q"]
    by (auto simp: recv_rreq_def request_of_def check_rreq_def Let_def not_less v)
  have f: "\<exists>a. a_floods (snd (recv_rreq e k s)) =
      flood_add a (rq_dst_ip q) (rq_src_ip q, rq_rreq_id q) (getcurrtime s + 1600) (a_floods s)" if "new" "valid"
    using recv_rreq_floods [OF assms(1,3) _ assms(4)] that assms(5,6) by simp
  have "fst (recv_rreq e k s) = 0" if "new" "valid"
  proof -
    have "fst (check_rreq e q (tk_src_ip k) s)" using that assms(5,6) by (simp add: check_rreq_def case_prod_beta)
    then show ?thesis using assms(3-5) that by (simp add: recv_rreq_def request_of_def Let_def case_prod_beta not_le)
  qed
  moreover have "fs \<noteq> flood_add a x y z fs" for a x y z and fs :: "flood_id nodes"
    by (metis flood_add_def not_Cons_self)
  ultimately show ?thesis using d f by (cases "new \<and> valid") (auto simp: passed_eq)
qed

text \<open>One that is remembered is dropped, as is one from a stranger.\<close>

theorem recv_rreq_drops_witness:
  "recv_rreq demo_env (demo_task 0xc0a80002 (rreq_bytes True demo_request)) node = (1, node)
   \<and> fst (recv_rreq demo_env (demo_task 0xc0a80077 (rreq_bytes True demo_request)) (node\<lparr>a_floods := []\<rparr>)) = 1
   \<and> fst (recv_rreq demo_env (demo_task 0xc0a80002 (rreq_bytes True demo_request)) (node\<lparr>a_floods := []\<rparr>)) = 0"
proof -
  let ?k = "\<lambda>ip. demo_task ip (rreq_bytes True demo_request)"
  have seen: "find_flood_id demo_env (rq_src_ip demo_request) (rq_rreq_id demo_request) node \<noteq> None"
    by (simp add: find_flood_id_def demo_request_def) (simp add: demo_defs)
  have o: "sorted_by rt_ip (a_routes node)" "sorted_by rt_ip (a_routes (node\<lparr>a_floods := []\<rparr>))"
    using node_ok by (simp_all add: tables_ok_def routes_ok_def)
  have v: "valid_aodv_neigh demo_env 0xc0a80002 (node\<lparr>a_floods := []\<rparr>)"
      "\<not> valid_aodv_neigh demo_env 0xc0a80077 (node\<lparr>a_floods := []\<rparr>)" by code_simp+
  have k: "tk_data (?k ip) = Some (21, rreq_bytes True demo_request)" "tk_ttl (?k ip) = 5" "tk_src_ip (?k ip) = ip" for ip
    by (simp_all add: demo_task_def)
  note d = recv_rreq_drops [OF demo_no_oom _ _ request_of_bytes [symmetric] refl refl]
  have "recv_rreq demo_env (?k 0xc0a80002) node = (1, node)"
    using d [OF o(1) k(1) [of "0xc0a80002"]] seen by (simp add: k prod_eq_iff)
  moreover have "fst (recv_rreq demo_env (?k 0xc0a80077) (node\<lparr>a_floods := []\<rparr>)) = 1"
    using d [OF o(2) k(1) [of "0xc0a80077"]] v(2) by (simp add: k)
  moreover have "fst (recv_rreq demo_env (?k 0xc0a80002) (node\<lparr>a_floods := []\<rparr>)) = 0"
    using d [OF o(2) k(1) [of "0xc0a80002"]] v(1) by (simp add: k find_flood_id_def)
  ultimately show ?thesis by simp
qed

text \<open>C17. A route request is processed once. After it has been accepted, every further copy of it, by whatever
  neighbour and with whatever hop count, is dropped without effect: in every state the module
  reaches through any packets, timers, turns of the thread and clock ticks, as long as the clock
  stays within PATH_DISCOVERY_TIME of the first copy and does not run backwards.\<close>

theorem recv_rreq_once:
  assumes "no_oom e" "tk_data k = Some (b, bs)" "1 < tk_ttl k" "q = request_of e bs"
    "find_flood_id e (rq_src_ip q) (rq_rreq_id q) s = None" "valid_aodv_neigh e (tk_src_ip k) s"
    and "aodv_until e (getcurrtime u) (snd (recv_rreq e k s)) u" "in_window e (getcurrtime s) (getcurrtime u)"
    and "tk_data k' = Some (b', bs')" "1 < tk_ttl k'" "q' = request_of e bs'"
    "rq_src_ip q' = rq_src_ip q" "rq_rreq_id q' = rq_rreq_id q"
  shows "recv_rreq e k' u = (1, u)"
proof -
  obtain a where a: "a_floods (snd (recv_rreq e k s)) =
      flood_add a (rq_dst_ip q) (rq_src_ip q, rq_rreq_id q) (getcurrtime s + 1600) (a_floods s)"
    using recv_rreq_floods [OF assms(1-6)] by blast
  have "flood_seen e (getcurrtime u) (rq_src_ip q, rq_rreq_id q) (a_floods (snd (recv_rreq e k s)))"
    unfolding a using assms(8) by (simp add: fl.seen_add in_window_def)
  then have "flood_seen e (getcurrtime u) (rq_src_ip q, rq_rreq_id q) (a_floods u)"
    by (rule until_seen [OF assms(7)])
  then have "find_flood_id e (rq_src_ip q') (rq_rreq_id q') u \<noteq> None"
    using assms(12,13) by (simp add: flood_seen_def find_flood_id_def)
  then show ?thesis
    using assms(9-11) by (auto simp: recv_rreq_def request_of_def [symmetric] check_rreq_def Let_def)
qed

theorem recv_rreq_once_witness:
  "recv_rreq demo_env (demo_task 0xc0a80003 (rreq_bytes True demo_request))
      (snd (recv_rreq demo_env (demo_task 0xc0a80002 (rreq_bytes True demo_request)) (node\<lparr>a_floods := []\<rparr>)))
   = (1, snd (recv_rreq demo_env (demo_task 0xc0a80002 (rreq_bytes True demo_request)) (node\<lparr>a_floods := []\<rparr>)))"
proof -
  let ?s = "node\<lparr>a_floods := []\<rparr>" and ?k = "\<lambda>ip. demo_task ip (rreq_bytes True demo_request)"
  let ?t = "snd (recv_rreq demo_env (?k 0xc0a80002) ?s)"
  have n: "find_flood_id demo_env (rq_src_ip demo_request) (rq_rreq_id demo_request) ?s = None"
    by (simp add: find_flood_id_def)
  have v: "valid_aodv_neigh demo_env (tk_src_ip (?k 0xc0a80002)) ?s" by code_simp
  have "getcurrtime ?t = getcurrtime ?s" by (rule evolves_time [OF ev_recv_rreq [OF evolves_refl]])
  then have w: "in_window demo_env (getcurrtime ?s) (getcurrtime ?t)" by (simp add: in_window_def demo_env_def)
  show ?thesis
    by (rule recv_rreq_once [OF demo_no_oom _ _ request_of_bytes [symmetric] n v until_refl w _ _ request_of_bytes [symmetric] refl refl])
      (simp_all add: demo_task_def)
qed

section \<open>Route errors\<close>

definition broken_via :: "u32 \<Rightarrow> aodv_route \<Rightarrow> bool" where
  "broken_via brk r = (rt_next_hop r = brk \<and> \<not> rt_self r)"

definition lost_dst :: "kenv \<Rightarrow> aodv_route \<Rightarrow> aodv_dst" where
  "lost_dst e r = \<lparr>ds_ip = rt_ip r, ds_seq = htonl e (rt_seq r)\<rparr>"

lemma gen_rerr_loop_all:
  assumes "no_oom e"
  shows "\<exists>bad' l n. gen_rerr_loop e now brk rs bad s =
      (map (apsnd (expired_from now brk)) rs, Some bad', s\<lparr>k_allocs := n, k_live := l\<rparr>)
    \<and> nl_vals bad' = rev (map (lost_dst e) (filter (broken_via brk) (nl_vals rs))) @ nl_vals bad"
proof (induction rs arbitrary: bad s)
  case Nil
  show ?case by (intro exI [of _ bad] exI [of _ "k_live s"] exI [of _ "k_allocs s"]) simp
next
  case (Cons x rs)
  obtain a r where x: "x = (a, r)" by (cases x)
  show ?case
  proof (cases "broken_via brk r")
    case False
    obtain bad' l n where "gen_rerr_loop e now brk rs bad s =
        (map (apsnd (expired_from now brk)) rs, Some bad', s\<lparr>k_allocs := n, k_live := l\<rparr>)"
      "nl_vals bad' = rev (map (lost_dst e) (filter (broken_via brk) (nl_vals rs))) @ nl_vals bad"
      using Cons.IH [of bad s] by blast
    with False show ?thesis
      by (intro exI [of _ bad'] exI [of _ l] exI [of _ n]) (auto simp: x broken_via_def [of brk r] expired_from_def [of now brk r])
  next
    case True
    let ?s = "s\<lparr>k_allocs := Suc (k_allocs s), k_live := insert (k_allocs s) (k_live s)\<rparr>"
    obtain bad' l n where IH: "gen_rerr_loop e now brk rs ((k_allocs s, lost_dst e r) # bad) ?s =
        (map (apsnd (expired_from now brk)) rs, Some bad', ?s\<lparr>k_allocs := n, k_live := l\<rparr>)"
      "nl_vals bad' = rev (map (lost_dst e) (filter (broken_via brk) (nl_vals rs)))
          @ nl_vals ((k_allocs s, lost_dst e r) # bad)"
      using Cons.IH [of "(k_allocs s, lost_dst e r) # bad" ?s] by blast
    show ?thesis using True IH
      by (intro exI [of _ bad'] exI [of _ l] exI [of _ n])
        (simp add: x broken_via_def [of brk r] expired_from_def [of now brk r] kmalloc_no_oom [OF assms]
          lost_dst_def [of e r])
  qed
qed

lemma free_rerr_routes_fields:
  "k_out (free_rerr_routes ds s) = k_out s" "a_routes (free_rerr_routes ds s) = a_routes s"
  "a_devs (free_rerr_routes ds s) = a_devs s" "g_broadcast_ip (free_rerr_routes ds s) = g_broadcast_ip s"
  by (induction ds s rule: free_rerr_routes.induct) simp_all

lemma send_rerr_sent:
  assumes "no_oom e" "link_up e (length (rerr_message e (nl_vals bad))) s"
  shows "k_out (snd (send_rerr e bad s)) = k_out s @ broadcast_events 10 (rerr_message e (nl_vals bad)) s"
    "a_routes (snd (send_rerr e bad s)) = a_routes s"
proof -
  let ?u = "free_rerr_routes bad (snd (kmalloc e s))"
  have u: "link_up e (length (rerr_message e (nl_vals bad))) ?u"
    "broadcast_events 10 (rerr_message e (nl_vals bad)) ?u = broadcast_events 10 (rerr_message e (nl_vals bad)) s"
    using assms(2) by (simp_all add: link_up_def broadcast_events_def free_rerr_routes_fields)
  have "(10 :: u8) \<noteq> 0" by simp
  note b = local_broadcast_sent [OF u(1) this]
  show "k_out (snd (send_rerr e bad s)) = k_out s @ broadcast_events 10 (rerr_message e (nl_vals bad)) s"
    using b u(2) kmalloc_no_oom [OF assms(1), of s] by (simp add: send_rerr_def free_rerr_routes_fields)
  show "a_routes (snd (send_rerr e bad s)) = a_routes s"
    using kmalloc_no_oom [OF assms(1), of s]
    by (simp add: send_rerr_def free_rerr_routes_fields out_only_fields [OF local_broadcast_out])
qed

text \<open>C19. When a next hop is lost, \<open>gen_rerr\<close> invalidates exactly the valid routes through it, the node's own
  excepted, and leaves every other entry alone; and if there were routes through it, valid or not,
  it broadcasts one error message on every interface that lists exactly these destinations.\<close>

theorem gen_rerr_invalidates:
  assumes "no_oom e" "lost = map (lost_dst e) (filter (broken_via brk) (nl_vals (a_routes s)))"
    "link_up e (4 + 8 * length lost) s" "t = snd (gen_rerr e brk s)"
  shows "a_routes t = map (apsnd (\<lambda>r. if rt_next_hop r = brk \<and> \<not> rt_self r \<and> rt_valid r
        then expire_aodv_route (getcurrtime s) r else r)) (a_routes s)
    \<and> k_out t = k_out s @ (if lost = [] then [] else broadcast_events 10 (rerr_message e (rev lost)) s)"
proof -
  have x: "expired_from (getcurrtime s) brk = (\<lambda>r. if rt_next_hop r = brk \<and> \<not> rt_self r \<and> rt_valid r
        then expire_aodv_route (getcurrtime s) r else r)"
    by (simp add: fun_eq_iff expired_from_def)
  obtain bad l n where g: "gen_rerr_loop e (getcurrtime s) brk (a_routes s) [] s =
      (map (apsnd (expired_from (getcurrtime s) brk)) (a_routes s), Some bad, s\<lparr>k_allocs := n, k_live := l\<rparr>)"
    "nl_vals bad = rev lost"
    using gen_rerr_loop_all [OF assms(1), of "getcurrtime s" brk "a_routes s" "[]" s] assms(2) by auto
  let ?u = "s\<lparr>k_allocs := n, k_live := l, a_routes := map (apsnd (expired_from (getcurrtime s) brk)) (a_routes s)\<rparr>"
  have t: "t = (if bad = [] then ?u else snd (send_rerr e bad ?u))"
    using g(1) by (simp add: assms(4) gen_rerr_def)
  have b: "bad = [] \<longleftrightarrow> lost = []" using g(2) by (cases bad) auto
  have "length (rerr_message e (nl_vals bad)) = 4 + 8 * length lost" using g(2) by (simp add: rerr_message_def)
  then have up: "link_up e (length (rerr_message e (nl_vals bad))) ?u" using assms(3) by (simp add: link_up_def)
  have "broadcast_events 10 m ?u = broadcast_events 10 m s" for m by (simp add: broadcast_events_def)
  then show ?thesis using send_rerr_sent [OF assms(1) up] by (simp add: t b g(2) x)
qed

theorem gen_rerr_invalidates_witness:
  "map rt_valid (nl_vals (a_routes (snd (gen_rerr demo_env 0xc0a80002 node)))) = [True, False, False]"
proof -
  have f: "filter (broken_via 0xc0a80002) (nl_vals (a_routes node))
      = [demo_route 0xc0a80002 0xc0a80002 1 5, demo_route 0xc0a80009 0xc0a80002 2 4]"
    by (simp add: broken_via_def demo_defs)
  have "link_up demo_env (4 + 8 * length (map (lost_dst demo_env) (filter (broken_via 0xc0a80002) (nl_vals (a_routes node))))) node"
    unfolding f by (rule demo_link_up) simp
  from gen_rerr_invalidates [OF demo_no_oom refl this refl] show ?thesis
    by (simp add: demo_defs)
qed

text \<open>What an error message from \<open>src\<close> may do to an entry.\<close>

definition rerr_change :: "kenv \<Rightarrow> u32 \<Rightarrow> u64 \<Rightarrow> aodv_route \<Rightarrow> aodv_route \<Rightarrow> bool" where
  "rerr_change e src now r r' =
     (rt_ip r' = rt_ip r \<and> rt_netmask r' = rt_netmask r \<and> rt_next_hop r' = rt_next_hop r
      \<and> rt_metric r' = rt_metric r \<and> rt_self r' = rt_self r \<and> rt_dev r' = rt_dev r
      \<and> (rt_valid r' \<longrightarrow> rt_valid r)
      \<and> (rt_next_hop r \<noteq> src \<or> rt_self r \<longrightarrow>
           r' = r \<or> rt_valid r \<and> \<not> rt_self r \<and> ke_time_before e (rt_lifetime r) now
             \<and> r' = expire_aodv_route now r))"

lemma rerr_change_refl [simp]: "rerr_change e src now r r"
  by (simp add: rerr_change_def)

lemma rerr_change_trans:
  assumes "rerr_change e src now r r'" "rerr_change e src now r' r''"
  shows "rerr_change e src now r r''"
proof (cases "rt_next_hop r \<noteq> src \<or> rt_self r")
  case True
  then have "r' = r \<or> \<not> rt_valid r'" "rt_next_hop r' \<noteq> src \<or> rt_self r'"
    using assms(1) by (auto simp: rerr_change_def)
  then have "r' = r \<or> r'' = r'" using assms(2) by (auto simp: rerr_change_def)
  with assms show ?thesis by auto
next
  case False
  with assms show ?thesis by (simp add: rerr_change_def)
qed

definition rerr_changes :: "kenv \<Rightarrow> u32 \<Rightarrow> u64 \<Rightarrow> aodv_state \<Rightarrow> aodv_state \<Rightarrow> bool" where
  "rerr_changes e src now s t =
     list_all2 (\<lambda>(a, r) (b, r'). a = b \<and> rerr_change e src now r r') (a_routes s) (a_routes t)"

lemma rerr_changes_refl: "a_routes t = a_routes s \<Longrightarrow> rerr_changes e src now s t"
  by (auto simp: rerr_changes_def intro: list_all2_refl)

lemma rerr_changes_trans: "rerr_changes e src now s t \<Longrightarrow> rerr_changes e src now t u \<Longrightarrow> rerr_changes e src now s u"
  unfolding rerr_changes_def
  by (rule list_all2_trans [of "\<lambda>(a, r) (b, r'). a = b \<and> rerr_change e src now r r'"])
    (auto intro: rerr_change_trans)

lemma rerr_changes_find: "rerr_changes e src (getcurrtime s) s (snd (find_aodv_route e ip s))"
  using find_route_loop_shape [of "getcurrtime s" e "a_routes s" ip None]
  unfolding rerr_changes_def find_aodv_route_def case_prod_beta
  by (simp add: Let_def) (erule list_all2_mono, auto simp: rerr_change_def route_stale_def)

lemma rerr_changes_upd:
  assumes "routes_ok s" "route_get p s = Some r" "rerr_change e src now r (f r)"
  shows "rerr_changes e src now s (route_upd p f s)"
proof -
  have "rerr_change e src now x (f x)" if "(p, x) \<in> set (a_routes s)" for x
  proof -
    have "nl_get p (a_routes s @ a_loose s) = Some x"
      by (rule nl_get_in) (use assms(1) that in \<open>auto simp: routes_ok_def route_addrs_def\<close>)
    then show ?thesis using assms(2,3) by (simp add: route_get_def)
  qed
  then have "list_all2 (\<lambda>(a, r) (b, r'). a = b \<and> rerr_change e src now r r') ns (nl_upd p f ns)"
    if "set ns \<subseteq> set (a_routes s)" for ns
    using that by (induction ns) auto
  then show ?thesis using assms(2) by (simp add: rerr_changes_def route_upd_def)
qed

lemma recv_rerr_loop_changes:
  "routes_ok s \<Longrightarrow> rerr_changes e src (getcurrtime s) s (snd (recv_rerr_loop e src bs n i out s))"
proof (induction n arbitrary: i out s)
  case 0
  then show ?case by (simp add: rerr_changes_refl)
next
  case (Suc n)
  let ?dst = "rerr_dst_at (ke_big_endian e) bs i"
  obtain p s1 where f: "find_aodv_route e (ds_ip ?dst) s = (p, s1)" by fastforce
  have s1: "rerr_changes e src (getcurrtime s) s s1" "routes_ok s1" "getcurrtime s1 = getcurrtime s"
    using rerr_changes_find [of e src s "ds_ip ?dst"] find_aodv_route_ok [OF Suc.prems, of e "ds_ip ?dst"]
      find_aodv_route_frame [where s = s and e = e and t = "ds_ip ?dst"] f by simp_all
  note go = rerr_changes_trans [OF s1(1)]
  have skip: "rerr_changes e src (getcurrtime s) s (snd (recv_rerr_loop e src bs n (Suc i) out s1))" for out
    using Suc.IH [OF s1(2)] s1(3) go by simp
  have stay: "rerr_changes e src (getcurrtime s) s u" if "a_routes u = a_routes s1" for u
    by (rule go [OF rerr_changes_refl [OF that]])
  show ?case
  proof (cases "\<exists>a r. p = Some a \<and> route_get a s1 = Some r \<and> \<not> rt_self r \<and> rt_next_hop r = src")
    case False
    then show ?thesis using skip stay by (auto simp: f Let_def split: option.split)
  next
    case True
    then obtain a r where r: "p = Some a" "route_get a s1 = Some r" "\<not> rt_self r" "rt_next_hop r = src" by blast
    let ?w = "\<lambda>r. r\<lparr>rt_seq := ntohl e (ds_seq ?dst)\<rparr>"
    define s2 where "s2 = route_upd a ?w s1"
    have s2: "rerr_changes e src (getcurrtime s) s s2" "routes_ok s2" "getcurrtime s2 = getcurrtime s"
      using go [OF rerr_changes_upd [OF s1(2) r(2)]] r(3,4) s1(2,3)
      by (simp_all add: s2_def rerr_change_def route_upd_ok)
    have g2: "route_get a s2 = Some (?w r)" using r(2) by (simp add: s2_def route_get_upd)
    obtain b s3 where k: "kmalloc e s2 = (b, s3)" by fastforce
    have s3: "a_routes s3 = a_routes s2" "a_loose s3 = a_loose s2" "k_allocs s2 \<le> k_allocs s3" "getcurrtime s3 = getcurrtime s"
      using k s2(3) by (auto simp: kmalloc_def split: if_splits)
    then have s3': "rerr_changes e src (getcurrtime s) s s3" "routes_ok s3" "route_get a s3 = Some (?w r)"
      using rerr_changes_trans [OF s2(1) rerr_changes_refl] routes_ok_cong [OF _ _ _ s2(2)] g2
      by (simp_all add: route_get_def)
    define s4 where "s4 = (if rt_valid r then route_upd a (expire_aodv_route (getcurrtime s3)) s3 else s3)"
    have s4: "rerr_changes e src (getcurrtime s) s s4" "routes_ok s4" "getcurrtime s4 = getcurrtime s"
      using s3' rerr_changes_trans [OF s3'(1) rerr_changes_upd [OF s3'(2,3)]] r(3,4) s3(4)
      by (simp_all add: s4_def rerr_change_def route_upd_ok)
    have "snd (recv_rerr_loop e src bs (Suc n) i out s) =
        (case b of None \<Rightarrow> s3 | Some c \<Rightarrow> snd (recv_rerr_loop e src bs n (Suc i) ((c, ?dst) # out) s4))"
      using r by (cases "rt_valid r") (simp_all add: f Let_def s2_def [symmetric] k s4_def split: option.split)
    then show ?thesis
      using s3'(1) rerr_changes_trans [OF s4(1)] Suc.IH [OF s4(2)] s4(3) by (simp split: option.split)
  qed
qed

text \<open>C20. An error message can only hurt routes that go through its sender. \<open>recv_rerr\<close> keeps every entry of the
  table at its place with its address, mask, next hop, metric and device; it makes no route valid;
  and an entry that does not go through the sender, or is the node's own, stays as it is, unless its lifetime
  is over, in which case it is expired as any search would do.\<close>

theorem recv_rerr_scope:
  assumes "routes_ok s"
  shows "list_all2 (\<lambda>(a, r) (b, r'). a = b \<and> rerr_change e (tk_src_ip k) (getcurrtime s) r r')
    (a_routes s) (a_routes (snd (recv_rerr e k s)))"
proof (cases "tk_data k")
  case None
  then show ?thesis using rerr_changes_refl [of "fault s" s] by (simp add: recv_rerr_def rerr_changes_def)
next
  case (Some d)
  obtain b bs where d: "d = (b, bs)" by (cases d)
  obtain out s1 where l: "recv_rerr_loop e (tk_src_ip k) bs (unat (rerr_count bs)) 0 [] s = (out, s1)" by fastforce
  have s1: "rerr_changes e (tk_src_ip k) (getcurrtime s) s s1"
    using recv_rerr_loop_changes [OF assms, of e "tk_src_ip k" bs "unat (rerr_count bs)" 0 "[]"] l by simp
  have "a_routes (snd (send_rerr e ds u)) = a_routes u" for ds u
    by (simp add: send_rerr_def kmalloc_def free_rerr_routes_fields out_only_fields [OF local_broadcast_out])
  then have "a_routes (snd (recv_rerr e k s)) = a_routes s1"
    by (simp add: recv_rerr_def Some d l split: option.split)
  then show ?thesis using s1 by (simp add: rerr_changes_def)
qed

theorem recv_rerr_scope_witness:
  "list_all2 (\<lambda>(a, r) (b, r'). a = b \<and> rerr_change demo_env 0xc0a80002 1000000 r r')
    (a_routes node) (a_routes (snd (recv_rerr demo_env (demo_task 0xc0a80002 [3, 0, 0, 1, 192, 168, 0, 9, 0, 0, 0, 6]) node)))"
  using recv_rerr_scope [OF node_routes_ok, of demo_env "demo_task 0xc0a80002 [3, 0, 0, 1, 192, 168, 0, 9, 0, 0, 0, 6]"]
  by (simp add: demo_task_def)

section \<open>Outgoing packets\<close>

lemma find_route_valid_get:
  assumes "routes_ok s" "find_aodv_route e ip s = (Some p, s1)"
  obtains r where "route_get p s1 = Some r"
proof -
  have "last_match ip (a_routes s) = Some p" "a_routes s1 = map (apsnd (pass_route e (getcurrtime s) ip)) (a_routes s)"
    using assms(2) by (auto simp: find_aodv_route_eq [OF routes_okD(1) [OF assms(1)]])
  then have "p \<in> set (nl_addrs (a_routes s1))" using last_match_Some [of ip "a_routes s" p] by (auto intro: nl_addrs_in)
  then show thesis using that by (cases "route_get p s1") (auto simp: route_get_None route_addrs_def)
qed

text \<open>C14. What happens to an outgoing packet. A broadcast, and on a gateway a packet that leaves the subnet,
  goes out untouched. Any other goes out exactly when the search finds a valid route, whose lifetime it then
  renews unless the route is the node's own; otherwise the packet is held. Nothing is sent on behalf of
  a packet that goes out, nor of one that is held while a discovery for its destination is under way.\<close>

theorem output_handler_verdict:
  assumes "routes_ok s" "find_aodv_route e (sk_daddr p) s = (found, s1)" "(v, t) = output_handler e p s"
    and "through = (sk_daddr p = g_broadcast_ip s \<or> g_aodv_gateway s \<noteq> 0 \<and> \<not> aodv_subnet_test (sk_daddr p) s)"
    and "routed = (\<exists>a r. found = Some a \<and> route_get a s1 = Some r \<and> rt_valid r)"
  shows "v = (if through \<or> routed then NF_ACCEPT else NF_QUEUE)
    \<and> (through \<longrightarrow> t = s)
    \<and> (\<not> through \<and> routed \<longrightarrow> k_out t = k_out s \<and> (\<exists>a r. found = Some a \<and> route_get a s1 = Some r
         \<and> route_get a t = Some (if rt_self r then r else r\<lparr>rt_lifetime := getcurrtime s + 3000\<rparr>)))
    \<and> (\<not> through \<and> \<not> routed \<and> find_timer (sk_daddr p) 101 s \<noteq> None \<longrightarrow> t = s1)"
proof (cases through)
  case True
  then have "(v, t) = (NF_ACCEPT, s)"
    using assms(3,4) by (cases "sk_daddr p = g_broadcast_ip s") (simp_all add: output_handler_def)
  then show ?thesis using True by simp
next
  case False
  have f: "a_timers s1 = a_timers s" "k_out s1 = k_out s" "getcurrtime s1 = getcurrtime s"
    using find_aodv_route_frame [where s = s and e = e and t = "sk_daddr p"] assms(2) by simp_all
  have g: "snd (gen_rreq e a b s1) = s1" if "find_timer b 101 s \<noteq> None" for a b
    using that f(1) by (simp add: gen_rreq_def find_timer_def)
  show ?thesis
  proof (cases found)
    case None
    then show ?thesis using False assms(2-5) g by (auto simp: output_handler_def Let_def)
  next
    case (Some a)
    obtain r where r: "route_get a s1 = Some r" using find_route_valid_get [OF assms(1)] assms(2) Some by blast
    show ?thesis
    proof (cases "rt_valid r")
      case True
      then have "routed" using Some r assms(5) by simp
      moreover have "(v, t) = (NF_ACCEPT, if rt_self r then s1
          else route_upd a (\<lambda>r. r\<lparr>rt_lifetime := getcurrtime s1 + 3000\<rparr>) s1)"
        using False assms(2-4) Some r True by (auto simp: output_handler_def Let_def)
      ultimately show ?thesis using False Some r f(2,3) by (auto simp: route_get_upd)
    next
      case invalid: False
      then have "\<not> routed" using Some r assms(5) by simp
      moreover have "(v, t) = (NF_QUEUE, snd (gen_rreq e (g_my_ip s1) (sk_daddr p) s1))"
        using False assms(2-4) Some r invalid by (auto simp: output_handler_def Let_def)
      ultimately show ?thesis using False g by auto
    qed
  qed
qed

definition packet_to :: "u32 \<Rightarrow> skbuff" where
  "packet_to dst = (aodv_packet 0xc0a80001 64 [])\<lparr>sk_daddr := dst\<rparr>"

theorem output_handler_verdict_witness:
  "fst (output_handler demo_env (packet_to 0xc0a80009) node) = NF_ACCEPT"
proof -
  have f: "find_aodv_route demo_env (sk_daddr (packet_to 0xc0a80009)) node = (Some 16, node)"
    using demo_find by (simp add: packet_to_def)
  obtain v t where o: "(v, t) = output_handler demo_env (packet_to 0xc0a80009) node"
    by (metis surj_pair)
  have "\<exists>a r. Some 16 = Some a \<and> route_get a node = Some r \<and> rt_valid r"
    using demo_get by (auto simp: demo_route_def)
  then have "v = NF_ACCEPT" using output_handler_verdict [OF node_routes_ok f o refl refl] by metis
  then show ?thesis using o by (metis fst_conv)
qed

end
