(* ===== verification/RouteView.thy ===== *)
theory RouteView
  imports HandlerProps
begin

unbundle bit_operations_syntax

text \<open>
  The route table as a map from addresses to routes. \<open>live_route e s ip p r\<close> says that a search for ip finds the entry p,
  that its contents r are a route to ip itself, and that r is not stale, so that the search leaves it alone. What an
  operation does to the routes of all other addresses is the relation \<open>holds\<close>, an instance of Evolution.
\<close>

definition live_route :: "kenv \<Rightarrow> aodv_state \<Rightarrow> u32 \<Rightarrow> addr \<Rightarrow> aodv_route \<Rightarrow> bool" where
  "live_route e s ip p r = (last_match ip (a_routes s) = Some p \<and> (p, r) \<in> set (a_routes s) \<and> rt_ip r = ip
     \<and> \<not> route_stale e (getcurrtime s) r)"

definition unknown :: "aodv_state \<Rightarrow> u32 \<Rightarrow> bool" where
  "unknown s ip = (last_match ip (a_routes s) = None)"

definition plain :: "aodv_state \<Rightarrow> bool" where
  "plain s = (tables_ok s \<and> g_broadcast_ip s = - 1)"

definition holds :: "kenv \<Rightarrow> u32 set \<Rightarrow> aodv_state \<Rightarrow> aodv_state \<Rightarrow> bool" where
  "holds e X s t = (evolves e s t \<and> a_neighs t = a_neighs s \<and> (plain s \<longrightarrow>
     (\<forall>ip. ip \<notin> X \<longrightarrow> (unknown s ip \<longrightarrow> unknown t ip) \<and> (\<forall>p r. live_route e s ip p r \<longrightarrow> live_route e t ip p r))))"

lemma plain_evolves: "evolves e s t \<Longrightarrow> plain s \<Longrightarrow> plain t"
  by (simp add: plain_def evolves_def same_globals_def)

interpretation ho: evolution "holds e X" for e X
proof unfold_locales
  fix s t u
  show "holds e X s s" by (simp add: holds_def evolves_refl)
  assume "holds e X s t" "holds e X t u"
  then show "holds e X s u" using plain_evolves [of e s t] by (auto simp: holds_def intro: evolves_trans)
qed

lemma holds_wider: "holds e X s t \<Longrightarrow> X \<subseteq> Y \<Longrightarrow> holds e Y s t"
  unfolding holds_def by blast

lemma holds_time: "holds e X s t \<Longrightarrow> getcurrtime t = getcurrtime s"
  using evolves_time [of e s t] unfolding holds_def by blast

lemma holds_plain: "holds e X s t \<Longrightarrow> plain s \<Longrightarrow> plain t"
  using plain_evolves unfolding holds_def by blast

lemma holds_neigh: "holds e X s t \<Longrightarrow> valid_aodv_neigh e ip t = valid_aodv_neigh e ip s"
  using holds_time [of e X s t] by (simp add: valid_aodv_neigh_def find_aodv_neigh_def holds_def split: option.split)

lemma holds_unknown: "holds e X s t \<Longrightarrow> plain s \<Longrightarrow> ip \<notin> X \<Longrightarrow> unknown s ip \<Longrightarrow> unknown t ip"
  unfolding holds_def by blast

lemma holds_live: "holds e X s t \<Longrightarrow> plain s \<Longrightarrow> ip \<notin> X \<Longrightarrow> live_route e s ip p r \<Longrightarrow> live_route e t ip p r"
  unfolding holds_def by blast

lemma holds_globals:
  assumes "holds e X s t"
  shows "a_tasks t = a_tasks s" "a_devs t = a_devs s" "g_broadcast_ip t = g_broadcast_ip s" "g_my_ip t = g_my_ip s"
    "g_my_route t = g_my_route s" "k_time t = k_time s" "g_aodv_gateway t = g_aodv_gateway s"
  using assms by (simp_all add: holds_def evolves_def same_globals_def)

section \<open>Searching\<close>

lemma plain_sorted: "plain s \<Longrightarrow> sorted_by rt_ip (a_routes s)" "plain s \<Longrightarrow> routes_ok s"
  "plain s \<Longrightarrow> distinct (nl_addrs (a_routes s))"
  by (simp_all add: plain_def tables_ok_def routes_ok_def route_addrs_def)

lemma live_get: "plain s \<Longrightarrow> live_route e s ip p r \<Longrightarrow> route_get p s = Some r"
  using nl_get_in [of p r "a_routes s"] plain_sorted(3) [of s]
  by (simp add: live_route_def route_get_def nl_get_append)

lemma live_unique: "plain s \<Longrightarrow> live_route e s ip p r \<Longrightarrow> live_route e s ip q r' \<Longrightarrow> q = p \<and> r' = r"
  using live_get [of s e ip p r] live_get [of s e ip q r'] by (simp add: live_route_def)

lemma live_other: "plain s \<Longrightarrow> live_route e s ip p r \<Longrightarrow> live_route e s ip' q r' \<Longrightarrow> ip' \<noteq> ip \<Longrightarrow> q \<noteq> p"
  using live_get [of s e ip p r] live_get [of s e ip' q r'] by (auto simp: live_route_def)

text \<open>Entries may change as long as they keep address and mask.\<close>

lemma last_match_map:
  "(\<And>a r. rt_ip (f a r) = rt_ip r \<and> rt_netmask (f a r) = rt_netmask r) \<Longrightarrow>
   last_match t (map (\<lambda>(a, r). (a, f a r)) rs) = last_match t rs"
  by (induction t rs rule: last_match.induct) (auto simp: compare_aodv_route_def split: option.splits)

lemma holds_map:
  assumes "evolves e s t" "a_neighs t = a_neighs s" "a_routes t = map (\<lambda>(a, r). (a, f a r)) (a_routes s)"
    "\<And>a r. rt_ip (f a r) = rt_ip r \<and> rt_netmask (f a r) = rt_netmask r"
    "\<And>ip p r. ip \<notin> X \<Longrightarrow> live_route e s ip p r \<Longrightarrow> f p r = r"
  shows "holds e X s t"
proof -
  have m: "last_match ip (a_routes t) = last_match ip (a_routes s)" for ip
    unfolding assms(3) by (rule last_match_map [OF assms(4)])
  have "live_route e t ip p r" if "ip \<notin> X" "live_route e s ip p r" for ip p r
  proof -
    have "(p, f p r) \<in> set (a_routes t)" using that(2) by (force simp: assms(3) live_route_def)
    then show ?thesis using that(2) assms(5) [OF that] m evolves_time [OF assms(1)] by (simp add: live_route_def)
  qed
  then show ?thesis using assms(1,2) m by (simp add: holds_def unknown_def)
qed

lemma holds_same:
  assumes "evolves e s t" "a_neighs t = a_neighs s" "a_routes t = a_routes s"
  shows "holds e X s t"
  by (rule holds_map [OF assms(1,2), where f = "\<lambda>a r. r"]) (simp_all add: assms(3))

lemma holds_find: "plain s \<Longrightarrow> holds e X s (snd (find_aodv_route e ip s))"
proof (rule holds_map)
  assume "plain s"
  then show "a_routes (snd (find_aodv_route e ip s)) = map (\<lambda>(a, r). (a, pass_route e (getcurrtime s) ip r)) (a_routes s)"
    by (simp add: find_aodv_route_eq plain_sorted apsnd_def map_prod_def)
  show "evolves e s (snd (find_aodv_route e ip s))" by (rule ev_find)
qed (auto simp: pass_route_def live_route_def)

lemma find_live: "plain s \<Longrightarrow> live_route e s ip p r \<Longrightarrow> find_aodv_route e ip s = (Some p, snd (find_aodv_route e ip s))"
  by (simp add: find_aodv_route_eq plain_sorted live_route_def)

lemma find_unknown: "plain s \<Longrightarrow> unknown s ip \<Longrightarrow> find_aodv_route e ip s = (None, snd (find_aodv_route e ip s))"
  by (simp add: find_aodv_route_eq plain_sorted unknown_def)

section \<open>Updating\<close>

lemma holds_write:
  assumes "plain s" "live_route e s ip p r"
  shows "holds e {ip} s (write_route e ip p nh metric seq dev s)"
proof (rule holds_map)
  let ?w = "written_route nh metric seq dev (getcurrtime s)"
  note g = live_get [OF assms]
  show "a_routes (write_route e ip p nh metric seq dev s) = map (\<lambda>(a, q). (a, if a = p then ?w q else q)) (a_routes s)"
    by (simp add: write_route_eq [OF g] upd_as_map)
  show "a_neighs (write_route e ip p nh metric seq dev s) = a_neighs s" by (simp add: write_route_eq [OF g])
  show "evolves e s (write_route e ip p nh metric seq dev s)" by (rule ev_write_route)
  fix ip' q r'
  assume "ip' \<notin> {ip}" "live_route e s ip' q r'"
  then have "q \<noteq> p" using live_other [OF assms] by blast
  then show "(if q = p then ?w r' else r') = r'" by simp
qed (simp add: written_route_def)

lemma live_write:
  assumes "plain s" "live_route e s ip p r" "\<not> ke_time_before e (getcurrtime s + 3000) (getcurrtime s)"
  shows "live_route e (write_route e ip p nh metric seq dev s) ip p (written_route nh metric seq dev (getcurrtime s) r)"
proof -
  let ?w = "written_route nh metric seq dev (getcurrtime s)"
  have rs: "a_routes (write_route e ip p nh metric seq dev s) = map (\<lambda>(a, q). (a, if a = p then ?w q else q)) (a_routes s)"
    by (simp add: write_route_eq [OF live_get [OF assms(1,2)]] upd_as_map)
  have "last_match ip (a_routes (write_route e ip p nh metric seq dev s)) = Some p"
    using assms(2) unfolding rs by (subst last_match_map) (auto simp: written_route_def live_route_def)
  moreover have "(p, ?w r) \<in> set (a_routes (write_route e ip p nh metric seq dev s))"
    using assms(2) unfolding rs by (force simp: live_route_def)
  moreover have "rt_ip (?w r) = ip \<and> \<not> route_stale e (getcurrtime s) (?w r)"
    using assms(2,3) by (simp add: live_route_def route_stale_def written_route_def)
  ultimately show ?thesis
    using evolves_time [OF ev_write_route] by (simp add: live_route_def)
qed

lemma live_upd:
  assumes "plain s" "live_route e s ip p r" "\<And>q. rt_ip (f q) = rt_ip q \<and> rt_netmask (f q) = rt_netmask q"
    and "\<not> route_stale e (getcurrtime s) (f r)"
  shows "holds e {ip} s (route_upd p f s)" "live_route e (route_upd p f s) ip p (f r)"
proof -
  have rs: "a_routes (route_upd p f s) = map (\<lambda>(a, q). (a, if a = p then f q else q)) (a_routes s)"
    by (simp add: route_upd_def live_get [OF assms(1,2)] upd_as_map)
  have fk: "rt_ip (if a = p then f q else q) = rt_ip q \<and> rt_netmask (if a = p then f q else q) = rt_netmask q" for a q
    using assms(3) by simp
  show "holds e {ip} s (route_upd p f s)"
  proof (rule holds_map [OF ev_route_upd _ rs fk])
    fix ip' q r'
    assume "ip' \<notin> {ip}" "live_route e s ip' q r'"
    then have "q \<noteq> p" using live_other [OF assms(1,2)] by blast
    then show "(if q = p then f r' else r') = r'" by simp
  qed (simp_all add: assms(3))
  have "last_match ip (a_routes (route_upd p f s)) = Some p"
    using assms(2) unfolding rs last_match_map [OF fk] by (simp add: live_route_def)
  moreover have "(p, f r) \<in> set (a_routes (route_upd p f s))"
    using assms(2) unfolding rs by (force simp: live_route_def)
  ultimately show "live_route e (route_upd p f s) ip p (f r)" using assms(2-4) by (simp add: live_route_def)
qed

text \<open>A new entry under the full mask matches its own address only.\<close>

lemma last_match_insert:
  "\<not> compare_aodv_route x t \<Longrightarrow> last_match t (nl_insert rt_ip (a, x) rs) = last_match t rs"
  by (induction rs) (auto split: option.splits)

lemma holds_learned:
  assumes "plain s" "unknown s ip" "k = k_allocs s"
    and t: "evolves e s t" "a_neighs t = a_neighs s"
    and r: "a_routes t = nl_upd k (written_route nh metric seq dev now)
      (nl_insert rt_ip (k, new_route e k ip (g_broadcast_ip s)) (map (apsnd (pass_route e (getcurrtime s) ip)) (a_routes s)))"
  shows "holds e {ip} s t"
proof -
  let ?n = "new_route e k ip (g_broadcast_ip s)" and ?f = "pass_route e (getcurrtime s) ip"
    and ?w = "written_route nh metric seq dev now"
  have fresh: "k \<notin> set (nl_addrs (a_routes s))"
    using assms(1,3) plain_sorted(2) [of s] by (auto simp: routes_ok_def route_addrs_def)
  have m: "last_match x (a_routes t) = last_match x (a_routes s)" if "x \<noteq> ip" for x
  proof -
    have "\<not> compare_aodv_route ?n x" using that assms(1) by (simp add: compare_aodv_route_def new_route_def plain_def)
    then have "last_match x (a_routes t) = last_match x (map (apsnd ?f) (a_routes s))"
      unfolding r upd_as_map by (subst last_match_map) (simp_all add: last_match_insert written_route_def)
    also have "\<dots> = last_match x (a_routes s)"
      using last_match_map [of "\<lambda>_. ?f" x "a_routes s"] by (simp add: apsnd_def map_prod_def)
    finally show ?thesis .
  qed
  have "live_route e t x p q" if "x \<noteq> ip" "live_route e s x p q" for x p q
  proof -
    have "?f q = q" using that(2) by (simp add: pass_route_def live_route_def)
    then have "(p, q) \<in> set (map (apsnd ?f) (a_routes s))" using that(2) by (force simp: live_route_def)
    moreover have "p \<noteq> k" using that(2) fresh nl_addrs_in [of p q "a_routes s"] by (auto simp: live_route_def)
    ultimately have "(p, q) \<in> set (a_routes t)" by (force simp: r set_nl_upd)
    then show ?thesis using that m [OF that(1)] evolves_time [OF t(1)] by (simp add: live_route_def)
  qed
  then show ?thesis using t m by (simp add: holds_def unknown_def)
qed

section \<open>Learning a route\<close>

text \<open>News about ip with this sequence number would be accepted.\<close>

definition learnable :: "kenv \<Rightarrow> aodv_state \<Rightarrow> u32 \<Rightarrow> u32 \<Rightarrow> bool" where
  "learnable e s ip seq = (unknown s ip
     \<or> (\<exists>p r. live_route e s ip p r \<and> \<not> rt_self r \<and> \<not> seq_greater (rt_seq r) seq))"

definition route_via :: "kenv \<Rightarrow> aodv_state \<Rightarrow> u32 \<Rightarrow> u32 \<Rightarrow> u8 \<Rightarrow> netdev option \<Rightarrow> bool" where
  "route_via e s ip nh metric dev = (\<exists>p r. live_route e s ip p r \<and> rt_valid r \<and> \<not> rt_self r \<and> rt_next_hop r = nh
     \<and> rt_metric r = metric \<and> rt_dev r = dev)"

lemma holds_learnable: "holds e X s t \<Longrightarrow> plain s \<Longrightarrow> ip \<notin> X \<Longrightarrow> learnable e s ip seq \<Longrightarrow> learnable e t ip seq"
  unfolding learnable_def using holds_unknown holds_live by blast

lemma holds_via: "holds e X s t \<Longrightarrow> plain s \<Longrightarrow> ip \<notin> X \<Longrightarrow> route_via e s ip nh m d \<Longrightarrow> route_via e t ip nh m d"
  unfolding route_via_def using holds_live by blast

text \<open>The packets that waited for ip are let go.\<close>

definition lets_go :: "u32 \<Rightarrow> aodv_state \<Rightarrow> aodv_state \<Rightarrow> bool" where
  "lets_go ip s t = (q_list t = filter (\<lambda>q. \<not> ip_cmp ip q) (q_list s)
     \<and> (\<forall>q \<in> set (q_list s). ip_cmp ip q \<longrightarrow> Reinject (qe_id q) NF_ACCEPT \<in> set (k_out t)))"

lemma lets_go_events:
  assumes "q_list t = filter (\<lambda>q. \<not> ip_cmp ip q) (q_list s)" "k_out t = outs @ write_events e ip nh dev r u"
    "q_list u = q_list s"
  shows "lets_go ip s t"
  using assms by (auto simp: lets_go_def write_events_def)

lemma update_learns:
  assumes "plain s" "valid_aodv_neigh e nh s" "no_oom e" "ip \<noteq> 0" "learnable e s ip seq"
    "\<not> ke_time_before e (getcurrtime s + 3000) (getcurrtime s)"
    and t: "t = snd (update_aodv_route e ip nh metric seq dev s)"
  shows "holds e {ip} s t \<and> route_via e t ip nh metric dev \<and> lets_go ip s t"
proof (cases "unknown s ip")
  case True
  define s1 where "s1 = snd (find_aodv_route e ip s)"
  define n where "n = new_route e (k_allocs s) ip (g_broadcast_ip s)"
  have k: "ke_kmalloc_ok e (k_allocs s)" using assms(3) by (simp add: no_oom_def)
  note u = update_unknown [OF plain_sorted(2) [OF assms(1)] assms(2) find_unknown [OF assms(1) True, where e = e] assms(4) k t n_def]
  have s1: "a_routes (snd (find_aodv_route e ip s)) = map (apsnd (pass_route e (getcurrtime s) ip)) (a_routes s)"
    by (simp add: find_aodv_route_eq plain_sorted(1) [OF assms(1)])
  have ev: "evolves e s t" using ev_update_route [where s = s and e = e] by (simp add: t)
  have h: "holds e {ip} s t"
    using update_route_frame(2) u(4) [unfolded s1 n_def] by (intro holds_learned [OF assms(1) True refl ev]) (simp_all add: t)
  let ?w = "written_route nh metric seq dev (getcurrtime s) n"
  have "\<forall>r \<in> set (nl_vals (a_routes (snd (find_aodv_route e ip s)))). \<not> (rt_ip r \<le> ip \<and> compare_aodv_route r ip)"
    using True by (auto simp: s1 unknown_def last_match_None)
  then have "last_match ip (a_routes t) = Some (k_allocs s)"
    unfolding u(4) by (rule last_match_inserted) (simp_all add: written_route_def n_def new_route_def compare_aodv_route_def)
  moreover have "(k_allocs s, ?w) \<in> set (a_routes t)" by (force simp: u(4) set_nl_upd)
  ultimately have "live_route e t ip (k_allocs s) ?w"
    using assms(6) by (simp add: live_route_def u(2) route_stale_def) (simp add: written_route_def n_def new_route_def)
  moreover have "rt_valid ?w \<and> \<not> rt_self ?w \<and> rt_next_hop ?w = nh \<and> rt_metric ?w = metric \<and> rt_dev ?w = dev"
    by (simp add: written_route_def n_def new_route_def)
  ultimately show ?thesis using h lets_go_events [OF u(3)] u(5) unfolding route_via_def by blast
next
  case False
  then obtain p r where pr: "live_route e s ip p r" "\<not> rt_self r" "\<not> seq_greater (rt_seq r) seq"
    using assms(5) by (auto simp: learnable_def)
  define s1 where "s1 = snd (find_aodv_route e ip s)"
  have s1: "holds e {} s s1" unfolding s1_def by (rule holds_find [OF assms(1)])
  have p1: "plain s1" "live_route e s1 ip p r" "getcurrtime s1 = getcurrtime s"
    using holds_plain [OF s1 assms(1)] holds_live [OF s1 assms(1) _ pr(1)] holds_time [OF s1] by simp_all
  note g = live_get [OF p1(1,2)]
  have w: "t = write_route e ip p nh metric seq dev s1"
    using update_known [OF find_live [OF assms(1) pr(1), folded s1_def] g assms(2)] pr(3) by (simp add: t)
  have h: "holds e {ip} s t"
    using ho.trans [OF holds_wider [OF s1] holds_write [OF p1(1,2)]] by (simp add: w)
  have "live_route e t ip p (written_route nh metric seq dev (getcurrtime s) r)"
    using live_write [OF p1(1,2)] assms(6) by (simp add: w p1(3))
  moreover have "lets_go ip s t"
    by (rule lets_go_events [where u = s1 and e = e]) (simp_all add: w write_route_eq [OF g], simp_all add: s1_def)
  ultimately show ?thesis
    using h pr(2) by (auto simp: route_via_def written_route_def intro!: exI [of _ p])
qed

text \<open>Or there is no need to accept them, because the route they tell of is there.\<close>

definition gets :: "kenv \<Rightarrow> aodv_state \<Rightarrow> u32 \<Rightarrow> u32 \<Rightarrow> u32 \<Rightarrow> u8 \<Rightarrow> netdev option \<Rightarrow> bool" where
  "gets e s ip seq nh metric dev = (learnable e s ip seq \<or> route_via e s ip nh metric dev)"

lemma holds_gets: "holds e X s t \<Longrightarrow> plain s \<Longrightarrow> ip \<notin> X \<Longrightarrow> gets e s ip seq nh m d \<Longrightarrow> gets e t ip seq nh m d"
  unfolding gets_def using holds_learnable holds_via by blast

lemma gets_foreign: "gets e s ip seq nh m d \<Longrightarrow> unknown s ip \<or> (\<exists>p r. live_route e s ip p r \<and> \<not> rt_self r)"
  unfolding gets_def learnable_def route_via_def by blast

lemma update_gets:
  assumes "plain s" "valid_aodv_neigh e nh s" "no_oom e" "ip \<noteq> 0" "gets e s ip seq nh metric dev"
    "\<not> ke_time_before e (getcurrtime s + 3000) (getcurrtime s)"
    and t: "t = snd (update_aodv_route e ip nh metric seq dev s)"
  shows "holds e {ip} s t \<and> route_via e t ip nh metric dev \<and> (learnable e s ip seq \<longrightarrow> lets_go ip s t)"
proof (cases "learnable e s ip seq")
  case True
  then show ?thesis using update_learns [OF assms(1-4) _ assms(6) t] by simp
next
  case False
  then have v: "route_via e s ip nh metric dev" using assms(5) by (simp add: gets_def)
  then obtain p r where pr: "live_route e s ip p r" "\<not> rt_self r" by (auto simp: route_via_def)
  then have old: "seq_greater (rt_seq r) seq" using False by (auto simp: learnable_def)
  define s1 where "s1 = snd (find_aodv_route e ip s)"
  have s1: "holds e {} s s1" unfolding s1_def by (rule holds_find [OF assms(1)])
  have "route_get p s1 = Some r"
    using live_get [OF holds_plain [OF s1 assms(1)]] holds_live [OF s1 assms(1) _ pr(1)] by simp
  then have "t = s1"
    using update_known [OF find_live [OF assms(1) pr(1), folded s1_def] _ assms(2)] old by (simp add: t)
  then show ?thesis using holds_wider [OF s1] holds_via [OF s1 assms(1) _ v] False by simp
qed

end
