(* ===== verification/RouteHop.thy ===== *)
theory RouteHop
  imports RouteView
begin

unbundle bit_operations_syntax

text \<open>
  What one node does with one message of a route discovery: the request is passed on or answered, the reply
  is passed on. A node is a station with one interface; what it last put on the air is read off its events.
\<close>

section \<open>Sending\<close>

text \<open>The station has one interface, whose device is dev, with a socket that takes messages of 24 bytes.\<close>

definition radio :: "kenv \<Rightarrow> netdev \<Rightarrow> aodv_state \<Rightarrow> bool" where
  "radio e dev s =
     ((case a_devs s of
         [(a, d)] \<Rightarrow> dv_sock d \<noteq> None \<and> nd_ip_ptr dev = Some (Some (dv_ip d))
       | _ \<Rightarrow> False)
      \<and> (\<forall>i. 0 \<le> ke_set_ttl e i \<and> 24 \<le> ke_wspace e i))"

text \<open>The message sent last: destination, TTL and contents.\<close>

definition last_sent :: "aodv_state \<Rightarrow> u32 \<times> u8 \<times> u8 list" where
  "last_sent s =
     (case rev (k_out s) of
        SendMsg sk dst bs # SetTtl sk' ttl # evs \<Rightarrow> (dst, ttl, bs)
      | _ \<Rightarrow> (0, 0, []))"

text \<open>A live route to ip over the station's device.\<close>

definition attached :: "kenv \<Rightarrow> netdev \<Rightarrow> aodv_state \<Rightarrow> u32 \<Rightarrow> bool" where
  "attached e dev s ip = (\<exists>p r. live_route e s ip p r \<and> rt_dev r = Some dev)"

lemma attached_via: "route_via e s ip nh m (Some dev) \<Longrightarrow> attached e dev s ip"
  by (auto simp: attached_def route_via_def)

lemma holds_attached: "holds e X s t \<Longrightarrow> plain s \<Longrightarrow> ip \<notin> X \<Longrightarrow> attached e dev s ip \<Longrightarrow> attached e dev t ip"
  unfolding attached_def using holds_live by blast

lemma radioE:
  assumes "radio e dev s"
  obtains a d sk where "a_devs s = [(a, d)]" "dv_sock d = Some sk" "nd_ip_ptr dev = Some (Some (dv_ip d))"
    "\<And>i. 0 \<le> ke_set_ttl e i" "\<And>i. 24 \<le> ke_wspace e i"
proof (cases "a_devs s")
  case Nil
  then show ?thesis using assms by (simp add: radio_def)
next
  case (Cons n ds)
  then show ?thesis using assms that by (cases n; cases ds) (auto simp: radio_def)
qed

lemma radio_cong: "a_devs t = a_devs s \<Longrightarrow> radio e dev t = radio e dev s"
  by (simp add: radio_def)

lemma holds_radio: "holds e X s t \<Longrightarrow> radio e dev t = radio e dev s"
  using holds_globals(2) radio_cong by blast

lemma holds_out: "out_only s t \<Longrightarrow> holds e X s t"
  by (rule holds_same [OF ev_out_only]) (simp_all add: out_only_fields)

lemma broadcast_heard:
  assumes "radio e dev s" "ttl \<noteq> 0" "length bs \<le> 24"
  shows "last_sent (snd (local_broadcast e ttl bs s)) = (g_broadcast_ip s, ttl, bs)"
proof -
  obtain a d sk where r: "a_devs s = [(a, d)]" "dv_sock d = Some sk" "\<And>i. 0 \<le> ke_set_ttl e i" "\<And>i. 24 \<le> ke_wspace e i"
    using radioE [OF assms(1)] by metis
  have "int (length bs) \<le> ke_wspace e i" for i using assms(3) r(4) [of i] by linarith
  then have "link_up e (length bs) s" using r(1-3) by (simp add: link_up_def)
  from local_broadcast_sent [OF this assms(2)] show ?thesis
    by (simp add: last_sent_def broadcast_events_def r(1))
qed

lemma message_heard:
  assumes "plain s" "radio e dev s" "attached e dev s ip" "ttl \<noteq> 0" "length bs \<le> 24"
    and t: "t = snd (send_message e ip ttl bs None s)"
  shows "holds e {} s t" "last_sent t = (ip, ttl, bs)"
proof -
  obtain p r where pr: "live_route e s ip p r" "rt_dev r = Some dev" using assms(3) by (auto simp: attached_def)
  define s1 where "s1 = snd (find_aodv_route e ip s)"
  have h: "holds e {} s s1" unfolding s1_def by (rule holds_find [OF assms(1)])
  have g: "route_get p s1 = Some r"
    using live_get [OF holds_plain [OF h assms(1)] holds_live [OF h assms(1) _ pr(1)]] by simp
  obtain a d sk where rd: "a_devs s1 = [(a, d)]" "dv_sock d = Some sk" "nd_ip_ptr dev = Some (Some (dv_ip d))"
      "\<And>i. 0 \<le> ke_set_ttl e i" "\<And>i. 24 \<le> ke_wspace e i"
    using radioE [of e dev s1] assms(2) holds_radio [OF h] by metis
  have "\<not> ke_wspace e i < int (length bs)" "\<not> ke_set_ttl e i < 0" for i
    using assms(5) rd(4,5) [of i] by linarith+
  then have t': "t = emit (SendMsg sk ip bs) (emit (SetTtl sk ttl) s1)"
    using find_live [OF assms(1) pr(1)] g pr(2) rd(1-3) assms(4)
    by (simp add: t send_message_def s1_def [symmetric] find_aodv_dev_by_dev_def send_on_dev_def set_ttl_def sock_sendmsg_def Let_def)
  show "last_sent t = (ip, ttl, bs)" by (simp add: t' last_sent_def)
  have "out_only s1 t" unfolding t' by (rule out_only_trans [OF out_only_emit out_only_emit])
  then show "holds e {} s t" using ho.trans [OF h holds_out] by blast
qed

section \<open>Receiving\<close>

text \<open>The frame that carries a message to a neighbour's interface, and the turn of the thread that handles it. The
  28 bytes before the message, the IP and UDP headers, and the link-level sender are not read for the messages of a discovery.\<close>

definition aodv_frame :: "kenv \<Rightarrow> u32 \<Rightarrow> u32 \<times> u8 \<times> u8 list \<Rightarrow> netdev \<Rightarrow> skbuff" where
  "aodv_frame e src m dev = (case m of (dst, ttl, bs) \<Rightarrow>
     \<lparr>sk_len = 28 + length bs, sk_data = replicate 28 0 @ bs, sk_beyond = (\<lambda>_. 0), sk_saddr = src, sk_daddr = dst,
      sk_ttl = ttl, sk_has_transport = True, sk_udp_dest = htons e AODVPORT, sk_h_proto = htons e ETH_P_IP,
      sk_h_source = replicate 6 0, sk_dev = dev\<rparr>)"

definition takes :: "kenv \<Rightarrow> u32 \<Rightarrow> u32 \<times> u8 \<times> u8 list \<Rightarrow> netdev \<Rightarrow> aodv_state \<Rightarrow> aodv_state" where
  "takes e src m dev s = thread_round e (snd (input_handler e (aodv_frame e src m dev) dev s))"

text \<open>The state in which the handler runs, and its task.\<close>

definition handed :: "aodv_state \<Rightarrow> aodv_state" where
  "handed s = s\<lparr>aodv_overhead := aodv_overhead s + 1, k_allocs := Suc (Suc (k_allocs s)),
     k_live := insert (Suc (k_allocs s)) (insert (k_allocs s) (k_live s)), k_out := k_out s @ [WakeThread], a_tasks := []\<rparr>"

definition handed_task :: "kenv \<Rightarrow> int \<Rightarrow> u32 \<Rightarrow> u32 \<times> u8 \<times> u8 list \<Rightarrow> netdev \<Rightarrow> aodv_state \<Rightarrow> task" where
  "handed_task e ty src m dev s = (case m of (dst, ttl, bs) \<Rightarrow>
     (let k = (new_task e ty (k_allocs s) (getcurrtime s))\<lparr>tk_src_ip := src, tk_dst_ip := dst, tk_ttl := ttl,
        tk_dev := Some dev, tk_data_len := length bs, tk_data := Some (Suc (k_allocs s), bs)\<rparr>
      in if ty = 2 then k\<lparr>tk_src_hw_addr := replicate 6 0\<rparr> else k))"

definition cleared :: "aodv_state \<Rightarrow> aodv_state \<Rightarrow> aodv_state" where
  "cleared s t = kfree (k_allocs s) (kfree (Suc (k_allocs s)) t)"

lemma handed_task_simps [simp]:
  "tk_data (handed_task e ty src (dst, ttl, bs) dev s) = Some (Suc (k_allocs s), bs)"
  "tk_src_ip (handed_task e ty src (dst, ttl, bs) dev s) = src"
  "tk_ttl (handed_task e ty src (dst, ttl, bs) dev s) = ttl"
  "tk_dev (handed_task e ty src (dst, ttl, bs) dev s) = Some dev"
  "tk_type (handed_task e ty src (dst, ttl, bs) dev s) = ty"
  by (simp_all add: handed_task_def Let_def new_task_def)

lemma frame_bytes:
  "skb_bytes (aodv_frame e src (dst, ttl, bs) dev) 28 (length bs) = bs"
  "0 < length bs \<Longrightarrow> skb_byte (aodv_frame e src (dst, ttl, bs) dev) 28 = bs ! 0"
proof -
  show "skb_bytes (aodv_frame e src (dst, ttl, bs) dev) 28 (length bs) = bs"
    by (rule nth_equalityI) (simp_all add: skb_bytes_def skb_byte_def aodv_frame_def nth_append)
qed (simp add: skb_byte_def aodv_frame_def nth_append)

lemma frame_queued:
  assumes "no_oom e" "a_tasks s = []" "nd_ip_ptr dev = Some x" "nd_word12 dev \<noteq> src"
    and m: "ty = 1 \<and> bs ! 0 = 1 \<and> length bs = 24 \<or> ty = 2 \<and> bs ! 0 = 2 \<and> length bs = 20"
  shows "snd (input_handler e (aodv_frame e src (dst, ttl, bs) dev) dev s) =
    (handed s)\<lparr>a_tasks := [(k_allocs s, handed_task e ty src (dst, ttl, bs) dev s)]\<rparr>"
proof -
  let ?p = "aodv_frame e src (dst, ttl, bs) dev"
  have p: "sk_has_transport ?p" "sk_udp_dest ?p = htons e AODVPORT" "sk_h_proto ?p = htons e ETH_P_IP" "sk_saddr ?p = src"
    "sk_len ?p = 28 + length bs" "sk_daddr ?p = dst" "sk_ttl ?p = ttl" "sk_dev ?p = dev" "sk_h_source ?p = replicate 6 0"
    by (simp_all add: aodv_frame_def)
  have "0 < length bs" using m by auto
  then have b: "skb_byte ?p 28 = bs ! 0" "skb_bytes ?p 28 (length bs) = bs" by (simp_all add: frame_bytes)
  from m show ?thesis
  proof
    assume t: "ty = 1 \<and> bs ! 0 = 1 \<and> length bs = 24"
    then show ?thesis using assms(1-4) b
      by (simp add: input_handler_def p packet_in_def valid_aodv_packet_def insert_task_def create_task_def kmalloc_no_oom
          queue_aodv_task_def emit_def handed_def handed_task_def Let_def getcurrtime_def)
  next
    assume t: "ty = 2 \<and> bs ! 0 = 2 \<and> length bs = 20"
    then show ?thesis using assms(1-4) b
      by (simp add: input_handler_def p packet_in_def valid_aodv_packet_def insert_task_def create_task_def kmalloc_no_oom
          queue_aodv_task_def emit_def handed_def handed_task_def Let_def getcurrtime_def)
  qed
qed

lemma handed_tasks: "(handed s)\<lparr>a_tasks := []\<rparr> = handed s"
  by (simp add: handed_def)

lemma takes_request:
  assumes "no_oom e" "a_tasks s = []" "nd_ip_ptr dev = Some x" "nd_word12 dev \<noteq> src" "length bs = 24" "bs ! 0 = 1"
  shows "takes e src (dst, ttl, bs) dev s =
    cleared s (snd (recv_rreq e (handed_task e 1 src (dst, ttl, bs) dev s) (handed s)))"
  using frame_queued [OF assms(1-4), of 1 bs dst ttl] assms(5,6)
  by (simp add: takes_def thread_round_def get_task_def handed_tasks dispatch_def cleared_def kfree_opt_def data_block_def Let_def)

lemma takes_reply:
  assumes "no_oom e" "a_tasks s = []" "nd_ip_ptr dev = Some x" "nd_word12 dev \<noteq> src" "length bs = 20" "bs ! 0 = 2"
  shows "takes e src (dst, ttl, bs) dev s =
    cleared s (snd (recv_rrep e (handed_task e 2 src (dst, ttl, bs) dev s) (handed s)))"
  using frame_queued [OF assms(1-4), of 2 bs dst ttl] assms(5,6)
  by (simp add: takes_def thread_round_def get_task_def handed_tasks dispatch_def cleared_def kfree_opt_def data_block_def Let_def)

lemma holds_handed: "a_tasks s = [] \<Longrightarrow> holds e {} s (handed s)"
  by (rule holds_same [OF evolves_same]) (simp_all add: handed_def same_globals_def)

lemma holds_kfree: "holds e {} s (kfree a s)"
  by (rule holds_same [OF ev_kfree]) simp_all

lemma holds_cleared: "holds e {} t (cleared s t)"
  unfolding cleared_def by (rule ho.trans [OF holds_kfree holds_kfree])

lemma handed_fields: "a_floods (handed s) = a_floods s" "a_devs (handed s) = a_devs s" "getcurrtime (handed s) = getcurrtime s"
  "q_list (handed s) = q_list s" "a_timers (handed s) = a_timers s"
  by (simp_all add: handed_def getcurrtime_def)

lemma last_sent_cleared [simp]: "last_sent (cleared s t) = last_sent t" "q_list (cleared s t) = q_list t"
  by (simp_all add: last_sent_def cleared_def)

section \<open>A station and its neighbours\<close>

text \<open>A station between two turns of its thread, with its tables in order and nothing waiting for the thread. On its
  clock a time 3000 ms ahead is not in the past.\<close>

definition standing :: "kenv \<Rightarrow> netdev \<Rightarrow> aodv_state \<Rightarrow> bool" where
  "standing e dev s = (plain s \<and> a_tasks s = [] \<and> radio e dev s
     \<and> \<not> ke_time_before e (getcurrtime s + 3000) (getcurrtime s))"

text \<open>A valid neighbour, to which there is a route over the device. What \<open>input_handler\<close> takes for the station's own
  address is not the neighbour's.\<close>

definition near :: "kenv \<Rightarrow> netdev \<Rightarrow> aodv_state \<Rightarrow> u32 \<Rightarrow> bool" where
  "near e dev s ip = (nd_word12 dev \<noteq> ip \<and> valid_aodv_neigh e ip s \<and> attached e dev s ip)"

lemma holds_standing: "holds e X s t \<Longrightarrow> standing e dev s \<Longrightarrow> standing e dev t"
  using holds_plain [of e X s t] holds_radio [of e X s t] holds_globals(1) [of e X s t] holds_time [of e X s t]
  by (simp add: standing_def)

lemma holds_near: "holds e X s t \<Longrightarrow> plain s \<Longrightarrow> ip \<notin> X \<Longrightarrow> near e dev s ip \<Longrightarrow> near e dev t ip"
  using holds_attached [of e X s t ip dev] holds_neigh [of e X s t ip] by (simp add: near_def)

lemma near_via: "holds e X s t \<Longrightarrow> near e dev s ip \<Longrightarrow> route_via e t ip nh m (Some dev) \<Longrightarrow> near e dev t ip"
  using attached_via [of e t ip nh m dev] holds_neigh [of e X s t ip] by (simp add: near_def)

lemma standing_dev: "standing e dev s \<Longrightarrow> \<exists>x. nd_ip_ptr dev = Some x"
  by (auto simp: standing_def elim: radioE)

section \<open>A request arrives\<close>

definition request_bytes :: "kenv \<Rightarrow> rreq \<Rightarrow> u8 list" where
  "request_bytes e q = rreq_bytes (ke_big_endian e) (convert_rreq_to_network e q)"

lemma length_request [simp]: "length (request_bytes e q) = 24"
  by (simp add: request_bytes_def)

lemma request_head: "request_bytes e q ! 0 = rq_type q"
  by (simp add: request_bytes_def rreq_bytes_def convert_rreq_to_network_def)

lemma request_of_request: "rq_reserved q = 0 \<Longrightarrow> request_of e (request_bytes e q) = q"
  by (simp add: request_of_def request_bytes_def convert_rreq_to_host_def convert_rreq_to_network_def)

text \<open>The request q is new to the station and its originator can be learned.\<close>

definition acceptable :: "kenv \<Rightarrow> aodv_state \<Rightarrow> rreq \<Rightarrow> bool" where
  "acceptable e s q = (find_flood_id e (rq_src_ip q) (rq_rreq_id q) s = None \<and> rq_src_ip q \<noteq> 0
     \<and> learnable e s (rq_src_ip q) (rq_src_seq q) \<and> rq_type q = 1 \<and> rq_reserved q = 0)"

lemma holds_insert_flood: "lt = getcurrtime s + PATH_DISCOVERY_TIME \<Longrightarrow> holds e {} s (snd (insert_flood_id e a b i lt s))"
  by (rule holds_same [OF ev_insert_flood]) simp_all

lemma request_accepted:
  assumes "no_oom e" "standing e dev s" "near e dev s prev" "acceptable e s q" "1 < ttl"
    and q': "q' = q\<lparr>rq_metric := rq_metric q + 1\<rparr>"
  shows "\<exists>u. holds e {rq_src_ip q} s u \<and> route_via e u (rq_src_ip q) prev (rq_metric q + 1) (Some dev)
    \<and> takes e prev (to, ttl, request_bytes e q) dev s =
        cleared s (let (reply, v) = reply_to_rreq e q' u
          in if reply then snd (gen_rrep e (rq_src_ip q) (rq_dst_ip q) v) else snd (forward_rreq e q' (uint ttl) v))"
proof -
  let ?src = "rq_src_ip q" and ?k = "handed_task e 1 prev (to, ttl, request_bytes e q) dev s"
  have st: "plain s" "a_tasks s = []" "\<not> ke_time_before e (getcurrtime s + 3000) (getcurrtime s)"
    using assms(2) by (simp_all add: standing_def)
  obtain x where x: "nd_ip_ptr dev = Some x" using standing_dev [OF assms(2)] by blast
  have rest: "find_flood_id e ?src (rq_rreq_id q) s = None" "?src \<noteq> 0" "learnable e s ?src (rq_src_seq q)" "rq_type q = 1"
      "request_of e (request_bytes e q) = q" "nd_word12 dev \<noteq> prev" "valid_aodv_neigh e prev s"
    using assms(3,4) request_of_request [of q e] by (simp_all add: acceptable_def near_def)
  define s1 where "s1 = snd (find_aodv_route e ?src (handed s))"
  define s2 where "s2 = snd (update_aodv_route e ?src prev (rq_metric q + 1) (rq_src_seq q) (Some dev) s1)"
  define u where "u = snd (insert_flood_id e ?src (rq_dst_ip q) (rq_rreq_id q) (getcurrtime (handed s) + 1600) s2)"
  have h0: "holds e {} s (handed s)" by (rule holds_handed [OF st(2)])
  have h1: "holds e {} s s1"
    unfolding s1_def by (rule ho.trans [OF h0 holds_find]) (rule holds_plain [OF h0 st(1)])
  have l: "plain s1" "valid_aodv_neigh e prev s1" "learnable e s1 ?src (rq_src_seq q)"
      "\<not> ke_time_before e (getcurrtime s1 + 3000) (getcurrtime s1)"
    using holds_plain [OF h1 st(1)] holds_neigh [OF h1] rest(7) holds_learnable [OF h1 st(1) _ rest(3)] holds_time [OF h1] st(3)
    by simp_all
  from update_learns [OF l(1,2) assms(1) rest(2) l(3,4) s2_def]
  have u2: "holds e {?src} s1 s2" "route_via e s2 ?src prev (rq_metric q + 1) (Some dev)" by simp_all
  have h2: "holds e {?src} s s2" using ho.trans [OF holds_wider [OF h1] u2(1)] by simp
  have h3: "holds e {} s2 u" unfolding u_def
    by (rule holds_insert_flood) (simp add: holds_time [OF h2] holds_time [OF h0])
  have n: "find_flood_id e ?src (rq_rreq_id q) (handed s) = None"
    using rest(1) by (simp add: find_flood_id_def handed_fields)
  obtain p where p: "find_aodv_route e ?src (handed s) = (p, s1)" by (cases "find_aodv_route e ?src (handed s)") (simp add: s1_def)
  obtain reply v where rv: "reply_to_rreq e q' u = (reply, v)" by fastforce
  have "snd (recv_rreq e ?k (handed s)) =
      (if reply then snd (gen_rrep e ?src (rq_dst_ip q) v) else snd (forward_rreq e q' (uint ttl) v))"
    using assms(5) n p l(2) rv
    by (cases reply)
      (simp_all add: recv_rreq_def request_of_def [symmetric] rest(5) check_rreq_def Let_def not_le q'
        s2_def [symmetric] u_def [symmetric])
  moreover have "takes e prev (to, ttl, request_bytes e q) dev s = cleared s (snd (recv_rreq e ?k (handed s)))"
    by (rule takes_request [OF assms(1) st(2) x rest(6)]) (simp_all add: request_head rest(4))
  ultimately have "takes e prev (to, ttl, request_bytes e q) dev s =
      cleared s (let (reply, v) = reply_to_rreq e q' u
        in if reply then snd (gen_rrep e ?src (rq_dst_ip q) v) else snd (forward_rreq e q' (uint ttl) v))"
    by (simp add: rv)
  moreover have "holds e {?src} s u" "route_via e u ?src prev (rq_metric q + 1) (Some dev)"
    using ho.trans [OF h2 holds_wider [OF h3]] holds_via [OF h3 holds_plain [OF h2 st(1)] _ u2(2)] by simp_all
  ultimately show ?thesis by blast
qed

text \<open>A station on the way does not answer.\<close>

lemma reply_declined:
  assumes "plain u" "aodv_subnet_test (rq_dst_ip q) u" "gets e u (rq_dst_ip q) n nxt m d"
  shows "reply_to_rreq e q u = (False, snd (find_aodv_route e (rq_dst_ip q) u))"
proof (cases "unknown u (rq_dst_ip q)")
  case True
  then obtain v where f: "find_aodv_route e (rq_dst_ip q) u = (None, v)" using find_unknown [OF assms(1)] by blast
  have "a_devs v = a_devs u" using find_aodv_route_frame [where s = u and e = e and t = "rq_dst_ip q"] f by simp
  then show ?thesis using assms(2) by (simp add: reply_to_rreq_def f aodv_subnet_test_def Let_def)
next
  case False
  then obtain p r where pr: "live_route e u (rq_dst_ip q) p r" "\<not> rt_self r" using gets_foreign [OF assms(3)] by blast
  obtain v where f: "find_aodv_route e (rq_dst_ip q) u = (Some p, v)" using find_live [OF assms(1) pr(1)] by blast
  have h: "holds e {} u v" using holds_find [OF assms(1), where e = e and ip = "rq_dst_ip q"] f by simp
  have "route_get p v = Some r" "a_devs v = a_devs u"
    using live_get [OF holds_plain [OF h assms(1)] holds_live [OF h assms(1) _ pr(1)]] holds_globals(2) [OF h] by simp_all
  then show ?thesis using assms(2) pr(2) by (simp add: reply_to_rreq_def f aodv_subnet_test_def Let_def)
qed

lemma request_passed_on:
  assumes "no_oom e" "standing e dev s" "near e dev s prev" "acceptable e s q" "1 < ttl"
    and "aodv_subnet_test (rq_dst_ip q) s" "gets e s (rq_dst_ip q) n nxt m d" "rq_dst_ip q \<noteq> rq_src_ip q"
    and t: "t = takes e prev (to, ttl, request_bytes e q) dev s"
  shows "holds e {rq_src_ip q} s t" "route_via e t (rq_src_ip q) prev (rq_metric q + 1) (Some dev)"
    "last_sent t = (g_broadcast_ip s, ttl - 1, request_bytes e (q\<lparr>rq_metric := rq_metric q + 1\<rparr>))"
proof -
  let ?q = "q\<lparr>rq_metric := rq_metric q + 1\<rparr>"
  obtain u where u: "holds e {rq_src_ip q} s u" "route_via e u (rq_src_ip q) prev (rq_metric q + 1) (Some dev)"
      "t = cleared s (let (reply, v) = reply_to_rreq e ?q u
          in if reply then snd (gen_rrep e (rq_src_ip q) (rq_dst_ip q) v) else snd (forward_rreq e ?q (uint ttl) v))"
    using request_accepted [OF assms(1-5) refl, of to] t by blast
  have st: "plain s" "radio e dev s" using assms(2) by (simp_all add: standing_def)
  have p: "plain u" by (rule holds_plain [OF u(1) st(1)])
  have "aodv_subnet_test (rq_dst_ip ?q) u" using assms(6) holds_globals(2) [OF u(1)] by (simp add: aodv_subnet_test_def)
  moreover have "gets e u (rq_dst_ip ?q) n nxt m d" using holds_gets [OF u(1) st(1) _ assms(7)] assms(8) by simp
  ultimately have r: "reply_to_rreq e ?q u = (False, snd (find_aodv_route e (rq_dst_ip q) u))"
    using reply_declined [OF p, of ?q] by simp
  define v where "v = snd (find_aodv_route e (rq_dst_ip q) u)"
  define w where "w = snd (local_broadcast e (ttl - 1) (request_bytes e ?q) v)"
  have hv: "holds e {} u v" unfolding v_def by (rule holds_find [OF p])
  have hw: "holds e {} v w" unfolding w_def by (rule holds_out [OF local_broadcast_out])
  have "(word_of_int (uint ttl - 1) :: u8) = ttl - 1" by (simp add: word_of_int_minus)
  then have t': "t = cleared s w" by (simp add: u(3) r v_def [symmetric] forward_rreq_def request_bytes_def [symmetric] w_def)
  have h: "holds e {} u t" unfolding t' by (rule ho.trans [OF ho.trans [OF hv hw] holds_cleared])
  show "holds e {rq_src_ip q} s t" using ho.trans [OF u(1) holds_wider [OF h]] by simp
  show "route_via e t (rq_src_ip q) prev (rq_metric q + 1) (Some dev)" by (rule holds_via [OF h p _ u(2)]) simp
  have "radio e dev v" using st(2) holds_radio [OF u(1)] holds_radio [OF hv] by simp
  moreover have "ttl - 1 \<noteq> 0" using assms(5) by auto
  moreover have "g_broadcast_ip v = g_broadcast_ip s" using holds_globals(3) [OF u(1)] holds_globals(3) [OF hv] by simp
  ultimately show "last_sent t = (g_broadcast_ip s, ttl - 1, request_bytes e ?q)"
    using broadcast_heard [of e dev v "ttl - 1" "request_bytes e ?q"] by (simp add: t' w_def)
qed

section \<open>The destination answers\<close>

definition reply_bytes :: "kenv \<Rightarrow> rrep \<Rightarrow> u8 list" where
  "reply_bytes e r = rrep_bytes (ke_big_endian e) (convert_rrep_to_network e r)"

lemma reply_head: "reply_bytes e r ! 0 = rp_type r" "length (reply_bytes e r) = 20"
  by (simp_all add: reply_bytes_def rrep_bytes_def convert_rrep_to_network_def)

lemma reply_of_reply: "rp_reserved1 r = 0 \<Longrightarrow> convert_rrep_to_host e (bytes_rrep (ke_big_endian e) (reply_bytes e r)) = r"
  by (simp add: reply_bytes_def convert_rrep_to_host_def convert_rrep_to_network_def)

text \<open>A reply that tells src of a route to dst with this sequence number and metric.\<close>

definition tells :: "u32 \<Rightarrow> u32 \<Rightarrow> u32 \<Rightarrow> u8 \<Rightarrow> rrep \<Rightarrow> bool" where
  "tells src dst seq metric r = (rp_type r = 2 \<and> rp_reserved1 r = 0 \<and> rp_src_ip r = src \<and> rp_dst_ip r = dst
     \<and> rp_dst_seq r = seq \<and> rp_metric r = metric)"

text \<open>The sequence number with which a destination answers a request that knows n.\<close>

definition answer_seq :: "u32 \<Rightarrow> u32 \<Rightarrow> u32" where
  "answer_seq own n = (if seq_less_or_equal own n then n + 1 else own)"

lemma reply_granted:
  assumes "plain u" "aodv_subnet_test (rq_dst_ip q) u" "live_route e u (rq_dst_ip q) p own" "rt_self own"
    and "own' = own\<lparr>rt_seq := answer_seq (rt_seq own) (rq_dst_seq q)\<rparr>"
  shows "\<exists>v. reply_to_rreq e q u = (True, v) \<and> holds e {rq_dst_ip q} u v \<and> live_route e v (rq_dst_ip q) p own'"
proof -
  obtain w where f: "find_aodv_route e (rq_dst_ip q) u = (Some p, w)" using find_live [OF assms(1,3)] by blast
  have h: "holds e {} u w" using holds_find [OF assms(1), where e = e and ip = "rq_dst_ip q"] f by simp
  have w: "plain w" "live_route e w (rq_dst_ip q) p own" "a_devs w = a_devs u"
    using holds_plain [OF h assms(1)] holds_live [OF h assms(1) _ assms(3)] holds_globals(2) [OF h] by simp_all
  define v where "v = (if seq_less_or_equal (rt_seq own) (rq_dst_seq q)
    then route_upd p (\<lambda>r. r\<lparr>rt_seq := rq_dst_seq q + 1\<rparr>) w else w)"
  have "\<not> route_stale e (getcurrtime w) (own\<lparr>rt_seq := rq_dst_seq q + 1\<rparr>)" using assms(4) by (simp add: route_stale_def)
  then have up: "holds e {rq_dst_ip q} w (route_upd p (\<lambda>r. r\<lparr>rt_seq := rq_dst_seq q + 1\<rparr>) w)"
      "live_route e (route_upd p (\<lambda>r. r\<lparr>rt_seq := rq_dst_seq q + 1\<rparr>) w) (rq_dst_ip q) p (own\<lparr>rt_seq := rq_dst_seq q + 1\<rparr>)"
    using live_upd [OF w(1,2), of "\<lambda>r. r\<lparr>rt_seq := rq_dst_seq q + 1\<rparr>"] by simp_all
  have "reply_to_rreq e q u = (True, v)"
    using assms(2,4) live_get [OF w(1,2)]
    by (simp add: reply_to_rreq_def f aodv_subnet_test_def w(3) v_def deref_upd_def Let_def)
  moreover have "holds e {rq_dst_ip q} u v" using ho.trans [OF holds_wider [OF h] up(1)] holds_wider [OF h] by (simp add: v_def)
  moreover have "live_route e v (rq_dst_ip q) p own'" using up(2) w(2) by (simp add: v_def assms(5) answer_seq_def)
  ultimately show ?thesis by blast
qed

lemma holds_kmalloc: "holds e {} s (snd (kmalloc e s))"
  by (rule holds_same [OF ev_kmalloc]) (simp_all add: kmalloc_def)

lemma reply_sent:
  assumes "no_oom e" "plain v" "radio e dev v" "attached e dev v prev" "route_via e v src prev m (Some dev)"
    and "live_route e v dst p own" "rt_self own"
  shows "\<exists>r. tells src dst (rt_seq own) (rt_metric own) r \<and> holds e {} v (snd (gen_rrep e src dst v))
    \<and> last_sent (snd (gen_rrep e src dst v)) = (prev, 10, reply_bytes e r)"
proof -
  obtain p0 r0 where r0: "live_route e v src p0 r0" "rt_next_hop r0 = prev" using assms(5) by (auto simp: route_via_def)
  obtain v1 where f1: "find_aodv_route e src v = (Some p0, v1)" using find_live [OF assms(2) r0(1)] by blast
  have h1: "holds e {} v v1" using holds_find [OF assms(2), where e = e and ip = src] f1 by simp
  note pl1 = holds_plain [OF h1 assms(2)]
  have l1: "live_route e v1 dst p own" using holds_live [OF h1 assms(2) _ assms(6)] by simp
  obtain v2 where f2: "find_aodv_route e dst v1 = (Some p, v2)" using find_live [OF pl1 l1] by blast
  have h2: "holds e {} v v2" using ho.trans [OF h1 holds_find [OF pl1, where e = e and ip = dst]] f2 by simp
  note pl2 = holds_plain [OF h2 assms(2)]
  have g: "route_get p0 v2 = Some r0" "route_get p v2 = Some own"
    using live_get [OF pl2] holds_live [OF h2 assms(2)] r0(1) assms(6) by blast+
  have ip: "rt_ip r0 = src" "rt_ip own = dst" using r0(1) assms(6) by (simp_all add: live_route_def)
  define v3 where "v3 = snd (kmalloc e v2)"
  have h3: "holds e {} v v3" unfolding v3_def by (rule ho.trans [OF h2 holds_kmalloc])
  define r where "r = \<lparr>rp_type = 2, rp_a = bit (ke_junk e (k_allocs v2) 0) 0, rp_reserved1 = 0, rp_reserved2 = 0,
    rp_metric = rt_metric own, rp_dst_ip = dst, rp_dst_seq = rt_seq own, rp_src_ip = src, rp_lifetime = MY_ROUTE_TIMEOUT\<rparr>"
  define w where "w = snd (send_message e prev 10 (reply_bytes e r) None v3)"
  have "reply_message e (k_allocs v2) r0 own now = convert_rrep_to_network e r" for now
    using assms(7) ip by (simp add: reply_message_def r_def convert_rrep_to_network_def)
  then have t: "snd (gen_rrep e src dst v) = kfree (k_allocs v2) w"
    using g by (simp add: gen_rrep_def f1 f2 send_rrep_def kmalloc_no_oom [OF assms(1)] r0(2) reply_bytes_def w_def v3_def)
  have "radio e dev v3" "attached e dev v3 prev"
    using assms(3) holds_radio [OF h3] holds_attached [OF h3 assms(2) _ assms(4)] by simp_all
  from message_heard [OF holds_plain [OF h3 assms(2)] this, where ttl = 10 and bs = "reply_bytes e r" and t = w]
  have w: "holds e {} v3 w" "last_sent w = (prev, 10, reply_bytes e r)" by (simp_all add: w_def reply_head)
  have "holds e {} v (snd (gen_rrep e src dst v))"
    unfolding t by (rule ho.trans [OF ho.trans [OF h3 w(1)] holds_kfree])
  moreover have "last_sent (snd (gen_rrep e src dst v)) = (prev, 10, reply_bytes e r)"
    using w(2) by (simp add: t last_sent_def)
  ultimately show ?thesis by (intro exI [of _ r]) (simp add: tells_def r_def)
qed

lemma request_answered:
  assumes "no_oom e" "standing e dev s" "near e dev s prev" "acceptable e s q" "1 < ttl"
    and "aodv_subnet_test (rq_dst_ip q) s" "live_route e s (rq_dst_ip q) p own" "rt_self own"
    and "rq_dst_ip q \<noteq> rq_src_ip q" "rq_dst_ip q \<noteq> prev"
    and t: "t = takes e prev (to, ttl, request_bytes e q) dev s"
  shows "holds e {rq_src_ip q, rq_dst_ip q} s t" "route_via e t (rq_src_ip q) prev (rq_metric q + 1) (Some dev)"
    "\<exists>r. tells (rq_src_ip q) (rq_dst_ip q) (answer_seq (rt_seq own) (rq_dst_seq q)) (rt_metric own) r
       \<and> last_sent t = (prev, 10, reply_bytes e r)"
proof -
  let ?src = "rq_src_ip q" and ?dst = "rq_dst_ip q" and ?q = "q\<lparr>rq_metric := rq_metric q + 1\<rparr>"
  define own' where "own' = own\<lparr>rt_seq := answer_seq (rt_seq own) (rq_dst_seq ?q)\<rparr>"
  obtain u where u: "holds e {?src} s u" "route_via e u ?src prev (rq_metric q + 1) (Some dev)"
      "t = cleared s (let (reply, v) = reply_to_rreq e ?q u
          in if reply then snd (gen_rrep e ?src ?dst v) else snd (forward_rreq e ?q (uint ttl) v))"
    using request_accepted [OF assms(1-5) refl, of to] t by blast
  have st: "plain s" "radio e dev s" using assms(2) by (simp_all add: standing_def)
  note p = holds_plain [OF u(1) st(1)]
  have n: "near e dev u prev"
  proof (cases "prev = ?src")
    case True
    then show ?thesis using near_via [OF u(1) assms(3)] u(2) by simp
  next
    case False
    then show ?thesis using holds_near [OF u(1) st(1) _ assms(3)] by simp
  qed
  have "aodv_subnet_test (rq_dst_ip ?q) u" "live_route e u (rq_dst_ip ?q) p own"
    using assms(6) holds_globals(2) [OF u(1)] holds_live [OF u(1) st(1) _ assms(7)] assms(9) by (simp_all add: aodv_subnet_test_def)
  from reply_granted [OF p this assms(8) own'_def]
  obtain v where v: "reply_to_rreq e ?q u = (True, v)" "holds e {?dst} u v" "live_route e v ?dst p own'" by auto
  note pv = holds_plain [OF v(2) p]
  have "radio e dev v" "attached e dev v prev" "route_via e v ?src prev (rq_metric q + 1) (Some dev)"
    using st(2) holds_radio [OF u(1)] holds_radio [OF v(2)] holds_near [OF v(2) p _ n] holds_via [OF v(2) p _ u(2)] assms(9,10)
    by (simp_all add: near_def)
  from reply_sent [OF assms(1) pv this v(3)]
  obtain r where r: "tells ?src ?dst (rt_seq own') (rt_metric own') r" "holds e {} v (snd (gen_rrep e ?src ?dst v))"
      "last_sent (snd (gen_rrep e ?src ?dst v)) = (prev, 10, reply_bytes e r)"
    using assms(8) by (auto simp: own'_def)
  have t': "t = cleared s (snd (gen_rrep e ?src ?dst v))" by (simp add: u(3) v(1))
  have h: "holds e {?dst} u t"
    unfolding t' using ho.trans [OF v(2) holds_wider [OF ho.trans [OF r(2) holds_cleared]]] by simp
  show "holds e {?src, ?dst} s t"
    by (rule ho.trans [OF holds_wider [OF u(1)] holds_wider [OF h]]) simp_all
  show "route_via e t ?src prev (rq_metric q + 1) (Some dev)" by (rule holds_via [OF h p _ u(2)]) (use assms(9) in simp)
  show "\<exists>r. tells ?src ?dst (answer_seq (rt_seq own) (rq_dst_seq q)) (rt_metric own) r
      \<and> last_sent t = (prev, 10, reply_bytes e r)"
    using r(1,3) by (intro exI [of _ r]) (simp add: own'_def t')
qed

section \<open>A reply arrives\<close>

lemma holds_timers: "holds e {} s (update_timer_queue e (delete_timer ip ty s))"
  by (rule ho.trans [OF holds_same [OF ev_delete_timer] holds_same [OF ev_update_timer_queue]]) simp_all

lemma delete_timer_gone: "find_timer i ty (delete_timer i ty s) = None"
proof -
  have "nl_find (timer_matches i ty) (fst (delete_timer_loop i ty ts s)) = None" for ts s
    by (induction i ty ts s rule: delete_timer_loop.induct) (simp_all add: case_prod_beta)
  then show ?thesis by (simp add: find_timer_def delete_timer_def case_prod_beta)
qed

lemma reply_learned:
  assumes "no_oom e" "standing e dev s" "nd_word12 dev \<noteq> nxt" "valid_aodv_neigh e nxt s" "tells src dst seq m r"
    "src \<noteq> dst" "dst \<noteq> 0" "gets e s dst seq nxt (m + 1) (Some dev)"
  shows "\<exists>u. holds e {dst} s u \<and> route_via e u dst nxt (m + 1) (Some dev)
    \<and> (learnable e s dst seq \<longrightarrow> lets_go dst s u) \<and> find_timer dst 101 u = None
    \<and> takes e nxt (to, ttl, reply_bytes e r) dev s =
        cleared s (let (send_route, w) = find_aodv_route e src u
          in case send_route of
               None \<Rightarrow> w
             | Some p \<Rightarrow>
                 (case route_get p w of
                    None \<Rightarrow> fault w
                  | Some x \<Rightarrow> if rt_self x then w
                      else snd (send_message e (rt_next_hop x) 10 (reply_bytes e (r\<lparr>rp_metric := m + 1\<rparr>)) None w)))"
proof -
  let ?k = "handed_task e 2 nxt (to, ttl, reply_bytes e r) dev s"
  have st: "plain s" "a_tasks s = []" "\<not> ke_time_before e (getcurrtime s + 3000) (getcurrtime s)"
    using assms(2) by (simp_all add: standing_def)
  have r: "rp_type r = 2" "rp_reserved1 r = 0" "rp_src_ip r = src" "rp_dst_ip r = dst" "rp_dst_seq r = seq" "rp_metric r = m"
    using assms(5) by (simp_all add: tells_def)
  obtain x where x: "nd_ip_ptr dev = Some x" using standing_dev [OF assms(2)] by blast
  define s1 where "s1 = update_timer_queue e (delete_timer dst 101 (handed s))"
  define u where "u = snd (update_aodv_route e dst nxt (m + 1) seq (Some dev) s1)"
  have h0: "holds e {} s (handed s)" by (rule holds_handed [OF st(2)])
  have h1: "holds e {} s s1" unfolding s1_def by (rule ho.trans [OF h0 holds_timers])
  have l: "plain s1" "valid_aodv_neigh e nxt s1" "gets e s1 dst seq nxt (m + 1) (Some dev)"
      "\<not> ke_time_before e (getcurrtime s1 + 3000) (getcurrtime s1)"
    using holds_plain [OF h1 st(1)] holds_neigh [OF h1] assms(4) holds_gets [OF h1 st(1) _ assms(8)] holds_time [OF h1] st(3)
    by simp_all
  from update_gets [OF l(1,2) assms(1,7) l(3,4) u_def]
  have u: "holds e {dst} s1 u" "route_via e u dst nxt (m + 1) (Some dev)" "learnable e s dst seq \<longrightarrow> lets_go dst s1 u"
    using holds_learnable [OF h1 st(1)] by simp_all
  have "check_rrep e r ?k (handed s) = (True, s1)"
    using assms(4,6) holds_neigh [OF h0] by (simp add: check_rrep_def r s1_def)
  then have "snd (recv_rrep e ?k (handed s)) =
      (let (send_route, w) = find_aodv_route e src u
       in case send_route of
            None \<Rightarrow> w
          | Some p \<Rightarrow>
              (case route_get p w of
                 None \<Rightarrow> fault w
               | Some x \<Rightarrow> if rt_self x then w
                   else snd (send_message e (rt_next_hop x) 10 (reply_bytes e (r\<lparr>rp_metric := m + 1\<rparr>)) None w)))"
    by (cases "find_aodv_route e src u")
      (simp add: recv_rrep_def reply_of_reply r Let_def u_def [symmetric] reply_bytes_def [symmetric] split: option.split)
  moreover have "takes e nxt (to, ttl, reply_bytes e r) dev s = cleared s (snd (recv_rrep e ?k (handed s)))"
    by (rule takes_reply [OF assms(1) st(2) x assms(3)]) (simp_all add: reply_head r)
  moreover have "q_list s1 = q_list s" by (simp add: s1_def handed_fields)
  moreover have "find_timer dst 101 u = None"
    using delete_timer_gone [of dst 101 "handed s"] by (simp add: find_timer_def u_def update_route_frame(3) s1_def)
  moreover have "holds e {dst} s u" using ho.trans [OF holds_wider [OF h1] u(1)] by simp
  ultimately show ?thesis using u(2,3) by (intro exI [of _ u]) (simp add: lets_go_def)
qed

lemma reply_passed_on:
  assumes "no_oom e" "standing e dev s" "nd_word12 dev \<noteq> nxt" "valid_aodv_neigh e nxt s" "tells src dst seq m r"
    "src \<noteq> dst" "dst \<noteq> 0" "gets e s dst seq nxt (m + 1) (Some dev)"
    and "route_via e s src prev h (Some dev)" "attached e dev s prev" "prev \<noteq> dst"
    and t: "t = takes e nxt (to, ttl, reply_bytes e r) dev s"
  shows "holds e {dst} s t" "route_via e t dst nxt (m + 1) (Some dev)"
    "tells src dst seq (m + 1) (r\<lparr>rp_metric := m + 1\<rparr>)" "last_sent t = (prev, 10, reply_bytes e (r\<lparr>rp_metric := m + 1\<rparr>))"
proof -
  let ?r = "r\<lparr>rp_metric := m + 1\<rparr>"
  obtain u where u: "holds e {dst} s u" "route_via e u dst nxt (m + 1) (Some dev)"
    "t = cleared s (let (send_route, w) = find_aodv_route e src u
       in case send_route of
            None \<Rightarrow> w
          | Some p \<Rightarrow>
              (case route_get p w of
                 None \<Rightarrow> fault w
               | Some x \<Rightarrow> if rt_self x then w else snd (send_message e (rt_next_hop x) 10 (reply_bytes e ?r) None w)))"
    using reply_learned [OF assms(1-8), of to ttl] t by blast
  have st: "plain s" "radio e dev s" using assms(2) by (simp_all add: standing_def)
  note pu = holds_plain [OF u(1) st(1)]
  obtain p x where x: "live_route e s src p x" "\<not> rt_self x" "rt_next_hop x = prev" using assms(9) by (auto simp: route_via_def)
  have xu: "live_route e u src p x" using holds_live [OF u(1) st(1) _ x(1)] assms(6) by simp
  obtain w where f: "find_aodv_route e src u = (Some p, w)" using find_live [OF pu xu] by blast
  have hw: "holds e {} u w" using holds_find [OF pu, where e = e and ip = src] f by simp
  note pw = holds_plain [OF hw pu]
  have g: "route_get p w = Some x" using live_get [OF pw holds_live [OF hw pu _ xu]] by simp
  define v where "v = snd (send_message e prev 10 (reply_bytes e ?r) None w)"
  have t': "t = cleared s v" using x(2,3) g by (simp add: u(3) f v_def)
  have "radio e dev w" "attached e dev w prev"
    using st(2) holds_radio [OF u(1)] holds_radio [OF hw] holds_attached [OF u(1) st(1) _ assms(10)] assms(11)
      holds_attached [OF hw pu] by simp_all
  from message_heard [OF pw this, where ttl = 10 and bs = "reply_bytes e ?r" and t = v]
  have v: "holds e {} w v" "last_sent v = (prev, 10, reply_bytes e ?r)" by (simp_all add: v_def reply_head)
  have h: "holds e {} u t" unfolding t' by (rule ho.trans [OF ho.trans [OF hw v(1)] holds_cleared])
  show "holds e {dst} s t" using ho.trans [OF u(1) holds_wider [OF h]] by simp
  show "route_via e t dst nxt (m + 1) (Some dev)" by (rule holds_via [OF h pu _ u(2)]) simp
  show "tells src dst seq (m + 1) ?r" using assms(5) by (simp add: tells_def)
  show "last_sent t = (prev, 10, reply_bytes e ?r)" by (simp add: t' v(2))
qed

lemma reply_completed:
  assumes "no_oom e" "standing e dev s" "nd_word12 dev \<noteq> nxt" "valid_aodv_neigh e nxt s" "tells src dst seq m r"
    "src \<noteq> dst" "dst \<noteq> 0" "learnable e s dst seq" "live_route e s src p own" "rt_self own"
    and t: "t = takes e nxt (to, ttl, reply_bytes e r) dev s"
  shows "holds e {dst} s t" "route_via e t dst nxt (m + 1) (Some dev)"
    "lets_go dst s t" "find_timer dst 101 t = None"
proof -
  obtain u where u: "holds e {dst} s u" "route_via e u dst nxt (m + 1) (Some dev)"
    "learnable e s dst seq \<longrightarrow> lets_go dst s u" "find_timer dst 101 u = None"
    "t = cleared s (let (send_route, w) = find_aodv_route e src u
       in case send_route of
            None \<Rightarrow> w
          | Some p \<Rightarrow>
              (case route_get p w of
                 None \<Rightarrow> fault w
               | Some x \<Rightarrow> if rt_self x then w
                   else snd (send_message e (rt_next_hop x) 10 (reply_bytes e (r\<lparr>rp_metric := m + 1\<rparr>)) None w)))"
    using reply_learned [OF assms(1-7), of to ttl] assms(8) t unfolding gets_def by blast
  have st: "plain s" using assms(2) by (simp add: standing_def)
  note pu = holds_plain [OF u(1) st]
  have o: "live_route e u src p own" using holds_live [OF u(1) st _ assms(9)] assms(6) by simp
  obtain w where f: "find_aodv_route e src u = (Some p, w)" using find_live [OF pu o] by blast
  have w: "w = snd (find_aodv_route e src u)" by (simp add: f)
  have hw: "holds e {} u w" unfolding w by (rule holds_find [OF pu])
  have "route_get p w = Some own" using live_get [OF holds_plain [OF hw pu] holds_live [OF hw pu _ o]] by simp
  then have t': "t = cleared s w" using assms(10) by (simp add: u(5) f)
  have h: "holds e {} u t" unfolding t' by (rule ho.trans [OF hw holds_cleared])
  show "holds e {dst} s t" using ho.trans [OF u(1) holds_wider [OF h]] by simp
  show "route_via e t dst nxt (m + 1) (Some dev)" by (rule holds_via [OF h pu _ u(2)]) simp
  have "q_list t = q_list u" "k_out t = k_out u" by (simp_all add: t' cleared_def) (simp_all add: w)
  then show "lets_go dst s t" using u(3) assms(8) by (simp add: lets_go_def)
  have "a_timers t = a_timers u" by (simp add: t' cleared_def) (simp add: w)
  then show "find_timer dst 101 t = None" using u(4) by (simp add: find_timer_def)
qed

end
