(* ===== verification/RequestProps.thy ===== *)
theory RequestProps
  imports HandlerProps
begin

text \<open>
  The life of a route discovery: \<open>gen_rreq\<close> starts one, \<open>resend_rreq\<close> repeats it from the timer until
  its retries are spent.
\<close>

section \<open>Lemmas\<close>

lemma arm_timer_out: "\<exists>ev. k_out (arm_timer e tm q s) = k_out s @ [ev]"
  by (cases q) (simp_all add: arm_timer_def Let_def emit_def)

lemma link_timer_found: "P (snd new) \<Longrightarrow> nl_find P (link_timer e tm new q) \<noteq> None"
  by (induction q) (cases new; auto)+

lemma find_route_out:
  assumes "find_aodv_route e ip s = (p, s1)"
  shows "a_timers s1 = a_timers s" "k_out s1 = k_out s" "k_time s1 = k_time s" "k_allocs s1 = k_allocs s"
    "k_live s1 = k_live s" "a_floods s1 = a_floods s" "a_devs s1 = a_devs s" "g_broadcast_ip s1 = g_broadcast_ip s"
  using assms find_aodv_route_frame [where s = s and e = e and t = ip] by simp_all


lemma find_route_heap: "find_aodv_route e ip (u\<lparr>k_allocs := n, k_live := l\<rparr>) =
    (fst (find_aodv_route e ip u), (snd (find_aodv_route e ip u))\<lparr>k_allocs := n, k_live := l\<rparr>)"
  by (simp add: find_aodv_route_def case_prod_beta getcurrtime_def)

lemma route_get_heap: "route_get p (u\<lparr>k_allocs := n, k_live := l\<rparr>) = route_get p u"
  by (simp add: route_get_def)

section \<open>Launching a request\<close>

text \<open>What the two starters share, when memory is there and the route to the originator is found. \<open>started\<close> is
  the state the message is broadcast in.\<close>

lemma launch_rreq_sent:
  assumes "no_oom e" "link_up e 24 s"
    and "find_aodv_route e dst s = (found, s1)" "find_aodv_route e src s1 = (Some p, s2)" "route_get p s2 = Some own"
    and "own' = own\<lparr>rt_rreq_id := rt_rreq_id own + 1, rt_seq := rt_seq own + 1\<rparr>"
    and "m = request_message e d src dst (case found of None \<Rightarrow> None | Some r \<Rightarrow> route_get r s1) own'"
    and "launch_rreq e a d src dst n s = (res, t)"
  shows "res = 0" "route_get p t = Some own'"
    "a_floods t = flood_add (k_allocs s) dst (src, rt_rreq_id own') (getcurrtime s + PATH_DISCOVERY_TIME) (a_floods s)"
    "\<exists>w. a_timers t = link_timer e tk_time
       (Suc (k_allocs s), (new_task e TASK_RESEND_RREQ (Suc (k_allocs s)) (getcurrtime s))\<lparr>tk_src_ip := src, tk_dst_ip := dst,
          tk_id := dst, tk_retries := ucast n, tk_ttl := 30, tk_time := getcurrtime s + rreq_backoff n\<rparr>) (a_timers s)
       \<and> k_out t = k_out s @ [w] @ broadcast_events NET_DIAMETER (rreq_bytes (ke_big_endian e) m) s"
    "k_live t = insert (k_allocs s) (insert (Suc (k_allocs s)) (k_live s)) - {a}"
proof -
  note f = find_route_out [OF assms(3)] and g = find_route_out [OF assms(4)]
  define s3 where "s3 = route_upd p (\<lambda>r. r\<lparr>rt_rreq_id := rt_rreq_id r + 1, rt_seq := rt_seq r + 1\<rparr>) s2"
  define s4 where "s4 = snd (insert_flood_id e src dst (rt_rreq_id own') (getcurrtime s3 + PATH_DISCOVERY_TIME) s3)"
  define s5 where "s5 = snd (insert_rreq_timer e m n s4)"
  define s6 where "s6 = update_timer_queue e s5"
  define s7 where "s7 = snd (local_broadcast e NET_DIAMETER (rreq_bytes (ke_big_endian e) m) s6)"
  have own: "route_get p s3 = Some own'"
    by (simp add: s3_def route_get_upd assms(5,6))
  have s3: "k_allocs s3 = k_allocs s" "k_live s3 = k_live s" "a_floods s3 = a_floods s" "a_timers s3 = a_timers s"
    "k_out s3 = k_out s" "k_time s3 = k_time s" "a_devs s3 = a_devs s" "g_broadcast_ip s3 = g_broadcast_ip s"
    by (simp_all add: s3_def f g)
  have i: "insert_flood_id e src dst (rt_rreq_id own') (getcurrtime s3 + PATH_DISCOVERY_TIME) s3 = (0, s4)"
    by (simp add: s4_def insert_flood_id_def kmalloc_no_oom [OF assms(1)])
  have s4: "k_allocs s4 = Suc (k_allocs s)" "k_live s4 = insert (k_allocs s) (k_live s)" "k_time s4 = k_time s" "a_routes s4 = a_routes s3" "a_loose s4 = a_loose s3"
    "a_floods s4 = flood_add (k_allocs s) dst (src, rt_rreq_id own') (getcurrtime s + PATH_DISCOVERY_TIME) (a_floods s)"
    "a_timers s4 = a_timers s" "k_out s4 = k_out s" "a_devs s4 = a_devs s" "g_broadcast_ip s4 = g_broadcast_ip s"
    by (simp_all add: s4_def insert_flood_id_def kmalloc_no_oom [OF assms(1)] s3 flood_add_def getcurrtime_cong [OF s3(6)])
  let ?new = "(Suc (k_allocs s), (new_task e TASK_RESEND_RREQ (Suc (k_allocs s)) (getcurrtime s))\<lparr>tk_src_ip := src,
    tk_dst_ip := dst, tk_id := dst, tk_retries := ucast n, tk_ttl := 30, tk_time := getcurrtime s + rreq_backoff n\<rparr>)"
  note now = getcurrtime_cong [OF s4(3)]
  have "rq_src_ip m = src" "rq_dst_ip m = dst" by (simp_all add: assms(7) request_message_def)
  then have s5: "k_live s5 = insert (Suc (k_allocs s)) (k_live s4)" "a_timers s5 = link_timer e tk_time ?new (a_timers s)"
    "k_out s5 = k_out s" "a_devs s5 = a_devs s" "g_broadcast_ip s5 = g_broadcast_ip s" "a_routes s5 = a_routes s3"
    "a_loose s5 = a_loose s3" "a_floods s5 = a_floods s4"
    by (simp_all add: s5_def insert_rreq_timer_def create_task_def kmalloc_no_oom [OF assms(1)] s4 queue_timer_def now)
  obtain w where w: "k_out s6 = k_out s @ [w]"
    using arm_timer_out [of e tk_time "a_timers s5" s5] by (auto simp: s6_def update_timer_queue_def s5)
  have "launch_rreq e a d src dst n s = (0, kfree a s7)"
    using assms(3-5) own i by (simp add: launch_rreq_def Let_def s3_def [symmetric] assms(7) s5_def s6_def s7_def)
  then have t: "res = 0" "t = kfree a s7" using assms(8) by simp_all
  show "res = 0" by (rule t(1))
  have "link_up e (length (rreq_bytes (ke_big_endian e) m)) s6"
    using assms(2) by (simp add: link_up_def s6_def s5)
  from local_broadcast_sent [OF this, of NET_DIAMETER]
  have out: "k_out s7 = k_out s @ [w] @ broadcast_events NET_DIAMETER (rreq_bytes (ke_big_endian e) m) s"
    by (simp add: s7_def w) (simp add: broadcast_events_def s6_def s5)
  have s7: "out_only s6 s7" unfolding s7_def by (rule local_broadcast_out)
  note s7 = out_only_fields [OF s7]
  show "route_get p t = Some own'" using own by (simp add: route_get_def t(2) s7 s6_def s5)
  show "a_floods t = flood_add (k_allocs s) dst (src, rt_rreq_id own') (getcurrtime s + PATH_DISCOVERY_TIME) (a_floods s)"
    by (simp add: t(2) s7 s6_def s5 s4)
  show "\<exists>w. a_timers t = link_timer e tk_time ?new (a_timers s)
       \<and> k_out t = k_out s @ [w] @ broadcast_events NET_DIAMETER (rreq_bytes (ke_big_endian e) m) s"
    by (intro exI [of _ w]) (simp add: t(2) out s7(8) s6_def s5)
  show "k_live t = insert (k_allocs s) (insert (Suc (k_allocs s)) (k_live s)) - {a}"
    by (auto simp: t(2) s7 s6_def s5 s4)
qed

section \<open>Starting, repeating and giving up\<close>

text \<open>C15. Starting a route discovery. When no discovery for the destination is under way, memory is there and the interfaces
  work, \<open>gen_rreq\<close> increments the request number and the sequence number of the route to the
  originator, remembers the new request, broadcasts it once on every interface and sets a timer under which it will
  be repeated, so that a second packet for the same destination sends nothing. It also loses the first of the
  two blocks it allocates for the message.\<close>

theorem gen_rreq_starts:
  assumes "no_oom e" "link_up e 24 s" "find_timer dst 101 s = None"
    and "find_aodv_route e dst s = (found, s1)" "find_aodv_route e src s1 = (Some p, s2)" "route_get p s2 = Some own"
    and "own' = own\<lparr>rt_rreq_id := rt_rreq_id own + 1, rt_seq := rt_seq own + 1\<rparr>"
    and "m = request_message e True src dst (case found of None \<Rightarrow> None | Some r \<Rightarrow> route_get r s1) own'"
    and "gen_rreq e src dst s = (res, t)"
  shows "res = 0 \<and> route_get p t = Some own'
    \<and> (\<exists>w. k_out t = k_out s @ [w] @ broadcast_events 10 (rreq_bytes (ke_big_endian e) m) s)
    \<and> (\<exists>a. a_floods t = flood_add a dst (src, rt_rreq_id own') (getcurrtime s + 1600) (a_floods s))
    \<and> gen_rreq e src dst t = (0, t)
    \<and> k_allocs s \<in> k_live t \<and> Suc (k_allocs s) \<notin> k_live t"
proof -
  note no_oom = kmalloc_no_oom [OF assms(1)]
  define s' where "s' = s\<lparr>k_allocs := Suc (Suc (k_allocs s)), k_live := insert (Suc (k_allocs s)) (insert (k_allocs s) (k_live s))\<rparr>"
  have t: "launch_rreq e (Suc (k_allocs s)) True src dst RREQ_RETRIES s' = (res, t)"
    using assms(9) by (simp add: gen_rreq_def assms(3) no_oom s'_def)
  have up: "link_up e 24 s'" using assms(2) by (simp add: link_up_def s'_def)
  have f1: "find_aodv_route e dst s' = (found, s1\<lparr>k_allocs := k_allocs s', k_live := k_live s'\<rparr>)"
    using assms(4) by (simp add: s'_def find_route_heap)
  have f2: "find_aodv_route e src (s1\<lparr>k_allocs := k_allocs s', k_live := k_live s'\<rparr>) =
      (Some p, s2\<lparr>k_allocs := k_allocs s', k_live := k_live s'\<rparr>)"
    using assms(5) by (simp add: find_route_heap)
  note l = launch_rreq_sent [OF assms(1) up f1 f2 _ assms(7) _ t, unfolded route_get_heap, OF assms(6,8)]
  have now: "getcurrtime s' = getcurrtime s" by (simp add: s'_def getcurrtime_def)
  obtain w n where w: "a_timers t = link_timer e tk_time n (a_timers s')" "tk_id (snd n) = dst" "tk_type (snd n) = 101"
      "k_out t = k_out s' @ [w] @ broadcast_events NET_DIAMETER (rreq_bytes (ke_big_endian e) m) s'"
    using l(4) by (auto simp: new_task_def)
  have "find_timer dst 101 t \<noteq> None"
    unfolding find_timer_def w(1) by (rule link_timer_found) (simp add: timer_matches_def w(2,3))
  then have "gen_rreq e src dst t = (0, t)" by (simp add: gen_rreq_def)
  moreover have "broadcast_events NET_DIAMETER x s' = broadcast_events 10 x s" "k_out s' = k_out s" "a_floods s' = a_floods s" for x
    by (simp_all add: s'_def broadcast_events_def)
  moreover have "k_allocs s \<in> k_live t" "Suc (k_allocs s) \<notin> k_live t"
    unfolding l(5) by (simp_all add: s'_def)
  ultimately show ?thesis
    using l(1,2,3) w(4) unfolding now by (simp add: exI [of _ "k_allocs s'"])
qed

text \<open>On the node of theory \<open>AodvDemo\<close>.\<close>

lemma demo_find_self: "find_aodv_route demo_env 0xc0a80001 node = (Some 2, node)"
  by (simp add: find_aodv_route_eq [OF routes_okD(1) [OF node_routes_ok]])
    (simp add: demo_defs compare_aodv_route_def pass_route_def route_stale_def getcurrtime_def)

lemma demo_get_self: "route_get 2 node = Some (demo_route 0xc0a80001 0xc0a80001 0 1)"
  by (simp add: route_get_def demo_defs)

theorem gen_rreq_starts_witness:
  "route_get 2 (snd (gen_rreq demo_env 0xc0a80001 0xc0a80009 node)) =
     Some ((demo_route 0xc0a80001 0xc0a80001 0 1)\<lparr>rt_rreq_id := 1, rt_seq := 2\<rparr>)"
proof -
  have "find_timer 0xc0a80009 101 node = None" by (simp add: find_timer_def demo_defs)
  from gen_rreq_starts [OF demo_no_oom demo_link_up this demo_find demo_find_self demo_get_self refl refl prod.collapse [symmetric]]
  show ?thesis by (simp add: demo_route_def)
qed

lemma ucast_0_iff: "(ucast (n :: u8) :: u16) = 0 \<longleftrightarrow> n = 0"
  by transfer simp

lemma ucast_pred: "(ucast ((ucast (n :: u8) :: u16) - 1) :: u8) = n - 1"
proof -
  have "take_bit 8 (take_bit 8 x - 1) = take_bit 8 (x - 1)" for x :: int
    using take_bit_diff [of 8 x 1] take_bit_diff [of 8 "take_bit 8 x" 1] by simp
  then show ?thesis by transfer simp
qed

text \<open>C16. Repeating a discovery, and giving it up. The timer of a discovery with retries left sends the request again, renumbered
  and without the D flag, and is set again with one retry less; so a discovery sends its request \<open>RREQ_RETRIES\<close> + 1
  times at most. Once the retries are spent, every packet that waits for the destination is dropped, in order of
  arrival and with an ICMP error, and nothing is sent.\<close>

theorem resend_rreq_counts_down:
  fixes n :: u8
  assumes "no_oom e" "link_up e 24 s" "tk_retries k = ucast n"
    and "find_aodv_route e (tk_dst_ip k) s = (found, s1)" "find_aodv_route e (tk_src_ip k) s1 = (Some p, s2)"
    and "route_get p s2 = Some own" "own' = own\<lparr>rt_rreq_id := rt_rreq_id own + 1, rt_seq := rt_seq own + 1\<rparr>"
    and "m = request_message e False (tk_src_ip k) (tk_dst_ip k) (case found of None \<Rightarrow> None | Some r \<Rightarrow> route_get r s1) own'"
    and "resend_rreq e k s = (res, t)"
  shows "res = 0
    \<and> (n = 0 \<longrightarrow> a_timers t = a_timers s \<and> a_routes t = a_routes s
        \<and> q_list t = filter (\<lambda>q. \<not> ip_cmp (tk_dst_ip k) q) (q_list s)
        \<and> k_out t = k_out s @ concat (map (\<lambda>q. [IcmpUnreach (qe_id q), Reinject (qe_id q) NF_DROP])
            (filter (ip_cmp (tk_dst_ip k)) (q_list s))))
    \<and> (0 < n \<longrightarrow> route_get p t = Some own'
        \<and> (\<exists>w. k_out t = k_out s @ [w] @ broadcast_events 10 (rreq_bytes (ke_big_endian e) m) s)
        \<and> (\<exists>a x. find_timer (tk_dst_ip k) 101 (t\<lparr>a_timers := [(a, x)]\<rparr>) \<noteq> None \<and> tk_retries x = ucast (n - 1)
            \<and> a_timers t = link_timer e tk_time (a, x) (a_timers s)))"
proof (cases "n = 0")
  case True
  then have "(res, t) = (0, ipq_drop_ip (tk_dst_ip k) s)" using assms(3,9) by (simp add: resend_rreq_def)
  then show ?thesis using True by (simp add: ipq_drop_ip_eq)
next
  case False
  have pos: "tk_retries k \<noteq> 0" using False assms(3) by (simp add: ucast_0_iff)
  define s' where "s' = s\<lparr>k_allocs := Suc (k_allocs s), k_live := insert (k_allocs s) (k_live s)\<rparr>"
  have t: "launch_rreq e (k_allocs s) False (tk_src_ip k) (tk_dst_ip k) (n - 1) s' = (res, t)"
    using assms(9) pos by (simp add: resend_rreq_def kmalloc_no_oom [OF assms(1)] s'_def assms(3) ucast_pred)
  have up: "link_up e 24 s'" using assms(2) by (simp add: link_up_def s'_def)
  have "find_aodv_route e (tk_dst_ip k) s' = (found, s1\<lparr>k_allocs := k_allocs s', k_live := k_live s'\<rparr>)"
    "find_aodv_route e (tk_src_ip k) (s1\<lparr>k_allocs := k_allocs s', k_live := k_live s'\<rparr>) =
      (Some p, s2\<lparr>k_allocs := k_allocs s', k_live := k_live s'\<rparr>)"
    using assms(4,5) by (simp_all add: s'_def find_route_heap)
  note l = launch_rreq_sent [OF assms(1) up this _ assms(7) _ t, unfolded route_get_heap, OF assms(6,8)]
  obtain w a x where w: "a_timers t = link_timer e tk_time (a, x) (a_timers s')" "tk_id x = tk_dst_ip k"
      "tk_type x = 101" "tk_retries x = ucast (n - 1)"
      "k_out t = k_out s' @ [w] @ broadcast_events NET_DIAMETER (rreq_bytes (ke_big_endian e) m) s'"
    using l(4) by (auto simp: new_task_def)
  have "find_timer (tk_dst_ip k) 101 (t\<lparr>a_timers := [(a, x)]\<rparr>) \<noteq> None"
    by (simp add: find_timer_def timer_matches_def w(2,3))
  moreover have "broadcast_events NET_DIAMETER x s' = broadcast_events 10 x s" "k_out s' = k_out s" "a_timers s' = a_timers s" for x
    by (simp_all add: s'_def broadcast_events_def)
  ultimately show ?thesis using False l(1,2) w(1,4,5) by auto
qed

theorem resend_rreq_counts_down_witness:
  "let k = (new_task demo_env 101 0 0)\<lparr>tk_src_ip := 0xc0a80001, tk_dst_ip := 0xc0a80009, tk_retries := ucast (2 :: u8)\<rparr>
   in route_get 2 (snd (resend_rreq demo_env k node)) =
     Some ((demo_route 0xc0a80001 0xc0a80001 0 1)\<lparr>rt_rreq_id := 1, rt_seq := 2\<rparr>)"
  unfolding Let_def
  using resend_rreq_counts_down [where n = 2 and k = "(new_task demo_env 101 0 0)\<lparr>tk_src_ip := 0xc0a80001,
      tk_dst_ip := 0xc0a80009, tk_retries := ucast (2 :: u8)\<rparr>", OF demo_no_oom demo_link_up _ _ _ demo_get_self refl refl
      prod.collapse [symmetric]] demo_find demo_find_self
  by (simp add: demo_route_def)

end
