(* ===== verification/Discovery.thy ===== *)
theory Discovery
  imports RouteHop RequestProps
begin

text \<open>
  Route discovery end to end, over a chain of nodes that all run the module: the request travels from the originator to the
  destination, hop by hop, and the reply travels back. A message put on the air is received by the next node of the
  chain, or by the one it is addressed to; the copies of a broadcast the other neighbours hear are dropped by
  \<open>recv_rreq\<close> and left out here. No time passes during the exchange.
\<close>

section \<open>The chain\<close>

record station =
  st_ip :: u32
  st_dev :: netdev
  st_state :: aodv_state

definition hears :: "kenv \<Rightarrow> u32 \<Rightarrow> u32 \<times> u8 \<times> u8 list \<Rightarrow> station \<Rightarrow> station" where
  "hears e src m n =
     (if fst m = g_broadcast_ip (st_state n) \<or> fst m = st_ip n
      then n\<lparr>st_state := takes e src m (st_dev n) (st_state n)\<rparr> else n)"

text \<open>The first station hears the message m of prev. What it then sends is heard by the rest of the chain; what comes back
  from there is heard by the first station again.\<close>

fun along :: "kenv \<Rightarrow> u32 \<Rightarrow> u32 \<times> u8 \<times> u8 list \<Rightarrow> station list \<Rightarrow> station list" where
  "along e prev m [] = []"
| "along e prev m [n] = [hears e prev m n]"
| "along e prev m (n # n' # ns) =
     (let n1 = hears e prev m n;
          rest = along e (st_ip n) (last_sent (st_state n1)) (n' # ns)
      in hears e (st_ip n') (last_sent (st_state (hd rest))) n1 # rest)"

text \<open>A packet leaves the originator: netfilter asks the module, and on its word hands the packet over to be held.\<close>

definition discover :: "kenv \<Rightarrow> skbuff \<Rightarrow> qentry \<Rightarrow> station \<Rightarrow> station list \<Rightarrow> station list" where
  "discover e skb entry n ns =
     (let s1 = snd (output_handler e skb (st_state n));
          s2 = snd (netfilter_receive entry s1);
          rest = along e (st_ip n) (last_sent s1) ns
      in hears e (st_ip (hd ns)) (last_sent (st_state (hd rest))) (n\<lparr>st_state := s2\<rparr>) # rest)"

section \<open>What the stations have to know\<close>

text \<open>A station on the way: prev and nxt are its neighbours in the chain, n the sequence number of the
  answer and hops the number of hops to the destination.\<close>

definition passes :: "kenv \<Rightarrow> rreq \<Rightarrow> u32 \<Rightarrow> u32 \<Rightarrow> u32 \<Rightarrow> u8 \<Rightarrow> station \<Rightarrow> bool" where
  "passes e q n prev nxt hops x =
     (let s = st_state x; dev = st_dev x
      in standing e dev s \<and> acceptable e s q \<and> aodv_subnet_test (rq_dst_ip q) s \<and> gets e s (rq_dst_ip q) n nxt hops (Some dev)
         \<and> near e dev s prev \<and> prev \<noteq> rq_dst_ip q \<and> nd_word12 dev \<noteq> nxt \<and> valid_aodv_neigh e nxt s)"

definition answers :: "kenv \<Rightarrow> rreq \<Rightarrow> u32 \<Rightarrow> u32 \<Rightarrow> station \<Rightarrow> bool" where
  "answers e q n prev x =
     (let s = st_state x; dev = st_dev x
      in standing e dev s \<and> acceptable e s q \<and> aodv_subnet_test (rq_dst_ip q) s \<and> near e dev s prev
         \<and> prev \<noteq> rq_dst_ip q \<and> st_ip x = rq_dst_ip q
         \<and> (\<exists>p own. live_route e s (rq_dst_ip q) p own \<and> rt_self own \<and> rt_metric own = 0
              \<and> n = answer_seq (rt_seq own) (rq_dst_seq q)))"

fun linked :: "kenv \<Rightarrow> rreq \<Rightarrow> u32 \<Rightarrow> u32 \<Rightarrow> station list \<Rightarrow> bool" where
  "linked e q n prev [] = False"
| "linked e q n prev [x] = answers e q n prev x"
| "linked e q n prev (x # y # xs) = (passes e q n prev (st_ip y) (of_nat (length (y # xs))) x \<and> linked e q n (st_ip x) (y # xs))"

text \<open>Afterwards every station has a route back to the originator, and all but the last one forth to the destination, each
  through its neighbour in the chain; h is the number of hops to the first of them.\<close>

fun routed :: "kenv \<Rightarrow> u32 \<Rightarrow> u32 \<Rightarrow> u32 \<Rightarrow> u8 \<Rightarrow> station list \<Rightarrow> bool" where
  "routed e src dst prev h [] = True"
| "routed e src dst prev h (x # xs) =
     (route_via e (st_state x) src prev h (Some (st_dev x))
      \<and> (xs \<noteq> [] \<longrightarrow> route_via e (st_state x) dst (st_ip (hd xs)) (of_nat (length xs)) (Some (st_dev x)))
      \<and> routed e src dst (st_ip x) (h + 1) xs)"

section \<open>The chain carries the request there and the reply back\<close>

lemma hears_simps [simp]: "st_ip (hears e src m n) = st_ip n" "st_dev (hears e src m n) = st_dev n"
  by (simp_all add: hears_def)

lemma along_ips [simp]: "map st_ip (along e prev m ns) = map st_ip ns"
  by (induction e prev m ns rule: along.induct) (simp_all add: Let_def)

lemma along_shape [simp]: "length (along e prev m ns) = length ns" "(along e prev m ns = []) = (ns = [])"
  by (induction e prev m ns rule: along.induct) (simp_all add: Let_def)

lemma along_hd [simp]: "ns \<noteq> [] \<Longrightarrow> st_ip (hd (along e prev m ns)) = st_ip (hd ns)"
  by (metis along_ips along_shape(2) list.map_sel(1))

lemma acceptable_metric [simp]: "acceptable e s (q\<lparr>rq_metric := m\<rparr>) = acceptable e s q"
  by (simp add: acceptable_def)

lemma linked_metric [simp]: "linked e (q\<lparr>rq_metric := m\<rparr>) n prev ns = linked e q n prev ns"
  by (induction e q n prev ns rule: linked.induct) (simp_all add: passes_def answers_def)

lemma plain_broadcast: "plain s \<Longrightarrow> g_broadcast_ip s = - 1"
  by (simp add: plain_def)

lemma along_carries:
  assumes "no_oom e" "rq_src_ip q \<noteq> rq_dst_ip q" "rq_dst_ip q \<noteq> 0" "linked e q n prev ns" "length ns < unat ttl"
  shows "routed e (rq_src_ip q) (rq_dst_ip q) prev (rq_metric q + 1) (along e prev (- 1, ttl, request_bytes e q) ns)
    \<and> (\<exists>r. tells (rq_src_ip q) (rq_dst_ip q) n (of_nat (length ns - 1)) r
         \<and> last_sent (st_state (hd (along e prev (- 1, ttl, request_bytes e q) ns))) = (prev, 10, reply_bytes e r))"
  using assms(4,5) assms(2,3)
proof (induction ns arbitrary: prev ttl q)
  case Nil
  then show ?case by simp
next
  case (Cons x ns)
  let ?src = "rq_src_ip q" and ?dst = "rq_dst_ip q" and ?m = "(- 1, ttl, request_bytes e q)" and ?s = "st_state x" and ?dev = "st_dev x"
  have ttl: "1 < ttl" using Cons.prems(2) by (simp add: word_less_nat_alt)
  show ?case
  proof (cases ns)
    case Nil
    then have a: "answers e q n prev x" using Cons.prems(1) by simp
    then obtain p own where own: "live_route e ?s ?dst p own" "rt_self own" "rt_metric own = 0"
        "n = answer_seq (rt_seq own) (rq_dst_seq q)" by (auto simp: answers_def Let_def)
    have a: "standing e ?dev ?s" "near e ?dev ?s prev" "acceptable e ?s q" "aodv_subnet_test ?dst ?s" "?dst \<noteq> prev"
      using a by (auto simp: answers_def Let_def)
    have b: "g_broadcast_ip ?s = - 1" using a(1) plain_broadcast by (simp add: standing_def)
    note t = request_answered [OF assms(1) a(1-3) ttl a(4) own(1,2) _ a(5) refl, where to = "- 1"]
    show ?thesis using t(2,3) Cons.prems(3) own(3,4) by (simp add: Nil hears_def b)
  next
    case (Cons y ys)
    let ?q = "q\<lparr>rq_metric := rq_metric q + 1\<rparr>" and ?nxt = "st_ip y"
    have l: "linked e ?q n (st_ip x) ns" and "passes e q n prev ?nxt (of_nat (length ns)) x" using Cons.prems(1) Cons by simp_all
    then have a: "standing e ?dev ?s" "acceptable e ?s q" "aodv_subnet_test ?dst ?s" "gets e ?s ?dst n ?nxt (of_nat (length ns)) (Some ?dev)" "near e ?dev ?s prev"
        "prev \<noteq> ?dst" "nd_word12 ?dev \<noteq> ?nxt" "valid_aodv_neigh e ?nxt ?s"
      by (simp_all add: passes_def Let_def)
    have s: "plain ?s" "g_broadcast_ip ?s = - 1" using a(1) plain_broadcast by (simp_all add: standing_def)
    define t1 where "t1 = takes e prev ?m ?dev ?s"
    define rest where "rest = along e (st_ip x) (- 1, ttl - 1, request_bytes e ?q) ns"
    note t1 = request_passed_on [OF assms(1) a(1,5,2) ttl a(3,4) _ t1_def]
    have h1: "holds e {?src} ?s t1" using t1(1) Cons.prems(3) by simp
    have x1: "hears e prev ?m x = x\<lparr>st_state := t1\<rparr>" by (simp add: hears_def s(2) t1_def)
    have "ttl \<noteq> 0" using ttl by auto
    then have "length ns < unat (ttl - 1)" using Cons.prems(2) unat_minus_one [of ttl] by simp
    then have IH: "routed e ?src ?dst (st_ip x) (rq_metric q + 1 + 1) rest"
      "\<exists>r. tells ?src ?dst n (of_nat (length ns - 1)) r \<and> last_sent (st_state (hd rest)) = (st_ip x, 10, reply_bytes e r)"
      using Cons.IH [OF l _ _ _, of "ttl - 1"] Cons.prems(3,4) by (simp_all add: rest_def)
    then obtain r where r: "tells ?src ?dst n (of_nat (length ns - 1)) r"
      "last_sent (st_state (hd rest)) = (st_ip x, 10, reply_bytes e r)" by blast
    define t2 where "t2 = takes e ?nxt (st_ip x, 10, reply_bytes e r) ?dev t1"
    have len: "of_nat (length ns - 1) + 1 = (of_nat (length ns) :: u8)" by (simp add: Cons)
    have n: "near e ?dev t1 prev"
      using near_via [OF h1 a(5)] t1(2) Cons.prems(3) holds_near [OF h1 s(1) _ a(5)] by (cases "prev = ?src") auto
    have b: "standing e ?dev t1" "valid_aodv_neigh e ?nxt t1" "gets e t1 ?dst n ?nxt (of_nat (length ns - 1) + 1) (Some ?dev)" "route_via e t1 ?src prev (rq_metric q + 1) (Some ?dev)"
        "attached e ?dev t1 prev"
      using holds_standing [OF h1 a(1)] holds_neigh [OF h1] a(8) holds_gets [OF h1 s(1) _ a(4)] t1(2) Cons.prems(3) n
      unfolding len by (simp_all add: near_def)
    note t2 = reply_passed_on [OF assms(1) b(1) a(7) b(2) r(1) Cons.prems(3,4) b(3-5) a(6) t2_def]
    have "along e prev ?m (x # ns) = hears e ?nxt (last_sent (st_state (hd rest))) (x\<lparr>st_state := t1\<rparr>) # rest"
      using t1(3) Cons.prems(3) by (simp add: Cons Let_def x1 s(2)) (simp add: rest_def Cons)
    also have "\<dots> = x\<lparr>st_state := t2\<rparr> # rest" by (simp add: r(2) hears_def t2_def)
    finally have e: "along e prev ?m (x # ns) = x\<lparr>st_state := t2\<rparr> # rest" .
    have "st_ip (hd rest) = ?nxt" "length rest = length ns" by (simp_all add: rest_def Cons)
    then have "routed e ?src ?dst prev (rq_metric q + 1) (x\<lparr>st_state := t2\<rparr> # rest)"
      using IH(1) t2(2) [unfolded len] holds_via [OF t2(1) holds_plain [OF h1 s(1)] _ b(4)] Cons.prems(3) by simp
    then show ?thesis using t2(3,4) unfolding e len by auto
  qed
qed

section \<open>The originator\<close>

text \<open>Starting a request does not touch the queue of packets.\<close>

definition queue_same :: "aodv_state \<Rightarrow> aodv_state \<Rightarrow> bool" where
  "queue_same s t = (q_list t = q_list s \<and> q_len t = q_len s \<and> q_maxlen t = q_maxlen s
     \<and> q_flushing t = q_flushing s \<and> q_terminate t = q_terminate s)"

lemma queue_same_rules:
  "queue_same s (snd (find_aodv_route e ip s))" "queue_same s (route_upd p f s)" "queue_same s (snd (kmalloc e s))"
  "queue_same s (kfree a s)" "queue_same s (snd (insert_flood_id e a' b i lt s))"
  "queue_same s (snd (insert_rreq_timer e m k s))" "queue_same s (update_timer_queue e s)"
  "queue_same s (snd (local_broadcast e ttl bs s))"
proof -
  show "queue_same s (snd (local_broadcast e ttl bs s))"
    using local_broadcast_out [of s e ttl bs] by (auto simp: out_only_def queue_same_def)
qed (simp_all add: queue_same_def find_aodv_route_def case_prod_beta route_upd_def fault_def kmalloc_def kfree_def
  insert_flood_id_def insert_rreq_timer_def create_task_def queue_timer_def update_timer_queue_def arm_timer_def emit_def
  Let_def split: list.split)

interpretation qs: evolution queue_same
  by unfold_locales (simp_all add: queue_same_def)

lemmas queue_same_steps = queue_same_rules [THEN qs.trans [rotated]]

lemma holds_launch:
  assumes "no_oom e" "plain s" "live_route e s src p own" "rt_self own"
    and "own' = own\<lparr>rt_rreq_id := rt_rreq_id own + 1, rt_seq := rt_seq own + 1\<rparr>"
  shows "holds e {src} s (snd (launch_rreq e a d src dst k s))" "live_route e (snd (launch_rreq e a d src dst k s)) src p own'"
    "queue_same s (snd (launch_rreq e a d src dst k s))"
proof -
  let ?f = "\<lambda>r :: aodv_route. r\<lparr>rt_rreq_id := rt_rreq_id r + 1, rt_seq := rt_seq r + 1\<rparr>"
  obtain q s1 where f1: "find_aodv_route e dst s = (q, s1)" by fastforce
  have h1: "holds e {} s s1" using holds_find [OF assms(2), where e = e and ip = dst] f1 by simp
  note p1 = holds_plain [OF h1 assms(2)]
  have l1: "live_route e s1 src p own" using holds_live [OF h1 assms(2) _ assms(3)] by simp
  obtain s2 where f2: "find_aodv_route e src s1 = (Some p, s2)" using find_live [OF p1 l1] by blast
  have h2: "holds e {} s s2" using ho.trans [OF h1 holds_find [OF p1, where e = e and ip = src]] f2 by simp
  note p2 = holds_plain [OF h2 assms(2)]
  have l2: "live_route e s2 src p own" using holds_live [OF h2 assms(2) _ assms(3)] by simp
  define s3 where "s3 = route_upd p ?f s2"
  have "\<not> route_stale e (getcurrtime s2) (?f own)" using assms(4) by (simp add: route_stale_def)
  note u = live_upd [OF p2 l2, of ?f, OF _ this, folded s3_def assms(5)]
  have h3: "holds e {src} s s3" using ho.trans [OF holds_wider [OF h2] u(1)] by simp
  note p3 = holds_plain [OF h3 assms(2)]
  have l3: "live_route e s3 src p own'" using u(2) by simp
  define s4 where "s4 = snd (insert_flood_id e src dst (rt_rreq_id own') (getcurrtime s3 + 1600) s3)"
  define m where "m = request_message e d src dst (case q of None \<Rightarrow> None | Some r \<Rightarrow> route_get r s1) own'"
  define s5 where "s5 = update_timer_queue e (snd (insert_rreq_timer e m k s4))"
  define s6 where "s6 = snd (local_broadcast e NET_DIAMETER (rreq_bytes (ke_big_endian e) m) s5)"
  have i: "insert_flood_id e src dst (rt_rreq_id own') (getcurrtime s3 + 1600) s3 = (0, s4)"
    by (simp add: s4_def insert_flood_id_def kmalloc_no_oom [OF assms(1)])
  have t: "snd (launch_rreq e a d src dst k s) = kfree a s6"
    using f1 f2 i live_get [OF p3 l3] by (simp add: launch_rreq_def Let_def s3_def [symmetric] m_def s5_def s6_def)
  have h4: "holds e {} s3 s4" unfolding s4_def by (rule holds_insert_flood) simp
  have h5: "holds e {} s4 (snd (insert_rreq_timer e m k s4))"
    by (rule holds_same [OF ev_insert_rreq_timer]) (simp_all add: insert_rreq_timer_def create_task_def kmalloc_no_oom [OF assms(1)])
  have h6: "holds e {} (snd (insert_rreq_timer e m k s4)) s5"
    unfolding s5_def by (rule holds_same [OF ev_update_timer_queue]) simp_all
  have h7: "holds e {} s5 s6" unfolding s6_def by (rule holds_out [OF local_broadcast_out])
  have h: "holds e {} s3 (kfree a s6)" by (rule ho.trans [OF ho.trans [OF ho.trans [OF ho.trans [OF h4 h5] h6] h7] holds_kfree])
  show "holds e {src} s (snd (launch_rreq e a d src dst k s))" unfolding t using ho.trans [OF h3 holds_wider [OF h]] by simp
  show "live_route e (snd (launch_rreq e a d src dst k s)) src p own'" unfolding t using holds_live [OF h p3 _ l3] by simp
  have "queue_same s s1" "queue_same s1 s2"
    using queue_same_rules(1) [where s = s and e = e and ip = dst] queue_same_rules(1) [where s = s1 and e = e and ip = src] f1 f2
    by simp_all
  then have "queue_same s s2" by (rule qs.trans)
  then show "queue_same s (snd (launch_rreq e a d src dst k s))"
    unfolding t s6_def s5_def s4_def s3_def by (intro queue_same_steps)
qed

text \<open>The first request for an unknown destination.\<close>

definition first_request :: "u32 \<Rightarrow> u32 \<Rightarrow> aodv_route \<Rightarrow> rreq" where
  "first_request src dst own =
     \<lparr>rq_type = 1, rq_j = False, rq_r = False, rq_g = True, rq_d = True, rq_u = True, rq_reserved = 0,
      rq_second_reserved = 0, rq_metric = 0, rq_rreq_id = rt_rreq_id own + 1, rq_dst_ip = dst, rq_dst_seq = 0,
      rq_src_ip = src, rq_src_seq = rt_seq own + 1\<rparr>"

definition starts :: "kenv \<Rightarrow> u32 \<Rightarrow> u32 \<Rightarrow> addr \<Rightarrow> aodv_route \<Rightarrow> u32 \<Rightarrow> station \<Rightarrow> bool" where
  "starts e src dst p own nxt x =
     (let s = st_state x; dev = st_dev x
      in standing e dev s \<and> st_ip x = src \<and> g_my_ip s = src \<and> live_route e s src p own \<and> rt_self own
         \<and> unknown s dst \<and> find_timer dst 101 s = None \<and> (g_aodv_gateway s = 0 \<or> aodv_subnet_test dst s)
         \<and> src \<noteq> dst \<and> dst \<noteq> 0 \<and> dst \<noteq> - 1 \<and> nd_word12 dev \<noteq> nxt \<and> valid_aodv_neigh e nxt s)"

lemma request_started:
  assumes "no_oom e" "starts e src dst p own nxt x" "sk_daddr skb = dst"
    and t: "output_handler e skb (st_state x) = (v, t)"
  shows "v = NF_QUEUE" "holds e {src} (st_state x) t" "last_sent t = (- 1, 10, request_bytes e (first_request src dst own))"
    "\<exists>own'. live_route e t src p own' \<and> rt_self own'" "queue_same (st_state x) t"
proof -
  let ?s = "st_state x" and ?dev = "st_dev x"
  define own' where "own' = own\<lparr>rt_rreq_id := rt_rreq_id own + 1, rt_seq := rt_seq own + 1\<rparr>"
  have a: "standing e ?dev ?s" "g_my_ip ?s = src" "live_route e ?s src p own" "rt_self own" "unknown ?s dst"
      "find_timer dst 101 ?s = None" "g_aodv_gateway ?s = 0 \<or> aodv_subnet_test dst ?s" "dst \<noteq> - 1"
    using assms(2) by (simp_all add: starts_def Let_def)
  have s: "plain ?s" "radio e ?dev ?s" "g_broadcast_ip ?s = - 1" using a(1) plain_broadcast by (simp_all add: standing_def)
  obtain s1 where f: "find_aodv_route e dst ?s = (None, s1)" using find_unknown [OF s(1) a(5)] by blast
  have s1: "s1 = snd (find_aodv_route e dst ?s)" by (simp add: f)
  define a1 where "a1 = Suc (k_allocs s1)"
  define s2 where "s2 = snd (kmalloc e (snd (kmalloc e s1)))"
  have h2: "holds e {} ?s s2"
    unfolding s2_def s1 by (rule ho.trans [OF holds_find [OF s(1)] ho.trans [OF holds_kmalloc holds_kmalloc]])
  have q2: "queue_same ?s s2"
    unfolding s2_def s1 by (intro queue_same_steps qs.refl)
  note p2 = holds_plain [OF h2 s(1)]
  have l2: "live_route e s2 src p own" "unknown s2 dst"
    using holds_live [OF h2 s(1) _ a(3)] holds_unknown [OF h2 s(1) _ a(5)] by simp_all
  have g: "gen_rreq e src dst s1 = launch_rreq e a1 True src dst RREQ_RETRIES s2"
    using a(6) by (simp add: gen_rreq_def find_timer_def kmalloc_no_oom [OF assms(1)] s2_def a1_def) (simp add: s1)
  have "find_aodv_route e dst ?s = (None, s1)" "g_my_ip s1 = src" using f a(2) by (simp_all add: s1)
  then have "output_handler e skb ?s = (NF_QUEUE, snd (launch_rreq e a1 True src dst RREQ_RETRIES s2))"
    using a(7,8) g by (simp add: output_handler_def assms(3) s(3))
  then have vt: "v = NF_QUEUE" "t = snd (launch_rreq e a1 True src dst RREQ_RETRIES s2)" using t by simp_all
  note l = holds_launch [OF assms(1) p2 l2(1) a(4) own'_def, of a1 True dst RREQ_RETRIES, folded vt(2)]
  show "v = NF_QUEUE" by (rule vt(1))
  show "holds e {src} ?s t" using ho.trans [OF holds_wider [OF h2] l(1)] by simp
  show "\<exists>own'. live_route e t src p own' \<and> rt_self own'" using l(2) a(4) by (auto simp: own'_def)
  show "queue_same ?s t" by (rule qs.trans [OF q2 l(3)])
  obtain w1 where f1: "find_aodv_route e dst s2 = (None, w1)" using find_unknown [OF p2 l2(2)] by blast
  have h3: "holds e {} s2 w1" using holds_find [OF p2, where e = e and ip = dst] f1 by simp
  note p3 = holds_plain [OF h3 p2]
  have l3: "live_route e w1 src p own" using holds_live [OF h3 p2 _ l2(1)] by simp
  obtain w2 where f2: "find_aodv_route e src w1 = (Some p, w2)" using find_live [OF p3 l3] by blast
  have h4: "holds e {} w1 w2" using holds_find [OF p3, where e = e and ip = src] f2 by simp
  have own: "route_get p w2 = Some own" using live_get [OF holds_plain [OF h4 p3]] holds_live [OF h4 p3 _ l3] by simp
  obtain a d sk where r: "a_devs s2 = [(a, d)]" "dv_sock d = Some sk" "\<And>i. 0 \<le> ke_set_ttl e i" "\<And>i. 24 \<le> ke_wspace e i"
    using radioE [of e ?dev s2] s(2) holds_radio [OF h2] by metis
  then have up: "link_up e 24 s2" by (simp add: link_up_def)
  have m: "rreq_bytes (ke_big_endian e) (request_message e True src dst None own') = request_bytes e (first_request src dst own)"
    by (simp add: request_bytes_def first_request_def convert_rreq_to_network_def request_message_def own'_def)
  obtain w where "k_out t = k_out s2 @ [w] @ broadcast_events NET_DIAMETER (request_bytes e (first_request src dst own)) s2"
    using launch_rreq_sent(4) [OF assms(1) up f1 f2 own own'_def refl prod.collapse [symmetric], of a1 True RREQ_RETRIES] m
    by (auto simp: vt(2))
  then show "last_sent t = (- 1, 10, request_bytes e (first_request src dst own))"
    using holds_globals(3) [OF h2] s(3) by (simp add: last_sent_def broadcast_events_def r(1))
qed

text \<open>While there is room, the packet joins those that wait.\<close>

lemma holds_enqueue:
  assumes "q_len s < q_maxlen s" "\<not> q_flushing s" "\<not> q_terminate s"
  shows "holds e {} s (snd (netfilter_receive entry s))" "q_list (snd (netfilter_receive entry s)) = q_list s @ [entry]"
proof -
  have t: "snd (netfilter_receive entry s) = s\<lparr>q_list := q_list s @ [entry], q_len := q_len s + 1\<rparr>"
    using assms by (simp add: netfilter_receive_def ipq_enqueue_def Let_def)
  show "q_list (snd (netfilter_receive entry s)) = q_list s @ [entry]" by (simp add: t)
  show "holds e {} s (snd (netfilter_receive entry s))"
    unfolding t using assms(1)
    by (intro holds_same evolvesI)
      (simp_all add: same_globals_def keeps_seen_same, simp_all add: tables_defs)
qed

lemma accepts_via:
  assumes "plain s" "route_via e s (sk_daddr skb) nh m dev"
  shows "fst (output_handler e skb s) = NF_ACCEPT"
proof -
  obtain p r where r: "live_route e s (sk_daddr skb) p r" "rt_valid r" using assms(2) by (auto simp: route_via_def)
  obtain t where f: "find_aodv_route e (sk_daddr skb) s = (Some p, t)" using find_live [OF assms(1) r(1)] by blast
  have h: "holds e {} s t" using holds_find [OF assms(1), where e = e and ip = "sk_daddr skb"] f by simp
  have "route_get p t = Some r" using live_get [OF holds_plain [OF h assms(1)] holds_live [OF h assms(1) _ r(1)]] by simp
  then show ?thesis using r(2) by (simp add: output_handler_def f)
qed

section \<open>The discovery\<close>

text \<open>C1. Route discovery works end to end. On a chain of at most 9 hops in which every node knows its neighbours and none has
  seen the request, a packet for an unknown destination is held and starts a discovery whose request reaches
  the destination and whose reply comes back: the originator then has a valid route to the destination, through its
  neighbour and with the number of hops as its metric, the discovery's timer is gone, the packet and all others that
  waited for the destination have been sent on, the next one passes without delay, and every node on the way has
  routes in both directions.\<close>

theorem route_discovered:
  assumes "no_oom e" "starts e src dst p own (st_ip (hd ns)) x" "linked e (first_request src dst own) n src ns" "length ns \<le> 9"
    and "sk_daddr skb = dst" "ip_cmp dst entry"
    and "q_len (st_state x) < q_maxlen (st_state x)" "\<not> q_flushing (st_state x)" "\<not> q_terminate (st_state x)"
    and "discover e skb entry x ns = x' # ns'"
  shows "fst (output_handler e skb (st_state x)) = NF_QUEUE
    \<and> route_via e (st_state x') dst (st_ip (hd ns)) (of_nat (length ns)) (Some (st_dev x))
    \<and> find_timer dst 101 (st_state x') = None
    \<and> (\<forall>q \<in> set (entry # q_list (st_state x)). ip_cmp dst q \<longrightarrow>
         q \<notin> set (q_list (st_state x')) \<and> Reinject (qe_id q) NF_ACCEPT \<in> set (k_out (st_state x')))
    \<and> fst (output_handler e skb (st_state x')) = NF_ACCEPT
    \<and> routed e src dst src 1 ns'"
proof -
  let ?s = "st_state x" and ?dev = "st_dev x" and ?q = "first_request src dst own" and ?nxt = "st_ip (hd ns)"
  have a: "standing e ?dev ?s" "st_ip x = src" "src \<noteq> dst" "dst \<noteq> 0" "nd_word12 ?dev \<noteq> ?nxt" "valid_aodv_neigh e ?nxt ?s" "unknown ?s dst"
    using assms(2) by (simp_all add: starts_def Let_def)
  have s: "plain ?s" using a(1) by (simp add: standing_def)
  have q: "rq_src_ip ?q = src" "rq_dst_ip ?q = dst" "rq_metric ?q = 0" by (simp_all add: first_request_def)
  obtain s1 where o: "output_handler e skb ?s = (NF_QUEUE, s1)"
    using request_started(1) [OF assms(1,2,5) prod.collapse [symmetric]] by (metis prod.collapse)
  note s1 = request_started [OF assms(1,2,5) o]
  define s2 where "s2 = snd (netfilter_receive entry s1)"
  have "q_len s1 < q_maxlen s1" "\<not> q_flushing s1" "\<not> q_terminate s1" "q_list s1 = q_list ?s"
    using s1(5) assms(7-9) by (simp_all add: queue_same_def)
  then have h2: "holds e {} s1 s2" "q_list s2 = q_list ?s @ [entry]" by (simp_all add: s2_def holds_enqueue)
  have h: "holds e {src} ?s s2" using ho.trans [OF s1(2) holds_wider [OF h2(1)]] by simp
  note p2 = holds_plain [OF h s]
  define rest where "rest = along e src (- 1, 10, request_bytes e ?q) ns"
  have ne: "ns \<noteq> []" using assms(3) by auto
  have "length ns < unat (10 :: u8)" using assms(4) by simp
  from along_carries [OF assms(1) _ _ assms(3) this] q a(3,4)
  obtain r where rest: "routed e src dst src 1 rest" and r: "tells src dst n (of_nat (length ns - 1)) r"
      "last_sent (st_state (hd rest)) = (src, 10, reply_bytes e r)"
    by (auto simp: rest_def)
  define t where "t = takes e ?nxt (src, 10, reply_bytes e r) ?dev s2"
  have d: "x' = x\<lparr>st_state := t\<rparr>" "ns' = rest"
    using assms(10) r(2) a(2) by (simp_all add: discover_def o s1(3) Let_def s2_def [symmetric] rest_def [symmetric] hears_def t_def)
  obtain own' where own': "live_route e s2 src p own'" "rt_self own'"
    using s1(4) holds_live [OF h2(1) holds_plain [OF s1(2) s]] by blast
  have b: "standing e ?dev s2" "valid_aodv_neigh e ?nxt s2" "learnable e s2 dst n"
    using holds_standing [OF h a(1)] holds_neigh [OF h] a(6) holds_unknown [OF h s _ a(7)] a(3) by (simp_all add: learnable_def)
  note t = reply_completed [OF assms(1) b(1) a(5) b(2) r(1) a(3,4) b(3) own' t_def]
  have len: "of_nat (length ns - 1) + 1 = (of_nat (length ns) :: u8)" using ne by (cases ns) simp_all
  have v: "route_via e t dst ?nxt (of_nat (length ns)) (Some ?dev)" using t(2) unfolding len .
  have "fst (output_handler e skb t) = NF_ACCEPT"
    using v assms(5) by (intro accepts_via [OF holds_plain [OF t(1) p2]]) simp
  moreover have "q \<notin> set (q_list t) \<and> Reinject (qe_id q) NF_ACCEPT \<in> set (k_out t)"
    if "q \<in> set (entry # q_list ?s)" "ip_cmp dst q" for q
    using t(3) that h2(2) by (auto simp: lets_go_def)
  ultimately show ?thesis using o v t(4) rest by (simp add: d)
qed

text \<open>Three nodes in a row that have heard each other's hellos.\<close>

definition demo_dev :: "u32 \<Rightarrow> netdev" where
  "demo_dev ip = wlan0\<lparr>nd_ip_ptr := Some (Some ip)\<rparr>"

definition demo_station :: "u32 \<Rightarrow> (addr \<times> u32) list \<Rightarrow> u32 list \<Rightarrow> station" where
  "demo_station ip rs ns =
     \<lparr>st_ip = ip, st_dev = demo_dev ip,
      st_state = unloaded
        \<lparr>k_allocs := 20, g_my_route := Some 2, g_my_ip := ip, g_broadcast_ip := - 1,
         a_routes := map (\<lambda>(a, i). (a, (demo_route i i (if i = ip then 0 else 1) 1)\<lparr>rt_dev := Some (demo_dev ip)\<rparr>)) rs,
         a_neighs := map (\<lambda>i. (unat (i AND 15), demo_neigh i)) ns,
         a_devs := [(3, \<lparr>dv_dev = demo_dev ip, dv_route_entry = 2, dv_ip = ip, dv_netmask = 0xffffff00,
                         dv_name = ''wlan0'', dv_sock = Some 77\<rparr>)],
         q_maxlen := 1024\<rparr>\<rparr>"

definition node_a :: station where
  "node_a = demo_station 0xc0a80001 [(2, 0xc0a80001), (11, 0xc0a80002)] [0xc0a80002]"

definition node_b :: station where
  "node_b = demo_station 0xc0a80002 [(11, 0xc0a80001), (2, 0xc0a80002), (16, 0xc0a80003)] [0xc0a80001, 0xc0a80003]"

definition node_c :: station where
  "node_c = demo_station 0xc0a80003 [(11, 0xc0a80002), (2, 0xc0a80003)] [0xc0a80002]"

lemmas station_defs = node_a_def node_b_def node_c_def demo_station_def demo_dev_def demo_defs

lemma demo_station_time: "getcurrtime (st_state node_a) = 1000000" "getcurrtime (st_state node_b) = 1000000"
  "getcurrtime (st_state node_c) = 1000000"
  by (simp_all add: getcurrtime_def, simp_all add: station_defs)

lemma demo_standing: "standing demo_env (st_dev node_a) (st_state node_a)" "standing demo_env (st_dev node_b) (st_state node_b)"
  "standing demo_env (st_dev node_c) (st_state node_c)"
  by (simp_all add: standing_def plain_def radio_def tables_defs demo_station_time, simp_all add: station_defs)

definition demo_hop :: "u32 \<Rightarrow> u32 \<Rightarrow> aodv_route" where
  "demo_hop ip i = (demo_route i i (if i = ip then 0 else 1) 1)\<lparr>rt_dev := Some (demo_dev ip)\<rparr>"

lemma demo_live:
  "live_route demo_env (st_state node_a) 0xc0a80001 2 (demo_hop 0xc0a80001 0xc0a80001)"
  "live_route demo_env (st_state node_b) 0xc0a80001 11 (demo_hop 0xc0a80002 0xc0a80001)"
  "live_route demo_env (st_state node_b) 0xc0a80003 16 (demo_hop 0xc0a80002 0xc0a80003)"
  "live_route demo_env (st_state node_c) 0xc0a80002 11 (demo_hop 0xc0a80003 0xc0a80002)"
  "live_route demo_env (st_state node_c) 0xc0a80003 2 (demo_hop 0xc0a80003 0xc0a80003)"
  "unknown (st_state node_a) 0xc0a80003" "unknown (st_state node_c) 0xc0a80001"
  by (simp_all add: live_route_def unknown_def compare_aodv_route_def route_stale_def demo_hop_def demo_station_time,
      simp_all add: station_defs compare_aodv_route_def)

lemma demo_near:
  "near demo_env (st_dev node_b) (st_state node_b) 0xc0a80001" "near demo_env (st_dev node_c) (st_state node_c) 0xc0a80002"
  "valid_aodv_neigh demo_env 0xc0a80002 (st_state node_a)" "valid_aodv_neigh demo_env 0xc0a80003 (st_state node_b)"
proof -
  have n: "valid_aodv_neigh demo_env 0xc0a80001 (st_state node_b)" "valid_aodv_neigh demo_env 0xc0a80002 (st_state node_c)"
    by (simp_all add: valid_aodv_neigh_def find_aodv_neigh_def demo_station_time split: option.split)
      (simp_all add: station_defs)
  have "attached demo_env (st_dev node_b) (st_state node_b) 0xc0a80001"
    unfolding attached_def using demo_live(2) by (intro exI) (auto simp: demo_hop_def station_defs)
  moreover have "attached demo_env (st_dev node_c) (st_state node_c) 0xc0a80002"
    unfolding attached_def using demo_live(4) by (intro exI) (auto simp: demo_hop_def station_defs)
  ultimately show "near demo_env (st_dev node_b) (st_state node_b) 0xc0a80001"
    "near demo_env (st_dev node_c) (st_state node_c) 0xc0a80002"
    using n by (simp_all add: near_def) (simp_all add: station_defs)
  show "valid_aodv_neigh demo_env 0xc0a80002 (st_state node_a)" "valid_aodv_neigh demo_env 0xc0a80003 (st_state node_b)"
    by (simp_all add: valid_aodv_neigh_def find_aodv_neigh_def demo_station_time split: option.split)
      (simp_all add: station_defs)
qed

lemma demo_starts:
  "starts demo_env 0xc0a80001 0xc0a80003 2 (demo_hop 0xc0a80001 0xc0a80001) (st_ip (hd [node_b, node_c])) node_a"
proof -
  have "st_ip node_a = 0xc0a80001" "g_my_ip (st_state node_a) = 0xc0a80001" "st_ip node_b = 0xc0a80002"
    "nd_word12 (st_dev node_a) = 0" "g_aodv_gateway (st_state node_a) = 0" "a_timers (st_state node_a) = []"
    "rt_self (demo_hop 0xc0a80001 0xc0a80001)"
    by (simp_all add: demo_hop_def station_defs)
  then show ?thesis
    using demo_standing(1) demo_live(1,6) demo_near(3) by (simp add: starts_def find_timer_def Let_def)
qed

lemma demo_linked:
  "linked demo_env (first_request 0xc0a80001 0xc0a80003 (demo_hop 0xc0a80001 0xc0a80001)) 1 0xc0a80001 [node_b, node_c]"
proof -
  let ?q = "first_request 0xc0a80001 0xc0a80003 (demo_hop 0xc0a80001 0xc0a80001)"
  have i: "st_ip node_b = 0xc0a80002" "st_ip node_c = 0xc0a80003" "nd_word12 (st_dev node_b) = 0"
    "a_floods (st_state node_b) = []" "a_floods (st_state node_c) = []"
    "aodv_subnet_test 0xc0a80003 (st_state node_b)" "aodv_subnet_test 0xc0a80003 (st_state node_c)"
    by (simp_all add: aodv_subnet_test_def station_defs)
  have q: "rq_src_ip ?q = 0xc0a80001" "rq_dst_ip ?q = 0xc0a80003" "rq_src_seq ?q = 2" "rq_dst_seq ?q = 0" "rq_type ?q = 1" "rq_reserved ?q = 0"
    by (simp_all add: first_request_def demo_hop_def demo_route_def)
  have "learnable demo_env (st_state node_b) 0xc0a80001 2"
    unfolding learnable_def using demo_live(2)
    by (intro disjI2 exI conjI) (auto simp: demo_hop_def demo_route_def seq_greater_def)
  then have b: "acceptable demo_env (st_state node_b) ?q" by (simp add: acceptable_def q find_flood_id_def i)
  have c: "acceptable demo_env (st_state node_c) ?q"
    using demo_live(7) by (simp add: acceptable_def q find_flood_id_def i learnable_def)
  have "route_via demo_env (st_state node_b) 0xc0a80003 0xc0a80003 1 (Some (st_dev node_b))"
    unfolding route_via_def using demo_live(3)
    by (intro exI conjI) (auto simp: demo_hop_def demo_route_def node_b_def demo_station_def)
  then have "passes demo_env ?q 1 0xc0a80001 0xc0a80003 1 node_b"
    using demo_standing(2) b i demo_near(1,4) by (simp add: passes_def q gets_def Let_def)
  moreover have "rt_self (demo_hop 0xc0a80003 0xc0a80003) \<and> rt_metric (demo_hop 0xc0a80003 0xc0a80003) = 0
      \<and> 1 = answer_seq (rt_seq (demo_hop 0xc0a80003 0xc0a80003)) 0"
    by (simp add: demo_hop_def demo_route_def answer_seq_def seq_less_or_equal_def)
  then have "answers demo_env ?q 1 0xc0a80002 node_c"
    using demo_standing(3) c i(2,7) demo_near(2) demo_live(5) unfolding answers_def Let_def q by auto
  ultimately show ?thesis by (simp add: i)
qed

theorem route_discovered_witness:
  "case discover demo_env ((aodv_packet 0xc0a80001 64 [])\<lparr>sk_daddr := 0xc0a80003\<rparr>) ((waiting 9)\<lparr>qe_daddr := 0xc0a80003\<rparr>)
       node_a [node_b, node_c] of
     x' # ns' \<Rightarrow> route_via demo_env (st_state x') 0xc0a80003 0xc0a80002 2 (Some (st_dev node_a))
       \<and> Reinject 9 NF_ACCEPT \<in> set (k_out (st_state x')) \<and> routed demo_env 0xc0a80001 0xc0a80003 0xc0a80001 1 ns'
   | [] \<Rightarrow> False"
proof -
  let ?p = "(aodv_packet 0xc0a80001 64 [])\<lparr>sk_daddr := 0xc0a80003\<rparr>" and ?w = "(waiting 9)\<lparr>qe_daddr := 0xc0a80003\<rparr>"
  obtain x' ns' where d: "discover demo_env ?p ?w node_a [node_b, node_c] = x' # ns'"
    by (simp only: discover_def Let_def)
  have i: "st_ip node_b = 0xc0a80002" "q_len (st_state node_a) < q_maxlen (st_state node_a)" "\<not> q_flushing (st_state node_a)"
    "\<not> q_terminate (st_state node_a)" "ip_cmp 0xc0a80003 ?w" "qe_id ?w = 9" "sk_daddr ?p = 0xc0a80003"
    by (simp_all add: ip_cmp_def station_defs)
  have "length [node_b, node_c] \<le> 9" by simp
  from route_discovered [OF demo_no_oom demo_starts demo_linked this i(7,5,2-4) d]
  show ?thesis using i(1,5,6) by (simp add: d)
qed

end
