(* ===== verification/CacheData.thy ===== *)
theory CacheData
  imports InetUtils FloodCore TimerCore
begin

unbundle bit_operations_syntax

text \<open>
  The data of the caching module, from \<open>caching/src/cache.h\<close>: its messages, its tables' entries and
  \<open>c_state\<close>, its global variables on top of \<open>kstate\<close>; and \<open>caching/src/cSocket.c\<close>, how it sends. A table
  is a node list in link order. The modules of this repository share no state, so names that exist
  in both carry the prefix \<open>c_\<close> here.
\<close>

section \<open>Constants\<close>

abbreviation (input) CACHEPORT :: "'a::numeral" where "CACHEPORT \<equiv> 655"
abbreviation (input) OLSRPORT :: "'a::numeral" where "OLSRPORT \<equiv> 698"
abbreviation (input) AODVPORT_c :: "'a::numeral" where "AODVPORT_c \<equiv> 654"
abbreviation (input) FLUSH_INTERVAL :: u32 where "FLUSH_INTERVAL \<equiv> 3000"
abbreviation (input) WAIT_FILE_REP_TIME :: u32 where "WAIT_FILE_REP_TIME \<equiv> 10000"
abbreviation (input) WAIT_EXCH_REP_TIME :: u32 where "WAIT_EXCH_REP_TIME \<equiv> 2000"
abbreviation (input) FILE_REQUEST_LIFETIME :: u64 where "FILE_REQUEST_LIFETIME \<equiv> 5000"
abbreviation (input) c_NET_DIAMETER :: u8 where "c_NET_DIAMETER \<equiv> 10"

abbreviation (input) FILE_REQ_MESSAGE :: u8 where "FILE_REQ_MESSAGE \<equiv> 1"
abbreviation (input) FILE_REP_MESSAGE :: u8 where "FILE_REP_MESSAGE \<equiv> 2"
abbreviation (input) FRAG_REQ_ORI_MESSAGE :: u8 where "FRAG_REQ_ORI_MESSAGE \<equiv> 3"
abbreviation (input) FRAG_REQ_FWD_MESSAGE :: u8 where "FRAG_REQ_FWD_MESSAGE \<equiv> 4"
abbreviation (input) EXCHANGE_REQ_MESSAGE :: u8 where "EXCHANGE_REQ_MESSAGE \<equiv> 5"
abbreviation (input) EXCHANGE_REP_MESSAGE :: u8 where "EXCHANGE_REP_MESSAGE \<equiv> 6"
abbreviation (input) ADD_CACHE_MESSAGE :: u8 where "ADD_CACHE_MESSAGE \<equiv> 7"

abbreviation (input) TASK_FILE_REQ_PROCESS :: int where "TASK_FILE_REQ_PROCESS \<equiv> 1"
abbreviation (input) TASK_FILE_REP_PROCESS :: int where "TASK_FILE_REP_PROCESS \<equiv> 2"
abbreviation (input) TASK_FRAG_REQ_UPDATE :: int where "TASK_FRAG_REQ_UPDATE \<equiv> 3"
abbreviation (input) TASK_FRAG_REQ_FLUSH :: int where "TASK_FRAG_REQ_FLUSH \<equiv> 4"
abbreviation (input) TASK_EXCH_SEND :: int where "TASK_EXCH_SEND \<equiv> 5"
abbreviation (input) TASK_EXCH_UPDATE :: int where "TASK_EXCH_UPDATE \<equiv> 6"
abbreviation (input) TASK_ADD_CACHE_PROCESS :: int where "TASK_ADD_CACHE_PROCESS \<equiv> 7"
abbreviation (input) TASK_FRAG_REQ_SEND :: int where "TASK_FRAG_REQ_SEND \<equiv> 8"
abbreviation (input) TASK_ADD_CACHE_SEND :: int where "TASK_ADD_CACHE_SEND \<equiv> 9"
abbreviation (input) TASK_CLEAN_UP :: int where "TASK_CLEAN_UP \<equiv> 10"

section \<open>Messages\<close>

text \<open>
  A message is four bytes of type, flags and reserved fields, kept as they lie in memory
  (\<open>_head\<close>), then 32-bit words.
\<close>

record fileReq =
  fq_head :: "u8 list"
  fq_src_ip :: u32
  fq_dst_ip :: u32
  fq_file_id :: u32
  fq_seq :: u32
  fq_metric :: u32

record fileRep =
  fp_head :: "u8 list"
  fp_frag_count :: u8
  fp_src_ip :: u32
  fp_dst_ip :: u32
  fp_file_id :: u32
  fp_dist :: u32

record fragReq =
  fg_head :: "u8 list"
  fg_src_ip :: u32
  fg_dst_ip :: u32
  fg_file_id :: u32
  fg_frag_id :: u32

record exchReq =
  eq_head :: "u8 list"
  eq_src_ip :: u32
  eq_dst_ip :: u32
  eq_file_id :: u32
  eq_frag_id :: u32

record exchRep =
  ep_head :: "u8 list"
  ep_file_id :: u32
  ep_frag_id :: u32
  ep_src_ip :: u32
  ep_dst_ip :: u32
  ep_score :: u32

record addCache =
  ac_head :: "u8 list"
  ac_file_id :: u32
  ac_frag_id :: u32
  ac_src_ip :: u32
  ac_dst_ip :: u32

abbreviation (input) sizeof_fileReq :: nat where "sizeof_fileReq \<equiv> 24"
abbreviation (input) sizeof_fileRep :: nat where "sizeof_fileRep \<equiv> 20"
abbreviation (input) sizeof_fragReq :: nat where "sizeof_fragReq \<equiv> 20"
abbreviation (input) sizeof_exchReq :: nat where "sizeof_exchReq \<equiv> 20"
abbreviation (input) sizeof_exchRep :: nat where "sizeof_exchRep \<equiv> 24"
abbreviation (input) sizeof_addCache :: nat where "sizeof_addCache \<equiv> 20"

definition fileReq_bytes :: "bool \<Rightarrow> fileReq \<Rightarrow> u8 list" where
  "fileReq_bytes be m =
     fq_head m @ words_bytes be [fq_src_ip m, fq_dst_ip m, fq_file_id m, fq_seq m, fq_metric m]"

definition bytes_fileReq :: "bool \<Rightarrow> u8 list \<Rightarrow> fileReq" where
  "bytes_fileReq be bs =
     \<lparr>fq_head = take 4 bs, fq_src_ip = word_at be bs 0, fq_dst_ip = word_at be bs 1,
      fq_file_id = word_at be bs 2, fq_seq = word_at be bs 3, fq_metric = word_at be bs 4\<rparr>"

text \<open>The fourth byte of a file reply is its number of fragments; the fragments' numbers follow it.\<close>

definition fileRep_bytes :: "bool \<Rightarrow> fileRep \<Rightarrow> u32 list \<Rightarrow> u8 list" where
  "fileRep_bytes be m frags =
     fp_head m @ [fp_frag_count m]
     @ words_bytes be ([fp_src_ip m, fp_dst_ip m, fp_file_id m, fp_dist m] @ frags)"

definition bytes_fileRep :: "bool \<Rightarrow> u8 list \<Rightarrow> fileRep" where
  "bytes_fileRep be bs =
     \<lparr>fp_head = take 3 bs, fp_frag_count = bs ! 3, fp_src_ip = word_at be bs 0,
      fp_dst_ip = word_at be bs 1, fp_file_id = word_at be bs 2, fp_dist = word_at be bs 3\<rparr>"

definition fileRep_frag :: "bool \<Rightarrow> u8 list \<Rightarrow> nat \<Rightarrow> u32" where
  "fileRep_frag be bs i = word_at be bs (4 + i)"

definition fragReq_bytes :: "bool \<Rightarrow> fragReq \<Rightarrow> u8 list" where
  "fragReq_bytes be m = fg_head m @ words_bytes be [fg_src_ip m, fg_dst_ip m, fg_file_id m, fg_frag_id m]"

definition bytes_fragReq :: "bool \<Rightarrow> u8 list \<Rightarrow> fragReq" where
  "bytes_fragReq be bs =
     \<lparr>fg_head = take 4 bs, fg_src_ip = word_at be bs 0, fg_dst_ip = word_at be bs 1,
      fg_file_id = word_at be bs 2, fg_frag_id = word_at be bs 3\<rparr>"

definition exchReq_bytes :: "bool \<Rightarrow> exchReq \<Rightarrow> u8 list" where
  "exchReq_bytes be m = eq_head m @ words_bytes be [eq_src_ip m, eq_dst_ip m, eq_file_id m, eq_frag_id m]"

definition bytes_exchReq :: "bool \<Rightarrow> u8 list \<Rightarrow> exchReq" where
  "bytes_exchReq be bs =
     \<lparr>eq_head = take 4 bs, eq_src_ip = word_at be bs 0, eq_dst_ip = word_at be bs 1,
      eq_file_id = word_at be bs 2, eq_frag_id = word_at be bs 3\<rparr>"

definition exchRep_bytes :: "bool \<Rightarrow> exchRep \<Rightarrow> u8 list" where
  "exchRep_bytes be m =
     ep_head m @ words_bytes be [ep_file_id m, ep_frag_id m, ep_src_ip m, ep_dst_ip m, ep_score m]"

definition bytes_exchRep :: "bool \<Rightarrow> u8 list \<Rightarrow> exchRep" where
  "bytes_exchRep be bs =
     \<lparr>ep_head = take 4 bs, ep_file_id = word_at be bs 0, ep_frag_id = word_at be bs 1,
      ep_src_ip = word_at be bs 2, ep_dst_ip = word_at be bs 3, ep_score = word_at be bs 4\<rparr>"

definition addCache_bytes :: "bool \<Rightarrow> addCache \<Rightarrow> u8 list" where
  "addCache_bytes be m = ac_head m @ words_bytes be [ac_file_id m, ac_frag_id m, ac_src_ip m, ac_dst_ip m]"

definition bytes_addCache :: "bool \<Rightarrow> u8 list \<Rightarrow> addCache" where
  "bytes_addCache be bs =
     \<lparr>ac_head = take 4 bs, ac_file_id = word_at be bs 0, ac_frag_id = word_at be bs 1,
      ac_src_ip = word_at be bs 2, ac_dst_ip = word_at be bs 3\<rparr>"

text \<open>The head a generator writes: the flag bit is not set and keeps what the block held.\<close>

definition new_head :: "kenv \<Rightarrow> addr \<Rightarrow> u8 \<Rightarrow> u8 list" where
  "new_head e a type = [type, (if bit (ke_junk e a 0) 0 then 128 else 0), 0, 0]"

section \<open>Table entries\<close>

record cache_entry =
  ce_file_id :: u32
  ce_frag_id :: u32
  ce_refs :: u32
  ce_isServiceCenter :: u32

record fileRepInfo =
  ri_file_id :: u32
  ri_dst_ip :: u32
  ri_dist :: u32
  ri_map :: "u32 list"
  ri_frag_count :: u32
  ri_expired :: u32

record reqList =
  rl_file_id :: u32
  rl_frag_id :: u32
  rl_count :: u32

record exchTable =
  ex_file_id :: u32
  ex_frag_id :: u32
  ex_dst_ip :: u32
  ex_neigh_ip :: u32
  ex_score :: u32
  ex_expired :: u32

record ctask =
  ck_type :: int
  ck_time :: u64
  ck_dst_ip :: u32
  ck_src_ip :: u32
  ck_file_id :: u32
  ck_frag_id :: u32
  ck_ttl :: u32
  ck_data_len :: nat
  ck_data :: "(addr \<times> u8 list) option"

section \<open>The module's state\<close>

record c_state = kstate +
  c_my_ip :: u32
  c_broadcast_ip :: u32
  g_act :: string
  KVAL :: int
  NVAL :: int
  THRESHOLD :: int
  BUF_SIZE :: int
  g_sock :: "addr option"
  ctable :: "cache_entry nodes"
  ct_len :: int
  crlist :: "reqList nodes"
  rinfo :: "fileRepInfo nodes"
  extable :: "exchTable nodes"
  c_floods :: "flood_id nodes"
  c_timers :: "ctask nodes"
  c_tasks :: "ctask nodes"
  cEnergy :: u32
  cSuccess :: u32
  cPrefetch :: u32
  fOverhead :: u32
  cOverhead :: u32
  rtHeader :: u32
  rtHello :: u32
  rtHello_c :: u32
  rtTc :: u32
  aodv_hello :: u32
  aodv_else :: u32

section \<open>Sending\<close>

abbreviation (input) c_ENOMEM :: int where "c_ENOMEM \<equiv> 12"
abbreviation (input) c_ETIMEDOUT :: int where "c_ETIMEDOUT \<equiv> 110"

definition c_local_broadcast :: "kenv \<Rightarrow> u8 \<Rightarrow> u8 list \<Rightarrow> c_state \<Rightarrow> int \<times> c_state" where
  "c_local_broadcast e ttl dat s =
     (if ttl < 1 then (0, s)
      else case g_sock s of
        None \<Rightarrow> (0, fault s)
      | Some sk \<Rightarrow>
          (let error = ke_set_ttl e (length (k_out s)); s1 = emit (SetTtl sk ttl) s
           in if error < 0 then (0, s1)
              else if ke_wspace e (length (k_out s1)) \<ge> int (length dat)
              then (ke_sendmsg e (length (k_out s1)), emit (SendMsg sk (c_broadcast_ip s1) dat) s1)
              else (0, s1)))"

definition c_send_message :: "kenv \<Rightarrow> u32 \<Rightarrow> u8 \<Rightarrow> u8 list \<Rightarrow> c_state \<Rightarrow> int \<times> c_state" where
  "c_send_message e dst_ip ttl dat s =
     (if ttl = 0 then (0, s)
      else case g_sock s of
        None \<Rightarrow> (0, fault s)
      | Some sk \<Rightarrow>
          (let space = ke_wspace e (length (k_out s));
               error = ke_set_ttl e (length (k_out s)); s1 = emit (SetTtl sk ttl) s
           in if error < 0 then (0, s1)
              else if space < int (length dat) then (- c_ENOMEM, s1)
              else (0, emit (SendMsg sk dst_ip dat) s1)))"

definition c_find_dev_ip :: "netdev option \<Rightarrow> u32" where
  "c_find_dev_ip dev =
     (case dev of
        None \<Rightarrow> - 14
      | Some d \<Rightarrow> (case nd_ip_ptr d of
                     None \<Rightarrow> - 14
                   | Some None \<Rightarrow> 0
                   | Some (Some ip) \<Rightarrow> ip))"

section \<open>Walking a table by repeated searches\<close>

text \<open>
  The code walks the entries of one kind by searching again from the node after the last
  one found. \<open>find_upto n P ns\<close> makes at most n searches.
\<close>

definition nodes_after :: "addr \<Rightarrow> 'a nodes \<Rightarrow> 'a nodes" where
  "nodes_after a ns = tl (nl_from a ns)"

fun find_upto :: "nat \<Rightarrow> ('a \<Rightarrow> bool) \<Rightarrow> 'a nodes \<Rightarrow> 'a nodes" where
  "find_upto 0 P ns = []"
| "find_upto (Suc n) P ns =
     (case nl_find P ns of
        None \<Rightarrow> []
      | Some (a, x) \<Rightarrow> (a, x) # find_upto n P (nodes_after a ns))"

lemma nl_find_split:
  "nl_find P ns = Some (a, x) \<Longrightarrow>
   \<exists>xs ys. ns = xs @ (a, x) # ys \<and> (\<forall>m \<in> set xs. \<not> P (snd m)) \<and> P x"
proof (induction ns)
  case (Cons n ns)
  show ?case
  proof (cases "P (snd n)")
    case True
    then show ?thesis using Cons.prems by (cases n) (auto intro: exI [of _ "[]"])
  next
    case False
    then have "nl_find P ns = Some (a, x)" using Cons.prems by (cases n) simp
    then obtain xs ys where "ns = xs @ (a, x) # ys" "\<forall>m \<in> set xs. \<not> P (snd m)" "P x"
      using Cons.IH by blast
    then show ?thesis using False by (intro exI [of _ "n # xs"] exI [of _ ys]) simp
  qed
qed simp

lemma nodes_after_split:
  "a \<notin> set (nl_addrs xs) \<Longrightarrow> nodes_after a (xs @ (a, x) # ys) = ys"
  by (induction xs) (auto simp: nodes_after_def)

lemma find_upto_filter:
  "distinct (nl_addrs ns) \<Longrightarrow> find_upto n P ns = take n (filter (\<lambda>m. P (snd m)) ns)"
proof (induction n arbitrary: ns)
  case (Suc n)
  show ?case
  proof (cases "nl_find P ns")
    case None
    then have "filter (\<lambda>m. P (snd m)) ns = []"
      by (auto simp: nl_find_None nl_vals_def filter_empty_conv)
    then show ?thesis using None by simp
  next
    case (Some r)
    obtain a x where r: "r = (a, x)" by (cases r)
    obtain xs ys where s: "ns = xs @ (a, x) # ys" "\<forall>m \<in> set xs. \<not> P (snd m)" "P x"
      using nl_find_split [OF Some [unfolded r]] by blast
    have "filter (\<lambda>m. P (snd m)) xs = []" using s(2) by (auto simp: filter_empty_conv)
    moreover have "nodes_after a ns = ys" using Suc.prems s(1) by (simp add: nodes_after_split)
    moreover have "find_upto n P ys = take n (filter (\<lambda>m. P (snd m)) ys)"
      using Suc.prems s(1) by (intro Suc.IH) simp
    ultimately show ?thesis using Some r s by simp
  qed
qed simp

end
