(* ===== verification/CacheTimers.thy ===== *)
theory CacheTimers
  imports CacheData
begin

text \<open>
  Tasks, timers and the flood queue of the caching module: \<open>caching/src/cTask.c\<close>, \<open>caching/src/cTimer.c\<close>
  and \<open>caching/src/cFlood.c\<close>, over the cores TimerCore and FloodCore they share with the
  routing module.
\<close>

abbreviation (input) c_start_point :: nat where "c_start_point \<equiv> 28"

section \<open>Tasks\<close>

definition c_new_task :: "int \<Rightarrow> u64 \<Rightarrow> ctask" where
  "c_new_task type now =
     \<lparr>ck_type = type, ck_time = now, ck_dst_ip = 0, ck_src_ip = 0, ck_file_id = 0, ck_frag_id = 0,
      ck_ttl = 0, ck_data_len = 0, ck_data = None\<rparr>"

definition c_create_task :: "kenv \<Rightarrow> int \<Rightarrow> c_state \<Rightarrow> (addr \<times> ctask) option \<times> c_state" where
  "c_create_task e type s =
     (case kmalloc e s of
        (None, s1) \<Rightarrow> (None, s1)
      | (Some a, s1) \<Rightarrow> (Some (a, c_new_task type (getcurrtime s)), s1))"

definition queue_task :: "addr \<times> ctask \<Rightarrow> c_state \<Rightarrow> c_state" where
  "queue_task t s = emit WakeThread (s\<lparr>c_tasks := c_tasks s @ [t]\<rparr>)"

definition c_get_task :: "c_state \<Rightarrow> (addr \<times> ctask) option \<times> c_state" where
  "c_get_task s = (case c_tasks s of [] \<Rightarrow> (None, s) | t # ts \<Rightarrow> (Some t, s\<lparr>c_tasks := ts\<rparr>))"

definition c_insert_task :: "kenv \<Rightarrow> int \<Rightarrow> skbuff \<Rightarrow> c_state \<Rightarrow> int \<times> c_state" where
  "c_insert_task e type packet s =
     (case c_create_task e type s of
        (None, s1) \<Rightarrow> (- c_ENOMEM, s1)
      | (Some (a, t), s1) \<Rightarrow>
          if type < 8
          then (let t1 = t\<lparr>ck_src_ip := sk_saddr packet, ck_dst_ip := sk_daddr packet, ck_file_id := 0,
                           ck_frag_id := 0, ck_ttl := ucast (sk_ttl packet),
                           ck_data_len := sk_len packet - c_start_point\<rparr>
                in case kmalloc e s1 of
                     (None, s2) \<Rightarrow> (- c_ENOMEM, kfree a s2)
                   | (Some b, s2) \<Rightarrow>
                       (0, queue_task (a, t1\<lparr>ck_data := Some (b, skb_bytes packet c_start_point (ck_data_len t1))\<rparr>) s2))
          else (0, queue_task (a, t) s1))"

definition c_insert_task_from_timer :: "(addr \<times> ctask) option \<Rightarrow> c_state \<Rightarrow> c_state" where
  "c_insert_task_from_timer timer_task s =
     (case timer_task of None \<Rightarrow> s | Some t \<Rightarrow> queue_task t s)"

definition c_data_block :: "ctask \<Rightarrow> addr option" where
  "c_data_block t = map_option fst (ck_data t)"

section \<open>Timers\<close>

definition c_init_timer_queue :: "c_state \<Rightarrow> int \<times> c_state" where
  "c_init_timer_queue s = (0, s\<lparr>c_timers := []\<rparr>)"

definition c_update_timer_queue :: "kenv \<Rightarrow> c_state \<Rightarrow> c_state" where
  "c_update_timer_queue e s = arm_timer e ck_time (c_timers s) s"

definition c_queue_timer :: "kenv \<Rightarrow> addr \<times> ctask \<Rightarrow> c_state \<Rightarrow> c_state" where
  "c_queue_timer e new s = s\<lparr>c_timers := link_timer e ck_time new (c_timers s)\<rparr>"

definition c_first_timer_due :: "kenv \<Rightarrow> u64 \<Rightarrow> c_state \<Rightarrow> (addr \<times> ctask) option \<times> c_state" where
  "c_first_timer_due e currtime s =
     (let (r, q) = take_due e ck_time currtime (c_timers s) in (r, s\<lparr>c_timers := q\<rparr>))"

fun c_signal_loop :: "kenv \<Rightarrow> u64 \<Rightarrow> nat \<Rightarrow> c_state \<Rightarrow> c_state" where
  "c_signal_loop e currtime 0 s = s"
| "c_signal_loop e currtime (Suc n) s =
     (case c_first_timer_due e currtime s of
        (None, s1) \<Rightarrow> s1
      | (Some t, s1) \<Rightarrow> c_signal_loop e currtime n (c_insert_task_from_timer (Some t) s1))"

definition c_timer_queue_signal :: "kenv \<Rightarrow> c_state \<Rightarrow> c_state" where
  "c_timer_queue_signal e s =
     c_update_timer_queue e (c_signal_loop e (getcurrtime s) (Suc (length (c_timers s))) s)"

definition c_insert_timer :: "kenv \<Rightarrow> u8 \<Rightarrow> u32 \<Rightarrow> u32 \<Rightarrow> u32 \<Rightarrow> u32 \<Rightarrow> c_state \<Rightarrow> int \<times> c_state" where
  "c_insert_timer e task_type delay ip file_id frag_id s =
     (case c_create_task e (uint task_type) s of
        (None, s1) \<Rightarrow> (- c_ENOMEM, s1)
      | (Some (a, t), s1) \<Rightarrow>
          (0, c_queue_timer e (a, t\<lparr>ck_src_ip := ip, ck_dst_ip := ip, ck_file_id := file_id,
                ck_frag_id := frag_id, ck_time := getcurrtime s1 + ucast delay\<rparr>) s1))"

section \<open>Flood identifiers\<close>

definition c_init_flood_id_queue :: "c_state \<Rightarrow> int \<times> c_state" where
  "c_init_flood_id_queue s = (0, s\<lparr>c_floods := []\<rparr>)"

definition c_find_flood_id :: "kenv \<Rightarrow> u32 \<Rightarrow> u32 \<Rightarrow> c_state \<Rightarrow> (addr \<times> flood_id) option" where
  "c_find_flood_id e src_ip i s = find_flood_loop e (getcurrtime s) src_ip i (c_floods s)"

definition c_cleanup_flood_id_queue :: "c_state \<Rightarrow> c_state" where
  "c_cleanup_flood_id_queue s = (free_floods (c_floods s) s)\<lparr>c_floods := []\<rparr>"

definition c_insert_flood_id :: "kenv \<Rightarrow> u32 \<Rightarrow> u32 \<Rightarrow> u32 \<Rightarrow> u64 \<Rightarrow> c_state \<Rightarrow> int \<times> c_state" where
  "c_insert_flood_id e src_ip dst_ip i lt s =
     (case kmalloc e s of
        (None, s1) \<Rightarrow> (- c_ENOMEM, s1)
      | (Some a, s1) \<Rightarrow>
          (0, s1\<lparr>c_floods := (a, \<lparr>fl_src_ip = src_ip, fl_dst_ip = dst_ip, fl_id = i, fl_lifetime = lt\<rparr>)
                              # c_floods s1\<rparr>))"

definition c_flush_flood_id_queue :: "kenv \<Rightarrow> c_state \<Rightarrow> nat \<times> c_state" where
  "c_flush_flood_id_queue e s =
     (let (ks, s1, id_count) = flush_flood_loop e (getcurrtime s) (c_floods s) s;
          s2 = s1\<lparr>c_floods := ks\<rparr>;
          s3 = snd (c_insert_timer e 10 FLUSH_INTERVAL (c_my_ip s2) 0 0 s2)
      in (id_count, c_update_timer_queue e s3))"

end
