(* ===== verification/CacheTable.thy ===== *)
theory CacheTable
  imports CacheTimers
begin

text \<open>
  The cache table, \<open>caching/src/cacheTable.c\<close>: which fragments of which files this node holds, how often each
  was used, and whether the node is their service centre, in which case they stay. \<open>ctable\<close> is
  the list, newest first, \<open>ct_len\<close> its length. The file also reads the initial contents from a directory,
  with \<open>atoi\<close> and \<open>strtok_r\<close> of \<open>caching/src/cUtils.c\<close>.
\<close>

section \<open>Reading numbers and tokens\<close>

definition my_isspace :: "char \<Rightarrow> bool" where
  "my_isspace x = (of_char x \<in> {32, 9, 10, 12, 8, 13 :: int})"

definition my_isdigit :: "char \<Rightarrow> bool" where
  "my_isdigit x = (of_char x \<le> (57 :: int) \<and> of_char x \<ge> (48 :: int))"

fun atoi_loop :: "int \<Rightarrow> string \<Rightarrow> int" where
  "atoi_loop tot [] = tot"
| "atoi_loop tot (c # cs) =
     (if my_isdigit c then atoi_loop (10 * tot + (of_char c - 48)) cs else tot)"

text \<open>The total stays below \<open>2 ^ 31\<close> for the names the module reads, which are shorter than ten
  characters.\<close>

definition atoi :: "string \<Rightarrow> int" where
  "atoi nptr =
     (let cs = dropWhile my_isspace nptr
      in case cs of
           [] \<Rightarrow> 0
         | c # rest \<Rightarrow>
             if c = CHR ''-'' then - atoi_loop 0 rest
             else if c = CHR ''+'' then atoi_loop 0 rest
             else atoi_loop 0 cs)"

text \<open>\<open>strtok_r\<close> on the text that is left: the token, and the text left after it. With no token
  the saved pointer is not changed.\<close>

definition strtok_r :: "string \<Rightarrow> char list \<Rightarrow> string option \<times> string" where
  "strtok_r s delim =
     (let t = dropWhile (\<lambda>c. c \<in> set delim) s
      in if t = [] then (None, s)
         else (Some (takeWhile (\<lambda>c. c \<notin> set delim) t), tl (dropWhile (\<lambda>c. c \<notin> set delim) t)))"

section \<open>The table\<close>

definition same_frag :: "u32 \<Rightarrow> u32 \<Rightarrow> cache_entry \<Rightarrow> bool" where
  "same_frag fileId fragId c = (ce_file_id c = fileId \<and> ce_frag_id c = fragId)"

definition find_cache_by_fl :: "cache_entry nodes \<Rightarrow> u32 \<Rightarrow> (addr \<times> cache_entry) option" where
  "find_cache_by_fl head fileId = nl_find (\<lambda>c. ce_file_id c = fileId) head"

definition find_cache_by_fr :: "u32 \<Rightarrow> u32 \<Rightarrow> c_state \<Rightarrow> (addr \<times> cache_entry) option" where
  "find_cache_by_fr fileId fragId s = nl_find (same_frag fileId fragId) (ctable s)"

definition update_ref :: "u32 \<Rightarrow> u32 \<Rightarrow> c_state \<Rightarrow> int \<times> c_state" where
  "update_ref fileId fragId s =
     (case find_cache_by_fr fileId fragId s of
        None \<Rightarrow> (1, s)
      | Some (a, c) \<Rightarrow> (0, s\<lparr>ctable := nl_upd a (\<lambda>c. c\<lparr>ce_refs := ce_refs c + 1\<rparr>) (ctable s)\<rparr>))"

definition remove_cache :: "addr \<Rightarrow> c_state \<Rightarrow> c_state" where
  "remove_cache dead s = kfree dead (s\<lparr>ctable := nl_del dead (ctable s), ct_len := ct_len s - 1\<rparr>)"

definition delete_cache :: "u32 \<Rightarrow> u32 \<Rightarrow> c_state \<Rightarrow> int \<times> c_state" where
  "delete_cache fileId fragId s =
     (case find_cache_by_fr fileId fragId s of
        None \<Rightarrow> (0, s)
      | Some (a, c) \<Rightarrow> if ce_isServiceCenter c = 0 then (1, remove_cache a s) else (0, s))"

fun cleanup_cache_loop :: "cache_entry nodes \<Rightarrow> c_state \<Rightarrow> c_state" where
  "cleanup_cache_loop [] s = s"
| "cleanup_cache_loop ((a, c) # cs) s =
     (if ce_isServiceCenter c = 0 then cleanup_cache_loop cs (remove_cache a s) else cleanup_cache_loop cs s)"

definition cleanup_cache_table :: "c_state \<Rightarrow> int \<times> c_state" where
  "cleanup_cache_table s = (0, cleanup_cache_loop (ctable s) s)"

definition insert_cache :: "addr \<times> cache_entry \<Rightarrow> c_state \<Rightarrow> c_state" where
  "insert_cache new_cache s = s\<lparr>ctable := new_cache # ctable s, ct_len := ct_len s + 1\<rparr>"

definition create_cache :: "kenv \<Rightarrow> u32 \<Rightarrow> u32 \<Rightarrow> u32 \<Rightarrow> c_state \<Rightarrow> addr option \<times> c_state" where
  "create_cache e fileId fragId flag s =
     (case kmalloc e s of
        (None, s1) \<Rightarrow> (None, s1)
      | (Some a, s1) \<Rightarrow>
          (Some a, insert_cache (a, \<lparr>ce_file_id = fileId, ce_frag_id = fragId, ce_refs = 0,
                                     ce_isServiceCenter = flag\<rparr>) s1))"

text \<open>
  \<open>init_cache_table\<close>. \<open>names\<close> are the names the walk over the siblings of \<open>/myfs/a\<close> delivers, None if that file
  cannot be opened. \<open>atoi\<close> of a missing token reads through NULL; a name goes through \<open>sprintf\<close> as the
  format, so one with a percent sign is counted as a memory error.
\<close>

definition init_cache_name :: "kenv \<Rightarrow> string \<Rightarrow> c_state \<Rightarrow> c_state" where
  "init_cache_name e name s =
     (if length name < 10
      then if CHR ''%'' \<in> set name then fault s
      else case strtok_r name ''-'' of
        (None, _) \<Rightarrow> fault s
      | (Some token, ptr) \<Rightarrow>
          (case strtok_r ptr ''-'' of
             (None, _) \<Rightarrow> fault s
           | (Some token2, _) \<Rightarrow>
               snd (create_cache e (word_of_int (atoi token)) (word_of_int (atoi token2)) 1 s))
      else s)"

definition init_cache_table :: "kenv \<Rightarrow> string list option \<Rightarrow> c_state \<Rightarrow> c_state" where
  "init_cache_table e names s =
     (let s1 = s\<lparr>ctable := [], ct_len := 0\<rparr>
      in case names of None \<Rightarrow> s1 | Some ns \<Rightarrow> fold (init_cache_name e) ns s1)"

section \<open>Invariant\<close>

definition cache_ok :: "c_state \<Rightarrow> bool" where
  "cache_ok s = (distinct (nl_addrs (ctable s)) \<and> (\<forall>a \<in> set (nl_addrs (ctable s)). a < k_allocs s)
     \<and> ct_len s = int (length (ctable s)))"

lemma cache_ok_cong:
  "ctable t = ctable s \<Longrightarrow> ct_len t = ct_len s \<Longrightarrow> k_allocs s \<le> k_allocs t \<Longrightarrow> cache_ok s \<Longrightarrow> cache_ok t"
  unfolding cache_ok_def by (metis order_less_le_trans)

lemma update_ref_ok: "cache_ok s \<Longrightarrow> cache_ok (snd (update_ref f g s))"
  by (auto simp: update_ref_def cache_ok_def split: option.splits)

lemma kfree_c_frame [simp, frame]:
  fixes s :: c_state
  shows "ctable (kfree a s) = ctable s" "ct_len (kfree a s) = ct_len s" "crlist (kfree a s) = crlist s"
  "rinfo (kfree a s) = rinfo s" "extable (kfree a s) = extable s" "c_floods (kfree a s) = c_floods s"
  "c_timers (kfree a s) = c_timers s" "c_tasks (kfree a s) = c_tasks s" "c_my_ip (kfree a s) = c_my_ip s"
  "KVAL (kfree a s) = KVAL s" "BUF_SIZE (kfree a s) = BUF_SIZE s" "THRESHOLD (kfree a s) = THRESHOLD s"
  "g_act (kfree a s) = g_act s" "g_sock (kfree a s) = g_sock s" "c_broadcast_ip (kfree a s) = c_broadcast_ip s"
  by (simp_all add: kfree_def fault_def)

lemma remove_cache_ok:
  assumes "cache_ok s" "a \<in> set (nl_addrs (ctable s))"
  shows "cache_ok (remove_cache a s)"
  using assms length_nl_del [of "ctable s" a] by (auto simp: remove_cache_def cache_ok_def)

lemma remove_cache_table [simp]:
  "ctable (remove_cache a s) = nl_del a (ctable s)" "ct_len (remove_cache a s) = ct_len s - 1"
  "BUF_SIZE (remove_cache a s) = BUF_SIZE s" "KVAL (remove_cache a s) = KVAL s"
  "k_allocs (remove_cache a s) = k_allocs s"
  by (simp_all add: remove_cache_def)

lemma create_cache_cases:
  "create_cache e f g l s =
    (if ke_kmalloc_ok e (k_allocs s)
     then (Some (k_allocs s),
           s\<lparr>k_allocs := Suc (k_allocs s), k_live := insert (k_allocs s) (k_live s),
             ctable := (k_allocs s, \<lparr>ce_file_id = f, ce_frag_id = g, ce_refs = 0, ce_isServiceCenter = l\<rparr>) # ctable s,
             ct_len := ct_len s + 1\<rparr>)
     else (None, s\<lparr>k_allocs := Suc (k_allocs s)\<rparr>))"
  by (simp add: create_cache_def kmalloc_def insert_cache_def)

lemma create_cache_ok: "cache_ok s \<Longrightarrow> cache_ok (snd (create_cache e f g l s))"
  by (auto simp: create_cache_cases cache_ok_def)

lemma init_cache_table_ok: "cache_ok (init_cache_table e names s)"
proof -
  have 0: "cache_ok (s\<lparr>ctable := [], ct_len := 0\<rparr>)" by (simp add: cache_ok_def)
  have 1: "cache_ok t \<Longrightarrow> cache_ok (init_cache_name e name t)" for name t
    by (auto simp: init_cache_name_def create_cache_ok fault_def cache_ok_def
        intro!: create_cache_ok [unfolded cache_ok_def] split: option.splits prod.splits)
  have "cache_ok t \<Longrightarrow> cache_ok (fold (init_cache_name e) ns t)" for ns t
    by (induction ns arbitrary: t) (simp_all add: 1)
  with 0 show ?thesis by (simp add: init_cache_table_def Let_def split: option.splits)
qed

end
