(* ===== verification/CacheReq.thy ===== *)
theory CacheReq
  imports CacheTable
begin

text \<open>
  The list of counted fragment requests, \<open>caching/src/cReqList.c\<close>. Every THRESHOLD requests for a fragment
  the node starts to look for a neighbour to cache it.
\<close>

definition init_req_list :: "c_state \<Rightarrow> c_state" where
  "init_req_list s = s\<lparr>crlist := []\<rparr>"

definition same_req :: "u32 \<Rightarrow> u32 \<Rightarrow> reqList \<Rightarrow> bool" where
  "same_req fileId fragId r = (rl_file_id r = fileId \<and> rl_frag_id r = fragId)"

definition find_creq :: "u32 \<Rightarrow> u32 \<Rightarrow> c_state \<Rightarrow> (addr \<times> reqList) option" where
  "find_creq fileId fragId s = nl_find (same_req fileId fragId) (crlist s)"

text \<open>The comparison is unsigned: a THRESHOLD of zero is never reached.\<close>

definition reachThreshold :: "(addr \<times> reqList) option \<Rightarrow> c_state \<Rightarrow> bool" where
  "reachThreshold tmp_creq s =
     (case tmp_creq of
        None \<Rightarrow> False
      | Some (a, r) \<Rightarrow> \<not> rl_count r < word_of_int (THRESHOLD s - 1))"

definition creq_upd :: "addr option \<Rightarrow> (reqList \<Rightarrow> reqList) \<Rightarrow> c_state \<Rightarrow> c_state" where
  "creq_upd p f s = (case p of None \<Rightarrow> fault s | Some a \<Rightarrow> s\<lparr>crlist := nl_upd a f (crlist s)\<rparr>)"

definition update_count :: "addr option \<Rightarrow> c_state \<Rightarrow> int \<times> c_state" where
  "update_count p s = (1, creq_upd p (\<lambda>r. r\<lparr>rl_count := rl_count r + 1\<rparr>) s)"

definition flush_count :: "addr option \<Rightarrow> c_state \<Rightarrow> int \<times> c_state" where
  "flush_count p s = (1, if p = None then s else creq_upd p (\<lambda>r. r\<lparr>rl_count := 0\<rparr>) s)"

definition remove_creq :: "addr \<Rightarrow> c_state \<Rightarrow> c_state" where
  "remove_creq dead s = kfree dead (s\<lparr>crlist := nl_del dead (crlist s)\<rparr>)"

definition delete_creq :: "u32 \<Rightarrow> u32 \<Rightarrow> c_state \<Rightarrow> int \<times> c_state" where
  "delete_creq fileId fragId s =
     (case find_creq fileId fragId s of
        None \<Rightarrow> (0, s)
      | Some (a, _) \<Rightarrow> (1, remove_creq a s))"

fun free_nodes :: "'a nodes \<Rightarrow> 'z kstate_scheme \<Rightarrow> 'z kstate_scheme" where
  "free_nodes [] s = s"
| "free_nodes ((a, x) # ns) s = free_nodes ns (kfree a s)"

definition cleanup_req_list :: "c_state \<Rightarrow> int \<times> c_state" where
  "cleanup_req_list s = (0, (free_nodes (crlist s) s)\<lparr>crlist := []\<rparr>)"

definition insert_creq :: "addr \<times> reqList \<Rightarrow> c_state \<Rightarrow> c_state" where
  "insert_creq new_creq s = s\<lparr>crlist := new_creq # crlist s\<rparr>"

definition create_creq :: "kenv \<Rightarrow> u32 \<Rightarrow> u32 \<Rightarrow> c_state \<Rightarrow> addr option \<times> c_state" where
  "create_creq e fileId fragId s =
     (case kmalloc e s of
        (None, s1) \<Rightarrow> (None, s1)
      | (Some a, s1) \<Rightarrow>
          (Some a, insert_creq (a, \<lparr>rl_file_id = fileId, rl_frag_id = fragId, rl_count = 0\<rparr>) s1))"

section \<open>Invariant\<close>

definition reqs_ok :: "c_state \<Rightarrow> bool" where
  "reqs_ok s = (distinct (nl_addrs (crlist s)) \<and> (\<forall>a \<in> set (nl_addrs (crlist s)). a < k_allocs s)
     \<and> distinct (map (\<lambda>r. (rl_file_id r, rl_frag_id r)) (nl_vals (crlist s))))"

lemma reqs_ok_cong: "crlist t = crlist s \<Longrightarrow> k_allocs s \<le> k_allocs t \<Longrightarrow> reqs_ok s \<Longrightarrow> reqs_ok t"
  unfolding reqs_ok_def by (metis order_less_le_trans)

lemma reqs_keys_upd:
  assumes "\<And>r. rl_file_id (f r) = rl_file_id r" "\<And>r. rl_frag_id (f r) = rl_frag_id r"
  shows "map (\<lambda>r. (rl_file_id r, rl_frag_id r)) (nl_vals (nl_upd a f ns)) =
    map (\<lambda>r. (rl_file_id r, rl_frag_id r)) (nl_vals ns)"
  by (induction ns) (auto simp: assms)

lemma creq_upd_ok:
  assumes "reqs_ok s" "\<And>r. rl_file_id (f r) = rl_file_id r" "\<And>r. rl_frag_id (f r) = rl_frag_id r"
  shows "reqs_ok (creq_upd p f s)"
  using assms by (simp add: creq_upd_def reqs_ok_def fault_def reqs_keys_upd split: option.splits)

lemma create_creq_cases:
  "create_creq e f g s =
    (if ke_kmalloc_ok e (k_allocs s)
     then (Some (k_allocs s),
           s\<lparr>k_allocs := Suc (k_allocs s), k_live := insert (k_allocs s) (k_live s),
             crlist := (k_allocs s, \<lparr>rl_file_id = f, rl_frag_id = g, rl_count = 0\<rparr>) # crlist s\<rparr>)
     else (None, s\<lparr>k_allocs := Suc (k_allocs s)\<rparr>))"
  by (simp add: create_creq_def kmalloc_def insert_creq_def)

lemma create_creq_ok:
  assumes "reqs_ok s" "find_creq f g s = None"
  shows "reqs_ok (snd (create_creq e f g s))"
proof -
  have "(f, g) \<notin> (\<lambda>r. (rl_file_id r, rl_frag_id r)) ` set (nl_vals (crlist s))"
    using assms(2) by (auto simp: find_creq_def nl_find_None same_req_def)
  then show ?thesis using assms(1) by (auto simp: create_creq_cases reqs_ok_def)
qed

end
