(* ===== verification/CacheExchange.thy ===== *)
theory CacheExchange
  imports CacheReq
begin

text \<open>
  Choosing who caches a fragment, \<open>caching/src/cExchange.c\<close>. A node on the path asks its neighbours for their
  score (\<open>gen_exchReq\<close>, \<open>recv_exreq\<close>), collects the answers in \<open>extable\<close> (\<open>recv_exrep\<close>) and, when the
  timer is due, gives the fragment to the best one or to itself (\<open>select_agent\<close>, \<open>retrieve_frag\<close>).
  The generators never free the block of the message they have sent.
\<close>

section \<open>Conversions\<close>

definition convert_exreq_to_host :: "kenv \<Rightarrow> exchReq \<Rightarrow> exchReq" where
  "convert_exreq_to_host e m =
     m\<lparr>eq_src_ip := ntohl e (eq_src_ip m), eq_dst_ip := ntohl e (eq_dst_ip m),
       eq_file_id := ntohl e (eq_file_id m), eq_frag_id := ntohl e (eq_frag_id m)\<rparr>"

definition convert_exrep_to_host :: "kenv \<Rightarrow> exchRep \<Rightarrow> exchRep" where
  "convert_exrep_to_host e m =
     m\<lparr>ep_src_ip := ntohl e (ep_src_ip m), ep_dst_ip := ntohl e (ep_dst_ip m),
       ep_file_id := ntohl e (ep_file_id m), ep_frag_id := ntohl e (ep_frag_id m),
       ep_score := ntohl e (ep_score m)\<rparr>"

definition convert_addcache_to_host :: "kenv \<Rightarrow> addCache \<Rightarrow> addCache" where
  "convert_addcache_to_host e m =
     m\<lparr>ac_src_ip := ntohl e (ac_src_ip m), ac_dst_ip := ntohl e (ac_dst_ip m),
       ac_file_id := ntohl e (ac_file_id m), ac_frag_id := ntohl e (ac_frag_id m)\<rparr>"

section \<open>The score\<close>

text \<open>The number of fragments of a file in the table, as the loops count them.\<close>

definition count_file :: "u32 \<Rightarrow> c_state \<Rightarrow> int" where
  "count_file f s = int (length (find_upto (length (ctable s)) (\<lambda>c. ce_file_id c = f) (ctable s)))"

text \<open>The result is the \<open>int\<close> converted to unsigned.\<close>

definition getScore :: "u32 \<Rightarrow> u32 \<Rightarrow> c_state \<Rightarrow> u32" where
  "getScore file_id frag_id s =
     (if find_cache_by_fr file_id frag_id s \<noteq> None then 0
      else if count_file file_id s \<ge> KVAL s - 1 then 0
      else word_of_int ((BUF_SIZE s - ct_len s) + 1))"

section \<open>Messages\<close>

definition gen_exchReq :: "kenv \<Rightarrow> u32 \<Rightarrow> u32 \<Rightarrow> u32 \<Rightarrow> u32 \<Rightarrow> c_state \<Rightarrow> int \<times> c_state" where
  "gen_exchReq e src_ip dst_ip file_id frag_id s =
     (case kmalloc e s of
        (None, s1) \<Rightarrow> (0, s1)
      | (Some a, s1) \<Rightarrow>
          (0, snd (c_local_broadcast e 1
                (exchReq_bytes (ke_big_endian e)
                   \<lparr>eq_head = new_head e a EXCHANGE_REQ_MESSAGE, eq_src_ip = htonl e src_ip, eq_dst_ip = htonl e dst_ip,
                    eq_file_id = htonl e file_id, eq_frag_id = htonl e frag_id\<rparr>) s1)))"

definition gen_exchRep :: "kenv \<Rightarrow> u32 \<Rightarrow> u32 \<Rightarrow> u32 \<Rightarrow> u32 \<Rightarrow> u32 \<Rightarrow> u32 \<Rightarrow> c_state \<Rightarrow> int \<times> c_state" where
  "gen_exchRep e src_ip dst_ip neigh_ip file_id frag_id score s =
     (case kmalloc e s of
        (None, s1) \<Rightarrow> (0, s1)
      | (Some a, s1) \<Rightarrow>
          (0, snd (c_send_message e neigh_ip c_NET_DIAMETER
                (exchRep_bytes (ke_big_endian e)
                   \<lparr>ep_head = new_head e a EXCHANGE_REP_MESSAGE, ep_file_id = htonl e file_id,
                    ep_frag_id = htonl e frag_id, ep_src_ip = htonl e src_ip, ep_dst_ip = htonl e dst_ip,
                    ep_score = htonl e score\<rparr>) s1)))"

definition gen_addCache :: "kenv \<Rightarrow> u32 \<Rightarrow> u32 \<Rightarrow> u32 \<Rightarrow> u32 \<Rightarrow> c_state \<Rightarrow> int \<times> c_state" where
  "gen_addCache e src_ip dst_ip file_id frag_id s =
     (case kmalloc e s of
        (None, s1) \<Rightarrow> (0, s1)
      | (Some a, s1) \<Rightarrow>
          (0, snd (c_send_message e src_ip c_NET_DIAMETER
                (addCache_bytes (ke_big_endian e)
                   \<lparr>ac_head = new_head e a ADD_CACHE_MESSAGE, ac_file_id = htonl e file_id,
                    ac_frag_id = htonl e frag_id, ac_src_ip = htonl e src_ip, ac_dst_ip = htonl e dst_ip\<rparr>) s1)))"

section \<open>Taking a fragment into the table\<close>

text \<open>The scan for the least used entry after the first one that may go.\<close>

fun min_loop :: "cache_entry nodes \<Rightarrow> addr \<Rightarrow> u32 \<Rightarrow> addr" where
  "min_loop [] min_cache min_ref = min_cache"
| "min_loop ((a, c) # cs) min_cache min_ref =
     (if ce_refs c < min_ref \<and> ce_isServiceCenter c = 0 then min_loop cs a (ce_refs c)
      else min_loop cs min_cache min_ref)"

definition remove_file :: "string \<Rightarrow> int" where
  "remove_file filename = 0"

definition retrieve_frag :: "kenv \<Rightarrow> u32 \<Rightarrow> u32 \<Rightarrow> u32 \<Rightarrow> c_state \<Rightarrow> int \<times> c_state" where
  "retrieve_frag e dst_ip file_id frag_id s =
     (let count = int (length (find_upto (nat (KVAL s)) (\<lambda>c. ce_file_id c = file_id) (ctable s)))
      in if count \<ge> KVAL s - 1 then (1, s)
         else (let s1 = s\<lparr>cPrefetch := cPrefetch s + 1\<rparr>
               in if ct_len s1 \<ge> BUF_SIZE s1
                  then (case dropWhile (\<lambda>n. ce_isServiceCenter (snd n) = 1) (ctable s1) of
                          [] \<Rightarrow> (1, s1)
                        | (a, c) # rest \<Rightarrow>
                            (0, snd (create_cache e file_id frag_id 0
                                       (remove_cache (min_loop rest a (ce_refs c)) s1))))
                  else (0, snd (create_cache e file_id frag_id 0 s1))))"

section \<open>The table of answers\<close>

definition init_extable :: "c_state \<Rightarrow> c_state" where
  "init_extable s = s\<lparr>extable := []\<rparr>"

definition live_answer :: "u32 \<Rightarrow> u32 \<Rightarrow> exchTable \<Rightarrow> bool" where
  "live_answer fileId fragId x = (\<not> (ex_expired x = 1 \<or> ex_file_id x \<noteq> fileId \<or> ex_frag_id x \<noteq> fragId))"

definition find_extable :: "exchTable nodes \<Rightarrow> u32 \<Rightarrow> u32 \<Rightarrow> (addr \<times> exchTable) option" where
  "find_extable head fileId fragId = nl_find (live_answer fileId fragId) head"

definition remove_extable :: "addr \<Rightarrow> c_state \<Rightarrow> c_state" where
  "remove_extable dead s = kfree dead (s\<lparr>extable := nl_del dead (extable s)\<rparr>)"

fun flush_extable_loop :: "exchTable nodes \<Rightarrow> c_state \<Rightarrow> c_state" where
  "flush_extable_loop [] s = s"
| "flush_extable_loop ((a, x) # xs) s =
     (if ex_expired x = 1 then flush_extable_loop xs (remove_extable a s) else flush_extable_loop xs s)"

definition flush_extable :: "c_state \<Rightarrow> c_state" where
  "flush_extable s = flush_extable_loop (extable s) s"

definition cleanup_extable :: "c_state \<Rightarrow> int \<times> c_state" where
  "cleanup_extable s = (0, (free_nodes (extable s) s)\<lparr>extable := []\<rparr>)"

definition insert_extable :: "addr \<times> exchTable \<Rightarrow> c_state \<Rightarrow> c_state" where
  "insert_extable new_extable s = s\<lparr>extable := new_extable # extable s\<rparr>"

definition create_extable :: "kenv \<Rightarrow> exchRep \<Rightarrow> c_state \<Rightarrow> addr option \<times> c_state" where
  "create_extable e m s =
     (case kmalloc e s of
        (None, s1) \<Rightarrow> (None, s1)
      | (Some a, s1) \<Rightarrow>
          (Some a, insert_extable (a, \<lparr>ex_file_id = ep_file_id m, ex_frag_id = ep_frag_id m, ex_dst_ip = ep_dst_ip m,
                                       ex_neigh_ip = ep_src_ip m, ex_score = ep_score m, ex_expired = 0\<rparr>) s1))"

section \<open>The handlers\<close>

definition recv_exreq :: "kenv \<Rightarrow> ctask \<Rightarrow> c_state \<Rightarrow> int \<times> c_state" where
  "recv_exreq e tmp_task s =
     (case ck_data tmp_task of
        None \<Rightarrow> (0, fault s)
      | Some (_, bs) \<Rightarrow>
          let m = convert_exreq_to_host e (bytes_exchReq (ke_big_endian e) bs);
              score = getScore (eq_file_id m) (eq_frag_id m) s
          in (0, snd (gen_exchRep e (c_my_ip s) (eq_dst_ip m) (eq_src_ip m) (eq_file_id m) (eq_frag_id m) score s)))"

definition recv_exrep :: "kenv \<Rightarrow> ctask \<Rightarrow> c_state \<Rightarrow> int \<times> c_state" where
  "recv_exrep e tmp_task s =
     (case ck_data tmp_task of
        None \<Rightarrow> (0, fault s)
      | Some (_, bs) \<Rightarrow>
          (0, snd (create_extable e (convert_exrep_to_host e (bytes_exchRep (ke_big_endian e) bs)) s)))"

definition recv_addcache :: "kenv \<Rightarrow> ctask \<Rightarrow> c_state \<Rightarrow> int \<times> c_state" where
  "recv_addcache e tmp_task s =
     (case ck_data tmp_task of
        None \<Rightarrow> (0, fault s)
      | Some (_, bs) \<Rightarrow>
          let m = convert_addcache_to_host e (bytes_addCache (ke_big_endian e) bs)
          in (0, snd (retrieve_frag e (ac_dst_ip m) (ac_file_id m) (ac_frag_id m) s)))"

text \<open>The loop of \<open>select_agent\<close> over the answers from a node on, with at most n searches: the best
  score and its owner so far. An answer looked at is expired.\<close>

fun agent_loop :: "nat \<Rightarrow> u32 \<Rightarrow> u32 \<Rightarrow> exchTable nodes \<Rightarrow> u32 \<times> u32 \<Rightarrow> c_state \<Rightarrow> (u32 \<times> u32) \<times> c_state" where
  "agent_loop 0 fileId fragId ns best s = (best, s)"
| "agent_loop (Suc n) fileId fragId ns best s =
     (case find_extable ns fileId fragId of
        None \<Rightarrow> (best, s)
      | Some (a, x) \<Rightarrow>
          agent_loop n fileId fragId (nodes_after a ns)
            (if ex_score x > fst best then (ex_score x, ex_neigh_ip x) else best)
            (s\<lparr>extable := nl_upd a (\<lambda>x. x\<lparr>ex_expired := 1\<rparr>) (extable s)\<rparr>))"

definition select_agent :: "kenv \<Rightarrow> ctask \<Rightarrow> c_state \<Rightarrow> int \<times> c_state" where
  "select_agent e tmp_task s =
     (let fileId = ck_file_id tmp_task; fragId = ck_frag_id tmp_task;
          (best, s1) = agent_loop (length (extable s)) fileId fragId (extable s)
                         (getScore fileId fragId s, c_my_ip s) s;
          dst_ip = snd best
      in if dst_ip \<noteq> c_my_ip s1
         then (0, snd (gen_addCache e dst_ip (ck_dst_ip tmp_task) fileId fragId s1))
         else (0, snd (retrieve_frag e (ck_dst_ip tmp_task) fileId fragId s1)))"

end
