(* ===== verification/CacheFile.thy ===== *)
theory CacheFile
  imports CacheExchange
begin

text \<open>
  Files and fragments on the network: \<open>caching/src/cFragReq.c\<close> (a request for one fragment),
  \<open>caching/src/cFileRep.c\<close> (the answers to a file request and what is fetched from whom) and \<open>caching/src/cFileReq.c\<close>
  (the flooded file request).
\<close>

section \<open>Fragment requests\<close>

definition convert_frreq_to_host :: "kenv \<Rightarrow> fragReq \<Rightarrow> fragReq" where
  "convert_frreq_to_host e m =
     m\<lparr>fg_src_ip := ntohl e (fg_src_ip m), fg_dst_ip := ntohl e (fg_dst_ip m),
       fg_file_id := ntohl e (fg_file_id m), fg_frag_id := ntohl e (fg_frag_id m)\<rparr>"

definition convert_frreq_to_network :: "kenv \<Rightarrow> fragReq \<Rightarrow> fragReq" where
  "convert_frreq_to_network e m =
     m\<lparr>fg_src_ip := htonl e (fg_src_ip m), fg_dst_ip := htonl e (fg_dst_ip m),
       fg_file_id := htonl e (fg_file_id m), fg_frag_id := htonl e (fg_frag_id m)\<rparr>"

definition data_transmit :: "u32 \<Rightarrow> u32 \<Rightarrow> u32 \<Rightarrow> u32 \<Rightarrow> int" where
  "data_transmit src_ip dst_ip file_id frag_id = 0"

definition gen_frreq :: "kenv \<Rightarrow> u32 \<Rightarrow> u32 \<Rightarrow> u32 \<Rightarrow> u32 \<Rightarrow> c_state \<Rightarrow> int \<times> c_state" where
  "gen_frreq e src_ip dst_ip file_id frag_id s =
     (case kmalloc e s of
        (None, s1) \<Rightarrow> (0, s1)
      | (Some a, s1) \<Rightarrow>
          (0, snd (c_send_message e dst_ip c_NET_DIAMETER
                (fragReq_bytes (ke_big_endian e)
                   \<lparr>fg_head = new_head e a FRAG_REQ_ORI_MESSAGE, fg_src_ip = htonl e src_ip, fg_dst_ip = htonl e dst_ip,
                    fg_file_id = htonl e file_id, fg_frag_id = htonl e frag_id\<rparr>) s1)))"

text \<open>\<open>gen_frreq_by_task\<close> on the message of the task, already in host order; the packet goes to the
  address in network order.\<close>

definition gen_frreq_by_task :: "kenv \<Rightarrow> ctask \<Rightarrow> fragReq \<Rightarrow> c_state \<Rightarrow> int \<times> c_state" where
  "gen_frreq_by_task e tmp_task base s =
     (case kmalloc e s of
        (None, s1) \<Rightarrow> (0, s1)
      | (Some a, s1) \<Rightarrow>
          let m = \<lparr>fg_head = new_head e a FRAG_REQ_FWD_MESSAGE, fg_src_ip = htonl e (fg_src_ip base),
                   fg_dst_ip = htonl e (fg_dst_ip base), fg_file_id = htonl e (fg_file_id base),
                   fg_frag_id = htonl e (fg_frag_id base)\<rparr>
          in (0, snd (c_send_message e (fg_dst_ip m) (ucast (ck_ttl tmp_task - 1))
                        (fragReq_bytes (ke_big_endian e) m) s1)))"

text \<open>Counting a request; at the threshold \<open>act\<close> is done and the exchange started for \<open>dst\<close>.\<close>

definition count_request :: "kenv \<Rightarrow> (c_state \<Rightarrow> c_state) \<Rightarrow> u32 \<Rightarrow> u32 \<Rightarrow> u32 \<Rightarrow> c_state \<Rightarrow> c_state" where
  "count_request e act dst fileId fragId s =
     (let tmp_creq = find_creq fileId fragId s
      in if tmp_creq = None
         then (let (p, s1) = create_creq e fileId fragId s in snd (update_count p s1))
         else if reachThreshold tmp_creq s
         then (let s1 = snd (flush_count (map_option fst tmp_creq) s);
                   s2 = act s1;
                   s3 = snd (gen_exchReq e (c_my_ip s2) dst fileId fragId s2);
                   s4 = snd (c_insert_timer e 9 WAIT_EXCH_REP_TIME dst fileId fragId s3)
               in c_update_timer_queue e s4)
         else snd (update_count (map_option fst tmp_creq) s))"

definition recv_frreq_ori :: "kenv \<Rightarrow> ctask \<Rightarrow> c_state \<Rightarrow> int \<times> c_state" where
  "recv_frreq_ori e tmp_task s =
     (case ck_data tmp_task of
        None \<Rightarrow> (0, fault s)
      | Some (_, bs) \<Rightarrow>
          let m = convert_frreq_to_host e (bytes_fragReq (ke_big_endian e) bs);
              fileId = fg_file_id m; fragId = fg_frag_id m
          in if ck_dst_ip tmp_task = c_my_ip s
             then (1, if g_act s = ''on'' then snd (update_ref fileId fragId s) else s)
             else (0, if g_act s = ''on''
                      then count_request e (\<lambda>s. snd (gen_frreq_by_task e tmp_task m s))
                             (ck_dst_ip tmp_task) fileId fragId s
                      else s))"

definition recv_frreq_fwd :: "kenv \<Rightarrow> ctask \<Rightarrow> c_state \<Rightarrow> int \<times> c_state" where
  "recv_frreq_fwd e tmp_task s =
     (case ck_data tmp_task of
        None \<Rightarrow> (0, fault s)
      | Some (_, bs) \<Rightarrow>
          let m = convert_frreq_to_host e (bytes_fragReq (ke_big_endian e) bs);
              fileId = fg_file_id m; fragId = fg_frag_id m
          in if ck_dst_ip tmp_task = c_my_ip s then (1, snd (update_ref fileId fragId s))
             else (case find_creq fileId fragId s of
                     None \<Rightarrow> (0, s)
                   | Some (a, _) \<Rightarrow> (0, snd (flush_count (Some a) s))))"

section \<open>The table of file replies\<close>

definition init_rinfo :: "c_state \<Rightarrow> c_state" where
  "init_rinfo s = s\<lparr>rinfo := []\<rparr>"

definition live_reply :: "u32 \<Rightarrow> fileRepInfo \<Rightarrow> bool" where
  "live_reply fileId r = (\<not> (ri_expired r = 1 \<or> ri_file_id r \<noteq> fileId))"

definition find_rinfo :: "fileRepInfo nodes \<Rightarrow> u32 \<Rightarrow> (addr \<times> fileRepInfo) option" where
  "find_rinfo head fileId = nl_find (live_reply fileId) head"

definition remove_rinfo :: "addr \<Rightarrow> c_state \<Rightarrow> c_state" where
  "remove_rinfo dead s = kfree dead (s\<lparr>rinfo := nl_del dead (rinfo s)\<rparr>)"

fun flush_rinfo_loop :: "fileRepInfo nodes \<Rightarrow> c_state \<Rightarrow> c_state" where
  "flush_rinfo_loop [] s = s"
| "flush_rinfo_loop ((a, x) # xs) s =
     (if ri_expired x = 1 then flush_rinfo_loop xs (remove_rinfo a s) else flush_rinfo_loop xs s)"

definition flush_rinfo :: "c_state \<Rightarrow> c_state" where
  "flush_rinfo s = flush_rinfo_loop (rinfo s) s"

definition cleanup_rinfo :: "c_state \<Rightarrow> int \<times> c_state" where
  "cleanup_rinfo s = (0, (free_nodes (rinfo s) s)\<lparr>rinfo := []\<rparr>)"

definition insert_rinfo :: "addr \<times> fileRepInfo \<Rightarrow> c_state \<Rightarrow> c_state" where
  "insert_rinfo new_rinfo s = s\<lparr>rinfo := new_rinfo # rinfo s\<rparr>"

text \<open>
  \<open>create_rinfo\<close>. \<open>map\<close> has room for eight fragments, the message says how many it carries, and the
  copy does not look: more than eight is a write past the end of \<open>map\<close>. The count is an 8-bit
  field to which \<open>ntohl\<close> is applied; the entry keeps it unsigned, but the loop counts up to it as a signed \<open>int\<close>, so
  a negative one copies nothing. \<open>ri_map\<close> holds what was copied.
\<close>

definition create_rinfo :: "kenv \<Rightarrow> u8 list \<Rightarrow> c_state \<Rightarrow> addr option \<times> c_state" where
  "create_rinfo e bs s =
     (let m = bytes_fileRep (ke_big_endian e) bs;
          frag_count = ntohl e (ucast (fp_frag_count m))
      in case kmalloc e s of
           (None, s1) \<Rightarrow> (None, s1)
         | (Some a, s1) \<Rightarrow>
             let n = nat (sint frag_count);
                 frags = map (\<lambda>i. ntohl e (fileRep_frag (ke_big_endian e) bs i)) [0 ..< n];
                 r = \<lparr>ri_file_id = ntohl e (fp_file_id m), ri_dst_ip = ntohl e (fp_src_ip m),
                      ri_dist = ntohl e (fp_dist m), ri_map = frags, ri_frag_count = frag_count,
                      ri_expired = 0\<rparr>;
                 s2 = (if 8 < n then fault s1 else s1)
             in (Some a, insert_rinfo (a, r) s2))"

lemma small_count:
  assumes "unat (w :: u32) < 2147483648"
  shows "nat (sint w) = unat w"
proof -
  have "int (unat w) < 2147483648" using assms by linarith
  then have u: "uint w < 2147483648" by simp
  have "0 \<le> uint w" by simp
  then have "- 2147483648 \<le> uint w" by linarith
  then have "signed_take_bit 31 (uint w) = uint w"
    by (intro signed_take_bit_int_eq_self) (use u in simp_all)
  then have "sint w = uint w" by (simp add: sint_uint)
  then show ?thesis by simp
qed

definition recv_flrep :: "kenv \<Rightarrow> ctask \<Rightarrow> c_state \<Rightarrow> int \<times> c_state" where
  "recv_flrep e tmp_task s =
     (if ck_dst_ip tmp_task \<noteq> c_my_ip s then (1, s)
      else case ck_data tmp_task of
        None \<Rightarrow> (0, fault s)
      | Some (_, bs) \<Rightarrow>
          let fileId = fp_file_id (bytes_fileRep (ke_big_endian e) bs);
              s1 = (if find_rinfo (rinfo s) fileId = None
                    then c_update_timer_queue e
                           (snd (c_insert_timer e 8 WAIT_FILE_REP_TIME (c_my_ip s) fileId 0 s))
                    else s)
          in (0, snd (create_rinfo e bs s1)))"

section \<open>Answering a file request\<close>

definition gen_flrep :: "kenv \<Rightarrow> u32 \<Rightarrow> u32 \<Rightarrow> u32 \<Rightarrow> u32 \<Rightarrow> c_state \<Rightarrow> int \<times> c_state" where
  "gen_flrep e src_ip dst_ip file_id dist s =
     (let buf = map (\<lambda>n. ce_frag_id (snd n)) (find_upto (nat (KVAL s)) (\<lambda>c. ce_file_id c = file_id) (ctable s))
      in if buf = [] then (1, s)
         else case kmalloc e s of
           (None, s1) \<Rightarrow> (0, s1)
         | (Some a, s1) \<Rightarrow>
             let n = bit (ke_junk e a 0) 0;
                 m = \<lparr>fp_head = (if ke_big_endian e then [FILE_REP_MESSAGE, if n then 128 else 0, 0]
                                 else [FILE_REP_MESSAGE, 0, if n then 128 else 0]),
                      fp_frag_count = of_nat (length buf), fp_src_ip = htonl e src_ip, fp_dst_ip = htonl e dst_ip,
                      fp_file_id = htonl e file_id, fp_dist = htonl e dist\<rparr>
             in (0, snd (c_send_message e dst_ip c_NET_DIAMETER
                          (fileRep_bytes (ke_big_endian e) m (map (htonl e) buf)) s1)))"

section \<open>Fetching a file\<close>

text \<open>The search for the nearest live reply: from the node after the first one on, with at most n searches.\<close>

fun nearest_loop :: "nat \<Rightarrow> u32 \<Rightarrow> fileRepInfo nodes \<Rightarrow> addr \<times> fileRepInfo \<Rightarrow> addr \<times> fileRepInfo" where
  "nearest_loop 0 fileId ns best = best"
| "nearest_loop (Suc n) fileId ns best =
     (case find_rinfo ns fileId of
        None \<Rightarrow> best
      | Some (a, r) \<Rightarrow>
          nearest_loop n fileId (nodes_after a ns) (if ri_dist r < ri_dist (snd best) then (a, r) else best))"

text \<open>
  The inner loop over one reply's fragments: \<open>buf\<close> holds the fragments known so far (its length is
  the code's \<open>count\<close>), \<open>picks\<close> the pairs (dst, frag) chosen, the last one first, which is the order of
  the arrays the code fills from their ends.
\<close>

fun pick_loop :: "int \<Rightarrow> u32 \<Rightarrow> u32 \<Rightarrow> u32 list \<Rightarrow> u32 list \<Rightarrow> (u32 \<times> u32) list \<Rightarrow> u32
    \<Rightarrow> u32 list \<times> (u32 \<times> u32) list \<times> u32" where
  "pick_loop kval dst dist [] buf picks energy = (buf, picks, energy)"
| "pick_loop kval dst dist (f # fs) buf picks energy =
     (if int (length buf) < kval
      then if f \<in> set buf then pick_loop kval dst dist fs buf picks energy
           else pick_loop kval dst dist fs (buf @ [f]) ((dst, f) # picks) (energy + dist)
      else (buf, picks, energy))"

text \<open>The outer loop, bounded by a number of rounds: None when the replies do not suffice. A walk that is not full when it has
  been through what was copied, and believes there is more, reads what was never written.\<close>

fun fetch_loop :: "nat \<Rightarrow> u32 \<Rightarrow> u32 list \<Rightarrow> (u32 \<times> u32) list \<Rightarrow> u32 \<Rightarrow> c_state
    \<Rightarrow> (u32 list \<times> (u32 \<times> u32) list \<times> u32) option \<times> c_state" where
  "fetch_loop 0 fileId buf picks energy s = (None, s)"
| "fetch_loop (Suc n) fileId buf picks energy s =
     (if KVAL s - int (length buf) > 0
      then (case find_rinfo (rinfo s) fileId of
              None \<Rightarrow> (None, s)
            | Some (a, r) \<Rightarrow>
                let (b, m) = nearest_loop (length (rinfo s)) fileId (nodes_after a (rinfo s)) (a, r);
                    (buf1, picks1, energy1) =
                      pick_loop (KVAL s) (ri_dst_ip m) (ri_dist m) (take (unat (ri_frag_count m)) (ri_map m))
                        buf picks energy;
                    s1 = (if length (ri_map m) < unat (ri_frag_count m) \<and> int (length buf1) < KVAL s then fault s else s)
                in fetch_loop n fileId buf1 picks1 energy1
                     (s1\<lparr>rinfo := nl_upd b (\<lambda>r. r\<lparr>ri_expired := 1\<rparr>) (rinfo s1)\<rparr>))
      else (Some (buf, picks, energy), s))"

definition expire_replies :: "u32 \<Rightarrow> c_state \<Rightarrow> c_state" where
  "expire_replies fileId s =
     s\<lparr>rinfo := map (apsnd (\<lambda>r. if live_reply fileId r then r\<lparr>ri_expired := 1\<rparr> else r)) (rinfo s)\<rparr>"

definition request_frag :: "kenv \<Rightarrow> u32 \<Rightarrow> u32 \<times> u32 \<Rightarrow> c_state \<Rightarrow> c_state" where
  "request_frag e fileId pick s =
     (let (dst, frag) = pick;
          s1 = snd (gen_frreq e (c_my_ip s) dst fileId frag s)
      in if g_act s1 = ''on'' then count_request e (\<lambda>s. s) dst fileId frag s1 else s1)"

text \<open>\<open>update_ref\<close> changes only \<open>refs\<close>, so the walk over the node's own fragments is taken on the table
  as it was. A node that holds the file needs no round of the loop.\<close>

definition process_flrep :: "kenv \<Rightarrow> ctask \<Rightarrow> c_state \<Rightarrow> int \<times> c_state" where
  "process_flrep e tmp_task s =
     (let fileId = ck_file_id tmp_task;
          own = find_upto (nat (KVAL s)) (\<lambda>c. ce_file_id c = fileId) (ctable s);
          s1 = (if g_act s = ''on''
                then fold (\<lambda>n s. snd (update_ref fileId (ce_frag_id (snd n)) s)) own s else s);
          buf = map (\<lambda>n. ce_frag_id (snd n)) own;
          (res, s2) = fetch_loop (Suc (length (rinfo s1))) fileId buf [] 0 s1
      in case res of
           None \<Rightarrow> (1, s2)
         | Some (buf1, picks, energy) \<Rightarrow>
             let s3 = s2\<lparr>cEnergy := cEnergy s2 + energy, cSuccess := cSuccess s2 + 1\<rparr>;
                 s4 = fold (request_frag e fileId) picks s3
             in (0, expire_replies fileId s4))"

section \<open>File requests\<close>

definition convert_flreq_to_host :: "kenv \<Rightarrow> fileReq \<Rightarrow> fileReq" where
  "convert_flreq_to_host e m =
     m\<lparr>fq_src_ip := ntohl e (fq_src_ip m), fq_dst_ip := ntohl e (fq_dst_ip m),
       fq_file_id := ntohl e (fq_file_id m), fq_seq := ntohl e (fq_seq m), fq_metric := ntohl e (fq_metric m)\<rparr>"

definition convert_flreq_to_network :: "kenv \<Rightarrow> fileReq \<Rightarrow> fileReq" where
  "convert_flreq_to_network e m =
     m\<lparr>fq_src_ip := htonl e (fq_src_ip m), fq_dst_ip := htonl e (fq_dst_ip m),
       fq_file_id := htonl e (fq_file_id m), fq_seq := htonl e (fq_seq m), fq_metric := htonl e (fq_metric m)\<rparr>"

definition forward_flreq :: "kenv \<Rightarrow> fileReq \<Rightarrow> int \<Rightarrow> c_state \<Rightarrow> int \<times> c_state" where
  "forward_flreq e m ttl s =
     (0, snd (c_local_broadcast e (word_of_int (ttl - 1))
                (fileReq_bytes (ke_big_endian e) (convert_flreq_to_network e m)) s))"

definition recv_flreq :: "kenv \<Rightarrow> ctask \<Rightarrow> c_state \<Rightarrow> int \<times> c_state" where
  "recv_flreq e tmp_task s =
     (case ck_data tmp_task of
        None \<Rightarrow> (0, fault s)
      | Some (_, bs) \<Rightarrow>
          let m = convert_flreq_to_host e (bytes_fileReq (ke_big_endian e) bs);
              current_time = getcurrtime s
          in if ck_ttl tmp_task \<le> 1 then (- c_ETIMEDOUT, s)
             else if c_find_flood_id e (fq_src_ip m) (fq_seq m) s \<noteq> None then (1, s)
             else (let m1 = m\<lparr>fq_metric := fq_metric m + 1\<rparr>;
                       s1 = snd (c_insert_flood_id e (fq_src_ip m1) (fq_dst_ip m1) (fq_seq m1)
                                   (current_time + FILE_REQUEST_LIFETIME) s);
                       s2 = snd (gen_flrep e (c_my_ip s1) (fq_src_ip m1) (fq_file_id m1) (fq_metric m1) s1)
                   in (0, snd (forward_flreq e m1 (sint (ck_ttl tmp_task)) s2))))"

end
