(* ===== verification/CacheMain.thy ===== *)
theory CacheMain
  imports CacheFile
begin

text \<open>
  Where packets and timers meet the handlers: \<open>caching/src/cPacketIn.c\<close>, the thread of
  \<open>caching/src/cThread.c\<close> and the set-up and tear-down of \<open>caching/src/module.c\<close>. \<open>cache_step\<close> collects what can
  happen to the module.
\<close>

abbreviation (input) c_ETH_P_IP :: u16 where "c_ETH_P_IP \<equiv> 0x0800"
abbreviation (input) LQ_HELLO_MESSAGE :: u8 where "LQ_HELLO_MESSAGE \<equiv> 201"
abbreviation (input) LQ_TC_MESSAGE :: u8 where "LQ_TC_MESSAGE \<equiv> 202"

section \<open>Cache packets\<close>

text \<open>\<open>valid_cache_packet\<close> on the length, the type, the source address of a file request and the
  fragment count of a file reply.\<close>

definition valid_cache_packet :: "kenv \<Rightarrow> int \<Rightarrow> u8 \<Rightarrow> u32 \<Rightarrow> u8 \<Rightarrow> c_state \<Rightarrow> bool \<times> c_state" where
  "valid_cache_packet e numbytes type src_ip frag_count s =
     (let f = s\<lparr>fOverhead := fOverhead s + word_of_int (numbytes div 4)\<rparr>;
          c = s\<lparr>cOverhead := cOverhead s + word_of_int (numbytes div 4)\<rparr>
      in if type = 1 then
           if numbytes = int sizeof_fileReq then (ntohl e src_ip \<noteq> c_my_ip s, f) else (False, s)
         else if type = 2 then
           if numbytes = int sizeof_fileRep + 4 * uint frag_count then (True, f) else (False, s)
         else if type = 3 \<or> type = 4 then
           if numbytes = int sizeof_fragReq then (True, f) else (False, s)
         else if type = 5 then
           if numbytes = int sizeof_exchReq then (True, c) else (False, s)
         else if type = 6 then
           if numbytes = int sizeof_exchRep then (True, c) else (False, s)
         else if type = 7 then
           if numbytes = int sizeof_addCache then (True, c) else (False, s)
         else (False, s))"

text \<open>The word of the packet at an offset from the start of the message.\<close>

definition skb_word :: "kenv \<Rightarrow> skbuff \<Rightarrow> nat \<Rightarrow> u32" where
  "skb_word e p off = bytes_u32 (ke_big_endian e) (skb_bytes p (c_start_point + off) 4)"

text \<open>The look-up after queueing reads single bytes, at offsets 12 and 16 of the message.\<close>

definition c_packet_in :: "kenv \<Rightarrow> skbuff \<Rightarrow> c_state \<Rightarrow> verdict \<times> c_state" where
  "c_packet_in e packet s =
     (let cache_type = skb_byte packet c_start_point;
          (ok, s1) = valid_cache_packet e (int (sk_len packet) - int c_start_point) cache_type
                       (skb_word e packet 4) (skb_byte packet (c_start_point + 3)) s
      in if \<not> ok then (NF_DROP, s1)
         else (let s2 = snd (c_insert_task e (uint cache_type) packet s1)
               in if g_act s2 = ''on'' \<and> cache_type = 3
                  then (let file_id = ucast (skb_byte packet (c_start_point + 12)) :: u32;
                            frag_id = ucast (skb_byte packet (c_start_point + 16)) :: u32;
                            tmp_creq = find_creq file_id frag_id s2
                        in if tmp_creq \<noteq> None \<and> reachThreshold tmp_creq s2 then (NF_DROP, s2) else (NF_ACCEPT, s2))
                  else (NF_ACCEPT, s2)))"

section \<open>The measurement of OLSR and AODV traffic\<close>

definition skb_ntohs :: "skbuff \<Rightarrow> nat \<Rightarrow> nat" where
  "skb_ntohs p off = 256 * unat (skb_byte p off) + unat (skb_byte p (off + 1))"

text \<open>The loop over the messages of an OLSR packet, from offset \<open>pos\<close> on, with at most n rounds: None when they do
  not suffice. \<open>count\<close> is unsigned.\<close>

fun olsr_loop :: "nat \<Rightarrow> skbuff \<Rightarrow> nat \<Rightarrow> u32 \<Rightarrow> c_state \<Rightarrow> c_state option" where
  "olsr_loop 0 skb pos count s = None"
| "olsr_loop (Suc n) skb pos count s =
     (if count > 0
      then (let msgsize = of_nat (skb_ntohs skb (pos + 2)) :: u32;
                msgtype = skb_byte skb pos;
                s1 = (if msgtype = LQ_HELLO_MESSAGE
                      then s\<lparr>rtHello_c := rtHello_c s + 1, rtHello := rtHello s + msgsize div 4\<rparr>
                      else if msgtype = LQ_TC_MESSAGE then s\<lparr>rtTc := rtTc s + msgsize div 4\<rparr>
                      else s)
            in olsr_loop n skb (pos + unat msgsize) (count - msgsize) s1)
      else Some s)"

definition olsr_in :: "nat \<Rightarrow> skbuff \<Rightarrow> c_state \<Rightarrow> (verdict \<times> c_state) option" where
  "olsr_in fuel skb s =
     (let size = int (sk_len skb) - int c_start_point;
          count = word_of_int (size - 4) :: u32
      in if count < 4 \<or> skb_ntohs skb c_start_point \<noteq> nat (size mod 65536) then Some (NF_DROP, s)
         else map_option (Pair NF_ACCEPT)
                (olsr_loop fuel skb (c_start_point + 4) count (s\<lparr>rtHeader := rtHeader s + 1\<rparr>)))"

text \<open>C division rounds towards zero.\<close>

definition div4 :: "int \<Rightarrow> int" where
  "div4 n = (if n \<ge> 0 then n div 4 else - (- n div 4))"

definition aodv_in :: "kenv \<Rightarrow> skbuff \<Rightarrow> c_state \<Rightarrow> verdict \<times> c_state" where
  "aodv_in e skb s =
     (let aodv_type = skb_byte skb c_start_point;
          numbytes = int (sk_len skb) - int c_start_point
      in if aodv_type = 2 \<and> numbytes = 20 \<and> skb_word e skb 12 = skb_word e skb 4
         then (NF_ACCEPT, s\<lparr>aodv_hello := aodv_hello s + word_of_int (div4 numbytes)\<rparr>)
         else (NF_ACCEPT, s\<lparr>aodv_else := aodv_else s + word_of_int (div4 numbytes)\<rparr>))"

text \<open>\<open>input_handler\<close>; None when the OLSR loop does not end within the fuel.\<close>

definition c_input_handler :: "kenv \<Rightarrow> nat \<Rightarrow> skbuff \<Rightarrow> netdev \<Rightarrow> c_state \<Rightarrow> (verdict \<times> c_state) option" where
  "c_input_handler e fuel skb indev s =
     (if sk_has_transport skb \<and> sk_h_proto skb = htons e c_ETH_P_IP
      then if sk_udp_dest skb = htons e CACHEPORT
           then if nd_ip_ptr indev = None then Some (NF_ACCEPT, fault s)
                else if nd_word12 indev \<noteq> sk_saddr skb then Some (c_packet_in e skb s) else Some (NF_DROP, s)
           else if sk_udp_dest skb = htons e OLSRPORT
           then if nd_ip_ptr indev = None then Some (NF_ACCEPT, fault s)
                else if nd_word12 indev \<noteq> sk_saddr skb then olsr_in fuel skb s else Some (NF_ACCEPT, s)
           else if sk_udp_dest skb = htons e AODVPORT_c
           then if nd_ip_ptr indev = None then Some (NF_ACCEPT, fault s)
                else if nd_word12 indev \<noteq> sk_saddr skb then Some (aodv_in e skb s) else Some (NF_ACCEPT, s)
           else Some (NF_ACCEPT, s)
      else Some (NF_ACCEPT, s))"

section \<open>The thread\<close>

definition c_dispatch :: "kenv \<Rightarrow> addr \<times> ctask \<Rightarrow> c_state \<Rightarrow> c_state" where
  "c_dispatch e tmp_task s =
     (let t = snd tmp_task; done = kfree_opt (c_data_block t);
          s1 = (if ck_type t = TASK_FILE_REQ_PROCESS then done (snd (recv_flreq e t s))
                else if ck_type t = TASK_FILE_REP_PROCESS then done (snd (recv_flrep e t s))
                else if ck_type t = TASK_FRAG_REQ_UPDATE then done (snd (recv_frreq_ori e t s))
                else if ck_type t = TASK_FRAG_REQ_FLUSH then done (snd (recv_frreq_fwd e t s))
                else if ck_type t = TASK_EXCH_SEND then done (snd (recv_exreq e t s))
                else if ck_type t = TASK_EXCH_UPDATE then done (snd (recv_exrep e t s))
                else if ck_type t = TASK_ADD_CACHE_PROCESS then done (snd (recv_addcache e t s))
                else if ck_type t = TASK_FRAG_REQ_SEND then snd (process_flrep e t s)
                else if ck_type t = TASK_ADD_CACHE_SEND then snd (select_agent e t s)
                else if ck_type t = TASK_CLEAN_UP
                then flush_extable (flush_rinfo (snd (c_flush_flood_id_queue e s)))
                else s)
      in kfree (fst tmp_task) s1)"

definition c_thread_round :: "kenv \<Rightarrow> c_state \<Rightarrow> c_state" where
  "c_thread_round e s =
     (case c_get_task s of
        (None, s1) \<Rightarrow> s1
      | (Some t, s1) \<Rightarrow> c_dispatch e t s1)"

section \<open>Set-up and tear-down\<close>

text \<open>
  \<open>init_module\<close>: the parameters, the device, what \<open>sock_create\<close> answers and the names in the directory.
  A failed \<open>sock_create\<close> is not noticed.
\<close>

definition c_init_module :: "kenv \<Rightarrow> string option \<Rightarrow> int \<Rightarrow> int \<Rightarrow> int \<Rightarrow> int \<Rightarrow> netdev option
    \<Rightarrow> int + addr \<Rightarrow> string list option \<Rightarrow> c_state \<Rightarrow> int \<times> c_state" where
  "c_init_module e act kval nval theta buf dev sock names s =
     (case act of
        None \<Rightarrow> (- 1, s)
      | Some a \<Rightarrow>
          let bcast = (case inet_aton e ''255.255.255.255'' of None \<Rightarrow> 0 | Some w \<Rightarrow> w);
              s1 = s\<lparr>g_act := a, KVAL := kval, NVAL := nval, THRESHOLD := theta, BUF_SIZE := buf,
                     cEnergy := 0, cOverhead := 0, fOverhead := 0, cSuccess := 0, cPrefetch := 0,
                     rtHeader := 0, rtHello := 0, rtHello_c := 0, rtTc := 0, aodv_hello := 0, aodv_else := 0,
                     c_broadcast_ip := bcast, c_my_ip := c_find_dev_ip dev,
                     g_sock := (case sock of Inl _ \<Rightarrow> None | Inr sk \<Rightarrow> Some sk)\<rparr>;
              s2 = snd (c_init_flood_id_queue (snd (c_init_timer_queue (s1\<lparr>c_tasks := []\<rparr>))));
              s3 = init_extable (init_rinfo (init_req_list (init_cache_table e names s2)));
              s4 = snd (c_insert_timer e 10 FLUSH_INTERVAL (c_my_ip s3) 0 0 s3)
          in (0, c_update_timer_queue e s4))"

section \<open>What can happen to the module\<close>

inductive cache_step :: "kenv \<Rightarrow> c_state \<Rightarrow> c_state \<Rightarrow> bool" for e where
  cstep_in: "c_input_handler e fuel skb indev s = Some (v, t) \<Longrightarrow> cache_step e s t"
| cstep_timer: "cache_step e s (c_timer_queue_signal e s)"
| cstep_thread: "cache_step e s (c_thread_round e s)"
| cstep_clock: "cache_step e s (s\<lparr>k_time := now, k_jiffies := j\<rparr>)"

inductive_cases cache_stepE: "cache_step e s t"

inductive cache_reach :: "kenv \<Rightarrow> c_state \<Rightarrow> c_state \<Rightarrow> bool" for e s where
  creach_refl: "cache_reach e s s"
| creach_step: "cache_reach e s t \<Longrightarrow> cache_step e t u \<Longrightarrow> cache_reach e s u"

end
