(* ===== verification/CacheInv.thy ===== *)
theory CacheInv
  imports CacheMain Evolution
begin

text \<open>
  The invariant of the caching module and its proof, one operation at a time. \<open>c_evolves e s t\<close> says what every
  handler guarantees between s and t: the parameters and the task queue are not touched, the
  five tables stay well formed, the fragments this node is the service centre of stay where they
  are, the table of fragments does not outgrow its bound and no request seen is forgotten while
  its entry lives. The rules \<open>cv\<close> follow the syntax of the handlers.
\<close>

section \<open>The invariant\<close>

definition nodes_ok :: "nat \<Rightarrow> 'a nodes \<Rightarrow> bool" where
  "nodes_ok n ns = (distinct (nl_addrs ns) \<and> (\<forall>a \<in> set (nl_addrs ns). a < n))"

lemma nodes_ok_mono: "nodes_ok m ns \<Longrightarrow> m \<le> n \<Longrightarrow> nodes_ok n ns"
  by (auto simp: nodes_ok_def)

lemma nodes_ok_simps [simp]:
  "nodes_ok n []" "nodes_ok n ns \<Longrightarrow> nodes_ok n (nl_upd a f ns)" "nodes_ok n ns \<Longrightarrow> nodes_ok n (nl_del a ns)"
  "nodes_ok n ns \<Longrightarrow> nodes_ok (Suc n) ((n, x) # ns)"
  by (auto simp: nodes_ok_def)

lemma nodes_ok_map [simp]: "nodes_ok n (map (apsnd g) ns) = nodes_ok n ns"
  by (simp add: nodes_ok_def nl_addrs_def)

text \<open>Flags are what the module writes; \<open>centres\<close> are the fragments this node is the service centre of.\<close>

definition flags_ok :: "cache_entry nodes \<Rightarrow> bool" where
  "flags_ok ns = (\<forall>c \<in> set (nl_vals ns). ce_isServiceCenter c = 0 \<or> ce_isServiceCenter c = 1)"

definition frag_of :: "cache_entry \<Rightarrow> u32 \<times> u32" where
  "frag_of c = (ce_file_id c, ce_frag_id c)"

definition centres :: "cache_entry nodes \<Rightarrow> (u32 \<times> u32) list" where
  "centres ns = map frag_of (filter (\<lambda>c. ce_isServiceCenter c = 1) (nl_vals ns))"

definition c_tables_ok :: "c_state \<Rightarrow> bool" where
  "c_tables_ok s = (cache_ok s \<and> flags_ok (ctable s) \<and> reqs_ok s \<and> nodes_ok (k_allocs s) (rinfo s)
     \<and> nodes_ok (k_allocs s) (extable s) \<and> nodes_ok (k_allocs s) (c_timers s) \<and> nodes_ok (k_allocs s) (c_floods s))"

definition same_params :: "c_state \<Rightarrow> c_state \<Rightarrow> bool" where
  "same_params s t = (k_time t = k_time s \<and> k_jiffies t = k_jiffies s \<and> c_tasks t = c_tasks s
     \<and> c_my_ip t = c_my_ip s \<and> c_broadcast_ip t = c_broadcast_ip s \<and> g_act t = g_act s \<and> KVAL t = KVAL s
     \<and> NVAL t = NVAL s \<and> THRESHOLD t = THRESHOLD s \<and> BUF_SIZE t = BUF_SIZE s \<and> g_sock t = g_sock s)"

text \<open>T is a time from now on by which no request inserted now has expired.\<close>

definition c_window :: "kenv \<Rightarrow> u64 \<Rightarrow> u64 \<Rightarrow> bool" where
  "c_window e now T =
     (\<not> ke_time_before e (now + FILE_REQUEST_LIFETIME) T \<and> (\<forall>x. ke_time_before e x now \<longrightarrow> ke_time_before e x T))"

definition c_keeps_seen :: "kenv \<Rightarrow> c_state \<Rightarrow> c_state \<Rightarrow> bool" where
  "c_keeps_seen e s t =
     (\<forall>T k. c_window e (getcurrtime s) T \<longrightarrow> flood_seen e T k (c_floods s) \<longrightarrow> flood_seen e T k (c_floods t))"

definition table_evolves :: "c_state \<Rightarrow> c_state \<Rightarrow> bool" where
  "table_evolves s t = (c_tables_ok s \<longrightarrow>
     c_tables_ok t \<and> centres (ctable t) = centres (ctable s) \<and> ct_len t \<le> max (BUF_SIZE s) (ct_len s))"

definition c_evolves :: "kenv \<Rightarrow> c_state \<Rightarrow> c_state \<Rightarrow> bool" where
  "c_evolves e s t = (same_params s t \<and> k_allocs s \<le> k_allocs t \<and> table_evolves s t \<and> c_keeps_seen e s t)"

lemma c_evolves_time: "c_evolves e s t \<Longrightarrow> getcurrtime t = getcurrtime s"
  by (rule getcurrtime_cong) (simp add: c_evolves_def same_params_def)

named_theorems cv "rules for c_evolves"

interpretation ce: evolution "c_evolves e" for e
proof unfold_locales
  fix s t u
  show "c_evolves e s s" by (simp add: c_evolves_def same_params_def c_keeps_seen_def table_evolves_def)
  assume st: "c_evolves e s t" and tu: "c_evolves e t u"
  have "table_evolves s u"
    using st tu by (auto simp: c_evolves_def table_evolves_def same_params_def)
  then show "c_evolves e s u"
    using st tu c_evolves_time [OF st] by (auto simp: c_evolves_def same_params_def c_keeps_seen_def)
qed

lemmas ce_rules [cv] = ce.rules

text \<open>An operation that changes none of the tables; the rules for those that change one.\<close>

lemma c_tables_same:
  assumes "ctable t = ctable s" "ct_len t = ct_len s" "crlist t = crlist s" "rinfo t = rinfo s"
    "extable t = extable s" "c_timers t = c_timers s" "c_floods t = c_floods s" "k_allocs s \<le> k_allocs t"
    "c_tables_ok s"
  shows "c_tables_ok t"
  using assms(9) cache_ok_cong [OF assms(1,2,8)] reqs_ok_cong [OF assms(3,8)]
    nodes_ok_mono [OF _ assms(8)]
  unfolding c_tables_ok_def by (auto simp: assms(1-7) intro: nodes_ok_mono [OF _ assms(8)])

lemma c_evolvesI:
  assumes "same_params s t" "k_allocs s \<le> k_allocs t" "ctable t = ctable s" "ct_len t = ct_len s"
    and "c_tables_ok s \<Longrightarrow> c_tables_ok t" "c_keeps_seen e s t"
  shows "c_evolves e s t"
  using assms by (simp add: c_evolves_def table_evolves_def)

lemma c_keeps_same: "c_floods t = c_floods s \<Longrightarrow> c_keeps_seen e s t"
  by (simp add: c_keeps_seen_def)

lemma c_evolves_same:
  assumes "same_params s t" "k_allocs s \<le> k_allocs t" "ctable t = ctable s" "ct_len t = ct_len s"
    "crlist t = crlist s" "rinfo t = rinfo s" "extable t = extable s" "c_timers t = c_timers s"
    "c_floods t = c_floods s"
  shows "c_evolves e s t"
  by (rule c_evolvesI [OF assms(1-4) _ c_keeps_same [OF assms(9)]]) (rule c_tables_same [OF assms(3-9,2)])

section \<open>Memory, timers and sending\<close>

lemma cv_fault: "c_evolves e s (fault s)"
  by (rule c_evolves_same) (simp_all add: same_params_def fault_def)

lemma cv_emit: "c_evolves e s (emit x s)"
  by (rule c_evolves_same) (simp_all add: same_params_def emit_def)

lemma cv_kfree: "c_evolves e s (kfree a s)"
  by (rule c_evolves_same) (simp_all add: same_params_def kfree_def fault_def)

lemma cv_kfree_opt: "c_evolves e s (kfree_opt p s)"
  by (simp add: kfree_opt_def ce.refl cv_kfree split: option.split)

lemma cv_kmalloc: "c_evolves e s (snd (kmalloc e' s))"
  by (rule c_evolves_same) (simp_all add: same_params_def kmalloc_def)

lemma cv_arm: "c_evolves e s (c_update_timer_queue e s)"
  by (rule c_evolves_same) (simp_all add: same_params_def c_update_timer_queue_def arm_timer_def emit_def Let_def split: list.split)

lemma cv_insert_timer: "c_evolves e s (snd (c_insert_timer e ty d ip f g s))"
proof (cases "ke_kmalloc_ok e (k_allocs s)")
  case True
  let ?t = "snd (c_insert_timer e ty d ip f g s)"
  have t: "ctable ?t = ctable s" "ct_len ?t = ct_len s" "crlist ?t = crlist s" "rinfo ?t = rinfo s"
    "extable ?t = extable s" "c_floods ?t = c_floods s" "k_allocs ?t = Suc (k_allocs s)" "same_params s ?t"
    "\<exists>x. c_timers ?t = link_timer e ck_time (k_allocs s, x) (c_timers s)"
    using True by (simp_all add: c_insert_timer_def c_create_task_def kmalloc_def c_queue_timer_def same_params_def)
      (rule exI, rule refl)
  show ?thesis
  proof (rule c_evolvesI [OF t(8) _ t(1,2) _ c_keeps_same [OF t(6)]])
    assume ok: "c_tables_ok s"
    have le: "k_allocs s \<le> k_allocs ?t" by (simp add: t(7))
    have "nodes_ok (k_allocs ?t) (c_timers ?t)"
      using t(9) ok unfolding t(7) by (auto simp: nodes_ok_def c_tables_ok_def less_Suc_eq)
    then show "c_tables_ok ?t"
      using ok cache_ok_cong [OF t(1,2) le] reqs_ok_cong [OF t(3) le]
      unfolding c_tables_ok_def by (auto simp: t(1-6) intro: nodes_ok_mono [OF _ le])
  qed (simp add: t(7))
qed (rule c_evolves_same; simp add: same_params_def c_insert_timer_def c_create_task_def kmalloc_def)

lemma cv_broadcast: "c_evolves e s (snd (c_local_broadcast e' ttl d s))"
  by (rule c_evolves_same)
    (auto simp: same_params_def c_local_broadcast_def Let_def emit_def fault_def split: option.split)

lemma cv_send: "c_evolves e s (snd (c_send_message e' ip ttl d s))"
  by (rule c_evolves_same)
    (auto simp: same_params_def c_send_message_def Let_def emit_def fault_def split: option.split)

text \<open>Each operation as a rule for a state already reached.\<close>

lemmas cv_basic [cv] = cv_fault [THEN ce.trans [rotated]] cv_emit [THEN ce.trans [rotated]]
  cv_kfree [THEN ce.trans [rotated]] cv_kfree_opt [THEN ce.trans [rotated]] cv_kmalloc [THEN ce.trans [rotated]]
  cv_arm [THEN ce.trans [rotated]] cv_insert_timer [THEN ce.trans [rotated]]
  cv_broadcast [THEN ce.trans [rotated]] cv_send [THEN ce.trans [rotated]]

section \<open>The cache table\<close>

lemma flags_ok_simps [simp]:
  "flags_ok []" "flags_ok (n # ns) \<longleftrightarrow>
    (ce_isServiceCenter (snd n) = 0 \<or> ce_isServiceCenter (snd n) = 1) \<and> flags_ok ns"
  by (simp_all add: flags_ok_def)

lemma centres_simps [simp]:
  "centres [] = []"
  "centres (n # ns) = (if ce_isServiceCenter (snd n) = 1 then [frag_of (snd n)] else []) @ centres ns"
  by (simp_all add: centres_def)

lemma frag_of_upd:
  assumes "\<And>c. frag_of (f c) = frag_of c" "\<And>c. ce_isServiceCenter (f c) = ce_isServiceCenter c"
  shows "centres (nl_upd a f ns) = centres ns" "flags_ok (nl_upd a f ns) = flags_ok ns"
  by (induction ns) (auto simp: assms split: if_splits)

lemma cv_update_ref: "c_evolves e s (snd (update_ref f g s))"
proof (cases "find_cache_by_fr f g s")
  case (Some n)
  let ?t = "snd (update_ref f g s)"
  have t: "?t = s\<lparr>ctable := nl_upd (fst n) (\<lambda>c. c\<lparr>ce_refs := ce_refs c + 1\<rparr>) (ctable s)\<rparr>"
    using Some by (cases n) (simp add: update_ref_def)
  have "reqs_ok ?t = reqs_ok s" unfolding t by (simp add: reqs_ok_def)
  then have "table_evolves s ?t"
    using update_ref_ok [of s f g] by (simp add: table_evolves_def c_tables_ok_def) (simp add: t frag_of_upd frag_of_def)
  then show ?thesis by (simp add: c_evolves_def t same_params_def c_keeps_seen_def getcurrtime_def)
qed (simp add: update_ref_def ce.refl)

text \<open>The scan of \<open>retrieve_frag\<close>: its result is a node of the table that is not a service centre's, and
  none of these was used less.\<close>

lemma min_loop_in:
  "min_loop cs a r = a \<or> (\<exists>c. (min_loop cs a r, c) \<in> set cs \<and> ce_isServiceCenter c = 0)"
  by (induction cs a r rule: min_loop.induct) auto

definition victim :: "cache_entry nodes \<Rightarrow> addr option" where
  "victim ns = (case dropWhile (\<lambda>n. ce_isServiceCenter (snd n) = 1) ns of
     [] \<Rightarrow> None | (a, c) # rest \<Rightarrow> Some (min_loop rest a (ce_refs c)))"

lemma victim_in:
  assumes "victim ns = Some v"
  obtains c where "(v, c) \<in> set ns" "ce_isServiceCenter c \<noteq> 1"
proof -
  obtain a c rest where d: "dropWhile (\<lambda>n. ce_isServiceCenter (snd n) = 1) ns = (a, c) # rest"
      "v = min_loop rest a (ce_refs c)"
    using assms by (auto simp: victim_def split: list.splits)
  have "ns = takeWhile (\<lambda>n. ce_isServiceCenter (snd n) = 1) ns @ (a, c) # rest" "ce_isServiceCenter c \<noteq> 1"
    using d(1) by (simp_all add: dropWhile_eq_Cons_conv)
  moreover from this have "set ((a, c) # rest) \<subseteq> set ns" by (metis Un_upper2 set_append)
  ultimately show thesis using min_loop_in [of rest a "ce_refs c"] d(2) that by auto
qed

lemma centres_del:
  "distinct (nl_addrs ns) \<Longrightarrow> (a, c) \<in> set ns \<Longrightarrow> ce_isServiceCenter c \<noteq> 1 \<Longrightarrow> centres (nl_del a ns) = centres ns"
proof (induction ns)
  case (Cons n ns)
  have del: "nl_del a ns = ns" if "a \<notin> set (nl_addrs ns)" using that
    by (induction ns) auto
  show ?case using Cons del by (cases n) (auto simp: centres_def nl_addrs_def image_iff)
qed simp

lemma flags_del: "flags_ok ns \<Longrightarrow> flags_ok (nl_del a ns)"
  by (auto simp: flags_ok_def nl_vals_def nl_del_def)

text \<open>\<open>retrieve_frag\<close> by cases.\<close>

definition take_in :: "kenv \<Rightarrow> u32 \<Rightarrow> u32 \<Rightarrow> c_state \<Rightarrow> c_state" where
  "take_in e f g s =
     (if BUF_SIZE s \<le> ct_len s
      then case victim (ctable s) of None \<Rightarrow> s | Some v \<Rightarrow> snd (create_cache e f g 0 (remove_cache v s))
      else snd (create_cache e f g 0 s))"

lemma retrieve_frag_eq:
  "snd (retrieve_frag e d f g s) =
     (if KVAL s - 1 \<le> int (length (find_upto (nat (KVAL s)) (\<lambda>c. ce_file_id c = f) (ctable s))) then s
      else take_in e f g (s\<lparr>cPrefetch := cPrefetch s + 1\<rparr>))"
  by (cases "dropWhile (\<lambda>n. ce_isServiceCenter (snd n) = 1) (ctable s)")
    (simp_all add: retrieve_frag_def take_in_def victim_def Let_def case_prod_beta del: dropWhile_eq_Nil_conv)

lemma table_evolves_create:
  assumes "table_evolves s t" "c_tables_ok s \<Longrightarrow> ct_len t < max (BUF_SIZE s) (ct_len s)" "BUF_SIZE t = BUF_SIZE s"
  shows "table_evolves s (snd (create_cache e f g 0 t))"
proof -
  let ?u = "snd (create_cache e f g 0 t)"
  have u: "k_allocs ?u = Suc (k_allocs t)" "crlist ?u = crlist t" "rinfo ?u = rinfo t" "extable ?u = extable t"
    "c_timers ?u = c_timers t" "c_floods ?u = c_floods t"
    by (simp_all add: create_cache_cases)
  have "c_tables_ok ?u" if "c_tables_ok t"
    using that create_cache_ok [of t e f g 0] reqs_ok_cong [OF u(2)] u(1)
    by (auto simp: c_tables_ok_def u(3-6) intro: nodes_ok_mono) (simp add: create_cache_cases flags_ok_def)
  then show ?thesis
    using assms by (auto simp: table_evolves_def create_cache_cases centres_def)
qed

lemma table_evolves_remove:
  assumes "victim (ctable s) = Some v" "c_tables_ok s"
  shows "table_evolves s (remove_cache v s)" "ct_len (remove_cache v s) = ct_len s - 1"
proof -
  let ?t = "remove_cache v s"
  obtain c where c: "(v, c) \<in> set (ctable s)" "ce_isServiceCenter c \<noteq> 1" using victim_in [OF assms(1)] by blast
  have t: "crlist ?t = crlist s" "rinfo ?t = rinfo s" "extable ?t = extable s" "c_timers ?t = c_timers s"
      "c_floods ?t = c_floods s"
    by (simp_all add: remove_cache_def kfree_def fault_def)
  have ok: "cache_ok ?t"
    using remove_cache_ok [of s v] assms(2) c(1) by (force simp: c_tables_ok_def nl_addrs_def)
  show "ct_len ?t = ct_len s - 1" by simp
  show "table_evolves s ?t"
    using assms(2) ok c centres_del [of "ctable s" v c] flags_del [of "ctable s" v] reqs_ok_cong [OF t(1)]
    by (simp add: table_evolves_def c_tables_ok_def t cache_ok_def)
qed

lemma cv_retrieve: "c_evolves e s (snd (retrieve_frag e d f g s))"
proof -
  have "c_evolves e s (take_in e f g s)" for s
  proof (cases "BUF_SIZE s \<le> ct_len s")
    case True
    show ?thesis
    proof (cases "victim (ctable s)")
      case (Some v)
      have "table_evolves s (snd (create_cache e f g 0 (remove_cache v s)))" if "c_tables_ok s"
        using table_evolves_create [OF table_evolves_remove(1) [OF Some that]] True by simp
      then have "table_evolves s (take_in e f g s)" using True Some by (auto simp: take_in_def table_evolves_def)
      then show ?thesis using True Some
        by (simp add: c_evolves_def take_in_def create_cache_cases)
          (simp add: same_params_def c_keeps_seen_def getcurrtime_def remove_cache_def kfree_def fault_def)
    qed (simp add: take_in_def ce.refl True)
  next
    case False
    have "table_evolves s s" by (simp add: table_evolves_def)
    then have "table_evolves s (take_in e f g s)"
      using False table_evolves_create [of s s e f g] by (simp add: take_in_def)
    then show ?thesis using False
      by (simp add: c_evolves_def take_in_def create_cache_cases)
        (simp add: same_params_def c_keeps_seen_def getcurrtime_def)
  qed
  moreover have p: "c_evolves e s (s\<lparr>cPrefetch := n\<rparr>)" for n
    by (rule c_evolves_same) (simp_all add: same_params_def)
  ultimately show ?thesis unfolding retrieve_frag_eq by (auto intro: ce.refl ce.trans [OF p])
qed

section \<open>Requests, answers, replies and floods\<close>

text \<open>Operations on one of the other lists: what has to be shown is that list's invariant.\<close>

lemma cv_crlist:
  assumes "same_params s t" "k_allocs s \<le> k_allocs t" "ctable t = ctable s" "ct_len t = ct_len s"
    "rinfo t = rinfo s" "extable t = extable s" "c_timers t = c_timers s" "c_floods t = c_floods s"
    and "reqs_ok s \<Longrightarrow> reqs_ok t"
  shows "c_evolves e s t"
proof (rule c_evolvesI [OF assms(1-4) _ c_keeps_same [OF assms(8)]])
  assume "c_tables_ok s"
  then show "c_tables_ok t"
    using assms(9) cache_ok_cong [OF assms(3,4,2)] unfolding c_tables_ok_def assms(3,5-8)
    by (auto intro: nodes_ok_mono [OF _ assms(2)])
qed

lemma cv_lists:
  assumes "same_params s t" "k_allocs s \<le> k_allocs t" "ctable t = ctable s" "ct_len t = ct_len s"
    "crlist t = crlist s" "c_timers t = c_timers s" "c_keeps_seen e s t"
    and "nodes_ok (k_allocs s) (rinfo s) \<Longrightarrow> nodes_ok (k_allocs t) (rinfo t)"
    and "nodes_ok (k_allocs s) (extable s) \<Longrightarrow> nodes_ok (k_allocs t) (extable t)"
    and "nodes_ok (k_allocs s) (c_floods s) \<Longrightarrow> nodes_ok (k_allocs t) (c_floods t)"
  shows "c_evolves e s t"
proof (rule c_evolvesI [OF assms(1-4) _ assms(7)])
  assume "c_tables_ok s"
  then show "c_tables_ok t"
    using assms(8-10) cache_ok_cong [OF assms(3,4,2)] reqs_ok_cong [OF assms(5,2)] unfolding c_tables_ok_def assms(3,6)
    by (auto intro: nodes_ok_mono [OF _ assms(2)])
qed

lemma cv_creq_upd:
  assumes "\<And>r. rl_file_id (f r) = rl_file_id r" "\<And>r. rl_frag_id (f r) = rl_frag_id r"
  shows "c_evolves e s (creq_upd p f s)"
  by (rule cv_crlist)
    (simp_all add: creq_upd_ok [OF _ assms], simp_all add: creq_upd_def same_params_def fault_def split: option.split)

lemma cv_update_count: "c_evolves e s (snd (update_count p s))"
  by (simp add: update_count_def cv_creq_upd)

lemma cv_flush_count: "c_evolves e s (snd (flush_count p s))"
  by (simp add: flush_count_def cv_creq_upd ce.refl)

lemma cv_create_creq: "find_creq f g s = None \<Longrightarrow> c_evolves e s (snd (create_creq e f g s))"
  by (rule cv_crlist) (simp_all add: create_creq_ok, simp_all add: create_creq_cases same_params_def)

lemma cv_create_extable: "c_evolves e s (snd (create_extable e m s))"
  by (rule cv_lists)
    (simp_all add: create_extable_def kmalloc_def insert_extable_def same_params_def c_keeps_seen_def nodes_ok_mono)

lemma cv_expire_answer: "c_evolves e s (s\<lparr>extable := nl_upd a f (extable s)\<rparr>)"
  by (rule cv_lists) (simp_all add: same_params_def c_keeps_seen_def getcurrtime_def)

lemma cv_remove_extable: "c_evolves e s (remove_extable a s)"
  by (rule cv_lists) (simp_all add: remove_extable_def kfree_def fault_def same_params_def c_keeps_seen_def getcurrtime_def)

lemma cv_rinfo: "(nodes_ok (k_allocs s) (rinfo s) \<Longrightarrow> nodes_ok (k_allocs s) ns) \<Longrightarrow> c_evolves e s (s\<lparr>rinfo := ns\<rparr>)"
  by (rule cv_lists) (simp_all add: same_params_def c_keeps_seen_def getcurrtime_def)

lemma cv_remove_rinfo: "c_evolves e s (remove_rinfo a s)"
  unfolding remove_rinfo_def by (rule ce.trans [OF cv_rinfo cv_kfree]) simp

lemma cv_create_rinfo: "c_evolves e s (snd (create_rinfo e bs s))"
proof -
  let ?m = "snd (kmalloc e s)"
  have "\<exists>r b. snd (create_rinfo e bs s) = (if ke_kmalloc_ok e (k_allocs s)
      then insert_rinfo (k_allocs s, r) (if b then fault ?m else ?m) else ?m)"
    unfolding create_rinfo_def Let_def kmalloc_def by (cases "ke_kmalloc_ok e (k_allocs s)") (simp, blast, simp)
  then obtain r b where t: "snd (create_rinfo e bs s) = (if ke_kmalloc_ok e (k_allocs s)
      then insert_rinfo (k_allocs s, r) (if b then fault ?m else ?m) else ?m)" by blast
  have "c_evolves e s (insert_rinfo (k_allocs s, r) ?m)"
    by (rule cv_lists)
      (simp_all add: insert_rinfo_def kmalloc_def same_params_def c_keeps_seen_def nodes_ok_mono getcurrtime_def)
  moreover have "insert_rinfo n (fault u) = fault (insert_rinfo n u)" for n u
    by (simp add: insert_rinfo_def fault_def)
  ultimately have "c_evolves e s (insert_rinfo (k_allocs s, r) (if b then fault ?m else ?m))"
    by (simp add: ce.trans [OF _ cv_fault])
  then show ?thesis unfolding t by (simp add: cv_kmalloc)
qed

lemma cv_insert_flood:
  assumes "l = getcurrtime s + FILE_REQUEST_LIFETIME"
  shows "c_evolves e s (snd (c_insert_flood_id e a b i l s))"
proof (rule cv_lists)
  show "c_keeps_seen e s (snd (c_insert_flood_id e a b i l s))"
  proof (cases "ke_kmalloc_ok e (k_allocs s)")
    case True
    then have "c_floods (snd (c_insert_flood_id e a b i l s)) = flood_add (k_allocs s) b (a, i) l (c_floods s)"
      by (simp add: c_insert_flood_id_def kmalloc_def flood_add_def)
    then show ?thesis using assms by (simp add: c_keeps_seen_def c_window_def fl.seen_add)
  qed (simp add: c_keeps_same c_insert_flood_id_def kmalloc_def)
qed (simp_all add: c_insert_flood_id_def kmalloc_def same_params_def nodes_ok_mono)

lemma cv_flush_loop:
  fixes s :: c_state
  shows "c_evolves e s (fst (snd (flush_flood_loop e now q s)))"
proof (induction e now q s rule: flush_flood_loop.induct)
  case (2 e now a f fs s)
  then show ?case using ce.trans [OF cv_kfree [where s = s and a = a]] by (auto simp: case_prod_beta)
qed (simp add: ce.refl)

lemma flush_loop_c_floods [simp]:
  fixes s :: c_state
  shows "c_floods (fst (snd (flush_flood_loop e now q s))) = c_floods s"
  by (induction e now q s rule: flush_flood_loop.induct) (auto simp: case_prod_beta)

lemma cv_keep_live: "c_evolves e s (s\<lparr>c_floods := flood_live e (getcurrtime s) (c_floods s)\<rparr>)"
proof (rule cv_lists)
  show "c_keeps_seen e s (s\<lparr>c_floods := flood_live e (getcurrtime s) (c_floods s)\<rparr>)"
    by (simp add: c_keeps_seen_def c_window_def fl.seen_flush)
qed (auto simp: same_params_def nodes_ok_def flood_live_def nl_addrs_def distinct_map_filter)

lemmas cv_tables [cv] = cv_update_ref [THEN ce.trans [rotated]] cv_retrieve [THEN ce.trans [rotated]]
  cv_update_count [THEN ce.trans [rotated]] cv_flush_count [THEN ce.trans [rotated]]
  cv_create_extable [THEN ce.trans [rotated]] cv_remove_extable [THEN ce.trans [rotated]]
  cv_remove_rinfo [THEN ce.trans [rotated]] cv_create_rinfo [THEN ce.trans [rotated]]

section \<open>The handlers\<close>

lemma cv_generators [cv]:
  assumes "c_evolves e s t"
  shows "c_evolves e s (snd (gen_exchReq e a b f g t))" "c_evolves e s (snd (gen_exchRep e a b n f g c t))"
    "c_evolves e s (snd (gen_addCache e a b f g t))" "c_evolves e s (snd (gen_frreq e a b f g t))"
    "c_evolves e s (snd (gen_frreq_by_task e k m t))" "c_evolves e s (snd (gen_flrep e a b f d t))"
  using assms
  unfolding gen_exchReq_def gen_exchRep_def gen_addCache_def gen_frreq_def gen_frreq_by_task_def gen_flrep_def Let_def
  by (intro cv; (assumption | simp)?)+

lemma cv_count_request [cv]:
  assumes "c_evolves e s t" "\<And>u. c_evolves e s u \<Longrightarrow> c_evolves e s (act u)"
  shows "c_evolves e s (count_request e act d f g t)"
proof (cases "find_creq f g t")
  case None
  have "c_evolves e s (snd (create_creq e f g t))" by (rule ce.trans [OF assms(1) cv_create_creq [OF None]])
  then show ?thesis using None
    by (simp add: count_request_def Let_def case_prod_beta ce.trans [OF _ cv_update_count])
next
  case (Some p)
  then have "count_request e act d f g t =
      (if reachThreshold (Some p) t
       then let s1 = snd (flush_count (map_option fst (Some p)) t);
                   s2 = act s1;
                   s3 = snd (gen_exchReq e (c_my_ip s2) d f g s2);
                   s4 = snd (c_insert_timer e 9 WAIT_EXCH_REP_TIME d f g s3)
               in c_update_timer_queue e s4
       else snd (update_count (map_option fst (Some p)) t))"
    by (simp add: count_request_def Let_def)
  then show ?thesis using assms unfolding Let_def
    by (simp only:) (intro cv assms(2); assumption?)
qed

lemma cv_flush_floods [cv]:
  assumes "c_evolves e s t"
  shows "c_evolves e s (snd (c_flush_flood_id_queue e t))"
proof -
  obtain ks s1 n where f: "flush_flood_loop e (getcurrtime t) (c_floods t) t = (ks, s1, n)" by (metis surj_pair)
  have ks: "ks = flood_live e (getcurrtime t) (c_floods t)"
    using flush_flood_live [of e "getcurrtime t" "c_floods t" t] f by simp
  have s1: "c_evolves e t s1" "c_floods s1 = c_floods t"
    using cv_flush_loop [of e t "getcurrtime t" "c_floods t"] flush_loop_c_floods [of e "getcurrtime t" "c_floods t" t] f
    by simp_all
  have "c_evolves e t (s1\<lparr>c_floods := ks\<rparr>)"
    using ce.trans [OF s1(1) cv_keep_live] s1 ks by (simp add: c_evolves_time)
  from ce.trans [OF assms this] show ?thesis
    unfolding c_flush_flood_id_queue_def f Let_def prod.case by (intro cv)
qed

lemma cv_flush_extable_loop: "c_evolves e s t \<Longrightarrow> c_evolves e s (flush_extable_loop xs t)"
  by (induction xs t rule: flush_extable_loop.induct) (simp_all add: cv)

lemma cv_flush_rinfo_loop: "c_evolves e s t \<Longrightarrow> c_evolves e s (flush_rinfo_loop xs t)"
  by (induction xs t rule: flush_rinfo_loop.induct) (simp_all add: cv)

lemma cv_flush [cv]:
  "c_evolves e s t \<Longrightarrow> c_evolves e s (flush_extable t)" "c_evolves e s t \<Longrightarrow> c_evolves e s (flush_rinfo t)"
  by (simp_all add: flush_extable_def flush_rinfo_def cv_flush_extable_loop cv_flush_rinfo_loop)

lemma cv_agent_loop: "c_evolves e s t \<Longrightarrow> c_evolves e s (snd (agent_loop n f g ns best t))"
proof (induction n arbitrary: ns best t)
  case (Suc n)
  show ?case
  proof (cases "find_extable ns f g")
    case (Some p)
    then show ?thesis using Suc.IH [OF ce.trans [OF Suc.prems cv_expire_answer]]
      by (cases p) (simp add: cv del: split_paired_All)
  qed (simp add: Suc.prems)
qed simp

lemma cv_fetch_loop: "c_evolves e s t \<Longrightarrow> c_evolves e s (snd (fetch_loop n f buf picks en t))"
proof (induction n arbitrary: buf picks en t)
  case (Suc n)
  have r: "c_evolves e s (u\<lparr>rinfo := nl_upd b h (rinfo u)\<rparr>)" if "c_evolves e s u" for u b h
    by (rule ce.trans [OF that cv_rinfo]) simp
  have f: "c_evolves e s (fault t)" by (rule ce.trans [OF Suc.prems cv_fault])
  show ?case using Suc.prems Suc.IH [OF r [OF Suc.prems]] Suc.IH [OF r [OF f]]
    by (simp add: Let_def case_prod_beta split: option.split)
qed simp

lemma cv_selectors [cv]:
  "c_evolves e s t \<Longrightarrow> c_evolves e s (snd (select_agent e k t))"
  "c_evolves e s t \<Longrightarrow> c_evolves e s (snd (recv_exreq e k t))"
  "c_evolves e s t \<Longrightarrow> c_evolves e s (snd (recv_exrep e k t))"
  "c_evolves e s t \<Longrightarrow> c_evolves e s (snd (recv_addcache e k t))"
  "c_evolves e s t \<Longrightarrow> c_evolves e s (snd (recv_frreq_ori e k t))"
  "c_evolves e s t \<Longrightarrow> c_evolves e s (snd (recv_frreq_fwd e k t))"
  "c_evolves e s t \<Longrightarrow> c_evolves e s (snd (recv_flrep e k t))"
  unfolding select_agent_def recv_exreq_def recv_exrep_def recv_addcache_def recv_frreq_ori_def recv_frreq_fwd_def
    recv_flrep_def Let_def
  by (intro cv cv_agent_loop; assumption?)+

lemma cv_request_frag [cv]: "c_evolves e s t \<Longrightarrow> c_evolves e s (request_frag e f p t)"
  unfolding request_frag_def Let_def by (cases p) (simp only: prod.case, intro cv; assumption?)

lemma cv_expire_replies [cv]: "c_evolves e s t \<Longrightarrow> c_evolves e s (expire_replies f t)"
  unfolding expire_replies_def by (rule ce.trans [OF _ cv_rinfo]) simp_all

lemma cv_energy [cv]: "c_evolves e s t \<Longrightarrow> c_evolves e s (t\<lparr>cEnergy := a, cSuccess := b\<rparr>)"
  by (rule ce.trans [OF _ c_evolves_same]) (simp_all add: same_params_def)

lemma cv_process_flrep [cv]:
  assumes "c_evolves e s t"
  shows "c_evolves e s (snd (process_flrep e k t))"
  unfolding process_flrep_def Let_def
  by (rule ce.call_rule(2), intro cv ce.fold_rule cv_fetch_loop assms)
    ((assumption | intro cv ce.data_rule ce.fold_rule)+)

lemma cv_recv_flreq [cv]:
  assumes "c_evolves e s t"
  shows "c_evolves e s (snd (recv_flreq e k t))"
  unfolding recv_flreq_def forward_flreq_def Let_def
  by (rule ce.trans [OF assms], intro cv cv_insert_flood) simp_all

lemma cv_dispatch: "c_evolves e s (c_dispatch e k s)"
  unfolding c_dispatch_def Let_def by (intro cv)

end
