(* ===== verification/CacheReach.thy ===== *)
theory CacheReach
  imports CacheInv
begin

text \<open>
  The invariant of every state the caching module reaches after loading, and what its runs do not
  forget.
\<close>

text \<open>What every event guarantees: \<open>c_evolves\<close> without the clock and the task queue.\<close>

definition c_lasts :: "kenv \<Rightarrow> c_state \<Rightarrow> c_state \<Rightarrow> bool" where
  "c_lasts e s t = (k_allocs s \<le> k_allocs t \<and> BUF_SIZE t = BUF_SIZE s \<and> KVAL t = KVAL s \<and> THRESHOLD t = THRESHOLD s
     \<and> g_act t = g_act s \<and> c_my_ip t = c_my_ip s \<and> table_evolves s t \<and> c_keeps_seen e s t)"

lemma c_lasts_evolves: "c_evolves e s t \<Longrightarrow> c_lasts e s t"
  by (simp add: c_lasts_def c_evolves_def same_params_def)

lemma c_lasts_same:
  assumes "ctable t = ctable s" "ct_len t = ct_len s" "crlist t = crlist s" "rinfo t = rinfo s"
    "extable t = extable s" "c_timers t = c_timers s" "c_floods t = c_floods s" "k_allocs s \<le> k_allocs t"
    "BUF_SIZE t = BUF_SIZE s" "KVAL t = KVAL s" "THRESHOLD t = THRESHOLD s" "g_act t = g_act s" "c_my_ip t = c_my_ip s"
  shows "c_lasts e s t"
  using assms(8-13) c_tables_same [OF assms(1-8)] c_keeps_same [OF assms(7)] assms(1,2)
  by (simp add: c_lasts_def table_evolves_def)

lemma c_lasts_stop: "c_lasts e s t \<Longrightarrow> c_evolves e t u \<Longrightarrow> getcurrtime t = getcurrtime s \<Longrightarrow> c_lasts e s u"
  by (auto simp: c_lasts_def c_evolves_def same_params_def table_evolves_def c_keeps_seen_def)

section \<open>Each event\<close>

lemma insert_task_lasts: "c_lasts e s (snd (c_insert_task e' ty p s))"
  by (rule c_lasts_same)
    (simp_all add: c_insert_task_def c_create_task_def kmalloc_def queue_task_def emit_def Let_def)

lemma olsr_lasts: "olsr_loop n skb pos cnt s = Some t \<Longrightarrow> \<exists>a b c d. t = s\<lparr>rtHello_c := a, rtHello := b, rtTc := c, rtHeader := d\<rparr>"
proof (induction n arbitrary: pos cnt s)
  case (Suc n)
  show ?case
  proof (cases "0 < cnt")
    case True
    let ?m = "of_nat (skb_ntohs skb (pos + 2)) :: u32"
    let ?s = "if skb_byte skb pos = LQ_HELLO_MESSAGE
        then s\<lparr>rtHello_c := rtHello_c s + 1, rtHello := rtHello s + ?m div 4\<rparr>
        else if skb_byte skb pos = LQ_TC_MESSAGE then s\<lparr>rtTc := rtTc s + ?m div 4\<rparr> else s"
    have "olsr_loop n skb (pos + unat ?m) (cnt - ?m) ?s = Some t"
      using Suc.prems True by (simp only: olsr_loop.simps if_True Let_def)
    from Suc.IH [OF this] obtain a b c d where "t = ?s\<lparr>rtHello_c := a, rtHello := b, rtTc := c, rtHeader := d\<rparr>" by blast
    then have "t = s\<lparr>rtHello_c := a, rtHello := b, rtTc := c, rtHeader := d\<rparr>"
      by (cases "skb_byte skb pos = LQ_HELLO_MESSAGE"; cases "skb_byte skb pos = LQ_TC_MESSAGE") simp_all
    then show ?thesis by blast
  next
    case False
    then have "t = s\<lparr>rtHello_c := rtHello_c s, rtHello := rtHello s, rtTc := rtTc s, rtHeader := rtHeader s\<rparr>"
      using Suc.prems by simp
    then show ?thesis by blast
  qed
qed simp

lemma packet_in_lasts: "c_lasts e s (snd (c_packet_in e' p s))"
proof -
  define r where "r = valid_cache_packet e' (int (sk_len p) - int c_start_point) (skb_byte p c_start_point)
     (skb_word e' p 4) (skb_byte p (c_start_point + 3)) s"
  have v: "snd r = s\<lparr>fOverhead := fOverhead (snd r), cOverhead := cOverhead (snd r)\<rparr>"
    unfolding r_def valid_cache_packet_def Let_def by simp
  have "snd (c_packet_in e' p s) =
      (if \<not> fst r then snd r else snd (c_insert_task e' (uint (skb_byte p c_start_point)) p (snd r)))"
    unfolding c_packet_in_def Let_def case_prod_beta r_def [symmetric] by simp
  moreover have "c_lasts e s (snd (c_insert_task e' ty p (snd r)))" "c_lasts e s (snd r)" for ty
    by (subst v, rule c_lasts_same; simp add: c_insert_task_def c_create_task_def kmalloc_def queue_task_def emit_def Let_def
        kfree_def fault_def)+
  ultimately show ?thesis by simp
qed

lemma input_lasts:
  assumes "c_input_handler e' fuel skb indev s = Some (v, t)"
  shows "c_lasts e s t"
proof -
  have o: "c_lasts e s t" if "olsr_in fuel skb s = Some (v, t)"
    using that by (auto simp: olsr_in_def Let_def split: if_splits dest!: olsr_lasts intro!: c_lasts_same)
  have a: "c_lasts e s (snd (aodv_in e' skb s))" by (rule c_lasts_same) (simp_all add: aodv_in_def Let_def)
  have f: "c_lasts e s (fault s)" "c_lasts e s s" by (rule c_lasts_evolves, rule cv_fault ce.refl)+
  show ?thesis
    using assms o a f packet_in_lasts [of e s e' skb]
    by (auto simp: c_input_handler_def split: if_splits)
qed

lemma c_signal_loop_moves:
  "length (c_timers s) < n \<Longrightarrow>
   c_timers (c_signal_loop e now n s) = snd (due_loop e ck_time now (c_timers s))
   \<and> c_tasks (c_signal_loop e now n s) = c_tasks s @ fst (due_loop e ck_time now (c_timers s))"
proof (induction n arbitrary: s)
  case (Suc n)
  show ?case
  proof (cases "c_timers s")
    case Nil
    then show ?thesis by (simp add: c_first_timer_due_def take_due_def)
  next
    case (Cons t ts)
    show ?thesis
    proof (cases "ke_time_before_eq e (ck_time (snd t)) now")
      case True
      have "length (c_timers (queue_task t (s\<lparr>c_timers := ts\<rparr>))) < n"
        using Suc.prems Cons by (simp add: queue_task_def emit_def)
      from Suc.IH [OF this] show ?thesis using True Cons
        by (simp add: c_first_timer_due_def take_due_def c_insert_task_from_timer_def case_prod_beta)
          (simp add: queue_task_def emit_def)
    next
      case False
      then show ?thesis using Cons by (simp add: c_first_timer_due_def take_due_def)
    qed
  qed
qed simp

lemma c_signal_loop_fields:
  "ctable (c_signal_loop e now n s) = ctable s" "ct_len (c_signal_loop e now n s) = ct_len s"
  "crlist (c_signal_loop e now n s) = crlist s" "rinfo (c_signal_loop e now n s) = rinfo s"
  "extable (c_signal_loop e now n s) = extable s" "c_floods (c_signal_loop e now n s) = c_floods s"
  "k_allocs (c_signal_loop e now n s) = k_allocs s" "k_time (c_signal_loop e now n s) = k_time s"
  "BUF_SIZE (c_signal_loop e now n s) = BUF_SIZE s" "KVAL (c_signal_loop e now n s) = KVAL s"
  "THRESHOLD (c_signal_loop e now n s) = THRESHOLD s" "g_act (c_signal_loop e now n s) = g_act s"
  "c_my_ip (c_signal_loop e now n s) = c_my_ip s"
  by (induction n arbitrary: s)
    (simp_all add: c_first_timer_due_def case_prod_beta c_insert_task_from_timer_def queue_task_def emit_def
      split: option.split)

lemma timer_signal_lasts: "c_lasts e s (c_timer_queue_signal e s)"
proof -
  define n where "n = Suc (length (c_timers s))"
  define t where "t = c_signal_loop e (getcurrtime s) n s"
  note f = c_signal_loop_fields [of e "getcurrtime s" n s, folded t_def]
  have "c_timers t = dropWhile (\<lambda>t. ke_time_before_eq e (ck_time (snd t)) (getcurrtime s)) (c_timers s)"
    using c_signal_loop_moves [of s n e "getcurrtime s"] by (simp add: due_loop_takeWhile n_def t_def del: c_signal_loop.simps)
  moreover have "nl_addrs (dropWhile P ns) = drop (length (takeWhile P ns)) (nl_addrs ns)" for P and ns :: "ctask nodes"
    by (simp add: nl_addrs_def dropWhile_eq_drop drop_map)
  ultimately have "nodes_ok (k_allocs s) (c_timers s) \<Longrightarrow> nodes_ok (k_allocs s) (c_timers t)"
    by (auto simp: nodes_ok_def dest: in_set_dropD)
  then have "c_tables_ok s \<Longrightarrow> c_tables_ok t"
    using cache_ok_cong [of t s] reqs_ok_cong [of t s] by (simp add: c_tables_ok_def f)
  then have "c_lasts e s t" by (simp add: c_lasts_def f table_evolves_def c_keeps_same)
  then show ?thesis
    unfolding c_timer_queue_signal_def n_def [symmetric] t_def [symmetric]
    by (rule c_lasts_stop [OF _ cv_arm]) (simp add: getcurrtime_def f)
qed

lemma thread_lasts: "c_lasts e s (c_thread_round e s)"
proof (cases "c_tasks s")
  case (Cons k ks)
  have "c_lasts e s (s\<lparr>c_tasks := ks\<rparr>)" by (rule c_lasts_same) simp_all
  then have "c_lasts e s (c_dispatch e k (s\<lparr>c_tasks := ks\<rparr>))"
    by (rule c_lasts_stop [OF _ cv_dispatch]) (simp add: getcurrtime_def)
  then show ?thesis using Cons by (simp add: c_thread_round_def c_get_task_def)
qed (simp add: c_thread_round_def c_get_task_def c_lasts_evolves ce.refl)

lemma step_lasts: "cache_step e s t \<Longrightarrow> c_lasts e s t"
  by (induction rule: cache_step.induct)
    (simp_all add: input_lasts timer_signal_lasts thread_lasts c_lasts_same)

section \<open>Runs\<close>

lemma reach_lasts:
  "cache_reach e s t \<Longrightarrow> table_evolves s t \<and> BUF_SIZE t = BUF_SIZE s \<and> KVAL t = KVAL s"
proof (induction rule: cache_reach.induct)
  case (creach_step t u)
  then show ?case using step_lasts [of e t u] by (auto simp: c_lasts_def table_evolves_def)
qed (simp add: table_evolves_def)

text \<open>A run from s to t in which nothing inserted at any point has expired by T.\<close>

inductive cache_until :: "kenv \<Rightarrow> u64 \<Rightarrow> c_state \<Rightarrow> c_state \<Rightarrow> bool" for e T s where
  cuntil_refl: "cache_until e T s s"
| cuntil_step: "cache_until e T s t \<Longrightarrow> cache_step e t u \<Longrightarrow> c_window e (getcurrtime t) T \<Longrightarrow> cache_until e T s u"

lemma cache_until_seen:
  "cache_until e T s t \<Longrightarrow> flood_seen e T k (c_floods s) \<Longrightarrow> flood_seen e T k (c_floods t)"
proof (induction rule: cache_until.induct)
  case (cuntil_step t u)
  then have "c_keeps_seen e t u" using step_lasts [of e t u] by (simp add: c_lasts_def)
  with cuntil_step show ?case unfolding c_keeps_seen_def by blast
qed simp

text \<open>Loading.\<close>

lemma init_table_flags: "flags_ok (ctable (init_cache_table e names s))"
proof -
  have 1: "flags_ok (ctable t) \<Longrightarrow> flags_ok (ctable (init_cache_name e name t))" for name t
    by (auto simp: init_cache_name_def create_cache_cases fault_def split: option.splits prod.splits)
  have "flags_ok (ctable t) \<Longrightarrow> flags_ok (ctable (fold (init_cache_name e) ns t))" for ns t
    by (induction ns arbitrary: t) (simp_all add: 1)
  then show ?thesis by (simp add: init_cache_table_def Let_def split: option.splits)
qed

lemma init_table_fields:
  "c_floods (init_cache_table e names s) = c_floods s" "c_timers (init_cache_table e names s) = c_timers s"
  "BUF_SIZE (init_cache_table e names s) = BUF_SIZE s" "KVAL (init_cache_table e names s) = KVAL s"
proof -
  have 1: "c_floods (init_cache_name e name t) = c_floods t \<and> c_timers (init_cache_name e name t) = c_timers t
     \<and> BUF_SIZE (init_cache_name e name t) = BUF_SIZE t \<and> KVAL (init_cache_name e name t) = KVAL t" for name t
    by (auto simp: init_cache_name_def create_cache_cases fault_def split: option.splits prod.splits)
  have "c_floods (fold (init_cache_name e) ns t) = c_floods t \<and> c_timers (fold (init_cache_name e) ns t) = c_timers t
     \<and> BUF_SIZE (fold (init_cache_name e) ns t) = BUF_SIZE t \<and> KVAL (fold (init_cache_name e) ns t) = KVAL t" for ns t
    by (induction ns arbitrary: t) (simp_all add: 1)
  then show "c_floods (init_cache_table e names s) = c_floods s" "c_timers (init_cache_table e names s) = c_timers s"
    "BUF_SIZE (init_cache_table e names s) = BUF_SIZE s" "KVAL (init_cache_table e names s) = KVAL s"
    by (simp_all add: init_cache_table_def Let_def split: option.splits)
qed

lemma init_module_c_tables:
  "act = Some a \<Longrightarrow> c_tables_ok (snd (c_init_module e act kval nval theta buf dev sock names s))
   \<and> BUF_SIZE (snd (c_init_module e act kval nval theta buf dev sock names s)) = buf"
proof -
  assume a: "act = Some a"
  define s2 where "s2 = snd (c_init_flood_id_queue (snd (c_init_timer_queue
     (s\<lparr>g_act := a, KVAL := kval, NVAL := nval, THRESHOLD := theta, BUF_SIZE := buf,
        cEnergy := 0, cOverhead := 0, fOverhead := 0, cSuccess := 0, cPrefetch := 0,
        rtHeader := 0, rtHello := 0, rtHello_c := 0, rtTc := 0, aodv_hello := 0, aodv_else := 0,
        c_broadcast_ip := (case inet_aton e ''255.255.255.255'' of None \<Rightarrow> 0 | Some w \<Rightarrow> w),
        c_my_ip := c_find_dev_ip dev,
        g_sock := (case sock of Inl _ \<Rightarrow> None | Inr sk \<Rightarrow> Some sk), c_tasks := []\<rparr>))))"
  have s2: "c_floods s2 = []" "c_timers s2 = []" "BUF_SIZE s2 = buf"
    by (simp_all add: s2_def c_init_flood_id_queue_def c_init_timer_queue_def)
  define s3 where "s3 = init_extable (init_rinfo (init_req_list (init_cache_table e names s2)))"
  have "cache_ok s3" using init_cache_table_ok [of e names s2]
    by (simp add: s3_def init_extable_def init_rinfo_def init_req_list_def cache_ok_def)
  then have s3: "c_tables_ok s3" "BUF_SIZE s3 = buf"
    using init_table_flags [of e names s2] init_table_fields [of e names s2] s2
    by (simp_all add: c_tables_ok_def) (simp_all add: s3_def init_extable_def init_rinfo_def init_req_list_def reqs_ok_def)
  have i: "c_evolves e s3 (c_update_timer_queue e (snd (c_insert_timer e 10 FLUSH_INTERVAL (c_my_ip s3) 0 0 s3)))"
    by (intro cv)
  have "snd (c_init_module e act kval nval theta buf dev sock names s) =
      c_update_timer_queue e (snd (c_insert_timer e 10 FLUSH_INTERVAL (c_my_ip s3) 0 0 s3))"
    unfolding c_init_module_def a option.case Let_def s2_def [symmetric]
    by (simp add: s3_def s2_def)
  with i s3 show ?thesis by (simp add: c_evolves_def table_evolves_def same_params_def)
qed

end
