(* ===== verification/CacheHop.thy ===== *)
theory CacheHop
  imports CacheReach
begin

text \<open>
  One hop of a message of the caching module: it is put on the air, comes in through the hook of its receiver, waits in the
  queue and is handled in the next turn of the thread. A node that asks its neighbours something gathers what they answer.
\<close>

section \<open>Receiving\<close>

definition cache_frame :: "kenv \<Rightarrow> u32 \<Rightarrow> u32 \<times> u8 \<times> u8 list \<Rightarrow> netdev \<Rightarrow> skbuff" where
  "cache_frame e src m dev = (case m of (dst, ttl, bs) \<Rightarrow>
     \<lparr>sk_len = 28 + length bs, sk_data = replicate 28 0 @ bs, sk_beyond = (\<lambda>_. 0), sk_saddr = src, sk_daddr = dst,
      sk_ttl = ttl, sk_has_transport = True, sk_udp_dest = htons e CACHEPORT, sk_h_proto = htons e c_ETH_P_IP,
      sk_h_source = replicate 6 0, sk_dev = dev\<rparr>)"

text \<open>The frame arrives and the thread takes its turn.\<close>

definition c_takes :: "kenv \<Rightarrow> u32 \<Rightarrow> u32 \<times> u8 \<times> u8 list \<Rightarrow> netdev \<Rightarrow> c_state \<Rightarrow> c_state" where
  "c_takes e src m dev s =
     (case c_input_handler e 0 (cache_frame e src m dev) dev s of
        None \<Rightarrow> s
      | Some (v, t) \<Rightarrow> c_thread_round e t)"

definition c_handed :: "int \<Rightarrow> nat \<Rightarrow> c_state \<Rightarrow> c_state" where
  "c_handed ty n s =
     (if ty < 5 then s\<lparr>fOverhead := fOverhead s + word_of_int (int n div 4)\<rparr>
      else s\<lparr>cOverhead := cOverhead s + word_of_int (int n div 4)\<rparr>)
     \<lparr>k_allocs := Suc (Suc (k_allocs s)), k_live := insert (Suc (k_allocs s)) (insert (k_allocs s) (k_live s)),
      k_out := k_out s @ [WakeThread]\<rparr>"

definition c_handed_task :: "int \<Rightarrow> u32 \<Rightarrow> u32 \<times> u8 \<times> u8 list \<Rightarrow> c_state \<Rightarrow> ctask" where
  "c_handed_task ty src m s = (case m of (dst, ttl, bs) \<Rightarrow>
     (c_new_task ty (getcurrtime s))\<lparr>ck_src_ip := src, ck_dst_ip := dst, ck_ttl := ucast ttl, ck_data_len := length bs,
        ck_data := Some (Suc (k_allocs s), bs)\<rparr>)"

lemma c_handed_simps [simp]:
  "ck_data (c_handed_task ty src (dst, ttl, bs) s) = Some (Suc (k_allocs s), bs)"
  "ck_dst_ip (c_handed_task ty src (dst, ttl, bs) s) = dst" "ck_ttl (c_handed_task ty src (dst, ttl, bs) s) = ucast ttl"
  "ck_type (c_handed_task ty src (dst, ttl, bs) s) = ty"
  "c_tasks (c_handed ty n s) = c_tasks s" "k_out (c_handed ty n s) = k_out s @ [WakeThread]" "ctable (c_handed ty n s) = ctable s"
  "rinfo (c_handed ty n s) = rinfo s" "c_timers (c_handed ty n s) = c_timers s" "c_my_ip (c_handed ty n s) = c_my_ip s"
  "g_sock (c_handed ty n s) = g_sock s" "KVAL (c_handed ty n s) = KVAL s" "c_broadcast_ip (c_handed ty n s) = c_broadcast_ip s"
  "c_find_flood_id e ip i (c_handed ty n s) = c_find_flood_id e ip i s" "getcurrtime (c_handed ty n s) = getcurrtime s"
  "extable (c_handed ty n s) = extable s" "ct_len (c_handed ty n s) = ct_len s" "BUF_SIZE (c_handed ty n s) = BUF_SIZE s"
  by (simp_all add: c_handed_task_def c_new_task_def c_handed_def c_find_flood_id_def getcurrtime_def)

lemma c_handed_tables: "c_tables_ok s \<Longrightarrow> c_tables_ok (c_handed ty n s)"
  by (rule c_tables_same [of _ s]) (simp_all add: c_handed_def)

definition c_cleared :: "c_state \<Rightarrow> c_state \<Rightarrow> c_state" where
  "c_cleared s t = kfree (k_allocs s) (kfree (Suc (k_allocs s)) t)"

text \<open>The device and the sender are as \<open>input_handler\<close> wants them.\<close>

definition hears_from :: "netdev \<Rightarrow> u32 \<Rightarrow> bool" where
  "hears_from dev src = (nd_ip_ptr dev \<noteq> None \<and> nd_word12 dev \<noteq> src)"

lemma cache_frame_bytes:
  "skb_bytes (cache_frame e src (dst, ttl, bs) dev) 28 (length bs) = bs"
  "i < length bs \<Longrightarrow> skb_byte (cache_frame e src (dst, ttl, bs) dev) (28 + i) = bs ! i"
  "8 \<le> length bs \<Longrightarrow> skb_word e (cache_frame e src (dst, ttl, bs) dev) 4 = word_at (ke_big_endian e) bs 0"
proof -
  have b: "skb_byte (cache_frame e src (dst, ttl, bs) dev) (28 + i) = bs ! i" if "i < length bs" for i
    using that by (simp add: skb_byte_def cache_frame_def nth_append)
  show "skb_bytes (cache_frame e src (dst, ttl, bs) dev) 28 (length bs) = bs"
    by (rule nth_equalityI) (simp_all add: skb_bytes_def b)
  show "i < length bs \<Longrightarrow> skb_byte (cache_frame e src (dst, ttl, bs) dev) (28 + i) = bs ! i" by (rule b)
  assume l: "8 \<le> length bs"
  have "skb_bytes (cache_frame e src (dst, ttl, bs) dev) 32 4 = take 4 (drop 4 bs)"
  proof (rule nth_equalityI)
    fix i assume "i < length (skb_bytes (cache_frame e src (dst, ttl, bs) dev) 32 4)"
    then show "skb_bytes (cache_frame e src (dst, ttl, bs) dev) 32 4 ! i = take 4 (drop 4 bs) ! i"
      using b [of "4 + i"] l by (simp add: skb_bytes_def del: upt_rec_numeral)
  qed (use l in simp)
  then show "skb_word e (cache_frame e src (dst, ttl, bs) dev) 4 = word_at (ke_big_endian e) bs 0"
    by (simp add: skb_word_def word_at_def)
qed

text \<open>The check only adds to the counters; the types below eight are those of messages, fragment requests (3 and 4) not
  needed here.\<close>

lemma valid_cache_packet_accepts:
  assumes "fst (valid_cache_packet e n ty a c s)" "ty \<in> {1, 2, 5, 6, 7}"
  shows "snd (valid_cache_packet e n ty a c s) =
    (if uint ty < 5 then s\<lparr>fOverhead := fOverhead s + word_of_int (n div 4)\<rparr> else s\<lparr>cOverhead := cOverhead s + word_of_int (n div 4)\<rparr>)"
proof -
  have 1: "valid_cache_packet e n 1 a c s = (if n = 24 then (ntohl e a \<noteq> c_my_ip s, s\<lparr>fOverhead := fOverhead s + word_of_int (n div 4)\<rparr>)
      else (False, s))"
    and 2: "valid_cache_packet e n 2 a c s = (if n = 20 + 4 * uint c then (True, s\<lparr>fOverhead := fOverhead s + word_of_int (n div 4)\<rparr>)
      else (False, s))"
    and 5: "valid_cache_packet e n 5 a c s = (if n = 20 then (True, s\<lparr>cOverhead := cOverhead s + word_of_int (n div 4)\<rparr>) else (False, s))"
    and 6: "valid_cache_packet e n 6 a c s = (if n = 24 then (True, s\<lparr>cOverhead := cOverhead s + word_of_int (n div 4)\<rparr>) else (False, s))"
    and 7: "valid_cache_packet e n 7 a c s = (if n = 20 then (True, s\<lparr>cOverhead := cOverhead s + word_of_int (n div 4)\<rparr>) else (False, s))"
    by (simp_all add: valid_cache_packet_def Let_def)
  consider "ty = 1" | "ty = 2" | "ty = 5" | "ty = 6" | "ty = 7" using assms(2) by blast
  then show ?thesis
  proof cases
    assume t: "ty = 1" show ?thesis using assms(1) unfolding t 1 by (cases "n = 24") simp_all
  next
    assume t: "ty = 2" show ?thesis using assms(1) unfolding t 2 by (cases "n = 20 + 4 * uint c") simp_all
  next
    assume t: "ty = 5" show ?thesis using assms(1) unfolding t 5 by (cases "n = 20") simp_all
  next
    assume t: "ty = 6" show ?thesis using assms(1) unfolding t 6 by (cases "n = 24") simp_all
  next
    assume t: "ty = 7" show ?thesis using assms(1) unfolding t 7 by (cases "n = 20") simp_all
  qed
qed

lemma cache_frame_queued:
  assumes "no_oom e" "c_tasks s = []" "hears_from dev src" "8 \<le> length bs" "bs ! 0 \<in> {1, 2, 5, 6, 7}"
    and "fst (valid_cache_packet e (int (length bs)) (bs ! 0) (word_at (ke_big_endian e) bs 0) (bs ! 3) s)"
  shows "\<exists>v. c_input_handler e 0 (cache_frame e src (dst, ttl, bs) dev) dev s =
    Some (v, (c_handed (uint (bs ! 0)) (length bs) s)\<lparr>c_tasks := [(k_allocs s, c_handed_task (uint (bs ! 0)) src (dst, ttl, bs) s)]\<rparr>)"
proof -
  let ?p = "cache_frame e src (dst, ttl, bs) dev"
  have p: "sk_has_transport ?p" "sk_udp_dest ?p = htons e CACHEPORT" "sk_h_proto ?p = htons e c_ETH_P_IP" "sk_saddr ?p = src"
    "sk_len ?p = 28 + length bs" "sk_daddr ?p = dst" "sk_ttl ?p = ttl"
    by (simp_all add: cache_frame_def)
  have ne: "bs \<noteq> []" using assms(4) by auto
  have b: "skb_byte ?p 28 = bs ! 0" "skb_byte ?p 31 = bs ! 3" "skb_word e ?p 4 = word_at (ke_big_endian e) bs 0"
    "skb_bytes ?p 28 (length bs) = bs"
    using assms(4) ne cache_frame_bytes(2) [of 0 bs] cache_frame_bytes(2) [of 3 bs] by (simp_all add: cache_frame_bytes(1,3))
  obtain x where x: "nd_ip_ptr dev = Some x" "nd_word12 dev \<noteq> src" using assms(3) by (auto simp: hears_from_def)
  have v: "valid_cache_packet e (int (length bs)) (bs ! 0) (word_at (ke_big_endian e) bs 0) (bs ! 3) s = (True,
      if uint (bs ! 0) < 5 then s\<lparr>fOverhead := fOverhead s + word_of_int (int (length bs) div 4)\<rparr>
      else s\<lparr>cOverhead := cOverhead s + word_of_int (int (length bs) div 4)\<rparr>)"
    by (rule prod_eqI) (simp_all add: assms(6) valid_cache_packet_accepts [OF assms(6,5)])
  have t: "uint (bs ! 0) < 8" "bs ! 0 \<noteq> 3" using assms(5) by auto
  have "c_packet_in e ?p s = (NF_ACCEPT, (c_handed (uint (bs ! 0)) (length bs) s)
      \<lparr>c_tasks := [(k_allocs s, c_handed_task (uint (bs ! 0)) src (dst, ttl, bs) s)]\<rparr>)"
    using t assms(1,2)
    by (cases "uint (bs ! 0) < 5")
      (simp_all add: c_packet_in_def p b v c_insert_task_def c_create_task_def kmalloc_no_oom Let_def queue_task_def emit_def
        c_handed_def c_handed_task_def c_new_task_def getcurrtime_def)
  then show ?thesis using x by (simp add: c_input_handler_def p)
qed

lemma c_handed_tasks: "c_tasks s = [] \<Longrightarrow> (c_handed ty n s)\<lparr>c_tasks := []\<rparr> = c_handed ty n s"
  by (cases s) (simp add: c_handed_def)

lemma c_takes_message:
  assumes "no_oom e" "c_tasks s = []" "hears_from dev src" "8 \<le> length bs"
    and "fst (valid_cache_packet e (int (length bs)) (bs ! 0) (word_at (ke_big_endian e) bs 0) (bs ! 3) s)"
  shows "bs ! 0 = 1 \<Longrightarrow> c_takes e src (dst, ttl, bs) dev s =
      c_cleared s (snd (recv_flreq e (c_handed_task 1 src (dst, ttl, bs) s) (c_handed 1 (length bs) s)))"
    "bs ! 0 = 2 \<Longrightarrow> c_takes e src (dst, ttl, bs) dev s =
      c_cleared s (snd (recv_flrep e (c_handed_task 2 src (dst, ttl, bs) s) (c_handed 2 (length bs) s)))"
    "bs ! 0 = 5 \<Longrightarrow> c_takes e src (dst, ttl, bs) dev s =
      c_cleared s (snd (recv_exreq e (c_handed_task 5 src (dst, ttl, bs) s) (c_handed 5 (length bs) s)))"
    "bs ! 0 = 6 \<Longrightarrow> c_takes e src (dst, ttl, bs) dev s =
      c_cleared s (snd (recv_exrep e (c_handed_task 6 src (dst, ttl, bs) s) (c_handed 6 (length bs) s)))"
    "bs ! 0 = 7 \<Longrightarrow> c_takes e src (dst, ttl, bs) dev s =
      c_cleared s (snd (recv_addcache e (c_handed_task 7 src (dst, ttl, bs) s) (c_handed 7 (length bs) s)))"
  using cache_frame_queued [OF assms(1-4) _ assms(5), of dst ttl]
  by (auto simp: c_takes_def c_thread_round_def c_get_task_def c_handed_tasks [OF assms(2)] c_dispatch_def c_cleared_def
      kfree_opt_def c_data_block_def Let_def)

section \<open>Sending\<close>

text \<open>What the calls that cannot be refused here answer: memory, the TTL and room for a reply of eight fragments.\<close>

definition able :: "kenv \<Rightarrow> bool" where
  "able e = (no_oom e \<and> ke_big_endian e \<and> (\<forall>i. 0 \<le> ke_set_ttl e i) \<and> (\<forall>i. 52 \<le> ke_wspace e i))"

text \<open>The messages a trace sends to an address, each with its TTL.\<close>

fun unicasts :: "u32 \<Rightarrow> u8 \<Rightarrow> kevent list \<Rightarrow> (u32 \<times> u8 \<times> u8 list) list" where
  "unicasts ip ttl [] = []"
| "unicasts ip ttl (ev # evs) =
     (case ev of
        SetTtl _ t \<Rightarrow> unicasts ip t evs
      | SendMsg _ d bs \<Rightarrow> (if d = ip then (d, ttl, bs) # unicasts ip ttl evs else unicasts ip ttl evs)
      | _ \<Rightarrow> unicasts ip ttl evs)"

lemma c_send_message_out:
  assumes "able e" "g_sock s = Some sk" "ttl \<noteq> 0" "length dat \<le> 52"
  shows "k_out (snd (c_send_message e dst ttl dat s)) = k_out s @ [SetTtl sk ttl, SendMsg sk dst dat]"
proof -
  have "0 \<le> ke_set_ttl e (length (k_out s))" "52 \<le> ke_wspace e (length (k_out s))" using assms(1) by (simp_all add: able_def)
  then show ?thesis using assms(2-4) by (simp add: c_send_message_def Let_def emit_def)
qed

lemma c_local_broadcast_out:
  "c_broadcast_ip s \<noteq> ip \<Longrightarrow> \<exists>evs. k_out (snd (c_local_broadcast e ttl dat s)) = k_out s @ evs \<and> (\<forall>t. unicasts ip t evs = [])"
  by (auto simp: c_local_broadcast_def Let_def emit_def fault_def split: option.split)

text \<open>What a turn guarantees in any case.\<close>

lemma c_takes_keeps:
  assumes "t = c_takes e src m dev s"
  shows "KVAL t = KVAL s" "c_my_ip t = c_my_ip s" "BUF_SIZE t = BUF_SIZE s" "c_tables_ok s \<Longrightarrow> c_tables_ok t"
proof -
  have "KVAL t = KVAL s \<and> c_my_ip t = c_my_ip s \<and> BUF_SIZE t = BUF_SIZE s \<and> (c_tables_ok s \<longrightarrow> c_tables_ok t)"
    using input_lasts [of e 0 "cache_frame e src m dev" dev s _ _ e] thread_lasts [of e]
    by (auto simp: assms c_takes_def c_lasts_def table_evolves_def split: option.split)
  then show "KVAL t = KVAL s" "c_my_ip t = c_my_ip s" "BUF_SIZE t = BUF_SIZE s" "c_tables_ok s \<Longrightarrow> c_tables_ok t" by simp_all
qed

section \<open>Asking the neighbours\<close>

record neighbour =
  nb_dev :: netdev
  nb_state :: c_state

text \<open>What a neighbour sends back to ip when it hears the message m of ip, and the node at ip hearing all of that. (It also hears
  the neighbours pass the request on, and drops that as its own.)\<close>

definition answers_of :: "kenv \<Rightarrow> u32 \<Rightarrow> u32 \<times> u8 \<times> u8 list \<Rightarrow> neighbour \<Rightarrow> (u32 \<times> u32 \<times> u8 \<times> u8 list) list" where
  "answers_of e ip m n =
     (let s = nb_state n; t = c_takes e ip m (nb_dev n) s
      in map (Pair (c_my_ip s)) (unicasts ip 0 (drop (length (k_out s)) (k_out t))))"

definition gather :: "kenv \<Rightarrow> u32 \<times> u8 \<times> u8 list \<Rightarrow> netdev \<Rightarrow> neighbour list \<Rightarrow> c_state \<Rightarrow> c_state" where
  "gather e m dev ns s = fold (\<lambda>(ip, a). c_takes e ip a dev) (concat (map (answers_of e (c_my_ip s) m) ns)) s"

lemma update_timers_fields [simp]:
  "c_timers (c_update_timer_queue e u) = c_timers u" "rinfo (c_update_timer_queue e u) = rinfo u"
  "ctable (c_update_timer_queue e u) = ctable u"
  by (simp_all add: c_update_timer_queue_def arm_timer_def emit_def Let_def split: list.split)

end
