(* ===== verification/CacheDemo.thy ===== *)
theory CacheDemo
  imports CacheReach Demo
begin

text \<open>
  A node of the caching network on which its properties are instantiated: a table for three
  fragments with one service centre's fragment in it, files of three fragments, and the exchange
  started at every third request.
\<close>

definition c_unloaded :: c_state where
  "c_unloaded =
     \<lparr>k_time = \<lparr>tv_sec = 1000, tv_usec = 0\<rparr>, k_jiffies = 0, k_timer_pending = False, k_allocs = 0, k_live = {},
      k_out = [], k_fault = False, c_my_ip = 0, c_broadcast_ip = 0, g_act = [], KVAL = 0, NVAL = 0, THRESHOLD = 0,
      BUF_SIZE = 0, g_sock = None, ctable = [], ct_len = 0, crlist = [], rinfo = [], extable = [], c_floods = [],
      c_timers = [], c_tasks = [], cEnergy = 0, cSuccess = 0, cPrefetch = 0, fOverhead = 0, cOverhead = 0,
      rtHeader = 0, rtHello = 0, rtHello_c = 0, rtTc = 0, aodv_hello = 0, aodv_else = 0\<rparr>"

definition frag_entry :: "u32 \<Rightarrow> u32 \<Rightarrow> u32 \<Rightarrow> u32 \<Rightarrow> cache_entry" where
  "frag_entry f g refs centre = \<lparr>ce_file_id = f, ce_frag_id = g, ce_refs = refs, ce_isServiceCenter = centre\<rparr>"

definition answer :: "u32 \<Rightarrow> u32 \<Rightarrow> exchTable" where
  "answer ip score =
     \<lparr>ex_file_id = 7, ex_frag_id = 1, ex_dst_ip = 0xc0a80009, ex_neigh_ip = ip, ex_score = score, ex_expired = 0\<rparr>"

definition reply :: "u32 \<Rightarrow> u32 \<Rightarrow> u32 list \<Rightarrow> fileRepInfo" where
  "reply ip dist frags =
     \<lparr>ri_file_id = 7, ri_dst_ip = ip, ri_dist = dist, ri_map = frags, ri_frag_count = of_nat (length frags),
      ri_expired = 0\<rparr>"

definition cnode :: c_state where
  "cnode = c_unloaded
     \<lparr>k_allocs := 20, k_live := {2, 4, 6, 7, 8, 9, 11, 12}, c_my_ip := 0xc0a80001, c_broadcast_ip := 0xffffffff,
      g_act := ''on'', KVAL := 3, NVAL := 5, THRESHOLD := 3, BUF_SIZE := 3, g_sock := Some 77,
      ctable := [(8, frag_entry 2 1 4 0), (6, frag_entry 3 1 1 0), (2, frag_entry 1 1 0 1)], ct_len := 3,
      crlist := [(4, \<lparr>rl_file_id = 9, rl_frag_id = 1, rl_count = 2\<rparr>)],
      rinfo := [(11, reply 0xc0a80003 2 [1, 2]), (12, reply 0xc0a80004 1 [2, 3])],
      extable := [(7, answer 0xc0a80003 2), (9, answer 0xc0a80004 5)]\<rparr>"

lemmas cdemo_defs = cnode_def c_unloaded_def frag_entry_def answer_def reply_def

lemma cnode_ok: "c_tables_ok cnode"
  by (simp add: cdemo_defs c_tables_ok_def cache_ok_def reqs_ok_def nodes_ok_def)

lemma cnode_time [simp]: "getcurrtime cnode = 1000000"
  by (simp add: cdemo_defs getcurrtime_def)

end
