(* ===== verification/FetchProps.thy ===== *)
theory FetchProps
  imports CacheDemo
begin

text \<open>
  What \<open>process_flrep\<close> of \<open>caching/src/cFileRep.c\<close> fetches from whom: its two nested loops pick, from the replies to a
  file request, KVAL different fragments, each from a nearest node that offers it.
\<close>

section \<open>The loops\<close>

definition frags :: "fileRepInfo \<Rightarrow> u32 list" where
  "frags r = take (unat (ri_frag_count r)) (ri_map r)"

definition nearer :: "addr \<times> fileRepInfo \<Rightarrow> addr \<times> fileRepInfo \<Rightarrow> addr \<times> fileRepInfo" where
  "nearer best m = (if ri_dist (snd m) < ri_dist (snd best) then m else best)"

lemma nearest_loop_fold: "nearest_loop n f ns best = foldl nearer best (find_upto n (live_reply f) ns)"
proof (induction n arbitrary: ns best)
  case (Suc n)
  then show ?case by (cases "find_rinfo ns f") (auto simp: find_rinfo_def nearer_def split: option.split)
qed simp

lemma foldl_nearer:
  "foldl nearer b ms \<in> insert b (set ms) \<and> (\<forall>m \<in> insert b (set ms). ri_dist (snd (foldl nearer b ms)) \<le> ri_dist (snd m))"
proof (induction ms arbitrary: b)
  case (Cons m ms)
  from Cons.IH [of "nearer b m"] show ?case by (auto simp: nearer_def split: if_splits)
qed simp

text \<open>The nearest of the live replies.\<close>

definition live_nodes :: "u32 \<Rightarrow> c_state \<Rightarrow> fileRepInfo nodes" where
  "live_nodes f s = filter (\<lambda>m. live_reply f (snd m)) (rinfo s)"

lemma nearest_live:
  assumes "distinct (nl_addrs (rinfo s))" "find_rinfo (rinfo s) f = Some (a, r)"
    "(b, m) = nearest_loop (length (rinfo s)) f (nodes_after a (rinfo s)) (a, r)"
  shows "(b, m) \<in> set (live_nodes f s)" "\<forall>n \<in> set (live_nodes f s). ri_dist m \<le> ri_dist (snd n)"
proof -
  let ?ms = "find_upto (length (rinfo s)) (live_reply f) (nodes_after a (rinfo s))"
  have found: "find_upto (Suc (length (rinfo s))) (live_reply f) (rinfo s) = (a, r) # ?ms"
    using assms(2) by (simp add: find_rinfo_def)
  have "find_upto (Suc (length (rinfo s))) (live_reply f) (rinfo s) = live_nodes f s"
    by (simp only: find_upto_filter [OF assms(1)] live_nodes_def) (simp add: le_SucI)
  then have l: "set (live_nodes f s) = insert (a, r) (set ?ms)" unfolding found by (metis list.set(2))
  have "(b, m) = foldl nearer (a, r) ?ms" using assms(3) by (simp add: nearest_loop_fold)
  then show "(b, m) \<in> set (live_nodes f s)" "\<forall>n \<in> set (live_nodes f s). ri_dist m \<le> ri_dist (snd n)"
    using foldl_nearer [of "(a, r)" ?ms] unfolding l by (metis, metis snd_conv)
qed

text \<open>What the inner loop adds: the fragments not known yet, in order, as far as there is room.\<close>

fun fresh :: "u32 list \<Rightarrow> u32 list \<Rightarrow> u32 list" where
  "fresh buf [] = []"
| "fresh buf (f # fs) = (if f \<in> set buf then fresh buf fs else f # fresh (buf @ [f]) fs)"

lemma fresh_props:
  "set (fresh buf fs) = set fs - set buf" "distinct (fresh buf fs)"
  by (induction buf fs rule: fresh.induct) auto

lemma pick_loop_fresh:
  assumes "(new :: u32 list) = take (nat (kval - int (length buf))) (fresh buf fs)"
  shows "\<exists>en'. pick_loop kval dst dist fs buf picks en = (buf @ new, rev (map (Pair dst) new) @ picks, en')"
  using assms
proof (induction fs arbitrary: buf picks en new)
  case (Cons f fs)
  show ?case
  proof (cases "int (length buf) < kval \<and> f \<notin> set buf")
    case True
    let ?n = "take (nat (kval - int (length (buf @ [f])))) (fresh (buf @ [f]) fs)"
    have "nat (kval - int (length buf)) = Suc (nat (kval - int (length (buf @ [f]))))"
      using True by (simp add: Suc_nat_eq_nat_zadd1)
    then have "new = f # ?n" using True Cons.prems by simp
    then show ?thesis using True Cons.IH [OF refl, of "buf @ [f]"] by simp
  next
    case False
    then show ?thesis using Cons.prems Cons.IH [OF refl, of buf] by auto
  qed
qed simp

section \<open>The outer loop\<close>

text \<open>A node offers a fragment, and no live reply that offers it is nearer.\<close>

definition from_nearest :: "fileRepInfo set \<Rightarrow> u32 \<times> u32 \<Rightarrow> bool" where
  "from_nearest live p = (\<exists>r \<in> live. ri_dst_ip r = fst p \<and> snd p \<in> set (frags r)
     \<and> (\<forall>r' \<in> live. snd p \<in> set (frags r') \<longrightarrow> ri_dist r \<le> ri_dist r'))"

definition live_replies :: "u32 \<Rightarrow> c_state \<Rightarrow> fileRepInfo set" where
  "live_replies f s = {r \<in> set (nl_vals (rinfo s)). live_reply f r}"

definition offered :: "fileRepInfo set \<Rightarrow> u32 set" where
  "offered live = (\<Union>r \<in> live. set (frags r))"

lemma live_replies_nodes: "live_replies f s = snd ` set (live_nodes f s)"
  by (auto simp: live_replies_def live_nodes_def nl_vals_def)

text \<open>Expiring one reply.\<close>

lemma live_nodes_expire:
  "live_nodes f (s\<lparr>rinfo := nl_upd b (\<lambda>r. r\<lparr>ri_expired := 1\<rparr>) (rinfo s)\<rparr>) =
   filter (\<lambda>m. fst m \<noteq> b) (live_nodes f s)"
proof -
  have "filter (\<lambda>m. live_reply f (snd m)) (nl_upd b (\<lambda>r. r\<lparr>ri_expired := 1\<rparr>) ns) =
      filter (\<lambda>m. fst m \<noteq> b) (filter (\<lambda>m. live_reply f (snd m)) ns)" for ns
    by (induction ns) (auto simp: live_reply_def)
  then show ?thesis by (simp add: live_nodes_def)
qed

definition fetched :: "int \<Rightarrow> fileRepInfo set \<Rightarrow> u32 list \<Rightarrow> (u32 \<times> u32) list
    \<Rightarrow> (u32 list \<times> (u32 \<times> u32) list \<times> u32) option \<Rightarrow> bool" where
  "fetched kval live buf picks res =
     (case res of
        None \<Rightarrow> int (card (set buf \<union> offered live)) < kval
      | Some (buf', picks', en) \<Rightarrow>
          kval \<le> int (card (set buf \<union> offered live)) \<and> distinct buf'
          \<and> (kval \<le> int (length buf) \<or> int (length buf') = kval)
          \<and> (kval \<le> int (length buf) \<longrightarrow> buf' = buf)
          \<and> (\<exists>ps. picks' = ps @ picks \<and> buf' = buf @ rev (map snd ps) \<and> (\<forall>p \<in> set ps. from_nearest live p)))"

lemma fetched_Some:
  "fetched kval live buf picks (Some (buf', picks', en)) \<longleftrightarrow>
     kval \<le> int (card (set buf \<union> offered live)) \<and> distinct buf'
     \<and> (kval \<le> int (length buf) \<or> int (length buf') = kval) \<and> (kval \<le> int (length buf) \<longrightarrow> buf' = buf)
     \<and> (\<exists>ps. picks' = ps @ picks \<and> buf' = buf @ rev (map snd ps) \<and> (\<forall>p \<in> set ps. from_nearest live p))"
  by (simp add: fetched_def)

lemma picks_frags: "rev (map snd (rev (map (Pair d) new))) = new"
  by (simp add: rev_map [symmetric] o_def)

text \<open>The last round: the inner loop stopped because it had enough.\<close>

lemma fetched_full:
  assumes "distinct (buf @ new)" "int (length (buf @ new)) = kval" "finite live" "m \<in> live" "set new \<subseteq> set (frags m)"
    "\<forall>x \<in> set new. from_nearest live (d, x)" "int (length buf) < kval"
  shows "fetched kval live buf picks (Some (buf @ new, rev (map (Pair d) new) @ picks, en))"
proof -
  have "card (set (buf @ new)) \<le> card (set buf \<union> offered live)"
    using assms(3-5) by (intro card_mono) (auto simp: offered_def)
  then have "kval \<le> int (card (set buf \<union> offered live))"
    using distinct_card [OF assms(1)] assms(2) by simp
  moreover have "\<exists>ps. rev (map (Pair d) new) @ picks = ps @ picks \<and> buf @ new = buf @ rev (map snd ps)
      \<and> (\<forall>p \<in> set ps. from_nearest live p)"
    using assms(6) by (intro exI [of _ "rev (map (Pair d) new)"] conjI) (simp_all only: picks_frags, auto)
  ultimately show ?thesis using assms(1,2,7) unfolding fetched_Some by simp
qed

text \<open>Any other round: all fragments of the reply are known now, so the rest need not look at it.\<close>

lemma fetched_more:
  assumes "fetched kval live' (buf @ new) (rev (map (Pair d) new) @ picks) res" "live = insert m live'"
    "set (frags m) \<subseteq> set (buf @ new)" "set new \<subseteq> set (frags m)" "\<forall>x \<in> set new. from_nearest live (d, x)"
    "int (length buf) < kval" "int (length (buf @ new)) \<le> kval"
  shows "fetched kval live buf picks res"
proof -
  have same: "set (buf @ new) \<union> offered live' = set buf \<union> offered live"
    using assms(2-4) by (auto simp: offered_def)
  have lift: "from_nearest live p" if "from_nearest live' p" "snd p \<notin> set (buf @ new)" for p
  proof -
    obtain r where r: "r \<in> live'" "ri_dst_ip r = fst p" "snd p \<in> set (frags r)"
        "\<forall>r' \<in> live'. snd p \<in> set (frags r') \<longrightarrow> ri_dist r \<le> ri_dist r'"
      using \<open>from_nearest live' p\<close> unfolding from_nearest_def by blast
    moreover have "snd p \<notin> set (frags m)" using that(2) assms(3) by blast
    ultimately show ?thesis unfolding from_nearest_def assms(2) by (intro bexI [of _ r]) auto
  qed
  show ?thesis
  proof (cases res)
    case None
    then show ?thesis using assms(1) same by (simp add: fetched_def)
  next
    case (Some q)
    obtain buf' picks' en where q: "q = (buf', picks', en)" by (cases q)
    note res = assms(1) [unfolded Some q fetched_Some]
    then obtain ps where ps: "picks' = ps @ rev (map (Pair d) new) @ picks"
        "buf' = (buf @ new) @ rev (map snd ps)" "\<forall>p \<in> set ps. from_nearest live' p" "distinct buf'"
      by blast
    let ?ps = "ps @ rev (map (Pair d) new)"
    have "snd p \<notin> set (buf @ new)" if "p \<in> set ps" for p
      using that ps(2,4) by auto
    then have "\<forall>p \<in> set ps. from_nearest live p" using ps(3) lift by blast
    then have "\<forall>p \<in> set ?ps. from_nearest live p" using assms(5) by auto
    then have "\<exists>ps. picks' = ps @ picks \<and> buf' = buf @ rev (map snd ps) \<and> (\<forall>p \<in> set ps. from_nearest live p)"
      using ps(1,2) picks_frags [of d new] by (intro exI [of _ ?ps]) simp
    moreover have "int (length buf') = kval" using res assms(7) by auto
    ultimately show ?thesis using res assms(6) same ps(4) unfolding Some q fetched_Some by simp
  qed
qed

text \<open>What one round does, when it finds a live reply.\<close>

lemma fetch_round:
  assumes "distinct (nl_addrs (rinfo s))" "find_rinfo (rinfo s) f = Some p" "int (length buf) < KVAL s"
  obtains m new en' t where
    "fetch_loop (Suc n) f buf picks en s = fetch_loop n f (buf @ new) (rev (map (Pair (ri_dst_ip m)) new) @ picks) en' t"
    "new = take (nat (KVAL s - int (length buf))) (fresh buf (frags m))" "KVAL t = KVAL s"
    "distinct (nl_addrs (rinfo t))" "length (live_nodes f t) < length (live_nodes f s)"
    "live_replies f s = insert m (live_replies f t)" "\<forall>r \<in> live_replies f s. ri_dist m \<le> ri_dist r"
proof -
  obtain a r where p: "p = (a, r)" by (cases p)
  obtain b m where near: "(b, m) = nearest_loop (length (rinfo s)) f (nodes_after a (rinfo s)) (a, r)"
    by (metis surj_pair)
  note bm = nearest_live [OF assms(1) assms(2) [unfolded p] near]
  define new where "new = take (nat (KVAL s - int (length buf))) (fresh buf (frags m))"
  define s1 where "s1 = (if length (ri_map m) < unat (ri_frag_count m) \<and> int (length (buf @ new)) < KVAL s then fault s else s)"
  have s1: "rinfo s1 = rinfo s" "KVAL s1 = KVAL s" by (simp_all add: s1_def fault_def)
  define t where "t = s1\<lparr>rinfo := nl_upd b (\<lambda>r. r\<lparr>ri_expired := 1\<rparr>) (rinfo s1)\<rparr>"
  obtain en' where pick: "pick_loop (KVAL s) (ri_dst_ip m) (ri_dist m) (take (unat (ri_frag_count m)) (ri_map m)) buf picks en
      = (buf @ new, rev (map (Pair (ri_dst_ip m)) new) @ picks, en')"
    using pick_loop_fresh [OF new_def] unfolding frags_def by metis
  have nodes: "live_nodes f t = filter (\<lambda>x. fst x \<noteq> b) (live_nodes f s)"
    using live_nodes_expire [where s = s1 and f = f and b = b] s1(1) by (simp add: t_def live_nodes_def)
  have "x = m" if "(b, x) \<in> set (live_nodes f s)" for x
    using that bm(1) assms(1) by (auto simp: live_nodes_def nl_addrs_def dest: eq_key_imp_eq_value)
  then have "snd n = m \<or> n \<in> set (live_nodes f t)" if "n \<in> set (live_nodes f s)" for n
    using that by (cases n) (auto simp: nodes)
  moreover have "m \<in> snd ` set (live_nodes f s)" using bm(1) by (metis image_eqI snd_conv)
  ultimately have live: "live_replies f s = insert m (live_replies f t)"
    unfolding live_replies_nodes by (auto simp: nodes)
  show thesis
  proof (rule that [of new m en' t])
    show "fetch_loop (Suc n) f buf picks en s =
        fetch_loop n f (buf @ new) (rev (map (Pair (ri_dst_ip m)) new) @ picks) en' t"
      using assms(2,3) p near [symmetric] pick by (simp add: t_def s1_def Let_def)
    show "length (live_nodes f t) < length (live_nodes f s)"
      unfolding nodes using bm(1) by (intro length_filter_less [of "(b, m)"]) simp_all
    show "\<forall>r \<in> live_replies f s. ri_dist m \<le> ri_dist r" using bm(2) by (simp add: live_replies_nodes)
  qed (use assms(1) live s1 in \<open>simp_all add: t_def new_def\<close>)
qed

lemma fetch_loop_fetched:
  assumes "length (live_nodes f s) < n" "distinct (nl_addrs (rinfo s))" "distinct buf"
  shows "fetched (KVAL s) (live_replies f s) buf picks (fst (fetch_loop n f buf picks en s))"
  using assms
proof (induction n arbitrary: buf picks en s)
  case (Suc n)
  let ?live = "live_replies f s"
  have fin: "finite ?live" by (simp add: live_replies_nodes)
  show ?case
  proof (cases "int (length buf) < KVAL s")
    case False
    have "card (set buf) \<le> card (set buf \<union> offered ?live)"
      by (rule card_mono) (simp_all add: offered_def live_replies_nodes)
    then have "int (length buf) \<le> int (card (set buf \<union> offered ?live))" by (simp add: distinct_card [OF Suc.prems(3)])
    then show ?thesis using False Suc.prems(3) by (simp add: fetched_def)
  next
    case more: True
    show ?thesis
    proof (cases "find_rinfo (rinfo s) f")
      case None
      then have "?live = {}" by (auto simp: find_rinfo_def nl_find_None live_replies_def)
      then show ?thesis using None more distinct_card [OF Suc.prems(3)] by (simp add: fetched_def offered_def)
    next
      case (Some p)
      obtain m new en' t where step:
          "fetch_loop (Suc n) f buf picks en s = fetch_loop n f (buf @ new) (rev (map (Pair (ri_dst_ip m)) new) @ picks) en' t"
        and new: "new = take (nat (KVAL s - int (length buf))) (fresh buf (frags m))" and k: "KVAL t = KVAL s"
        and t: "distinct (nl_addrs (rinfo t))" "length (live_nodes f t) < length (live_nodes f s)"
        and live: "?live = insert m (live_replies f t)" "\<forall>r \<in> ?live. ri_dist m \<le> ri_dist r"
        by (rule fetch_round [OF Suc.prems(2) Some more, of n picks en])
      have newp: "set new \<subseteq> set (frags m) - set buf" "distinct new"
        unfolding new using fresh_props [of buf "frags m"] by (auto dest: in_set_takeD)
      then have db: "distinct (buf @ new)" "set new \<subseteq> set (frags m)" using Suc.prems(3) by auto
      have mnear: "\<forall>x \<in> set new. from_nearest ?live (ri_dst_ip m, x)"
        using newp(1) live unfolding from_nearest_def by (auto intro!: bexI [of _ m])
      have "length new \<le> nat (KVAL s - int (length buf))" by (simp add: new)
      then have le: "int (length (buf @ new)) \<le> KVAL s" using more by simp
      have len: "length (live_nodes f t) < n" using Suc.prems(1) t(2) by simp
      show ?thesis
      proof (cases "int (length (buf @ new)) = KVAL s")
        case True
        have "fetch_loop n f (buf @ new) (rev (map (Pair (ri_dst_ip m)) new) @ picks) en' t =
            (Some (buf @ new, rev (map (Pair (ri_dst_ip m)) new) @ picks, en'), t)"
          using True k len by (cases n) simp_all
        then show ?thesis
          using fetched_full [OF db(1) True fin _ db(2) mnear more, of picks en'] live(1) unfolding step by simp
      next
        case False
        then have "new = fresh buf (frags m)" using more le by (auto simp: new min_def split: if_splits)
        then have "set (frags m) \<subseteq> set (buf @ new)" using fresh_props(1) [of buf "frags m"] by auto
        then show ?thesis
          using fetched_more [OF Suc.IH [OF len t(1) db(1), unfolded k] live(1) _ db(2) mnear more le] unfolding step by simp
      qed
    qed
  qed
qed simp

section \<open>Fetching a file\<close>

lemma fetch_loop_out: "k_out (snd (fetch_loop n f buf picks en s)) = k_out s"
proof (induction n arbitrary: buf picks en s)
  case (Suc n)
  show ?case by (simp add: Suc.IH Let_def case_prod_beta fault_def split: option.split)
qed simp

lemma update_refs_fields:
  "rinfo (fold (\<lambda>n s. snd (update_ref f (ce_frag_id (snd n)) s)) ns s) = rinfo s
   \<and> KVAL (fold (\<lambda>n s. snd (update_ref f (ce_frag_id (snd n)) s)) ns s) = KVAL s
   \<and> k_out (fold (\<lambda>n s. snd (update_ref f (ce_frag_id (snd n)) s)) ns s) = k_out s"
  by (induction ns arbitrary: s) (simp_all add: update_ref_def case_prod_beta split: option.split)

lemma process_flrep_fetches:
  assumes "c_tables_ok s" "0 \<le> KVAL s" "f = ck_file_id k" "live = live_replies f s"
    and "own = map ce_frag_id (take (nat (KVAL s)) (filter (\<lambda>c. ce_file_id c = f) (nl_vals (ctable s))))" "distinct own"
  shows "(fst (process_flrep e k s) = 0 \<longleftrightarrow> KVAL s \<le> int (card (set own \<union> offered live)))
    \<and> (fst (process_flrep e k s) = 0 \<longrightarrow>
        (\<exists>ps u. snd (process_flrep e k s) = expire_replies f (fold (request_frag e f) ps u) \<and> k_out u = k_out s \<and> c_evolves e s u
          \<and> length ps = nat (KVAL s) - length own \<and> distinct (map snd ps) \<and> set (map snd ps) \<inter> set own = {}
          \<and> (\<forall>p \<in> set ps. from_nearest live p)))"
proof -
  have d: "distinct (nl_addrs (ctable s))" "distinct (nl_addrs (rinfo s))"
    using assms(1) by (simp_all add: c_tables_ok_def cache_ok_def nodes_ok_def)
  let ?own = "find_upto (nat (KVAL s)) (\<lambda>c. ce_file_id c = f) (ctable s)"
  have own: "map (\<lambda>n. ce_frag_id (snd n)) ?own = own"
    unfolding find_upto_filter [OF d(1)] assms(5) by (simp add: nl_vals_def filter_map o_def take_map)
  define s1 where "s1 = (if g_act s = ''on'' then fold (\<lambda>n s. snd (update_ref f (ce_frag_id (snd n)) s)) ?own s else s)"
  have s1: "rinfo s1 = rinfo s" "KVAL s1 = KVAL s" "k_out s1 = k_out s" by (simp_all add: s1_def update_refs_fields)
  obtain res s2 where l: "fetch_loop (Suc (length (rinfo s1))) f own [] 0 s1 = (res, s2)" by fastforce
  have "length (live_nodes f s1) < Suc (length (rinfo s1))" by (simp add: live_nodes_def le_imp_less_Suc)
  then have F: "fetched (KVAL s) live own [] res"
    using fetch_loop_fetched [of f s1 "Suc (length (rinfo s1))" own "[]" 0] d(2) assms(4,6) l s1
    by (simp add: live_replies_def)
  have o: "k_out s2 = k_out s" using fetch_loop_out [of "Suc (length (rinfo s1))" f own "[]" 0 s1] l s1(3) by simp
  have "c_evolves e s s1" unfolding s1_def by (intro ce.if_rule(1) ce.fold_rule cv ce.refl; assumption?)
  then have c: "c_evolves e s (s2\<lparr>cEnergy := x, cSuccess := y\<rparr>)" for x y
    using cv_energy [OF cv_fetch_loop] l by (metis snd_conv)
  have p: "process_flrep e k s = (case res of None \<Rightarrow> (1, s2)
      | Some (buf1, picks, energy) \<Rightarrow>
          (0, expire_replies f (fold (request_frag e f) picks (s2\<lparr>cEnergy := cEnergy s2 + energy, cSuccess := cSuccess s2 + 1\<rparr>))))"
    unfolding process_flrep_def Let_def assms(3) [symmetric] own s1_def [symmetric] l by simp
  show ?thesis
  proof (cases res)
    case None
    then show ?thesis using F p by (simp add: fetched_def)
  next
    case (Some q)
    obtain buf ps en where q: "q = (buf, ps, en)" by (cases q)
    note R = F [unfolded Some q fetched_Some]
    then have ps: "buf = own @ rev (map snd ps)" "\<forall>p \<in> set ps. from_nearest live p" by simp_all
    have db: "distinct buf" using R by blast
    have "length own \<le> nat (KVAL s)" by (simp add: assms(5))
    then have "length ps = nat (KVAL s) - length own" using R ps(1) assms(2) by auto
    moreover have "distinct (map snd ps)" "set (map snd ps) \<inter> set own = {}"
      using db unfolding ps(1) by auto
    moreover have "process_flrep e k s = (0, expire_replies f (fold (request_frag e f) ps
        (s2\<lparr>cEnergy := cEnergy s2 + en, cSuccess := cSuccess s2 + 1\<rparr>)))" using p Some q by simp
    ultimately show ?thesis using R ps(2) o c
      by (auto intro!: exI [of _ ps] exI [of _ "s2\<lparr>cEnergy := cEnergy s2 + en, cSuccess := cSuccess s2 + 1\<rparr>"])
  qed
qed


definition fetch_task :: ctask where
  "fetch_task = (c_new_task 8 0)\<lparr>ck_file_id := 7\<rparr>"


end
