(* ===== verification/TrafficProps.thy ===== *)
theory TrafficProps
  imports CacheDemo
begin

unbundle bit_operations_syntax

text \<open>
  The properties of the caching module at its edge: the packets it measures and accepts, requests that are
  answered once, the threshold at which an exchange starts, and memory.
\<close>

section \<open>Measuring OLSR traffic\<close>

definition raw_packet :: "u16 \<Rightarrow> u32 \<Rightarrow> u8 list \<Rightarrow> skbuff" where
  "raw_packet port src msg =
     \<lparr>sk_len = 28 + length msg, sk_data = replicate 28 0 @ msg, sk_beyond = (\<lambda>_. 0), sk_saddr = src,
      sk_daddr = 0xffffffff, sk_ttl = 5, sk_has_transport = True, sk_udp_dest = port, sk_h_proto = 0x0800,
      sk_h_source = [2, 0, 0, 0, 0, ucast src], sk_dev = wlan0\<rparr>"

text \<open>A packet in which messages of the sizes \<open>ms\<close> follow one another from an offset on, and their types.\<close>

fun olsr_layout :: "skbuff \<Rightarrow> nat \<Rightarrow> nat list \<Rightarrow> bool" where
  "olsr_layout skb pos [] = True"
| "olsr_layout skb pos (m # ms) = (0 < m \<and> skb_ntohs skb (pos + 2) = m \<and> olsr_layout skb (pos + m) ms)"

fun olsr_types :: "skbuff \<Rightarrow> nat \<Rightarrow> nat list \<Rightarrow> u8 list" where
  "olsr_types skb pos [] = []"
| "olsr_types skb pos (m # ms) = skb_byte skb pos # olsr_types skb (pos + m) ms"

definition words_of :: "u8 \<Rightarrow> u8 list \<Rightarrow> nat list \<Rightarrow> u32" where
  "words_of ty tys ms = (\<Sum>(y, m)\<leftarrow>zip tys ms. if y = ty then of_nat m div 4 else 0)"

lemma skb_ntohs_bound: "skb_ntohs p off < 65536"
proof -
  have "unat (skb_byte p off) < 256" "unat (skb_byte p (off + 1)) < 256"
    using unsigned_less [where w = "skb_byte p off"] unsigned_less [where w = "skb_byte p (off + 1)"] by simp_all
  then show ?thesis by (simp add: skb_ntohs_def)
qed

lemma olsr_loop_more: "olsr_loop n skb pos c s = Some t \<Longrightarrow> olsr_loop (n + k) skb pos c s = Some t"
  by (induction n arbitrary: pos c s) (auto simp: Let_def)

text \<open>Messages of positive size are passed one per round.\<close>

lemma olsr_passes:
  assumes "olsr_layout skb pos ms" "sum_list ms + r < 2 ^ 32"
  shows "\<exists>t. (\<forall>n. olsr_loop (length ms + n) skb pos (of_nat (sum_list ms + r)) s = olsr_loop n skb (pos + sum_list ms) (of_nat r) t)
    \<and> rtHello_c t = rtHello_c s + of_nat (count_list (olsr_types skb pos ms) 201)
    \<and> rtHello t = rtHello s + words_of 201 (olsr_types skb pos ms) ms
    \<and> rtTc t = rtTc s + words_of 202 (olsr_types skb pos ms) ms \<and> ctable t = ctable s"
  using assms
proof (induction ms arbitrary: pos s)
  case (Cons m ms)
  have m: "0 < m" "skb_ntohs skb (pos + 2) = m" "olsr_layout skb (pos + m) ms" using Cons.prems(1) by simp_all
  have um: "unat (of_nat m :: u32) = m" using skb_ntohs_bound [of skb "pos + 2"] m(2) by (simp add: unat_of_nat)
  have pos: "0 < (of_nat (sum_list (m # ms) + r) :: u32)"
  proof -
    have "unat (of_nat (sum_list (m # ms) + r) :: u32) = sum_list (m # ms) + r"
      using Cons.prems(2) by (simp add: unat_of_nat del: of_nat_add sum_list.Cons)
    then show ?thesis using m(1) by (simp add: word_less_nat_alt del: of_nat_add)
  qed
  let ?y = "skb_byte skb pos"
  let ?s = "if ?y = LQ_HELLO_MESSAGE
        then s\<lparr>rtHello_c := rtHello_c s + 1, rtHello := rtHello s + of_nat m div 4\<rparr>
        else if ?y = LQ_TC_MESSAGE then s\<lparr>rtTc := rtTc s + of_nat m div 4\<rparr> else s"
  have c: "(of_nat (sum_list (m # ms) + r) :: u32) - of_nat m = of_nat (sum_list ms + r)" by simp
  have step: "olsr_loop (length (m # ms) + n) skb pos (of_nat (sum_list (m # ms) + r)) s =
      olsr_loop (length ms + n) skb (pos + m) (of_nat (sum_list ms + r)) ?s" for n
    by (simp only: length_Cons add_Suc olsr_loop.simps(2) pos if_True Let_def m(2) um c)
  have "sum_list ms + r < 2 ^ 32" using Cons.prems(2) by simp
  from Cons.IH [OF m(3) this, of ?s] show ?case
    unfolding step by (auto simp: words_of_def add.assoc split: if_splits)
qed (auto simp: words_of_def)

text \<open>C31. Whether measuring an OLSR packet ends. Let messages of positive size fill the packet from an offset on. If nothing
  follows, the loop ends after one round per message, having counted the hello messages and the words of hello and of
  topology control messages. If bytes follow and claim to be a message of size zero, no number of rounds is enough: the loop,
  which runs in the netfilter hook, does not end.\<close>

theorem olsr_loop_ends:
  assumes "olsr_layout skb pos ms" "sum_list ms + r < 2 ^ 32"
  shows "(r = 0 \<longrightarrow> (\<exists>t. olsr_loop (Suc (length ms)) skb pos (of_nat (sum_list ms + r)) s = Some t
      \<and> rtHello_c t = rtHello_c s + of_nat (count_list (olsr_types skb pos ms) 201)
      \<and> rtHello t = rtHello s + words_of 201 (olsr_types skb pos ms) ms
      \<and> rtTc t = rtTc s + words_of 202 (olsr_types skb pos ms) ms \<and> ctable t = ctable s))
    \<and> (0 < r \<and> skb_ntohs skb (pos + sum_list ms + 2) = 0 \<longrightarrow>
        (\<forall>n. olsr_loop n skb pos (of_nat (sum_list ms + r)) s = None))"
proof -
  obtain t where t: "\<And>n. olsr_loop (length ms + n) skb pos (of_nat (sum_list ms + r)) s = olsr_loop n skb (pos + sum_list ms) (of_nat r) t"
      "rtHello_c t = rtHello_c s + of_nat (count_list (olsr_types skb pos ms) 201)"
      "rtHello t = rtHello s + words_of 201 (olsr_types skb pos ms) ms"
      "rtTc t = rtTc s + words_of 202 (olsr_types skb pos ms) ms \<and> ctable t = ctable s"
    using olsr_passes [OF assms] by blast
  have "olsr_loop n skb pos (of_nat (sum_list ms + r)) s = None"
    if r: "0 < r" "skb_ntohs skb (pos + sum_list ms + 2) = 0" for n
  proof -
    have "unat (of_nat r :: u32) = r" using assms(2) by (simp add: unat_of_nat)
    then have "0 < (of_nat r :: u32)" using r(1) by (simp add: word_less_nat_alt)
    then have "olsr_loop n skb (pos + sum_list ms) (of_nat r) u = None" for n u
      using r(2) by (induction n arbitrary: u) (simp_all add: Let_def)
    then have "olsr_loop (length ms + n) skb pos (of_nat (sum_list ms + r)) s = None" by (simp only: t(1))
    then show ?thesis using olsr_loop_more [of n skb pos _ s _ "length ms"] by (metis add.commute not_None_eq option.distinct(1))
  qed
  moreover have "olsr_loop (Suc (length ms)) skb pos (of_nat (sum_list ms + r)) s = Some t" if "r = 0"
    using t(1) [of 1] that by simp
  ultimately show ?thesis using t(2-4) by blast
qed

theorem olsr_loop_ends_witness:
  "(\<exists>t. olsr_loop 3 (raw_packet 698 0xc0a80002 [0, 24, 0, 1, 201, 0, 0, 12, 0, 0, 0, 0, 0, 0, 0, 0, 202, 0, 0, 8, 0, 0, 0, 0])
      32 20 cnode = Some t \<and> rtHello_c t = 1 \<and> rtHello t = 3 \<and> rtTc t = 2)
   \<and> (\<forall>n. olsr_loop n (raw_packet 698 0xc0a80002 [0, 12, 0, 1, 201, 0, 0, 0, 0, 0, 0, 0]) 32 8 cnode = None)"
proof -
  let ?p = "raw_packet 698 0xc0a80002 [0, 24, 0, 1, 201, 0, 0, 12, 0, 0, 0, 0, 0, 0, 0, 0, 202, 0, 0, 8, 0, 0, 0, 0]"
    and ?z = "raw_packet 698 0xc0a80002 [0, 12, 0, 1, 201, 0, 0, 0, 0, 0, 0, 0]"
  have "olsr_layout ?p 32 [12, 8]" "olsr_types ?p 32 [12, 8] = [201, 202]"
    by (simp_all add: raw_packet_def skb_ntohs_def skb_byte_def nth_append)
  moreover have "olsr_layout ?z 32 []" "skb_ntohs ?z 34 = 0"
    by (simp_all add: raw_packet_def skb_ntohs_def skb_byte_def nth_append)
  ultimately show ?thesis
    using olsr_loop_ends [of ?p 32 "[12, 8]" 0 cnode] olsr_loop_ends [of ?z 32 "[]" 8 cnode]
    by (simp add: words_of_def cdemo_defs numeral_3_eq_3)
qed

section \<open>File replies\<close>

text \<open>On a little-endian machine \<open>ntohl\<close> moves the 8-bit count into the highest byte.\<close>

lemma count_in_host_order:
  fixes c :: u8
  shows "unat (ntohl e (ucast c)) = (if ke_big_endian e then unat c else unat c * 2 ^ 24)"
proof -
  have c: "unat c < 256" using unsigned_less [where w = c] by simp
  then have "unat (ucast c :: u32) = unat c" by (simp add: unsigned_ucast_eq take_bit_nat_eq_self)
  moreover have "ntohl e (ucast c) = push_bit 24 (ucast c :: u32)" if "\<not> ke_big_endian e"
    using that by (auto simp: ntohl_def u32_bytes_def bytes_u32_def bit_eq_iff bit_or_iff bit_push_bit_iff bit_ucast_iff bit_drop_bit_eq
        bit_u8_add)
  ultimately show ?thesis using c
    by (simp add: push_bit_eq_mult unat_mult_lem [THEN iffD1])
qed

text \<open>How many fragments the loop copies for a count of n: it is signed, and the count in host order of a little-endian machine
  is negative from 128 on.\<close>

definition copied :: "bool \<Rightarrow> nat \<Rightarrow> nat" where
  "copied be n = (if be then n else if n < 128 then n * 2 ^ 24 else 0)"

lemma signed_count:
  assumes "unat (w :: u32) = (if be then n else n * 2 ^ 24)" "n < 256"
  shows "nat (sint w) = copied be n"
proof (cases "be \<or> n < 128")
  case True
  have "unat w < 2147483648" using assms True by (cases be) simp_all
  then have "nat (sint w) = unat w" by (intro small_count) simp
  then show ?thesis using assms(1) True by (auto simp: copied_def)
next
  case False
  have "n div 128 = 1" using False assms(2) by (intro div_nat_eqI) simp_all
  moreover have "unat w div 2 ^ 31 = n div 128" using assms(1) False by simp
  ultimately have "odd (unat w div 2 ^ 31)" by simp
  then have "bit (unat w) 31" by (rule iffD2 [OF bit_iff_odd])
  then have "bit w 31" by (simp add: bit_unsigned_iff)
  then have "sint w < 0" using bit_last_iff [of w] by simp
  then show ?thesis using False by (simp add: copied_def)
qed

text \<open>C30. A file reply with more fragments than there is room for overruns the block made for it. The packet check only
  compares the length with the count in the message, so such a packet, of up to 255 fragments, is let in. On a
  big-endian machine the memory error happens exactly when the count exceeds the eight places of \<open>map\<close>. On a
  little-endian one \<open>ntohl\<close> takes the 8-bit count times \<open>2 ^ 24\<close> and the loop reads that as a signed number: every reply with 1 to 127
  fragments overruns the block, and of one with 128 or more nothing is copied at all.\<close>

theorem file_reply_overflow:
  assumes "no_oom e" "length bs = 20 + 4 * n" "unat (bs ! 3) = n" "\<not> k_fault s"
    and "ck_dst_ip k = c_my_ip s" "ck_data k = Some (b, bs)" "t = snd (recv_flrep e k s)"
  shows "fst (valid_cache_packet e (int (length bs)) 2 src (bs ! 3) s)
    \<and> length (ri_map (snd (hd (rinfo t)))) = (if ke_big_endian e then n else if n < 128 then n * 2 ^ 24 else 0)
    \<and> (k_fault t \<longleftrightarrow> (if ke_big_endian e then 8 < n else 0 < n \<and> n < 128))"
proof -
  have v: "fst (valid_cache_packet e (int (length bs)) 2 src (bs ! 3) s)"
    using assms(2,3) by (simp add: valid_cache_packet_def Let_def uint_nat)
  define s1 where "s1 = (if find_rinfo (rinfo s) (fp_file_id (bytes_fileRep (ke_big_endian e) bs)) = None
      then c_update_timer_queue e (snd (c_insert_timer e 8 WAIT_FILE_REP_TIME (c_my_ip s)
        (fp_file_id (bytes_fileRep (ke_big_endian e) bs)) 0 s)) else s)"
  have f: "\<not> k_fault s1"
    using assms(1,4) by (simp add: s1_def c_insert_timer_def c_create_task_def kmalloc_no_oom c_update_timer_queue_def
        c_queue_timer_def)
  have r: "t = snd (create_rinfo e bs s1)"
    unfolding assms(7) recv_flrep_def Let_def s1_def using assms(5,6) by simp
  define w :: u32 where "w = ntohl e (ucast (fp_frag_count (bytes_fileRep (ke_big_endian e) bs)))"
  have "unat w = (if ke_big_endian e then n else n * 2 ^ 24)"
    using assms(3) by (simp add: w_def count_in_host_order bytes_fileRep_def)
  moreover have "unat (bs ! 3) < 2 ^ 8" using unsigned_less [of "bs ! 3"] by simp
  then have "n < 256" using assms(3) by simp
  ultimately have n: "nat (sint w) = copied (ke_big_endian e) n" by (rule signed_count)
  have "k_fault t = (8 < copied (ke_big_endian e) n)" "length (ri_map (snd (hd (rinfo t)))) = copied (ke_big_endian e) n"
    unfolding r create_rinfo_def Let_def w_def [symmetric] n using assms(1) f by (simp_all add: kmalloc_no_oom insert_rinfo_def fault_def)
  moreover have "(8 < n * 2 ^ 24) = (0 < n)" by (cases n) simp_all
  ultimately show ?thesis using v by (cases "ke_big_endian e") (auto simp: copied_def)
qed

definition full_reply :: ctask where
  "full_reply = (c_new_task 2 0)\<lparr>ck_dst_ip := 0xc0a80001, ck_data := Some (30, [2, 0, 0, 9] @ replicate 52 0)\<rparr>"

text \<open>Nine fragments on a big-endian machine, 200 on a little-endian one.\<close>

theorem file_reply_overflow_witness:
  "k_fault (snd (recv_flrep demo_env full_reply cnode))
   \<and> length (ri_map (snd (hd (rinfo (snd (recv_flrep (demo_env\<lparr>ke_big_endian := False\<rparr>)
       (full_reply\<lparr>ck_data := Some (30, [2, 0, 0, 200] @ replicate 816 0)\<rparr>) cnode)))))) = 0"
proof -
  let ?k = "full_reply\<lparr>ck_data := Some (30, [2, 0, 0, 200] @ replicate 816 0)\<rparr>"
  have e: "no_oom (demo_env\<lparr>ke_big_endian := False\<rparr>)" using demo_no_oom by (simp add: no_oom_def)
  show ?thesis
    using file_reply_overflow [of demo_env "[2, 0, 0, 9] @ replicate 52 0" 9 cnode full_reply 30 _ 0, OF demo_no_oom _ _ _ _ _ refl]
      file_reply_overflow [of "demo_env\<lparr>ke_big_endian := False\<rparr>" "[2, 0, 0, 200] @ replicate 816 0" 200 cnode ?k 30 _ 0, OF e _ _ _ _ _ refl]
    by (simp add: full_reply_def cdemo_defs demo_env_def)
qed

section \<open>Fragment requests on the way\<close>

lemma fragReq_bytes_at:
  assumes "length (fg_head m) = 4"
  shows "fragReq_bytes (ke_big_endian e) (convert_frreq_to_network e m) ! 12 = ucast (drop_bit 24 (fg_file_id m))"
    "fragReq_bytes (ke_big_endian e) (convert_frreq_to_network e m) ! 16 = ucast (drop_bit 24 (fg_frag_id m))"
    "fragReq_bytes (ke_big_endian e) (convert_frreq_to_network e m) ! 0 = fg_head m ! 0"
    "length (fragReq_bytes (ke_big_endian e) (convert_frreq_to_network e m)) = 20"
proof -
  have "fragReq_bytes (ke_big_endian e) (convert_frreq_to_network e m) = fg_head m @ u32_bytes True (fg_src_ip m)
      @ u32_bytes True (fg_dst_ip m) @ u32_bytes True (fg_file_id m) @ u32_bytes True (fg_frag_id m)"
    by (simp add: fragReq_bytes_def convert_frreq_to_network_def words_bytes_def htonl_bytes)
  note shape = this [unfolded u32_bytes_def Let_def if_True]
  show "fragReq_bytes (ke_big_endian e) (convert_frreq_to_network e m) ! 12 = ucast (drop_bit 24 (fg_file_id m))"
    "fragReq_bytes (ke_big_endian e) (convert_frreq_to_network e m) ! 16 = ucast (drop_bit 24 (fg_frag_id m))"
    "fragReq_bytes (ke_big_endian e) (convert_frreq_to_network e m) ! 0 = fg_head m ! 0"
    "length (fragReq_bytes (ke_big_endian e) (convert_frreq_to_network e m)) = 20"
    unfolding shape using assms by (simp_all add: nth_append)
qed

text \<open>A fragment request is dropped by the wrong counter. When a node passes on a request, it should stop the one
  that reaches the threshold; but the code reads one byte of each number, its first. For all files and
  fragments below \<open>2 ^ 24\<close> that byte is zero: whether the packet is dropped depends on
  the counter of fragment 0 of file 0 alone, and the request is queued in any case.\<close>

theorem frag_request_wrong_counter:
  assumes "sk_data p = header @ fragReq_bytes (ke_big_endian e) (convert_frreq_to_network e m)" "length header = 28"
    "sk_len p = 48" "length (fg_head m) = 4" "fg_head m ! 0 = 3" "fg_file_id m < 2 ^ 24" "fg_frag_id m < 2 ^ 24"
    "g_act s = ''on''" "no_oom e"
  shows "fst (c_packet_in e p s) = (if reachThreshold (find_creq 0 0 s) s then NF_DROP else NF_ACCEPT)
    \<and> length (c_tasks (snd (c_packet_in e p s))) = Suc (length (c_tasks s))"
proof -
  let ?bs = "fragReq_bytes (ke_big_endian e) (convert_frreq_to_network e m)"
  have z: "drop_bit 24 w = 0" if "w < 2 ^ 24" for w :: u32
  proof -
    have "unat w < 2 ^ 24" using that by (simp add: word_less_nat_alt)
    then show ?thesis by (simp only: word_unat_eq_iff unat_drop_bit_eq) (simp add: drop_bit_eq_div)
  qed
  have b: "skb_byte p (28 + i) = ?bs ! i" if "i < 20" for i
    using that assms(1,2) fragReq_bytes_at(4) [OF assms(4), of e] by (simp add: skb_byte_def nth_append)
  have bytes: "skb_byte p 28 = 3" "skb_byte p 40 = 0" "skb_byte p 44 = 0"
    using b [of 0] b [of 12] b [of 16] fragReq_bytes_at(1-3) [OF assms(4), of e] assms(5) z assms(6,7) by simp_all
  define s1 where "s1 = s\<lparr>fOverhead := fOverhead s + 5\<rparr>"
  define s2 where "s2 = snd (c_insert_task e 3 p s1)"
  have s2: "g_act s2 = g_act s" "crlist s2 = crlist s" "THRESHOLD s2 = THRESHOLD s"
    "length (c_tasks s2) = Suc (length (c_tasks s))"
    by (simp_all add: s2_def s1_def c_insert_task_def c_create_task_def kmalloc_no_oom [OF assms(9)] queue_task_def
        emit_def Let_def)
  have "c_packet_in e p s =
      (if find_creq 0 0 s2 \<noteq> None \<and> reachThreshold (find_creq 0 0 s2) s2 then NF_DROP else NF_ACCEPT, s2)"
    using assms(3,8) bytes s2(1)
    by (simp add: c_packet_in_def valid_cache_packet_def Let_def s1_def [symmetric] s2_def [symmetric])
  moreover have "find_creq 0 0 s2 = find_creq 0 0 s" "reachThreshold c s2 = reachThreshold c s" for c
    by (simp_all add: find_creq_def reachThreshold_def s2 split: option.split)
  moreover have "\<not> reachThreshold None s" by (simp add: reachThreshold_def)
  ultimately show ?thesis by (cases "find_creq 0 0 s") (simp_all add: s2(4))
qed

definition passing_request :: fragReq where
  "passing_request =
     \<lparr>fg_head = [3, 0, 0, 0], fg_src_ip = 0xc0a80005, fg_dst_ip = 0xc0a80006, fg_file_id = 9, fg_frag_id = 1\<rparr>"

text \<open>The counter of fragment 1 of file 9 is at the threshold, and the request passes.\<close>

theorem frag_request_wrong_counter_witness:
  "reachThreshold (find_creq 9 1 cnode) cnode
   \<and> fst (c_packet_in demo_env (raw_packet 655 0xc0a80005 (fragReq_bytes True passing_request)) cnode) = NF_ACCEPT"
proof -
  have be: "ke_big_endian demo_env" by (simp add: demo_env_def)
  then have "convert_frreq_to_network demo_env passing_request = passing_request"
    by (simp add: convert_frreq_to_network_def passing_request_def)
  then have "fst (c_packet_in demo_env (raw_packet 655 0xc0a80005 (fragReq_bytes True passing_request)) cnode) =
      (if reachThreshold (find_creq 0 0 cnode) cnode then NF_DROP else NF_ACCEPT)"
    using be
    by (intro conjunct1 [OF frag_request_wrong_counter [where header = "replicate 28 0" and m = passing_request]])
      (simp_all add: raw_packet_def passing_request_def fragReq_bytes_def demo_no_oom cnode_def)
  moreover have "find_creq 0 0 cnode = None" by (simp add: find_creq_def cdemo_defs same_req_def)
  moreover have "reachThreshold (find_creq 9 1 cnode) cnode"
    by (simp add: find_creq_def cdemo_defs same_req_def reachThreshold_def)
  ultimately show ?thesis by (simp add: reachThreshold_def)
qed

section \<open>The threshold\<close>

text \<open>A run of requests for one fragment: what is done at the threshold does not touch the counters.\<close>

definition counter :: "u32 \<Rightarrow> u32 \<Rightarrow> c_state \<Rightarrow> u32 option" where
  "counter f g s = map_option (\<lambda>n. rl_count (snd n)) (find_creq f g s)"

lemma find_creq_cong: "crlist t = crlist s \<Longrightarrow> find_creq f g t = find_creq f g s"
  by (simp add: find_creq_def)

lemma nl_find_upd:
  assumes "distinct (nl_addrs ns)" "nl_find P ns = Some (a, x)" "P (h x)"
  shows "nl_find P (nl_upd a h ns) = Some (a, h x)"
  using assms
proof (induction ns)
  case (Cons n ns)
  have same: "nl_upd a h ns = ns" if "a \<notin> set (nl_addrs ns)" using that
    by (induction ns) auto
  show ?case
  proof (cases "P (snd n)")
    case True
    then show ?thesis using Cons.prems by (cases n) simp
  next
    case False
    moreover have "a \<noteq> fst n"
      using Cons.prems False nl_find_Some [of P ns a x] by (cases n) (auto dest: nl_addrs_in)
    ultimately show ?thesis using Cons by (cases n) simp
  qed
qed simp

lemma gen_exchReq_crlist: "crlist (snd (gen_exchReq e a b f g s)) = crlist s"
  by (simp add: gen_exchReq_def kmalloc_def c_local_broadcast_def emit_def fault_def Let_def split: option.split)

lemma start_exchange_crlist:
  "crlist (c_update_timer_queue e (snd (c_insert_timer e ty d ip f g s))) = crlist s"
  by (simp add: c_update_timer_queue_def arm_timer_def c_insert_timer_def c_create_task_def kmalloc_def
      c_queue_timer_def emit_def Let_def split: list.split)

lemma count_request_counter:
  assumes "no_oom e" "reqs_ok s" "\<And>u. crlist (act u) = crlist u"
  shows "counter f g (count_request e act d f g s) =
    (case counter f g s of
       None \<Rightarrow> Some 1
     | Some c \<Rightarrow> if reachThreshold (find_creq f g s) s then Some 0 else Some (c + 1))"
proof (cases "find_creq f g s")
  case None
  then show ?thesis using assms(1)
    by (simp add: count_request_def Let_def create_creq_cases no_oom_def update_count_def creq_upd_def counter_def
        find_creq_def same_req_def)
next
  case (Some n)
  obtain a r where n: "n = (a, r)" by (cases n)
  have d: "distinct (nl_addrs (crlist s))" using assms(2) by (simp add: reqs_ok_def)
  have sr: "nl_find (same_req f g) (crlist s) = Some (a, r)" "same_req f g r"
    using Some n nl_find_Some [of "same_req f g" "crlist s"] by (auto simp: find_creq_def)
  have up: "nl_find (same_req f g) (nl_upd a h (crlist s)) = Some (a, h r)" if "same_req f g (h r)" for h
    using nl_find_upd [where h = h, OF d sr(1)] that by simp
  have c: "counter f g s = Some (rl_count r)" by (simp add: counter_def Some n)
  show ?thesis
  proof (cases "reachThreshold (find_creq f g s) s")
    case True
    have "crlist (count_request e act d f g s) = nl_upd a (\<lambda>r. r\<lparr>rl_count := 0\<rparr>) (crlist s)"
      using True Some n
      by (simp add: count_request_def Let_def start_exchange_crlist gen_exchReq_crlist assms(3) flush_count_def creq_upd_def)
    then have "counter f g (count_request e act d f g s) = Some 0"
      using up [of "\<lambda>r. r\<lparr>rl_count := 0\<rparr>"] sr(2) by (simp add: counter_def find_creq_def same_req_def)
    then show ?thesis using True by (simp add: c)
  next
    case False
    have "crlist (count_request e act d f g s) = nl_upd a (\<lambda>r. r\<lparr>rl_count := rl_count r + 1\<rparr>) (crlist s)"
      using False Some n by (simp add: count_request_def Let_def update_count_def creq_upd_def)
    then have "counter f g (count_request e act d f g s) = Some (rl_count r + 1)"
      using up [of "\<lambda>r. r\<lparr>rl_count := rl_count r + 1\<rparr>"] sr(2) by (simp add: counter_def find_creq_def same_req_def)
    then show ?thesis using False by (simp add: c)
  qed
qed

text \<open>What the code does at the threshold: nothing, or passing the request on.\<close>

definition passes_on :: "kenv \<Rightarrow> (c_state \<Rightarrow> c_state) \<Rightarrow> bool" where
  "passes_on e act = (act = (\<lambda>u. u) \<or> (\<exists>k m. act = (\<lambda>u. snd (gen_frreq_by_task e k m u))))"

lemma passes_on_props:
  assumes "passes_on e act"
  shows "crlist (act u) = crlist u" "c_evolves e s u \<Longrightarrow> c_evolves e s (act u)"
proof -
  have "crlist (snd (gen_frreq_by_task e k m u)) = crlist u" for k m
    by (simp add: gen_frreq_by_task_def kmalloc_def c_send_message_def emit_def fault_def Let_def split: option.split)
  then show "crlist (act u) = crlist u" using assms by (auto simp: passes_on_def)
  show "c_evolves e s u \<Longrightarrow> c_evolves e s (act u)" using assms by (auto simp: passes_on_def cv)
qed

lemma count_request_tables:
  assumes "c_tables_ok s" "passes_on e act"
  shows "c_tables_ok (count_request e act d f g s)" "THRESHOLD (count_request e act d f g s) = THRESHOLD s"
  using cv_count_request [where e = e and act = act and d = d and f = f and g = g, OF ce.refl [of e s]]
    passes_on_props(2) [OF assms(2)] assms(1)
  by (auto simp: c_evolves_def table_evolves_def same_params_def)

lemma reachThreshold_counter:
  assumes "counter f g u = Some (of_nat c)" "c < T" "2 \<le> T" "T < 2 ^ 31" "THRESHOLD u = int T"
  shows "reachThreshold (find_creq f g u) u \<longleftrightarrow> c = T - 1"
proof -
  have "word_of_int (int T - 1) = (of_nat (T - 1) :: u32)" using assms(3) by (simp add: of_nat_diff)
  then have "(of_nat c :: u32) < word_of_int (int T - 1) \<longleftrightarrow> c < T - 1"
    using assms(2,4) unfolding word_less_nat_alt by (simp only: unat_of_nat) simp
  also have "\<dots> \<longleftrightarrow> c \<noteq> T - 1" using assms(2) by linarith
  finally show ?thesis using assms(1,5) by (cases "find_creq f g u") (auto simp: counter_def reachThreshold_def)
qed

text \<open>Starting the exchange, from v to t: the node asks its neighbours for their scores and sets the timer at which it will
  decide.\<close>

definition exchange_started :: "kenv \<Rightarrow> u32 \<Rightarrow> u32 \<Rightarrow> u32 \<Rightarrow> c_state \<Rightarrow> c_state \<Rightarrow> bool" where
  "exchange_started e d f g v t =
     (\<exists>sk h y a x. g_sock v = Some sk \<and> length h = 4 \<and> h ! 0 = EXCHANGE_REQ_MESSAGE
      \<and> k_out t = k_out v @ [SetTtl sk 1, SendMsg sk (c_broadcast_ip v)
          (exchReq_bytes (ke_big_endian e) \<lparr>eq_head = h, eq_src_ip = htonl e (c_my_ip v), eq_dst_ip = htonl e d,
             eq_file_id = htonl e f, eq_frag_id = htonl e g\<rparr>), y]
      \<and> c_timers t = link_timer e ck_time (a, x) (c_timers v)
      \<and> ck_type x = TASK_ADD_CACHE_SEND \<and> ck_dst_ip x = d \<and> ck_file_id x = f \<and> ck_frag_id x = g
      \<and> ck_time x = getcurrtime v + 2000)"

text \<open>Nothing the kernel is asked for here is refused.\<close>

definition can_ask :: "kenv \<Rightarrow> bool" where
  "can_ask e = (no_oom e \<and> (\<forall>i. 0 \<le> ke_set_ttl e i) \<and> (\<forall>i. 20 \<le> ke_wspace e i))"

lemma exchReq_len: "length (exchReq_bytes be \<lparr>eq_head = h, eq_src_ip = a, eq_dst_ip = d, eq_file_id = f, eq_frag_id = g\<rparr>) = length h + 16"
  by (simp add: exchReq_bytes_def)

lemma threshold_starts:
  assumes "can_ask e" "g_sock (act v) = Some sk" "reachThreshold (find_creq f g s) s"
    and "v = snd (flush_count (map_option fst (find_creq f g s)) s)"
  shows "exchange_started e d f g (act v) (count_request e act d f g s)"
proof -
  have e: "no_oom e" "\<And>i. \<not> ke_set_ttl e i < 0" "\<And>i. 20 \<le> ke_wspace e i"
    using assms(1) by (auto simp: can_ask_def not_less)
  obtain p where c: "find_creq f g s = Some p" using assms(3) by (cases "find_creq f g s") (simp_all add: reachThreshold_def)
  define w where "w = act v"
  define h where "h = new_head e (k_allocs w) EXCHANGE_REQ_MESSAGE"
  define b where "b = exchReq_bytes (ke_big_endian e) \<lparr>eq_head = h, eq_src_ip = htonl e (c_my_ip w), eq_dst_ip = htonl e d,
             eq_file_id = htonl e f, eq_frag_id = htonl e g\<rparr>"
  define s2 where "s2 = snd (gen_exchReq e (c_my_ip w) d f g w)"
  define x where "x = (c_new_task 9 (getcurrtime s2))
    \<lparr>ck_src_ip := d, ck_dst_ip := d, ck_file_id := f, ck_frag_id := g, ck_time := getcurrtime s2 + ucast WAIT_EXCH_REP_TIME\<rparr>"
  define s3 where "s3 = snd (c_insert_timer e 9 WAIT_EXCH_REP_TIME d f g s2)"
  have t: "count_request e act d f g s = c_update_timer_queue e s3"
    using assms(3) c by (simp add: count_request_def Let_def s3_def s2_def w_def assms(4))
  have h: "length h = 4" "h ! 0 = 5" by (simp_all add: h_def new_head_def)
  have sk: "g_sock w = Some sk" using assms(2) by (simp add: w_def)
  have "s2 = emit (SendMsg sk (c_broadcast_ip w) b) (emit (SetTtl sk 1) (snd (kmalloc e w)))"
    using sk e(2,3) h(1) unfolding s2_def gen_exchReq_def b_def h_def
    by (simp add: c_local_broadcast_def kmalloc_no_oom [OF e(1)] Let_def exchReq_len emit_def)
  then have s2: "k_out s2 = k_out w @ [SetTtl sk 1, SendMsg sk (c_broadcast_ip w) b]" "c_timers s2 = c_timers w"
      "getcurrtime s2 = getcurrtime w"
    by (simp_all add: kmalloc_no_oom [OF e(1)] getcurrtime_def) (simp_all add: emit_def)
  have s3: "k_out s3 = k_out s2" "c_timers s3 = link_timer e ck_time (k_allocs s2, x) (c_timers s2)"
    by (simp_all add: s3_def c_insert_timer_def c_create_task_def kmalloc_no_oom [OF e(1)] c_queue_timer_def getcurrtime_def x_def)
  have "\<exists>y. k_out (c_update_timer_queue e s3) = k_out s3 @ [y]"
    by (simp add: c_update_timer_queue_def arm_timer_def emit_def Let_def split: list.split)
  then obtain y where "k_out (count_request e act d f g s) = k_out w @ [SetTtl sk 1, SendMsg sk (c_broadcast_ip w) b, y]"
    using t s3(1) s2(1) by auto
  moreover have "c_timers (count_request e act d f g s) = link_timer e ck_time (k_allocs s2, x) (c_timers w)"
    using s3(2) s2(2) unfolding t
    by (simp add: c_update_timer_queue_def arm_timer_def Let_def emit_def split: list.split)
  moreover have "ck_type x = 9" "ck_dst_ip x = d" "ck_file_id x = f" "ck_frag_id x = g" "ck_time x = getcurrtime w + 2000"
    by (simp_all add: x_def c_new_task_def s2(3))
  ultimately show ?thesis unfolding exchange_started_def w_def [symmetric]
    using sk h b_def by blast
qed

lemma below_threshold:
  assumes "\<not> reachThreshold (find_creq f g s) s" "t = count_request e act d f g s"
  shows "k_out t = k_out s \<and> c_timers t = c_timers s"
proof -
  obtain p s1 where c: "create_creq e f g s = (p, s1)" by fastforce
  have "k_out s1 = k_out s" "c_timers s1 = c_timers s"
    using c by (auto simp: create_creq_def kmalloc_def insert_creq_def Let_def split: if_splits)
  then show ?thesis
    using assms by (cases "find_creq f g s") (simp_all add: count_request_def Let_def c update_count_def creq_upd_def fault_def split: option.split)
qed

lemma passes_on_sock:
  assumes "passes_on e act"
  shows "g_sock (act u) = g_sock u" "c_timers (act u) = c_timers u"
  using assms
  by (auto simp: passes_on_def gen_frreq_by_task_def kmalloc_def c_send_message_def emit_def fault_def Let_def split: option.split)

lemma count_request_sock: "passes_on e act \<Longrightarrow> g_sock (count_request e act d f g s) = g_sock s"
proof -
  assume a: "passes_on e act"
  have "g_sock (snd (gen_exchReq e x y z w u)) = g_sock u" for x y z w u
    by (simp add: gen_exchReq_def kmalloc_def c_local_broadcast_def emit_def fault_def Let_def split: option.split)
  moreover have "g_sock (c_update_timer_queue e (snd (c_insert_timer e ty x y z w u))) = g_sock u" for ty x y z w u
    by (simp add: c_update_timer_queue_def arm_timer_def c_insert_timer_def c_create_task_def kmalloc_def
        c_queue_timer_def emit_def Let_def split: list.split)
  moreover have "g_sock (snd (create_creq e f g s)) = g_sock s"
    by (simp add: create_creq_def kmalloc_def insert_creq_def Let_def)
  ultimately show ?thesis using passes_on_sock(1) [OF a]
    by (simp add: count_request_def Let_def case_prod_beta update_count_def flush_count_def creq_upd_def fault_def split: option.split)
qed

text \<open>C26. Every THRESHOLD-th request starts an exchange, and no other does. Of the requests for a fragment that no counter exists
  for, the one numbered n + 1 does so exactly when THRESHOLD divides n + 1: after passing the request on it broadcasts the question for the
  neighbours' scores, one hop far, and sets the timer at which the node will decide. Every other request sends nothing and
  sets no timer. The counter shows the requests since. This holds from a threshold of two on.\<close>

theorem threshold_counts:
  assumes "can_ask e" "c_tables_ok s" "g_sock s \<noteq> None" "find_creq f g s = None" "2 \<le> THRESHOLD s" "THRESHOLD s < 2 ^ 31"
    "passes_on e act" "after = (\<lambda>n. (count_request e act d f g ^^ n) s)"
  shows "(n = 0 \<or> counter f g (after n) = Some (of_nat (n mod nat (THRESHOLD s))))
    \<and> (if nat (THRESHOLD s) dvd Suc n
       then exchange_started e d f g (act (snd (flush_count (map_option fst (find_creq f g (after n))) (after n)))) (after (Suc n))
       else k_out (after (Suc n)) = k_out (after n) \<and> c_timers (after (Suc n)) = c_timers (after n))"
proof -
  have e: "no_oom e" using assms(1) by (simp add: can_ask_def)
  define T where "T = nat (THRESHOLD s)"
  have T: "2 \<le> T" "T < 2 ^ 31" "THRESHOLD s = int T" using assms(5,6) by (simp_all add: T_def)
  have inv: "c_tables_ok (after n) \<and> THRESHOLD (after n) = int T" for n
    by (induction n) (simp_all add: assms(2,8) T(3) count_request_tables assms(7))
  have sock: "g_sock (after n) = g_sock s" for n
    by (induction n) (simp_all add: assms(8) count_request_sock [OF assms(7)])
  note step = count_request_counter [OF e _ passes_on_props(1) [OF assms(7)]]
  have mod: "Suc c mod T = (if c mod T = T - 1 then 0 else Suc (c mod T))" for c
    using T(1) by (auto simp: mod_Suc)
  have reach: "reachThreshold (find_creq f g u) u \<longleftrightarrow> c mod T = T - 1"
    if "counter f g u = Some (of_nat (c mod T))" "THRESHOLD u = int T" for u c
    using reachThreshold_counter [OF that(1) _ T(1,2) that(2)] T(1) by simp
  have count: "counter f g (after (Suc n)) = Some (of_nat (Suc n mod T))" for n
  proof (induction n)
    case 0
    then show ?case using step [where s = s and f = f and g = g and d = d] assms(2,4) T(1)
      by (simp add: assms(8) counter_def [of f g s] c_tables_ok_def)
  next
    case (Suc n)
    have "counter f g (after (Suc (Suc n))) = (if Suc n mod T = T - 1 then Some 0 else Some (of_nat (Suc n mod T) + 1))"
      using step [where s = "after (Suc n)" and f = f and g = g and d = d] inv [of "Suc n"] Suc.IH
        reach [OF Suc.IH conjunct2 [OF inv]]
      by (simp add: assms(8) c_tables_ok_def)
    then show ?case by (simp add: mod [of "Suc n"])
  qed
  have reached: "reachThreshold (find_creq f g (after n)) (after n) \<longleftrightarrow> T dvd Suc n"
  proof (cases n)
    case 0
    then show ?thesis using assms(4) T(1) by (simp add: assms(8) reachThreshold_def)
  next
    case (Suc m)
    then show ?thesis using reach [OF count [of m] conjunct2 [OF inv]] T(1) by (simp add: dvd_eq_mod_eq_0 mod)
  qed
  have next_is: "after (Suc n) = count_request e act d f g (after n)" by (simp add: assms(8))
  let ?v = "snd (flush_count (map_option fst (find_creq f g (after n))) (after n))"
  obtain sk where "g_sock s = Some sk" using assms(3) by blast
  then have "g_sock (act ?v) = Some sk"
    using sock [of n] passes_on_sock(1) [OF assms(7)] by (simp add: flush_count_def creq_upd_def split: option.split)
  then have starts: "exchange_started e d f g (act ?v) (after (Suc n))" if "T dvd Suc n"
    unfolding next_is using that reached by (intro threshold_starts [OF assms(1), where v = ?v]) simp_all
  have "n = 0 \<or> counter f g (after n) = Some (of_nat (n mod T))"
    using count [of "n - 1"] by (cases n) simp_all
  then show ?thesis
    using reached starts below_threshold [OF _ next_is] unfolding T_def [symmetric] by presburger
qed

text \<open>The third request starts it, the second does not.\<close>

theorem threshold_counts_witness:
  "exchange_started demo_env 0 8 1
     (snd (flush_count (map_option fst (find_creq 8 1 ((count_request demo_env (\<lambda>s. s) 0 8 1 ^^ 2) cnode)))
        ((count_request demo_env (\<lambda>s. s) 0 8 1 ^^ 2) cnode)))
     ((count_request demo_env (\<lambda>s. s) 0 8 1 ^^ 3) cnode)
   \<and> k_out ((count_request demo_env (\<lambda>s. s) 0 8 1 ^^ 2) cnode) = k_out ((count_request demo_env (\<lambda>s. s) 0 8 1 ^^ 1) cnode)"
proof -
  have c: "find_creq 8 1 cnode = None" "THRESHOLD cnode = 3" "g_sock cnode \<noteq> None"
    by (simp_all add: find_creq_def cdemo_defs same_req_def)
  have e: "can_ask demo_env" by (simp add: can_ask_def demo_no_oom) (simp add: demo_env_def)
  have p: "passes_on demo_env (\<lambda>s. s)" by (simp add: passes_on_def)
  have t: "2 \<le> THRESHOLD cnode" "THRESHOLD cnode < 2 ^ 31" by (simp_all add: c)
  note th = threshold_counts [OF e cnode_ok c(3,1) t p refl, where d = 0]
  have "nat (THRESHOLD cnode) dvd Suc 2" "\<not> nat (THRESHOLD cnode) dvd Suc 1" by (simp_all add: c dvd_eq_mod_eq_0)
  then show ?thesis using th [of 2] th [of 1] by (simp only: if_True if_False Suc_1 numeral_3_eq_3 [symmetric] refl simp_thms Suc_numeral semiring_norm)
qed

section \<open>File requests\<close>

definition flreq_of :: "kenv \<Rightarrow> u8 list \<Rightarrow> fileReq" where
  "flreq_of e bs = convert_flreq_to_host e (bytes_fileReq (ke_big_endian e) bs)"

lemma generator_floods:
  "c_floods (snd (gen_flrep e a b f d s)) = c_floods s" "c_floods (snd (forward_flreq e m ttl s)) = c_floods s"
  by (simp_all add: gen_flrep_def forward_flreq_def kmalloc_def c_send_message_def c_local_broadcast_def emit_def
      fault_def Let_def split: option.split)

lemma recv_flreq_floods:
  assumes "no_oom e" "ck_data k = Some (b, bs)" "1 < ck_ttl k" "q = flreq_of e bs"
    "c_find_flood_id e (fq_src_ip q) (fq_seq q) s = None"
  shows "c_floods (snd (recv_flreq e k s)) =
    flood_add (k_allocs s) (fq_dst_ip q) (fq_src_ip q, fq_seq q) (getcurrtime s + 5000) (c_floods s)"
  using assms(2,3,5)
  by (simp add: recv_flreq_def flreq_of_def [symmetric] assms(4) [symmetric] Let_def not_le generator_floods
      c_insert_flood_id_def kmalloc_no_oom [OF assms(1)] flood_add_def)

text \<open>C25. A file request is answered once. After the node has processed a request, every further copy, from
  whatever neighbour, is dropped without effect: in every state it reaches through any packets,
  timers and turns of the thread, as long as the clock stays within FILE_REQUEST_LIFETIME of the
  first copy and does not run backwards.\<close>

theorem recv_flreq_once:
  assumes "no_oom e" "ck_data k = Some (b, bs)" "1 < ck_ttl k" "q = flreq_of e bs"
    "c_find_flood_id e (fq_src_ip q) (fq_seq q) s = None"
    and "cache_until e (getcurrtime u) (snd (recv_flreq e k s)) u" "c_window e (getcurrtime s) (getcurrtime u)"
    and "ck_data k' = Some (b', bs')" "1 < ck_ttl k'" "q' = flreq_of e bs'"
    "fq_src_ip q' = fq_src_ip q" "fq_seq q' = fq_seq q"
  shows "recv_flreq e k' u = (1, u)"
proof -
  have "flood_seen e (getcurrtime u) (fq_src_ip q, fq_seq q) (c_floods (snd (recv_flreq e k s)))"
    unfolding recv_flreq_floods [OF assms(1-5)] using assms(7) by (simp add: fl.seen_add c_window_def)
  then have "flood_seen e (getcurrtime u) (fq_src_ip q, fq_seq q) (c_floods u)"
    by (rule cache_until_seen [OF assms(6)])
  then have "c_find_flood_id e (fq_src_ip q') (fq_seq q') u \<noteq> None"
    using assms(11,12) by (simp add: flood_seen_def c_find_flood_id_def)
  then show ?thesis
    using assms(8-10) by (auto simp: recv_flreq_def flreq_of_def [symmetric] Let_def)
qed

definition file_request :: fileReq where
  "file_request = \<lparr>fq_head = [1, 0, 0, 0], fq_src_ip = 0xc0a80009, fq_dst_ip = 0xffffffff, fq_file_id = 2, fq_seq = 6,
     fq_metric = 0\<rparr>"

definition request_task :: "u32 \<Rightarrow> ctask" where
  "request_task src = (c_new_task 1 0)\<lparr>ck_src_ip := src, ck_ttl := 5, ck_data := Some (30, fileReq_bytes True file_request)\<rparr>"

lemma flreq_of_bytes: "flreq_of demo_env (fileReq_bytes True file_request) = file_request"
  by (simp add: flreq_of_def demo_env_def bytes_fileReq_def fileReq_bytes_def file_request_def convert_flreq_to_host_def)

theorem recv_flreq_once_witness:
  "recv_flreq demo_env (request_task 0xc0a80003) (snd (recv_flreq demo_env (request_task 0xc0a80002) cnode))
   = (1, snd (recv_flreq demo_env (request_task 0xc0a80002) cnode))"
proof -
  let ?t = "snd (recv_flreq demo_env (request_task 0xc0a80002) cnode)"
  have n: "c_find_flood_id demo_env (fq_src_ip file_request) (fq_seq file_request) cnode = None"
    by (simp add: c_find_flood_id_def cdemo_defs)
  have "getcurrtime ?t = getcurrtime cnode" by (rule c_evolves_time [OF cv_recv_flreq [OF ce.refl]])
  then have w: "c_window demo_env (getcurrtime cnode) (getcurrtime ?t)" by (simp add: c_window_def demo_env_def)
  have ttl: "1 < ck_ttl (request_task ip)" "ck_data (request_task ip) = Some (30, fileReq_bytes True file_request)" for ip
    by (simp_all add: request_task_def c_new_task_def)
  show ?thesis
    by (rule recv_flreq_once [OF demo_no_oom ttl(2) ttl(1) flreq_of_bytes [symmetric] n cuntil_refl w ttl(2) ttl(1)
          flreq_of_bytes [symmetric] refl refl])
qed

section \<open>Memory\<close>

text \<open>Every exchange request costs a block of memory. The turn of the thread that answers one frees the task and its
  copy of the message, but the block made for the answer is never freed: one block more is live
  for good after each.\<close>

theorem exchange_request_leaks:
  assumes "no_oom e" "c_tasks s = (a, k) # ks" "ck_type k = 5" "ck_data k = Some (b, bs)" "a \<noteq> b"
    "a \<in> k_live s" "b \<in> k_live s" "\<forall>c \<in> k_live s. c < k_allocs s"
  shows "k_live (c_thread_round e s) = insert (k_allocs s) (k_live s - {a, b}) \<and> k_allocs s \<notin> k_live s
    \<and> card (k_live (c_thread_round e s)) = card (k_live s) - 1"
proof -
  let ?s = "s\<lparr>c_tasks := ks\<rparr>"
  have live: "k_live (snd (c_send_message e ip ttl d u)) = k_live u" for ip ttl d u
    by (simp add: c_send_message_def Let_def split: option.split)
  have "k_live (snd (recv_exreq e k ?s)) = insert (k_allocs s) (k_live s)"
    using assms(1,4) by (simp add: recv_exreq_def gen_exchRep_def kmalloc_no_oom Let_def live)
  then have l: "k_live (c_thread_round e s) = insert (k_allocs s) (k_live s) - {b} - {a}"
    using assms(2-4) by (simp add: c_thread_round_def c_get_task_def c_dispatch_def Let_def c_data_block_def kfree_opt_def)
  have fresh: "k_allocs s \<notin> k_live s" "a \<noteq> k_allocs s" "b \<noteq> k_allocs s" using assms(6-8) by auto
  then have eq: "k_live (c_thread_round e s) = insert (k_allocs s) (k_live s - {a, b})" using l by auto
  have fin: "finite (k_live s)" using assms(8) finite_nat_set_iff_bounded by blast
  have "card (k_live s - {a, b}) = card (k_live s) - 2" "2 \<le> card (k_live s)"
    using fin assms(5-7) card_mono [of "k_live s" "{a, b}"] by (simp_all add: card_Diff_subset)
  then show ?thesis using eq fresh fin by simp
qed

theorem exchange_request_leaks_witness:
  "card (k_live (c_thread_round demo_env (cnode\<lparr>c_tasks := [(2, (c_new_task 5 0)\<lparr>ck_data := Some (4, replicate 20 0)\<rparr>)]\<rparr>))) = 7"
  using exchange_request_leaks
    [of demo_env "cnode\<lparr>c_tasks := [(2, (c_new_task 5 0)\<lparr>ck_data := Some (4, replicate 20 0)\<rparr>)]\<rparr>" 2 _ "[]" 4,
     OF demo_no_oom _ _ _ _ _ _ _]
  by (simp add: cdemo_defs c_new_task_def)

end
