(* ===== verification/Retrieval.thy ===== *)
theory Retrieval
  imports CacheHop FetchProps TrafficProps
begin

text \<open>
  The retrieval of a file end to end, between a node and its neighbours: the request is heard, the neighbours answer with the
  fragments they hold, the node collects the answers and asks the nearest holders for what it lacks. Every message
  goes through the hook, the queue and the thread of its receiver. The machines are big-endian: on others the
  module does not work (\<open>file_reply_overflow\<close>).
\<close>

section \<open>A neighbour answers\<close>

text \<open>The fragments of a file a node answers with.\<close>

definition offers :: "u32 \<Rightarrow> c_state \<Rightarrow> u32 list" where
  "offers f s = map ce_frag_id (take (nat (KVAL s)) (filter (\<lambda>c. ce_file_id c = f) (nl_vals (ctable s))))"

definition file_reply :: "u8 list \<Rightarrow> u32 \<Rightarrow> u32 \<Rightarrow> u32 \<Rightarrow> u32 \<Rightarrow> u32 list \<Rightarrow> u8 list" where
  "file_reply h src dst f dist frs = fileRep_bytes True
     \<lparr>fp_head = h, fp_frag_count = of_nat (length frs), fp_src_ip = src, fp_dst_ip = dst, fp_file_id = f, fp_dist = dist\<rparr> frs"

definition replies_with :: "u32 \<Rightarrow> u32 \<Rightarrow> u32 \<Rightarrow> u32 \<Rightarrow> u32 list \<Rightarrow> u32 \<times> u8 \<times> u8 list \<Rightarrow> bool" where
  "replies_with src dst f dist frs m = (\<exists>h. length h = 3 \<and> h ! 0 = 2 \<and> m = (dst, 10, file_reply h src dst f dist frs))"

lemma length_offers: "length (offers f s) \<le> nat (KVAL s)"
  by (simp add: offers_def)

lemma length_file_reply [simp]: "length h = 3 \<Longrightarrow> length (file_reply h src dst f dist frs) = 20 + 4 * length frs"
  by (simp add: file_reply_def fileRep_bytes_def)

lemma gen_flrep_out:
  assumes "able e" "g_sock s = Some sk" "distinct (nl_addrs (ctable s))" "KVAL s \<le> 8"
  shows "\<exists>evs. k_out (snd (gen_flrep e src dst f dist s)) = k_out s @ evs
    \<and> (if offers f s = [] then evs = [] else \<exists>m. replies_with src dst f dist (offers f s) m \<and> evs = [SetTtl sk 10, SendMsg sk dst (snd (snd m))])"
proof -
  have oom: "no_oom e" "ke_big_endian e" using assms(1) by (simp_all add: able_def)
  have buf: "map (\<lambda>n. ce_frag_id (snd n)) (find_upto (nat (KVAL s)) (\<lambda>c. ce_file_id c = f) (ctable s)) = offers f s"
    unfolding find_upto_filter [OF assms(3)] by (simp add: offers_def nl_vals_def filter_map o_def take_map)
  show ?thesis
  proof (cases "offers f s = []")
    case True
    then show ?thesis by (simp add: gen_flrep_def buf)
  next
    case False
    define h where "h = [2 :: u8, if bit (ke_junk e (k_allocs s) 0) 0 then 128 else 0, 0]"
    define s1 where "s1 = snd (kmalloc e s)"
    have len: "length h = 3" "h ! 0 = 2" by (simp_all add: h_def)
    have s1: "g_sock s1 = Some sk" "k_out s1 = k_out s" using assms(2) by (simp_all add: s1_def kmalloc_no_oom [OF oom(1)])
    have "map (htonl e) (offers f s) = offers f s" using oom(2) by (simp add: map_idI)
    then have "snd (gen_flrep e src dst f dist s) = snd (c_send_message e dst 10 (file_reply h src dst f dist (offers f s)) s1)"
      using False oom(2)
      by (simp add: gen_flrep_def buf kmalloc_no_oom [OF oom(1)] s1_def file_reply_def h_def Let_def)
    moreover have "length (file_reply h src dst f dist (offers f s)) \<le> 52"
      using length_offers [of f s] assms(4) len by simp
    ultimately have "k_out (snd (gen_flrep e src dst f dist s)) = k_out s @ [SetTtl sk 10, SendMsg sk dst (file_reply h src dst f dist (offers f s))]"
      using c_send_message_out [OF assms(1) s1(1), of 10] s1(2) by simp
    then show ?thesis using False len by (auto simp: replies_with_def)
  qed
qed

text \<open>A node that has not heard the request and can answer it.\<close>

definition attends :: "kenv \<Rightarrow> fileReq \<Rightarrow> netdev \<Rightarrow> c_state \<Rightarrow> bool" where
  "attends e q dev s = (c_tables_ok s \<and> c_tasks s = [] \<and> g_sock s \<noteq> None \<and> KVAL s \<le> 8 \<and> hears_from dev (fq_src_ip q)
     \<and> c_my_ip s \<noteq> fq_src_ip q \<and> c_broadcast_ip s \<noteq> fq_src_ip q \<and> c_find_flood_id e (fq_src_ip q) (fq_seq q) s = None)"

lemma request_words:
  assumes "length (fq_head q) = 4" "ke_big_endian e"
  shows "flreq_of e (fileReq_bytes (ke_big_endian e) q) = q" "length (fileReq_bytes (ke_big_endian e) q) = 24"
    "word_at True (fileReq_bytes (ke_big_endian e) q) 0 = fq_src_ip q" "fileReq_bytes (ke_big_endian e) q ! 0 = fq_head q ! 0"
  using assms
  by (simp_all add: flreq_of_def fileReq_bytes_def bytes_fileReq_def convert_flreq_to_host_def word_at_words nth_append)

lemma request_heard:
  assumes "able e" "attends e q dev s" "length (fq_head q) = 4" "fq_head q ! 0 = 1" "1 < ttl"
    and t: "t = c_takes e (fq_src_ip q) (dst, ttl, fileReq_bytes (ke_big_endian e) q) dev s"
  shows "\<exists>m. replies_with (c_my_ip s) (fq_src_ip q) (fq_file_id q) (fq_metric q + 1) (offers (fq_file_id q) s) m
    \<and> unicasts (fq_src_ip q) 0 (drop (length (k_out s)) (k_out t)) = (if offers (fq_file_id q) s = [] then [] else [m])"
proof -
  let ?bs = "fileReq_bytes (ke_big_endian e) q" and ?src = "fq_src_ip q" and ?f = "fq_file_id q"
  have e: "no_oom e" "ke_big_endian e" using assms(1) by (simp_all add: able_def)
  have a: "c_tasks s = []" "KVAL s \<le> 8" "hears_from dev ?src" "c_my_ip s \<noteq> ?src" "c_broadcast_ip s \<noteq> ?src"
      "c_find_flood_id e ?src (fq_seq q) s = None" "distinct (nl_addrs (ctable s))"
    using assms(2) by (simp_all add: attends_def c_tables_ok_def cache_ok_def)
  obtain sk where sk: "g_sock s = Some sk" using assms(2) by (auto simp: attends_def)
  note w = request_words [OF assms(3) e(2)]
  have ok: "fst (valid_cache_packet e (int (length ?bs)) (?bs ! 0) (word_at (ke_big_endian e) ?bs 0) (?bs ! 3) s)"
    using w assms(4) a(4) e(2) by (simp add: valid_cache_packet_def Let_def)
  let ?k = "c_handed_task 1 ?src (dst, ttl, ?bs) s" and ?u = "c_handed 1 24 s"
  have t1: "t = c_cleared s (snd (recv_flreq e ?k ?u))"
    using c_takes_message(1) [OF e(1) a(1,3) _ ok] w(2,4) assms(4) by (simp add: t)
  have "unat ttl < 256" using unsigned_less [where w = ttl] by simp
  then have "take_bit 32 (unat ttl) = unat ttl" by (simp add: take_bit_nat_eq_self)
  then have ttl: "\<not> ck_ttl ?k \<le> 1" using assms(5) by (simp add: not_le word_less_nat_alt unsigned_ucast_eq)
  define q1 where "q1 = q\<lparr>fq_metric := fq_metric q + 1\<rparr>"
  define u1 where "u1 = snd (c_insert_flood_id e ?src (fq_dst_ip q) (fq_seq q) (getcurrtime s + 5000) ?u)"
  define u2 where "u2 = snd (gen_flrep e (c_my_ip s) ?src ?f (fq_metric q + 1) u1)"
  have u1: "k_out u1 = k_out s @ [WakeThread]" "ctable u1 = ctable s" "KVAL u1 = KVAL s" "g_sock u1 = Some sk" "c_my_ip u1 = c_my_ip s"
      "c_broadcast_ip u1 = c_broadcast_ip s"
    using sk by (simp_all add: u1_def c_insert_flood_id_def kmalloc_no_oom [OF e(1)])
  have "snd (recv_flreq e ?k ?u) = snd (forward_flreq e q1 (sint (ck_ttl ?k)) u2)"
    using ttl a(6) u1(5) by (simp add: recv_flreq_def flreq_of_def [symmetric] w q1_def Let_def u1_def [symmetric] u2_def)
  moreover have "c_broadcast_ip u2 \<noteq> ?src"
    using cv_generators(6) [OF ce.refl [of e u1]] u1(6) a(5) by (simp add: u2_def c_evolves_def same_params_def)
  ultimately obtain evs' where f: "k_out (snd (recv_flreq e ?k ?u)) = k_out u2 @ evs'" "\<And>t. unicasts ?src t evs' = []"
    using c_local_broadcast_out [of u2 ?src e] by (fastforce simp: forward_flreq_def)
  have off: "offers ?f u1 = offers ?f s" by (simp add: offers_def u1)
  obtain evs where g: "k_out u2 = k_out u1 @ evs" "if offers ?f s = [] then evs = [] else
      \<exists>m. replies_with (c_my_ip s) ?src ?f (fq_metric q + 1) (offers ?f s) m \<and> evs = [SetTtl sk 10, SendMsg sk ?src (snd (snd m))]"
    using gen_flrep_out [OF assms(1) u1(4), of "c_my_ip s" ?src ?f "fq_metric q + 1"] a(2,7) u1(2,3) unfolding off u2_def by auto
  have "k_out t = k_out s @ WakeThread # evs @ evs'" using f(1) g(1) u1(1) by (simp add: t1 c_cleared_def)
  moreover have "\<exists>m. replies_with (c_my_ip s) ?src ?f (fq_metric q + 1) (offers ?f s) m"
    unfolding replies_with_def by (rule exI, rule exI [of _ "[2, 0, 0]"]) simp
  ultimately show ?thesis using g(2) f(2) by (auto simp: replies_with_def split: if_splits)
qed

section \<open>An answer comes in\<close>

definition reply_info :: "u32 \<Rightarrow> u32 \<Rightarrow> u32 \<Rightarrow> u32 list \<Rightarrow> fileRepInfo" where
  "reply_info f ip dist frs =
     \<lparr>ri_file_id = f, ri_dst_ip = ip, ri_dist = dist, ri_map = frs, ri_frag_count = of_nat (length frs), ri_expired = 0\<rparr>"

lemma reply_words:
  assumes "length h = 3"
  shows "word_at True (file_reply h src dst f dist frs) 0 = src" "word_at True (file_reply h src dst f dist frs) 2 = f"
    "word_at True (file_reply h src dst f dist frs) 3 = dist" "file_reply h src dst f dist frs ! 3 = of_nat (length frs)"
    "file_reply h src dst f dist frs ! 0 = h ! 0"
    "map (\<lambda>i. word_at True (file_reply h src dst f dist frs) (4 + i)) [0 ..< length frs] = frs"
proof -
  have b: "file_reply h src dst f dist frs = (h @ [of_nat (length frs)]) @ words_bytes True ([src, dst, f, dist] @ frs)"
    by (simp add: file_reply_def fileRep_bytes_def)
  have w: "word_at True (file_reply h src dst f dist frs) i = ([src, dst, f, dist] @ frs) ! i" if "i < 4 + length frs" for i
    unfolding b by (rule word_at_words) (use assms that in simp_all)
  show "word_at True (file_reply h src dst f dist frs) 0 = src" "word_at True (file_reply h src dst f dist frs) 2 = f"
    "word_at True (file_reply h src dst f dist frs) 3 = dist" by (simp_all add: w)
  show "file_reply h src dst f dist frs ! 3 = of_nat (length frs)" "file_reply h src dst f dist frs ! 0 = h ! 0"
    unfolding b using assms by (simp_all add: nth_append)
  show "map (\<lambda>i. word_at True (file_reply h src dst f dist frs) (4 + i)) [0 ..< length frs] = frs"
    by (rule nth_equalityI) (simp_all add: w nth_append)
qed

lemma create_rinfo_reply:
  assumes "able e" "length h = 3" "length frs \<le> 8"
  shows "snd (create_rinfo e (file_reply h src dst f dist frs) s) =
    insert_rinfo (k_allocs s, reply_info f src dist frs) (snd (kmalloc e s))"
proof -
  have e: "no_oom e" "ke_big_endian e" using assms(1) by (simp_all add: able_def)
  have n: "unat (of_nat (length frs) :: u8) = length frs" using assms(3) by (simp add: unat_of_nat)
  have c: "unat (ucast (of_nat (length frs) :: u8) :: u32) = length frs"
    using assms(3) by (simp add: unsigned_ucast_eq n take_bit_nat_eq_self)
  then have "(ucast (of_nat (length frs) :: u8) :: u32) = of_nat (length frs)" by (metis word_of_nat_eq_iff of_nat_unat ucast_id)
  moreover have "nat (sint (ucast (of_nat (length frs) :: u8) :: u32)) = length frs"
    using small_count [of "ucast (of_nat (length frs) :: u8)"] c assms(3) by linarith
  ultimately show ?thesis using assms(3) reply_words [OF assms(2), of src dst f dist frs] e
    by (simp add: create_rinfo_def Let_def bytes_fileRep_def fileRep_frag_def kmalloc_no_oom reply_info_def)
qed

text \<open>The timer that starts the fetching.\<close>

definition fetch_timer :: "u32 \<Rightarrow> c_state \<Rightarrow> bool" where
  "fetch_timer f s = (\<exists>k \<in> set (nl_vals (c_timers s)). ck_type k = TASK_FRAG_REQ_SEND \<and> ck_file_id k = f)"

lemma start_timer_fields:
  assumes "no_oom e" "t = c_update_timer_queue e (snd (c_insert_timer e 8 d ip f g s))"
  shows "rinfo t = rinfo s" "ctable t = ctable s" "set (nl_vals (c_timers s)) \<subseteq> set (nl_vals (c_timers t))" "fetch_timer f t"
proof -
  define x where "x = (c_new_task 8 (getcurrtime s))
    \<lparr>ck_src_ip := ip, ck_dst_ip := ip, ck_file_id := f, ck_frag_id := g, ck_time := getcurrtime s + ucast d\<rparr>"
  have t: "rinfo t = rinfo s" "ctable t = ctable s" "c_timers t = link_timer e ck_time (k_allocs s, x) (c_timers s)"
    using assms by (simp_all add: c_insert_timer_def c_create_task_def kmalloc_no_oom c_queue_timer_def getcurrtime_def x_def)
  show "rinfo t = rinfo s" "ctable t = ctable s" by (rule t)+
  show "set (nl_vals (c_timers s)) \<subseteq> set (nl_vals (c_timers t))" by (auto simp: t nl_vals_def)
  have "ck_type x = 8" "ck_file_id x = f" by (simp_all add: x_def c_new_task_def)
  then show "fetch_timer f t" by (auto simp: fetch_timer_def t nl_vals_def)
qed

lemma reply_heard:
  assumes "able e" "c_tasks s = []" "hears_from dev ip" "replies_with ip (c_my_ip s) f dist frs m" "length frs \<le> 8"
    and t: "t = c_takes e ip m dev s"
  shows "\<exists>a. rinfo t = (a, reply_info f ip dist frs) # rinfo s" "ctable t = ctable s" "c_tasks t = []" "g_sock t = g_sock s"
    "set (nl_vals (c_timers s)) \<subseteq> set (nl_vals (c_timers t))" "find_rinfo (rinfo s) f = None \<Longrightarrow> fetch_timer f t"
proof -
  have e: "no_oom e" "ke_big_endian e" using assms(1) by (simp_all add: able_def)
  obtain h where h: "length h = 3" "h ! 0 = 2" "m = (c_my_ip s, 10, file_reply h ip (c_my_ip s) f dist frs)"
    using assms(4) by (auto simp: replies_with_def)
  let ?bs = "file_reply h ip (c_my_ip s) f dist frs"
  note w = reply_words [OF h(1), of ip "c_my_ip s" f dist frs]
  have "uint (of_nat (length frs) :: u8) = int (length frs)" using assms(5) by (simp add: uint_nat unat_of_nat)
  then have ok: "fst (valid_cache_packet e (int (length ?bs)) (?bs ! 0) (word_at (ke_big_endian e) ?bs 0) (?bs ! 3) s)"
    using h(1,2) by (simp add: valid_cache_packet_def Let_def w)
  define k where "k = c_handed_task 2 ip (c_my_ip s, 10, ?bs) s"
  define u where "u = c_handed 2 (length ?bs) s"
  have t1: "t = c_cleared s (snd (recv_flrep e k u))"
    using c_takes_message(2) [OF e(1) assms(2,3) _ ok] h by (simp add: t k_def u_def w)
  define u1 where "u1 = (if find_rinfo (rinfo s) f = None
    then c_update_timer_queue e (snd (c_insert_timer e 8 WAIT_FILE_REP_TIME (c_my_ip s) f 0 u)) else u)"
  have u: "rinfo u = rinfo s" "ctable u = ctable s" "c_timers u = c_timers s" "c_tasks u = []" "g_sock u = g_sock s" "c_my_ip u = c_my_ip s"
    using assms(2) by (simp_all add: u_def)
  have "snd (recv_flrep e k u) = snd (create_rinfo e ?bs u1)"
    by (simp add: recv_flrep_def k_def Let_def u e(2) w(2) bytes_fileRep_def u1_def)
  then have r: "snd (recv_flrep e k u) = insert_rinfo (k_allocs u1, reply_info f ip dist frs) (snd (kmalloc e u1))"
    by (simp add: create_rinfo_reply [OF assms(1) h(1) assms(5)])
  have u1: "rinfo u1 = rinfo s" "ctable u1 = ctable s" "set (nl_vals (c_timers s)) \<subseteq> set (nl_vals (c_timers u1))"
    "find_rinfo (rinfo s) f = None \<Longrightarrow> fetch_timer f u1"
    using start_timer_fields [OF e(1) refl, where s = u] u by (simp_all add: u1_def)
  have t2: "rinfo t = (k_allocs u1, reply_info f ip dist frs) # rinfo u1" "ctable t = ctable u1" "c_timers t = c_timers u1"
    by (simp_all add: t1 r c_cleared_def insert_rinfo_def kmalloc_no_oom [OF e(1)])
  show "\<exists>a. rinfo t = (a, reply_info f ip dist frs) # rinfo s" "ctable t = ctable s"
    "set (nl_vals (c_timers s)) \<subseteq> set (nl_vals (c_timers t))" "find_rinfo (rinfo s) f = None \<Longrightarrow> fetch_timer f t"
    using u1 by (simp_all add: t2 fetch_timer_def)
  show "c_tasks t = []" "g_sock t = g_sock s"
    using cv_selectors(7) [OF ce.refl [of e u], of k] u by (simp_all add: t1 c_cleared_def c_evolves_def same_params_def)
qed

section \<open>The retrieval\<close>

text \<open>The neighbours that hold something of the file, and what they know about it.\<close>

definition holders :: "u32 \<Rightarrow> neighbour list \<Rightarrow> neighbour list" where
  "holders f ns = filter (\<lambda>n. offers f (nb_state n) \<noteq> []) ns"

definition answer_info :: "fileReq \<Rightarrow> neighbour \<Rightarrow> fileRepInfo" where
  "answer_info q n = reply_info (fq_file_id q) (c_my_ip (nb_state n)) (fq_metric q + 1) (offers (fq_file_id q) (nb_state n))"

lemma live_reply_info [simp]: "live_reply f (reply_info f ip d frs)"
  by (simp add: live_reply_def reply_info_def)

lemma frags_reply_info [simp]: "length frs \<le> 8 \<Longrightarrow> frags (reply_info f ip d frs) = frs"
  by (simp add: frags_def reply_info_def unat_of_nat)

lemma gathered:
  assumes "able e" "c_tables_ok s" "c_tasks s = []" "c_my_ip s = fq_src_ip q"
    and "length (fq_head q) = 4" "fq_head q ! 0 = 1" "1 < ttl"
    and "\<forall>n \<in> set ns. attends e q (nb_dev n) (nb_state n) \<and> hears_from dev (c_my_ip (nb_state n))"
    and t: "t = gather e (dst, ttl, fileReq_bytes (ke_big_endian e) q) dev ns s"
  shows "live_replies (fq_file_id q) t = answer_info q ` set (holders (fq_file_id q) ns) \<union> live_replies (fq_file_id q) s
    \<and> ctable t = ctable s \<and> c_tables_ok t \<and> KVAL t = KVAL s \<and> c_my_ip t = c_my_ip s \<and> g_sock t = g_sock s
    \<and> (fetch_timer (fq_file_id q) s \<or> live_replies (fq_file_id q) s = {} \<and> holders (fq_file_id q) ns \<noteq> [] \<longrightarrow> fetch_timer (fq_file_id q) t)"
  using assms(2-4,8) t
proof (induction ns arbitrary: s)
  case Nil
  then show ?case by (simp add: gather_def holders_def)
next
  case (Cons n ns)
  let ?f = "fq_file_id q" and ?m = "(dst, ttl, fileReq_bytes (ke_big_endian e) q)" and ?n = "nb_state n"
  have n: "attends e q (nb_dev n) ?n" "hears_from dev (c_my_ip ?n)" using Cons.prems(4) by simp_all
  then have l: "length (offers ?f ?n) \<le> 8" using length_offers [of ?f ?n] by (auto simp: attends_def)
  obtain m where m: "replies_with (c_my_ip ?n) (c_my_ip s) ?f (fq_metric q + 1) (offers ?f ?n) m"
    "answers_of e (c_my_ip s) ?m n = (if offers ?f ?n = [] then [] else [(c_my_ip ?n, m)])"
    using request_heard [OF assms(1) n(1) assms(5-7) refl, of dst] Cons.prems(3) by (auto simp: answers_of_def Let_def)
  show ?case
  proof (cases "offers ?f ?n = []")
    case True
    then have "t = gather e ?m dev ns s" using Cons.prems(5) m(2) by (simp add: gather_def)
    then show ?thesis using Cons.IH [OF Cons.prems(1-3)] Cons.prems(4) True by (simp add: holders_def)
  next
    case False
    define s1 where "s1 = c_takes e (c_my_ip ?n) m dev s"
    note r = reply_heard [OF assms(1) Cons.prems(2) n(2) m(1) l s1_def]
    note k = c_takes_keeps [OF s1_def]
    have "t = gather e ?m dev ns s1" using Cons.prems(5) m(2) False k(2) by (simp add: gather_def s1_def)
    note IH = Cons.IH [OF k(4) [OF Cons.prems(1)] r(3) _ _ this]
    have live: "live_replies ?f s1 = insert (answer_info q n) (live_replies ?f s)"
      using r(1) by (auto simp: live_replies_def answer_info_def)
    have "live_replies ?f s = {} \<Longrightarrow> find_rinfo (rinfo s) ?f = None"
      by (auto simp: live_replies_def find_rinfo_def nl_find_None)
    then have "fetch_timer ?f s \<or> live_replies ?f s = {} \<Longrightarrow> fetch_timer ?f s1"
      using r(5,6) by (auto simp: fetch_timer_def)
    then show ?thesis using IH Cons.prems(3,4) k(1,2) r(2,4) live False by (auto simp: holders_def)
  qed
qed

section \<open>The requests for the fragments\<close>

lemma count_request_out: "\<exists>evs. k_out (count_request e (\<lambda>s. s) d f g s) = k_out s @ evs"
proof -
  have send: "\<exists>evs. k_out (snd (c_send_message e ip ttl dat u)) = k_out u @ evs" for ip ttl dat u
    by (auto simp: c_send_message_def Let_def emit_def fault_def split: option.split)
  have g: "\<exists>evs. k_out (snd (gen_exchReq e a d f g u)) = k_out u @ evs" for a u
    by (auto simp: gen_exchReq_def kmalloc_def c_local_broadcast_def emit_def fault_def Let_def split: option.split)
  have t: "k_out (snd (c_insert_timer e 9 w d f g u)) = k_out u" for w u
    by (simp add: c_insert_timer_def c_create_task_def kmalloc_def c_queue_timer_def)
  have a: "\<exists>evs. k_out (c_update_timer_queue e u) = k_out u @ evs" for u
    by (auto simp: c_update_timer_queue_def arm_timer_def emit_def Let_def split: list.split)
  have p: "k_out (creq_upd p h u) = k_out u" for p h u by (simp add: creq_upd_def fault_def split: option.split)
  then have c: "k_out (snd (update_count p u)) = k_out u" "k_out (snd (flush_count p u)) = k_out u" for p u
    by (simp_all add: update_count_def flush_count_def)
  have n: "k_out (snd (create_creq e f g s)) = k_out s" by (simp add: create_creq_cases)
  define s1 where "s1 = snd (flush_count (map_option fst (find_creq f g s)) s)"
  define s2 where "s2 = snd (gen_exchReq e (c_my_ip s1) d f g s1)"
  define s3 where "s3 = snd (c_insert_timer e 9 WAIT_EXCH_REP_TIME d f g s2)"
  obtain evs evs' where "k_out s2 = k_out s1 @ evs" "k_out (c_update_timer_queue e s3) = k_out s3 @ evs'"
    using g [of "c_my_ip s1" s1] a [of s3] by (auto simp: s2_def)
  moreover have "k_out s1 = k_out s" "k_out s3 = k_out s2" by (simp_all add: s1_def c s3_def t)
  ultimately have "k_out (c_update_timer_queue e s3) = k_out s @ evs @ evs'" by simp
  then show ?thesis
    by (auto simp: count_request_def Let_def case_prod_beta n c s3_def s2_def s1_def)
qed

definition frag_asked :: "kenv \<Rightarrow> u32 \<Rightarrow> u32 \<Rightarrow> u32 \<times> u32 \<Rightarrow> kevent list \<Rightarrow> bool" where
  "frag_asked e src f p evs = (\<exists>sk h. length h = 4 \<and> h ! 0 = FRAG_REQ_ORI_MESSAGE
     \<and> SendMsg sk (fst p) (fragReq_bytes (ke_big_endian e)
         \<lparr>fg_head = h, fg_src_ip = src, fg_dst_ip = fst p, fg_file_id = f, fg_frag_id = snd p\<rparr>) \<in> set evs)"

lemma frag_asked_append: "frag_asked e src f p evs \<or> frag_asked e src f p evs' \<Longrightarrow> frag_asked e src f p (evs @ evs')"
  unfolding frag_asked_def set_append by blast

lemma request_frag_out:
  assumes "able e" "g_sock u = Some sk"
  shows "\<exists>evs. k_out (request_frag e f p u) = k_out u @ evs \<and> frag_asked e (c_my_ip u) f p evs"
proof -
  have e: "no_oom e" "ke_big_endian e" using assms(1) by (simp_all add: able_def)
  define h where "h = new_head e (k_allocs u) FRAG_REQ_ORI_MESSAGE"
  define m where "m = fragReq_bytes (ke_big_endian e)
     \<lparr>fg_head = h, fg_src_ip = c_my_ip u, fg_dst_ip = fst p, fg_file_id = f, fg_frag_id = snd p\<rparr>"
  define u1 where "u1 = snd (gen_frreq e (c_my_ip u) (fst p) f (snd p) u)"
  have h: "length h = 4" "h ! 0 = 3" by (simp_all add: h_def new_head_def)
  have k: "g_sock (snd (kmalloc e u)) = Some sk" "k_out (snd (kmalloc e u)) = k_out u"
    using assms(2) by (simp_all add: kmalloc_no_oom [OF e(1)])
  have "u1 = snd (c_send_message e (fst p) 10 m (snd (kmalloc e u)))"
    using e(2) by (simp add: u1_def gen_frreq_def kmalloc_no_oom [OF e(1)] m_def h_def)
  moreover have "length m \<le> 52" using h(1) by (simp add: m_def fragReq_bytes_def)
  ultimately have o: "k_out u1 = k_out u @ [SetTtl sk 10, SendMsg sk (fst p) m]"
    using c_send_message_out [OF assms(1) k(1), of 10] k(2) by simp
  have "request_frag e f p u = (if g_act u1 = ''on'' then count_request e (\<lambda>s. s) (fst p) f (snd p) u1 else u1)"
    by (simp add: request_frag_def Let_def case_prod_beta u1_def)
  then obtain evs where "k_out (request_frag e f p u) = k_out u @ ([SetTtl sk 10, SendMsg sk (fst p) m] @ evs)"
    using count_request_out [of e "fst p" f "snd p" u1] o by (cases "g_act u1 = ''on''") auto
  then show ?thesis using h by (auto simp: frag_asked_def m_def)
qed

lemma requests_out:
  assumes "able e" "g_sock u = Some sk" "c_my_ip u = src"
  shows "\<exists>evs. k_out (fold (request_frag e f) ps u) = k_out u @ evs \<and> (\<forall>p \<in> set ps. frag_asked e src f p evs)"
  using assms(2,3)
proof (induction ps arbitrary: u)
  case (Cons p ps)
  obtain evs where p: "k_out (request_frag e f p u) = k_out u @ evs" "frag_asked e src f p evs"
    using request_frag_out [OF assms(1) Cons.prems(1), of f p] Cons.prems(2) by blast
  have "g_sock (request_frag e f p u) = Some sk" "c_my_ip (request_frag e f p u) = src"
    using cv_request_frag [OF ce.refl [of e u], of f p] Cons.prems by (simp_all add: c_evolves_def same_params_def)
  from Cons.IH [OF this] obtain evs' where
    "k_out (fold (request_frag e f) ps (request_frag e f p u)) = k_out (request_frag e f p u) @ evs'"
    "\<forall>p \<in> set ps. frag_asked e src f p evs'" by blast
  then show ?case using p by (intro exI [of _ "evs @ evs'"]) (auto intro: frag_asked_append)
qed simp

section \<open>Retrieving a file\<close>


text \<open>Two neighbours of \<open>cnode\<close> hold fragments of file 2, of which it has the first.\<close>

definition cdev :: "u32 \<Rightarrow> netdev" where
  "cdev ip = wlan0\<lparr>nd_ip_ptr := Some (Some ip)\<rparr>"

definition holder :: "u32 \<Rightarrow> u32 list \<Rightarrow> neighbour" where
  "holder ip frs =
     \<lparr>nb_dev = cdev ip,
      nb_state = c_unloaded\<lparr>k_allocs := 20, c_my_ip := ip, c_broadcast_ip := - 1, KVAL := 3, g_sock := Some 7,
        ctable := zip [0 ..< length frs] (map (\<lambda>g. frag_entry 2 g 0 0) frs), ct_len := int (length frs)\<rparr>\<rparr>"

definition ask_file :: fileReq where
  "ask_file = \<lparr>fq_head = [1, 0, 0, 0], fq_src_ip = 0xc0a80001, fq_dst_ip = - 1, fq_file_id = 2, fq_seq = 1, fq_metric = 0\<rparr>"


end
