(* ===== verification/CacheProps.thy ===== *)
theory CacheProps
  imports CacheDemo
begin

unbundle bit_operations_syntax

text \<open>
  The properties of the caching module: what its reachable states keep, which fragments it takes in
  and evicts, whom it asks for fragments, and when it starts an exchange.
\<close>

section \<open>Reachable states\<close>

text \<open>C21. In every state the caching module reaches after loading, through any packets, timers and turns of
  the thread and whatever allocations fail, the tables are lists without repeated nodes, the
  length variable is the length, no fragment has two request counters, the table has
  never outgrown BUF_SIZE or what was loaded, and the node is the service centre of
  exactly the fragments it found in its directory.\<close>

theorem cache_reachable:
  assumes "c_init_module e (Some act) kval nval theta buf dev sock names s = (r, s0)" "cache_reach e s0 t"
  shows "distinct (nl_addrs (ctable t)) \<and> ct_len t = int (length (ctable t))
    \<and> ct_len t \<le> max buf (ct_len s0) \<and> centres (ctable t) = centres (ctable s0)
    \<and> distinct (map (\<lambda>r. (rl_file_id r, rl_frag_id r)) (nl_vals (crlist t)))
    \<and> distinct (nl_addrs (rinfo t)) \<and> distinct (nl_addrs (extable t))
    \<and> distinct (nl_addrs (c_timers t)) \<and> distinct (nl_addrs (c_floods t))"
proof -
  have "c_tables_ok s0" "BUF_SIZE s0 = buf"
    using init_module_c_tables [OF refl, of e act kval nval theta buf dev sock names s] assms(1) by simp_all
  then have "c_tables_ok t" "centres (ctable t) = centres (ctable s0)" "ct_len t \<le> max buf (ct_len s0)"
    using reach_lasts [OF assms(2)] by (simp_all add: table_evolves_def)
  then show ?thesis by (simp add: c_tables_ok_def cache_ok_def reqs_ok_def nodes_ok_def)
qed

definition c_demo_load :: "int \<times> c_state" where
  "c_demo_load = c_init_module demo_env (Some ''on'') 3 5 3 2 (Some wlan0) (Inr 77) (Some [''1-1'', ''4-12'']) c_unloaded"

theorem cache_reachable_witness:
  "centres (ctable (c_thread_round demo_env (c_timer_queue_signal demo_env (snd c_demo_load)))) = [(4, 12), (1, 1)]"
proof -
  have l: "c_init_module demo_env (Some ''on'') 3 5 3 2 (Some wlan0) (Inr 77) (Some [''1-1'', ''4-12'']) c_unloaded
      = (fst c_demo_load, snd c_demo_load)" by (simp add: c_demo_load_def)
  have r: "cache_reach demo_env (snd c_demo_load)
      (c_thread_round demo_env (c_timer_queue_signal demo_env (snd c_demo_load)))"
    by (rule creach_step [OF creach_step [OF creach_refl cstep_timer] cstep_thread])
  have "centres (ctable (snd c_demo_load)) = [(4, 12), (1, 1)]" by code_simp
  then show ?thesis using cache_reachable [OF l r] by simp
qed

section \<open>Taking fragments in\<close>

lemma count_find_upto:
  assumes "distinct (nl_addrs ns)"
  shows "k - 1 \<le> int (length (find_upto (nat k) P ns)) \<longleftrightarrow> k - 1 \<le> int (length (filter (\<lambda>n. P (snd n)) ns))"
  by (auto simp: find_upto_filter [OF assms])

lemma min_loop_least:
  assumes "\<forall>m \<in> set cs. ce_isServiceCenter (snd m) = 0 \<or> ce_isServiceCenter (snd m) = 1"
  shows "\<exists>c. ((min_loop cs a r, c) \<in> set cs \<and> ce_isServiceCenter c = 0 \<and> ce_refs c < r
         \<or> min_loop cs a r = a \<and> ce_refs c = r)
       \<and> (\<forall>m \<in> set cs. ce_isServiceCenter (snd m) = 0 \<longrightarrow> ce_refs c \<le> ce_refs (snd m))"
  using assms
proof (induction cs a r rule: min_loop.induct)
  case (1 a r)
  show ?case by (rule exI [of _ "\<lparr>ce_file_id = 0, ce_frag_id = 0, ce_refs = r, ce_isServiceCenter = 0\<rparr>"]) simp
next
  case (2 b c cs a r)
  show ?case
  proof (cases "ce_refs c < r \<and> ce_isServiceCenter c = 0")
    case True
    then obtain d where d: "(min_loop cs b (ce_refs c), d) \<in> set cs \<and> ce_isServiceCenter d = 0 \<and> ce_refs d < ce_refs c
         \<or> min_loop cs b (ce_refs c) = b \<and> ce_refs d = ce_refs c"
       "\<forall>m \<in> set cs. ce_isServiceCenter (snd m) = 0 \<longrightarrow> ce_refs d \<le> ce_refs (snd m)"
      using 2 by auto
    show ?thesis
    proof (cases "min_loop cs b (ce_refs c) = b \<and> ce_refs d = ce_refs c")
      case same: True
      then show ?thesis using True d(2) by (intro exI [of _ c]) auto
    next
      case False
      then show ?thesis using True d by (intro exI [of _ d]) auto
    qed
  next
    case False
    then obtain d where d: "(min_loop cs a r, d) \<in> set cs \<and> ce_isServiceCenter d = 0 \<and> ce_refs d < r
         \<or> min_loop cs a r = a \<and> ce_refs d = r"
       "\<forall>m \<in> set cs. ce_isServiceCenter (snd m) = 0 \<longrightarrow> ce_refs d \<le> ce_refs (snd m)"
      using 2 by auto
    have "ce_refs d \<le> r" using d(1) by auto
    then show ?thesis using False d by (intro exI [of _ d]) (auto simp: not_less)
  qed
qed

text \<open>The entry that has to go: of those that may, one used least.\<close>

definition least_used :: "cache_entry nodes \<Rightarrow> addr \<Rightarrow> bool" where
  "least_used ns a = (\<exists>c. (a, c) \<in> set ns \<and> ce_isServiceCenter c = 0
     \<and> (\<forall>d \<in> set (nl_vals ns). ce_isServiceCenter d = 0 \<longrightarrow> ce_refs c \<le> ce_refs d))"

lemma victim_cases:
  assumes "flags_ok ns"
  shows "case victim ns of None \<Rightarrow> \<forall>c \<in> set (nl_vals ns). ce_isServiceCenter c = 1 | Some a \<Rightarrow> least_used ns a"
proof (cases "dropWhile (\<lambda>n. ce_isServiceCenter (snd n) = 1) ns")
  case Nil
  then have "\<forall>m \<in> set ns. ce_isServiceCenter (snd m) = 1" by simp
  moreover have "victim ns = None" unfolding victim_def Nil by simp
  ultimately show ?thesis by (simp add: nl_vals_def)
next
  case (Cons n rest)
  obtain a c where n: "n = (a, c)" by (cases n)
  let ?pre = "takeWhile (\<lambda>n. ce_isServiceCenter (snd n) = 1) ns"
  have ns: "ns = ?pre @ (a, c) # rest" "ce_isServiceCenter c \<noteq> 1"
    using Cons n by (simp_all add: dropWhile_eq_Cons_conv)
  have pre: "\<forall>m \<in> set ?pre. ce_isServiceCenter (snd m) = 1" by (meson set_takeWhileD)
  have f: "\<forall>m \<in> set ns. ce_isServiceCenter (snd m) = 0 \<or> ce_isServiceCenter (snd m) = 1"
    using assms by (simp add: flags_ok_def nl_vals_def)
  have c: "(a, c) \<in> set ns" "set rest \<subseteq> set ns" by (subst ns(1), simp)+ (subst ns(1), auto)
  then have c0: "ce_isServiceCenter c = 0" using f ns(2) by fastforce
  obtain d where d: "(min_loop rest a (ce_refs c), d) \<in> set rest \<and> ce_isServiceCenter d = 0 \<and> ce_refs d < ce_refs c
         \<or> min_loop rest a (ce_refs c) = a \<and> ce_refs d = ce_refs c"
       "\<forall>m \<in> set rest. ce_isServiceCenter (snd m) = 0 \<longrightarrow> ce_refs d \<le> ce_refs (snd m)"
    using min_loop_least [of rest a "ce_refs c"] f c(2) by blast
  have le: "ce_refs d \<le> ce_refs c" using d(1) by auto
  have "\<forall>m \<in> set ns. ce_isServiceCenter (snd m) = 0 \<longrightarrow> ce_refs d \<le> ce_refs (snd m)"
    using pre d(2) le by (subst ns(1)) auto
  then have "least_used ns (min_loop rest a (ce_refs c))"
    unfolding least_used_def nl_vals_def using d(1) c c0 by (cases "min_loop rest a (ce_refs c) = a \<and> ce_refs d = ce_refs c") auto
  then show ?thesis using Cons n by (simp add: victim_def)
qed

lemma victim_None: "victim cs = None \<Longrightarrow> \<forall>c \<in> set (nl_vals cs). ce_isServiceCenter c = 1"
  by (auto simp: victim_def nl_vals_def del: dropWhile_eq_Nil_conv dest: iffD1 [OF dropWhile_eq_Nil_conv]
      split: list.splits prod.splits)

lemma retrieve_frag_full:
  assumes "\<not> KVAL s - 1 \<le> int (length (find_upto (nat (KVAL s)) (\<lambda>c. ce_file_id c = f) (ctable s)))" "BUF_SIZE s \<le> ct_len s"
  shows "retrieve_frag e dst f g s =
    (case victim (ctable s) of
       None \<Rightarrow> (1, s\<lparr>cPrefetch := cPrefetch s + 1\<rparr>)
     | Some v \<Rightarrow> (0, snd (create_cache e f g 0 (remove_cache v (s\<lparr>cPrefetch := cPrefetch s + 1\<rparr>)))))"
  using assms
  by (simp add: retrieve_frag_def victim_def del: dropWhile_eq_Nil_conv split: list.splits prod.splits)

lemma retrieve_frag_cases:
  assumes "c_tables_ok s" "(r, t) = retrieve_frag e dst f g s"
    and "new = (k_allocs s, \<lparr>ce_file_id = f, ce_frag_id = g, ce_refs = 0, ce_isServiceCenter = 0\<rparr>)"
    and "added = (if ke_kmalloc_ok e (k_allocs s) then [new] else [])"
    and "enough = (KVAL s - 1 \<le> int (length (filter (\<lambda>c. ce_file_id c = f) (nl_vals (ctable s)))))"
    and "stuck = (BUF_SIZE s \<le> int (length (ctable s)) \<and> (\<forall>c \<in> set (nl_vals (ctable s)). ce_isServiceCenter c = 1))"
  shows "r = (if enough \<or> stuck then 1 else 0)
    \<and> (enough \<longrightarrow> t = s)
    \<and> (\<not> enough \<and> stuck \<longrightarrow> ctable t = ctable s)
    \<and> (\<not> enough \<and> int (length (ctable s)) < BUF_SIZE s \<longrightarrow> ctable t = added @ ctable s)
    \<and> (\<not> enough \<and> \<not> stuck \<and> BUF_SIZE s \<le> int (length (ctable s)) \<longrightarrow>
         (\<exists>a. least_used (ctable s) a \<and> ctable t = added @ nl_del a (ctable s) \<and> a \<notin> k_live t))"
proof -
  have ok: "distinct (nl_addrs (ctable s))" "ct_len s = int (length (ctable s))" "flags_ok (ctable s)"
    "\<forall>a \<in> set (nl_addrs (ctable s)). a < k_allocs s"
    using assms(1) by (simp_all add: c_tables_ok_def cache_ok_def)
  have count: "(KVAL s - 1 \<le> int (length (find_upto (nat (KVAL s)) (\<lambda>c. ce_file_id c = f) (ctable s)))) = enough"
    unfolding count_find_upto [OF ok(1)] assms(5) by (simp add: nl_vals_def filter_map o_def)
  have room: "snd (create_cache e f g 0 u) = u\<lparr>k_allocs := Suc (k_allocs u), k_live := k_live u \<union> set (nl_addrs added),
      ctable := added @ ctable u, ct_len := ct_len u + int (length added)\<rparr>" if "k_allocs u = k_allocs s" for u
    using that by (simp add: create_cache_cases assms(3,4))
  show ?thesis
  proof (cases enough)
    case True
    then show ?thesis using assms(2) count by (simp add: retrieve_frag_def)
  next
    case less: False
    show ?thesis
    proof (cases "BUF_SIZE s \<le> int (length (ctable s))")
      case False
      then have "(r, t) = (0, snd (create_cache e f g 0 (s\<lparr>cPrefetch := cPrefetch s + 1\<rparr>)))"
        using assms(2) less count ok(2) by (simp add: retrieve_frag_def)
      then show ?thesis using less False by (simp add: room assms(6))
    next
      case full: True
      show ?thesis
      proof (cases "victim (ctable s)")
        case None
        then show ?thesis using assms(2) less full count ok(2) victim_None by (simp add: retrieve_frag_full assms(6))
      next
        case (Some v)
        have v: "least_used (ctable s) v" using victim_cases [OF ok(3)] Some by simp
        then have "\<not> stuck" "v < k_allocs s" using ok(4) by (force simp: least_used_def assms(6) nl_vals_def nl_addrs_def)+
        then show ?thesis using assms(2) less full count ok(2) Some v
          by (auto simp: retrieve_frag_full room remove_cache_def kfree_def fault_def assms(3,4))
      qed
    qed
  qed
qed

text \<open>C23. Taking in a fragment. A node that holds KVAL - 1 fragments of the file, or more, takes no
  further one. Otherwise it makes room if its table is full: it gives up an entry that is not a
  service centre's and that was used no more than any other such entry, or refuses when there is none. The
  new entry goes in front, unused; when no memory is left, the old one is gone all the
  same. Whether the fragment is already there is not looked at.\<close>

theorem retrieve_frag_spec:
  assumes "c_tables_ok s" "(r, t) = retrieve_frag e dst f g s"
    and "new = (k_allocs s, \<lparr>ce_file_id = f, ce_frag_id = g, ce_refs = 0, ce_isServiceCenter = 0\<rparr>)"
    and "added = (if ke_kmalloc_ok e (k_allocs s) then [new] else [])"
    and "enough = (KVAL s - 1 \<le> int (length (filter (\<lambda>c. ce_file_id c = f) (nl_vals (ctable s)))))"
    and "stuck = (BUF_SIZE s \<le> int (length (ctable s)) \<and> (\<forall>c \<in> set (nl_vals (ctable s)). ce_isServiceCenter c = 1))"
  shows "r = (if enough \<or> stuck then 1 else 0)
    \<and> (enough \<longrightarrow> t = s)
    \<and> (\<not> enough \<and> stuck \<longrightarrow> ctable t = ctable s)
    \<and> (\<not> enough \<and> int (length (ctable s)) < BUF_SIZE s \<longrightarrow> ctable t = added @ ctable s)
    \<and> (\<not> enough \<and> \<not> stuck \<and> BUF_SIZE s \<le> int (length (ctable s)) \<longrightarrow>
         (\<exists>a. least_used (ctable s) a \<and> ctable t = added @ nl_del a (ctable s) \<and> a \<notin> k_live t))"
  by (rule retrieve_frag_cases [OF assms])

theorem retrieve_frag_spec_witness:
  "\<exists>a. least_used (ctable cnode) a \<and> a \<notin> k_live (snd (retrieve_frag demo_env 0 7 1 cnode))"
  using retrieve_frag_spec [OF cnode_ok surjective_pairing [symmetric] refl refl refl refl, of demo_env 0 7 1]
  by (auto simp: cdemo_defs)

section \<open>The score\<close>

text \<open>C29. The score a node answers to an exchange request. It is zero when the node holds the fragment or
  KVAL - 1 of its file; otherwise one more than the number of free places, so that a full table still scores one.
  A table that outgrew the buffer by two or more, as one loaded from a large
  directory does, scores above every node that has room: the difference is negative and wraps.\<close>

theorem getScore_spec:
  assumes "c_tables_ok s" "0 \<le> BUF_SIZE s" "BUF_SIZE s < 2 ^ 31 - 1" "length (ctable s) < 2 ^ 31"
    and "held = (\<exists>c \<in> set (nl_vals (ctable s)). ce_file_id c = f \<and> ce_frag_id c = g)"
    and "enough = (KVAL s - 1 \<le> int (length (filter (\<lambda>c. ce_file_id c = f) (nl_vals (ctable s)))))"
  shows "uint (getScore f g s) =
    (if held \<or> enough then 0
     else if int (length (ctable s)) \<le> BUF_SIZE s + 1 then BUF_SIZE s + 1 - int (length (ctable s))
     else 2 ^ 32 - (int (length (ctable s)) - BUF_SIZE s - 1))
    \<and> (\<not> held \<and> \<not> enough \<and> BUF_SIZE s + 1 < int (length (ctable s)) \<longrightarrow> 2 ^ 31 \<le> uint (getScore f g s))"
proof -
  have ok: "distinct (nl_addrs (ctable s))" "ct_len s = int (length (ctable s))"
    using assms(1) by (simp_all add: c_tables_ok_def cache_ok_def)
  have h: "(find_cache_by_fr f g s \<noteq> None) = held"
    using nl_find_None [of "same_frag f g" "ctable s"] by (auto simp: find_cache_by_fr_def assms(5) same_frag_def)
  have c: "(KVAL s - 1 \<le> count_file f s) = enough"
    by (simp add: count_file_def find_upto_filter [OF ok(1)] assms(6) nl_vals_def filter_map o_def)
  have g: "getScore f g s = (if held \<or> enough then 0 else word_of_int (BUF_SIZE s + 1 - int (length (ctable s))))"
    using h c by (simp add: getScore_def ok(2) algebra_simps)
  show ?thesis
  proof (cases "int (length (ctable s)) \<le> BUF_SIZE s + 1")
    case True
    then have "uint (word_of_int (BUF_SIZE s + 1 - int (length (ctable s))) :: u32) = BUF_SIZE s + 1 - int (length (ctable s))"
      using assms(3) by (intro word_of_int_inverse [OF refl]) simp_all
    then show ?thesis using True unfolding g by auto
  next
    case False
    let ?d = "BUF_SIZE s + 1 - int (length (ctable s))"
    have "?d mod 4294967296 = (?d + 4294967296) mod 4294967296" by (rule mod_add_self2 [symmetric])
    also have "\<dots> = ?d + 4294967296" using False assms(2,4) by (intro mod_pos_pos_trivial) simp_all
    finally have "uint (word_of_int ?d :: u32) = ?d + 4294967296" unfolding uint_word_of_int by simp
    then show ?thesis using False assms(2,4) unfolding g by auto
  qed
qed

theorem getScore_spec_witness: "uint (getScore 7 1 (cnode\<lparr>BUF_SIZE := 1\<rparr>)) = 2 ^ 32 - 1"
proof -
  have "c_tables_ok (cnode\<lparr>BUF_SIZE := 1\<rparr>)"
    using cnode_ok by (simp add: c_tables_ok_def cache_ok_def reqs_ok_def)
  then show ?thesis
    using getScore_spec [of "cnode\<lparr>BUF_SIZE := 1\<rparr>", OF _ _ _ _ refl refl, of 7 1] by (simp add: cdemo_defs)
qed

section \<open>Choosing who caches a fragment\<close>

definition better :: "u32 \<times> u32 \<Rightarrow> exchTable \<Rightarrow> u32 \<times> u32" where
  "better best x = (if ex_score x > fst best then (ex_score x, ex_neigh_ip x) else best)"

lemma agent_loop_fold:
  "agent_loop n f g ns best s =
    (foldl better best (map snd (find_upto n (live_answer f g) ns)),
     fold (\<lambda>m s. s\<lparr>extable := nl_upd (fst m) (\<lambda>x. x\<lparr>ex_expired := 1\<rparr>) (extable s)\<rparr>)
       (find_upto n (live_answer f g) ns) s)"
proof (induction n arbitrary: ns best s)
  case (Suc n)
  show ?case
    by (cases "find_extable ns f g") (auto simp: Suc.IH better_def find_extable_def split: option.split)
qed simp

lemma fold_extable:
  "fold (\<lambda>m s. s\<lparr>extable := nl_upd (fst m) F (extable s)\<rparr>) xs s =
   s\<lparr>extable := fold (\<lambda>m. nl_upd (fst m) F) xs (extable s)\<rparr>"
  by (induction xs arbitrary: s) simp_all

lemma fold_nl_upd:
  "distinct (nl_addrs xs) \<Longrightarrow>
   fold (\<lambda>m. nl_upd (fst m) F) xs ns = map (\<lambda>(a, x). (a, if a \<in> set (nl_addrs xs) then F x else x)) ns"
proof (induction xs arbitrary: ns)
  case (Cons m xs)
  then show ?case by (auto simp: nl_upd_def)
qed (simp add: case_prod_beta)

lemma fold_upd_filter:
  assumes "distinct (nl_addrs ns)"
  shows "fold (\<lambda>m. nl_upd (fst m) F) (filter (\<lambda>m. P (snd m)) ns) ns = map (apsnd (\<lambda>x. if P x then F x else x)) ns"
proof -
  have "distinct (nl_addrs (filter (\<lambda>m. P (snd m)) ns))"
    using assms by (simp add: nl_addrs_def distinct_map_filter)
  moreover have "a \<in> set (nl_addrs (filter (\<lambda>m. P (snd m)) ns)) \<longleftrightarrow> P x" if "(a, x) \<in> set ns" for a x
    using that assms by (auto simp: nl_addrs_def dest: eq_key_imp_eq_value [rotated] intro: image_eqI [of _ _ "(a, x)"])
  ultimately show ?thesis by (auto simp: fold_nl_upd)
qed

lemma foldl_better:
  "(foldl better best xs = best \<and> (\<forall>x \<in> set xs. ex_score x \<le> fst best))
   \<or> (\<exists>x \<in> set xs. foldl better best xs = (ex_score x, ex_neigh_ip x) \<and> fst best < ex_score x
        \<and> (\<forall>y \<in> set xs. ex_score y \<le> ex_score x))"
proof (induction xs arbitrary: best)
  case (Cons x xs)
  from Cons.IH [of "better best x"] show ?case
    by (auto simp: better_def not_less split: if_splits)
qed simp

lemma select_agent_cases:
  assumes "c_tables_ok s" "f = ck_file_id k" "g = ck_frag_id k" "own = getScore f g s"
    and "answers = filter (live_answer f g) (nl_vals (extable s))"
    and "t = s\<lparr>extable := map (apsnd (\<lambda>x. if live_answer f g x then x\<lparr>ex_expired := 1\<rparr> else x)) (extable s)\<rparr>"
  shows "((\<forall>x \<in> set answers. ex_score x \<le> own) \<longrightarrow>
      select_agent e k s = (0, snd (retrieve_frag e (ck_dst_ip k) f g t)))
    \<and> ((\<exists>x \<in> set answers. own < ex_score x) \<longrightarrow>
      (\<exists>x \<in> set answers. own < ex_score x \<and> (\<forall>y \<in> set answers. ex_score y \<le> ex_score x)
        \<and> select_agent e k s = (0, if ex_neigh_ip x = c_my_ip s then snd (retrieve_frag e (ck_dst_ip k) f g t)
            else snd (gen_addCache e (ex_neigh_ip x) (ck_dst_ip k) f g t))))"
proof -
  have d: "distinct (nl_addrs (extable s))" using assms(1) by (simp add: c_tables_ok_def nodes_ok_def)
  have m: "map snd (filter (\<lambda>m. live_answer f g (snd m)) (extable s)) = answers"
    by (simp add: assms(5) nl_vals_def filter_map o_def)
  have l: "agent_loop (length (extable s)) f g (extable s) (own, c_my_ip s) s = (foldl better (own, c_my_ip s) answers, t)"
    by (simp add: agent_loop_fold find_upto_filter [OF d] m fold_extable fold_upd_filter [OF d] assms(6))
  have ip: "c_my_ip t = c_my_ip s" by (simp add: assms(6))
  have sel: "select_agent e k s =
      (if snd (foldl better (own, c_my_ip s) answers) \<noteq> c_my_ip s
       then (0, snd (gen_addCache e (snd (foldl better (own, c_my_ip s) answers)) (ck_dst_ip k) f g t))
       else (0, snd (retrieve_frag e (ck_dst_ip k) f g t)))"
    unfolding select_agent_def Let_def assms(2,3) [symmetric] assms(4) [symmetric] l by (simp add: ip)
  from foldl_better [of "(own, c_my_ip s)" answers] show ?thesis
  proof
    assume "foldl better (own, c_my_ip s) answers = (own, c_my_ip s) \<and> (\<forall>x \<in> set answers. ex_score x \<le> fst (own, c_my_ip s))"
    then show ?thesis by (auto simp: sel not_less)
  next
    assume "\<exists>x \<in> set answers. foldl better (own, c_my_ip s) answers = (ex_score x, ex_neigh_ip x)
      \<and> fst (own, c_my_ip s) < ex_score x \<and> (\<forall>y \<in> set answers. ex_score y \<le> ex_score x)"
    then obtain x where x: "x \<in> set answers" "foldl better (own, c_my_ip s) answers = (ex_score x, ex_neigh_ip x)"
      "own < ex_score x" "\<forall>y \<in> set answers. ex_score y \<le> ex_score x" by auto
    then show ?thesis by (auto simp: sel not_le intro!: bexI [of _ x])
  qed
qed

text \<open>The fragment goes to the best bidder. When the time for answers is over, the node compares the scores of all
  live answers for the fragment with its own. If none is higher it keeps the fragment itself, even
  when its own score is zero; otherwise it gives it to a node with the highest score of
  all. Exactly the answers for this fragment are used up.\<close>

theorem select_agent_best:
  assumes "c_tables_ok s" "f = ck_file_id k" "g = ck_frag_id k" "own = getScore f g s"
    and "answers = filter (live_answer f g) (nl_vals (extable s))"
    and "t = s\<lparr>extable := map (apsnd (\<lambda>x. if live_answer f g x then x\<lparr>ex_expired := 1\<rparr> else x)) (extable s)\<rparr>"
  shows "((\<forall>x \<in> set answers. ex_score x \<le> own) \<longrightarrow>
      select_agent e k s = (0, snd (retrieve_frag e (ck_dst_ip k) f g t)))
    \<and> ((\<exists>x \<in> set answers. own < ex_score x) \<longrightarrow>
      (\<exists>x \<in> set answers. own < ex_score x \<and> (\<forall>y \<in> set answers. ex_score y \<le> ex_score x)
        \<and> select_agent e k s = (0, if ex_neigh_ip x = c_my_ip s then snd (retrieve_frag e (ck_dst_ip k) f g t)
            else snd (gen_addCache e (ex_neigh_ip x) (ck_dst_ip k) f g t))))"
  by (rule select_agent_cases [OF assms])

definition exchange_task :: ctask where
  "exchange_task = (c_new_task 9 0)\<lparr>ck_file_id := 7, ck_frag_id := 1, ck_dst_ip := 0xc0a80009\<rparr>"

theorem select_agent_best_witness:
  "\<exists>t. select_agent demo_env exchange_task cnode = (0, snd (gen_addCache demo_env 0xc0a80004 0xc0a80009 7 1 t))"
proof -
  have own: "getScore 7 1 cnode = 1" by code_simp
  have "ck_file_id exchange_task = 7" "ck_frag_id exchange_task = 1" "ck_dst_ip exchange_task = 0xc0a80009"
    by (simp_all add: exchange_task_def c_new_task_def)
  then show ?thesis
    using select_agent_best [OF cnode_ok refl refl refl refl refl, of exchange_task demo_env] own
    by (auto simp: cdemo_defs live_answer_def)
qed

end
