(* ===== verification/Placement.thy ===== *)
theory Placement
  imports CacheHop CacheProps
begin

text \<open>
  The exchange of a fragment end to end: at the threshold a node asks its neighbours for their scores, gathers the answers and,
  when the timer is due, hands the fragment to the best bidder, which takes it into its table, or keeps it. Every
  message goes through the hook, the queue and the thread of its receiver.
\<close>

section \<open>Taking a fragment in\<close>

definition has_enough :: "u32 \<Rightarrow> c_state \<Rightarrow> bool" where
  "has_enough f s = (KVAL s - 1 \<le> int (length (filter (\<lambda>c. ce_file_id c = f) (nl_vals (ctable s)))))"

definition full_of_centres :: "c_state \<Rightarrow> bool" where
  "full_of_centres s = (BUF_SIZE s \<le> int (length (ctable s)) \<and> (\<forall>c \<in> set (nl_vals (ctable s)). ce_isServiceCenter c = 1))"

text \<open>How the table of t differs from that of s when the fragment came to s.\<close>

definition placed :: "u32 \<Rightarrow> u32 \<Rightarrow> c_state \<Rightarrow> c_state \<Rightarrow> bool" where
  "placed f g s t = (\<exists>a v. ctable t =
     (if has_enough f s \<or> full_of_centres s then ctable s
      else (a, \<lparr>ce_file_id = f, ce_frag_id = g, ce_refs = 0, ce_isServiceCenter = 0\<rparr>) #
        (if int (length (ctable s)) < BUF_SIZE s then ctable s else nl_del v (ctable s)))
     \<and> (has_enough f s \<or> full_of_centres s \<or> int (length (ctable s)) < BUF_SIZE s \<or> least_used (ctable s) v))"

lemma placed_cong:
  assumes "ctable u = ctable s" "KVAL u = KVAL s" "BUF_SIZE u = BUF_SIZE s"
  shows "placed f g u t = placed f g s t"
  by (simp add: placed_def has_enough_def full_of_centres_def assms)

lemma retrieve_placed:
  assumes "no_oom e" "c_tables_ok s"
  shows "placed f g s (snd (retrieve_frag e d f g s))"
proof -
  have "ke_kmalloc_ok e (k_allocs s)" using assms(1) by (simp add: no_oom_def)
  then show ?thesis
    using retrieve_frag_cases [OF assms(2) prod.collapse refl refl refl refl, of e d f g]
    unfolding placed_def has_enough_def full_of_centres_def
    by (cases "has_enough f s"; cases "full_of_centres s"; cases "int (length (ctable s)) < BUF_SIZE s")
      (auto simp: has_enough_def full_of_centres_def not_less)
qed

lemma getScore_cong:
  assumes "ctable u = ctable s" "KVAL u = KVAL s" "BUF_SIZE u = BUF_SIZE s" "c_tables_ok s" "c_tables_ok u"
  shows "getScore f g u = getScore f g s"
  using assms(4,5)
  by (simp add: getScore_def find_cache_by_fr_def count_file_def assms(1-3) c_tables_ok_def cache_ok_def)

lemma positive_score: "0 < getScore f g s \<Longrightarrow> find_cache_by_fr f g s = None"
  by (cases "find_cache_by_fr f g s") (simp_all add: getScore_def)

section \<open>The messages\<close>

definition asks_score :: "u32 \<Rightarrow> u32 \<Rightarrow> u32 \<Rightarrow> u32 \<Rightarrow> u32 \<Rightarrow> u32 \<times> u8 \<times> u8 list \<Rightarrow> bool" where
  "asks_score bcast src d f g m = (\<exists>h. length h = 4 \<and> h ! 0 = EXCHANGE_REQ_MESSAGE \<and> m = (bcast, 1,
     exchReq_bytes True \<lparr>eq_head = h, eq_src_ip = src, eq_dst_ip = d, eq_file_id = f, eq_frag_id = g\<rparr>))"

definition bids :: "u32 \<Rightarrow> u32 \<Rightarrow> u32 \<Rightarrow> u32 \<Rightarrow> u32 \<Rightarrow> u32 \<Rightarrow> u32 \<times> u8 \<times> u8 list \<Rightarrow> bool" where
  "bids src dst d f g score m = (\<exists>h. length h = 4 \<and> h ! 0 = EXCHANGE_REP_MESSAGE \<and> m = (dst, 10,
     exchRep_bytes True \<lparr>ep_head = h, ep_file_id = f, ep_frag_id = g, ep_src_ip = src, ep_dst_ip = d, ep_score = score\<rparr>))"

definition hands_over :: "u32 \<Rightarrow> u32 \<Rightarrow> u32 \<Rightarrow> u32 \<Rightarrow> u32 \<times> u8 \<times> u8 list \<Rightarrow> bool" where
  "hands_over dst d f g m = (\<exists>h. length h = 4 \<and> h ! 0 = ADD_CACHE_MESSAGE \<and> m = (dst, 10,
     addCache_bytes True \<lparr>ac_head = h, ac_file_id = f, ac_frag_id = g, ac_src_ip = dst, ac_dst_ip = d\<rparr>))"

lemma exchange_words:
  assumes "length h = 4"
  shows "bytes_exchReq True (exchReq_bytes True \<lparr>eq_head = h, eq_src_ip = a, eq_dst_ip = d, eq_file_id = f, eq_frag_id = g\<rparr>) =
      \<lparr>eq_head = h, eq_src_ip = a, eq_dst_ip = d, eq_file_id = f, eq_frag_id = g\<rparr>"
    "bytes_exchRep True (exchRep_bytes True \<lparr>ep_head = h, ep_file_id = f, ep_frag_id = g, ep_src_ip = a, ep_dst_ip = d, ep_score = c\<rparr>) =
      \<lparr>ep_head = h, ep_file_id = f, ep_frag_id = g, ep_src_ip = a, ep_dst_ip = d, ep_score = c\<rparr>"
    "bytes_addCache True (addCache_bytes True \<lparr>ac_head = h, ac_file_id = f, ac_frag_id = g, ac_src_ip = a, ac_dst_ip = d\<rparr>) =
      \<lparr>ac_head = h, ac_file_id = f, ac_frag_id = g, ac_src_ip = a, ac_dst_ip = d\<rparr>"
    "exchReq_bytes True \<lparr>eq_head = h, eq_src_ip = a, eq_dst_ip = d, eq_file_id = f, eq_frag_id = g\<rparr> ! 0 = h ! 0"
    "exchRep_bytes True \<lparr>ep_head = h, ep_file_id = f, ep_frag_id = g, ep_src_ip = a, ep_dst_ip = d, ep_score = c\<rparr> ! 0 = h ! 0"
    "addCache_bytes True \<lparr>ac_head = h, ac_file_id = f, ac_frag_id = g, ac_src_ip = a, ac_dst_ip = d\<rparr> ! 0 = h ! 0"
    "length (exchReq_bytes True \<lparr>eq_head = h, eq_src_ip = a, eq_dst_ip = d, eq_file_id = f, eq_frag_id = g\<rparr>) = 20"
    "length (exchRep_bytes True \<lparr>ep_head = h, ep_file_id = f, ep_frag_id = g, ep_src_ip = a, ep_dst_ip = d, ep_score = c\<rparr>) = 24"
    "length (addCache_bytes True \<lparr>ac_head = h, ac_file_id = f, ac_frag_id = g, ac_src_ip = a, ac_dst_ip = d\<rparr>) = 20"
  using assms
  by (simp_all add: exchReq_bytes_def bytes_exchReq_def exchRep_bytes_def bytes_exchRep_def addCache_bytes_def bytes_addCache_def
      word_at_words nth_append)

section \<open>The receivers\<close>

text \<open>A neighbour that can take part.\<close>

definition takes_part :: "u32 \<Rightarrow> neighbour \<Rightarrow> bool" where
  "takes_part ip n = (c_tables_ok (nb_state n) \<and> c_tasks (nb_state n) = [] \<and> g_sock (nb_state n) \<noteq> None
     \<and> hears_from (nb_dev n) ip \<and> c_my_ip (nb_state n) \<noteq> ip)"

lemma request_scored:
  assumes "able e" "c_tables_ok s" "c_tasks s = []" "g_sock s = Some sk" "hears_from dev src" "asks_score bcast src d f g m"
    and t: "t = c_takes e src m dev s"
  shows "\<exists>a. bids (c_my_ip s) src d f g (getScore f g s) a \<and> unicasts src 0 (drop (length (k_out s)) (k_out t)) = [a]"
    "ctable t = ctable s" "c_tasks t = []" "g_sock t = g_sock s"
proof -
  have e: "no_oom e" "ke_big_endian e" using assms(1) by (simp_all add: able_def)
  obtain h where h: "length h = 4" "h ! 0 = 5"
      "m = (bcast, 1, exchReq_bytes True \<lparr>eq_head = h, eq_src_ip = src, eq_dst_ip = d, eq_file_id = f, eq_frag_id = g\<rparr>)"
    using assms(6) by (auto simp: asks_score_def)
  define bs where "bs = exchReq_bytes True \<lparr>eq_head = h, eq_src_ip = src, eq_dst_ip = d, eq_file_id = f, eq_frag_id = g\<rparr>"
  note w = exchange_words(1,4,7) [OF h(1), of src d f g, folded bs_def]
  have ok: "fst (valid_cache_packet e (int (length bs)) (bs ! 0) (word_at (ke_big_endian e) bs 0) (bs ! 3) s)"
    using w h(2) by (simp add: valid_cache_packet_def Let_def)
  let ?k = "c_handed_task 5 src (bcast, 1, bs) s" and ?u = "c_handed 5 20 s"
  have t1: "t = c_cleared s (snd (recv_exreq e ?k ?u))"
    using c_takes_message(3) [OF e(1) assms(3,5) _ ok] w(2,3) h(2) by (simp add: t h(3) bs_def [symmetric])
  have score: "getScore f g ?u = getScore f g s"
    by (rule getScore_cong [OF _ _ _ assms(2) c_handed_tables [OF assms(2)]]) simp_all
  define h' where "h' = new_head e (k_allocs ?u) EXCHANGE_REP_MESSAGE"
  define b where "b = exchRep_bytes True \<lparr>ep_head = h', ep_file_id = f, ep_frag_id = g, ep_src_ip = c_my_ip s, ep_dst_ip = d,
    ep_score = getScore f g s\<rparr>"
  have h': "length h' = 4" "h' ! 0 = 6" by (simp_all add: h'_def new_head_def)
  let ?v = "snd (kmalloc e ?u)"
  have v: "g_sock ?v = Some sk" "k_out ?v = k_out s @ [WakeThread]" using assms(4) by (simp_all add: kmalloc_no_oom [OF e(1)])
  have r: "snd (recv_exreq e ?k ?u) = snd (c_send_message e src 10 b ?v)"
    using e(2) w(1) by (simp add: recv_exreq_def gen_exchRep_def kmalloc_no_oom [OF e(1)] convert_exreq_to_host_def score Let_def b_def h'_def)
  have "k_out (snd (recv_exreq e ?k ?u)) = k_out s @ [WakeThread, SetTtl sk 10, SendMsg sk src b]"
    unfolding r using c_send_message_out [OF assms(1) v(1), of 10 b src] exchange_words(8) [OF h'(1)] v(2) by (simp add: b_def)
  then have "unicasts src 0 (drop (length (k_out s)) (k_out t)) = [(src, 10, b)]" by (simp add: t1 c_cleared_def)
  moreover have "bids (c_my_ip s) src d f g (getScore f g s) (src, 10, b)" using h' by (auto simp: bids_def b_def)
  ultimately show "\<exists>a. bids (c_my_ip s) src d f g (getScore f g s) a \<and> unicasts src 0 (drop (length (k_out s)) (k_out t)) = [a]"
    by blast
  have "ctable (snd (c_send_message e src 10 b ?v)) = ctable ?v"
    by (simp add: c_send_message_def Let_def emit_def fault_def split: option.split)
  then show "ctable t = ctable s" by (simp add: t1 c_cleared_def r kmalloc_no_oom [OF e(1)])
  show "c_tasks t = []" "g_sock t = g_sock s"
    using cv_selectors(2) [OF ce.refl [of e ?u], of ?k] assms(3) by (simp_all add: t1 c_cleared_def c_evolves_def same_params_def)
qed

definition bid_info :: "u32 \<Rightarrow> u32 \<Rightarrow> u32 \<Rightarrow> u32 \<Rightarrow> u32 \<Rightarrow> exchTable" where
  "bid_info ip d f g score =
     \<lparr>ex_file_id = f, ex_frag_id = g, ex_dst_ip = d, ex_neigh_ip = ip, ex_score = score, ex_expired = 0\<rparr>"

lemma bid_heard:
  assumes "able e" "c_tasks s = []" "hears_from dev ip" "bids ip src d f g score m" and t: "t = c_takes e ip m dev s"
  shows "\<exists>a. extable t = (a, bid_info ip d f g score) # extable s" "ctable t = ctable s" "c_tasks t = []" "g_sock t = g_sock s"
    "c_timers t = c_timers s"
proof -
  have e: "no_oom e" "ke_big_endian e" using assms(1) by (simp_all add: able_def)
  obtain h where h: "length h = 4" "h ! 0 = 6" "m = (src, 10,
      exchRep_bytes True \<lparr>ep_head = h, ep_file_id = f, ep_frag_id = g, ep_src_ip = ip, ep_dst_ip = d, ep_score = score\<rparr>)"
    using assms(4) by (auto simp: bids_def)
  define bs where "bs = exchRep_bytes True \<lparr>ep_head = h, ep_file_id = f, ep_frag_id = g, ep_src_ip = ip, ep_dst_ip = d, ep_score = score\<rparr>"
  note w = exchange_words(2,5,8) [OF h(1), of f g ip d score, folded bs_def]
  have ok: "fst (valid_cache_packet e (int (length bs)) (bs ! 0) (word_at (ke_big_endian e) bs 0) (bs ! 3) s)"
    using w h(2) by (simp add: valid_cache_packet_def Let_def)
  have "t = c_cleared s (snd (recv_exrep e (c_handed_task 6 ip (src, 10, bs) s) (c_handed 6 24 s)))"
    using c_takes_message(4) [OF e(1) assms(2,3) _ ok] w(2,3) h(2) by (simp add: t h(3) bs_def [symmetric])
  then have t1: "t = c_cleared s (insert_extable (k_allocs (c_handed 6 24 s), bid_info ip d f g score) (snd (kmalloc e (c_handed 6 24 s))))"
    using e w(1) by (simp add: recv_exrep_def create_extable_def kmalloc_no_oom convert_exrep_to_host_def bid_info_def)
  show "\<exists>a. extable t = (a, bid_info ip d f g score) # extable s" "ctable t = ctable s" "c_tasks t = []" "g_sock t = g_sock s"
    "c_timers t = c_timers s"
    using assms(2) by (simp_all add: t1 c_cleared_def insert_extable_def kmalloc_no_oom [OF e(1)])
qed

lemma frag_heard:
  assumes "able e" "c_tables_ok s" "c_tasks s = []" "hears_from dev src" "hands_over ip d f g m"
  shows "placed f g s (c_takes e src m dev s)"
proof -
  have e: "no_oom e" "ke_big_endian e" using assms(1) by (simp_all add: able_def)
  obtain h where h: "length h = 4" "h ! 0 = 7"
      "m = (ip, 10, addCache_bytes True \<lparr>ac_head = h, ac_file_id = f, ac_frag_id = g, ac_src_ip = ip, ac_dst_ip = d\<rparr>)"
    using assms(5) by (auto simp: hands_over_def)
  define bs where "bs = addCache_bytes True \<lparr>ac_head = h, ac_file_id = f, ac_frag_id = g, ac_src_ip = ip, ac_dst_ip = d\<rparr>"
  note w = exchange_words(3,6,9) [OF h(1), of f g ip d, folded bs_def]
  have ok: "fst (valid_cache_packet e (int (length bs)) (bs ! 0) (word_at (ke_big_endian e) bs 0) (bs ! 3) s)"
    using w h(2) by (simp add: valid_cache_packet_def Let_def)
  define u where "u = c_handed 7 20 s"
  have u: "ctable u = ctable s" "KVAL u = KVAL s" "BUF_SIZE u = BUF_SIZE s" "c_tables_ok u"
    using c_handed_tables [OF assms(2)] by (simp_all add: u_def)
  have "c_takes e src m dev s = c_cleared s (snd (recv_addcache e (c_handed_task 7 src (ip, 10, bs) s) u))"
    using c_takes_message(5) [OF e(1) assms(3,4) _ ok] w(2,3) h(2) by (simp add: u_def h(3) bs_def [symmetric])
  then have "c_takes e src m dev s = c_cleared s (snd (retrieve_frag e d f g u))"
    using e(2) w(1) by (simp add: recv_addcache_def convert_addcache_to_host_def)
  then have "ctable (c_takes e src m dev s) = ctable (snd (retrieve_frag e d f g u))" by (simp add: c_cleared_def)
  then have "placed f g u (c_takes e src m dev s)"
    using retrieve_placed [OF e(1) u(4), of f g d] unfolding placed_def by simp
  then show ?thesis using placed_cong [OF u(1-3)] by simp
qed

section \<open>Asking and gathering\<close>

definition exch_timer :: "u32 \<Rightarrow> u32 \<Rightarrow> u32 \<Rightarrow> c_state \<Rightarrow> bool" where
  "exch_timer d f g s = (\<exists>k \<in> set (nl_vals (c_timers s)).
     ck_type k = TASK_ADD_CACHE_SEND \<and> ck_file_id k = f \<and> ck_frag_id k = g \<and> ck_dst_ip k = d)"

lemma threshold_asks:
  assumes "able e" "g_sock s = Some sk" "reachThreshold (find_creq f g s) s" "t = count_request e (\<lambda>s. s) d f g s"
  shows "\<exists>m. unicasts (c_broadcast_ip s) 0 (drop (length (k_out s)) (k_out t)) = [m] \<and> asks_score (c_broadcast_ip s) (c_my_ip s) d f g m"
    "exch_timer d f g t" "ctable t = ctable s" "extable t = extable s"
proof -
  have e: "no_oom e" "ke_big_endian e" "\<And>i. \<not> ke_set_ttl e i < 0" "\<And>i. 20 \<le> ke_wspace e i"
    using assms(1) by (auto simp: able_def not_less intro: order_trans [of _ 52])
  obtain p where p: "find_creq f g s = Some p" using assms(3) by (cases "find_creq f g s") (simp_all add: reachThreshold_def)
  define s1 where "s1 = snd (flush_count (Some (fst p)) s)"
  define h where "h = new_head e (k_allocs s1) EXCHANGE_REQ_MESSAGE"
  define b where "b = exchReq_bytes True \<lparr>eq_head = h, eq_src_ip = c_my_ip s, eq_dst_ip = d, eq_file_id = f, eq_frag_id = g\<rparr>"
  define s2 where "s2 = snd (gen_exchReq e (c_my_ip s1) d f g s1)"
  define x where "x = (c_new_task 9 (getcurrtime s2))
    \<lparr>ck_src_ip := d, ck_dst_ip := d, ck_file_id := f, ck_frag_id := g, ck_time := getcurrtime s2 + ucast WAIT_EXCH_REP_TIME\<rparr>"
  define s3 where "s3 = snd (c_insert_timer e 9 WAIT_EXCH_REP_TIME d f g s2)"
  have t: "t = c_update_timer_queue e s3"
    unfolding assms(4) count_request_def Let_def p s3_def s2_def s1_def using assms(3) p by simp
  have h: "length h = 4" "h ! 0 = 5" by (simp_all add: h_def new_head_def)
  have s1: "k_out s1 = k_out s" "g_sock s1 = Some sk" "c_broadcast_ip s1 = c_broadcast_ip s" "c_my_ip s1 = c_my_ip s" "ctable s1 = ctable s"
      "extable s1 = extable s"
    using assms(2) by (simp_all add: s1_def flush_count_def creq_upd_def)
  have "snd (c_local_broadcast e 1 b (snd (kmalloc e s1))) = emit (SendMsg sk (c_broadcast_ip s) b) (emit (SetTtl sk 1) (snd (kmalloc e s1)))"
    using s1(2,3) e(3,4) exchange_words(7) [OF h(1)] by (simp add: c_local_broadcast_def kmalloc_no_oom [OF e(1)] Let_def b_def emit_def)
  then have s2: "s2 = emit (SendMsg sk (c_broadcast_ip s) b) (emit (SetTtl sk 1) (snd (kmalloc e s1)))"
    using e(2) s1(4) by (simp add: s2_def gen_exchReq_def kmalloc_no_oom [OF e(1)] b_def h_def)
  then have "k_out s2 = k_out s @ [SetTtl sk 1, SendMsg sk (c_broadcast_ip s) b]" "ctable s2 = ctable s" "extable s2 = extable s"
    using s1 by (simp_all add: kmalloc_no_oom [OF e(1)]) (simp_all add: emit_def)
  moreover have "k_out s3 = k_out s2" "c_timers s3 = link_timer e ck_time (k_allocs s2, x) (c_timers s2)" "ctable s3 = ctable s2"
      "extable s3 = extable s2"
    by (simp_all add: s3_def c_insert_timer_def c_create_task_def kmalloc_no_oom [OF e(1)] c_queue_timer_def getcurrtime_def x_def)
  moreover have "\<exists>y. k_out t = k_out s3 @ [y] \<and> unicasts (c_broadcast_ip s) 1 [y] = []" "extable t = extable s3"
    unfolding t by (simp_all add: c_update_timer_queue_def arm_timer_def emit_def Let_def split: list.split)
  ultimately have o: "\<exists>y. k_out t = k_out s @ [SetTtl sk 1, SendMsg sk (c_broadcast_ip s) b, y] \<and> unicasts (c_broadcast_ip s) 1 [y] = []"
    and c: "ctable t = ctable s" "extable t = extable s" and ti: "(k_allocs s2, x) \<in> set (c_timers t)"
    by (auto simp: t)
  show "ctable t = ctable s" "extable t = extable s" by (rule c)+
  have "ck_type x = 9" "ck_file_id x = f" "ck_frag_id x = g" "ck_dst_ip x = d" by (simp_all add: x_def c_new_task_def)
  then show "exch_timer d f g t" using ti by (force simp: exch_timer_def nl_vals_def)
  have "asks_score (c_broadcast_ip s) (c_my_ip s) d f g (c_broadcast_ip s, 1, b)" using h by (auto simp: asks_score_def b_def)
  then show "\<exists>m. unicasts (c_broadcast_ip s) 0 (drop (length (k_out s)) (k_out t)) = [m]
      \<and> asks_score (c_broadcast_ip s) (c_my_ip s) d f g m"
    using o by auto
qed

definition bid_of :: "u32 \<Rightarrow> u32 \<Rightarrow> u32 \<Rightarrow> neighbour \<Rightarrow> exchTable" where
  "bid_of d f g n = bid_info (c_my_ip (nb_state n)) d f g (getScore f g (nb_state n))"

lemma bids_gathered:
  assumes "able e" "c_tables_ok s" "c_tasks s = []" "asks_score bcast (c_my_ip s) d f g m"
    and "\<forall>n \<in> set ns. takes_part (c_my_ip s) n \<and> hears_from dev (c_my_ip (nb_state n))" and t: "t = gather e m dev ns s"
  shows "set (nl_vals (extable t)) = bid_of d f g ` set ns \<union> set (nl_vals (extable s)) \<and> ctable t = ctable s \<and> c_tables_ok t
    \<and> KVAL t = KVAL s \<and> BUF_SIZE t = BUF_SIZE s \<and> c_my_ip t = c_my_ip s \<and> g_sock t = g_sock s \<and> c_timers t = c_timers s"
  using assms(2-5) t
proof (induction ns arbitrary: s)
  case Nil
  then show ?case by (simp add: gather_def)
next
  case (Cons n ns)
  let ?n = "nb_state n"
  have n: "c_tables_ok ?n" "c_tasks ?n = []" "hears_from (nb_dev n) (c_my_ip s)" "hears_from dev (c_my_ip ?n)"
    using Cons.prems(4) by (simp_all add: takes_part_def)
  obtain sk where sk: "g_sock ?n = Some sk" using Cons.prems(4) by (auto simp: takes_part_def)
  obtain a where a: "bids (c_my_ip ?n) (c_my_ip s) d f g (getScore f g ?n) a" "answers_of e (c_my_ip s) m n = [(c_my_ip ?n, a)]"
    using request_scored(1) [OF assms(1) n(1,2) sk n(3) Cons.prems(3) refl] by (auto simp: answers_of_def Let_def)
  define s1 where "s1 = c_takes e (c_my_ip ?n) a dev s"
  note b = bid_heard [OF assms(1) Cons.prems(2) n(4) a(1) s1_def]
  note k = c_takes_keeps [OF s1_def]
  have t: "t = gather e m dev ns s1" using Cons.prems(5) a(2) k(2) by (simp add: gather_def s1_def)
  have "asks_score bcast (c_my_ip s1) d f g m"
    and "\<forall>n \<in> set ns. takes_part (c_my_ip s1) n \<and> hears_from dev (c_my_ip (nb_state n))"
    using Cons.prems(3,4) k(2) by simp_all
  note IH = Cons.IH [OF k(4) [OF Cons.prems(1)] b(3) this t]
  show ?case using IH b(1,2,4,5) k(1-3) by (auto simp: bid_of_def)
qed

lemma agent_hands_over:
  assumes "able e" "g_sock t = Some sk" "k_out t = k_out r" "u = snd (gen_addCache e ip d f g t)"
  shows "\<exists>a. unicasts ip 0 (drop (length (k_out r)) (k_out u)) = [a] \<and> hands_over ip d f g a" "ctable u = ctable t"
proof -
  have e: "no_oom e" "ke_big_endian e" using assms(1) by (simp_all add: able_def)
  define h where "h = new_head e (k_allocs t) ADD_CACHE_MESSAGE"
  define b where "b = addCache_bytes True \<lparr>ac_head = h, ac_file_id = f, ac_frag_id = g, ac_src_ip = ip, ac_dst_ip = d\<rparr>"
  let ?v = "snd (kmalloc e t)"
  have h: "length h = 4" "h ! 0 = 7" by (simp_all add: h_def new_head_def)
  have u: "u = snd (c_send_message e ip 10 b ?v)"
    using e(2) by (simp add: assms(4) gen_addCache_def kmalloc_no_oom [OF e(1)] b_def h_def)
  have v: "g_sock ?v = Some sk" "k_out ?v = k_out r" using assms(2,3) by (simp_all add: kmalloc_no_oom [OF e(1)])
  have "k_out u = k_out r @ [SetTtl sk 10, SendMsg sk ip b]"
    unfolding u using c_send_message_out [OF assms(1) v(1), of 10 b ip] exchange_words(9) [OF h(1)] v(2) by (simp add: b_def)
  moreover have "hands_over ip d f g (ip, 10, b)" using h by (auto simp: hands_over_def b_def)
  ultimately show "\<exists>a. unicasts ip 0 (drop (length (k_out r)) (k_out u)) = [a] \<and> hands_over ip d f g a" by simp
  show "ctable u = ctable t"
    unfolding u by (simp add: c_send_message_def Let_def emit_def fault_def kmalloc_no_oom [OF e(1)] split: option.split)
qed

lemma winner_takes:
  assumes "able e" "takes_part ip n" "asks_score bcast ip d f g m" "g_sock u = Some sk" "k_out u = k_out r"
    "t = snd (gen_addCache e (c_my_ip (nb_state n)) d f g u)"
  shows "\<exists>a. unicasts (c_my_ip (nb_state n)) 0 (drop (length (k_out r)) (k_out t)) = [a]
    \<and> placed f g (nb_state n) (c_takes e ip a (nb_dev n) (c_takes e ip m (nb_dev n) (nb_state n)))"
proof -
  let ?n = "nb_state n"
  have p: "c_tables_ok ?n" "c_tasks ?n = []" "hears_from (nb_dev n) ip" using assms(2) by (simp_all add: takes_part_def)
  obtain sk' where sk': "g_sock ?n = Some sk'" using assms(2) by (auto simp: takes_part_def)
  obtain a where a: "unicasts (c_my_ip ?n) 0 (drop (length (k_out r)) (k_out t)) = [a]" "hands_over (c_my_ip ?n) d f g a"
    using agent_hands_over(1) [OF assms(1,4-6)] by blast
  define v where "v = c_takes e ip m (nb_dev n) ?n"
  note v = request_scored(2-4) [OF assms(1) p(1,2) sk' p(3) assms(3) v_def] c_takes_keeps [OF v_def]
  have "placed f g v (c_takes e ip a (nb_dev n) v)" by (rule frag_heard [OF assms(1) v(7) [OF p(1)] v(2) p(3) a(2)])
  then have "placed f g ?n (c_takes e ip a (nb_dev n) v)" using placed_cong [OF v(1,4,6)] by simp
  then show ?thesis using a(1) unfolding v_def by blast
qed

section \<open>The exchange\<close>

text \<open>C3. The exchange of a fragment works end to end. When the requests for a fragment reach the threshold, the node asks
  its neighbours for their scores in one message and starts a timer. After it has gathered their answers, it keeps
  the fragment if no neighbour scored higher than itself; otherwise it leaves its own table alone and
  hands the fragment, in one message, to a neighbour with the highest score, which did not hold it and takes it in,
  in place of its least used entry when its table is full (and only refuses it when all its entries are service centres').\<close>

theorem fragment_placed:
  assumes "able e" "c_tables_ok s" "c_tasks s = []" "g_sock s \<noteq> None" "reachThreshold (find_creq f g s) s"
    and "\<forall>x \<in> set (nl_vals (extable s)). \<not> live_answer f g x"
    and "\<forall>n \<in> set ns. takes_part (c_my_ip s) n \<and> hears_from dev (c_my_ip (nb_state n))"
    and "s1 = count_request e (\<lambda>s. s) d f g s" "asked = unicasts (c_broadcast_ip s) 0 (drop (length (k_out s)) (k_out s1))"
    and "r = gather e (hd asked) dev ns s1" "t = snd (select_agent e k r)"
    and "ck_file_id k = f" "ck_frag_id k = g" "ck_dst_ip k = d"
  shows "length asked = 1 \<and> exch_timer d f g r
    \<and> ((\<forall>n \<in> set ns. getScore f g (nb_state n) \<le> getScore f g s) \<longrightarrow> placed f g s t)
    \<and> ((\<exists>n \<in> set ns. getScore f g s < getScore f g (nb_state n)) \<longrightarrow> ctable t = ctable s
      \<and> (\<exists>n \<in> set ns. (\<forall>n' \<in> set ns. getScore f g (nb_state n') \<le> getScore f g (nb_state n))
          \<and> find_cache_by_fr f g (nb_state n) = None
          \<and> (\<exists>a. unicasts (c_my_ip (nb_state n)) 0 (drop (length (k_out r)) (k_out t)) = [a]
              \<and> placed f g (nb_state n) (c_takes e (c_my_ip s) a (nb_dev n) (c_takes e (c_my_ip s) (hd asked) (nb_dev n) (nb_state n))))))"
proof -
  have e: "no_oom e" using assms(1) by (simp add: able_def)
  obtain sk where sk: "g_sock s = Some sk" using assms(4) by blast
  note A = threshold_asks [OF assms(1) sk assms(5,8)]
  then obtain m where m: "asked = [m]" "asks_score (c_broadcast_ip s) (c_my_ip s) d f g m" using assms(9) by auto
  have s1: "c_tables_ok s1" "c_tasks s1 = []" "c_my_ip s1 = c_my_ip s" "KVAL s1 = KVAL s" "BUF_SIZE s1 = BUF_SIZE s" "g_sock s1 = Some sk"
    using cv_count_request [OF ce.refl [of e s], of "\<lambda>s. s" d f g] assms(2,3) sk
    by (simp_all add: assms(8) c_evolves_def table_evolves_def same_params_def)
  have r: "set (nl_vals (extable r)) = bid_of d f g ` set ns \<union> set (nl_vals (extable s))" "ctable r = ctable s" "c_tables_ok r"
      "KVAL r = KVAL s" "BUF_SIZE r = BUF_SIZE s" "c_my_ip r = c_my_ip s" "g_sock r = Some sk" "c_timers r = c_timers s1"
    using bids_gathered [OF assms(1) s1(1,2), of "c_broadcast_ip s" d f g m ns dev r] m assms(7,10) s1 A(3,4) by simp_all
  define answers where "answers = filter (live_answer f g) (nl_vals (extable r))"
  define u where "u = r\<lparr>extable := map (apsnd (\<lambda>x. if live_answer f g x then x\<lparr>ex_expired := 1\<rparr> else x)) (extable r)\<rparr>"
  have bid: "live_answer f g (bid_of d f g n)" "ex_score (bid_of d f g n) = getScore f g (nb_state n)"
      "ex_neigh_ip (bid_of d f g n) = c_my_ip (nb_state n)" for n
    by (simp_all add: bid_of_def bid_info_def live_answer_def)
  have ans: "set answers = bid_of d f g ` set ns" using assms(6) bid(1) by (auto simp: answers_def r(1))
  have own: "getScore f g r = getScore f g s" by (rule getScore_cong [OF r(2,4,5) assms(2) r(3)])
  have ut: "c_tables_ok u" using r(3) by (simp add: u_def c_tables_ok_def cache_ok_def reqs_ok_def)
  have u: "ctable u = ctable s" "KVAL u = KVAL s" "BUF_SIZE u = BUF_SIZE s" "g_sock u = Some sk" "k_out u = k_out r"
    using r by (simp_all add: u_def)
  note S = select_agent_cases [OF r(3) assms(12,13) [symmetric] refl answers_def u_def, of e, unfolded own assms(14)]
  show ?thesis
  proof (intro conjI impI)
    show "length asked = 1" by (simp add: m(1))
    show "exch_timer d f g r" using A(2) by (simp add: exch_timer_def r(8))
  next
    assume "\<forall>n \<in> set ns. getScore f g (nb_state n) \<le> getScore f g s"
    then have "t = snd (retrieve_frag e d f g u)" using S bid(2) by (simp add: ans assms(11))
    then show "placed f g s t" using retrieve_placed [OF e ut, of f g d] placed_cong [OF u(1-3)] by simp
  next
    assume "\<exists>n \<in> set ns. getScore f g s < getScore f g (nb_state n)"
    then have "\<exists>x \<in> set answers. getScore f g s < ex_score x" by (simp add: ans bid(2))
    then obtain x where "x \<in> bid_of d f g ` set ns" "getScore f g s < ex_score x" "\<forall>y \<in> bid_of d f g ` set ns. ex_score y \<le> ex_score x"
        "select_agent e k r = (0, if ex_neigh_ip x = c_my_ip r then snd (retrieve_frag e d f g u)
          else snd (gen_addCache e (ex_neigh_ip x) d f g u))"
      using S unfolding ans by blast
    then obtain n where n: "n \<in> set ns" "getScore f g s < getScore f g (nb_state n)"
        "\<forall>n' \<in> set ns. getScore f g (nb_state n') \<le> getScore f g (nb_state n)"
        "select_agent e k r = (0, if c_my_ip (nb_state n) = c_my_ip r then snd (retrieve_frag e d f g u)
          else snd (gen_addCache e (c_my_ip (nb_state n)) d f g u))"
      by (auto simp only: bid(2,3) ball_simps)
    let ?n = "nb_state n"
    have p: "takes_part (c_my_ip s) n" using assms(7) n(1) by simp
    then have t: "t = snd (gen_addCache e (c_my_ip ?n) d f g u)" using n(4) r(6) by (simp add: assms(11) takes_part_def)
    show "ctable t = ctable s" using agent_hands_over(2) [OF assms(1) u(4,5) t] u(1) by simp
    have "find_cache_by_fr f g ?n = None" by (rule positive_score) (rule le_less_trans [OF word_zero_le n(2)])
    then show "\<exists>n \<in> set ns. (\<forall>n' \<in> set ns. getScore f g (nb_state n') \<le> getScore f g (nb_state n))
        \<and> find_cache_by_fr f g (nb_state n) = None
        \<and> (\<exists>a. unicasts (c_my_ip (nb_state n)) 0 (drop (length (k_out r)) (k_out t)) = [a]
            \<and> placed f g (nb_state n) (c_takes e (c_my_ip s) a (nb_dev n) (c_takes e (c_my_ip s) (hd asked) (nb_dev n) (nb_state n))))"
      using n(1,3) winner_takes [OF assms(1) p m(2) u(4,5) t] unfolding m(1) list.sel by blast
  qed
qed

text \<open>\<open>cnode\<close> has counted two of three requests for fragment 1 of file 9; one of its neighbours has more room than the other.\<close>

definition xdev :: netdev where
  "xdev = wlan0\<lparr>nd_ip_ptr := Some (Some 0)\<rparr>"

definition bidder :: "u32 \<Rightarrow> int \<Rightarrow> neighbour" where
  "bidder ip room =
     \<lparr>nb_dev = xdev,
      nb_state = c_unloaded\<lparr>k_allocs := 20, c_my_ip := ip, c_broadcast_ip := - 1, KVAL := 3, BUF_SIZE := room, g_sock := Some 7,
        ctable := [(2, frag_entry 5 1 0 0)], ct_len := 1\<rparr>\<rparr>"

definition place_task :: ctask where
  "place_task = (c_new_task 9 0)\<lparr>ck_dst_ip := 0xc0a80009, ck_file_id := 9, ck_frag_id := 1\<rparr>"

theorem fragment_placed_witness:
  "\<exists>s1 m r a. s1 = count_request demo_env (\<lambda>s. s) 0xc0a80009 9 1 cnode
     \<and> m = hd (unicasts (c_broadcast_ip cnode) 0 (drop (length (k_out cnode)) (k_out s1)))
     \<and> r = gather demo_env m xdev [bidder 0xc0a80002 2, bidder 0xc0a80003 4] s1
     \<and> unicasts 0xc0a80003 0 (drop (length (k_out r)) (k_out (snd (select_agent demo_env place_task r)))) = [a]
     \<and> placed 9 1 (nb_state (bidder 0xc0a80003 4)) (c_takes demo_env 0xc0a80001 a xdev (c_takes demo_env 0xc0a80001 m xdev (nb_state (bidder 0xc0a80003 4))))"
proof -
  let ?ns = "[bidder 0xc0a80002 2, bidder 0xc0a80003 4]"
  define s1 where "s1 = count_request demo_env (\<lambda>s. s) 0xc0a80009 9 1 cnode"
  define as where "as = unicasts (c_broadcast_ip cnode) 0 (drop (length (k_out cnode)) (k_out s1))"
  define r where "r = gather demo_env (hd as) xdev ?ns s1"
  have a: "able demo_env" using demo_no_oom by (simp add: able_def) (simp add: demo_env_def)
  have c: "c_tasks cnode = []" "g_sock cnode \<noteq> None" "reachThreshold (find_creq 9 1 cnode) cnode" "c_my_ip cnode = 0xc0a80001"
      "\<forall>x \<in> set (nl_vals (extable cnode)). \<not> live_answer 9 1 x"
    by (simp_all add: cdemo_defs reachThreshold_def find_creq_def same_req_def live_answer_def)
  have n: "\<forall>n \<in> set ?ns. takes_part (c_my_ip cnode) n \<and> hears_from xdev (c_my_ip (nb_state n))"
    by (simp add: takes_part_def bidder_def xdev_def hears_from_def c_tables_ok_def cache_ok_def flags_ok_def reqs_ok_def
        frag_entry_def c_unloaded_def wlan0_def c(4))
  have k: "ck_file_id place_task = 9" "ck_frag_id place_task = 1" "ck_dst_ip place_task = 0xc0a80009"
    by (simp_all add: place_task_def c_new_task_def)
  have sc: "getScore 9 1 cnode = 1" "getScore 9 1 (nb_state (bidder 0xc0a80002 2)) = 2" "getScore 9 1 (nb_state (bidder 0xc0a80003 4)) = 4"
    by code_simp+
  have ip: "c_my_ip (nb_state (bidder ip n)) = ip" "nb_dev (bidder ip n) = xdev" for ip n by (simp_all add: bidder_def c_unloaded_def)
  have "\<exists>n \<in> set ?ns. (\<forall>n' \<in> set ?ns. getScore 9 1 (nb_state n') \<le> getScore 9 1 (nb_state n))
      \<and> (\<exists>a. unicasts (c_my_ip (nb_state n)) 0 (drop (length (k_out r)) (k_out (snd (select_agent demo_env place_task r)))) = [a]
        \<and> placed 9 1 (nb_state n) (c_takes demo_env (c_my_ip cnode) a (nb_dev n) (c_takes demo_env (c_my_ip cnode) (hd as) (nb_dev n) (nb_state n))))"
    using fragment_placed [OF a cnode_ok c(1-3,5) n s1_def as_def r_def refl k] sc by auto
  then show ?thesis using sc unfolding as_def r_def s1_def by (auto simp: ip c(4))
qed

end
