(* ===== verification/SimpleFS.thy ===== *)
theory SimpleFS
  imports CacheMain Demo
begin

text \<open>
  The user-space tool \<open>simpleFS/src/main.c\<close> and \<open>simpleFS/src/fUtils.c\<close>: it creates the files the caching module
  takes for its fragments and broadcasts file requests to it. A run ends with a value and a state, by
  \<open>exit(1)\<close>, or in undefined behaviour: a buffer overrun, a format with a percent sign,
  a value that was never set. What the C library and the kernel answer is the record \<open>sys\<close>. Text on
  the terminal is not modelled. Of the environment \<open>e\<close> only the byte order of the host matters.
\<close>

section \<open>State and results\<close>

text \<open>\<open>fs_files\<close> are the paths of the files created, \<open>fs_sent\<close> the messages broadcast, both newest last.\<close>

record sfs =
  fs_myfs :: bool
  fs_files :: "string list"
  fs_sent :: "u8 list list"
  fs_slept :: nat

datatype 'a run = Done 'a sfs | Exit sfs | Undefined

definition bind_run :: "'a run \<Rightarrow> ('a \<Rightarrow> sfs \<Rightarrow> 'b run) \<Rightarrow> 'b run" where
  "bind_run m f = (case m of Done x s \<Rightarrow> f x s | Exit s \<Rightarrow> Exit s | Undefined \<Rightarrow> Undefined)"

lemma bind_run_simps [simp]:
  "bind_run (Done x s) f = f x s" "bind_run (Exit s) f = Exit s" "bind_run Undefined f = Undefined"
  by (simp_all add: bind_run_def)

text \<open>
  An entry of \<open>getifaddrs\<close> is None for a NULL \<open>ifa_addr\<close>, else the family and, for AF_INET,
  the address. \<open>sy_malloc\<close> and \<open>sy_sendto\<close> are asked with the number of messages sent before, \<open>sy_junk\<close> is what
  the three bytes after the type hold in the new block.
\<close>

record sys =
  sy_ifaddrs :: "(string \<times> (nat \<times> u32) option) list"
  sy_mkdir :: bool
  sy_fopen :: "string \<Rightarrow> bool"
  sy_socket :: bool
  sy_enable_broadcast :: bool
  sy_bind_device :: bool
  sy_malloc :: "nat \<Rightarrow> bool"
  sy_sendto :: "nat \<Rightarrow> bool"
  sy_junk :: "nat \<Rightarrow> u8 \<times> u8 \<times> u8"

abbreviation (input) AF_INET :: nat where "AF_INET \<equiv> 2"

section \<open>Addresses and numbers\<close>

text \<open>The text of \<open>atoi\<close> and its character tests is that of \<open>caching/src/cUtils.c\<close>. Signed overflow, which C leaves
  undefined, does not wrap here: the value is cut when it is converted to 32 bits.\<close>

definition sfs_atoi :: "string \<Rightarrow> int" where
  "sfs_atoi nptr = atoi nptr"

text \<open>As \<open>inet_aton\<close>, with the file's own \<open>isspace\<close> for the character after the address.\<close>

definition my_inet_aton :: "kenv \<Rightarrow> string \<Rightarrow> u32 option" where
  "my_inet_aton e cp =
     (case aton_parts [] cp of
        None \<Rightarrow> None
      | Some (parts, val, r) \<Rightarrow>
          if r \<noteq> [] \<and> (\<not> isascii (hd r) \<or> \<not> my_isspace (hd r)) then None
          else map_option (htonl e) (aton_concoct parts val))"

text \<open>
  The walk of \<open>get_local_ip\<close>: \<open>ip\<close> is the text in the caller's buffer, None as long as nothing was written. The
  name is compared as a pointer with the buffer \<open>dev_name\<close>, which no entry's name points to, so the
  walk goes on to the end.
\<close>

fun get_local_ip :: "kenv \<Rightarrow> (string \<times> (nat \<times> u32) option) list \<Rightarrow> string option \<Rightarrow> string option option" where
  "get_local_ip e [] ip = Some ip"
| "get_local_ip e ((name, None) # ifs) ip = None"
| "get_local_ip e ((name, Some (family, a)) # ifs) ip =
     (if family = AF_INET then get_local_ip e ifs (Some (inet_ntoa e a)) else get_local_ip e ifs ip)"

section \<open>Creating fragments\<close>

text \<open>\<open>sprintf\<close> of a text into a buffer of \<open>n\<close> characters, the text being the format.\<close>

definition sprintf_into :: "nat \<Rightarrow> string \<Rightarrow> string option" where
  "sprintf_into n t = (if CHR ''%'' \<in> set t \<or> n \<le> length t then None else Some t)"

definition fopen_w :: "sys \<Rightarrow> string \<Rightarrow> sfs \<Rightarrow> bool \<times> sfs" where
  "fopen_w y path s = (if sy_fopen y path then (True, s\<lparr>fs_files := fs_files s @ [path]\<rparr>) else (False, s))"

definition make_myfs :: "sys \<Rightarrow> sfs \<Rightarrow> unit run" where
  "make_myfs y s =
     (if fs_myfs s then Done () s
      else if \<not> sy_mkdir y then Exit s
      else Done () (snd (fopen_w y ''/myfs/a'' (s\<lparr>fs_myfs := True\<rparr>))))"

definition createFrag :: "sys \<Rightarrow> string \<Rightarrow> string \<Rightarrow> sfs \<Rightarrow> int run" where
  "createFrag y file_id frag_id s =
     bind_run (make_myfs y s) (\<lambda>_ s.
       case (sprintf_into 10 file_id, sprintf_into 10 frag_id) of
         (Some fileId, Some fragId) \<Rightarrow>
           let name = ''/myfs/'' @ fileId @ ''-'' @ fragId
           in if 20 \<le> length name then Undefined
              else (case fopen_w y name s of
                      (True, s1) \<Rightarrow> Done 0 s1
                    | (False, s1) \<Rightarrow> Exit s1)
       | _ \<Rightarrow> Undefined)"

section \<open>Sending a file request\<close>

definition sfs_init_sock :: "sys \<Rightarrow> sfs \<Rightarrow> int run" where
  "sfs_init_sock y s =
     (if \<not> sy_socket y then Exit s
      else if \<not> sy_enable_broadcast y then Exit s
      else if \<not> sy_bind_device y then Exit s
      else Done 0 s)"

definition broadcast :: "sys \<Rightarrow> u8 list \<Rightarrow> sfs \<Rightarrow> int run" where
  "broadcast y dat s =
     (if sy_sendto y (length (fs_sent s)) then Done 0 (s\<lparr>fs_sent := fs_sent s @ [dat]\<rparr>) else Exit s)"

text \<open>The flag and the reserved fields are not set. \<open>src_ip\<close> is in network order already.\<close>

definition gen_flreq :: "kenv \<Rightarrow> sys \<Rightarrow> u32 \<Rightarrow> u32 \<Rightarrow> u32 \<Rightarrow> sfs \<Rightarrow> int run" where
  "gen_flreq e y src_ip file_id seq s =
     (if \<not> sy_malloc y (length (fs_sent s)) then Exit s
      else let (j1, j2, j3) = sy_junk y (length (fs_sent s));
               broadcast_ip = (case my_inet_aton e ''255.255.255.255'' of None \<Rightarrow> 0 | Some w \<Rightarrow> w);
               m = \<lparr>fq_head = [FILE_REQ_MESSAGE, j1, j2, j3], fq_src_ip = src_ip, fq_dst_ip = broadcast_ip,
                    fq_file_id = htonl e file_id, fq_seq = htonl e seq, fq_metric = htonl e 0\<rparr>
           in bind_run (broadcast y (fileReq_bytes (ke_big_endian e) m) s) (\<lambda>_ s. Done 0 s))"

section \<open>The program\<close>

definition testbed :: "(string \<times> (string \<times> string) list) list" where
  "testbed =
     [(''192.168.0.10'', [(''1'', ''1''), (''2'', ''1''), (''3'', ''1'')]),
      (''192.168.0.20'', [(''4'', ''1''), (''5'', ''1''), (''1'', ''2'')]),
      (''192.168.0.30'', [(''2'', ''2''), (''3'', ''2''), (''4'', ''2'')]),
      (''192.168.0.40'', [(''5'', ''2''), (''1'', ''3''), (''2'', ''3'')]),
      (''192.168.0.60'', [(''3'', ''3''), (''4'', ''3''), (''5'', ''3'')]),
      (''192.168.0.70'', [(''1'', ''4''), (''2'', ''4''), (''3'', ''4'')]),
      (''192.168.0.80'', [(''4'', ''4''), (''5'', ''4''), (''1'', ''5'')]),
      (''192.168.0.90'', [(''2'', ''5''), (''3'', ''5''), (''4'', ''5''), (''5'', ''5'')])]"

fun create_all :: "sys \<Rightarrow> (string \<times> string) list \<Rightarrow> sfs \<Rightarrow> unit run" where
  "create_all y [] s = Done () s"
| "create_all y ((f, g) # fgs) s = bind_run (createFrag y f g s) (\<lambda>_ s. create_all y fgs s)"

definition fileList :: "u32 list" where
  "fileList = [1, 3, 1, 2, 5, 4, 1, 2, 3, 1, 2]"

text \<open>The loops of the two tests: \<open>n\<close> requests from the i-th on, half a minute apart.\<close>

fun send_all :: "kenv \<Rightarrow> sys \<Rightarrow> u32 \<Rightarrow> nat \<Rightarrow> nat \<Rightarrow> sfs \<Rightarrow> unit run" where
  "send_all e y my_ip 0 i s = Done () s"
| "send_all e y my_ip (Suc n) i s =
     bind_run (gen_flreq e y my_ip (fileList ! (i mod 11)) (of_nat i) s)
       (\<lambda>_ s. send_all e y my_ip n (Suc i) (s\<lparr>fs_slept := fs_slept s + 30\<rparr>))"

definition run_command :: "kenv \<Rightarrow> sys \<Rightarrow> u32 \<Rightarrow> string list \<Rightarrow> sfs \<Rightarrow> unit run" where
  "run_command e y my_ip argv s =
     (if argv ! 1 = ''retrieve''
      then if length argv < 4 then Exit s
           else bind_run (gen_flreq e y my_ip (word_of_int (sfs_atoi (argv ! 2))) (word_of_int (sfs_atoi (argv ! 3))) s)
                  (\<lambda>_ s. Done () s)
      else if argv ! 1 = ''test2'' then send_all e y my_ip 120 0 s
      else if argv ! 1 = ''test3'' then send_all e y my_ip 60 0 s
      else Done () s)"

definition sfs_main :: "kenv \<Rightarrow> sys \<Rightarrow> string list \<Rightarrow> sfs \<Rightarrow> int run" where
  "sfs_main e y argv s =
     (if length argv < 2 then Exit s
      else case get_local_ip e (sy_ifaddrs y) None of
        None \<Rightarrow> Undefined
      | Some None \<Rightarrow> Undefined
      | Some (Some s_my_ip) \<Rightarrow>
          let my_ip = (case my_inet_aton e s_my_ip of None \<Rightarrow> 0 | Some w \<Rightarrow> w)
          in if argv ! 1 = ''create''
             then if length argv < 4 then Exit s
                  else bind_run (createFrag y (argv ! 2) (argv ! 3) s) (\<lambda>_ s. Done 0 s)
             else bind_run
                    (if argv ! 1 = ''test1''
                     then (case map_of testbed s_my_ip of None \<Rightarrow> Done () s | Some fgs \<Rightarrow> create_all y fgs s)
                     else Done () s)
                    (\<lambda>_ s. bind_run (sfs_init_sock y s)
                      (\<lambda>_ s. bind_run (run_command e y my_ip argv s) (\<lambda>_ s. Done 0 s))))"

end
