(* ===== verification/SfsProps.thy ===== *)
theory SfsProps
  imports SimpleFS
begin

text \<open>
  How the user-space tool and the caching module fit together: the messages the one sends are those
  the other expects, and the files it creates are the fragments the module loads.
\<close>

section \<open>Numbers\<close>

lemma digit_value: "m < 10 \<Longrightarrow> (of_char (digit_char m) :: int) = 48 + int m"
proof -
  assume "m < 10"
  then have "(of_char (digit_char m) :: nat) = 48 + m" by (simp add: digit_char_def)
  then show ?thesis by (metis of_nat_of_char of_nat_add of_nat_numeral)
qed

lemma digit_class: "m < 10 \<Longrightarrow> my_isdigit (digit_char m)"
  by (simp add: my_isdigit_def digit_value)

lemma atoi_loop_dec:
  "\<exists>k. \<forall>v. atoi_loop v (dec n @ r) = atoi_loop (v * k + int n) r"
proof (induction n arbitrary: r rule: dec.induct)
  case (1 n)
  note d = digit_class digit_value
  show ?case
  proof (cases "n < 10")
    case True
    then show ?thesis by (subst dec.simps) (auto simp: d mult.commute intro!: exI [of _ 10])
  next
    case False
    let ?d = "digit_char (n mod 10)"
    from 1 [OF False, of "?d # r"] obtain k where
      k: "atoi_loop v (dec (n div 10) @ ?d # r) = atoi_loop (v * k + int (n div 10)) (?d # r)" for v by blast
    have n: "int (n div 10) * 10 + int (n mod 10) = int n"
      by (metis div_mult_mod_eq of_nat_add of_nat_mult of_nat_numeral)
    have "atoi_loop v (dec n @ r) = atoi_loop (v * (k * 10) + int n) r" for v
      using False by (subst dec.simps) (simp add: k d n [symmetric] algebra_simps)
    then show ?thesis by blast
  qed
qed

lemma dec_digits: "c \<in> set (dec n) \<Longrightarrow> my_isdigit c"
proof (induction n rule: dec.induct)
  case (1 n)
  from 1 show ?case by (subst (asm) (2) dec.simps) (auto simp: digit_class split: if_splits)
qed

lemma atoi_dec: "atoi (dec n) = int n"
proof -
  obtain c cs where c: "dec n = c # cs" by (cases "dec n") simp_all
  have digit: "my_isdigit c" using dec_digits [of c n] c by simp
  then have "\<not> my_isspace c" "c \<noteq> CHR ''-''" "c \<noteq> CHR ''+''" by (auto simp: my_isdigit_def my_isspace_def)
  then have "atoi (dec n) = atoi_loop 0 (dec n)" by (simp add: atoi_def c)
  also obtain k where "atoi_loop 0 (dec n @ []) = atoi_loop (0 * k + int n) []"
    using atoi_loop_dec [of n "[]"] by blast
  ultimately show ?thesis by simp
qed

section \<open>A file request\<close>

lemma my_inet_aton_dotted: "length bs = 4 \<Longrightarrow> my_inet_aton e (dotted bs) = inet_aton e (dotted bs)"
proof (erule length_4E)
  fix a b c d assume "bs = [a, b, c, d]"
  then have "aton_parts [] (dotted bs) = None \<or> (\<exists>ps v. aton_parts [] (dotted bs) = Some (ps, v, []))"
    by (simp add: dotted_def aton_parts_step aton_parts_last)
  then show ?thesis by (auto simp: my_inet_aton_def inet_aton_def)
qed

lemma my_inet_aton_ntoa: "my_inet_aton e (inet_ntoa e a) = Some a"
  using my_inet_aton_dotted [of "u32_bytes (ke_big_endian e) a" e] inet_aton_ntoa [of e a]
  by (simp add: inet_ntoa_def)

lemma my_inet_aton_broadcast: "my_inet_aton e ''255.255.255.255'' = Some (htonl e 0xffffffff)"
proof -
  have "aton_parts [] ''255.255.255.255'' = Some ([255, 255, 255], 255, [])" by code_simp
  moreover have "aton_concoct [255, 255, 255] 255 = Some 0xffffffff" by code_simp
  ultimately show ?thesis by (simp add: my_inet_aton_def)
qed

text \<open>What the module makes of the message: the four bytes of the head, and the words in host order.\<close>

definition read_request :: "kenv \<Rightarrow> u8 list \<Rightarrow> fileReq" where
  "read_request e bs = convert_flreq_to_host e (bytes_fileReq (ke_big_endian e) bs)"

text \<open>C27. The caching module understands the tool. \<open>simpleFS retrieve F S\<close> on a machine of either byte order broadcasts one
  message of 24 bytes and ends normally; the module, which has its own copy of the structure, takes it for a file
  request of that length, from the machine's address, for file F with number S and metric 0. It
  is let in unless the address, in the byte order of the host, is the module's own.\<close>

theorem file_request_understood:
  assumes "get_local_ip e (sy_ifaddrs y) None = Some (Some (inet_ntoa e a))"
    and "sy_socket y" "sy_enable_broadcast y" "sy_bind_device y" "sy_malloc y (length (fs_sent s))" "sy_sendto y (length (fs_sent s))"
    and "f < 2 ^ 31" "q < 2 ^ 31"
  shows "\<exists>m. sfs_main e y [''simpleFS'', ''retrieve'', dec f, dec q] s = Done 0 (s\<lparr>fs_sent := fs_sent s @ [m]\<rparr>)
    \<and> length m = sizeof_fileReq \<and> m ! 0 = FILE_REQ_MESSAGE
    \<and> fq_src_ip (read_request e m) = ntohl e a \<and> fq_dst_ip (read_request e m) = 0xffffffff
    \<and> fq_file_id (read_request e m) = of_nat f \<and> fq_seq (read_request e m) = of_nat q
    \<and> fq_metric (read_request e m) = 0
    \<and> fst (valid_cache_packet e (int (length m)) (m ! 0) (word_at (ke_big_endian e) m 0) (m ! 3) c) = (ntohl e a \<noteq> c_my_ip c)"
proof -
  obtain j1 j2 j3 where j: "sy_junk y (length (fs_sent s)) = (j1, j2, j3)" by (cases "sy_junk y (length (fs_sent s))")
  define r where "r = \<lparr>fq_head = [FILE_REQ_MESSAGE, j1, j2, j3], fq_src_ip = a, fq_dst_ip = htonl e 0xffffffff,
      fq_file_id = htonl e (of_nat f), fq_seq = htonl e (of_nat q), fq_metric = htonl e 0\<rparr>"
  define m where "m = fileReq_bytes (ke_big_endian e) r"
  have g: "gen_flreq e y a (of_nat f) (of_nat q) s = Done 0 (s\<lparr>fs_sent := fs_sent s @ [m]\<rparr>)"
    using assms(5,6) j by (simp add: gen_flreq_def my_inet_aton_broadcast broadcast_def r_def [symmetric] m_def)
  have n: "length [''simpleFS'', ''retrieve'', dec f, dec q] = 4" "[''simpleFS'', ''retrieve'', dec f, dec q] ! 1 = ''retrieve''"
    "[''simpleFS'', ''retrieve'', dec f, dec q] ! 2 = dec f" "[''simpleFS'', ''retrieve'', dec f, dec q] ! 3 = dec q"
    by (simp_all add: numeral_2_eq_2 numeral_3_eq_3)
  have "run_command e y a [''simpleFS'', ''retrieve'', dec f, dec q] s = Done () (s\<lparr>fs_sent := fs_sent s @ [m]\<rparr>)"
    unfolding run_command_def n by (simp add: sfs_atoi_def atoi_dec g)
  then have main: "sfs_main e y [''simpleFS'', ''retrieve'', dec f, dec q] s = Done 0 (s\<lparr>fs_sent := fs_sent s @ [m]\<rparr>)"
    unfolding sfs_main_def n using assms(1-4) by (simp add: my_inet_aton_ntoa sfs_init_sock_def)
  have "length m = 24" "m ! 0 = 1" "word_at (ke_big_endian e) m 0 = a"
    by (simp_all add: m_def fileReq_bytes_def r_def)
  moreover have "bytes_fileReq (ke_big_endian e) m = r"
    by (simp add: m_def fileReq_bytes_def bytes_fileReq_def r_def)
  ultimately show ?thesis
    using main by (intro exI [of _ m]) (simp add: read_request_def convert_flreq_to_host_def r_def valid_cache_packet_def)
qed

definition demo_sys :: sys where
  "demo_sys = \<lparr>sy_ifaddrs = [(''lo'', Some (2, 0x7f000001)), (''wlan0'', Some (17, 0)), (''wlan0'', Some (2, 0xc0a8000a))],
     sy_mkdir = True, sy_fopen = (\<lambda>_. True), sy_socket = True, sy_enable_broadcast = True, sy_bind_device = True,
     sy_malloc = (\<lambda>_. True), sy_sendto = (\<lambda>_. True), sy_junk = (\<lambda>_. (0, 0, 0))\<rparr>"

definition new_sfs :: sfs where
  "new_sfs = \<lparr>fs_myfs = False, fs_files = [], fs_sent = [], fs_slept = 0\<rparr>"

theorem file_request_understood_witness:
  "\<exists>m. sfs_main demo_env demo_sys [''simpleFS'', ''retrieve'', dec 12, dec 7] new_sfs = Done 0 (new_sfs\<lparr>fs_sent := [m]\<rparr>)
    \<and> fq_file_id (read_request demo_env m) = 12"
  using file_request_understood [where e = demo_env and y = demo_sys and a = "0xc0a8000a" and s = new_sfs and f = "12" and q = "7"]
  by (auto simp: demo_sys_def new_sfs_def)

section \<open>A created fragment\<close>

lemma strtok_pair:
  assumes "f \<noteq> []" "CHR ''-'' \<notin> set f" "g \<noteq> []" "CHR ''-'' \<notin> set g"
  shows "strtok_r (f @ ''-'' @ g) ''-'' = (Some f, g)" "fst (strtok_r g ''-'') = Some g"
proof -
  have stop: "dropWhile (\<lambda>c. c = CHR ''-'') (x @ r) = x @ r" "takeWhile (\<lambda>c. c \<noteq> CHR ''-'') (x @ CHR ''-'' # r) = x"
    "dropWhile (\<lambda>c. c \<noteq> CHR ''-'') (x @ CHR ''-'' # r) = CHR ''-'' # r"
    if "x \<noteq> []" "CHR ''-'' \<notin> set x" for x r :: string
    using that by (cases x; force simp: takeWhile_append dropWhile_append)+
  have "takeWhile (\<lambda>c. c \<noteq> CHR ''-'') g = g" using assms(4) by (auto simp: takeWhile_eq_all_conv)
  then show "strtok_r (f @ ''-'' @ g) ''-'' = (Some f, g)" "fst (strtok_r g ''-'') = Some g"
    using stop [OF assms(1,2)] stop(1) [OF assms(3,4), of "[]"] assms(1,3) by (simp_all add: strtok_r_def)
qed

lemma dec_clean: "CHR ''-'' \<notin> set (dec n)" "CHR ''%'' \<notin> set (dec n)"
  using dec_digits [of "CHR ''-''" n] dec_digits [of "CHR ''%''" n] by (auto simp: my_isdigit_def)

text \<open>C28. What the tool creates, the caching module loads. \<open>simpleFS create F G\<close> makes the file \<open>/myfs/F-G\<close>, and the
  directory and its marker \<open>/myfs/a\<close> when they are missing. When the module is loaded it reads that name as fragment G of
  file F and becomes its service centre, provided the name is shorter than ten characters: longer
  ones, up to thirteen, are created and never loaded.\<close>

theorem created_fragment_loaded:
  assumes "name = dec f @ ''-'' @ dec g" "length name \<le> 13" "length (dec f) < 10" "length (dec g) < 10"
    and "sy_mkdir y" "\<forall>p. sy_fopen y p"
  shows "createFrag y (dec f) (dec g) s =
      Done 0 (s\<lparr>fs_myfs := True,
                fs_files := fs_files s @ (if fs_myfs s then [] else [''/myfs/a'']) @ [''/myfs/'' @ name]\<rparr>)
    \<and> init_cache_name e name c =
       (if length name < 10 then snd (create_cache e (of_nat f) (of_nat g) 1 c) else c)"
proof -
  have m: "make_myfs y s = Done () (s\<lparr>fs_myfs := True, fs_files := fs_files s @ (if fs_myfs s then [] else [''/myfs/a''])\<rparr>)"
    using assms(5,6) by (simp add: make_myfs_def fopen_w_def)
  have "sprintf_into 10 (dec f) = Some (dec f)" "sprintf_into 10 (dec g) = Some (dec g)"
    using assms(3,4) dec_clean(2) by (simp_all add: sprintf_into_def)
  moreover have "\<not> 20 \<le> length (''/myfs/'' @ dec f @ ''-'' @ dec g)" using assms(1,2) by simp
  ultimately have "createFrag y (dec f) (dec g) s =
      Done 0 (s\<lparr>fs_myfs := True,
                fs_files := fs_files s @ (if fs_myfs s then [] else [''/myfs/a'']) @ [''/myfs/'' @ name]\<rparr>)"
    using assms(6) by (simp add: createFrag_def m Let_def fopen_w_def assms(1))
  moreover have "init_cache_name e name c =
      (if length name < 10 then snd (create_cache e (of_nat f) (of_nat g) 1 c) else c)"
  proof -
    have "CHR ''%'' \<notin> set name" using dec_clean(2) by (simp add: assms(1))
    moreover have "strtok_r name ''-'' = (Some (dec f), dec g)" "fst (strtok_r (dec g) ''-'') = Some (dec g)"
      unfolding assms(1) using strtok_pair [of "dec f" "dec g"] dec_clean(1) by simp_all
    ultimately show ?thesis by (simp add: init_cache_name_def atoi_dec case_prod_beta)
  qed
  ultimately show ?thesis by blast
qed

theorem created_fragment_loaded_witness:
  "createFrag demo_sys (dec 12) (dec 3) new_sfs = Done 0 (new_sfs\<lparr>fs_myfs := True, fs_files := [''/myfs/a'', ''/myfs/12-3'']\<rparr>)"
proof -
  have "dec 12 = ''12''" "dec 3 = ''3''" by code_simp+
  then show ?thesis
    using created_fragment_loaded [OF refl, where f = "12" and g = "3" and y = demo_sys and s = new_sfs] by (simp add: demo_sys_def new_sfs_def)
qed

end
