(* ===== verification/LinkedList.thy ===== *)
theory LinkedList
  imports Prelude "HOL-Library.Monad_Syntax"
begin

text \<open>
  Doubly linked lists at the level of pointers. Every table of the two modules is one: the route
  table of kaodv and the cache table, request list, reply list and exchange table of caching. The
  functions that link and unlink a node are the same five times over; they are modelled here on
  a heap of cells with \<open>next\<close> and \<open>prev\<close> fields, where using a pointer to no cell gives
  None. The theorems show that on a well-formed list they never do, keep both link
  directions consistent, and refine the node-list operations that the other theories use.
\<close>

record 'a cell =
  c_next :: "addr option"
  c_prev :: "addr option"
  c_data :: 'a

type_synonym 'a heap = "addr \<Rightarrow> 'a cell option"

record 'a dlist =
  d_head :: "addr option"
  d_heap :: "'a heap"

definition set_next :: "addr \<Rightarrow> addr option \<Rightarrow> 'a heap \<Rightarrow> 'a heap option" where
  "set_next a p h = (case h a of None \<Rightarrow> None | Some c \<Rightarrow> Some (h(a \<mapsto> c\<lparr>c_next := p\<rparr>)))"

definition set_prev :: "addr \<Rightarrow> addr option \<Rightarrow> 'a heap \<Rightarrow> 'a heap option" where
  "set_prev a p h = (case h a of None \<Rightarrow> None | Some c \<Rightarrow> Some (h(a \<mapsto> c\<lparr>c_prev := p\<rparr>)))"

section \<open>The operations\<close>

text \<open>Unlinking a node and freeing it (\<open>remove_aodv_route\<close>, \<open>remove_cache\<close>, \<open>remove_creq\<close>,
  \<open>remove_rinfo\<close>, \<open>remove_extable\<close>).\<close>

definition unlink_node :: "'a dlist \<Rightarrow> addr \<Rightarrow> 'a dlist option" where
  "unlink_node d dead = do {
     c \<leftarrow> d_heap d dead;
     let head' = (if d_head d = Some dead then c_next c else d_head d);
     h1 \<leftarrow> (case c_prev c of None \<Rightarrow> Some (d_heap d) | Some p \<Rightarrow> set_next p (c_next c) (d_heap d));
     c1 \<leftarrow> h1 dead;
     h2 \<leftarrow> (case c_next c1 of None \<Rightarrow> Some h1 | Some n \<Rightarrow> set_prev n (c_prev c1) h1);
     Some \<lparr>d_head = head', d_heap = h2(dead := None)\<rparr>
   }"

text \<open>Linking a fresh node in front (\<open>insert_cache\<close>, \<open>insert_creq\<close>, \<open>insert_rinfo\<close>,
  \<open>insert_extable\<close>).\<close>

definition link_front :: "'a dlist \<Rightarrow> addr \<Rightarrow> 'a dlist option" where
  "link_front d new =
     (case d_head d of
        None \<Rightarrow> Some (d\<lparr>d_head := Some new\<rparr>)
      | Some first \<Rightarrow> do {
          h1 \<leftarrow> set_next new (Some first) (d_heap d);
          h2 \<leftarrow> set_prev first (Some new) h1;
          c \<leftarrow> h2 first;
          Some \<lparr>d_head = c_prev c, d_heap = h2\<rparr>
        })"

text \<open>The walk to the insertion point: the last node passed and the node stopped at.\<close>

partial_function (option) walk_while ::
  "('a \<Rightarrow> bool) \<Rightarrow> 'a heap \<Rightarrow> addr option \<Rightarrow> addr option \<Rightarrow> (addr option \<times> addr option) option" where
  "walk_while P h prev tmp =
     (case tmp of
        None \<Rightarrow> Some (prev, None)
      | Some a \<Rightarrow> (case h a of
          None \<Rightarrow> None
        | Some c \<Rightarrow> if P (c_data c) then walk_while P h (Some a) (c_next c) else Some (prev, Some a)))"

text \<open>Linking a fresh node in key order (\<open>insert_aodv_route\<close>).\<close>

definition link_sorted :: "('a \<Rightarrow> 'k::linorder) \<Rightarrow> 'a dlist \<Rightarrow> addr \<Rightarrow> 'a dlist option" where
  "link_sorted k d new = do {
     nc \<leftarrow> d_heap d new;
     (prev, tmp) \<leftarrow> walk_while (\<lambda>x. k x < k (c_data nc)) (d_heap d) None (d_head d);
     d1 \<leftarrow> (case d_head d of
              None \<Rightarrow> Some d
            | Some first \<Rightarrow>
                if tmp = Some first
                then do {
                  h1 \<leftarrow> set_prev first (Some new) (d_heap d);
                  h2 \<leftarrow> set_next new (Some first) h1;
                  Some \<lparr>d_head = Some new, d_heap = h2\<rparr>
                }
                else Some d);
     let d2 = (if d_head d1 = None then d1\<lparr>d_head := Some new\<rparr> else d1);
     (case prev of
        None \<Rightarrow> Some d2
      | Some p \<Rightarrow> do {
          pc \<leftarrow> d_heap d2 p;
          h1 \<leftarrow> (case c_next pc of None \<Rightarrow> Some (d_heap d2)
                                 | Some n \<Rightarrow> set_prev n (Some new) (d_heap d2));
          h2 \<leftarrow> set_next new (c_next pc) h1;
          h3 \<leftarrow> (case h2 new of None \<Rightarrow> None | Some c \<Rightarrow> Some (h2(new \<mapsto> c\<lparr>c_prev := Some p\<rparr>)));
          h4 \<leftarrow> set_next p (Some new) h3;
          Some (d2\<lparr>d_heap := h4\<rparr>)
        })
   }"

text \<open>Removing the marked nodes in one walk (\<open>flush_extable\<close>, \<open>flush_rinfo\<close>,
  \<open>cleanup_cache_table\<close>): the successor is read before the node is freed.\<close>

partial_function (option) purge_nodes ::
  "('a \<Rightarrow> bool) \<Rightarrow> 'a dlist \<Rightarrow> addr option \<Rightarrow> 'a dlist option" where
  "purge_nodes P d tmp =
     (case tmp of
        None \<Rightarrow> Some d
      | Some a \<Rightarrow> (case d_heap d a of
          None \<Rightarrow> None
        | Some c \<Rightarrow>
            if P (c_data c)
            then (case unlink_node d a of None \<Rightarrow> None | Some d' \<Rightarrow> purge_nodes P d' (c_next c))
            else purge_nodes P d (c_next c)))"

section \<open>Representation\<close>

text \<open>
  \<open>dseg h pv p ns lst nx\<close>: following \<open>next\<close> from p passes exactly the nodes ns and arrives
  at nx, and the \<open>prev\<close> links mirror it, starting from pv and ending at lst.
\<close>

fun dseg :: "'a heap \<Rightarrow> addr option \<Rightarrow> addr option \<Rightarrow> 'a nodes \<Rightarrow> addr option \<Rightarrow> addr option \<Rightarrow> bool" where
  "dseg h pv p [] lst nx \<longleftrightarrow> p = nx \<and> lst = pv"
| "dseg h pv p ((a, x) # ns) lst nx \<longleftrightarrow>
     p = Some a \<and> (\<exists>q. h a = Some \<lparr>c_next = q, c_prev = pv, c_data = x\<rparr> \<and> dseg h (Some a) q ns lst nx)"

definition dl_rep :: "'a dlist \<Rightarrow> 'a nodes \<Rightarrow> bool" where
  "dl_rep d ns \<longleftrightarrow> distinct (nl_addrs ns) \<and> (\<exists>lst. dseg (d_heap d) None (d_head d) ns lst None)"

lemma dseg_append:
  "dseg h pv p (ns @ ms) lst nx \<longleftrightarrow> (\<exists>m q. dseg h pv p ns m q \<and> dseg h m q ms lst nx)"
  by (induction ns arbitrary: pv p) (auto, blast+)

lemma dseg_frame [simp]:
  "a \<notin> set (nl_addrs ns) \<Longrightarrow> dseg (h(a := v)) pv p ns lst nx = dseg h pv p ns lst nx"
  by (induction ns arbitrary: pv p) auto

lemma dseg_in_heap: "dseg h pv p ns lst nx \<Longrightarrow> a \<in> set (nl_addrs ns) \<Longrightarrow> h a \<noteq> None"
  by (induction ns arbitrary: pv p) auto

lemma dseg_last:
  assumes "dseg h pv p (ns @ [(b, y)]) lst nx"
  shows "lst = Some b" "\<exists>pv'. h b = Some \<lparr>c_next = nx, c_prev = pv', c_data = y\<rparr>"
  using assms by (auto simp: dseg_append)

text \<open>Redirecting the link that leaves a segment, and the link that enters it from behind.\<close>

lemma dseg_set_next_last:
  assumes "dseg h pv p (ns @ [(b, y)]) lst nx" "distinct (nl_addrs (ns @ [(b, y)]))" "h b = Some c"
  shows "dseg (h(b \<mapsto> c\<lparr>c_next := nx'\<rparr>)) pv p (ns @ [(b, y)]) lst nx'"
  using assms by (auto simp: dseg_append)

lemma dseg_set_prev_first:
  assumes "dseg h pv (Some a) ns lst nx" "distinct (nl_addrs ns)" "ns \<noteq> []" "h a = Some c"
  shows "dseg (h(a \<mapsto> c\<lparr>c_prev := pv'\<rparr>)) pv' (Some a) ns lst nx"
  using assms by (cases ns) auto


lemma dseg_head:
  "dseg h pv p ns lst nx \<Longrightarrow> ns \<noteq> [] \<Longrightarrow> p = Some (fst (ns ! 0))"
  by (cases ns) auto

lemma dl_rep_head: "dl_rep d ns \<Longrightarrow> d_head d = (case ns of [] \<Rightarrow> None | n # _ \<Rightarrow> Some (fst n))"
  by (cases ns) (auto simp: dl_rep_def)

lemma in_addrs_split: "a \<in> set (nl_addrs ns) \<Longrightarrow> \<exists>xs x ys. ns = xs @ (a, x) # ys"
  by (induction ns) (auto intro: exI [of _ "[]"], metis append_Cons)

section \<open>Refinement\<close>

lemma unlink_node_split:
  assumes seg: "dseg (d_heap d) None (d_head d) (xs @ (a, x) # ys) lst None"
    and dist: "distinct (nl_addrs (xs @ (a, x) # ys))"
  shows "\<exists>d'. unlink_node d a = Some d' \<and> dl_rep d' (xs @ ys) \<and> d_heap d' a = None
    \<and> (\<forall>b. b \<notin> set (nl_addrs (xs @ (a, x) # ys)) \<longrightarrow> d_heap d' b = d_heap d b)"
proof -
  let ?h = "d_heap d"
  obtain m q where xs: "dseg ?h None (d_head d) xs m (Some a)"
    and a: "?h a = Some \<lparr>c_next = q, c_prev = m, c_data = x\<rparr>" and ys: "dseg ?h (Some a) q ys lst None"
    using seg by (auto simp: dseg_append)
  show ?thesis
  proof (cases xs rule: rev_cases)
    case Nil
    with xs have h: "d_head d = Some a" "m = None" by auto
    show ?thesis
    proof (cases ys)
      case Nil
      with ys \<open>xs = []\<close> a h show ?thesis by (auto simp: unlink_node_def dl_rep_def)
    next
      case (Cons by' ys')
      then obtain b y where by': "by' = (b, y)" by (cases by')
      with Cons ys have q: "q = Some b" by simp
      with Cons by' ys dist \<open>xs = []\<close> a h show ?thesis
        by (auto simp: unlink_node_def set_prev_def dl_rep_def)
    qed
  next
    case (snoc xs' pz)
    then obtain p z where pz: "pz = (p, z)" by (cases pz)
    with snoc xs have m: "m = Some p" by (auto simp: dseg_append)
    obtain pv where p: "?h p = Some \<lparr>c_next = Some a, c_prev = pv, c_data = z\<rparr>"
      using xs snoc pz by (auto simp: dseg_append)
    have hd: "d_head d \<noteq> Some a" using xs snoc pz dist by (cases xs') auto
    have seg': "dseg (?h(p \<mapsto> \<lparr>c_next = q, c_prev = pv, c_data = z\<rparr>)) None (d_head d) xs (Some p) q"
      using xs snoc pz m p dist by (auto simp: dseg_append)
    show ?thesis
    proof (cases ys)
      case Nil
      with ys seg' a p m hd dist snoc pz show ?thesis
        by (auto simp: unlink_node_def set_next_def dl_rep_def)
    next
      case (Cons by' ys')
      then obtain b y where by': "by' = (b, y)" by (cases by')
      with Cons ys have q: "q = Some b" by simp
      with Cons by' ys seg' dist snoc pz a p m hd show ?thesis
        by (auto simp: unlink_node_def set_prev_def set_next_def dl_rep_def dseg_append)
    qed
  qed
qed

lemma unlink_node_rep:
  assumes "dl_rep d ns" "a \<in> set (nl_addrs ns)"
  shows "\<exists>d'. unlink_node d a = Some d' \<and> dl_rep d' (nl_del a ns) \<and> d_heap d' a = None"
proof -
  obtain xs x ys where ns: "ns = xs @ (a, x) # ys" using in_addrs_split [OF assms(2)] by blast
  moreover obtain lst where "dseg (d_heap d) None (d_head d) ns lst None" "distinct (nl_addrs ns)"
    using assms(1) by (auto simp: dl_rep_def)
  moreover from this ns have "nl_del a ns = xs @ ys" by auto
  ultimately show ?thesis using unlink_node_split [of d xs a x ys lst] by auto
qed

lemma link_front_rep:
  assumes "dl_rep d ns" "new \<notin> set (nl_addrs ns)"
    "d_heap d new = Some \<lparr>c_next = None, c_prev = None, c_data = x\<rparr>"
  shows "\<exists>d'. link_front d new = Some d' \<and> dl_rep d' ((new, x) # ns)"
proof (cases ns)
  case Nil
  with assms show ?thesis by (auto simp: link_front_def dl_rep_def)
next
  case (Cons n ms)
  then obtain b y where n: "n = (b, y)" by (cases n)
  with Cons assms show ?thesis
    by (auto simp: link_front_def set_next_def set_prev_def dl_rep_def)
qed


lemma walk_while_split:
  assumes "dseg h pv p (xs @ ys) lst None" "\<forall>x \<in> set (nl_vals xs). P x"
    "ys = [] \<or> \<not> P (snd (hd ys))"
  shows "walk_while P h prev p =
    Some (if xs = [] then prev else Some (fst (last xs)), if ys = [] then None else Some (fst (hd ys)))"
  using assms
proof (induction xs arbitrary: pv p prev)
  case Nil
  then show ?case by (cases ys) (auto simp: walk_while.simps)
next
  case (Cons n xs)
  then show ?case by (cases n) (auto simp: walk_while.simps)
qed

lemma link_sorted_rep:
  assumes rep: "dl_rep d ns" and new: "new \<notin> set (nl_addrs ns)"
    "d_heap d new = Some \<lparr>c_next = None, c_prev = None, c_data = x\<rparr>"
  shows "\<exists>d'. link_sorted k d new = Some d' \<and> dl_rep d' (nl_insert k (new, x) ns)"
proof -
  let ?h = "d_heap d" and ?P = "\<lambda>y. k y < k x"
  define xs where "xs = takeWhile (\<lambda>m. k (snd m) < k x) ns"
  define ys where "ys = dropWhile (\<lambda>m. k (snd m) < k x) ns"
  have ns: "ns = xs @ ys" by (simp add: xs_def ys_def)
  have ins: "nl_insert k (new, x) ns = xs @ (new, x) # ys"
    by (simp add: nl_insert_split xs_def ys_def)
  have xsP: "\<forall>y \<in> set (nl_vals xs). ?P y" unfolding xs_def nl_vals_def by (auto dest: set_takeWhileD)
  have ysP: "ys = [] \<or> \<not> ?P (snd (hd ys))" 
    using hd_dropWhile [of "\<lambda>m. k (snd m) < k x" ns] by (auto simp: ys_def)
  obtain lst where seg: "dseg ?h None (d_head d) (xs @ ys) lst None" and dist: "distinct (nl_addrs (xs @ ys))"
    using rep ns by (auto simp: dl_rep_def)
  have walk: "walk_while ?P ?h None (d_head d) =
      Some (if xs = [] then None else Some (fst (last xs)), if ys = [] then None else Some (fst (hd ys)))"
    by (rule walk_while_split [OF seg xsP ysP])
  note defs = link_sorted_def set_next_def set_prev_def dl_rep_def
  show ?thesis
  proof (cases xs rule: rev_cases)
    case Nil
    show ?thesis
    proof (cases ys)
      case Nil
      with \<open>xs = []\<close> seg walk new ins show ?thesis by (auto simp: defs)
    next
      case (Cons n ys')
      obtain b y where "n = (b, y)" by (cases n)
      with Cons \<open>xs = []\<close> seg dist walk new ins ns show ?thesis by (auto simp: defs)
    qed
  next
    case (snoc xs' pz)
    obtain p z where pz: "pz = (p, z)" by (cases pz)
    have hd: "d_head d = Some (fst (hd xs))" using seg snoc pz by (cases xs') auto
    show ?thesis
    proof (cases ys)
      case Nil
      with snoc pz seg dist walk new ins ns hd show ?thesis
        by (auto simp: defs dseg_append)
    next
      case (Cons n ys')
      obtain b y where n: "n = (b, y)" by (cases n)
      obtain pv q where p: "?h p = Some \<lparr>c_next = Some b, c_prev = pv, c_data = z\<rparr>"
        and b: "?h b = Some \<lparr>c_next = q, c_prev = Some p, c_data = y\<rparr>"
        and l: "dseg ?h None (d_head d) xs' pv (Some p)" and r: "dseg ?h (Some b) q ys' lst None"
        using seg by (auto simp: snoc pz Cons n dseg_append)
      have ne: "p \<noteq> b" "new \<noteq> p" "new \<noteq> b"
        and nx: "p \<notin> set (nl_addrs xs')" "b \<notin> set (nl_addrs xs')" "new \<notin> set (nl_addrs xs')"
        and ny: "p \<notin> set (nl_addrs ys')" "b \<notin> set (nl_addrs ys')" "new \<notin> set (nl_addrs ys')"
        and dd: "distinct (nl_addrs xs')" "distinct (nl_addrs ys')"
          "set (nl_addrs xs') \<inter> set (nl_addrs ys') = {}"
        using dist new(1) by (auto simp: ns snoc pz Cons n)
      have w: "walk_while ?P ?h None (d_head d) = Some (Some p, Some b)"
        using walk by (simp add: snoc pz Cons n)
      have hb: "d_head d \<noteq> Some b" "d_head d \<noteq> None"
        using hd nx by (cases xs'; auto simp: snoc pz ne)+
      define h4 where "h4 = ?h(b \<mapsto> \<lparr>c_next = q, c_prev = Some new, c_data = y\<rparr>,
        new \<mapsto> \<lparr>c_next = Some b, c_prev = Some p, c_data = x\<rparr>,
        p \<mapsto> \<lparr>c_next = Some new, c_prev = pv, c_data = z\<rparr>)"
      have "link_sorted k d new = Some (d\<lparr>d_heap := h4\<rparr>)"
        using hb by (auto simp: link_sorted_def set_next_def set_prev_def new w p b ne h4_def
            ne [symmetric] fun_upd_twist)
      moreover have "dl_rep (d\<lparr>d_heap := h4\<rparr>) (nl_insert k (new, x) ns)"
        using l r ne nx ny dd by (auto simp: dl_rep_def ins snoc pz Cons n dseg_append h4_def)
      ultimately show ?thesis by blast
    qed
  qed
qed

lemma dl_rep_segD:
  "dl_rep d ns \<Longrightarrow> \<exists>lst. dseg (d_heap d) None (d_head d) ns lst None"
  by (auto simp: dl_rep_def)

lemma purge_nodes_seg:
  assumes "dl_rep d (xs @ ys)" "\<exists>pv lst. dseg (d_heap d) pv tmp ys lst None"
  shows "\<exists>d'. purge_nodes P d tmp = Some d' \<and> dl_rep d' (xs @ filter (\<lambda>n. \<not> P (snd n)) ys)"
  using assms
proof (induction ys arbitrary: d xs tmp)
  case Nil
  then show ?case by (auto simp: purge_nodes.simps)
next
  case (Cons n ys)
  obtain a x where n: "n = (a, x)" by (cases n)
  from Cons.prems(2) n obtain pv q lst where tmp: "tmp = Some a"
    and a: "d_heap d a = Some \<lparr>c_next = q, c_prev = pv, c_data = x\<rparr>"
    and ys: "dseg (d_heap d) (Some a) q ys lst None" by auto
  show ?case
  proof (cases "P x")
    case True
    obtain lst' where seg: "dseg (d_heap d) None (d_head d) (xs @ (a, x) # ys) lst' None"
      and dist: "distinct (nl_addrs (xs @ (a, x) # ys))"
      using Cons.prems(1) n by (auto simp: dl_rep_def)
    obtain d' where d': "unlink_node d a = Some d'" "dl_rep d' (xs @ ys)"
      using unlink_node_split [OF seg dist] by blast
    obtain m r lst'' where m: "dseg (d_heap d') m r ys lst'' None"
      using d'(2) by (auto simp: dl_rep_def dseg_append)
    have r: "r = q"
      using m ys by (cases ys) auto
    from Cons.IH [OF d'(2)] m r obtain d'' where
      "purge_nodes P d' q = Some d''" "dl_rep d'' (xs @ filter (\<lambda>n. \<not> P (snd n)) ys)" by blast
    with tmp a d' True n show ?thesis by (auto simp: purge_nodes.simps [of P d])
  next
    case False
    from Cons.IH [of d "xs @ [n]" q] Cons.prems(1) ys obtain d' where
      "purge_nodes P d q = Some d'" "dl_rep d' ((xs @ [n]) @ filter (\<lambda>n. \<not> P (snd n)) ys)" by auto
    with tmp a False n show ?thesis by (auto simp: purge_nodes.simps [of P d])
  qed
qed

lemma purge_nodes_rep:
  assumes "dl_rep d ns"
  shows "\<exists>d'. purge_nodes P d (d_head d) = Some d' \<and> dl_rep d' (filter (\<lambda>n. \<not> P (snd n)) ns)"
  using purge_nodes_seg [of d "[]" ns "d_head d" P] assms dl_rep_segD [OF assms] by auto

section \<open>Runs of operations\<close>

text \<open>What the modules do to a table: link a new node in front or in order, unlink one, or remove all with a property.\<close>

datatype 'a list_op = OpFront addr 'a | OpSorted addr 'a | OpUnlink addr | OpPurge "'a \<Rightarrow> bool"

definition fresh_cell :: "addr \<Rightarrow> 'a \<Rightarrow> 'a dlist \<Rightarrow> 'a dlist" where
  "fresh_cell a x d = d\<lparr>d_heap := (d_heap d)(a \<mapsto> \<lparr>c_next = None, c_prev = None, c_data = x\<rparr>)\<rparr>"

definition pointer_op :: "('a \<Rightarrow> 'k::linorder) \<Rightarrow> 'a list_op \<Rightarrow> 'a dlist \<Rightarrow> 'a dlist option" where
  "pointer_op k oper d = (case oper of
     OpFront a x \<Rightarrow> link_front (fresh_cell a x d) a
   | OpSorted a x \<Rightarrow> link_sorted k (fresh_cell a x d) a
   | OpUnlink a \<Rightarrow> unlink_node d a
   | OpPurge P \<Rightarrow> purge_nodes P d (d_head d))"

definition nodes_op :: "('a \<Rightarrow> 'k::linorder) \<Rightarrow> 'a list_op \<Rightarrow> 'a nodes \<Rightarrow> 'a nodes" where
  "nodes_op k oper ns = (case oper of
     OpFront a x \<Rightarrow> (a, x) # ns
   | OpSorted a x \<Rightarrow> nl_insert k (a, x) ns
   | OpUnlink a \<Rightarrow> nl_del a ns
   | OpPurge P \<Rightarrow> filter (\<lambda>n. \<not> P (snd n)) ns)"

text \<open>A new node has a new address; a node unlinked is in the table.\<close>

definition allowed :: "'a list_op \<Rightarrow> 'a nodes \<Rightarrow> bool" where
  "allowed oper ns = (case oper of
     OpFront a x \<Rightarrow> a \<notin> set (nl_addrs ns) | OpSorted a x \<Rightarrow> a \<notin> set (nl_addrs ns)
   | OpUnlink a \<Rightarrow> a \<in> set (nl_addrs ns) | OpPurge P \<Rightarrow> True)"

fun pointer_run :: "('a \<Rightarrow> 'k::linorder) \<Rightarrow> 'a list_op list \<Rightarrow> 'a dlist \<Rightarrow> 'a dlist option" where
  "pointer_run k [] d = Some d"
| "pointer_run k (oper # ops) d = Option.bind (pointer_op k oper d) (pointer_run k ops)"

fun nodes_run :: "('a \<Rightarrow> 'k::linorder) \<Rightarrow> 'a list_op list \<Rightarrow> 'a nodes \<Rightarrow> 'a nodes" where
  "nodes_run k [] ns = ns"
| "nodes_run k (oper # ops) ns = nodes_run k ops (nodes_op k oper ns)"

fun allowed_run :: "('a \<Rightarrow> 'k::linorder) \<Rightarrow> 'a list_op list \<Rightarrow> 'a nodes \<Rightarrow> bool" where
  "allowed_run k [] ns = True"
| "allowed_run k (oper # ops) ns = (allowed oper ns \<and> allowed_run k ops (nodes_op k oper ns))"

lemma fresh_cell_rep:
  "dl_rep d ns \<Longrightarrow> a \<notin> set (nl_addrs ns) \<Longrightarrow>
   dl_rep (fresh_cell a x d) ns \<and> d_heap (fresh_cell a x d) a = Some \<lparr>c_next = None, c_prev = None, c_data = x\<rparr>"
  by (auto simp: dl_rep_def fresh_cell_def)

lemma pointer_op_refines:
  assumes "dl_rep d ns" "allowed oper ns"
  shows "\<exists>d'. pointer_op k oper d = Some d' \<and> dl_rep d' (nodes_op k oper ns)"
proof (cases oper)
  case (OpFront a x)
  with assms fresh_cell_rep [OF assms(1), of a x] show ?thesis
    by (auto simp: allowed_def pointer_op_def nodes_op_def intro!: link_front_rep)
next
  case (OpSorted a x)
  with assms fresh_cell_rep [OF assms(1), of a x] show ?thesis
    by (auto simp: allowed_def pointer_op_def nodes_op_def intro!: link_sorted_rep)
next
  case (OpUnlink a)
  with assms unlink_node_rep [OF assms(1), of a] show ?thesis
    by (auto simp: allowed_def pointer_op_def nodes_op_def)
next
  case (OpPurge P)
  with purge_nodes_rep [OF assms(1), of P] show ?thesis
    by (simp add: pointer_op_def nodes_op_def)
qed

text \<open>C37. The tables are what the other theories take them for. Any run of insertions in front, insertions in
  order, removals and purges, done on cells with \<open>next\<close> and \<open>prev\<close> pointers as the code does them, never follows a
  pointer to nothing, and leaves a list, consistent in both directions, that holds exactly what the
  corresponding operations on lists of nodes give.\<close>

theorem linked_table_refines:
  assumes "dl_rep d ns" "allowed_run k ops ns"
  shows "\<exists>d'. pointer_run k ops d = Some d' \<and> dl_rep d' (nodes_run k ops ns)"
  using assms
proof (induction ops arbitrary: d ns)
  case (Cons oper ops)
  then obtain d' where d': "pointer_op k oper d = Some d'" "dl_rep d' (nodes_op k oper ns)"
    using pointer_op_refines [of d ns oper k] by auto
  with Cons.IH [OF d'(2)] Cons.prems(2) show ?case by simp
qed simp

theorem linked_table_refines_witness:
  "\<exists>d'. pointer_run (\<lambda>x. x) [OpSorted 4 (7 :: nat), OpSorted 9 5, OpFront 2 1, OpUnlink 4]
      \<lparr>d_head = None, d_heap = Map.empty\<rparr> = Some d' \<and> dl_rep d' [(2, 1), (9, 5)]"
  using linked_table_refines [of "\<lparr>d_head = None, d_heap = Map.empty\<rparr>" "[]" "\<lambda>x. x"
      "[OpSorted 4 (7 :: nat), OpSorted 9 5, OpFront 2 1, OpUnlink 4]"]
  by (simp add: dl_rep_def allowed_def nodes_op_def)

end
