(* ===== verification/TaskQueue.thy ===== *)
theory TaskQueue
  imports LinkedList
begin

text \<open>
  The queue between the packet hooks and the module's thread: \<open>kaodv/src/task_queue.c\<close> and its
  copy \<open>caching/src/cTask.c\<close>, on the heap of cells of LinkedList. Tasks are linked in at
  \<open>task_q\<close> and taken out at \<open>task_end\<close>, following \<open>prev\<close>; the consumer frees what it
  takes. Nothing resets the \<open>next\<close> field of the task that becomes the last one, so
  it keeps pointing at the freed task; \<open>cleanup_task_queue\<close> follows it.

  The contract the thread relies on is the locale \<open>fifo\<close>; the queue of the code
  is an instance of it.
\<close>

record 'a tqueue =
  tq_q :: "addr option"
  tq_end :: "addr option"
  tq_heap :: "'a heap"

definition init_task_queue :: "'a tqueue \<Rightarrow> 'a tqueue" where
  "init_task_queue st = st\<lparr>tq_q := None, tq_end := None\<rparr>"

text \<open>\<open>queue_aodv_task\<close> / \<open>queue_task\<close>: the new entry is a cell of the heap already.\<close>

definition queue_entry :: "addr \<Rightarrow> 'a tqueue \<Rightarrow> 'a tqueue option" where
  "queue_entry new st = do {
     c \<leftarrow> tq_heap st new;
     let h1 = (tq_heap st)(new \<mapsto> c\<lparr>c_next := tq_q st, c_prev := None\<rparr>);
     h2 \<leftarrow> (case tq_q st of None \<Rightarrow> Some h1 | Some q \<Rightarrow> set_prev q (Some new) h1);
     let e = (if tq_end st = None then Some new else tq_end st);
     Some (st\<lparr>tq_q := Some new, tq_end := e, tq_heap := h2\<rparr>)
   }"

definition get_entry :: "'a tqueue \<Rightarrow> (addr option \<times> 'a tqueue) option" where
  "get_entry st =
     (case tq_end st of
        None \<Rightarrow> Some (None, st)
      | Some e \<Rightarrow>
          if tq_end st = tq_q st then Some (Some e, st\<lparr>tq_q := None, tq_end := None\<rparr>)
          else (case tq_heap st e of
                  None \<Rightarrow> None
                | Some c \<Rightarrow> Some (Some e, st\<lparr>tq_end := c_prev c\<rparr>)))"

definition free_entry :: "addr \<Rightarrow> 'a tqueue \<Rightarrow> 'a tqueue option" where
  "free_entry a st =
     (if tq_heap st a = None then None else Some (st\<lparr>tq_heap := (tq_heap st)(a := None)\<rparr>))"

text \<open>\<open>cleanup_task_queue\<close>: clears \<open>task_q\<close> (not \<open>task_end\<close>) and frees along \<open>next\<close>.\<close>

partial_function (option) cleanup_loop :: "addr option \<Rightarrow> 'a tqueue \<Rightarrow> 'a tqueue option" where
  "cleanup_loop tmp st =
     (case tmp of
        None \<Rightarrow> Some st
      | Some a \<Rightarrow> (case tq_heap st a of
          None \<Rightarrow> None
        | Some c \<Rightarrow> cleanup_loop (c_next c) (st\<lparr>tq_heap := (tq_heap st)(a := None)\<rparr>)))"

definition cleanup_task_queue :: "'a tqueue \<Rightarrow> 'a tqueue option" where
  "cleanup_task_queue st = cleanup_loop (tq_q st) (st\<lparr>tq_q := None\<rparr>)"

section \<open>Representation\<close>

text \<open>
  The tasks from \<open>task_q\<close> (newest) to \<open>task_end\<close> (oldest). The last task's \<open>next\<close> is
  left open: this is where the stale pointer sits.
\<close>

definition tq_seg :: "'a tqueue \<Rightarrow> 'a nodes \<Rightarrow> addr option \<Rightarrow> bool" where
  "tq_seg st ns nx \<longleftrightarrow> distinct (nl_addrs ns) \<and> dseg (tq_heap st) None (tq_q st) ns (tq_end st) nx
     \<and> (ns = [] \<longrightarrow> tq_q st = None)"

definition tq_rep :: "'a tqueue \<Rightarrow> 'a nodes \<Rightarrow> bool" where
  "tq_rep st ns \<longleftrightarrow> (\<exists>nx. tq_seg st ns nx)"

lemma tq_seg_end:
  "tq_seg st ns nx \<Longrightarrow> tq_end st = (if ns = [] then None else Some (fst (last ns)))"
  by (cases ns rule: rev_cases) (auto simp: tq_seg_def dseg_append)

lemma tq_seg_q:
  "tq_seg st ns nx \<Longrightarrow> tq_q st = (if ns = [] then None else Some (fst (hd ns)))"
  by (cases ns) (auto simp: tq_seg_def)

lemma queue_entry_seg:
  assumes "tq_seg st ns nx" "new \<notin> set (nl_addrs ns)" "tq_heap st new = Some c"
  shows "\<exists>st'. queue_entry new st = Some st'
    \<and> tq_seg st' ((new, c_data c) # ns) (if ns = [] then None else nx)"
proof (cases ns)
  case Nil
  with assms show ?thesis by (cases c) (auto simp: queue_entry_def tq_seg_def)
next
  case (Cons n ms)
  obtain a x where n: "n = (a, x)" by (cases n)
  have e: "tq_end st \<noteq> None" using tq_seg_end [OF assms(1)] Cons by simp
  show ?thesis using assms Cons n e
    by (cases c) (auto simp: queue_entry_def tq_seg_def set_prev_def)
qed

lemma get_entry_empty: "tq_seg st [] nx \<Longrightarrow> get_entry st = Some (None, st)"
  by (auto simp: get_entry_def tq_seg_def)

lemma get_entry_seg:
  assumes "tq_seg st (ns @ [(a, x)]) nx"
  shows "\<exists>st'. get_entry st = Some (Some a, st') \<and> tq_heap st' = tq_heap st
    \<and> tq_seg st' ns (if ns = [] then None else Some a)"
proof (cases ns rule: rev_cases)
  case Nil
  with assms show ?thesis by (auto simp: get_entry_def tq_seg_def)
next
  case (snoc ms m)
  obtain b y where m: "m = (b, y)" by (cases m)
  have e: "tq_end st = Some a" using tq_seg_end [OF assms] by simp
  have q: "tq_q st \<noteq> Some a"
    using tq_seg_q [OF assms] assms snoc m by (cases ms) (auto simp: tq_seg_def)
  from assms show ?thesis
    using snoc m e q by (auto simp: get_entry_def tq_seg_def dseg_append)
qed

lemma free_entry_seg:
  "tq_seg st ns nx \<Longrightarrow> a \<notin> set (nl_addrs ns) \<Longrightarrow> tq_heap st a \<noteq> None \<Longrightarrow>
   \<exists>st'. free_entry a st = Some st' \<and> tq_seg st' ns nx \<and> tq_heap st' a = None"
  by (auto simp: free_entry_def tq_seg_def)

lemma cleanup_loop_seg:
  assumes "dseg (tq_heap st) pv p ns lst nx" "distinct (nl_addrs ns)"
  shows "cleanup_loop p st =
    cleanup_loop nx (st\<lparr>tq_heap := \<lambda>a. if a \<in> set (nl_addrs ns) then None else tq_heap st a\<rparr>)"
  using assms
proof (induction ns arbitrary: st pv p)
  case (Cons n ns)
  obtain a x where n: "n = (a, x)" by (cases n)
  from Cons.prems n obtain q where a: "p = Some a"
    "tq_heap st a = Some \<lparr>c_next = q, c_prev = pv, c_data = x\<rparr>"
    "dseg (tq_heap st) (Some a) q ns lst nx" by auto
  let ?st = "st\<lparr>tq_heap := (tq_heap st)(a := None)\<rparr>"
  have "a \<notin> set (nl_addrs ns)" using Cons.prems n by simp
  then have seg: "dseg (tq_heap ?st) (Some a) q ns lst nx"
    using a(3) by simp
  have "cleanup_loop p st = cleanup_loop q ?st"
    by (subst cleanup_loop.simps) (simp add: a)
  also have "cleanup_loop q ?st = cleanup_loop nx (?st\<lparr>tq_heap :=
      \<lambda>b. if b \<in> set (nl_addrs ns) then None else tq_heap ?st b\<rparr>)"
    by (rule Cons.IH [OF seg]) (use Cons.prems n in simp)
  also have "(\<lambda>b. if b \<in> set (nl_addrs ns) then None else tq_heap ?st b)
      = (\<lambda>b. if b \<in> set (nl_addrs (n # ns)) then None else tq_heap st b)"
    by (auto simp: n)
  finally show ?case by simp
qed simp


section \<open>The contract\<close>

text \<open>
  A first-in first-out queue as its client sees it: \<open>rep q xs\<close> says that q holds xs,
  oldest first; an operation that goes wrong in memory returns None. Elements carry
  a key that is new when they are put in.
\<close>

fun enq_all :: "('a \<Rightarrow> 'q \<Rightarrow> 'q option) \<Rightarrow> 'a list \<Rightarrow> 'q \<Rightarrow> 'q option" where
  "enq_all enq [] q = Some q"
| "enq_all enq (x # xs) q = (case enq x q of None \<Rightarrow> None | Some q' \<Rightarrow> enq_all enq xs q')"

text \<open>The loop of the thread, \<open>while ((tmp_task = get_task()) != NULL)\<close>, with fuel.\<close>

fun drain :: "('q \<Rightarrow> ('a option \<times> 'q) option) \<Rightarrow> nat \<Rightarrow> 'q \<Rightarrow> ('a list \<times> 'q) option" where
  "drain deq 0 q = None"
| "drain deq (Suc n) q =
     (case deq q of
        None \<Rightarrow> None
      | Some (None, q') \<Rightarrow> Some ([], q')
      | Some (Some x, q') \<Rightarrow> map_option (\<lambda>(xs, q''). (x # xs, q'')) (drain deq n q'))"

locale fifo =
  fixes rep :: "'q \<Rightarrow> 'a list \<Rightarrow> bool"
    and enq :: "'a \<Rightarrow> 'q \<Rightarrow> 'q option"
    and deq :: "'q \<Rightarrow> ('a option \<times> 'q) option"
    and key :: "'a \<Rightarrow> 'k"
  assumes enq_rep: "rep q xs \<Longrightarrow> key x \<notin> key ` set xs \<Longrightarrow> \<exists>q'. enq x q = Some q' \<and> rep q' (xs @ [x])"
    and deq_empty: "rep q [] \<Longrightarrow> \<exists>q'. deq q = Some (None, q') \<and> rep q' []"
    and deq_rep: "rep q (x # xs) \<Longrightarrow> \<exists>q'. deq q = Some (Some x, q') \<and> rep q' xs"
begin

lemma enq_all_rep:
  assumes "rep q xs" "distinct (map key (xs @ ys))"
  shows "\<exists>q'. enq_all enq ys q = Some q' \<and> rep q' (xs @ ys)"
  using assms
proof (induction ys arbitrary: q xs)
  case (Cons y ys)
  obtain q' where "enq y q = Some q'" "rep q' (xs @ [y])"
    using enq_rep [OF Cons.prems(1), of y] Cons.prems(2) by auto
  with Cons.IH [of q' "xs @ [y]"] Cons.prems(2) show ?case by auto
qed auto

lemma drain_rep:
  assumes "rep q xs" "length xs < n"
  shows "\<exists>q'. drain deq n q = Some (xs, q') \<and> rep q' []"
  using assms
proof (induction xs arbitrary: q n)
  case Nil
  then obtain n' where "n = Suc n'" by (cases n) auto
  with deq_empty [OF Nil.prems(1)] show ?case by auto
next
  case (Cons x xs)
  then obtain n' where n: "n = Suc n'" by (cases n) auto
  obtain q' where "deq q = Some (Some x, q')" "rep q' xs"
    using deq_rep [OF Cons.prems(1)] by blast
  with Cons.IH [of q' n'] Cons.prems(2) n show ?case by auto
qed

lemma enq_drain:
  assumes "rep q xs" "distinct (map key (xs @ ys))" "length xs + length ys < n"
  shows "\<exists>q' q''. enq_all enq ys q = Some q' \<and> drain deq n q' = Some (xs @ ys, q'') \<and> rep q'' []"
proof -
  obtain q' where "enq_all enq ys q = Some q'" "rep q' (xs @ ys)"
    using enq_all_rep [OF assms(1,2)] by blast
  moreover from this drain_rep [of q' "xs @ ys" n] assms(3) obtain q'' where
    "drain deq n q' = Some (xs @ ys, q'')" "rep q'' []" by auto
  ultimately show ?thesis by blast
qed

end

section \<open>The task queue is a fifo\<close>

text \<open>
  The producer's step (fill a fresh cell, queue it) and the consumer's step (take a task, read it
  and free it at the end of the loop body).
\<close>

definition tq_enq :: "addr \<times> 'a \<Rightarrow> 'a tqueue \<Rightarrow> 'a tqueue option" where
  "tq_enq t st = queue_entry (fst t)
     (st\<lparr>tq_heap := (tq_heap st)(fst t \<mapsto> \<lparr>c_next = None, c_prev = None, c_data = snd t\<rparr>)\<rparr>)"

definition tq_deq :: "'a tqueue \<Rightarrow> ((addr \<times> 'a) option \<times> 'a tqueue) option" where
  "tq_deq st = do {
     (p, st1) \<leftarrow> get_entry st;
     (case p of
        None \<Rightarrow> Some (None, st1)
      | Some a \<Rightarrow> do {
          c \<leftarrow> tq_heap st1 a;
          st2 \<leftarrow> free_entry a st1;
          Some (Some (a, c_data c), st2)
        })
   }"

definition tq_fifo :: "'a tqueue \<Rightarrow> 'a nodes \<Rightarrow> bool" where
  "tq_fifo st xs = tq_rep st (rev xs)"

lemma tq_enq_seg:
  assumes "tq_seg st ns nx" "fst t \<notin> set (nl_addrs ns)"
  shows "\<exists>st'. tq_enq t st = Some st' \<and> tq_seg st' (t # ns) (if ns = [] then None else nx)"
proof -
  let ?c = "\<lparr>c_next = None, c_prev = None, c_data = snd t\<rparr>"
  let ?st = "st\<lparr>tq_heap := (tq_heap st)(fst t \<mapsto> ?c)\<rparr>"
  have "tq_seg ?st ns nx" using assms by (simp add: tq_seg_def)
  from queue_entry_seg [OF this assms(2), of ?c] show ?thesis by (simp add: tq_enq_def)
qed

lemma tq_deq_seg:
  assumes "tq_seg st (ns @ [(a, x)]) nx"
  shows "\<exists>st'. tq_deq st = Some (Some (a, x), st') \<and> tq_heap st' a = None
    \<and> tq_seg st' ns (if ns = [] then None else Some a)"
proof -
  obtain st1 where g: "get_entry st = Some (Some a, st1)" "tq_heap st1 = tq_heap st"
    "tq_seg st1 ns (if ns = [] then None else Some a)"
    using get_entry_seg [OF assms] by blast
  from assms obtain pv where h: "tq_heap st a = Some \<lparr>c_next = nx, c_prev = pv, c_data = x\<rparr>"
    by (auto simp: tq_seg_def dseg_append)
  have "a \<notin> set (nl_addrs ns)" using assms by (auto simp: tq_seg_def)
  from free_entry_seg [OF g(3) this] g(2) h obtain st2 where
    "free_entry a st1 = Some st2" "tq_heap st2 a = None"
    "tq_seg st2 ns (if ns = [] then None else Some a)" by auto
  with g h show ?thesis by (auto simp: tq_deq_def)
qed

interpretation tq: fifo tq_fifo tq_enq tq_deq fst
proof
  fix q :: "'a tqueue" and xs and x :: "addr \<times> 'a"
  assume "tq_fifo q xs" "fst x \<notin> fst ` set xs"
  then show "\<exists>q'. tq_enq x q = Some q' \<and> tq_fifo q' (xs @ [x])"
    using tq_enq_seg [of q "rev xs" _ x]
    by (fastforce simp: tq_fifo_def tq_rep_def nl_addrs_def)
next
  fix q :: "'a tqueue"
  assume "tq_fifo q []"
  then show "\<exists>q'. tq_deq q = Some (None, q') \<and> tq_fifo q' []"
    by (auto simp: tq_fifo_def tq_rep_def tq_deq_def get_entry_empty)
next
  fix q :: "'a tqueue" and x xs
  assume "tq_fifo q (x # xs)"
  then show "\<exists>q'. tq_deq q = Some (Some x, q') \<and> tq_fifo q' xs"
    using tq_deq_seg [of q "rev xs" "fst x" "snd x"]
    by (fastforce simp: tq_fifo_def tq_rep_def)
qed


section \<open>Properties\<close>

lemma cleanup_seg:
  assumes "tq_seg st ns nx"
  shows "cleanup_task_queue st = cleanup_loop nx (st\<lparr>tq_q := None,
    tq_heap := \<lambda>a. if a \<in> set (nl_addrs ns) then None else tq_heap st a\<rparr>)"
proof -
  have "dseg (tq_heap (st\<lparr>tq_q := None\<rparr>)) None (tq_q st) ns (tq_end st) nx" "distinct (nl_addrs ns)"
    using assms by (simp_all add: tq_seg_def)
  from cleanup_loop_seg [OF this] show ?thesis
    by (simp add: cleanup_task_queue_def cong: if_cong)
qed

lemma tq_fifo_init: "tq_fifo (init_task_queue st) []"
  by (simp add: tq_fifo_def tq_rep_def tq_seg_def init_task_queue_def)

text \<open>C36. Tasks reach the thread in the order they were queued, each exactly once: queueing any
  tasks with fresh addresses on an initialised queue and then running the thread's
  \<open>get_task\<close> loop takes them out in order, with no access to freed memory, and the loop
  ends with the queue empty.\<close>

theorem task_queue_order:
  assumes "distinct (map fst ts)" "length ts < n"
  shows "\<exists>q q'. enq_all tq_enq ts (init_task_queue st) = Some q
    \<and> drain tq_deq n q = Some (ts, q') \<and> get_entry q' = Some (None, q')"
proof -
  obtain q q' where q: "enq_all tq_enq ts (init_task_queue st) = Some q"
    "drain tq_deq n q = Some ([] @ ts, q')" "tq_fifo q' []"
    using tq.enq_drain [OF tq_fifo_init, of ts n st] assms by auto
  moreover from q(3) have "get_entry q' = Some (None, q')"
    by (auto simp: tq_fifo_def tq_rep_def get_entry_empty)
  ultimately show ?thesis by auto
qed

theorem task_queue_order_witness:
  "\<exists>q q'. enq_all tq_enq [(7, ''rreq''), (9, ''rrep'')]
       (init_task_queue \<lparr>tq_q = None, tq_end = None, tq_heap = Map.empty\<rparr>) = Some q
    \<and> drain tq_deq 3 q = Some ([(7, ''rreq''), (9, ''rrep'')], q') \<and> get_entry q' = Some (None, q')"
  by (rule task_queue_order) simp_all

text \<open>Cleaning up a queue from which nothing was taken while another task waited frees every
  task and nothing else; but once the thread has taken one task and left others behind,
  \<open>cleanup_task_queue\<close> follows the last task's stale \<open>next\<close> pointer into the freed task.
  In the first case \<open>task_end\<close> is left pointing at a freed task as well.\<close>

theorem cleanup_task_queue_stale:
  assumes "tq_seg st (ns @ [(a, x)]) None"
  shows "(\<exists>st'. cleanup_task_queue st = Some st' \<and> tq_end st' = Some a \<and> tq_heap st' a = None
            \<and> (\<forall>b. tq_heap st' b = (if b \<in> set (nl_addrs (ns @ [(a, x)])) then None else tq_heap st b)))
    \<and> (ns \<noteq> [] \<longrightarrow> (\<exists>st'. tq_deq st = Some (Some (a, x), st') \<and> cleanup_task_queue st' = None))"
proof -
  have e: "tq_end st = Some a" using tq_seg_end [OF assms] by simp
  have 1: "\<exists>st'. cleanup_task_queue st = Some st' \<and> tq_end st' = Some a \<and> tq_heap st' a = None
      \<and> (\<forall>b. tq_heap st' b = (if b \<in> set (nl_addrs (ns @ [(a, x)])) then None else tq_heap st b))"
    unfolding cleanup_seg [OF assms] by (subst cleanup_loop.simps) (simp add: e)
  have 2: "\<exists>st'. tq_deq st = Some (Some (a, x), st') \<and> cleanup_task_queue st' = None" if "ns \<noteq> []"
  proof -
    obtain st' where d: "tq_deq st = Some (Some (a, x), st')" "tq_heap st' a = None"
      "tq_seg st' ns (Some a)"
      using tq_deq_seg [OF assms] \<open>ns \<noteq> []\<close> by auto
    have "cleanup_task_queue st' = None"
      unfolding cleanup_seg [OF d(3)] by (subst cleanup_loop.simps) (simp add: d(2))
    with d(1) show ?thesis by blast
  qed
  from 1 2 show ?thesis by blast
qed

definition two_tasks :: "string tqueue" where
  "two_tasks = \<lparr>tq_q = Some 9, tq_end = Some 7,
     tq_heap = [7 \<mapsto> \<lparr>c_next = None, c_prev = Some 9, c_data = ''rreq''\<rparr>,
                9 \<mapsto> \<lparr>c_next = Some 7, c_prev = None, c_data = ''rrep''\<rparr>]\<rparr>"

theorem cleanup_task_queue_stale_witness:
  "\<exists>st'. tq_deq two_tasks = Some (Some (7, ''rreq''), st') \<and> cleanup_task_queue st' = None"
proof -
  have "tq_seg two_tasks ([(9, ''rrep'')] @ [(7, ''rreq'')]) None"
    by (simp add: tq_seg_def two_tasks_def)
  from cleanup_task_queue_stale [OF this] show ?thesis by blast
qed

end
