(* ===== verification/Ownership.thy ===== *)
theory Ownership
  imports TimerCore FloodCore Evolution "HOL-Library.Multiset"
begin

text \<open>
  Who owns which block of memory. A module that keeps its blocks in tables and queues is described by the list of
  addresses it owns and by a condition on what lies there; \<open>heap_owned own ok H s\<close> says that these
  blocks and the ones in H, which the running code holds, are live and all different, and that nothing went wrong so far.
  \<open>heap_safe\<close> is what a memory-safe operation keeps. The locale \<open>ownership\<close> states what is
  asked of own and ok, and derives the ways in which code may touch memory. Both modules are instances.
\<close>

section \<open>Freeing\<close>

text \<open>Every clean-up loop frees a list of addresses in turn: \<open>frees as s t\<close>. Nothing goes wrong exactly when
  they are different live blocks.\<close>

definition frees :: "addr list \<Rightarrow> 'z kstate_scheme \<Rightarrow> 'z kstate_scheme \<Rightarrow> bool" where
  "frees as s t = (k_live t = k_live s - set as
     \<and> (k_fault t \<longleftrightarrow> k_fault s \<or> \<not> (distinct as \<and> set as \<subseteq> k_live s)))"

lemma frees_Nil [simp]: "frees [] s t \<longleftrightarrow> k_live t = k_live s \<and> k_fault t = k_fault s"
  by (simp add: frees_def)

lemma frees_kfree: "frees [a] s (kfree a s)"
  by (simp add: frees_def)

lemma frees_append: "frees as s t \<Longrightarrow> frees bs t u \<Longrightarrow> frees (as @ bs) s u"
  by (auto simp: frees_def)

lemma frees_Cons: "frees as (kfree a s) t \<Longrightarrow> frees (a # as) s t"
  using frees_append [OF frees_kfree] by fastforce

lemma frees_free_floods: "frees (nl_addrs fs) s (free_floods fs s)"
  by (induction fs s rule: free_floods.induct) (simp_all add: frees_Cons)

lemma flush_flood_frees:
  "frees (nl_addrs (filter (\<lambda>n. ke_time_before e (fl_lifetime (snd n)) now) q)) s (fst (snd (flush_flood_loop e now q s)))
   \<and> k_allocs (fst (snd (flush_flood_loop e now q s))) = k_allocs s
   \<and> kstate.more (fst (snd (flush_flood_loop e now q s))) = kstate.more s"
proof (induction e now q s rule: flush_flood_loop.induct)
  case (2 e now a f fs s)
  then show ?case by (auto simp: case_prod_beta frees_Cons)
qed simp

text \<open>The blocks of queued tasks: each task, and its message if it has one.\<close>

definition task_blocks :: "(addr \<times> addr option) list \<Rightarrow> addr list" where
  "task_blocks ts = concat (map (\<lambda>t. case snd t of None \<Rightarrow> [fst t] | Some b \<Rightarrow> [b, fst t]) ts)"

section \<open>Tables as multisets of addresses\<close>

lemma same_mset: "mset xs = mset ys \<Longrightarrow> distinct xs = distinct ys \<and> set xs = set ys"
  using mset_eq_imp_distinct_iff mset_eq_setD by blast

lemma mset_addrs: "mset (nl_addrs ns) = image_mset fst (mset ns)"
  by (simp add: nl_addrs_def)

lemma mset_link_timer: "mset (link_timer e tm new q) = add_mset new (mset q)"
  by (induction q) simp_all

lemma mset_nl_del:
  "distinct (nl_addrs ns) \<Longrightarrow> a \<in> set (nl_addrs ns) \<Longrightarrow> mset (nl_addrs ns) = add_mset a (mset (nl_addrs (nl_del a ns)))"
proof (induction ns)
  case (Cons n ns)
  have "filter (\<lambda>b. b \<noteq> a) (nl_addrs ns) = nl_addrs ns" if "a \<notin> set (nl_addrs ns)"
    using that by (auto simp: filter_id_conv)
  then show ?case using Cons by (cases "fst n = a") (auto simp del: mset_filter)
qed simp

lemma mset_filter_split: "mset (nl_addrs (filter P ns)) + mset (nl_addrs (filter (\<lambda>n. \<not> P n) ns)) = mset (nl_addrs ns)"
  by (induction ns) auto

section \<open>Ownership\<close>

definition heap_owned :: "('z kstate_scheme \<Rightarrow> addr list) \<Rightarrow> ('z kstate_scheme \<Rightarrow> bool) \<Rightarrow> addr list \<Rightarrow> 'z kstate_scheme \<Rightarrow> bool" where
  "heap_owned own ok H s = (distinct (H @ own s) \<and> set (H @ own s) \<subseteq> k_live s \<and> heap_ok s \<and> ok s \<and> \<not> k_fault s)"

definition heap_safe :: "('z kstate_scheme \<Rightarrow> addr list) \<Rightarrow> ('z kstate_scheme \<Rightarrow> bool) \<Rightarrow> 'z kstate_scheme \<Rightarrow> 'z kstate_scheme \<Rightarrow> bool" where
  "heap_safe own ok s t = (\<forall>H. heap_owned own ok H s \<longrightarrow> heap_owned own ok H t)"

text \<open>What is owned depends on the module's own variables only, and stays well formed when the kernel allocates
  for others.\<close>

locale ownership =
  fixes own :: "'z kstate_scheme \<Rightarrow> addr list"
    and ok :: "'z kstate_scheme \<Rightarrow> bool"
  assumes own_more: "kstate.more t = kstate.more s \<Longrightarrow> own t = own s"
    and ok_more: "kstate.more t = kstate.more s \<Longrightarrow> k_allocs s \<le> k_allocs t \<Longrightarrow> ok s \<Longrightarrow> ok t"
begin

lemma safe_refl: "heap_safe own ok s s"
  by (simp add: heap_safe_def)

lemma safe_trans: "heap_safe own ok s t \<Longrightarrow> heap_safe own ok t u \<Longrightarrow> heap_safe own ok s u"
  by (simp add: heap_safe_def)

text \<open>An operation may use what is known of the state it starts from.\<close>

lemma safe_assume: "(distinct (own s) \<Longrightarrow> ok s \<Longrightarrow> set (own s) \<subseteq> k_live s \<Longrightarrow> heap_safe own ok s t) \<Longrightarrow> heap_safe own ok s t"
  unfolding heap_safe_def heap_owned_def by auto

lemma heap_fresh: "heap_owned own ok H s \<Longrightarrow> k_allocs s \<notin> set (H @ own s)"
  by (auto simp: heap_owned_def heap_ok_def)

lemma heap_perm:
  assumes "heap_owned own ok H s" "mset (H' @ own t) = mset (H @ own s)" "k_live t = k_live s" "k_allocs s \<le> k_allocs t"
    "k_fault t = k_fault s" "ok s \<Longrightarrow> ok t"
  shows "heap_owned own ok H' t"
  using assms same_mset [OF assms(2)] by (auto simp: heap_owned_def heap_ok_def)

lemma safe_same:
  assumes "mset (own t) = mset (own s)" "k_live t = k_live s" "k_allocs s \<le> k_allocs t" "k_fault t = k_fault s" "ok s \<Longrightarrow> ok t"
  shows "heap_safe own ok s t"
  using assms heap_perm unfolding heap_safe_def by simp

text \<open>Taking a fresh block into a table, or losing it.\<close>

lemma safe_alloc:
  assumes "mset (own t) = mset (own s) + M" "M = {#} \<or> M = {#k_allocs s#}"
    "k_live t = insert (k_allocs s) (k_live s)" "k_allocs t = Suc (k_allocs s)" "k_fault t = k_fault s" "ok s \<Longrightarrow> ok t"
  shows "heap_safe own ok s t"
  unfolding heap_safe_def
proof (intro allI impI)
  fix H
  assume h: "heap_owned own ok H s"
  have "distinct (H @ own t) \<and> set (H @ own t) \<subseteq> insert (k_allocs s) (set (H @ own s))"
    using assms(2)
  proof
    assume "M = {#}"
    then have "mset (H @ own t) = mset (H @ own s)" using assms(1) by simp
    from same_mset [OF this] h show ?thesis by (auto simp: heap_owned_def)
  next
    assume "M = {#k_allocs s#}"
    then have "mset (H @ own t) = mset (k_allocs s # H @ own s)" using assms(1) by simp
    from same_mset [OF this] h heap_fresh [OF h] show ?thesis by (auto simp: heap_owned_def)
  qed
  then show "heap_owned own ok H t" using h assms(3-6) by (auto simp: heap_owned_def heap_ok_def)
qed

text \<open>Freeing blocks that are owned or held.\<close>

lemma heap_frees:
  assumes "heap_owned own ok H s" "frees as s t" "mset (H @ own s) = mset as + mset (H' @ own t)" "k_allocs s \<le> k_allocs t"
    "ok s \<Longrightarrow> ok t"
  shows "heap_owned own ok H' t"
proof -
  have m: "mset (H @ own s) = mset (as @ H' @ own t)" using assms(3) by simp
  then show ?thesis
    using assms(1,2,4,5) same_mset [OF m] by (auto simp: heap_owned_def frees_def heap_ok_def)
qed

lemma safe_frees:
  assumes "ok s \<Longrightarrow> ok t" "k_allocs s \<le> k_allocs t" "heap_ok s \<Longrightarrow> frees as s t"
    "distinct (own s) \<Longrightarrow> mset (own s) = mset as + mset (own t)"
  shows "heap_safe own ok s t"
  unfolding heap_safe_def
proof (intro allI impI)
  fix H
  assume h: "heap_owned own ok H s"
  then have "distinct (own s)" "heap_ok s" by (simp_all add: heap_owned_def)
  then show "heap_owned own ok H t" using heap_frees [OF h assms(3) _ assms(2,1)] assms(4) by simp
qed

section \<open>The kernel's functions\<close>

lemma safe_emit: "heap_safe own ok s (emit x s)"
  using own_more [of "emit x s" s] ok_more [of "emit x s" s] by (intro safe_same) (simp_all add: emit_def)

lemma safe_kmalloc: "heap_safe own ok s (snd (kmalloc e s))"
proof (cases "ke_kmalloc_ok e (k_allocs s)")
  case True
  then show ?thesis using own_more [of "snd (kmalloc e s)" s] ok_more [of "snd (kmalloc e s)" s]
    by (intro safe_alloc [where M = "{#}"]) (simp_all add: kmalloc_def)
next
  case False
  then show ?thesis using own_more [of "snd (kmalloc e s)" s] ok_more [of "snd (kmalloc e s)" s]
    by (intro safe_same) (simp_all add: kmalloc_def)
qed

lemma heap_kmalloc:
  assumes "heap_owned own ok H s" "kmalloc e s = (Some a, t)"
  shows "heap_owned own ok (a # H) t"
proof -
  have t: "a = k_allocs s" "t = s\<lparr>k_allocs := Suc (k_allocs s), k_live := insert (k_allocs s) (k_live s)\<rparr>"
    using assms(2) by (auto simp: kmalloc_def split: if_splits)
  have "own t = own s" "ok s \<Longrightarrow> ok t" using own_more [of t s] ok_more [of t s] by (simp_all add: t(2))
  then show ?thesis using assms(1) heap_fresh [OF assms(1)] by (auto simp: heap_owned_def heap_ok_def t)
qed

lemma heap_kfree: "heap_owned own ok (a # H) s \<Longrightarrow> heap_owned own ok H (kfree a s)"
  using own_more [of "kfree a s" s] ok_more [of "kfree a s" s] by (auto intro!: heap_frees [OF _ frees_kfree])

text \<open>A block that is allocated, used and freed.\<close>

lemma safe_block:
  assumes "kmalloc e s = (Some a, s1)" "heap_safe own ok s1 t"
  shows "heap_safe own ok s (kfree a t)"
  using assms heap_kmalloc heap_kfree unfolding heap_safe_def by blast

end

sublocale ownership \<subseteq> heap: evolution "heap_safe own ok"
  by unfold_locales (blast intro: safe_refl safe_trans)+

end
