(* ===== verification/Lifecycle.thy ===== *)
theory Lifecycle
  imports AodvMain CacheInv CacheDemo Ownership
begin

text \<open>
  The two ends of a module's life that the handlers do not see: \<open>init_sock\<close> of \<open>kaodv/src/socket.c\<close> and
  \<open>caching/src/cSocket.c\<close>, and \<open>cleanup_module\<close> of both \<open>module.c\<close>. By the time the tables are
  freed the hooks are gone and the thread has been killed, so nothing else runs.
\<close>

section \<open>Setting up a socket\<close>

text \<open>What a socket has been told, and what the three calls answer. A failure ends the set-up, and the result is 0 all
  the same.\<close>

record sock_setup =
  ss_bound :: "(u32 \<times> u16) option"
  ss_device :: "string option"
  ss_broadcast :: bool

record sock_answers =
  sa_bind :: int
  sa_bind_device :: int
  sa_enable_broadcast :: int

definition sock_steps :: "kenv \<Rightarrow> sock_answers \<Rightarrow> u32 \<Rightarrow> u16 \<Rightarrow> string \<Rightarrow> int \<times> sock_setup" where
  "sock_steps e ans ip port dev_name =
     (let s0 = \<lparr>ss_bound = None, ss_device = None, ss_broadcast = False\<rparr>;
          s1 = s0\<lparr>ss_bound := Some (ip, htons e port)\<rparr>;
          s2 = s1\<lparr>ss_device := Some dev_name\<rparr>
      in if sa_bind ans < 0 then (0, s0)
         else if sa_bind_device ans < 0 then (0, s1)
         else if sa_enable_broadcast ans < 0 then (0, s2)
         else (0, s2\<lparr>ss_broadcast := True\<rparr>))"

definition init_sock :: "kenv \<Rightarrow> sock_answers \<Rightarrow> u32 \<Rightarrow> string \<Rightarrow> int \<times> sock_setup" where
  "init_sock e ans ip dev_name = sock_steps e ans ip AODVPORT dev_name"

definition c_init_sock :: "kenv \<Rightarrow> int \<Rightarrow> sock_answers \<Rightarrow> u32 \<Rightarrow> string \<Rightarrow> int \<times> sock_setup option" where
  "c_init_sock e error ans ip dev_name =
     (if error < 0 then (error, None) else apsnd Some (sock_steps e ans ip CACHEPORT dev_name))"

section \<open>Unloading the routing module\<close>

text \<open>
  \<open>cleanup_task_queue\<close> on the list the queue represents, newest task first. The list does not show the \<open>next\<close> field of
  the oldest task, where the loop ends or goes wrong. \<open>stale\<close> says that it points to a freed task, which the loop reads; theory
  QueueRun follows the pointers through a run and determines it.
\<close>

definition free_tasks :: "(addr \<times> addr option) list \<Rightarrow> 'z kstate_scheme \<Rightarrow> 'z kstate_scheme" where
  "free_tasks ts s = fold (\<lambda>t s. kfree (fst t) (kfree_opt (snd t) s)) ts s"

definition cleanup_tasks :: "bool \<Rightarrow> aodv_state \<Rightarrow> aodv_state" where
  "cleanup_tasks stale s =
     (let t = (free_tasks (map (apsnd data_block) (rev (a_tasks s))) s)\<lparr>a_tasks := []\<rparr>
      in if stale \<and> a_tasks s \<noteq> [] then fault t else t)"

definition aodv_cleanup_module :: "kenv \<Rightarrow> bool \<Rightarrow> aodv_state \<Rightarrow> aodv_state" where
  "aodv_cleanup_module e stale s =
     (let s1 = close_sock s;
          s2 = emit DelTimer (s1\<lparr>k_timer_pending := False\<rparr>);
          s3 = cleanup_tasks stale s2;
          s4 = cleanup_flood_id_queue s3;
          s5 = cleanup_packet_queue s4
      in cleanup_aodv_route_table e s5)"

section \<open>Unloading the caching module\<close>

definition c_cleanup_tasks :: "bool \<Rightarrow> c_state \<Rightarrow> c_state" where
  "c_cleanup_tasks stale s =
     (let t = (free_tasks (map (apsnd c_data_block) (rev (c_tasks s))) s)\<lparr>c_tasks := []\<rparr>
      in if stale \<and> c_tasks s \<noteq> [] then fault t else t)"

definition c_cleanup_module :: "bool \<Rightarrow> c_state \<Rightarrow> c_state" where
  "c_cleanup_module stale s =
     (let s1 = (case g_sock s of None \<Rightarrow> fault s | Some sk \<Rightarrow> emit (SockRelease sk) s);
          s2 = emit DelTimer (s1\<lparr>k_timer_pending := False\<rparr>);
          s3 = c_cleanup_tasks stale s2;
          s4 = c_cleanup_flood_id_queue s3;
          s5 = snd (cleanup_cache_table s4);
          s6 = snd (cleanup_req_list s5);
          s7 = snd (cleanup_rinfo s6)
      in snd (cleanup_extable s7))"

section \<open>Freeing\<close>

lemma frees_free_nodes: "frees (nl_addrs ns) s (free_nodes ns s)"
  by (induction ns s rule: free_nodes.induct) (simp_all add: frees_Cons)

lemma frees_free_tasks: "frees (task_blocks ts) s (free_tasks ts s)"
proof (induction ts arbitrary: s)
  case (Cons t ts)
  have "frees (case snd t of None \<Rightarrow> [fst t] | Some b \<Rightarrow> [b, fst t]) s (kfree (fst t) (kfree_opt (snd t) s))"
    by (cases "snd t") (simp_all add: frees_kfree frees_Cons kfree_opt_def)
  from frees_append [OF this Cons.IH] show ?case by (simp add: task_blocks_def free_tasks_def)
qed (simp add: task_blocks_def free_tasks_def)

lemma free_nodes_more: "kstate.more (free_nodes ns s) = kstate.more s"
  by (induction ns s rule: free_nodes.induct) simp_all

lemma free_floods_more: "kstate.more (free_floods fs s) = kstate.more s"
  by (induction fs s rule: free_floods.induct) simp_all

lemma kfree_opt_more: "kstate.more (kfree_opt p s) = kstate.more s"
  by (simp add: kfree_opt_def split: option.split)

lemma free_tasks_more: "kstate.more (free_tasks ts s) = kstate.more s"
proof (induction ts arbitrary: s)
  case (Cons t ts)
  then show ?case by (simp add: free_tasks_def kfree_opt_more)
qed (simp add: free_tasks_def)

lemma c_state_more:
  fixes s t :: c_state
  assumes "kstate.more t = kstate.more s"
  shows "ctable t = ctable s" "crlist t = crlist s" "rinfo t = rinfo s" "extable t = extable s"
    "c_floods t = c_floods s" "c_timers t = c_timers s"
  using assms by (cases s; cases t; simp)+

section \<open>What unloading leaves behind\<close>

lemma cleanup_cache_loop_props:
  "frees (nl_addrs (filter (\<lambda>m. ce_isServiceCenter (snd m) = 0) cs)) s (cleanup_cache_loop cs s)
   \<and> ctable (cleanup_cache_loop cs s) =
       filter (\<lambda>m. fst m \<notin> set (nl_addrs (filter (\<lambda>m. ce_isServiceCenter (snd m) = 0) cs))) (ctable s)
   \<and> crlist (cleanup_cache_loop cs s) = crlist s \<and> rinfo (cleanup_cache_loop cs s) = rinfo s
   \<and> extable (cleanup_cache_loop cs s) = extable s"
proof (induction cs s rule: cleanup_cache_loop.induct)
  case (2 a c cs s)
  show ?case
  proof (cases "ce_isServiceCenter c = 0")
    case True
    have "frees [a] s (remove_cache a s)"
      by (simp add: frees_def remove_cache_def)
    moreover have "crlist (remove_cache a s) = crlist s" "rinfo (remove_cache a s) = rinfo s"
      "extable (remove_cache a s) = extable s" by (simp_all add: remove_cache_def)
    moreover have "filter (\<lambda>m. fst m \<notin> A) (nl_del a ns) = filter (\<lambda>m. fst m \<notin> insert a A) ns"
      for A and ns :: "cache_entry nodes"
      by (induction ns) auto
    ultimately show ?thesis using 2(1) [OF True] True frees_append [of "[a]" s "remove_cache a s"] by auto
  next
    case False
    then show ?thesis using 2(2) by auto
  qed
qed simp

text \<open>Each stage: what it frees, and the tables it leaves to the later ones.\<close>

lemma c_cleanup_tasks_stage:
  "frees (task_blocks (map (apsnd c_data_block) (rev (c_tasks s)))) s (c_cleanup_tasks False s)"
  "c_floods (c_cleanup_tasks False s) = c_floods s" "ctable (c_cleanup_tasks False s) = ctable s"
  "crlist (c_cleanup_tasks False s) = crlist s" "rinfo (c_cleanup_tasks False s) = rinfo s"
  "extable (c_cleanup_tasks False s) = extable s"
  using frees_free_tasks [of "map (apsnd c_data_block) (rev (c_tasks s))" s]
    c_state_more [OF free_tasks_more [of "map (apsnd c_data_block) (rev (c_tasks s))" s]]
  by (simp_all add: c_cleanup_tasks_def frees_def)

lemma c_cleanup_floods_stage:
  "frees (nl_addrs (c_floods s)) s (c_cleanup_flood_id_queue s)"
  "ctable (c_cleanup_flood_id_queue s) = ctable s" "crlist (c_cleanup_flood_id_queue s) = crlist s"
  "rinfo (c_cleanup_flood_id_queue s) = rinfo s" "extable (c_cleanup_flood_id_queue s) = extable s"
  using frees_free_floods [of "c_floods s" s] c_state_more [OF free_floods_more [of "c_floods s" s]]
  by (simp_all add: c_cleanup_flood_id_queue_def frees_def)

lemma cleanup_cache_table_stage:
  "frees (nl_addrs (filter (\<lambda>m. ce_isServiceCenter (snd m) = 0) (ctable s))) s (snd (cleanup_cache_table s))"
  "crlist (snd (cleanup_cache_table s)) = crlist s" "rinfo (snd (cleanup_cache_table s)) = rinfo s"
  "extable (snd (cleanup_cache_table s)) = extable s"
  using cleanup_cache_loop_props [of "ctable s" s] by (simp_all add: cleanup_cache_table_def)

lemma cleanup_lists_stage:
  "frees (nl_addrs (crlist s)) s (snd (cleanup_req_list s))" "rinfo (snd (cleanup_req_list s)) = rinfo s"
  "extable (snd (cleanup_req_list s)) = extable s" "crlist (snd (cleanup_req_list s)) = []"
  "frees (nl_addrs (rinfo s)) s (snd (cleanup_rinfo s))" "extable (snd (cleanup_rinfo s)) = extable s"
  "crlist (snd (cleanup_rinfo s)) = crlist s" "rinfo (snd (cleanup_rinfo s)) = []"
  "frees (nl_addrs (extable s)) s (snd (cleanup_extable s))" "crlist (snd (cleanup_extable s)) = crlist s"
  "rinfo (snd (cleanup_extable s)) = rinfo s" "extable (snd (cleanup_extable s)) = []"
  using frees_free_nodes [of "crlist s" s] frees_free_nodes [of "rinfo s" s] frees_free_nodes [of "extable s" s]
    c_state_more [OF free_nodes_more [of "crlist s" s]] c_state_more [OF free_nodes_more [of "rinfo s" s]]
    c_state_more [OF free_nodes_more [of "extable s" s]]
  by (simp_all add: cleanup_req_list_def cleanup_rinfo_def cleanup_extable_def frees_def)

lemmas c_cleanup_stages = c_cleanup_tasks_stage c_cleanup_floods_stage cleanup_cache_table_stage cleanup_lists_stage

text \<open>What \<open>cleanup_module\<close> frees, and what it leaves.\<close>

definition c_freed :: "c_state \<Rightarrow> addr list" where
  "c_freed s = task_blocks (map (apsnd c_data_block) (rev (c_tasks s))) @ nl_addrs (c_floods s)
     @ nl_addrs (filter (\<lambda>m. ce_isServiceCenter (snd m) = 0) (ctable s)) @ nl_addrs (crlist s)
     @ nl_addrs (rinfo s) @ nl_addrs (extable s)"

definition c_kept :: "c_state \<Rightarrow> addr list" where
  "c_kept s = nl_addrs (c_timers s) @ nl_addrs (filter (\<lambda>m. ce_isServiceCenter (snd m) \<noteq> 0) (ctable s))"

lemma c_unload_frees:
  assumes "g_sock s = Some sk"
  shows "frees (c_freed s) s (c_cleanup_module False s)"
proof -
  define s2 where "s2 = emit DelTimer ((emit (SockRelease sk) s)\<lparr>k_timer_pending := False\<rparr>)"
  define s3 where "s3 = c_cleanup_tasks False s2"
  define s4 where "s4 = c_cleanup_flood_id_queue s3"
  define s5 where "s5 = snd (cleanup_cache_table s4)"
  define s6 where "s6 = snd (cleanup_req_list s5)"
  define s7 where "s7 = snd (cleanup_rinfo s6)"
  define t where "t = snd (cleanup_extable s7)"
  note s = s3_def s4_def s5_def s6_def s7_def t_def
  have t: "c_cleanup_module False s = t"
    by (simp add: c_cleanup_module_def Let_def assms(1) s2_def s)
  have s2: "k_live s2 = k_live s" "k_fault s2 = k_fault s" "c_tasks s2 = c_tasks s" "c_floods s2 = c_floods s"
    "ctable s2 = ctable s" "crlist s2 = crlist s" "rinfo s2 = rinfo s" "extable s2 = extable s"
    by (simp_all add: s2_def emit_def)
  have "frees (task_blocks (map (apsnd c_data_block) (rev (c_tasks s)))) s s3" "frees (nl_addrs (c_floods s)) s3 s4"
    "frees (nl_addrs (filter (\<lambda>m. ce_isServiceCenter (snd m) = 0) (ctable s))) s4 s5" "frees (nl_addrs (crlist s)) s5 s6"
    "frees (nl_addrs (rinfo s)) s6 s7" "frees (nl_addrs (extable s)) s7 t"
    using c_cleanup_stages(1) [of s2] c_cleanup_stages(7) [of s3] c_cleanup_stages(12) [of s4] c_cleanup_stages(16) [of s5]
      c_cleanup_stages(20) [of s6] c_cleanup_stages(24) [of s7]
    by (simp_all add: s s2 c_cleanup_stages frees_def)
  then show ?thesis unfolding c_freed_def t by (intro frees_append)
qed

text \<open>The loop of the routing module over its routes, and over its interfaces.\<close>

lemma cleanup_route_frees:
  "heap_ok s \<Longrightarrow> frees (nl_addrs rs) s (cleanup_route_loop e rs s) \<and> heap_ok (cleanup_route_loop e rs s)"
proof (induction e rs s rule: cleanup_route_loop.induct)
  case (2 e a r rs s)
  define s1 where "s1 = snd (delete_kernel_route_entry e (rt_ip r) (rt_next_hop r) (rt_netmask r) s)"
  have "k_live s1 = k_live s" "k_fault s1 = k_fault s" "heap_ok s1"
    using 2(2) by (auto simp: s1_def delete_kernel_route_entry_eq heap_ok_def)
  moreover from this(3) have "heap_ok (kfree a s1)" by (auto simp: heap_ok_def)
  ultimately show ?case using 2(1) [folded s1_def] by (auto simp: s1_def [symmetric] frees_def)
qed simp

lemma close_sock_frees:
  "\<forall>d \<in> set (nl_vals ds). dv_sock d \<noteq> None \<Longrightarrow> frees (nl_addrs ds) s (close_sock_loop ds s)
   \<and> k_allocs (close_sock_loop ds s) = k_allocs s \<and> kstate.more (close_sock_loop ds s) = kstate.more s"
proof (induction ds s rule: close_sock_loop.induct)
  case (2 a d ds s)
  then obtain sk where "dv_sock d = Some sk" by auto
  then show ?case using 2 by (auto simp: Let_def emit_def intro!: frees_Cons) (auto simp: frees_def)
qed simp

text \<open>What \<open>cleanup_module\<close> of the routing module frees, and what it leaves.\<close>

definition a_freed :: "aodv_state \<Rightarrow> addr list" where
  "a_freed s = nl_addrs (a_devs s) @ task_blocks (map (apsnd data_block) (rev (a_tasks s))) @ nl_addrs (a_floods s)
     @ (case q_block s of None \<Rightarrow> [] | Some a \<Rightarrow> [a]) @ nl_addrs (a_routes s)"

definition a_kept :: "aodv_state \<Rightarrow> addr list" where
  "a_kept s = nl_addrs (a_loose s) @ nl_addrs (a_neighs s) @ nl_addrs (a_timers s)"

end
