(* ===== verification/AodvHeap.thy ===== *)
theory AodvHeap
  imports Lifecycle AodvDemo
begin

unbundle bit_operations_syntax

text \<open>
  Who owns which block of memory in the routing module, and that its operations respect it. Besides the tables
  and queues this is about pointers that are kept: \<open>g_my_route\<close> names the entry of the node's own address, which
  nothing must remove although every route through a lost neighbour goes, and the sockets of the interfaces.
\<close>

section \<open>Ownership\<close>

definition a_owned :: "aodv_state \<Rightarrow> addr list" where
  "a_owned s = nl_addrs (a_routes s) @ nl_addrs (a_loose s) @ nl_addrs (a_neighs s) @ nl_addrs (a_floods s)
     @ nl_addrs (a_timers s) @ task_blocks (map (apsnd data_block) (a_tasks s)) @ nl_addrs (a_devs s)
     @ (case q_block s of None \<Rightarrow> [] | Some a \<Rightarrow> [a])"

text \<open>A task that has a message by its type carries it.\<close>

definition a_task_ok :: "task \<Rightarrow> bool" where
  "a_task_ok t = (tk_type t \<in> {1, 2, 3} \<longrightarrow> tk_data t \<noteq> None)"

definition a_links_ok :: "aodv_state \<Rightarrow> bool" where
  "a_links_ok s = ((\<forall>t \<in> set (nl_vals (a_tasks s)). a_task_ok t)
     \<and> q_block s \<noteq> None \<and> a_devs s \<noteq> [] \<and> (\<forall>d \<in> set (nl_vals (a_devs s)). dv_sock d \<noteq> None)
     \<and> (\<exists>d \<in> set (nl_vals (a_devs s)). dv_ip d = g_my_ip s))"

text \<open>The entry of the node itself is there and is the only one for its address. It is valid as long as a
  neighbour claims that address, which is why losing such a neighbour does not remove it. A handler that is adding
  a neighbour is excused, one that is removing a neighbour which claimed the address still finds the entry valid.\<close>

datatype claim = Excused | Settled | Claimed

definition claim_ok :: "claim \<Rightarrow> aodv_route \<Rightarrow> u32 \<Rightarrow> aodv_neigh nodes \<Rightarrow> bool" where
  "claim_ok W r ip ns = (case W of Excused \<Rightarrow> True
     | Settled \<Rightarrow> rt_valid r \<or> ip \<notin> nb_ip ` set (nl_vals ns) | Claimed \<Rightarrow> rt_valid r)"

definition my_route_ok :: "claim \<Rightarrow> aodv_state \<Rightarrow> bool" where
  "my_route_ok W s = (\<exists>m r. g_my_route s = Some m \<and> (m, r) \<in> set (a_routes s) \<and> rt_self r
     \<and> rt_ip r = g_my_ip s \<and> rt_netmask r = - 1
     \<and> (\<forall>(b, q) \<in> set (a_routes s). rt_ip q = g_my_ip s \<longrightarrow> b = m) \<and> claim_ok W r (g_my_ip s) (a_neighs s))"

definition a_ok :: "claim \<Rightarrow> aodv_state \<Rightarrow> bool" where
  "a_ok W s = (tables_ok s \<and> a_links_ok s \<and> my_route_ok W s)"

definition a_safe :: "aodv_state \<Rightarrow> aodv_state \<Rightarrow> bool" where
  "a_safe s t = (\<forall>W. heap_safe a_owned (a_ok W) s t)"

named_theorems av "rules for a_safe"

lemma a_state_more:
  fixes s t :: aodv_state
  assumes "kstate.more t = kstate.more s"
  shows "a_routes t = a_routes s" "a_loose t = a_loose s" "a_neighs t = a_neighs s" "a_floods t = a_floods s"
    "a_timers t = a_timers s" "a_tasks t = a_tasks s" "a_devs t = a_devs s" "q_block t = q_block s"
    "q_list t = q_list s" "q_len t = q_len s" "q_maxlen t = q_maxlen s" "g_my_ip t = g_my_ip s"
    "g_my_route t = g_my_route s"
  using assms by (cases s; cases t; simp)+

interpretation ow: ownership a_owned "a_ok W" for W
proof unfold_locales
  fix s t :: aodv_state
  assume m: "kstate.more t = kstate.more s"
  note f = a_state_more [OF m]
  show "a_owned t = a_owned s" by (simp add: a_owned_def f)
  assume "k_allocs s \<le> k_allocs t" "a_ok W s"
  then show "a_ok W t"
    using tables_ok_same [OF f(1-3,9-11,5,4)] by (simp add: a_ok_def a_links_ok_def my_route_ok_def f)
qed

interpretation as: evolution a_safe
  by unfold_locales (auto simp: a_safe_def intro: ow.safe_refl ow.safe_trans)

lemmas as_rules [av] = as.rules

lemma claim_ok_simps [simp]:
  "claim_ok Excused r ip ns" "claim_ok Claimed r ip ns = rt_valid r"
  "claim_ok Settled r ip ns = (rt_valid r \<or> ip \<notin> nb_ip ` set (nl_vals ns))"
  by (simp_all add: claim_ok_def)

lemma claim_ok_mono:
  "claim_ok W r ip ns \<Longrightarrow> (rt_valid r \<Longrightarrow> rt_valid q) \<Longrightarrow> nb_ip ` set (nl_vals ms) \<subseteq> nb_ip ` set (nl_vals ns) \<Longrightarrow> claim_ok W q ip ms"
  by (cases W) auto

lemma a_ok_weak: "a_ok W s \<Longrightarrow> a_ok Excused s"
  by (auto simp: a_ok_def my_route_ok_def)

lemma a_safe_assume: "(a_ok Excused s \<Longrightarrow> a_safe s t) \<Longrightarrow> a_safe s t"
  unfolding a_safe_def by (blast intro: ow.safe_assume a_ok_weak)

section \<open>Operations that leave the routes alone\<close>

lemma task_fields_evolve:
  assumes "evolves e s t"
  shows "a_tasks t = a_tasks s" "a_devs t = a_devs s" "g_my_ip t = g_my_ip s" "g_my_route t = g_my_route s"
    "q_block t = q_block s" "k_allocs s \<le> k_allocs t"
  using assms by (simp_all add: evolves_def same_globals_def)

lemma a_okI:
  assumes "evolves e s t" "a_ok W s"
    "my_route_ok W s \<Longrightarrow> my_route_ok W t"
  shows "a_ok W t"
  using assms tables_ok_evolves [OF assms(1)] task_fields_evolve [OF assms(1)]
  by (auto simp: a_ok_def a_links_ok_def)

lemma my_route_same:
  assumes "a_routes t = a_routes s" "g_my_route t = g_my_route s" "g_my_ip t = g_my_ip s" "nb_ip ` set (nl_vals (a_neighs t)) \<subseteq> nb_ip ` set (nl_vals (a_neighs s))"
  shows "my_route_ok W s \<Longrightarrow> my_route_ok W t"
proof -
  have "claim_ok W r ip (a_neighs s) \<Longrightarrow> claim_ok W r ip (a_neighs t)" for r ip
    using claim_ok_mono [OF _ _ assms(4)] by blast
  then show "my_route_ok W s \<Longrightarrow> my_route_ok W t" using assms(1-3) by (auto simp: my_route_ok_def)
qed

lemma av_keep:
  assumes "evolves e s t" "mset (a_owned t) = mset (a_owned s)" "k_live t = k_live s" "k_fault t = k_fault s"
    "a_timers t = a_timers s" "\<And>W. a_ok W s \<Longrightarrow> my_route_ok W t"
  shows "a_safe s t"
  unfolding a_safe_def
  by (intro allI ow.safe_same assms(2-4) task_fields_evolve(6) [OF assms(1)] a_okI [OF assms(1)]) (use assms(5,6) in auto)

lemma av_data:
  assumes "evolves e s t" "a_owned t = a_owned s" "k_live t = k_live s" "k_fault t = k_fault s" "a_timers t = a_timers s"
    "a_routes t = a_routes s" "a_neighs t = a_neighs s"
  shows "a_safe s t"
  using task_fields_evolve [OF assms(1)] assms
  by (intro av_keep [OF assms(1)]) (auto simp: a_ok_def elim: my_route_same [rotated 4])

lemma av_emit: "a_safe s (emit x s)"
  by (simp add: a_safe_def ow.safe_emit)

lemma av_kmalloc: "a_safe s (snd (kmalloc e s))"
  by (simp add: a_safe_def ow.safe_kmalloc)

lemma av_block: "kmalloc e s = (Some a, s1) \<Longrightarrow> a_safe s1 t \<Longrightarrow> a_safe s (kfree a t)"
  unfolding a_safe_def by (blast intro: ow.safe_block)

lemma av_arm: "a_safe s (update_timer_queue e s)"
  by (rule av_data [OF ev_update_timer_queue [where e = e]])
    (simp_all add: a_owned_def, simp add: update_timer_queue_def arm_timer_def emit_def Let_def split: list.splits)

lemma av_overhead: "a_safe s (s\<lparr>aodv_overhead := n\<rparr>)"
  by (rule av_data [OF ev_overhead]) (simp_all add: a_owned_def)

lemma av_kernel:
  assumes "no_oom e"
  shows "a_safe s (snd (delete_kernel_route_entry e d g m s))" "a_safe s (snd (insert_kernel_route_entry e d g m i s))"
proof -
  have "a_safe s (kfree (k_allocs s) (emit x (snd (kmalloc e s))))" for x
    using av_block [OF kmalloc_no_oom [OF assms] av_emit] by (simp add: kmalloc_no_oom [OF assms])
  then show "a_safe s (snd (delete_kernel_route_entry e d g m s))" "a_safe s (snd (insert_kernel_route_entry e d g m i s))"
    by (simp_all add: delete_kernel_route_entry_def insert_kernel_route_entry_def create_kernel_route_entry_def
        kmalloc_no_oom [OF assms])
qed

text \<open>Timers.\<close>

lemma av_link:
  assumes "t = s\<lparr>k_allocs := Suc (k_allocs s), k_live := insert (k_allocs s) (k_live s),
      a_timers := link_timer e tk_time (k_allocs s, x) (a_timers s)\<rparr>" "evolves e s t"
  shows "a_safe s t"
  unfolding a_safe_def
proof
  fix W
  show "heap_safe a_owned (a_ok W) s t"
  proof (rule ow.safe_alloc [where M = "{#k_allocs s#}"])
    show "a_ok W s \<Longrightarrow> a_ok W t"
      by (erule a_okI [OF assms(2)]) (simp add: assms(1) my_route_ok_def)
  qed (simp_all add: assms(1) a_owned_def mset_addrs mset_link_timer)
qed

lemma av_insert_timer:
  assumes "no_oom e" "100 \<le> ty"
  shows "a_safe s (snd (insert_timer e ty d ip s))"
proof -
  show ?thesis
    by (rule av_link [OF _ ev_insert_timer [OF assms(2)]])
      (simp add: insert_timer_def create_task_def kmalloc_no_oom [OF assms(1)] queue_timer_def new_task_def)
qed

lemma av_insert_rreq_timer: "no_oom e \<Longrightarrow> a_safe s (snd (insert_rreq_timer e r n s))"
  by (rule av_link [OF _ ev_insert_rreq_timer])
    (simp add: insert_rreq_timer_def create_task_def kmalloc_no_oom queue_timer_def new_task_def)

lemma delete_loop_eq:
  assumes "\<forall>t \<in> set (nl_vals ts). tk_data t = None"
  shows "frees (nl_addrs (filter (\<lambda>n. timer_matches i ty (snd n)) ts)) s (snd (delete_timer_loop i ty ts s))
    \<and> fst (delete_timer_loop i ty ts s) = filter (\<lambda>n. \<not> timer_matches i ty (snd n)) ts
    \<and> k_allocs (snd (delete_timer_loop i ty ts s)) = k_allocs s
    \<and> kstate.more (snd (delete_timer_loop i ty ts s)) = kstate.more s"
  using assms
  by (induction i ty ts s rule: delete_timer_loop.induct) (auto simp: case_prod_beta frees_Cons data_block_def)

lemma av_delete_timer: "a_safe s (delete_timer i ty s)"
  unfolding a_safe_def
proof (rule allI, rule ow.safe_assume)
  fix W
  let ?P = "\<lambda>n. timer_matches i ty (snd n)"
  assume ok: "a_ok W s"
  then have "\<forall>t \<in> set (nl_vals (a_timers s)). tk_data t = None" by (simp add: a_ok_def tables_ok_def timers_ok_def)
  note l = delete_loop_eq [OF this, of i ty s]
  define t where "t = snd (delete_timer_loop i ty (a_timers s) s)"
  have d: "delete_timer i ty s = t\<lparr>a_timers := filter (\<lambda>n. \<not> ?P n) (a_timers s)\<rparr>"
    using l by (simp add: delete_timer_def case_prod_beta t_def)
  have "kstate.more t = kstate.more s" using l by (simp add: t_def)
  note f = a_state_more [OF this]
  show "heap_safe a_owned (a_ok W) s (delete_timer i ty s)"
  proof (rule ow.safe_frees)
    show "frees (nl_addrs (filter ?P (a_timers s))) s (delete_timer i ty s)"
      using l by (simp add: d t_def frees_def)
    show "mset (a_owned s) = mset (nl_addrs (filter ?P (a_timers s))) + mset (a_owned (delete_timer i ty s))"
      using mset_filter_split [of ?P "a_timers s"] by (simp add: d f a_owned_def)
    show "a_ok W (delete_timer i ty s)" if "a_ok W s"
      by (rule a_okI [OF ev_delete_timer that])
        (auto simp: d f nl_vals_def elim!: my_route_same [rotated 4])
  qed (use l in \<open>simp add: d t_def\<close>)
qed


text \<open>The flood queue. That nothing seen is forgotten plays no role here.\<close>

lemma av_insert_flood:
  assumes "no_oom e"
  shows "a_safe s (snd (insert_flood_id e a b i lt s))"
  unfolding a_safe_def
proof
  fix W
  define t where "t = snd (insert_flood_id e a b i lt s)"
  have t: "t = s\<lparr>k_allocs := Suc (k_allocs s), k_live := insert (k_allocs s) (k_live s),
      a_floods := (k_allocs s, \<lparr>fl_src_ip = a, fl_dst_ip = b, fl_id = i, fl_lifetime = lt\<rparr>) # a_floods s\<rparr>"
    by (simp add: t_def insert_flood_id_def kmalloc_no_oom [OF assms])
  have "tables_ok s \<Longrightarrow> tables_ok t"
    by (auto simp: t tables_ok_def routes_ok_def route_addrs_def neighs_ok_def queue_ok_def timers_ok_def floods_ok_def less_SucI)
  then have "a_ok W s \<Longrightarrow> a_ok W t"
    by (simp add: a_ok_def) (simp add: t a_links_ok_def my_route_ok_def)
  then show "heap_safe a_owned (a_ok W) s t"
    by (rule ow.safe_alloc [where M = "{#k_allocs s#}", rotated 5]) (simp_all add: t a_owned_def)
qed

lemma av_flush_floods:
  assumes "no_oom e"
  shows "a_safe s (snd (flush_flood_id_queue e s))"
proof -
  obtain ks s1 n where f: "flush_flood_loop e (getcurrtime s) (a_floods s) s = (ks, s1, n)" by (metis surj_pair)
  let ?P = "\<lambda>n. ke_time_before e (fl_lifetime (snd n)) (getcurrtime s)"
  have ks: "ks = filter (\<lambda>n. \<not> ?P n) (a_floods s)"
    using flush_flood_live [of e "getcurrtime s" "a_floods s" s] f by (simp add: flood_live_def)
  have s1: "frees (nl_addrs (filter ?P (a_floods s))) s s1" "k_allocs s1 = k_allocs s" "kstate.more s1 = kstate.more s"
    using flush_flood_frees [of e "getcurrtime s" "a_floods s" s] f by simp_all
  note m = a_state_more [OF s1(3)]
  have ev1: "evolves e s s1" using ev_flush_loop [where s = s and e = e and now = "getcurrtime s" and q = "a_floods s"] f by simp
  then have ev2: "evolves e s (s1\<lparr>a_floods := ks\<rparr>)"
    using evolves_trans [OF ev1 ev_flood_live [where s = s1 and e = e and now = "getcurrtime s"]] evolves_time [OF ev1]
    by (simp add: ks flood_live_def m)
  have "a_safe s (s1\<lparr>a_floods := ks\<rparr>)"
    unfolding a_safe_def
  proof
    fix W
    show "heap_safe a_owned (a_ok W) s (s1\<lparr>a_floods := ks\<rparr>)"
    proof (rule ow.safe_frees)
      show "frees (nl_addrs (filter ?P (a_floods s))) s (s1\<lparr>a_floods := ks\<rparr>)" using s1(1) by (simp add: frees_def)
      show "mset (a_owned s) = mset (nl_addrs (filter ?P (a_floods s))) + mset (a_owned (s1\<lparr>a_floods := ks\<rparr>))"
        using mset_filter_split [of ?P "a_floods s"] by (simp add: a_owned_def m ks)
      show "a_ok W s \<Longrightarrow> a_ok W (s1\<lparr>a_floods := ks\<rparr>)"
        by (erule a_okI [OF ev2]) (simp_all add: m my_route_ok_def)
    qed (simp add: s1(2))
  qed
  moreover have "snd (flush_flood_id_queue e s) = update_timer_queue e (snd (insert_timer e 104 HELLO_INTERVAL
      (g_my_ip (s1\<lparr>a_floods := ks\<rparr>)) (s1\<lparr>a_floods := ks\<rparr>)))"
    by (simp add: flush_flood_id_queue_def f)
  ultimately show ?thesis using as.trans [OF as.trans [OF _ av_insert_timer [OF assms]] av_arm] by simp
qed

text \<open>The packet queue.\<close>

lemma av_packets:
  assumes "t = s\<lparr>q_list := filter (\<lambda>q. \<not> P q) (q_list s), q_len := q_len s - int (length (filter P (q_list s))), k_out := k\<rparr>"
  shows "a_safe s t"
  by (rule av_data [OF queue_ok_filter [OF assms]]) (simp_all add: assms a_owned_def)

lemma av_drop: "a_safe s (ipq_drop_ip ip s)" "a_safe s (ipq_dev_drop i s)"
  by (rule av_packets [OF ipq_drop_ip_eq], rule av_packets [OF ipq_dev_drop_eq])

section \<open>Sending\<close>

lemma av_out:
  assumes "out_only s t" "k_fault t = k_fault s"
  shows "a_safe s t"
  by (rule av_data [OF ev_out_only [OF assms(1)]])
    (simp_all add: out_only_fields [OF assms(1)] a_owned_def assms(2))

lemma broadcast_no_fault: "k_fault (snd (broadcast_loop e dat ds len s)) = k_fault s"
  by (induction e dat ds len s rule: broadcast_loop.induct) (simp_all add: sock_sendmsg_def split: option.split)

lemma av_broadcast: "a_safe s (snd (local_broadcast e ttl dat s))"
proof (rule a_safe_assume, rule av_out [OF local_broadcast_out])
  assume "a_ok Excused s"
  then obtain a d ds sk where "a_devs s = (a, d) # ds" "dv_sock d = Some sk"
    by (cases "a_devs s") (auto simp: a_ok_def a_links_ok_def)
  then show "k_fault (snd (local_broadcast e ttl dat s)) = k_fault s"
    by (simp add: local_broadcast_def set_ttl_def sock_sendmsg_def broadcast_no_fault)
qed

lemma find_dev_sock:
  assumes "a_ok Excused s" "find_aodv_dev_by_dev dev s = Some (a, d)"
  shows "dv_sock d \<noteq> None"
proof -
  have "d \<in> set (nl_vals (a_devs s))"
    using assms(2) by (auto simp: find_aodv_dev_by_dev_def nl_vals_def split: option.splits dest!: nl_find_Some intro: rev_image_eqI)
  then show ?thesis using assms(1) by (simp add: a_ok_def a_links_ok_def)
qed

lemma av_send_on_dev:
  assumes "d = find_aodv_dev_by_dev dev s"
  shows "a_safe s (snd (send_on_dev e dst ttl dat d s))"
proof (rule a_safe_assume, rule av_out [OF send_on_dev_out])
  assume "a_ok Excused s"
  then show "k_fault (snd (send_on_dev e dst ttl dat d s)) = k_fault s"
    using find_dev_sock [of s dev] assms
    by (auto simp: send_on_dev_def set_ttl_def sock_sendmsg_def Let_def split: option.splits)
qed

section \<open>Routes\<close>

text \<open>A search returns an entry of the table.\<close>

lemma find_loop_in: "fst (find_route_loop e now t p rs) \<in> insert p (Some ` set (nl_addrs rs))"
proof (induction rs arbitrary: p)
  case (Cons n rs)
  obtain a r where "n = (a, r)" by (cases n)
  then show ?case using Cons [of "Some a"] Cons [of p] by (auto simp: Let_def case_prod_beta)
qed simp

lemma find_loop_addrs: "nl_addrs (snd (find_route_loop e now t p rs)) = nl_addrs rs"
  by (induction e now t p rs rule: find_route_loop.induct) (simp_all add: Let_def case_prod_beta)

lemma find_get:
  assumes "find_aodv_route e t s = (Some p, s1)"
  shows "p \<in> set (nl_addrs (a_routes s1))" "route_get p s1 \<noteq> None"
proof -
  show p: "p \<in> set (nl_addrs (a_routes s1))"
    using assms find_loop_in [of e "getcurrtime s" t None "a_routes s"] find_loop_addrs [of e "getcurrtime s" t None "a_routes s"]
    by (auto simp: find_aodv_route_def case_prod_beta)
  then show "route_get p s1 \<noteq> None" by (simp add: route_get_None route_addrs_def)
qed

text \<open>Changing entries in place keeps the node's own entry if it leaves addresses, and of own entries the mask and
  the validity.\<close>

definition keeps_self :: "(addr \<Rightarrow> aodv_route \<Rightarrow> aodv_route) \<Rightarrow> aodv_state \<Rightarrow> bool" where
  "keeps_self g s = (\<forall>(a, r) \<in> set (a_routes s). rt_ip (g a r) = rt_ip r \<and> (g_my_route s = Some a \<longrightarrow> rt_self r \<longrightarrow>
     rt_self (g a r) \<and> rt_netmask (g a r) = rt_netmask r \<and> (rt_valid r \<longrightarrow> rt_valid (g a r))))"

lemma my_route_map:
  assumes "a_routes t = map (\<lambda>(a, r). (a, g a r)) (a_routes s)" "keeps_self g s"
    "g_my_route t = g_my_route s" "g_my_ip t = g_my_ip s" "nb_ip ` set (nl_vals (a_neighs t)) \<subseteq> nb_ip ` set (nl_vals (a_neighs s))"
    "my_route_ok W s"
  shows "my_route_ok W t"
proof -
  obtain m r where m: "g_my_route s = Some m" "(m, r) \<in> set (a_routes s)" "rt_self r" "rt_ip r = g_my_ip s" "rt_netmask r = - 1"
    "\<forall>(b, q) \<in> set (a_routes s). rt_ip q = g_my_ip s \<longrightarrow> b = m" "claim_ok W r (g_my_ip s) (a_neighs s)"
    using assms(6) by (auto simp: my_route_ok_def)
  have r: "rt_self (g m r)" "rt_netmask (g m r) = - 1" "rt_ip (g m r) = g_my_ip s" "rt_valid r \<Longrightarrow> rt_valid (g m r)"
    using assms(2) m(1-5) by (auto simp: keeps_self_def)
  have "\<forall>(b, q) \<in> set (a_routes t). rt_ip q = g_my_ip t \<longrightarrow> b = m"
    using assms(1,2,4) m(6) by (fastforce simp: keeps_self_def)
  moreover have "(m, g m r) \<in> set (a_routes t)" using m(2) assms(1) by force
  moreover have "claim_ok W (g m r) (g_my_ip t) (a_neighs t)" using claim_ok_mono [OF m(7) r(4) assms(5)] assms(4) by simp
  ultimately show ?thesis using m(1) r assms(3,4) unfolding my_route_ok_def by auto
qed

lemma map_addrs: "nl_addrs (map (\<lambda>(a, r). (a, g a r)) rs) = nl_addrs rs"
  by (simp add: nl_addrs_def comp_def case_prod_beta)

lemma av_map:
  assumes "evolves e s t" "a_routes t = map (\<lambda>(a, r). (a, g a r)) (a_routes s)" "keeps_self g s"
    "nl_addrs (a_loose t) = nl_addrs (a_loose s)" "k_live t = k_live s" "k_fault t = k_fault s" "a_timers t = a_timers s"
    "a_neighs t = a_neighs s" "a_floods t = a_floods s"
  shows "a_safe s t"
proof (rule av_keep [OF assms(1)])
  show "mset (a_owned t) = mset (a_owned s)"
    using task_fields_evolve [OF assms(1)] assms by (simp add: a_owned_def map_addrs)
  show "my_route_ok W t" if "a_ok W s" for W
    using that task_fields_evolve [OF assms(1)] assms(8)
    by (intro my_route_map [OF assms(2,3)]) (simp_all add: a_ok_def)
qed (use assms in simp_all)

lemma av_find: "a_safe s (snd (find_aodv_route e t s))"
proof (rule a_safe_assume)
  assume "a_ok Excused s"
  then have "sorted_by rt_ip (a_routes s)" by (simp add: a_ok_def tables_ok_def routes_ok_def)
  note f = find_aodv_route_eq [OF this, of e t]
  show "a_safe s (snd (find_aodv_route e t s))"
    by (rule av_map [OF ev_find, where g = "\<lambda>_. pass_route e (getcurrtime s) t"])
      (simp_all add: f keeps_self_def apsnd_def map_prod_def, auto simp: pass_route_def route_stale_def)
qed

lemma route_get_in:
  assumes "a_ok Excused s" "(a, r) \<in> set (a_routes s)"
  shows "route_get a s = Some r"
  unfolding route_get_def
  using assms by (intro nl_get_in) (auto simp: a_ok_def tables_ok_def routes_ok_def route_addrs_def)

lemma av_route_upd:
  assumes "route_get p s \<noteq> None" "\<And>r. rt_ip (f r) = rt_ip r"
    and "\<And>r. route_get p s = Some r \<Longrightarrow> g_my_route s = Some p \<Longrightarrow> rt_self r \<Longrightarrow>
      rt_self (f r) \<and> rt_netmask (f r) = rt_netmask r \<and> (rt_valid r \<longrightarrow> rt_valid (f r))"
  shows "a_safe s (route_upd p f s)"
proof (rule a_safe_assume)
  assume ok: "a_ok Excused s"
  have "keeps_self (\<lambda>a r. if a = p then f r else r) s"
    using assms(2,3) route_get_in [OF ok] by (auto simp: keeps_self_def)
  then show "a_safe s (route_upd p f s)"
    using assms(1,2) by (intro av_map [OF ev_route_upd]) (auto simp: route_upd_def upd_as_map [of p f "a_routes s"])
qed

lemma av_write:
  assumes "no_oom e" "route_get p s \<noteq> None"
  shows "a_safe s (write_route e ip p nh m sq d s)"
proof -
  define s1 where "s1 = route_upd p (\<lambda>r. r\<lparr>rt_seq := sq, rt_next_hop := nh, rt_metric := m, rt_dev := d,
      rt_valid := True, rt_seq_valid := True\<rparr>) s"
  obtain r where r: "route_get p s1 = Some r" using assms(2) by (auto simp: s1_def route_get_upd)
  define s4 where "s4 = ipq_send_ip ip (snd (insert_kernel_route_entry e (rt_ip r) (rt_next_hop r) (rt_netmask r)
      (map_option nd_name (rt_dev r)) (snd (delete_kernel_route_entry e (rt_ip r) (rt_next_hop r) (rt_netmask r) s1))))"
  have "a_safe s s1" unfolding s1_def by (rule av_route_upd [OF assms(2)]) simp_all
  then have "a_safe s s4"
    unfolding s4_def by (intro as.trans [OF _ av_packets [OF ipq_send_ip_eq]] as.trans [OF _ av_kernel(1) [OF assms(1)]]
      as.trans [OF _ av_kernel(2) [OF assms(1)]])
  moreover have "route_get p s4 = Some r"
    using r by (simp add: s4_def ipq_send_ip_eq insert_kernel_route_entry_eq delete_kernel_route_entry_eq route_get_def)
  moreover have "write_route e ip p nh m sq d s =
      route_upd p (\<lambda>r. r\<lparr>rt_lifetime := getcurrtime s4 + ACTIVE_ROUTE_TIMEOUT\<rparr>) s4"
    by (simp add: write_route_def s1_def [symmetric] r s4_def Let_def)
  ultimately show ?thesis using as.trans [OF _ av_route_upd] by simp
qed

lemma create_no_oom: "no_oom e \<Longrightarrow> \<exists>t. create_aodv_route e ip s = (Some (k_allocs s), t)"
  by (simp add: create_aodv_route_def kmalloc_no_oom Let_def)

lemma mset_nl_insert: "mset (nl_addrs (nl_insert k n ns)) = add_mset (fst n) (mset (nl_addrs ns))"
  by (induction ns) auto

text \<open>A new entry is for another address than the node's own.\<close>

lemma av_create:
  assumes "no_oom e" "ip \<noteq> g_my_ip s"
  shows "a_safe s (snd (create_aodv_route e ip s))"
  unfolding a_safe_def
proof
  fix W
  obtain t where c: "create_aodv_route e ip s = (Some (k_allocs s), t)" using create_no_oom [OF assms(1)] by blast
  note t = create_aodv_route_Some [OF c, THEN conjunct2, THEN conjunct2]
  have ev: "evolves e s t" using ev_create_route [where s = s and e = e and ip = ip] c by simp
  have "a_ok W s \<Longrightarrow> a_ok W t"
    using assms(2) by (intro a_okI [OF ev]) (auto simp: t my_route_ok_def new_route_def)
  then have "heap_safe a_owned (a_ok W) s t"
    by (rule ow.safe_alloc [where M = "{#k_allocs s#}", rotated 5]) (simp_all add: t a_owned_def mset_nl_insert)
  then show "heap_safe a_owned (a_ok W) s (snd (create_aodv_route e ip s))" by (simp add: c)
qed

text \<open>The search for the node's own address finds its own entry.\<close>

lemma find_my:
  assumes "a_ok Excused s"
  shows "fst (find_aodv_route e (g_my_ip s) s) = g_my_route s"
proof -
  let ?rs = "a_routes s"
  obtain m r where m: "g_my_route s = Some m" "(m, r) \<in> set ?rs" "rt_ip r = g_my_ip s"
    "\<forall>(b, q) \<in> set ?rs. rt_ip q = g_my_ip s \<longrightarrow> b = m"
    using assms by (auto simp: a_ok_def my_route_ok_def)
  have ok: "sorted_by rt_ip ?rs" "distinct (nl_addrs ?rs)"
    using assms by (simp_all add: a_ok_def tables_ok_def routes_ok_def route_addrs_def)
  have r: "r \<in> set (nl_vals ?rs)" using m(2) by (force simp: nl_vals_def)
  have mt: "compare_aodv_route r (g_my_ip s)" "rt_ip r \<le> g_my_ip s" by (simp_all add: compare_aodv_route_def m(3))
  then obtain a where a: "last_match (g_my_ip s) ?rs = Some a" using r last_match_None [of "g_my_ip s" ?rs] by blast
  obtain q where q: "(a, q) \<in> set ?rs" "rt_ip q \<le> g_my_ip s" using last_match_Some [OF a] by blast
  have "rt_ip r \<le> rt_ip q" by (rule last_match_greatest [OF ok(1) a ok(2) q(1) r mt(2,1)])
  then have "a = m" using m(3,4) q by force
  then show ?thesis using a m(1) by (simp add: find_aodv_route_eq [OF ok(1)])
qed

lemma find_None_other: "a_ok Excused s \<Longrightarrow> find_aodv_route e ip s = (None, s1) \<Longrightarrow> ip \<noteq> g_my_ip s1"
proof
  assume "a_ok Excused s" "find_aodv_route e ip s = (None, s1)" "ip = g_my_ip s1"
  then show False
    using find_my [of s e] find_aodv_route_frame(9) [of e ip s] by (auto simp: a_ok_def my_route_ok_def)
qed

lemma av_update_route:
  assumes "no_oom e"
  shows "a_safe s (snd (update_aodv_route e ip nh m sq d s))"
proof (rule a_safe_assume)
  assume ok: "a_ok Excused s"
  obtain p s1 where f: "find_aodv_route e ip s = (p, s1)" by fastforce
  have s1: "a_safe s s1" using av_find [of s e ip] f by simp
  have "a_safe s1 (snd (update_aodv_route e ip nh m sq d s))"
  proof (rule a_safe_assume)
    assume ok1: "a_ok Excused s1"
    show "a_safe s1 (snd (update_aodv_route e ip nh m sq d s))"
    proof (cases p)
      case None
      obtain s2 where c: "create_aodv_route e ip s1 = (Some (k_allocs s1), s2)" using create_no_oom [OF assms] by blast
      have r1: "routes_ok s1" using ok1 by (simp add: a_ok_def tables_ok_def)
      have "a_safe s1 s2" using av_create [OF assms find_None_other [OF ok f [unfolded None]]] c by (metis snd_conv)
      moreover have "route_get (k_allocs s1) s2 \<noteq> None" using create_aodv_route_get(1) [OF r1 c] by simp
      ultimately have "a_safe s1 (write_route e ip (k_allocs s1) nh m sq d s2)" by (rule as.trans [OF _ av_write [OF assms]])
      then show ?thesis
        by (simp add: update_aodv_route_def f None c created_ip_upd [OF r1 c] as.refl)
    next
      case (Some a)
      then obtain r where "route_get a s1 = Some r" using find_get(2) f by blast
      then show ?thesis using Some by (simp add: update_aodv_route_def f as.refl av_write [OF assms])
    qed
  qed
  with s1 show ?thesis by (rule as.trans)
qed

text \<open>Removing an entry that is not the node's own, and the periodic flush.\<close>

lemma my_route_sub:
  assumes "set (a_routes t) \<subseteq> set (a_routes s)" "\<And>m r. g_my_route s = Some m \<Longrightarrow> (m, r) \<in> set (a_routes s) \<Longrightarrow> rt_self r \<Longrightarrow> (m, r) \<in> set (a_routes t)"
    "g_my_route t = g_my_route s" "g_my_ip t = g_my_ip s" "a_neighs t = a_neighs s" "my_route_ok W s"
  shows "my_route_ok W t"
proof -
  obtain m r where m: "g_my_route s = Some m" "(m, r) \<in> set (a_routes s)" "rt_self r" "rt_ip r = g_my_ip s" "rt_netmask r = - 1"
    "\<forall>(b, q) \<in> set (a_routes s). rt_ip q = g_my_ip s \<longrightarrow> b = m" "claim_ok W r (g_my_ip s) (a_neighs s)"
    using assms(6) by (auto simp: my_route_ok_def)
  then have "(m, r) \<in> set (a_routes t)" using assms(2) by simp
  moreover have "\<forall>(b, q) \<in> set (a_routes t). rt_ip q = g_my_ip s \<longrightarrow> b = m" using m(6) assms(1) by (meson subsetD)
  ultimately show ?thesis using m assms(3-5) unfolding my_route_ok_def by (intro exI [of _ m] exI [of _ r]) simp
qed

lemma kfree_block [simp]: "q_block (kfree a s) = q_block s"
  by (simp add: kfree_def fault_def)

lemma av_remove:
  assumes "p \<in> set (nl_addrs (a_routes s))" "g_my_route s \<noteq> Some p"
  shows "a_safe s (remove_aodv_route p s)"
  unfolding a_safe_def
proof (rule allI, rule ow.safe_assume)
  fix W
  assume "a_ok W s"
  then have d: "distinct (nl_addrs (a_routes s))" "p \<notin> set (nl_addrs (a_loose s))"
    using assms(1) by (auto simp: a_ok_def tables_ok_def routes_ok_def route_addrs_def)
  show "heap_safe a_owned (a_ok W) s (remove_aodv_route p s)"
  proof (rule ow.safe_frees)
    show "frees [p] s (remove_aodv_route p s)" by (simp add: frees_def remove_aodv_route_def)
    show "mset (a_owned s) = mset [p] + mset (a_owned (remove_aodv_route p s))"
      using mset_nl_del [OF d(1) assms(1)] d(2) by (simp add: a_owned_def remove_aodv_route_def)
    show "a_ok W (remove_aodv_route p s)" if "a_ok W s"
    proof (rule a_okI [OF ev_remove that])
      show "my_route_ok W s \<Longrightarrow> my_route_ok W (remove_aodv_route p s)"
        using assms(2) by (rule_tac my_route_sub [of _ s]) (auto simp: remove_aodv_route_def set_nl_del)
    qed
  qed (simp add: remove_aodv_route_def)
qed

lemma flush_loop_frees:
  "heap_ok s \<Longrightarrow> frees (nl_addrs (filter (\<lambda>n. flush_route e now (snd n) = None) rs)) s (snd (flush_route_loop e now rs s))
   \<and> heap_ok (snd (flush_route_loop e now rs s))"
proof (induction e now rs s rule: flush_route_loop.induct)
  case (2 e now a r rs s)
  let ?s = "snd (delete_kernel_route_entry e (rt_ip r) (rt_next_hop r) (rt_netmask r) s)"
  have "k_live ?s = k_live s" "k_fault ?s = k_fault s" "heap_ok (kfree a ?s)"
    using 2(4) heap_ok_live [OF 2(4)] by (auto simp: delete_kernel_route_entry_eq heap_ok_def)
  moreover have "frees as (kfree a ?s) t \<Longrightarrow> frees (a # as) s t" for as t
    using calculation frees_Cons [of as a ?s t] by (simp add: frees_def)
  ultimately show ?case using 2 by (auto simp: case_prod_beta flush_route_def)
qed simp

lemma flush_loop_mset:
  "mset (nl_addrs rs) = mset (nl_addrs (filter (\<lambda>n. flush_route e now (snd n) = None) rs))
     + mset (nl_addrs (fst (flush_route_loop e now rs s)))"
  unfolding flush_route_loop_map
  by (induction rs) (auto simp: List.map_filter_simps split: option.split)

lemma av_flush_routes: "a_safe s (snd (flush_aodv_route_table e s))"
  unfolding a_safe_def
proof
  fix W
  let ?now = "getcurrtime s"
  let ?gone = "filter (\<lambda>n. flush_route e ?now (snd n) = None) (a_routes s)"
  define t where "t = snd (flush_aodv_route_table e s)"
  have t: "t = (snd (flush_route_loop e ?now (a_routes s) s))\<lparr>a_routes := fst (flush_route_loop e ?now (a_routes s) s)\<rparr>"
    by (simp add: t_def flush_aodv_route_table_def case_prod_beta)
  have q: "q_block (snd (flush_route_loop e now rs u)) = q_block u" for now rs u
    by (induction e now rs u rule: flush_route_loop.induct) (simp_all add: case_prod_beta delete_kernel_route_entry_eq kfree_def fault_def)
  show "heap_safe a_owned (a_ok W) s t"
  proof (rule ow.safe_frees)
    show "heap_ok s \<Longrightarrow> frees (nl_addrs ?gone) s t"
      using flush_loop_frees [of s e ?now "a_routes s"] by (simp add: t frees_def)
    show "mset (a_owned s) = mset (nl_addrs ?gone) + mset (a_owned t)"
      using flush_loop_mset [of "a_routes s" e ?now s] by (simp add: t a_owned_def q)
    show "a_ok W t" if "a_ok W s"
    proof (rule a_okI [OF _ that])
      show "evolves e s t" unfolding t_def by (rule ev_flush_routes)
      assume "my_route_ok W s"
      then obtain m r where m: "g_my_route s = Some m" "(m, r) \<in> set (a_routes s)" "rt_self r" "rt_ip r = g_my_ip s" "rt_netmask r = - 1"
        "\<forall>(b, q) \<in> set (a_routes s). rt_ip q = g_my_ip s \<longrightarrow> b = m" "claim_ok W r (g_my_ip s) (a_neighs s)"
        by (auto simp: my_route_ok_def)
      have fr: "a_routes t = List.map_filter (\<lambda>(a, r). map_option (Pair a) (flush_route e ?now r)) (a_routes s)"
        by (simp add: t flush_route_loop_map)
      have "flush_route e ?now r = Some r" using m(3) by (simp add: flush_route_def route_stale_def)
      then have "(m, r) \<in> set (a_routes t)" using m(2) by (force simp: fr List.map_filter_def)
      moreover have "\<forall>(b, q) \<in> set (a_routes t). rt_ip q = g_my_ip s \<longrightarrow> b = m"
        using m(6) by (fastforce simp: fr List.map_filter_def flush_route_def split: if_splits)
      ultimately show "my_route_ok W t" using m(1,3-5,7) by (auto simp: my_route_ok_def t)
    qed
  qed (simp add: t flush_route_loop_allocs)
qed

section \<open>The rules for the handlers\<close>

lemmas av_ops [av] =
  av_emit [THEN as.trans [rotated]] av_kmalloc [THEN as.trans [rotated]] av_arm [THEN as.trans [rotated]]
  av_overhead [THEN as.trans [rotated]] av_kernel [THEN as.trans [rotated]] av_insert_timer [THEN as.trans [rotated]]
  av_insert_rreq_timer [THEN as.trans [rotated]] av_delete_timer [THEN as.trans [rotated]]
  av_insert_flood [THEN as.trans [rotated]] av_flush_floods [THEN as.trans [rotated]] av_drop [THEN as.trans [rotated]]
  av_broadcast [THEN as.trans [rotated]] av_find [THEN as.trans [rotated]] av_flush_routes [THEN as.trans [rotated]]
  av_update_route [THEN as.trans [rotated]]

lemma av_send_message [av]:
  assumes "a_safe s t"
  shows "a_safe s (snd (send_message e dst ttl dat dev t))"
proof (rule as.trans [OF assms])
  obtain p t1 where f: "find_aodv_route e dst t = (p, t1)" by fastforce
  have "a_safe t t1" using av_find [of t e dst] f by simp
  then have "a_safe t (snd (send_on_dev e dst ttl dat (find_aodv_dev_by_dev d t1) t1))" for d
    by (rule as.trans [OF _ av_send_on_dev]) simp
  moreover have "p = Some a \<Longrightarrow> route_get a t1 \<noteq> None" for a using find_get(2) f by blast
  ultimately show "a_safe t (snd (send_message e dst ttl dat dev t))"
    using \<open>a_safe t t1\<close> by (auto simp: send_message_def f as.refl av_send_on_dev split: option.split)
qed

lemma av_upd [av]:
  assumes "a_safe s t" "route_get p t \<noteq> None" "\<And>r. rt_ip (f r) = rt_ip r"
    and "\<And>r. route_get p t = Some r \<Longrightarrow> g_my_route t = Some p \<Longrightarrow> rt_self r \<Longrightarrow>
      rt_self (f r) \<and> rt_netmask (f r) = rt_netmask r \<and> (rt_valid r \<longrightarrow> rt_valid (f r))"
  shows "a_safe s (route_upd p f t)"
  using as.trans [OF assms(1) av_route_upd [OF assms(2-4)]] .

end
