(* ===== verification/AodvSafe.thy ===== *)
theory AodvSafe
  imports AodvHeap
begin

unbundle bit_operations_syntax

text \<open>
  Memory safety of the routing module: its handlers, its thread and its entry points keep the ownership of
  AodvHeap, so no state it reaches after loading has used a freed block or a NULL pointer.
\<close>

section \<open>Messages\<close>

lemma heap_step: "a_safe s t \<Longrightarrow> heap_owned a_owned (a_ok W) H s \<Longrightarrow> heap_owned a_owned (a_ok W) H t"
  by (simp add: a_safe_def heap_safe_def)

lemma a_safeI: "(\<And>W H. heap_owned a_owned (a_ok W) H s \<Longrightarrow> heap_owned a_owned (a_ok W) H t) \<Longrightarrow> a_safe s t"
  by (simp add: a_safe_def heap_safe_def)

lemma heap_a_ok: "heap_owned a_owned (a_ok W) H s \<Longrightarrow> a_ok W s"
  by (simp add: heap_owned_def)

lemma av_send_hello:
  assumes "no_oom e"
  shows "a_safe s (snd (send_hello e s))"
proof (rule a_safe_assume)
  assume ok: "a_ok Excused s"
  then obtain m r where m: "g_my_route s = Some m" "(m, r) \<in> set (a_routes s)" by (auto simp: a_ok_def my_route_ok_def)
  define s1 where "s1 = s\<lparr>k_allocs := Suc (k_allocs s), k_live := insert (k_allocs s) (k_live s)\<rparr>"
  have k: "kmalloc e s = (Some (k_allocs s), s1)" by (simp add: kmalloc_no_oom [OF assms] s1_def)
  have r: "route_get m s1 = Some r" using route_get_in [OF ok m(2)] by (simp add: s1_def route_get_def)
  have "a_safe s (kfree (k_allocs s) (snd (local_broadcast e 1 d s1)))" for d by (rule av_block [OF k av_broadcast])
  then have "a_safe s (update_timer_queue e (snd (insert_timer e 102 i ip (kfree (k_allocs s) (snd (local_broadcast e 1 d s1))))))" for d i ip
    by (intro av assms) simp_all
  then show "a_safe s (snd (send_hello e s))" using m(1) r by (simp add: send_hello_def k s1_def Let_def)
qed

lemma heap_free_rerr:
  "heap_owned a_owned (a_ok W) (nl_addrs ds @ H) s \<Longrightarrow> heap_owned a_owned (a_ok W) H (free_rerr_routes ds s)"
  by (induction ds s rule: free_rerr_routes.induct) (simp_all add: ow.heap_kfree)

lemma heap_send_rerr:
  assumes "no_oom e" "heap_owned a_owned (a_ok W) (nl_addrs bad @ H) s"
  shows "heap_owned a_owned (a_ok W) H (snd (send_rerr e bad s))"
proof -
  obtain p s1 where k: "kmalloc e s = (Some p, s1)" by (simp add: kmalloc_no_oom [OF assms(1)])
  have "heap_owned a_owned (a_ok W) (nl_addrs bad @ p # H) s1"
    by (rule ow.heap_perm [OF ow.heap_kmalloc [OF assms(2) k]]) simp_all
  from ow.heap_kfree [OF heap_step [OF av_broadcast heap_free_rerr [OF this]]]
  show ?thesis by (simp add: send_rerr_def k)
qed

lemma gen_rerr_loop_no_oom:
  assumes "no_oom e" "heap_owned a_owned (a_ok W) (nl_addrs bad @ H) s"
  shows "\<exists>bad' t. gen_rerr_loop e now brk rs bad s = (map (apsnd (expired_from now brk)) rs, Some bad', t)
    \<and> heap_owned a_owned (a_ok W) (nl_addrs bad' @ H) t"
  using assms(2)
proof (induction rs arbitrary: bad s)
  case (Cons n rs)
  obtain a r where n: "n = (a, r)" by (cases n)
  obtain b s1 where k: "kmalloc e s = (Some b, s1)" by (simp add: kmalloc_no_oom [OF assms(1)])
  have "heap_owned a_owned (a_ok W) (nl_addrs ((b, \<lparr>ds_ip = rt_ip r, ds_seq = htonl e (rt_seq r)\<rparr>) # bad) @ H) s1"
    using ow.heap_kmalloc [OF Cons.prems k] by simp
  from Cons.IH [OF this] Cons.IH [OF Cons.prems] show ?case
    by (cases "rt_next_hop r = brk \<and> \<not> rt_self r") (auto simp: n k expired_from_def)
qed simp

lemma av_expire_from: "a_safe s (s\<lparr>a_routes := map (apsnd (expired_from now brk)) (a_routes s)\<rparr>)"
proof (rule av_map)
  show "evolves undefined s (s\<lparr>a_routes := map (apsnd (expired_from now brk)) (a_routes s)\<rparr>)"
    by (rule ev_routes) (simp_all add: same_globals_def routes_ok_def route_addrs_def sorted_by_def comp_def)
  show "keeps_self (\<lambda>_. expired_from now brk) s" by (auto simp: keeps_self_def expired_from_def)
qed (simp_all add: apsnd_def map_prod_def)

lemma av_gen_rerr [av]:
  assumes "a_safe s t" "no_oom e"
  shows "a_safe s (snd (gen_rerr e brk t))"
proof (rule as.trans [OF assms(1) a_safeI])
  fix W H
  assume h: "heap_owned a_owned (a_ok W) H t"
  let ?g = "gen_rerr_loop e (getcurrtime t) brk (a_routes t) [] t"
  obtain bad u where g: "?g = (map (apsnd (expired_from (getcurrtime t) brk)) (a_routes t), Some bad, u)"
    "heap_owned a_owned (a_ok W) (nl_addrs bad @ H) u"
    using gen_rerr_loop_no_oom [OF assms(2), of W "[]" H t] h by fastforce
  have "a_routes u = a_routes t"
    using gen_rerr_loop_ev [where s = t and e = e and now = "getcurrtime t" and brk = brk and rs = "a_routes t" and bad = "[]"] g(1) by simp
  then have "heap_owned a_owned (a_ok W) (nl_addrs bad @ H) (u\<lparr>a_routes := fst ?g\<rparr>)"
    using heap_step [OF av_expire_from g(2), of "getcurrtime t" brk] g(1) by simp
  then show "heap_owned a_owned (a_ok W) H (snd (gen_rerr e brk t))"
    using heap_send_rerr [OF assms(2)] by (auto simp: gen_rerr_def g(1) Let_def)
qed

lemma route_get_kmalloc: "kmalloc e s = (b, t) \<Longrightarrow> route_get a t = route_get a s"
  using kmalloc_frame [of e s] by (simp add: route_get_def)

lemma recv_rerr_loop_safe:
  assumes "no_oom e" "heap_owned a_owned (a_ok W) (nl_addrs out @ H) s"
  shows "\<exists>out' t. recv_rerr_loop e src bs n i out s = (Some out', t) \<and> heap_owned a_owned (a_ok W) (nl_addrs out' @ H) t"
  using assms(2)
proof (induction n arbitrary: i out s)
  case (Suc n)
  let ?dst = "rerr_dst_at (ke_big_endian e) bs i"
  obtain p s1 where f: "find_aodv_route e (ds_ip ?dst) s = (p, s1)" by fastforce
  have s1: "heap_owned a_owned (a_ok W) (nl_addrs out @ H) s1" using heap_step [OF av_find Suc.prems, of e "ds_ip ?dst"] f by simp
  show ?case
  proof (cases p)
    case None
    then show ?thesis using f Suc.IH [OF s1] by simp
  next
    case (Some a)
    then obtain r where r: "route_get a s1 = Some r" using find_get(2) f by blast
    define s2 where "s2 = route_upd a (\<lambda>r. r\<lparr>rt_seq := ntohl e (ds_seq ?dst)\<rparr>) s1"
    obtain b s3 where k: "kmalloc e s2 = (Some b, s3)" by (simp add: kmalloc_no_oom [OF assms(1)])
    have "a_safe s1 s2" unfolding s2_def by (rule av_route_upd) (simp_all add: r)
    then have s3: "heap_owned a_owned (a_ok W) (nl_addrs ((b, ?dst) # out) @ H) s3"
      using ow.heap_kmalloc [OF heap_step [OF _ s1] k] by simp
    have r3: "route_get a s3 = Some (r\<lparr>rt_seq := ntohl e (ds_seq ?dst)\<rparr>)"
      using r by (simp add: route_get_kmalloc [OF k] s2_def route_get_upd)
    have "\<not> rt_self r \<Longrightarrow> a_safe s3 (route_upd a (expire_aodv_route (getcurrtime s3)) s3)"
      by (rule av_route_upd) (auto simp: r3)
    note s4 = heap_step [OF this s3]
    show ?thesis
      using Suc.IH [OF s1] Suc.IH [OF s3] Suc.IH [OF s4]
      by (cases "\<not> rt_self r \<and> rt_next_hop r = src"; cases "rt_valid r") (auto simp: f Some r Let_def s2_def [symmetric] k)
  qed
qed simp

lemma av_recv_rerr:
  assumes "no_oom e" "tk_data k \<noteq> None"
  shows "a_safe s (snd (recv_rerr e k s))"
proof (rule a_safeI)
  fix W H
  assume h: "heap_owned a_owned (a_ok W) H s"
  obtain b bs where d: "tk_data k = Some (b, bs)" using assms(2) by auto
  obtain out t where "recv_rerr_loop e (tk_src_ip k) bs (unat (rerr_count bs)) 0 [] s = (Some out, t)"
    "heap_owned a_owned (a_ok W) (nl_addrs out @ H) t"
    using recv_rerr_loop_safe [OF assms(1), of W "[]" H s] h by fastforce
  then show "heap_owned a_owned (a_ok W) H (snd (recv_rerr e k s))"
    using heap_send_rerr [OF assms(1)] by (auto simp: recv_rerr_def d)
qed

section \<open>Neighbours\<close>

lemma neigh_owned:
  assumes "a_neighs t = ns" "a_routes t = a_routes s" "a_loose t = a_loose s" "a_floods t = a_floods s" "a_timers t = a_timers s"
    "a_tasks t = a_tasks s" "a_devs t = a_devs s" "q_block t = q_block s"
  shows "mset (nl_addrs (a_neighs s)) + mset (a_owned t) = mset (nl_addrs ns) + mset (a_owned s)"
  using assms by (simp add: a_owned_def)

lemma av_neigh_upd [av]:
  assumes "a_safe s t" "nl_get a (a_neighs t) \<noteq> None" "\<And>n. nb_ip (f n) = nb_ip n"
  shows "a_safe s (neigh_upd a f t)"
proof (rule as.trans [OF assms(1)])
  have u: "neigh_upd a f t = t\<lparr>a_neighs := nl_upd a f (a_neighs t)\<rparr>" using assms(2) unfolding neigh_upd_def by presburger
  have ips: "nb_ip ` set (nl_vals (nl_upd a f ns)) = nb_ip ` set (nl_vals ns)" for ns
    using map_upd_key [where k = nb_ip and f = f and a = a and ns = ns, OF assms(3)] by (metis set_map)
  show "a_safe t (neigh_upd a f t)"
  proof (rule av_keep [OF ev_neigh_upd [OF assms(3)]])
    show "my_route_ok W (neigh_upd a f t)" if "a_ok W t" for W
      by (rule my_route_same [where s = t]) (use that in \<open>simp_all add: u ips a_ok_def\<close>)
  qed (simp_all add: u a_owned_def)
qed

lemma heap_lose_neigh:
  assumes "heap_owned a_owned (a_ok W) H s" "a \<in> set (nl_addrs (a_neighs s))"
  shows "heap_owned a_owned (a_ok W) H (kfree a (s\<lparr>a_neighs := nl_del a (a_neighs s)\<rparr>))"
proof -
  let ?t = "kfree a (s\<lparr>a_neighs := nl_del a (a_neighs s)\<rparr>)"
  have "a_safe s ?t"
    unfolding a_safe_def
  proof (rule allI, rule ow.safe_assume)
    fix W
    assume "distinct (a_owned s)" and ok: "a_ok W s"
    then have d: "distinct (nl_addrs (a_neighs s))" by (simp add: a_owned_def)
    show "heap_safe a_owned (a_ok W) s ?t"
    proof (rule ow.safe_frees)
      show "frees [a] s ?t" by (simp add: frees_def)
      show "mset (a_owned s) = mset [a] + mset (a_owned ?t)"
        using mset_nl_del [OF d assms(2)] by (simp add: a_owned_def)
      show "a_ok W ?t" if "a_ok W s"
      proof (rule a_okI [OF evolves_trans [OF ev_neigh_del ev_kfree] that])
        show "my_route_ok W s \<Longrightarrow> my_route_ok W ?t"
          by (rule my_route_same [of _ s]) (simp_all add: image_mono [OF nl_vals_del_subset])
      qed
    qed simp
  qed
  then show ?thesis using heap_step assms(1) by blast
qed

lemma heap_new_neigh:
  assumes "no_oom e" "heap_owned a_owned (a_ok W) H s" "create_aodv_neigh e ip s = (Some a, t)"
    "V = (if ip = g_my_ip s then Excused else W)"
  shows "heap_owned a_owned (a_ok V) H t"
proof -
  note c = create_aodv_neigh_Some [OF assms(3)]
  have t: "a = k_allocs s" "t = s\<lparr>k_allocs := Suc (k_allocs s), k_live := insert (k_allocs s) (k_live s),
      a_neighs := nl_insert nb_ip (k_allocs s, new_neigh e (k_allocs s) ip) (a_neighs s)\<rparr>"
    using c by (simp_all add: kmalloc_no_oom [OF assms(1)])
  have ev: "evolves e s t" using ev_create_neigh [where s = s and e = e and ip = ip] assms(3) by simp
  have "a_ok V s \<Longrightarrow> a_ok V t"
  proof (erule a_okI [OF ev])
    assume "my_route_ok V s"
    then show "my_route_ok V t"
      using assms(4) by (cases W) (auto simp: my_route_ok_def t(2) new_neigh_def split: if_splits)
  qed
  then have "heap_safe a_owned (a_ok V) s t"
    by (rule ow.safe_alloc [where M = "{#k_allocs s#}", rotated 5]) (simp_all add: t(2) a_owned_def mset_nl_insert)
  moreover have "heap_owned a_owned (a_ok V) H s"
    using assms(2,4) a_ok_weak by (auto simp: heap_owned_def)
  ultimately show ?thesis by (simp add: heap_safe_def)
qed

text \<open>Losing a neighbour: the route to it goes, unless it is the node's own.\<close>

lemma heap_claim:
  assumes "heap_owned a_owned (a_ok W) H s" "\<And>m r. g_my_route s = Some m \<Longrightarrow> (m, r) \<in> set (a_routes s) \<Longrightarrow> claim_ok V r (g_my_ip s) (a_neighs s)"
  shows "heap_owned a_owned (a_ok V) H s"
proof -
  have "a_ok V s" using heap_a_ok [OF assms(1)] assms(2) by (auto simp: a_ok_def my_route_ok_def)
  then show ?thesis using assms(1) by (simp add: heap_owned_def)
qed

lemma my_route_unique:
  assumes "a_ok W s" "g_my_route s = Some m" "(m, r) \<in> set (a_routes s)"
  shows "rt_self r" "rt_ip r = g_my_ip s" "rt_netmask r = - 1" "claim_ok W r (g_my_ip s) (a_neighs s)"
proof -
  obtain q where q: "(m, q) \<in> set (a_routes s)" "rt_self q" "rt_ip q = g_my_ip s" "rt_netmask q = - 1" "claim_ok W q (g_my_ip s) (a_neighs s)"
    using assms(1,2) by (auto simp: a_ok_def my_route_ok_def)
  have "q = r" using route_get_in [OF a_ok_weak [OF assms(1)] q(1)] route_get_in [OF a_ok_weak [OF assms(1)] assms(3)] by simp
  with q show "rt_self r" "rt_ip r = g_my_ip s" "rt_netmask r = - 1" "claim_ok W r (g_my_ip s) (a_neighs s)" by simp_all
qed

lemma find_other:
  assumes "a_ok W s" "find_aodv_route e ip s = (Some p, s1)" "g_my_route s = Some p"
  shows "ip = g_my_ip s"
proof -
  have s: "sorted_by rt_ip (a_routes s)" using assms(1) by (simp add: a_ok_def tables_ok_def routes_ok_def)
  have "last_match ip (a_routes s) = Some p" using assms(2) by (simp add: find_aodv_route_eq [OF s])
  then obtain r where "(p, r) \<in> set (a_routes s)" "compare_aodv_route r ip" using last_match_Some by blast
  then show ?thesis using my_route_unique [OF assms(1,3)] by (simp add: compare_aodv_route_def)
qed

lemma heap_settle:
  assumes "heap_owned a_owned (a_ok W) H s" "W \<noteq> Excused"
  shows "heap_owned a_owned (a_ok Settled) H s"
proof (rule heap_claim [OF assms(1)])
  fix m r
  assume "g_my_route s = Some m" "(m, r) \<in> set (a_routes s)"
  from my_route_unique(4) [OF heap_a_ok [OF assms(1)] this]
  show "claim_ok Settled r (g_my_ip s) (a_neighs s)" using assms(2) by (cases W) auto
qed

lemma heap_upd_my:
  assumes "heap_owned a_owned (a_ok W) H s" "g_my_route s = Some p"
    and f: "\<And>r. rt_ip (f r) = rt_ip r \<and> rt_self (f r) = rt_self r \<and> rt_netmask (f r) = rt_netmask r"
    and "\<And>r. claim_ok V (f r) (g_my_ip s) (a_neighs s)"
  shows "heap_owned a_owned (a_ok V) H (route_upd p f s)"
proof -
  have ok: "a_ok W s" by (rule heap_a_ok [OF assms(1)])
  obtain r where r: "(p, r) \<in> set (a_routes s)" using ok assms(2) by (auto simp: a_ok_def my_route_ok_def)
  note m = my_route_unique [OF ok assms(2) r] and g = route_get_in [OF a_ok_weak [OF ok] r]
  let ?t = "route_upd p f s"
  have t: "a_routes ?t = map (\<lambda>(a, r). (a, if a = p then f r else r)) (a_routes s)"
    using g by (simp add: route_upd_def upd_as_map)
  have ev: "evolves undefined s ?t" by (rule ev_route_upd) (simp add: f)
  have "my_route_ok V ?t"
    unfolding my_route_ok_def
  proof (intro exI [of _ p] exI [of _ "f r"] conjI)
    show "(p, f r) \<in> set (a_routes ?t)" using r by (force simp: t)
    have "\<forall>(b, q) \<in> set (a_routes s). rt_ip q = g_my_ip s \<longrightarrow> b = p"
      using ok assms(2) by (auto simp: a_ok_def my_route_ok_def)
    then show "\<forall>(b, q) \<in> set (a_routes ?t). rt_ip q = g_my_ip ?t \<longrightarrow> b = p"
      by (auto simp: t f split: if_splits)
  qed (use m assms(2,4) f in simp_all)
  then have "a_ok V ?t"
    using ok tables_ok_evolves [OF ev] task_fields_evolve [OF ev] by (simp add: a_ok_def a_links_ok_def)
  moreover have "a_owned ?t = a_owned s" using g by (simp add: a_owned_def) (simp add: route_upd_def)
  ultimately show ?thesis
    using assms(1) g by (simp add: heap_owned_def heap_ok_def) (simp add: route_upd_def)
qed

lemma send_rerr_more: "kstate.more (snd (send_rerr e bad s)) = kstate.more s"
proof -
  have "kstate.more (free_rerr_routes bad s) = kstate.more s" for s
    by (induction bad s rule: free_rerr_routes.induct) simp_all
  moreover have "kstate.more (snd (local_broadcast e ttl d s)) = kstate.more s" for ttl d s
    using local_broadcast_out [of s e ttl d] by (auto simp: out_only_def)
  moreover have "kstate.more (snd (kmalloc e s)) = kstate.more s" by (simp add: kmalloc_def)
  ultimately show ?thesis by (cases "kmalloc e s") (simp add: send_rerr_def Let_def split: option.split)
qed

lemma gen_rerr_more:
  assumes "no_oom e"
  shows "kstate.more (snd (gen_rerr e brk s)) =
    kstate.more (s\<lparr>a_routes := map (apsnd (expired_from (getcurrtime s) brk)) (a_routes s)\<rparr>)"
proof -
  have l: "\<exists>bad' t. gen_rerr_loop e now brk rs bad u = (map (apsnd (expired_from now brk)) rs, Some bad', t)
      \<and> kstate.more t = kstate.more u" for now rs bad u
  proof (induction rs arbitrary: bad u)
    case (Cons n rs)
    obtain a r where n: "n = (a, r)" by (cases n)
    obtain b v where k: "kmalloc e u = (Some b, v)" "kstate.more v = kstate.more u" by (simp add: kmalloc_no_oom [OF assms])
    show ?case
      using Cons.IH [of "(b, \<lparr>ds_ip = rt_ip r, ds_seq = htonl e (rt_seq r)\<rparr>) # bad" v] Cons.IH [of bad u]
      by (cases "rt_next_hop r = brk \<and> \<not> rt_self r") (auto simp: n k expired_from_def)
  qed simp
  obtain bad t where g: "gen_rerr_loop e (getcurrtime s) brk (a_routes s) [] s =
      (map (apsnd (expired_from (getcurrtime s) brk)) (a_routes s), Some bad, t)" "kstate.more t = kstate.more s"
    using l by blast
  have "kstate.more (t\<lparr>a_routes := x\<rparr>) = kstate.more (s\<lparr>a_routes := x\<rparr>)" for x using g(2) by (cases s; cases t) simp
  then show ?thesis by (simp add: gen_rerr_def g(1) Let_def send_rerr_more)
qed

lemma lose_route_safe:
  assumes "no_oom e" "heap_owned a_owned (a_ok W) H s" "find_aodv_route e ip s0 = (Some p, s)" "route_get p s = Some r"
    and "g_my_route s = Some p \<Longrightarrow> W = Claimed" "W = Claimed \<Longrightarrow> g_my_ip s \<notin> nb_ip ` set (nl_vals (a_neighs s))" "W \<noteq> Excused"
  defines "t \<equiv> snd (gen_rerr e (rt_ip r) (snd (delete_kernel_route_entry e (rt_ip r) (rt_next_hop r) (rt_netmask r) s)))"
  shows "\<exists>q. route_get p t = Some q \<and> heap_owned a_owned (a_ok Settled) H
    (if rt_valid q then route_upd p (expire_aodv_route (getcurrtime t)) t else remove_aodv_route p t)"
proof -
  let ?brk = "rt_ip r"
  define u where "u = snd (delete_kernel_route_entry e (rt_ip r) (rt_next_hop r) (rt_netmask r) s)"
  have u: "kstate.more u = kstate.more s" by (simp add: u_def delete_kernel_route_entry_eq)
  have t: "kstate.more t = kstate.more (u\<lparr>a_routes := map (apsnd (expired_from (getcurrtime u) ?brk)) (a_routes u)\<rparr>)"
    by (simp add: t_def u_def gen_rerr_more [OF assms(1)])
  note uf = a_state_more [OF u] and tf = a_state_more [OF t]
  have ht: "heap_owned a_owned (a_ok W) H t"
    unfolding t_def by (rule heap_step [OF _ assms(2)]) (intro av assms(1))
  obtain r' where "(p, r') \<in> set (a_routes s)" using find_get(1) [OF assms(3)] by (auto simp: nl_addrs_def)
  then have pr: "(p, r) \<in> set (a_routes s)"
    using route_get_in [OF a_ok_weak [OF heap_a_ok [OF assms(2)]]] assms(4) by fastforce
  let ?q = "expired_from (getcurrtime u) ?brk r"
  have pq: "(p, ?q) \<in> set (a_routes t)" using pr by (force simp: tf uf)
  then have q: "route_get p t = Some ?q" by (rule route_get_in [OF a_ok_weak [OF heap_a_ok [OF ht]]])
  show ?thesis
  proof (cases "g_my_route s = Some p")
    case True
    then have W: "W = Claimed" by (rule assms(5))
    then have "rt_valid r" "rt_self r" using my_route_unique [OF heap_a_ok [OF assms(2)] True pr] by simp_all
    then have "rt_valid ?q" by (simp add: expired_from_def)
    moreover have "heap_owned a_owned (a_ok Settled) H (route_upd p (expire_aodv_route (getcurrtime t)) t)"
      by (rule heap_upd_my [OF ht]) (use True assms(6) [OF W] in \<open>simp_all add: tf uf\<close>)
    ultimately show ?thesis using q by simp
  next
    case False
    then have "g_my_route t \<noteq> Some p" by (simp add: tf uf)
    moreover have "p \<in> set (nl_addrs (a_routes t))" using pq by (force simp: nl_addrs_def)
    ultimately have "a_safe t (remove_aodv_route p t)" "a_safe t (route_upd p (expire_aodv_route (getcurrtime t)) t)"
      by (auto intro: av_remove av_route_upd simp: q)
    then show ?thesis using q heap_step [OF _ ht] heap_settle [OF _ assms(7)] by auto
  qed
qed

lemma del_key_gone:
  "distinct (map k (nl_vals ns)) \<Longrightarrow> distinct (nl_addrs ns) \<Longrightarrow> (a, n) \<in> set ns \<Longrightarrow> k n \<notin> k ` set (nl_vals (nl_del a ns))"
proof (induction ns)
  case (Cons m ns)
  show ?case
  proof (cases "fst m = a")
    case True
    then have "a \<notin> set (nl_addrs ns)" using Cons.prems(2) by simp
    then have "m = (a, n)" "nl_del a ns = ns" using Cons.prems(3) by (force simp: nl_addrs_def)+
    then show ?thesis using Cons.prems(1) by auto
  next
    case False
    then have "(a, n) \<in> set ns" using Cons.prems(3) by auto
    then have "n \<in> set (nl_vals ns)" by (force simp: nl_vals_def)
    then have "k n \<noteq> k (snd m)" using Cons.prems(1) by (auto intro: rev_image_eqI)
    then show ?thesis using False Cons \<open>(a, n) \<in> set ns\<close> by (cases m) auto
  qed
qed simp

lemma delete_neigh_safe:
  assumes "no_oom e" "heap_owned a_owned (a_ok Settled) H s"
  shows "heap_owned a_owned (a_ok Settled) H (snd (delete_aodv_neigh e ip s))"
proof (cases "nl_find (\<lambda>n. nb_ip n = ip) (a_neighs s)")
  case None
  then show ?thesis using assms(2) by (simp add: delete_aodv_neigh_def)
next
  case (Some x)
  obtain a n where x: "x = (a, n)" by (cases x)
  have n: "(a, n) \<in> set (a_neighs s)" "nb_ip n = ip" using nl_find_Some [OF Some [unfolded x]] by simp_all
  define W where "W = (if ip = g_my_ip s then Claimed else Settled)"
  note ok = heap_a_ok [OF assms(2)]
  have h0: "heap_owned a_owned (a_ok W) H s"
    using n my_route_unique(4) [OF ok] by (intro heap_claim [OF assms(2)]) (force simp: W_def nl_vals_def)
  define s1 where "s1 = kfree a (s\<lparr>a_neighs := nl_del a (a_neighs s)\<rparr>)"
  define s2 where "s2 = update_timer_queue e (delete_timer ip 103 s1)"
  obtain p s3 where f: "find_aodv_route e ip s2 = (p, s3)" by fastforce
  have "heap_owned a_owned (a_ok W) H s1"
    unfolding s1_def using n(1) by (intro heap_lose_neigh [OF h0]) (force simp: nl_addrs_def)
  moreover have "a_safe s1 s2" unfolding s2_def by (intro av)
  ultimately have h2: "heap_owned a_owned (a_ok W) H s2" using heap_step by blast
  then have h3: "heap_owned a_owned (a_ok W) H s3" using heap_step [OF av_find, of W H s2 e ip] f by simp
  have s3: "s3 = snd (find_aodv_route e ip s2)" by (simp add: f)
  have g: "g_my_ip s3 = g_my_ip s" "a_neighs s3 = nl_del a (a_neighs s)" "g_my_ip s2 = g_my_ip s" "g_my_route s3 = g_my_route s2"
    unfolding s3 by (simp_all add: s2_def s1_def)
  have gone: "ip \<notin> nb_ip ` set (nl_vals (a_neighs s3))"
    using del_key_gone [OF _ _ n(1), where k = nb_ip] ok n(2) by (simp add: g a_ok_def tables_ok_def neighs_ok_def)
  show ?thesis
  proof (cases p)
    case None
    have "W \<noteq> Excused" by (simp add: W_def)
    from heap_settle [OF h3 this] show ?thesis
      using Some x None f by (simp add: delete_aodv_neigh_def s1_def s2_def)
  next
    case (Some b)
    then obtain r where r: "route_get b s3 = Some r" using find_get(2) f by blast
    have my: "g_my_route s3 = Some b \<Longrightarrow> W = Claimed"
      using find_other [OF heap_a_ok [OF h2], of e ip b s3] f Some by (simp add: W_def g)
    have "\<exists>q. route_get b t = Some q \<and> heap_owned a_owned (a_ok Settled) H
        (if rt_valid q then route_upd b (expire_aodv_route (getcurrtime t)) t else remove_aodv_route b t)"
      if "t = snd (gen_rerr e (rt_ip r) (snd (delete_kernel_route_entry e (rt_ip r) (rt_next_hop r) (rt_netmask r) s3)))" for t
      unfolding that
      by (rule lose_route_safe [OF assms(1) h3 f [unfolded Some] r my]) (use gone in \<open>auto simp: W_def g split: if_splits\<close>)
    then show ?thesis
      using heap_settle [OF h3] \<open>nl_find _ _ = Some x\<close> x Some f r
      by (auto simp: delete_aodv_neigh_def s1_def [symmetric] s2_def [symmetric] Let_def W_def)
  qed
qed

text \<open>Hearing of a neighbour.\<close>

definition link_route :: "kenv \<Rightarrow> aodv_neigh \<Rightarrow> rrep \<Rightarrow> u64 \<Rightarrow> aodv_route \<Rightarrow> aodv_route" where
  "link_route e n rep now r = r\<lparr>rt_lifetime := now + ucast (rp_lifetime rep), rt_dev := nb_dev n, rt_next_hop := nb_ip n,
     rt_seq_valid := True, rt_valid := True, rt_seq := rp_dst_seq rep\<rparr>"

text \<open>The entry that \<open>update_aodv_neigh_route\<close> writes: the one found, or a new one.\<close>

definition neigh_route :: "kenv \<Rightarrow> u32 \<Rightarrow> aodv_state \<Rightarrow> addr option \<times> aodv_state" where
  "neigh_route e ip s =
     (let (found, s1) = find_aodv_route e ip s
      in case found of Some p \<Rightarrow> (Some p, s1) | None \<Rightarrow> create_aodv_route e ip s1)"

lemma neigh_route_safe:
  assumes "no_oom e" "heap_owned a_owned (a_ok W) H s"
  shows "\<exists>p r t. neigh_route e ip s = (Some p, t) \<and> route_get p t = Some r \<and> heap_owned a_owned (a_ok W) H t
    \<and> a_neighs t = a_neighs s \<and> g_my_ip t = g_my_ip s \<and> (ip = g_my_ip s \<longrightarrow> g_my_route t = Some p)"
proof -
  note ok = a_ok_weak [OF heap_a_ok [OF assms(2)]]
  obtain p s1 where f: "find_aodv_route e ip s = (p, s1)" by fastforce
  have s1: "s1 = snd (find_aodv_route e ip s)" by (simp add: f)
  have g: "a_neighs s1 = a_neighs s" "g_my_ip s1 = g_my_ip s" "g_my_route s1 = g_my_route s" unfolding s1 by simp_all
  have h1: "heap_owned a_owned (a_ok W) H s1" unfolding s1 by (rule heap_step [OF av_find assms(2)])
  show ?thesis
  proof (cases p)
    case (Some a)
    then show ?thesis
      using f find_get(2) [OF f [unfolded Some]] find_my [OF ok, of e] g h1 by (auto simp: neigh_route_def)
  next
    case None
    obtain t where c: "create_aodv_route e ip s1 = (Some (k_allocs s1), t)" using create_no_oom [OF assms(1)] by blast
    have ip: "ip \<noteq> g_my_ip s1" by (rule find_None_other [OF ok f [unfolded None]])
    have "routes_ok s1" using heap_a_ok [OF h1] by (simp add: a_ok_def tables_ok_def)
    from create_aodv_route_get(1) [OF this c] ip show ?thesis
      using f None c heap_step [OF av_create [OF assms(1) ip] h1] g create_aodv_route_Some [OF c]
      by (simp add: neigh_route_def)
  qed
qed

lemma update_neigh_route_safe:
  assumes "no_oom e" "heap_owned a_owned (a_ok W) H s" "nl_get a (a_neighs s) = Some n"
  shows "heap_owned a_owned (a_ok (if nb_ip n = g_my_ip s then Claimed else W)) H (update_aodv_neigh_route e a rep s)"
proof -
  obtain p r t where t: "neigh_route e (nb_ip n) s = (Some p, t)" "route_get p t = Some r" "heap_owned a_owned (a_ok W) H t"
    "a_neighs t = a_neighs s" "g_my_ip t = g_my_ip s" "nb_ip n = g_my_ip s \<longrightarrow> g_my_route t = Some p"
    using neigh_route_safe [OF assms(1,2), of "nb_ip n"] by blast
  define s4 where "s4 = snd (insert_kernel_route_entry e (rt_ip r) (rt_next_hop r) (rt_netmask r) (map_option nd_name (rt_dev r))
      (snd (delete_kernel_route_entry e (rt_ip r) (rt_next_hop r) (rt_netmask r) t)))"
  have f4: "kstate.more s4 = kstate.more t" by (simp add: s4_def insert_kernel_route_entry_eq delete_kernel_route_entry_eq)
  note g4 = a_state_more [OF f4]
  have r4: "route_get p s4 = Some r" using t(2) by (simp add: route_get_def g4)
  have "a_safe t s4" unfolding s4_def by (intro av assms(1))
  then have h4: "heap_owned a_owned (a_ok W) H s4" by (rule heap_step [OF _ t(3)])
  let ?f = "link_route e n rep (getcurrtime s4)"
  define s5 where "s5 = route_upd p ?f s4"
  define s6 where "s6 = neigh_upd a (\<lambda>n. n\<lparr>nb_route_entry := Some p\<rparr>) s5"
  have "heap_owned a_owned (a_ok (if nb_ip n = g_my_ip s then Claimed else W)) H s5"
  proof (cases "nb_ip n = g_my_ip s")
    case True
    have "heap_owned a_owned (a_ok Claimed) H s5"
      unfolding s5_def by (rule heap_upd_my [OF h4]) (use True t(6) in \<open>simp_all add: g4 link_route_def\<close>)
    with True show ?thesis by simp
  next
    case False
    have "a_safe s4 s5" unfolding s5_def by (rule av_route_upd) (simp_all add: r4 link_route_def)
    from heap_step [OF this h4] False show ?thesis by simp
  qed
  moreover have "a_safe s5 (route_upd p (\<lambda>r. r\<lparr>rt_metric := 1\<rparr>) s6)"
  proof (rule av_upd)
    have "route_get p s6 = route_get p s5" by (simp add: s6_def route_get_def neigh_upd_def)
    then show "route_get p s6 \<noteq> None" by (simp add: s5_def route_get_upd r4)
    show "a_safe s5 s6" unfolding s6_def by (intro av) (simp_all add: s5_def g4 t(4) assms(3))
  qed simp_all
  moreover have "update_aodv_neigh_route e a rep s = route_upd p (\<lambda>r. r\<lparr>rt_metric := 1\<rparr>) s6"
    using t(1,2) by (auto simp: update_aodv_neigh_route_def assms(3) neigh_route_def s6_def s5_def s4_def link_route_def [abs_def]
        Let_def case_prod_beta split: option.splits)
  ultimately show ?thesis using heap_step by metis
qed

lemma update_neigh_safe:
  assumes "no_oom e" "heap_owned a_owned (a_ok W) H s" "nl_get a (a_neighs s) = Some n"
  shows "heap_owned a_owned (a_ok (if nb_valid_link n \<and> nb_ip n = g_my_ip s then Claimed else W)) H
    (snd (update_aodv_neigh e (Some a) rep s))"
  using update_neigh_route_safe [OF assms] assms(2,3) by (simp add: update_aodv_neigh_def split: if_splits)

lemma hello_neigh_safe:
  assumes "no_oom e" "heap_owned a_owned (a_ok W) H s" "nl_get a (a_neighs s) = Some n"
  shows "heap_owned a_owned (a_ok (if nb_valid_link n \<and> nb_ip n = g_my_ip s then Claimed else W)) H (snd (hello_neigh e a rep s))"
proof -
  define s3 where "s3 = update_timer_queue e (snd (insert_timer e 103 (HELLO_INTERVAL * (1 + ALLOWED_HELLO_LOSS) + 100) (nb_ip n)
      (delete_timer (nb_ip n) 103 s)))"
  define n' where "n' = n\<lparr>nb_lifetime := ucast (rp_lifetime rep) + getcurrtime s3 + 20\<rparr>"
  define s4 where "s4 = neigh_upd a (\<lambda>n. n\<lparr>nb_lifetime := ucast (rp_lifetime rep) + getcurrtime s3 + 20\<rparr>) s3"
  have n3: "a_neighs s3 = a_neighs s" "g_my_ip s3 = g_my_ip s" by (simp_all add: s3_def)
  have "a_safe s s3" unfolding s3_def by (intro av assms(1)) simp
  then have "a_safe s s4" unfolding s4_def by (rule av_neigh_upd) (simp_all add: n3 assms(3))
  from heap_step [OF this assms(2)] have "heap_owned a_owned (a_ok W) H s4" .
  moreover have "nl_get a (a_neighs s4) = Some n'" "g_my_ip s4 = g_my_ip s"
    using assms(3) by (simp_all add: s4_def neigh_upd_def n3 nl_get_upd n'_def)
  ultimately have "heap_owned a_owned (a_ok (if nb_valid_link n' \<and> nb_ip n' = g_my_ip s4 then Claimed else W)) H
    (snd (update_aodv_neigh e (Some a) rep s4))"
    using update_neigh_safe [OF assms(1)] by blast
  moreover have "snd (hello_neigh e a rep s) = snd (update_aodv_neigh e (Some a) rep s4)"
    by (simp add: hello_neigh_def assms(3) Let_def s3_def s4_def)
  ultimately show ?thesis by (simp add: n'_def \<open>g_my_ip s4 = g_my_ip s\<close>)
qed

lemma neigh_get_in: "a_ok W s \<Longrightarrow> (a, n) \<in> set (a_neighs s) \<Longrightarrow> nl_get a (a_neighs s) = Some n"
  by (intro nl_get_in) (simp_all add: a_ok_def tables_ok_def neighs_ok_def)

lemma recv_hello_safe:
  assumes "no_oom e" "heap_owned a_owned (a_ok Settled) H s"
  shows "heap_owned a_owned (a_ok Settled) H (snd (recv_hello e rep k s))"
proof (cases "find_aodv_neigh (rp_dst_ip rep) s")
  case (Some x)
  obtain a n where x: "x = (a, n)" by (cases x)
  then have "(a, n) \<in> set (a_neighs s)"
    using Some find_neigh_loop_Some [of "rp_dst_ip rep" "a_neighs s" a n] by (simp add: find_aodv_neigh_def)
  from heap_settle [OF hello_neigh_safe [OF assms neigh_get_in [OF heap_a_ok [OF assms(2)] this]]] show ?thesis
    using Some x by (simp add: recv_hello_def)
next
  case None
  obtain b t where c: "create_aodv_neigh e (rp_dst_ip rep) s = (b, t)" by fastforce
  show ?thesis
  proof (cases b)
    case None
    then have "t = s \<or> t = snd (kmalloc e s)" using create_aodv_neigh_None c by blast
    then have "a_safe s t" by (auto intro: av)
    then show ?thesis
      using heap_step [OF _ assms(2)] \<open>find_aodv_neigh _ s = None\<close> c None by (simp add: recv_hello_def)
  next
    case (Some a)
    let ?V = "if rp_dst_ip rep = g_my_ip s then Excused else Settled"
    note cr = create_aodv_neigh_Some [OF c [unfolded Some]]
    have h: "heap_owned a_owned (a_ok ?V) H t" by (rule heap_new_neigh [OF assms c [unfolded Some] refl])
    let ?n = "new_neigh e a (rp_dst_ip rep)"
    have n: "nl_get a (a_neighs t) = Some ?n" using cr by (intro neigh_get_in [OF heap_a_ok [OF h]]) simp
    define u where "u = neigh_upd a (\<lambda>n. n\<lparr>nb_hw_addr := tk_src_hw_addr k, nb_dev := tk_dev k\<rparr>) t"
    have "a_safe t u" unfolding u_def by (intro av) (simp_all add: n)
    from heap_step [OF this h] have "heap_owned a_owned (a_ok ?V) H u" .
    moreover have "nl_get a (a_neighs u) = Some (?n\<lparr>nb_hw_addr := tk_src_hw_addr k, nb_dev := tk_dev k\<rparr>)" "g_my_ip u = g_my_ip s"
      using n cr by (simp_all add: u_def neigh_upd_def nl_get_upd)
    ultimately have "heap_owned a_owned (a_ok (if rp_dst_ip rep = g_my_ip s then Claimed else ?V)) H (snd (hello_neigh e a rep u))"
      using hello_neigh_safe [OF assms(1), of ?V H u a _ rep] by (simp add: new_neigh_def)
    from heap_settle [OF this] show ?thesis
      using \<open>find_aodv_neigh _ s = None\<close> c Some by (simp add: recv_hello_def u_def split: if_splits)
  qed
qed

section \<open>Route replies and requests\<close>

lemma find_addrs: "find_aodv_route e t s = (q, s1) \<Longrightarrow> route_addrs s1 = route_addrs s"
  using find_loop_addrs [of e "getcurrtime s" t None "a_routes s"]
  by (auto simp: find_aodv_route_def case_prod_beta route_addrs_def)

lemma find_keeps_get: "find_aodv_route e t s = (q, s1) \<Longrightarrow> route_get p s1 = None \<longleftrightarrow> route_get p s = None"
  by (simp add: route_get_None find_addrs)

lemma av_send_rrep [av]:
  assumes "a_safe s t" "no_oom e"
  shows "a_safe s (send_rrep e x y t)"
proof -
  obtain a t1 where k: "kmalloc e t = (Some a, t1)" by (simp add: kmalloc_no_oom [OF assms(2)])
  have "a_safe t (kfree a (snd (send_message e d l m None t1)))" for d l m by (rule av_block [OF k]) (intro av)
  then show ?thesis using as.trans [OF assms(1)] by (simp add: send_rrep_def k)
qed

lemma av_gen_rrep [av]:
  assumes "a_safe s t" "no_oom e"
  shows "a_safe s (snd (gen_rrep e a b t))"
proof -
  obtain p t1 where f: "find_aodv_route e a t = (p, t1)" by fastforce
  obtain q t2 where g: "find_aodv_route e b t1 = (q, t2)" by fastforce
  have t: "t1 = snd (find_aodv_route e a t)" "t2 = snd (find_aodv_route e b t1)" by (simp_all add: f g)
  have s: "a_safe s t1" "a_safe s t2" unfolding t by (intro av assms)+
  have "p = Some x \<Longrightarrow> route_get x t2 \<noteq> None" "q = Some y \<Longrightarrow> route_get y t2 \<noteq> None" for x y
    using find_get(2) find_keeps_get [OF g] f g by blast+
  then show ?thesis using s av_send_rrep [OF s(2) assms(2)] by (auto simp: gen_rrep_def f g split: option.split)
qed

lemma recv_rrep_safe:
  assumes "no_oom e" "tk_data k = Some (b, bs)" "heap_owned a_owned (a_ok Settled) H s"
  shows "heap_owned a_owned (a_ok Settled) H (snd (recv_rrep e k s))"
proof -
  define rep where "rep = convert_rrep_to_host e (bytes_rrep (ke_big_endian e) bs)"
  obtain ok s1 where c: "check_rrep e rep k s = (ok, s1)" by fastforce
  show ?thesis
  proof (cases "rp_src_ip rep = rp_dst_ip rep")
    case True
    have "heap_owned a_owned (a_ok Settled) H (snd (recv_hello e rep k (s\<lparr>aodv_overhead := aodv_overhead s - 1\<rparr>)))"
      by (rule recv_hello_safe [OF assms(1) heap_step [OF av_overhead assms(3)]])
    then show ?thesis using True by (simp add: recv_rrep_def assms(2) check_rrep_def rep_def [symmetric])
  next
    case False
    then have "a_safe s s1" using c by (auto simp: check_rrep_def split: if_splits intro: av)
    define rep1 where "rep1 = rep\<lparr>rp_metric := rp_metric rep + 1\<rparr>"
    define s2 where "s2 = snd (update_aodv_route e (rp_dst_ip rep1) (tk_src_ip k) (rp_metric rep1) (rp_dst_seq rep1) (tk_dev k) s1)"
    obtain p s3 where f: "find_aodv_route e (rp_src_ip rep1) s2 = (p, s3)" by fastforce
    have s3: "s3 = snd (find_aodv_route e (rp_src_ip rep1) s2)" by (simp add: f)
    have "a_safe s s3" unfolding s3 s2_def by (intro av assms(1) \<open>a_safe s s1\<close>)
    moreover have "p = Some x \<Longrightarrow> route_get x s3 \<noteq> None" for x using find_get(2) f by blast
    moreover have "snd (recv_rrep e k s) = (if \<not> ok then s1 else case p of None \<Rightarrow> s3 | Some p \<Rightarrow>
        (case route_get p s3 of None \<Rightarrow> fault s3 | Some r \<Rightarrow> if rt_self r then s3
           else snd (send_message e (rt_next_hop r) NET_DIAMETER
                  (rrep_bytes (ke_big_endian e) (convert_rrep_to_network e rep1)) None s3)))"
      by (simp add: recv_rrep_def assms(2) rep_def [symmetric] c rep1_def [symmetric] s2_def [symmetric] f Let_def split: option.split)
    ultimately have "a_safe s (snd (recv_rrep e k s))"
      using \<open>a_safe s s1\<close> av_send_message by (auto split: option.split)
    then show ?thesis by (rule heap_step [OF _ assms(3)])
  qed
qed

lemma subnet_my: "a_ok W s \<Longrightarrow> aodv_subnet_test (g_my_ip s) s"
proof -
  assume "a_ok W s"
  then obtain d where "d \<in> set (nl_vals (a_devs s))" "dv_ip d = g_my_ip s" by (auto simp: a_ok_def a_links_ok_def)
  moreover have "d \<in> set (nl_vals ds) \<Longrightarrow> dv_ip d = ip \<Longrightarrow> subnet_loop ip ds" for ds ip
    by (induction ip ds rule: subnet_loop.induct) (auto simp: and.commute)
  ultimately show ?thesis by (simp add: aodv_subnet_test_def)
qed

lemma gateway_route_safe:
  assumes "no_oom e" "a_ok Excused s" "ip \<noteq> g_my_ip s"
  shows "\<exists>d t. gateway_route e ip s = (Some d, t) \<and> a_safe s t \<and> route_get d t \<noteq> None"
proof -
  obtain s1 where c: "create_aodv_route e ip s = (Some (k_allocs s), s1)" using create_no_oom [OF assms(1)] by blast
  have r: "routes_ok s" using assms(2) by (simp add: a_ok_def tables_ok_def)
  obtain m x where m: "g_my_route s = Some m" "(m, x) \<in> set (a_routes s)" using assms(2) by (auto simp: a_ok_def my_route_ok_def)
  have "m < k_allocs s" using r nl_addrs_in [OF m(2)] by (auto simp: routes_ok_def route_addrs_def)
  then have me: "route_get m s1 = Some x" "g_my_route s1 = Some m"
    using create_aodv_route_get(2) [OF r c] route_get_in [OF assms(2) m(2)] create_aodv_route_Some [OF c] m(1) by simp_all
  have g: "route_get (k_allocs s) s1 \<noteq> None" using create_aodv_route_get(1) [OF r c] by simp
  have s1: "a_safe s s1" using av_create [OF assms(1,3)] c by (metis snd_conv)
  have "a_safe s (route_upd (k_allocs s) (\<lambda>r. r\<lparr>rt_seq := rt_seq x, rt_next_hop := ip, rt_metric := 1, rt_dev := rt_dev x\<rparr>) s1)"
    by (rule av_upd [OF s1 g]) simp_all
  then show ?thesis using c me g by (simp add: gateway_route_def route_get_upd)
qed

lemma av_validate: "a_safe s t \<Longrightarrow> route_get p t \<noteq> None \<Longrightarrow> a_safe s (validate_route (Some p) t)"
  unfolding validate_route_def deref_upd_def option.case by (rule av_upd) simp_all

lemma av_reply [av]:
  assumes "a_safe s t" "no_oom e"
  shows "a_safe s (snd (reply_to_rreq e r t))"
proof -
  let ?ip = "rq_dst_ip r"
  obtain p t1 where f: "find_aodv_route e ?ip t = (p, t1)" by fastforce
  have t1: "t1 = snd (find_aodv_route e ?ip t)" by (simp add: f)
  have "a_safe s t1" unfolding t1 by (intro av assms)
  moreover have "a_safe t1 (snd (reply_to_rreq e r t))"
  proof (rule a_safe_assume)
    assume ok: "a_ok Excused t1"
    have get: "\<exists>x. route_get a t1 = Some x" if "p = Some a" for a using find_get(2) f that by blast
    have gw: "\<exists>d u. gateway_route e ?ip t1 = (Some d, u) \<and> a_safe t1 u \<and> route_get d u \<noteq> None" if "\<not> aodv_subnet_test ?ip t1"
    proof -
      have "?ip \<noteq> g_my_ip t1" using subnet_my [OF ok] that by auto
      from gateway_route_safe [OF assms(2) ok this] show ?thesis .
    qed
    show "a_safe t1 (snd (reply_to_rreq e r t))"
    proof (cases "aodv_subnet_test ?ip t1")
      case True
      then show ?thesis
        using get by (auto simp: reply_to_rreq_def f as.refl deref_upd_def Let_def intro!: av_route_upd split: option.split)
    next
      case False
      obtain d u where g: "gateway_route e ?ip t1 = (Some d, u)" "a_safe t1 (validate_route (Some d) u)"
        using gw [OF False] av_validate by blast
      have "a_safe t1 (validate_route (Some a) t1)" if "p = Some a" for a
        by (rule av_validate [OF as.refl]) (use get [OF that] in simp)
      with False show ?thesis
        using g by (auto simp: reply_to_rreq_def f as.refl Let_def split: option.split)
    qed
  qed
  ultimately show ?thesis by (rule as.trans)
qed

lemma av_check_rreq [av]: "a_safe s t \<Longrightarrow> a_safe s (snd (check_rreq e r h t))"
  unfolding check_rreq_def Let_def by (intro av; assumption?)

lemma av_recv_rreq:
  assumes "no_oom e" "tk_data k = Some (b, bs)"
  shows "a_safe s (snd (recv_rreq e k s))"
  unfolding recv_rreq_def forward_rreq_def assms(2) option.case prod.case Let_def
  by (intro av assms(1); assumption?)

lemma av_launch:
  assumes "no_oom e" "kmalloc e s = (Some a, s1)"
  shows "a_safe s (snd (launch_rreq e a d x y n s1))"
proof -
  obtain p t1 where f: "find_aodv_route e y s1 = (p, t1)" by fastforce
  obtain q t2 where g: "find_aodv_route e x t1 = (q, t2)" by fastforce
  have t: "t1 = snd (find_aodv_route e y s1)" "t2 = snd (find_aodv_route e x t1)" by (simp_all add: f g)
  have s2: "a_safe s1 t2" unfolding t by (intro av)
  show ?thesis
  proof (cases q)
    case None
    then show ?thesis using av_block [OF assms(2) s2] by (simp add: launch_rreq_def f g)
  next
    case (Some b)
    then obtain r where r: "route_get b t2 = Some r" using find_get(2) g by blast
    define t3 where "t3 = route_upd b (\<lambda>r. r\<lparr>rt_rreq_id := rt_rreq_id r + 1, rt_seq := rt_seq r + 1\<rparr>) t2"
    have s3: "a_safe s1 t3" unfolding t3_def by (rule av_upd [OF s2]) (simp_all add: r)
    have "a_safe s1 (snd (insert_flood_id e v w i lt t3))" for v w i lt by (intro av assms(1) s3)
    then have "a_safe s (kfree a (snd (insert_flood_id e v w i lt t3)))" for v w i lt by (rule av_block [OF assms(2)])
    moreover have "a_safe s1 (snd (local_broadcast e l m (update_timer_queue e (snd (insert_rreq_timer e o' n
        (snd (insert_flood_id e v w i lt t3)))))))" for l m o' v w i lt by (intro av assms(1) s3)
    then have "a_safe s (kfree a (snd (local_broadcast e l m (update_timer_queue e (snd (insert_rreq_timer e o' n
        (snd (insert_flood_id e v w i lt t3))))))))" for l m o' v w i lt by (rule av_block [OF assms(2)])
    moreover have "\<exists>r'. route_get b t3 = Some r'" by (simp add: t3_def route_get_upd r)
    ultimately show ?thesis
      by (auto simp: launch_rreq_def f g Some t3_def [symmetric] Let_def case_prod_beta)
  qed
qed

lemma av_resend: "no_oom e \<Longrightarrow> a_safe s (snd (resend_rreq e k s))"
  using av_launch [OF _ kmalloc_no_oom] by (simp add: resend_rreq_def av_drop kmalloc_no_oom)

lemma av_gen_rreq [av]:
  assumes "a_safe s t" "no_oom e"
  shows "a_safe s (snd (gen_rreq e x y t))"
proof (rule as.trans [OF assms(1)])
  obtain l u where k: "kmalloc e t = (Some l, u)" by (simp add: kmalloc_no_oom [OF assms(2)])
  obtain a v where m: "kmalloc e u = (Some a, v)" by (simp add: kmalloc_no_oom [OF assms(2)])
  have "a_safe t u" using av_kmalloc [of t e] k by simp
  from as.trans [OF this av_launch [OF assms(2) m]] show "a_safe t (snd (gen_rreq e x y t))"
    by (simp add: gen_rreq_def k m as.refl)
qed

section \<open>The thread\<close>

text \<open>The thread holds the task it handles and its message.\<close>

abbreviation (input) a_held :: "addr \<times> task \<Rightarrow> addr list" where
  "a_held k \<equiv> task_blocks [apsnd data_block k]"

lemma a_heap_get:
  assumes "heap_owned a_owned (a_ok W) H s" "a_tasks s = k # ks"
  shows "heap_owned a_owned (a_ok W) (a_held k @ H) (s\<lparr>a_tasks := ks\<rparr>)" "a_task_ok (snd k)"
proof -
  have "tables_ok (s\<lparr>a_tasks := ks\<rparr>)" if "tables_ok s" by (rule tables_ok_same [OF _ _ _ _ _ _ _ _ _ that]) simp_all
  then have "a_ok W (s\<lparr>a_tasks := ks\<rparr>)" if "a_ok W s"
    using that assms(2) by (simp add: a_ok_def a_links_ok_def my_route_ok_def)
  then show "heap_owned a_owned (a_ok W) (a_held k @ H) (s\<lparr>a_tasks := ks\<rparr>)"
    by (intro ow.heap_perm [OF assms(1)])
      (simp_all add: a_owned_def task_blocks_def assms(2) split: option.split)
  show "a_task_ok (snd k)" using heap_a_ok [OF assms(1)] assms(2) by (simp add: a_ok_def a_links_ok_def)
qed

lemma a_dispatch_safe:
  assumes "no_oom e" "heap_owned a_owned (a_ok Settled) (a_held (a, k) @ H) s" "a_task_ok k"
  shows "heap_owned a_owned (a_ok Settled) H (dispatch e (a, k) s)"
proof (cases "tk_type k \<in> {1, 2, 3}")
  case True
  then obtain b bs where d: "tk_data k = Some (b, bs)" using assms(3) by (auto simp: a_task_ok_def)
  then have h: "heap_owned a_owned (a_ok Settled) (b # a # H) s" using assms(2) by (simp add: task_blocks_def data_block_def)
  have "heap_owned a_owned (a_ok Settled) (b # a # H) (snd (recv_rreq e k s))"
    "heap_owned a_owned (a_ok Settled) (b # a # H) (snd (recv_rrep e k s))"
    "heap_owned a_owned (a_ok Settled) (b # a # H) (snd (recv_rerr e k s))"
    using heap_step [OF av_recv_rreq [OF assms(1) d] h] recv_rrep_safe [OF assms(1) d h]
      heap_step [OF av_recv_rerr [OF assms(1)] h] d by simp_all
  then show ?thesis
    using True by (auto simp: dispatch_def data_block_def d kfree_opt_def intro!: ow.heap_kfree)
next
  case False
  have h: "heap_owned a_owned (a_ok Settled) (a # H) s"
    using assms(2) by (cases "data_block k") (auto simp: task_blocks_def heap_owned_def)
  have "heap_owned a_owned (a_ok Settled) (a # H) (snd (delete_aodv_neigh e (tk_src_ip k) s))"
    by (rule delete_neigh_safe [OF assms(1) h])
  moreover have "a_safe s (snd (flush_aodv_route_table e (snd (flush_flood_id_queue e s))))" "a_safe s (snd (send_hello e s))"
    "a_safe s (snd (flush_aodv_route_table e s))" "a_safe s (snd (resend_rreq e k s))"
    by (intro av assms(1) av_send_hello av_resend)+
  ultimately show ?thesis
    using False heap_step [OF _ h] h unfolding dispatch_def Let_def by (auto intro!: ow.heap_kfree)
qed

text \<open>Between handlers nobody is excused.\<close>

abbreviation (input) a_keeps :: "aodv_state \<Rightarrow> aodv_state \<Rightarrow> bool" where
  "a_keeps \<equiv> heap_safe a_owned (a_ok Settled)"

lemma keeps_safe: "a_safe s t \<Longrightarrow> a_keeps s t"
  by (simp add: a_safe_def)

lemma a_thread_safe:
  assumes "no_oom e"
  shows "a_keeps s (thread_round e s)"
proof (cases "a_tasks s")
  case (Cons k ks)
  have "heap_owned a_owned (a_ok Settled) H (dispatch e k (s\<lparr>a_tasks := ks\<rparr>))" if "heap_owned a_owned (a_ok Settled) H s" for H
    using a_dispatch_safe [OF assms, of "fst k" "snd k"] a_heap_get [OF that Cons] by simp
  then show ?thesis using Cons by (simp add: heap_safe_def thread_round_def get_task_def)
qed (simp add: thread_round_def get_task_def ow.safe_refl)

section \<open>Timers and packets\<close>

lemma a_queue_safe:
  assumes "heap_owned a_owned (a_ok W) (a_held k @ H) s" "a_task_ok (snd k)"
  shows "heap_owned a_owned (a_ok W) H (queue_aodv_task k s)"
proof -
  have "tables_ok (queue_aodv_task k s)" if "tables_ok s"
    by (rule tables_ok_same [OF _ _ _ _ _ _ _ _ _ that]) (simp_all add: queue_aodv_task_def emit_def)
  then have "a_ok W (queue_aodv_task k s)" if "a_ok W s"
    using that assms(2) by (auto simp: a_ok_def) (auto simp: queue_aodv_task_def emit_def a_links_ok_def my_route_ok_def nl_vals_def)
  then show ?thesis
    by (intro ow.heap_perm [OF assms(1)])
      (simp_all add: queue_aodv_task_def emit_def a_owned_def task_blocks_def ac_simps split: option.split)
qed

lemma a_take_timer:
  assumes "heap_owned a_owned (a_ok W) H s" "a_timers s = k # ks"
  shows "heap_owned a_owned (a_ok W) (a_held k @ H) (s\<lparr>a_timers := ks\<rparr>)" "a_task_ok (snd k)"
proof -
  note ok = heap_a_ok [OF assms(1)]
  have k: "100 \<le> tk_type (snd k)" "tk_data (snd k) = None"
    using ok by (simp_all add: a_ok_def tables_ok_def timers_ok_def assms(2))
  then show "a_task_ok (snd k)" by (auto simp: a_task_ok_def)
  have "timers_ok (s\<lparr>a_timers := ks\<rparr>)" using ok by (simp add: a_ok_def tables_ok_def timers_ok_def assms(2))
  then have "a_ok W (s\<lparr>a_timers := ks\<rparr>)"
    using ok by (simp add: a_ok_def tables_ok_def routes_ok_def route_addrs_def neighs_ok_def queue_ok_def floods_ok_def
        a_links_ok_def my_route_ok_def assms(2))
  then show "heap_owned a_owned (a_ok W) (a_held k @ H) (s\<lparr>a_timers := ks\<rparr>)"
    by (intro ow.heap_perm [OF assms(1)]) (simp_all add: a_owned_def task_blocks_def data_block_def k(2) assms(2))
qed

lemma a_signal_safe: "heap_owned a_owned (a_ok W) H s \<Longrightarrow> heap_owned a_owned (a_ok W) H (signal_loop e now n s)"
proof (induction n arbitrary: s)
  case (Suc n)
  show ?case
  proof (cases "a_timers s")
    case Nil
    then have "first_timer_due e now s = (None, s)" by (cases s) (simp add: first_timer_due_def take_due_def)
    then show ?thesis using Suc.prems by simp
  next
    case (Cons k ks)
    have "heap_owned a_owned (a_ok W) H (queue_aodv_task k (s\<lparr>a_timers := ks\<rparr>))"
      by (rule a_queue_safe [OF a_take_timer [OF Suc.prems Cons]])
    from Suc.IH [OF this] show ?thesis
    proof (cases "ke_time_before_eq e (tk_time (snd k)) now")
      case False
      then have "first_timer_due e now s = (None, s)" using Cons by (cases s) (simp add: first_timer_due_def take_due_def)
      then show ?thesis using Suc.prems by simp
    qed (simp add: Cons first_timer_due_def take_due_def insert_task_from_timer_def)
  qed
qed simp

lemma a_timer_safe: "a_keeps s (timer_queue_signal e s)"
  unfolding heap_safe_def timer_queue_signal_def using a_signal_safe heap_step [OF av_arm] by blast

lemma a_insert_task_safe:
  assumes "no_oom e" "type < 100"
  shows "a_safe s (snd (insert_task e type p s))"
proof (rule a_safeI)
  fix W H
  assume h: "heap_owned a_owned (a_ok W) H s"
  obtain a s1 where k: "kmalloc e s = (Some a, s1)" by (simp add: kmalloc_no_oom [OF assms(1)])
  obtain b s2 where l: "kmalloc e s1 = (Some b, s2)" by (simp add: kmalloc_no_oom [OF assms(1)])
  have h2: "heap_owned a_owned (a_ok W) (b # a # H) s2" by (rule ow.heap_kmalloc [OF ow.heap_kmalloc [OF h k] l])
  have "heap_owned a_owned (a_ok W) H (queue_aodv_task (a, t) s2)" if "tk_data t = Some (b, bs)" for t bs
    by (rule a_queue_safe) (use h2 that in \<open>simp_all add: task_blocks_def data_block_def a_task_ok_def\<close>)
  then show "heap_owned a_owned (a_ok W) H (snd (insert_task e type p s))"
    using assms(2) by (simp add: insert_task_def create_task_def k l Let_def)
qed

text \<open>A packet the module survives arrives on a device with an address.\<close>

lemma a_input_safe:
  assumes "no_oom e" "nd_ip_ptr indev \<noteq> None"
  shows "a_safe s (snd (input_handler e skb indev s))"
proof -
  have v: "a_safe s (snd (valid_aodv_packet n ty c s))" "fst (valid_aodv_packet n ty c s) \<Longrightarrow> uint ty < 100" for n ty c
    by (auto simp: valid_aodv_packet_def as.refl av_overhead split: if_splits)
  have "a_safe s (snd (packet_in e skb s))"
  proof -
    obtain ok s1 where c: "valid_aodv_packet (int (sk_len skb) - int 28) (skb_byte skb 28) (skb_byte skb (28 + 3)) s = (ok, s1)"
      by fastforce
    have s1: "a_safe s s1" "ok \<Longrightarrow> uint (skb_byte skb 28) < 100" using v [of "int (sk_len skb) - int 28" "skb_byte skb 28" "skb_byte skb (28 + 3)"] c by simp_all
    then have "ok \<Longrightarrow> a_safe s (snd (insert_task e (uint (skb_byte skb 28)) skb s1))"
      using as.trans [OF _ a_insert_task_safe [OF assms(1)]] by blast
    then show ?thesis using s1(1) c by (simp add: packet_in_def)
  qed
  then show ?thesis using assms(2) by (auto simp: input_handler_def as.refl)
qed

lemma a_output_safe:
  assumes "no_oom e"
  shows "a_safe s (snd (output_handler e skb s))"
proof -
  obtain p s1 where f: "find_aodv_route e (sk_daddr skb) s = (p, s1)" by fastforce
  have s1: "s1 = snd (find_aodv_route e (sk_daddr skb) s)" by (simp add: f)
  have s: "a_safe s s1" unfolding s1 by (rule av_find)
  then have "a_safe s (snd (gen_rreq e x y s1))" for x y by (rule av_gen_rreq [OF _ assms])
  moreover have "p = Some a \<Longrightarrow> \<exists>r. route_get a s1 = Some r" for a using find_get(2) f by blast
  moreover have "p = Some a \<Longrightarrow> a_safe s (route_upd a (\<lambda>r. r\<lparr>rt_lifetime := l\<rparr>) s1)" for a l
    using find_get(2) f by (intro av_upd [OF s]) auto
  ultimately show ?thesis using s
    by (auto simp: output_handler_def f as.refl Let_def split: option.split)
qed

lemma a_queue_event_safe: "a_safe s (snd (netfilter_receive q s))" "a_safe s (ipq_receive_event event dev s)"
proof -
  have "a_ok W s \<Longrightarrow> a_ok W (snd (netfilter_receive q s))" for W
    by (simp add: a_ok_def enqueue_tables)
      (simp add: netfilter_receive_def ipq_enqueue_def Let_def emit_def a_links_ok_def my_route_ok_def)
  then show "a_safe s (snd (netfilter_receive q s))"
    unfolding a_safe_def
    by (intro allI ow.safe_same) (auto simp: netfilter_receive_def ipq_enqueue_def Let_def emit_def a_owned_def)
  show "a_safe s (ipq_receive_event event dev s)" by (simp add: ipq_receive_event_def as.refl av_drop)
qed

end
