(* ===== verification/Threads.thy ===== *)
theory Threads
  imports AodvDemo CacheDemo CacheInv
begin

text \<open>
  The kernel threads of the modules: \<open>aodv_thread.c\<close> and \<open>cThread.c\<close>, which are the same program but for the tasks.
  Elsewhere a turn of the thread is one step. Here the thread is a state machine whose states are the points at
  which others can run between two of its statements, so that a task or the order to stop can arrive in between.
  The theory is generic in the queue and the handlers; the interface \<open>worker\<close> states what it needs of them, and
  both modules are instances.
\<close>

section \<open>The machine\<close>

text \<open>Where the thread is: created but not run yet, at the head of its endless loop, about to fall asleep, asleep,
  woken, in the loop over the tasks, at its end.\<close>

datatype place = Created | Top | Resting | Asleep | Woken | Working | Dead

record kthread =
  th_place :: place
  kill_thread :: bool
  is_dead :: bool
  wait_ready :: bool
  th_fault :: bool

text \<open>\<open>startup_aodv\<close>. The variables are static, so they are zero, and so is the wait queue: its list has no head yet.\<close>

definition startup :: kthread where
  "startup = \<lparr>th_place = Created, kill_thread = False, is_dead = False, wait_ready = False, th_fault = False\<rparr>"

text \<open>\<open>kick_aodv\<close>: \<open>wake_up_interruptible\<close> on a list that is not initialised follows a NULL pointer; who does not sleep
  is not woken.\<close>

definition kick :: "kthread \<Rightarrow> kthread" where
  "kick th = (if \<not> wait_ready th then th\<lparr>th_fault := True\<rparr>
     else if th_place th = Asleep then th\<lparr>th_place := Woken\<rparr> else th)"

text \<open>\<open>kill_aodv\<close> sets the flag, wakes the thread and sleeps for a second on a queue nobody wakes; it does not
  look at \<open>aodv_is_dead\<close>.\<close>

definition kill :: "kthread \<Rightarrow> kthread" where
  "kill th = kick (th\<lparr>kill_thread := True\<rparr>)"

text \<open>The exit label.\<close>

definition exit_thread :: "kthread \<Rightarrow> kthread" where
  "exit_thread th = th\<lparr>th_place := Dead, is_dead := True\<rparr>"

text \<open>From one of these points to the next. \<open>get\<close> is \<open>get_task\<close>, \<open>run\<close> the switch over the type of the task.\<close>

definition thread_step :: "('s \<Rightarrow> 't option \<times> 's) \<Rightarrow> ('t \<Rightarrow> 's \<Rightarrow> 's) \<Rightarrow> kthread \<times> 's \<Rightarrow> kthread \<times> 's" where
  "thread_step get run c =
     (let (th, s) = c
      in case th_place th of
           Created \<Rightarrow> (th\<lparr>th_place := Top, wait_ready := True, kill_thread := False, is_dead := False\<rparr>, s)
         | Top \<Rightarrow> (if kill_thread th then exit_thread th else th\<lparr>th_place := Resting\<rparr>, s)
         | Resting \<Rightarrow> (th\<lparr>th_place := Asleep\<rparr>, s)
         | Asleep \<Rightarrow> (th, s)
         | Woken \<Rightarrow> (if kill_thread th then exit_thread th else th\<lparr>th_place := Working\<rparr>, s)
         | Working \<Rightarrow> (case get s of
                         (None, s1) \<Rightarrow> (th\<lparr>th_place := Top\<rparr>, s1)
                       | (Some t, s1) \<Rightarrow> (th, run t s1))
         | Dead \<Rightarrow> (th, s))"

definition aodv_thread :: "kenv \<Rightarrow> kthread \<times> aodv_state \<Rightarrow> kthread \<times> aodv_state" where
  "aodv_thread e = thread_step get_task (dispatch e)"

definition cache_thread :: "kenv \<Rightarrow> kthread \<times> c_state \<Rightarrow> kthread \<times> c_state" where
  "cache_thread e = thread_step c_get_task (c_dispatch e)"

text \<open>Where a thread that is left alone stays, that it gets there within n steps, where it gets to, and whether it
  does the waiting tasks on its way.\<close>

definition settled :: "kthread \<Rightarrow> bool" where
  "settled th = (th_place th \<in> {Asleep, Dead})"

definition leads :: "('c \<Rightarrow> 'c) \<Rightarrow> 'c \<Rightarrow> nat \<Rightarrow> 'c \<Rightarrow> bool" where
  "leads f c n d = (\<forall>m \<ge> n. (f ^^ m) c = d)"

definition rest :: "kthread \<Rightarrow> kthread" where
  "rest th = (case th_place th of
     Created \<Rightarrow> th\<lparr>th_place := Asleep, wait_ready := True, kill_thread := False, is_dead := False\<rparr>
   | Resting \<Rightarrow> th\<lparr>th_place := Asleep\<rparr>
   | Asleep \<Rightarrow> th
   | Dead \<Rightarrow> th
   | _ \<Rightarrow> if kill_thread th then exit_thread th else th\<lparr>th_place := Asleep\<rparr>)"

definition served :: "kthread \<Rightarrow> bool" where
  "served th = (th_place th = Working \<or> th_place th = Woken \<and> \<not> kill_thread th)"

section \<open>Any queue, any handlers\<close>

locale worker =
  fixes get :: "'s \<Rightarrow> 't option \<times> 's"
    and run :: "'t \<Rightarrow> 's \<Rightarrow> 's"
    and waiting :: "'s \<Rightarrow> 't list"
  assumes get_none: "waiting s = [] \<Longrightarrow> get s = (None, s)"
    and get_some: "waiting s = t # ts \<Longrightarrow> \<exists>s1. get s = (Some t, s1) \<and> waiting s1 = ts"
    and run_waiting: "waiting (run t s) = waiting s"
begin

abbreviation step :: "kthread \<times> 's \<Rightarrow> kthread \<times> 's" where
  "step \<equiv> thread_step get run"

definition turn :: "'s \<Rightarrow> 's" where
  "turn s = (case get s of (None, s1) \<Rightarrow> s1 | (Some t, s1) \<Rightarrow> run t s1)"

definition drained :: "'s \<Rightarrow> 's" where
  "drained s = (turn ^^ length (waiting s)) s"

lemma turn_waiting: "waiting (turn s) = tl (waiting s)"
proof (cases "waiting s")
  case (Cons t ts)
  then show ?thesis using get_some [OF Cons] by (auto simp: turn_def run_waiting)
qed (simp add: turn_def get_none)

lemma turns_waiting: "waiting ((turn ^^ n) s) = drop n (waiting s)"
  by (induction n) (simp_all add: turn_waiting drop_Suc tl_drop)

lemma drained_waiting: "waiting (drained s) = []"
  by (simp add: drained_def turns_waiting)

lemma working_turn:
  assumes "th_place th = Working" "waiting s \<noteq> []"
  shows "step (th, s) = (th, turn s)"
proof -
  obtain t ts where c: "waiting s = t # ts" using assms(2) by (cases "waiting s") auto
  show ?thesis using get_some [OF c] assms(1) by (auto simp: thread_step_def turn_def)
qed

lemma working_turns:
  assumes "th_place th = Working" "n \<le> length (waiting s)"
  shows "(step ^^ n) (th, s) = (th, (turn ^^ n) s)"
  using assms(2)
proof (induction n)
  case (Suc n)
  then have "waiting ((turn ^^ n) s) \<noteq> []" by (simp add: turns_waiting)
  then show ?case using Suc working_turn [OF assms(1)] by simp
qed simp

lemma working_drains:
  assumes "th_place th = Working"
  shows "(step ^^ Suc (length (waiting s))) (th, s) = (th\<lparr>th_place := Top\<rparr>, drained s)"
  using working_turns [OF assms order_refl, of s] get_none [OF drained_waiting, of s] assms
  by (simp add: drained_def [symmetric] thread_step_def)

lemma settled_stays: "settled th \<Longrightarrow> (step ^^ n) (th, s) = (th, s)"
  by (induction n) (auto simp: settled_def thread_step_def)

lemma leads_settled: "settled th \<Longrightarrow> leads step (th, s) 0 (th, s)"
  by (simp add: leads_def settled_stays)

lemma leads_steps:
  assumes "(step ^^ k) c = c1" "leads step c1 n d"
  shows "leads step c (k + n) d"
  unfolding leads_def
proof (intro allI impI)
  fix m assume m: "k + n \<le> m"
  then have "(step ^^ m) c = (step ^^ (m - k)) ((step ^^ k) c)"
    by (metis add_leD1 funpow_add comp_apply le_add_diff_inverse2)
  then show "(step ^^ m) c = d" using assms m by (simp add: leads_def)
qed

lemma leads_step: "step c = c1 \<Longrightarrow> leads step c1 n d \<Longrightarrow> leads step c (Suc n) d"
  using leads_steps [of 1 c c1 n d] by simp

lemma leads_more: "leads step c n d \<Longrightarrow> n \<le> k \<Longrightarrow> leads step c k d"
  by (simp add: leads_def)

text \<open>Left alone, the thread falls asleep or dies. What it has done to the tasks depends on where it was.\<close>

lemma top_leads:
  "th_place th = Top \<Longrightarrow> leads step (th, s) 2 (if kill_thread th then exit_thread th else th\<lparr>th_place := Asleep\<rparr>, s)"
  by (rule leads_more [of _ "Suc (Suc 0)"], rule leads_step, rule refl, rule leads_step, rule refl)
    (auto simp: thread_step_def exit_thread_def settled_def intro!: leads_settled)

lemma working_leads:
  assumes "th_place th = Working"
  shows "leads step (th, s) (length (waiting s) + 3) (if kill_thread th then exit_thread th else th\<lparr>th_place := Asleep\<rparr>, drained s)"
proof -
  let ?th = "th\<lparr>th_place := Top\<rparr>"
  have "leads step (?th, drained s) 2 (if kill_thread ?th then exit_thread ?th else ?th\<lparr>th_place := Asleep\<rparr>, drained s)"
    by (rule top_leads) simp
  then have "leads step (?th, drained s) 2 (if kill_thread th then exit_thread th else th\<lparr>th_place := Asleep\<rparr>, drained s)"
    by (cases "kill_thread th") (simp_all add: exit_thread_def)
  from leads_steps [OF working_drains [OF assms] this] show ?thesis by (simp add: eval_nat_numeral)
qed

lemma alone: "leads step (th, s) (length (waiting s) + 4) (rest th, if served th then drained s else s)"
proof (cases "th_place th")
  case Created
  have "leads step (th, s) (Suc 2) (rest th, s)"
    by (rule leads_step [OF refl]) (use Created top_leads in \<open>simp add: thread_step_def rest_def leads_def\<close>)
  then show ?thesis using Created by (auto simp: served_def intro: leads_more)
next
  case Top
  then show ?thesis using leads_more [OF top_leads [OF Top]] by (simp add: rest_def served_def)
next
  case Resting
  have "leads step (th, s) (Suc 0) (rest th, s)"
    by (rule leads_step [OF refl]) (use Resting in \<open>simp add: thread_step_def rest_def settled_def leads_settled\<close>)
  then show ?thesis using Resting by (auto simp: served_def intro: leads_more)
next
  case Asleep
  then show ?thesis using leads_more [OF leads_settled [of th s]] by (simp add: rest_def served_def settled_def)
next
  case Woken
  show ?thesis
  proof (cases "kill_thread th")
    case True
    have "leads step (th, s) (Suc 0) (rest th, s)"
      by (rule leads_step [OF refl]) (use Woken True in \<open>simp add: thread_step_def rest_def settled_def leads_settled exit_thread_def\<close>)
    then show ?thesis using Woken True by (auto simp: served_def intro: leads_more)
  next
    case False
    have "step (th, s) = (th\<lparr>th_place := Working\<rparr>, s)" using Woken False by (simp add: thread_step_def)
    from leads_step [OF this working_leads] show ?thesis
      using Woken False by (simp add: rest_def served_def numeral_eq_Suc)
  qed
next
  case Working
  then show ?thesis using leads_more [OF working_leads [OF Working]] by (simp add: rest_def served_def)
next
  case Dead
  then show ?thesis using leads_more [OF leads_settled [of th s]] by (simp add: rest_def served_def settled_def)
qed

end

section \<open>Both modules\<close>

lemma dispatch_tasks: "a_tasks (dispatch e t s) = a_tasks s"
  using ev_dispatch [where s = s and e = e and t = t] by (simp add: evolves_def same_globals_def)

interpretation aw: worker get_task "dispatch e" a_tasks for e
  by unfold_locales (simp_all add: get_task_def dispatch_tasks)

lemma c_dispatch_tasks: "c_tasks (c_dispatch e t s) = c_tasks s"
  using cv_dispatch [where s = s and e = e and k = t] by (simp add: c_evolves_def same_params_def)

interpretation cw: worker c_get_task "c_dispatch e" c_tasks for e
  by unfold_locales (simp_all add: c_get_task_def c_dispatch_tasks)

lemma aodv_turn: "aw.turn e = thread_round e"
  by (rule ext) (simp add: aw.turn_def thread_round_def)

lemma cache_turn: "cw.turn e = c_thread_round e"
  by (rule ext) (simp add: cw.turn_def c_thread_round_def)

text \<open>What a step of the thread does to the module is nothing or a turn.\<close>

lemma aodv_thread_state: "snd (aodv_thread e (th, s)) = s \<or> snd (aodv_thread e (th, s)) = thread_round e s"
proof (cases "th_place th = Working")
  case True
  then show ?thesis
    by (cases "a_tasks s") (simp_all add: aodv_thread_def thread_step_def thread_round_def get_task_def)
next
  case False
  then show ?thesis by (cases "th_place th") (auto simp: aodv_thread_def thread_step_def)
qed

section \<open>The routing module with its thread\<close>

text \<open>What happens outside the thread: a packet on a device that has an address, an outgoing packet, a packet to hold, the
  timer, a device going down, a change of the clock.\<close>

inductive aodv_event :: "kenv \<Rightarrow> aodv_state \<Rightarrow> aodv_state \<Rightarrow> bool" for e s where
  event_in: "nd_ip_ptr indev \<noteq> None \<Longrightarrow> aodv_event e s (snd (input_handler e skb indev s))"
| event_out: "aodv_event e s (snd (output_handler e skb s))"
| event_queue: "aodv_event e s (snd (netfilter_receive entry s))"
| event_timer: "aodv_event e s (timer_queue_signal e s)"
| event_down: "aodv_event e s (ipq_receive_event event dev s)"
| event_clock: "aodv_event e s (s\<lparr>k_time := now, k_jiffies := j\<rparr>)"

text \<open>Events happen between any two steps of the thread and wake it where the code does, and the order to stop may come at
  any time.\<close>

definition kicked :: "aodv_state \<Rightarrow> aodv_state \<Rightarrow> kthread \<Rightarrow> kthread" where
  "kicked s t th = (if WakeThread \<in> set (drop (length (k_out s)) (k_out t)) then kick th else th)"

inductive aodv_system :: "kenv \<Rightarrow> kthread \<times> aodv_state \<Rightarrow> kthread \<times> aodv_state \<Rightarrow> bool" for e c where
  system_refl: "aodv_system e c c"
| system_thread: "aodv_system e c d \<Longrightarrow> aodv_system e c (aodv_thread e d)"
| system_event: "aodv_system e c (th, s) \<Longrightarrow> aodv_event e s t \<Longrightarrow> aodv_system e c (kicked s t th, t)"
| system_kill: "aodv_system e c (th, s) \<Longrightarrow> aodv_system e c (kill th, s)"

lemma event_step: "aodv_event e s t \<Longrightarrow> aodv_step e s t"
  by (induction rule: aodv_event.induct) (rule aodv_step.intros)+

text \<open>So what holds of the runs in which a turn of the thread is one step holds of these.\<close>

lemma system_reach: "aodv_system e c d \<Longrightarrow> aodv_reach e (snd c) (snd d)"
proof (induction rule: aodv_system.induct)
  case (system_thread d)
  then show ?case using aodv_thread_state [of e "fst d" "snd d"] reach_step [OF _ step_thread] by auto
qed (auto intro: reach_refl reach_step event_step)

text \<open>The thread ends only by the exit, which it takes only when told to stop.\<close>

definition thread_ok :: "kthread \<Rightarrow> bool" where
  "thread_ok th = ((is_dead th \<longleftrightarrow> th_place th = Dead) \<and> (is_dead th \<longrightarrow> kill_thread th) \<and> (wait_ready th \<longleftrightarrow> th_place th \<noteq> Created))"

lemma thread_ok_step: "thread_ok (fst c) \<Longrightarrow> thread_ok (fst (thread_step get run c))"
  by (cases c; cases "th_place (fst c)")
    (auto simp: thread_ok_def thread_step_def exit_thread_def split: option.split prod.split)

lemma thread_ok_kick: "thread_ok th \<Longrightarrow> thread_ok (kick th)"
  by (auto simp: thread_ok_def kick_def)

lemma system_thread_ok: "aodv_system e c d \<Longrightarrow> thread_ok (fst c) \<Longrightarrow> thread_ok (fst d)"
proof (induction rule: aodv_system.induct)
  case (system_kill th s)
  then have "thread_ok (th\<lparr>kill_thread := True\<rparr>)" by (simp add: thread_ok_def)
  then show ?case by (simp add: kill_def thread_ok_kick)
qed (auto simp: aodv_thread_def kicked_def thread_ok_step thread_ok_kick)

text \<open>With enough fuel the inner loop makes one turn per task.\<close>

lemma thread_loop_turns: "length (a_tasks s) < n \<Longrightarrow> thread_loop e n s = aw.drained e s"
proof (induction n arbitrary: s)
  case (Suc n)
  show ?case
  proof (cases "a_tasks s")
    case Nil
    then show ?thesis by (simp add: aw.drained_def) (simp add: get_task_def)
  next
    case (Cons t ts)
    let ?u = "dispatch e t (s\<lparr>a_tasks := ts\<rparr>)"
    have u: "a_tasks ?u = ts" by (simp add: dispatch_tasks)
    have "thread_loop e n ?u = (thread_round e ^^ length ts) ?u"
      using Suc.IH [of ?u] Suc.prems Cons by (simp add: u aw.drained_def aodv_turn)
    moreover have "thread_round e s = ?u" "thread_loop e (Suc n) s = thread_loop e n ?u"
      using Cons by (simp_all add: thread_round_def get_task_def)
    ultimately show ?thesis using Cons by (simp add: aw.drained_def aodv_turn funpow_swap1)
  qed
qed simp

section \<open>Properties\<close>

text \<open>C9. Waking the routing thread. Let a task be queued while the thread, started and not told to stop, is anywhere
  in its loop; then let it run alone. It falls asleep again. If it was asleep, just woken or among its tasks, it has handled
  all tasks, in order of arrival, one turn for each, and the queue is empty. But if it had found the queue empty and
  was on its way to sleep, the wake-up is lost: it sleeps with the task in the queue until something else wakes it.\<close>

theorem aodv_wakeup:
  assumes "wait_ready th" "\<not> kill_thread th" "th_place th \<notin> {Created, Dead}"
    and "length (a_tasks s) + 5 \<le> m" "length (a_tasks s) + 1 < n"
  shows "(aodv_thread e ^^ m) (kick th, queue_aodv_task t s) = (th\<lparr>th_place := Asleep\<rparr>,
      if th_place th \<in> {Top, Resting} then queue_aodv_task t s else thread_loop e n (queue_aodv_task t s))
    \<and> thread_loop e n (queue_aodv_task t s) = (thread_round e ^^ Suc (length (a_tasks s))) (queue_aodv_task t s)
    \<and> a_tasks (thread_loop e n (queue_aodv_task t s)) = []"
proof -
  let ?s = "queue_aodv_task t s"
  have q: "length (a_tasks ?s) = Suc (length (a_tasks s))" by (simp add: queue_aodv_task_def emit_def)
  have l: "thread_loop e n ?s = aw.drained e ?s" using assms(5) q by (intro thread_loop_turns) simp
  have "(aodv_thread e ^^ m) (kick th, ?s) = (rest (kick th), if served (kick th) then aw.drained e ?s else ?s)"
    using aw.alone [of e "kick th" ?s] assms(4) q by (simp add: leads_def aodv_thread_def)
  moreover have "rest (kick th) = th\<lparr>th_place := Asleep\<rparr>" "served (kick th) \<longleftrightarrow> th_place th \<notin> {Top, Resting}"
    using assms(1-3) by (cases "th_place th"; cases th; auto simp: kick_def rest_def served_def)+
  ultimately show ?thesis
    using l q aw.drained_waiting [of e ?s] by (simp add: aw.drained_def aodv_turn del: funpow.simps)
qed

theorem aodv_wakeup_witness:
  "(aodv_thread demo_env ^^ 5) (kick (startup\<lparr>th_place := Resting, wait_ready := True\<rparr>), queue_aodv_task (demo_timer 4 7) node)
     = (startup\<lparr>th_place := Asleep, wait_ready := True\<rparr>, queue_aodv_task (demo_timer 4 7) node)
   \<and> a_tasks (snd ((aodv_thread demo_env ^^ 5) (kick (startup\<lparr>th_place := Working, wait_ready := True\<rparr>),
      queue_aodv_task (demo_timer 4 7) node))) = []"
  using aodv_wakeup [of "startup\<lparr>th_place := Resting, wait_ready := True\<rparr>" node 5 2 demo_env "demo_timer 4 7"]
    aodv_wakeup [of "startup\<lparr>th_place := Working, wait_ready := True\<rparr>" node 5 2 demo_env "demo_timer 4 7"]
  by (simp add: startup_def node_def unloaded_def del: thread_loop.simps funpow.simps)

text \<open>C39. Stopping the caching thread. Told to stop anywhere in its loop, and then left alone, the thread ends, after the
  tasks that wait if it was among them and at once if not; but if it had read the flag and was on its way to
  sleep, it sleeps on with the flag set, and \<open>cleanup_module\<close>, which only waits a second, unloads the code under it. If it has not run yet
  the order is lost as well, and waking it uses a wait queue that is not there.\<close>

theorem cache_kill:
  assumes "wait_ready th" "th_place th \<notin> {Created, Dead}" "length (c_tasks s) + 4 \<le> m"
  shows "(cache_thread e ^^ m) (kill th, s) =
      (th\<lparr>kill_thread := True, th_place := if th_place th = Resting then Asleep else Dead, is_dead := is_dead th \<or> th_place th \<noteq> Resting\<rparr>,
       if th_place th = Working then (c_thread_round e ^^ length (c_tasks s)) s else s)
    \<and> (cache_thread e ^^ m) (kill startup, s) = (startup\<lparr>th_place := Asleep, wait_ready := True, th_fault := True\<rparr>, s)"
proof -
  have a: "(cache_thread e ^^ m) (u, s) = (rest u, if served u then cw.drained e s else s)" for u
    using cw.alone [of e u s] assms(3) by (simp add: leads_def cache_thread_def)
  have "rest (kill th) = th\<lparr>kill_thread := True, th_place := if th_place th = Resting then Asleep else Dead,
      is_dead := is_dead th \<or> th_place th \<noteq> Resting\<rparr>" "served (kill th) \<longleftrightarrow> th_place th = Working"
    using assms(1,2) by (cases "th_place th"; cases th; auto simp: kill_def kick_def rest_def served_def exit_thread_def)+
  moreover have "rest (kill startup) = startup\<lparr>th_place := Asleep, wait_ready := True, th_fault := True\<rparr>" "\<not> served (kill startup)"
    by (simp_all add: kill_def kick_def rest_def served_def startup_def)
  ultimately show ?thesis by (simp add: a cw.drained_def cache_turn)
qed

theorem cache_kill_witness:
  "is_dead (fst ((cache_thread demo_env ^^ 4) (kill (startup\<lparr>th_place := Asleep, wait_ready := True\<rparr>), cnode)))
   \<and> \<not> is_dead (fst ((cache_thread demo_env ^^ 4) (kill (startup\<lparr>th_place := Resting, wait_ready := True\<rparr>), cnode)))"
  using cache_kill [of "startup\<lparr>th_place := Asleep, wait_ready := True\<rparr>" cnode 4 demo_env]
    cache_kill [of "startup\<lparr>th_place := Resting, wait_ready := True\<rparr>" cnode 4 demo_env]
  by (simp add: startup_def cdemo_defs del: funpow.simps)

end
