(* ===== verification/AodvMemory.thy ===== *)
theory AodvMemory
  imports AodvSafe Threads InetUtils
begin

unbundle bit_operations_syntax

text \<open>
  The routing module as a whole does not corrupt its memory: loading it on an interface with an address of its own
  gives a state in which the tables own their blocks, and everything that can happen afterwards keeps this.
\<close>

section \<open>Runs\<close>

lemma a_clock_safe: "a_safe s (s\<lparr>k_time := now, k_jiffies := j\<rparr>)"
proof -
  have "tables_ok (s\<lparr>k_time := now, k_jiffies := j\<rparr>)" if "tables_ok s"
    by (rule tables_ok_same [OF _ _ _ _ _ _ _ _ _ that]) simp_all
  then have "a_ok W s \<Longrightarrow> a_ok W (s\<lparr>k_time := now, k_jiffies := j\<rparr>)" for W
    by (simp add: a_ok_def a_links_ok_def my_route_ok_def)
  then show ?thesis unfolding a_safe_def by (intro allI ow.safe_same) (simp_all add: a_owned_def)
qed

lemma a_event_safe:
  assumes "no_oom e" "aodv_event e s t"
  shows "a_keeps s t"
  using assms(2)
  by (cases rule: aodv_event.cases)
    (blast intro: keeps_safe a_input_safe [OF assms(1)] a_output_safe [OF assms(1)] a_queue_event_safe
      a_timer_safe a_clock_safe)+

lemma a_system_safe:
  assumes "no_oom e"
  shows "aodv_system e c d \<Longrightarrow> a_keeps (snd c) (snd d)"
proof (induction rule: aodv_system.induct)
  case (system_thread d)
  then show ?case
    using aodv_thread_state [of e "fst d" "snd d"] ow.safe_trans [OF _ a_thread_safe [OF assms]] by auto
qed (auto intro: ow.safe_refl ow.safe_trans a_event_safe [OF assms])

section \<open>Loading\<close>

text \<open>While the module is being loaded only its routes, its interface and the packet queue own blocks. S holds the addresses
  of the routes so far.\<close>

interpretation raw: ownership a_owned "\<lambda>_. True"
  using ow.own_more by unfold_locales blast+

definition loading :: "u32 set \<Rightarrow> aodv_state \<Rightarrow> bool" where
  "loading S s = (heap_owned a_owned (\<lambda>_. True) [] s \<and> routes_ok s \<and> (\<forall>r \<in> set (nl_vals (a_routes s)). rt_ip r \<in> S)
     \<and> a_neighs s = [] \<and> a_floods s = [] \<and> a_timers s = [] \<and> a_tasks s = [] \<and> a_devs s = [])"

lemma loading_create:
  assumes "no_oom e" "loading S s" "create_aodv_route e ip s = (p, t)"
  shows "\<exists>a. p = Some a \<and> route_get a t = Some (new_route e a ip (g_broadcast_ip s)) \<and> loading (insert ip S) t
    \<and> q_block t = q_block s \<and> g_broadcast_ip t = g_broadcast_ip s
    \<and> (ip \<noteq> 0 \<longrightarrow> a \<in> set (nl_addrs (a_routes t)))"
proof -
  have a: "p = Some (k_allocs s)" using create_no_oom [OF assms(1)] assms(3) by (metis fst_conv)
  note c = create_aodv_route_Some [OF assms(3) [unfolded a], THEN conjunct2, THEN conjunct2]
  have r: "routes_ok s" and h: "heap_owned a_owned (\<lambda>_. True) [] s" using assms(2) by (simp_all add: loading_def)
  have "heap_safe a_owned (\<lambda>_. True) s t"
    by (rule raw.safe_alloc [where M = "{#k_allocs s#}"]) (simp_all add: c a_owned_def mset_nl_insert)
  moreover have "routes_ok t" using create_aodv_route_ok [OF r, of e ip] assms(3) by simp
  ultimately have "loading (insert ip S) t"
    using assms(2) h by (auto simp: loading_def heap_safe_def c new_route_def)
  then show ?thesis using a create_aodv_route_get(1) [OF r assms(3) [unfolded a]] by (simp add: c)
qed

lemma loading_upd:
  assumes "loading S s" "route_get p s \<noteq> None" "\<And>r. route_get p s = Some r \<Longrightarrow> rt_ip (f r) = rt_ip r"
  shows "loading S (route_upd p f s)"
proof -
  have r: "routes_ok s" using assms(1) by (simp add: loading_def)
  have u: "route_upd p f s = s\<lparr>a_routes := nl_upd p f (a_routes s), a_loose := nl_upd p f (a_loose s)\<rparr>"
    using assms(2) unfolding route_upd_def by presburger
  have "rt_ip x \<in> S" if x: "x \<in> set (nl_vals (nl_upd p f (a_routes s)))" for x
  proof -
    obtain a q where q: "(a, q) \<in> set (a_routes s)" "x = (if a = p then f q else q)"
      using x by (auto simp: upd_as_map nl_vals_def)
    have "route_get a s = Some q" unfolding route_get_def using r q(1)
      by (intro nl_get_in) (auto simp: routes_ok_def route_addrs_def)
    then have "rt_ip x = rt_ip q" using q(2) assms(3) by auto
    moreover have "q \<in> set (nl_vals (a_routes s))" using q(1) by (force simp: nl_vals_def)
    ultimately show ?thesis using assms(1) by (simp add: loading_def)
  qed
  moreover have "routes_ok (route_upd p f s)" by (rule route_upd_ok_at [OF r assms(3)])
  moreover have "heap_safe a_owned (\<lambda>_. True) s (route_upd p f s)"
    by (rule raw.safe_same) (simp_all add: u a_owned_def)
  ultimately show ?thesis using assms(1) by (simp add: loading_def u heap_safe_def)
qed

text \<open>\<open>addr_of\<close> is what the text of an address denotes for \<open>init_module\<close>.\<close>

abbreviation (input) addr_of :: "kenv \<Rightarrow> string \<Rightarrow> u32" where
  "addr_of e str \<equiv> (case inet_aton e str of None \<Rightarrow> 0 | Some w \<Rightarrow> w)"

lemma loading_table:
  assumes "no_oom e" "loading {} s"
  shows "loading {addr_of e ''127.0.0.1''} (snd (init_aodv_route_table e s))
    \<and> q_block (snd (init_aodv_route_table e s)) = q_block s \<and> g_broadcast_ip (snd (init_aodv_route_table e s)) = g_broadcast_ip s"
proof -
  let ?ip = "addr_of e ''127.0.0.1''"
  have e: "a_routes s = []" using assms(2) by (auto simp: loading_def nl_vals_def)
  then have s: "s\<lparr>a_routes := []\<rparr> = s" by (cases s) simp
  obtain p t where c: "create_aodv_route e ?ip s = (p, t)" by fastforce
  obtain a where a: "p = Some a" "route_get a t \<noteq> None" "loading {?ip} t" "q_block t = q_block s" "g_broadcast_ip t = g_broadcast_ip s"
    using loading_create [OF assms c] by auto
  have "loading {?ip} (route_upd a f t)" if "\<And>r. rt_ip (f r) = rt_ip r" for f
    by (rule loading_upd [OF a(3,2)]) (rule that)
  moreover have "q_block (route_upd a f t) = q_block t" for f by (simp add: route_upd_def fault_def)
  moreover have "snd (init_aodv_route_table e s) = route_upd a (\<lambda>r. r\<lparr>rt_next_hop := ?ip, rt_metric := 0, rt_self := True,
      rt_valid := True, rt_seq := 0\<rparr>) t"
    unfolding init_aodv_route_table_def Let_def s c prod.case a(1) deref_upd_def option.case by simp
  ultimately show ?thesis using a(4,5) by simp
qed

lemma loading_subnet:
  assumes "no_oom e" "loading S s" "\<And>i m. subnet = Some (i, m) \<Longrightarrow> addr_of e i \<in> S'" "S \<subseteq> S'"
  shows "loading S' (init_subnet e subnet s) \<and> q_block (init_subnet e subnet s) = q_block s
    \<and> g_broadcast_ip (init_subnet e subnet s) = g_broadcast_ip s"
proof (cases subnet)
  case None
  then show ?thesis using assms(2,4) by (auto simp: init_subnet_def loading_def)
next
  case (Some x)
  obtain i m where x: "x = (i, m)" by (cases x)
  obtain p t where c: "create_aodv_route e (addr_of e i) s = (p, t)" by fastforce
  obtain a where a: "p = Some a" "route_get a t \<noteq> None" "loading (insert (addr_of e i) S) t" "q_block t = q_block s"
    "g_broadcast_ip t = g_broadcast_ip s"
    using loading_create [OF assms(1,2) c] by auto
  have "loading S' t" using a(3) assms(3) [OF Some [unfolded x]] assms(4) by (auto simp: loading_def)
  then have "loading S' (route_upd a f t)" if "\<And>r. rt_ip (f r) = rt_ip r" for f
    by (rule loading_upd [OF _ a(2)]) (rule that)
  moreover have "q_block (route_upd a f t) = q_block t" for f by (simp add: route_upd_def fault_def)
  ultimately show ?thesis using a(4,5) by (simp add: init_subnet_def Some x c a(1) deref_upd_def)
qed

lemma own_entry:
  assumes "no_oom e" "loading S s" "ip \<notin> S" "ip \<noteq> 0" "create_aodv_route e ip s = (p, t)" "\<And>r. rt_ip (f r) = ip"
  shows "\<exists>a. p = Some a \<and> route_get a t \<noteq> None \<and> loading (insert ip S) (route_upd a f t)
    \<and> (a, f (new_route e a ip (g_broadcast_ip s))) \<in> set (a_routes (route_upd a f t))
    \<and> route_get a (route_upd a f t) = Some (f (new_route e a ip (g_broadcast_ip s)))
    \<and> (\<forall>(b, q) \<in> set (a_routes (route_upd a f t)). rt_ip q = ip \<longrightarrow> b = a)
    \<and> q_block (route_upd a f t) = q_block s"
proof -
  obtain a where a: "p = Some a" "route_get a t = Some (new_route e a ip (g_broadcast_ip s))" "loading (insert ip S) t"
    "q_block t = q_block s" "a \<in> set (nl_addrs (a_routes t))"
    using loading_create [OF assms(1,2,5)] assms(4) by auto
  let ?r = "new_route e a ip (g_broadcast_ip s)" and ?t = "route_upd a f t"
  note c = create_aodv_route_Some [OF assms(5) [unfolded a(1)], THEN conjunct2, THEN conjunct2]
  have rt: "a_routes ?t = map (\<lambda>(b, q). (b, if b = a then f q else q)) (a_routes t)"
    using a(2) by (simp add: route_upd_def upd_as_map)
  have old: "rt_ip q \<in> S" if "(b, q) \<in> set (a_routes s)" for b q
    using assms(2) that by (force simp: loading_def nl_vals_def)
  have in_t: "(b, q) = (a, ?r) \<or> (b, q) \<in> set (a_routes s)" if "(b, q) \<in> set (a_routes t)" for b q
    using that assms(4) create_aodv_route_Some [OF assms(5) [unfolded a(1)]] by (auto simp: c)
  have r: "(a, ?r) \<in> set (a_routes t)"
    using create_aodv_route_Some [OF assms(5) [unfolded a(1)]] assms(4) by (simp add: c)
  have "b = a" if bq: "(b, q) \<in> set (a_routes ?t)" "rt_ip q = ip" for b q
  proof (rule ccontr)
    assume "b \<noteq> a"
    then have "(b, q) \<in> set (a_routes t)" using bq(1) by (auto simp: rt split: if_splits)
    then show False using in_t [of b q] old [of b q] bq(2) assms(3) \<open>b \<noteq> a\<close> by auto
  qed
  moreover have "(a, f ?r) \<in> set (a_routes ?t)" using r by (force simp: rt)
  moreover have "loading (insert ip S) ?t"
    using a(2) assms(6) by (intro loading_upd [OF a(3)]) (simp_all add: new_route_def)
  moreover have "route_get a ?t = Some (f ?r)" using a(2) by (simp add: route_get_upd)
  moreover have "q_block ?t = q_block t" by (simp add: route_upd_def fault_def)
  ultimately show ?thesis using a by auto
qed

text \<open>The interface: its entry is the node's own.\<close>

lemma create_dev_owned:
  assumes "no_oom e" "loading S s" "ifa_address ifa \<notin> S" "ifa_address ifa \<noteq> 0" "g_broadcast_ip s = - 1"
  shows "\<exists>a d t. create_aodv_dev e dev ifa s = (Some (a, d), t) \<and> dv_ip d = ifa_address ifa \<and> a_devs t = []
    \<and> heap_owned a_owned (\<lambda>_. True) [a] t \<and> my_route_ok Settled t \<and> g_my_ip t = ifa_address ifa \<and> q_block t = q_block s
    \<and> a_timers t = [] \<and> a_tasks t = []"
proof -
  let ?ip = "ifa_address ifa"
  define f where "f = (\<lambda>r :: aodv_route. r\<lparr>rt_ip := ?ip, rt_self := True, rt_seq := 1, rt_old_seq := 0, rt_rreq_id := 1, rt_metric := 0,
     rt_next_hop := ?ip, rt_lifetime := - 1, rt_valid := True, rt_seq_valid := True, rt_dev := Some dev\<rparr>)"
  obtain p0 s1 where c: "create_aodv_route e ?ip s = (p0, s1)" by fastforce
  have fip: "rt_ip (f r) = ?ip" for r by (simp add: f_def)
  from own_entry [where f = f, OF assms(1-4) c fip] obtain p where p: "p0 = Some p"
    "loading (insert ?ip S) (route_upd p f s1)"
    "(p, f (new_route e p ?ip (- 1))) \<in> set (a_routes (route_upd p f s1))"
    "route_get p (route_upd p f s1) = Some (f (new_route e p ?ip (- 1)))"
    "\<forall>(b, q) \<in> set (a_routes (route_upd p f s1)). rt_ip q = ?ip \<longrightarrow> b = p" "q_block (route_upd p f s1) = q_block s"
    unfolding assms(5) by auto
  define s2 where "s2 = route_upd p f s1"
  define r where "r = f (new_route e p ?ip (- 1))"
  obtain a s3 where k: "kmalloc e s2 = (Some a, s3)" by (simp add: kmalloc_no_oom [OF assms(1)])
  define s4 where "s4 = s3\<lparr>g_my_route := Some p, g_my_ip := ?ip\<rparr>"
  define t where "t = snd (insert_kernel_route_entry e ?ip ?ip (rt_netmask r) (Some (nd_name dev)) s4)"
  have r: "rt_ip r = ?ip" "rt_next_hop r = ?ip" "rt_self r" "rt_valid r" "rt_netmask r = - 1"
    by (simp_all add: r_def f_def new_route_def)
  have k3: "kstate.more s3 = kstate.more s2" using k by (auto simp: kmalloc_no_oom [OF assms(1)])
  note f3 = a_state_more [OF k3]
  have "heap_owned a_owned (\<lambda>_. True) [a] s3"
    using raw.heap_kmalloc [OF _ k] p(2) by (simp add: loading_def s2_def)
  then have h4: "heap_owned a_owned (\<lambda>_. True) [a] s4"
    by (rule raw.heap_perm) (simp_all add: s4_def a_owned_def)
  have "heap_ok s4" using h4 by (simp add: heap_owned_def)
  then have "heap_owned a_owned (\<lambda>_. True) [a] t"
    by (intro raw.heap_perm [OF h4]) (simp_all add: t_def insert_kernel_route_entry_eq a_owned_def heap_ok_live)
  moreover have tf: "kstate.more t = kstate.more s4" by (simp add: t_def insert_kernel_route_entry_eq)
  have "my_route_ok Settled t"
    unfolding my_route_ok_def
    by (intro exI [of _ p] exI [of _ r]) (use p(3,5) r in \<open>simp add: a_state_more [OF tf] s4_def f3 s2_def r_def\<close>)
  moreover have "a_devs t = []" "a_timers t = []" "a_tasks t = []" "g_my_ip t = ?ip" "q_block t = q_block s"
    using p(2,6) by (simp_all add: a_state_more [OF tf] s4_def f3 s2_def loading_def)
  moreover have "create_aodv_dev e dev ifa s = (Some (a, \<lparr>dv_dev = dev, dv_route_entry = p, dv_ip = ?ip,
      dv_netmask = ifa_mask ifa, dv_name = [], dv_sock = None\<rparr>), t)"
  proof -
    have "route_get p s3 = Some r" using p(4) by (simp add: route_get_kmalloc [OF k] s2_def r_def)
    then show ?thesis
      by (simp add: create_aodv_dev_def c p(1) s2_def [symmetric] k r t_def s4_def Let_def f_def [symmetric])
  qed
  ultimately show ?thesis by fastforce
qed

lemma broadcast_addr: "addr_of e ''255.255.255.255'' = - 1"
proof -
  have "inet_aton e ''255.255.255.255'' = Some (htonl e 0xffffffff)"
  proof -
    have "aton_parts [] ''255.255.255.255'' = Some ([255, 255, 255], 255, [])" by code_simp
    moreover have "aton_concoct [255, 255, 255] 255 = Some 0xffffffff" by code_simp
    ultimately show ?thesis by (simp add: inet_aton_def)
  qed
  moreover have "htonl e 0xffffffff = - 1" by (cases "ke_big_endian e") (simp_all add: htonl_def, code_simp+)
  ultimately show ?thesis by simp
qed

text \<open>The addresses that get a route before the interface does.\<close>

definition static_addrs :: "kenv \<Rightarrow> (string \<times> string) option \<Rightarrow> u32 set" where
  "static_addrs e subnet = insert (addr_of e ''127.0.0.1'') (case subnet of None \<Rightarrow> {} | Some (i, m) \<Rightarrow> {addr_of e i})"

lemma before_dev_loading:
  assumes "no_oom e" "blank s" "q_block s = None" "heap_ok s" "\<not> k_fault s" "0 \<le> qs"
  shows "loading (static_addrs e sub) (before_dev e gw sub qs s) \<and> g_broadcast_ip (before_dev e gw sub qs s) = - 1
    \<and> q_block (before_dev e gw sub qs s) \<noteq> None"
proof -
  define s1 where "s1 = s\<lparr>g_aodv_gateway := gw, aodv_overhead := 0, g_broadcast_ip := addr_of e ''255.255.255.255''\<rparr>"
  define s2 where "s2 = init_subnet e sub (snd (init_aodv_route_table e s1))"
  have "loading {} s1"
    using assms(2-5) by (simp add: loading_def s1_def blank_def heap_owned_def a_owned_def task_blocks_def heap_ok_def
        routes_ok_def route_addrs_def)
  note l = loading_table [OF assms(1) this]
  have 2: "loading (static_addrs e sub) s2" "q_block s2 = None" "g_broadcast_ip s2 = - 1"
    using loading_subnet [OF assms(1) l [THEN conjunct1], of sub "static_addrs e sub"] l assms(3)
    by (auto simp: static_addrs_def s2_def s1_def broadcast_addr)
  define s4 where "s4 = s2\<lparr>q_list := []\<rparr>"
  have "init_aodv_neigh_list (snd (init_flood_id_queue (s2\<lparr>a_tasks := [], a_timers := []\<rparr>))) = s2"
    using 2(1) by (cases s2) (simp add: loading_def init_aodv_neigh_list_def init_flood_id_queue_def)
  then have b: "before_dev e gw sub qs s = s4\<lparr>k_allocs := Suc (k_allocs s4), k_live := insert (k_allocs s4) (k_live s4),
      q_block := Some (k_allocs s4), q_len := 0, q_maxlen := IPQ_QMAX_DEFAULT, q_flushing := False, q_terminate := False\<rparr>"
    unfolding before_dev_def s1_def [symmetric] s2_def [symmetric]
    using assms(6) by (simp add: init_packet_queue_def ipq_create_queue_def kmalloc_no_oom [OF assms(1)] s4_def)
  have "heap_safe a_owned (\<lambda>_. True) s2 (before_dev e gw sub qs s)"
    by (rule raw.safe_alloc [where M = "{#k_allocs s2#}"]) (simp_all add: b s4_def a_owned_def 2(2))
  moreover have "routes_ok s2" using 2(1) by (simp add: loading_def)
  ultimately have "loading (static_addrs e sub) (before_dev e gw sub qs s)"
    using 2(1) by (auto simp: loading_def heap_safe_def b s4_def routes_ok_def route_addrs_def less_SucI)
  then show ?thesis using 2(3) by (simp add: b s4_def)
qed

text \<open>An interface with one address that no other route has.\<close>

lemma init_dev_owned:
  assumes "no_oom e" "loading S s" "tables_ok s" "g_broadcast_ip s = - 1" "q_block s \<noteq> None" "ifa_address ifa \<notin> S" "ifa_address ifa \<noteq> 0"
    "init_aodv_dev e name sc (Some dev) (Some [ifa]) s = (result, t)" "result \<noteq> 0" "\<forall>n i. sc n = Inl i \<longrightarrow> i < 0"
  shows "heap_owned a_owned (a_ok Settled) [] t \<and> a_tasks t = []"
proof -
  have s: "s\<lparr>a_devs := []\<rparr> = s" using assms(2) by (cases s) (simp add: loading_def)
  obtain a d u where c: "create_aodv_dev e dev ifa s = (Some (a, d), u)" "dv_ip d = ifa_address ifa" "a_devs u = []"
    "heap_owned a_owned (\<lambda>_. True) [a] u" "my_route_ok Settled u" "g_my_ip u = ifa_address ifa" "a_timers u = []" "a_tasks u = []"
    "q_block u = q_block s"
    using create_dev_owned [OF assms(1,2,6,7,4), of dev] by blast
  define p where "p = insert_dev_loop e name sc dev [ifa] 0 s"
  have r: "\<not> fst p \<le> 0" "(result, t) = (fst p, update_timer_queue e (snd (insert_timer e 102 HELLO_INTERVAL (g_my_ip (snd p)) (snd p))))"
    using assms(8,9) by (auto simp: init_aodv_dev_def insert_aodv_dev_def s p_def case_prod_beta Let_def split: if_splits)
  obtain sk where sk: "sc (length (k_out u)) = Inr sk"
      "snd p = u\<lparr>a_devs := [(a, d\<lparr>dv_name := take IFNAMSIZ (nd_name dev), dv_sock := Some sk\<rparr>)]\<rparr>"
    using r(1) assms(10) [rule_format, of "length (k_out u)"] by (auto simp: p_def c split: if_splits sum.splits)
  have "tables_ok (snd p)" unfolding p_def by (rule insert_dev_tables [OF assms(3)])
  moreover have "my_route_ok Settled (snd p)" using c(5) by (simp add: sk(2) my_route_ok_def)
  ultimately have "a_ok Settled (snd p)" using c assms(5) by (simp add: a_ok_def a_links_ok_def sk(2))
  moreover have "heap_owned a_owned (\<lambda>_. True) [] (snd p)"
    by (rule raw.heap_perm [OF c(4)]) (simp_all add: sk(2) a_owned_def c(3))
  ultimately have "heap_owned a_owned (a_ok Settled) [] (snd p)" by (simp add: heap_owned_def)
  moreover have "a_keeps (snd p) t"
    using r(2) as.trans [OF av_insert_timer [OF assms(1)] av_arm] by (auto intro: keeps_safe)
  moreover have "a_tasks t = []" using r(2) c(8) by (simp add: sk(2))
  ultimately show ?thesis by (simp add: heap_safe_def)
qed

lemma init_module_owned:
  assumes "no_oom e" "blank s" "q_block s = None" "heap_ok s" "\<not> k_fault s" "0 \<le> qs" "\<forall>n i. sc n = Inl i \<longrightarrow> i < 0"
    "ifa_address ifa \<notin> insert 0 (static_addrs e sub)"
    "fst (aodv_init_module e dev gw sub qs sc (Some nd) (Some [ifa]) s) = 0"
  shows "heap_owned a_owned (a_ok Settled) [] (snd (aodv_init_module e dev gw sub qs sc (Some nd) (Some [ifa]) s))
    \<and> a_tasks (snd (aodv_init_module e dev gw sub qs sc (Some nd) (Some [ifa]) s)) = []"
proof -
  obtain name result u where i: "init_aodv_dev e name sc (Some nd) (Some [ifa]) (before_dev e gw sub qs s) = (result, u)" "result \<noteq> 0"
    "snd (aodv_init_module e dev gw sub qs sc (Some nd) (Some [ifa]) s) = update_timer_queue e (snd (insert_timer e 104 HELLO_INTERVAL (g_my_ip u) u))"
    by (rule init_module_loaded [OF assms(9)])
  have "heap_owned a_owned (a_ok Settled) [] u \<and> a_tasks u = []"
    by (rule init_dev_owned [OF assms(1) _ before_dev_tables [OF assms(2)] _ _ _ _ i(1,2) assms(7)])
      (use before_dev_loading [OF assms(1-6), of sub gw] assms(8) in auto)
  moreover have "a_keeps u (update_timer_queue e (snd (insert_timer e 104 HELLO_INTERVAL (g_my_ip u) u)))"
    by (rule keeps_safe [OF as.trans [OF av_insert_timer [OF assms(1)] av_arm]]) simp
  ultimately show ?thesis by (simp add: i(3) heap_safe_def)
qed

text \<open>C7. The routing module does not corrupt memory. Load it on an interface whose one address is neither 0 nor that
  of the loopback route or of the local subnet, on a machine on which allocation succeeds, and start its thread. Then, whatever packets,
  queue verdicts, expiries of the timer, devices that go down and changes of the clock fall between whichever steps of
  the thread, and whenever it is told to stop, no NULL pointer has been used, no block was freed that was not live, no
  block is in two places of the tables and queues, and all of them are live. The thread ends only when told to.\<close>

theorem aodv_memory_safe:
  assumes "no_oom e" "blank s" "q_block s = None" "heap_ok s" "\<not> k_fault s" "0 \<le> qs" "\<forall>n i. sc n = Inl i \<longrightarrow> i < 0"
    and "ifa_address ifa \<notin> insert 0 (static_addrs e sub)"
    and "fst (aodv_init_module e dev gw sub qs sc (Some nd) (Some [ifa]) s) = 0"
    and "aodv_system e (startup, snd (aodv_init_module e dev gw sub qs sc (Some nd) (Some [ifa]) s)) (th, t)"
  shows "\<not> k_fault t \<and> distinct (a_owned t) \<and> set (a_owned t) \<subseteq> k_live t
    \<and> (is_dead th \<longleftrightarrow> th_place th = Dead) \<and> (is_dead th \<longrightarrow> kill_thread th)"
proof -
  have "heap_owned a_owned (a_ok Settled) [] t"
    using init_module_owned [OF assms(1-9)] a_system_safe [OF assms(1,10)] unfolding heap_safe_def by simp
  moreover have "thread_ok th" using system_thread_ok [OF assms(10)] by (simp add: thread_ok_def startup_def)
  ultimately show ?thesis by (simp add: heap_owned_def thread_ok_def)
qed

text \<open>The node of AodvDemo hears its first neighbour: the packet finds the thread asleep.\<close>

theorem aodv_memory_safe_witness:
  "\<not> k_fault met \<and> distinct (a_owned met) \<and> set (a_owned met) \<subseteq> k_live met"
proof -
  let ?ifa = "\<lparr>ifa_address = 0xc0a80001, ifa_mask = 0xffffff00\<rparr>" and ?p = "hello_from 0xc0a80002"
  let ?s = "snd (input_handler demo_env ?p wlan0 loaded)"
  have ok: "no_oom demo_env" by (simp add: no_oom_def demo_env_def)
  have s: "blank unloaded" "q_block unloaded = None" "heap_ok unloaded" "\<not> k_fault unloaded"
    by (simp_all add: blank_def unloaded_def heap_ok_def)
  have "inet_aton demo_env ''127.0.0.1'' = Some 0x7f000001" by code_simp
  then have i: "ifa_address ?ifa \<notin> insert 0 (static_addrs demo_env None)" by (simp add: static_addrs_def)
  have l: "fst (aodv_init_module demo_env (Some ''wlan0'') 0 None 0 (\<lambda>_. Inr 77) (Some wlan0) (Some [?ifa]) unloaded) = 0"
    unfolding demo_load_def [symmetric] by code_simp
  have "aodv_system demo_env (startup, loaded) ((aodv_thread demo_env ^^ 3) (startup, loaded))"
    by (simp add: numeral_3_eq_3) (intro aodv_system.intros)
  moreover have "(aodv_thread demo_env ^^ 3) (startup, loaded) = (startup\<lparr>th_place := Asleep, wait_ready := True\<rparr>, loaded)"
    by (simp add: numeral_3_eq_3 aodv_thread_def thread_step_def startup_def)
  ultimately have r: "aodv_system demo_env (startup, loaded) (startup\<lparr>th_place := Asleep, wait_ready := True\<rparr>, loaded)" by simp
  have "aodv_event demo_env loaded ?s" by (rule event_in) (simp add: wlan0_def)
  from system_event [OF r this]
  have "aodv_system demo_env (startup, loaded) (kicked loaded ?s (startup\<lparr>th_place := Asleep, wait_ready := True\<rparr>), ?s)" .
  moreover have "list_ex (\<lambda>x. x = WakeThread) (drop (length (k_out loaded)) (k_out ?s))" by code_simp
  ultimately have "aodv_system demo_env (startup, loaded) (startup\<lparr>th_place := Woken, wait_ready := True\<rparr>, ?s)"
    by (auto simp: kicked_def kick_def list_ex_iff startup_def)
  from system_thread [OF this] have w: "aodv_system demo_env (startup, loaded) (startup\<lparr>th_place := Working, wait_ready := True\<rparr>, ?s)"
    by (simp add: aodv_thread_def thread_step_def startup_def)
  have "a_tasks ?s \<noteq> []" by code_simp
  from system_thread [OF w] aw.working_turn [OF _ this, of "startup\<lparr>th_place := Working, wait_ready := True\<rparr>" demo_env]
  have m: "aodv_system demo_env (startup, loaded) (startup\<lparr>th_place := Working, wait_ready := True\<rparr>, met)"
    by (simp add: aodv_thread_def aodv_turn met_def arrives_def)
  show ?thesis
    using aodv_memory_safe [OF ok s _ _ i l m [unfolded loaded_def demo_load_def]] by simp
qed

end
