(* ===== verification/RouteLife.thy ===== *)
theory RouteLife
  imports AodvMemory
begin

text \<open>
  What frees a route. No handler of the module lets go of an entry of the route table except two, \<open>delete_aodv_neigh\<close> and
  \<open>flush_aodv_route_table\<close>, which run on turns of the thread; here is exactly when they do.
\<close>

section \<open>Handlers that keep the routes\<close>

lemma rk_neigh: "a_routes (neigh_upd a f t) = a_routes t" "a_loose (neigh_upd a f t) = a_loose t" "k_allocs (neigh_upd a f t) = k_allocs t"
  by (simp_all add: neigh_upd_def)

lemma rk_create_neigh:
  "a_routes (snd (create_aodv_neigh e ip t)) = a_routes t" "a_loose (snd (create_aodv_neigh e ip t)) = a_loose t"
  "k_allocs t \<le> k_allocs (snd (create_aodv_neigh e ip t))"
  by (simp_all add: create_aodv_neigh_def kmalloc_def split: list.split)

lemma rk_flush_floods:
  "a_routes (snd (flush_flood_id_queue e t)) = a_routes t" "a_loose (snd (flush_flood_id_queue e t)) = a_loose t"
  "k_allocs t \<le> k_allocs (snd (flush_flood_id_queue e t))"
  using ev_flush_floods [of e t] by (simp_all add: flush_flood_id_queue_def Let_def case_prod_beta evolves_def)

text \<open>A relation between a state and a later one that allows what most handlers do to the route table: nothing, or add a block
  that is new.\<close>

named_theorems rk "rules for a relation that allows new routes"

locale route_evolution = evolution R for R :: "aodv_state \<Rightarrow> aodv_state \<Rightarrow> bool" +
  assumes same: "route_addrs t = route_addrs s \<Longrightarrow> k_allocs s \<le> k_allocs t \<Longrightarrow> R s t"
    and new: "set (route_addrs t) = insert (k_allocs s) (set (route_addrs s)) \<Longrightarrow> k_allocs s < k_allocs t \<Longrightarrow> R s t"
begin

lemmas rk_rules [rk] = rules

lemma keeps_same: "R s t \<Longrightarrow> a_routes u = a_routes t \<Longrightarrow> a_loose u = a_loose t \<Longrightarrow> k_allocs t \<le> k_allocs u \<Longrightarrow> R s u"
  by (rule trans, assumption, rule same) (simp_all add: route_addrs_def)

lemma keeps_addrs: "R s t \<Longrightarrow> route_addrs u = route_addrs t \<Longrightarrow> k_allocs t \<le> k_allocs u \<Longrightarrow> R s u"
  by (rule trans, assumption, rule same)

lemma rk_ops [rk]:
  assumes "R s t"
  shows "R s (fault t)" "R s (emit x t)" "R s (kfree a t)" "R s (kfree_opt p t)"
    "R s (snd (kmalloc e t))" "R s (snd (delete_kernel_route_entry e d g m t))"
    "R s (snd (insert_kernel_route_entry e d g m i t))" "R s (t\<lparr>aodv_overhead := n\<rparr>)"
    "R s (update_timer_queue e t)" "R s (delete_timer w ty t)"
    "R s (snd (insert_timer e ty dl w t))" "R s (snd (insert_rreq_timer e r rn t))"
    "R s (snd (insert_flood_id e w w2 fi lt t))" "R s (ipq_drop_ip w t)"
    "R s (neigh_upd a f t)" "R s (snd (create_aodv_neigh e w t))"
    "R s (t\<lparr>a_neighs := ns\<rparr>)" "R s (snd (flush_flood_id_queue e t))"
proof -
  have k: "a_routes (kfree_opt p t) = a_routes t" "a_loose (kfree_opt p t) = a_loose t"
      "a_routes (snd (kmalloc e t)) = a_routes t" "a_loose (snd (kmalloc e t)) = a_loose t"
    by (simp_all add: kfree_opt_def kmalloc_def split: option.split)
  have al: "k_allocs t \<le> k_allocs (kfree_opt p t)" "k_allocs t \<le> k_allocs (snd (kmalloc e t))"
      "k_allocs t \<le> k_allocs (snd (insert_timer e ty dl w t))" "k_allocs t \<le> k_allocs (snd (insert_rreq_timer e r rn t))"
      "k_allocs t \<le> k_allocs (snd (insert_flood_id e w w2 fi lt t))"
    by (simp_all add: kfree_opt_def kmalloc_def insert_timer_def insert_rreq_timer_def insert_flood_id_def create_task_def split: option.split)
  note f = k rk_neigh rk_create_neigh rk_flush_floods delete_kernel_route_entry_eq insert_kernel_route_entry_eq ipq_drop_ip_eq
  show "R s (fault t)" "R s (emit x t)" "R s (kfree a t)" "R s (kfree_opt p t)"
    "R s (snd (kmalloc e t))" "R s (snd (delete_kernel_route_entry e d g m t))"
    "R s (snd (insert_kernel_route_entry e d g m i t))" "R s (t\<lparr>aodv_overhead := n\<rparr>)"
    "R s (update_timer_queue e t)" "R s (delete_timer w ty t)"
    "R s (snd (insert_timer e ty dl w t))" "R s (snd (insert_rreq_timer e r rn t))"
    "R s (snd (insert_flood_id e w w2 fi lt t))" "R s (ipq_drop_ip w t)"
    "R s (neigh_upd a f t)" "R s (snd (create_aodv_neigh e w t))"
    "R s (t\<lparr>a_neighs := ns\<rparr>)" "R s (snd (flush_flood_id_queue e t))"
    by (rule keeps_same [OF assms], simp add: f, simp add: f, simp add: f al)+
qed

lemma rk_out_only: "R s t \<Longrightarrow> out_only t u \<Longrightarrow> R s u"
  by (erule keeps_same) (auto simp: out_only_def)

lemma rk_find [rk]:
  assumes "R s t"
  shows "R s (snd (find_aodv_route e ip t))"
proof (rule keeps_addrs [OF assms])
  obtain p u where "find_aodv_route e ip t = (p, u)" by fastforce
  then show "route_addrs (snd (find_aodv_route e ip t)) = route_addrs t" using find_addrs by simp
  show "k_allocs t \<le> k_allocs (snd (find_aodv_route e ip t))" by (simp add: find_aodv_route_def case_prod_beta)
qed

lemma rk_send [rk]:
  "R s t \<Longrightarrow> R s (snd (local_broadcast e l m t))"
  "R s t \<Longrightarrow> R s (snd (send_message e dst ttl dat dev t))"
  using local_broadcast_out send_message_out rk_find rk_out_only by blast+

lemma rk_upd [rk]:
  assumes "R s t"
  shows "R s (route_upd p f t)" "R s (deref_upd q f t)"
proof -
  show u: "R s (route_upd p f t)" for p by (rule keeps_addrs [OF assms]) simp_all
  show "R s (deref_upd q f t)" using u rk_ops(1) [OF assms] by (simp add: deref_upd_def split: option.split)
qed

lemma rk_create_route [rk]:
  assumes "R s t"
  shows "R s (snd (create_aodv_route e ip t))"
proof -
  obtain p u where c: "create_aodv_route e ip t = (p, u)" by fastforce
  show ?thesis
  proof (cases p)
    case None
    then have "u = t\<lparr>k_allocs := Suc (k_allocs t)\<rparr>" using create_aodv_route_None [of e ip t u] c by simp
    then show ?thesis using keeps_same [OF assms, of u] c by simp
  next
    case (Some a)
    note u = create_aodv_route_Some [OF c [unfolded Some]]
    have "R t u" by (rule new) (simp_all add: u [THEN conjunct2, THEN conjunct2] u [THEN conjunct1] route_addrs_def)
    then show ?thesis using trans [OF assms] c by simp
  qed
qed

lemma rk_write_route:
  assumes "R s t"
  shows "R s (write_route e ip p nh m sq d t)"
proof (cases "route_get p t")
  case None
  then show ?thesis using rk_ops(1) [OF rk_upd(1) [OF assms]] by (simp add: write_route_def Let_def route_get_upd)
next
  case (Some r)
  show ?thesis by (rule keeps_addrs [OF assms]) (simp_all add: write_route_eq [OF Some] route_addrs_def)
qed

lemma rk_update_route [rk]: "R s t \<Longrightarrow> R s (snd (update_aodv_route e ip nh m sq d t))"
  unfolding update_aodv_route_def Let_def by (intro rk rk_write_route; assumption?)

lemma rk_free_rerr: "R s t \<Longrightarrow> R s (free_rerr_routes ds t)"
  by (induction ds t rule: free_rerr_routes.induct) (simp_all add: rk)

lemma rk_send_rerr: "R s t \<Longrightarrow> R s (snd (send_rerr e bad t))"
  unfolding send_rerr_def Let_def by (intro rk rk_free_rerr; assumption?)

lemma rk_recv_rerr_loop: "R s t \<Longrightarrow> R s (snd (recv_rerr_loop e src bs n i out t))"
proof (induction n arbitrary: i out t)
  case (Suc n)
  note IH = Suc.IH
  show ?case unfolding recv_rerr_loop.simps Let_def by (intro rk IH Suc.prems; (assumption | simp)?)
qed simp

lemma rk_recv_rerr [rk]: "R s t \<Longrightarrow> R s (snd (recv_rerr e p t))"
  unfolding recv_rerr_def by (intro rk rk_recv_rerr_loop rk_send_rerr; assumption?)

lemma rk_update_neigh [rk]: "R s t \<Longrightarrow> R s (snd (update_aodv_neigh e p r t))"
  unfolding update_aodv_neigh_def update_aodv_neigh_route_def Let_def by (intro rk; assumption?)

lemma rk_send_hello [rk]: "R s t \<Longrightarrow> R s (snd (send_hello e t))"
  unfolding send_hello_def Let_def by (intro rk; assumption?)

lemma rk_recv_hello [rk]: "R s t \<Longrightarrow> R s (snd (recv_hello e r p t))"
  unfolding recv_hello_def hello_neigh_def Let_def by (intro rk; assumption?)

lemma rk_check_rrep [rk]: "R s t \<Longrightarrow> R s (snd (check_rrep e r p t))"
  unfolding check_rrep_def by (intro rk; assumption?)

lemma rk_recv_rrep [rk]: "R s t \<Longrightarrow> R s (snd (recv_rrep e p t))"
  unfolding recv_rrep_def Let_def by (intro rk; assumption?)

lemma rk_gen_rrep [rk]: "R s t \<Longrightarrow> R s (snd (gen_rrep e a b t))"
  unfolding gen_rrep_def send_rrep_def by (simp only: prod.case, intro rk; assumption?)

lemma rk_check_rreq [rk]: "R s t \<Longrightarrow> R s (snd (check_rreq e r h t))"
  unfolding check_rreq_def Let_def by (intro rk; assumption?)

lemma rk_gateway_route [rk]: "R s t \<Longrightarrow> R s (snd (gateway_route e ip t))"
  unfolding gateway_route_def Let_def
  by (rule call_rule(2), intro rk, assumption, unfold prod.case) (intro rk; assumption?)

lemma rk_reply [rk]: "R s t \<Longrightarrow> R s (snd (reply_to_rreq e r t))"
  unfolding reply_to_rreq_def validate_route_def Let_def by (intro rk; assumption?)

lemma rk_recv_rreq [rk]: "R s t \<Longrightarrow> R s (snd (recv_rreq e p t))"
  unfolding recv_rreq_def forward_rreq_def Let_def by (intro rk; assumption?)

lemma rk_launch [rk]: "R s t \<Longrightarrow> R s (snd (launch_rreq e a d x y n t))"
  unfolding launch_rreq_def Let_def by (intro rk; assumption?)

lemma rk_resend [rk]: "R s t \<Longrightarrow> R s (snd (resend_rreq e p t))"
  unfolding resend_rreq_def by (intro rk; assumption?)

lemma rk_gen_rreq [rk]: "R s t \<Longrightarrow> R s (snd (gen_rreq e a b t))"
  unfolding gen_rreq_def by (intro rk; assumption?)

lemma rk_output: "R s (snd (output_handler e skb s))"
  unfolding output_handler_def Let_def by (intro rk; assumption?)

lemma rk_turn:
  assumes "tk_type (snd k) \<noteq> TASK_NEIGHBOR" "tk_type (snd k) \<noteq> TASK_CLEANUP" "tk_type (snd k) \<noteq> TASK_ROUTE_CLEANUP"
  shows "R s (dispatch e k s)"
  unfolding dispatch_def Let_def using assms by (simp add: rk refl)

lemma rk_input: "R s (snd (input_handler e skb indev s))"
proof -
  have "R s (snd (insert_task e ty skb t))" if "R s t" for ty t
    by (rule keeps_same [OF that])
      (auto simp: insert_task_def create_task_def kmalloc_def Let_def queue_aodv_task_def emit_def kfree_def fault_def)
  then have "R s (snd (packet_in e skb s))"
    using rk_ops(8) [OF refl] refl by (simp add: packet_in_def valid_aodv_packet_def Let_def)
  then show ?thesis using rk_ops(1) [OF refl] refl by (simp add: input_handler_def)
qed

lemma rk_event: "aodv_event e s t \<Longrightarrow> R s t"
proof (induction rule: aodv_event.induct)
  case (event_queue entry)
  show ?case by (rule keeps_same [OF refl]) (simp_all add: netfilter_receive_def ipq_enqueue_def Let_def emit_def)
next
  case event_timer
  show ?case by (rule keeps_same [OF refl]) (simp_all add: timer_queue_signal_def signal_loop_fields del: signal_loop.simps)
next
  case (event_down event dev)
  show ?case by (rule keeps_same [OF refl]) (simp_all add: ipq_receive_event_def ipq_dev_drop_eq)
qed (rule rk_input rk_output keeps_same [OF refl]; simp)+

end

text \<open>Two such relations: no route is lost, and a route that is there was there or has a new address.\<close>

definition keeps_routes :: "aodv_state \<Rightarrow> aodv_state \<Rightarrow> bool" where
  "keeps_routes s t = (set (route_addrs s) \<subseteq> set (route_addrs t))"

interpretation kr: route_evolution keeps_routes
  by unfold_locales (auto simp: keeps_routes_def)

definition new_routes_only :: "aodv_state \<Rightarrow> aodv_state \<Rightarrow> bool" where
  "new_routes_only s t = (k_allocs s \<le> k_allocs t \<and> (\<forall>a \<in> set (route_addrs t). a \<in> set (route_addrs s) \<or> k_allocs s \<le> a))"

interpretation nr: route_evolution new_routes_only
  by unfold_locales (auto simp: new_routes_only_def intro: order_trans)

section \<open>The two that do not\<close>

lemma map_filter_addrs_eq:
  "set (nl_addrs (List.map_filter (\<lambda>(a, r). map_option (Pair a) (f r)) rs)) = {a. \<exists>r. (a, r) \<in> set rs \<and> f r \<noteq> None}"
  by (induction rs) (auto simp: List.map_filter_simps split: option.splits)

lemma once_in: "distinct (nl_addrs rs) \<Longrightarrow> (a, x) \<in> set rs \<Longrightarrow> (a, y) \<in> set rs \<Longrightarrow> x = y"
  by (metis nl_get_in option.inject)

lemma flush_frees:
  assumes "routes_ok s" "route_get p s \<noteq> None"
  shows "route_get p (snd (flush_aodv_route_table e s)) = None
     \<longleftrightarrow> (\<exists>r. (p, r) \<in> set (a_routes s) \<and> flush_route e (getcurrtime s) r = None)"
proof -
  have l: "a_loose (snd (flush_aodv_route_table e s)) = a_loose s"
    by (simp add: flush_aodv_route_table_def case_prod_beta flush_route_loop_allocs)
  have a: "p \<in> set (nl_addrs (a_routes s)) \<or> p \<in> set (nl_addrs (a_loose s))"
    using assms(2) by (simp add: route_get_None route_addrs_def)
  have d: "distinct (nl_addrs (a_routes s))" "set (nl_addrs (a_routes s)) \<inter> set (nl_addrs (a_loose s)) = {}"
    using assms(1) by (simp_all add: routes_ok_def route_addrs_def)
  have "route_get p (snd (flush_aodv_route_table e s)) = None \<longleftrightarrow>
      \<not> (\<exists>r. (p, r) \<in> set (a_routes s) \<and> flush_route e (getcurrtime s) r \<noteq> None) \<and> p \<notin> set (nl_addrs (a_loose s))"
    by (simp add: route_get_None route_addrs_def l flush_aodv_route_table_def case_prod_beta flush_route_loop_map map_filter_addrs_eq)
  also have "\<dots> \<longleftrightarrow> (\<exists>r. (p, r) \<in> set (a_routes s) \<and> flush_route e (getcurrtime s) r = None)"
  proof (cases "p \<in> set (nl_addrs (a_routes s))")
    case True
    then obtain r where r: "(p, r) \<in> set (a_routes s)" by (auto simp: nl_addrs_def)
    have "p \<notin> set (nl_addrs (a_loose s))" using True d(2) by blast
    moreover have "(p, x) \<in> set (a_routes s) \<longleftrightarrow> x = r" for x using once_in [OF d(1) r] r by blast
    ultimately show ?thesis by simp
  next
    case False
    then have "(p, x) \<notin> set (a_routes s)" for x by (force simp: nl_addrs_def)
    then show ?thesis using a False by simp
  qed
  finally show ?thesis .
qed

lemma last_match_pass: "last_match ip (map (apsnd (pass_route e now t)) rs) = last_match ip rs"
  by (induction rs) (auto split: option.split)

lemma self_pass: "rt_self r \<Longrightarrow> rt_valid (pass_route e now t r) = rt_valid r"
  by (simp add: pass_route_def route_stale_def)

lemma remove_frees:
  assumes "distinct (route_addrs t)" "q \<in> set (route_addrs t)"
  shows "q \<in> set (route_addrs (remove_aodv_route p t)) \<longleftrightarrow> q \<noteq> p"
proof -
  have "distinct (nl_addrs (a_routes t))" "distinct (nl_addrs (a_loose t))" using assms(1) by (simp_all add: route_addrs_def)
  then show ?thesis using assms(2)
    by (auto simp: route_addrs_def remove_aodv_route_def set_nl_del nl_addrs_def image_iff)
qed

definition loses_route :: "u32 \<Rightarrow> addr \<Rightarrow> aodv_state \<Rightarrow> bool" where
  "loses_route ip p s =
     (nl_find (\<lambda>n. nb_ip n = ip) (a_neighs s) \<noteq> None \<and> last_match ip (a_routes s) = Some p
      \<and> (case route_get p s of None \<Rightarrow> False | Some r \<Rightarrow> rt_next_hop r = rt_ip r \<and> \<not> (rt_self r \<and> rt_valid r)))"

text \<open>\<open>delete_aodv_neigh\<close> expires the route to the neighbour, and therefore removes it at once, unless the node has the
  address itself.\<close>

lemma delete_neigh_frees:
  assumes "no_oom e" "heap_owned a_owned (a_ok W) H s" "route_get q s \<noteq> None"
  shows "route_get q (snd (delete_aodv_neigh e ip s)) = None \<longleftrightarrow> loses_route ip q s"
proof (cases "nl_find (\<lambda>n. nb_ip n = ip) (a_neighs s)")
  case None
  then show ?thesis using assms(3) by (simp add: delete_aodv_neigh_def loses_route_def)
next
  case (Some an)
  then obtain a n where n: "nl_find (\<lambda>n. nb_ip n = ip) (a_neighs s) = Some (a, n)" by (cases an) simp
  have rs: "routes_ok s" using heap_a_ok [OF assms(2)] by (simp add: a_ok_def tables_ok_def)
  define s2 where "s2 = update_timer_queue e (delete_timer ip 103 (kfree a (s\<lparr>a_neighs := nl_del a (a_neighs s)\<rparr>)))"
  have s2: "a_routes s2 = a_routes s" "a_loose s2 = a_loose s" "k_allocs s2 = k_allocs s" by (simp_all add: s2_def)
  then have r2: "routes_ok s2" using routes_ok_cong [of s2 s] rs by simp
  obtain m s3 where f: "find_aodv_route e ip s2 = (m, s3)" by fastforce
  have m: "m = last_match ip (a_routes s)"
    and s3: "a_routes s3 = map (apsnd (pass_route e (getcurrtime s2) ip)) (a_routes s)" "a_loose s3 = a_loose s"
    using r2 f by (auto simp: routes_ok_def find_aodv_route_eq s2)
  have q3: "q \<in> set (route_addrs s3)"
    using assms(3) s3 by (simp add: route_get_None route_addrs_def)
  have r3: "routes_ok s3" using find_aodv_route_ok [OF r2, of e ip] f by simp
  have u: "snd (delete_aodv_neigh e ip s) = s3" if "m = None"
    using n f that by (simp add: delete_aodv_neigh_def s2_def [symmetric])
  show ?thesis
  proof (cases m)
    case None
    then show ?thesis using u q3 m by (simp add: route_get_None loses_route_def)
  next
    case (Some p)
    have lm: "last_match ip (a_routes s) = Some p" using m Some by simp
    obtain r where r: "(p, r) \<in> set (a_routes s)" using last_match_Some [OF lm] by blast
    have g: "route_get p s = Some r"
      using r rs nl_get_in [of p r "a_routes s @ a_loose s"] by (simp add: route_get_def routes_ok_def route_addrs_def)
    define r' where "r' = pass_route e (getcurrtime s2) ip r"
    have in3: "(p, r') \<in> set (a_routes s3)" using r by (force simp: r'_def s3)
    then have g3: "route_get p s3 = Some r'"
      using r3 nl_get_in [of p r' "a_routes s3 @ a_loose s3"] by (simp add: route_get_def routes_ok_def route_addrs_def)
    have h': "rt_next_hop r' = rt_next_hop r" "rt_ip r' = rt_ip r" "rt_self r' = rt_self r" by (simp_all add: r'_def)
    show ?thesis
    proof (cases "rt_next_hop r = rt_ip r")
      case False
      then have "snd (delete_aodv_neigh e ip s) = s3"
        using n f g3 Some h' by (simp add: delete_aodv_neigh_def s2_def [symmetric])
      then show ?thesis using False q3 g lm by (auto simp: route_get_None loses_route_def)
    next
      case hop: True
      define v where "v = snd (delete_kernel_route_entry e (rt_ip r) (rt_ip r) (rt_netmask r') s3)"
      define t where "t = snd (gen_rerr e (rt_ip r) v)"
      have "kstate.more v = kstate.more s3" by (simp add: v_def delete_kernel_route_entry_eq)
      note vf = a_state_more [OF this]
      have "kstate.more t = kstate.more (v\<lparr>a_routes := map (apsnd (expired_from (getcurrtime v) (rt_ip r))) (a_routes v)\<rparr>)"
        unfolding t_def by (rule gen_rerr_more [OF assms(1)])
      note tf = a_state_more [OF this]
      have at: "route_addrs t = route_addrs s3" by (simp add: route_addrs_def tf vf)
      let ?q = "expired_from (getcurrtime v) (rt_ip r) r'"
      have rt: "distinct (route_addrs t)" using r3 by (simp add: at routes_ok_def)
      have "(p, ?q) \<in> set (a_routes t)" using in3 by (force simp: tf vf)
      then have gt: "route_get p t = Some ?q" using rt nl_get_in [of p ?q "a_routes t @ a_loose t"] by (simp add: route_get_def route_addrs_def)
      have valid: "rt_valid ?q \<longleftrightarrow> rt_self r \<and> rt_valid r"
        using hop h' self_pass [of r e "getcurrtime s2" ip] by (auto simp: expired_from_def r'_def)
      have d: "snd (delete_aodv_neigh e ip s) =
          (if rt_valid ?q then route_upd p (expire_aodv_route (getcurrtime t)) t else remove_aodv_route p t)"
        using n f g3 gt Some h' hop by (simp add: delete_aodv_neigh_def s2_def [symmetric] t_def [symmetric] v_def [symmetric] Let_def)
      have "q \<in> set (route_addrs t)" using q3 at by simp
      then have "route_get q (snd (delete_aodv_neigh e ip s)) = None \<longleftrightarrow> q = p \<and> \<not> rt_valid ?q"
        using remove_frees [OF rt, of q p] route_get_upd [of q p "expire_aodv_route (getcurrtime t)" t]
        by (auto simp: d route_get_None route_get_upd)
      then show ?thesis using valid g lm hop n by (auto simp: loses_route_def)
    qed
  qed
qed

section \<open>Turns of the thread\<close>

text \<open>The next turn of the thread frees p: it deletes the neighbour that p leads to, or it sweeps the table and p has expired and
  been kept for the time set.\<close>

definition turn_frees :: "kenv \<Rightarrow> addr \<Rightarrow> aodv_state \<Rightarrow> bool" where
  "turn_frees e p s =
     (case a_tasks s of
        [] \<Rightarrow> False
      | k # ks \<Rightarrow>
          tk_type (snd k) = TASK_NEIGHBOR \<and> loses_route (tk_src_ip (snd k)) p s
          \<or> (tk_type (snd k) = TASK_CLEANUP \<or> tk_type (snd k) = TASK_ROUTE_CLEANUP)
            \<and> list_ex (\<lambda>(a, r). a = p \<and> \<not> rt_self r \<and> \<not> rt_valid r \<and> ke_time_before e (rt_lifetime r) (getcurrtime s)) (a_routes s))"

lemma turn_frees_flush:
  "list_ex (\<lambda>(a, r). a = p \<and> \<not> rt_self r \<and> \<not> rt_valid r \<and> ke_time_before e (rt_lifetime r) now) rs
     \<longleftrightarrow> (\<exists>r. (p, r) \<in> set rs \<and> flush_route e now r = None)"
  by (auto simp: list_ex_iff flush_route_def route_stale_def split: if_splits)

lemma thread_frees:
  assumes "no_oom e" "heap_owned a_owned (a_ok Settled) [] s" "route_get p s \<noteq> None"
  shows "route_get p (thread_round e s) = None \<longleftrightarrow> turn_frees e p s"
proof (cases "a_tasks s")
  case Nil
  then show ?thesis using assms(3) by (simp add: thread_round_def get_task_def turn_frees_def)
next
  case (Cons k ks)
  define u where "u = s\<lparr>a_tasks := ks\<rparr>"
  have u: "a_routes u = a_routes s" "a_loose u = a_loose s" "a_neighs u = a_neighs s" "getcurrtime u = getcurrtime s"
      "route_get p u = route_get p s" "k_allocs u = k_allocs s"
    by (simp_all add: u_def route_get_def getcurrtime_def)
  have h: "heap_owned a_owned (a_ok Settled) (a_held k @ []) u" unfolding u_def by (rule a_heap_get(1) [OF assms(2) Cons])
  have ok: "routes_ok u" using heap_a_ok [OF h] by (simp add: a_ok_def tables_ok_def)
  have r: "thread_round e s = dispatch e k u" using Cons by (simp add: thread_round_def get_task_def u_def)
  have gu: "route_get p u \<noteq> None" using assms(3) u by simp
  have kept: "route_get p t \<noteq> None" if "keeps_routes u t" for t using that gu by (auto simp: keeps_routes_def route_get_None)
  have kf: "route_get p (kfree a t) = route_get p t" "route_get p (kfree_opt o' t) = route_get p t" for a o' t
    by (simp_all add: route_get_def kfree_opt_def split: option.split)
  define w where "w = snd (flush_flood_id_queue e u)"
  have w: "a_routes w = a_routes u" "a_loose w = a_loose u" "getcurrtime w = getcurrtime u"
    unfolding w_def using evolves_time [OF ev_flush_floods] by (simp_all add: rk_flush_floods)
  have "tables_ok u" using heap_a_ok [OF h] by (simp add: a_ok_def)
  then have okw: "routes_ok w" using tables_ok_evolves [OF ev_flush_floods, of u e] by (simp add: w_def tables_ok_def)
  have gw: "route_get p w \<noteq> None" using gu w by (simp add: route_get_def)
  have same: "loses_route ip p u = loses_route ip p s" for ip using u by (simp add: loses_route_def)
  consider "tk_type (snd k) = TASK_NEIGHBOR" | "tk_type (snd k) = TASK_CLEANUP" | "tk_type (snd k) = TASK_ROUTE_CLEANUP"
    | "tk_type (snd k) \<noteq> TASK_NEIGHBOR" "tk_type (snd k) \<noteq> TASK_CLEANUP" "tk_type (snd k) \<noteq> TASK_ROUTE_CLEANUP" by blast
  then show ?thesis
  proof cases
    case 1
    then show ?thesis
      using delete_neigh_frees [OF assms(1) h gu] same Cons by (simp add: r dispatch_def Let_def kf turn_frees_def)
  next
    case 2
    then show ?thesis
      using flush_frees [OF okw gw, of e] Cons by (simp add: r dispatch_def Let_def kf turn_frees_def turn_frees_flush w_def [symmetric] w u)
  next
    case 3
    then show ?thesis
      using flush_frees [OF ok gu, of e] Cons by (simp add: r dispatch_def Let_def kf turn_frees_def turn_frees_flush u)
  next
    case 4
    then show ?thesis using kept [OF kr.rk_turn [OF 4]] Cons by (simp add: r turn_frees_def)
  qed
qed

text \<open>And no turn brings an address back.\<close>

lemma nr_remove: "new_routes_only s t \<Longrightarrow> new_routes_only s (remove_aodv_route p t)"
  by (auto simp: new_routes_only_def remove_aodv_route_def route_addrs_def)

lemma nr_gen_rerr:
  assumes "no_oom e" "new_routes_only s t"
  shows "new_routes_only s (snd (gen_rerr e brk t))"
proof (rule nr.keeps_addrs [OF assms(2)])
  note f = a_state_more [OF gen_rerr_more [OF assms(1), of brk t]]
  show "route_addrs (snd (gen_rerr e brk t)) = route_addrs t" by (simp add: route_addrs_def f)
  show "k_allocs t \<le> k_allocs (snd (gen_rerr e brk t))" using ev_gen_rerr [OF evolves_refl, of e t brk] by (simp add: evolves_def)
qed

lemma nr_flush: "new_routes_only s t \<Longrightarrow> new_routes_only s (snd (flush_aodv_route_table e t))"
proof (rule nr.trans)
  have "k_allocs t \<le> k_allocs (snd (flush_aodv_route_table e t))" using ev_flush_routes [of e t] by (simp add: evolves_def)
  then show "new_routes_only t (snd (flush_aodv_route_table e t))"
    by (auto simp: new_routes_only_def route_addrs_def flush_aodv_route_table_def case_prod_beta flush_route_loop_allocs flush_route_loop_map
        dest!: subsetD [OF map_filter_addrs(1)])
qed

lemma nr_delete_neigh: "no_oom e \<Longrightarrow> new_routes_only s t \<Longrightarrow> new_routes_only s (snd (delete_aodv_neigh e ip t))"
  unfolding delete_aodv_neigh_def Let_def by (intro rk nr_remove nr_gen_rerr; assumption?)

lemma thread_new:
  assumes "no_oom e"
  shows "new_routes_only s (thread_round e s)"
proof (cases "a_tasks s")
  case Nil
  then show ?thesis by (simp add: thread_round_def get_task_def nr.refl)
next
  case (Cons k ks)
  have u: "new_routes_only s (s\<lparr>a_tasks := ks\<rparr>)" by (rule nr.keeps_same [OF nr.refl]) simp_all
  have "new_routes_only s (dispatch e k (s\<lparr>a_tasks := ks\<rparr>))"
    using nr.trans [OF u nr.rk_turn [where k = k and e = e]] u
    by (cases "tk_type (snd k) = TASK_NEIGHBOR \<or> tk_type (snd k) = TASK_CLEANUP \<or> tk_type (snd k) = TASK_ROUTE_CLEANUP")
      (auto simp: dispatch_def Let_def intro!: rk nr_flush nr_delete_neigh assms)
  then show ?thesis using Cons by (simp add: thread_round_def get_task_def)
qed

lemma stays_gone:
  assumes "new_routes_only s t" "route_get p s = None" "p < k_allocs s"
  shows "route_get p t = None"
  using assms by (auto simp: new_routes_only_def route_get_None)

end
