(* ===== verification/QueueRun.thy ===== *)
theory QueueRun
  imports RouteLife TaskQueue
begin

text \<open>
  The task queue of \<open>kaodv/src/task_queue.c\<close> in the running module. Elsewhere the queue is the list of its tasks; here
  a run of the module with its thread carries the code's two pointers and the cells they lead to as well, because what
  \<open>cleanup_task_queue\<close> does at the end depends on the \<open>next\<close> field the list does not show.
\<close>

section \<open>Blocks that are gone stay gone\<close>

definition dead_stay :: "aodv_state \<Rightarrow> aodv_state \<Rightarrow> bool" where
  "dead_stay s t = (k_allocs s \<le> k_allocs t \<and> k_live t \<subseteq> k_live s \<union> {k_allocs s..})"

named_theorems ds "rules for dead_stay"

interpretation gone: evolution dead_stay
  by unfold_locales (auto simp: dead_stay_def)

lemmas ds_rules [ds] = gone.rules

lemma ds_same: "dead_stay s t \<Longrightarrow> k_live u = k_live t \<Longrightarrow> k_allocs u = k_allocs t \<Longrightarrow> dead_stay s u"
  by (simp add: dead_stay_def)

lemma ds_new: "dead_stay s t \<Longrightarrow> k_live u \<subseteq> insert (k_allocs t) (k_live t) \<Longrightarrow> k_allocs t \<le> k_allocs u \<Longrightarrow> dead_stay s u"
  by (auto simp: dead_stay_def)

lemma ds_ops [ds]:
  assumes "dead_stay s t"
  shows "dead_stay s (fault t)" "dead_stay s (emit x t)" "dead_stay s (kfree a t)"
    "dead_stay s (snd (kmalloc e t))" "dead_stay s (update_timer_queue e t)" "dead_stay s (route_upd p f t)"
    "dead_stay s (snd (insert_rreq_timer e r n t))" "dead_stay s (snd (insert_flood_id e v w i lt t))"
    "dead_stay s (snd (find_aodv_route e ip t))"
proof -
  show "dead_stay s (kfree a t)" by (rule ds_new [OF assms]) (auto simp: kfree_def fault_def)
  show "dead_stay s (snd (kmalloc e t))" "dead_stay s (snd (insert_rreq_timer e r n t))" "dead_stay s (snd (insert_flood_id e v w i lt t))"
    by (rule ds_new [OF assms];
        simp add: kmalloc_def insert_rreq_timer_def insert_flood_id_def create_task_def queue_timer_def subset_insertI split: option.split)+
  show "dead_stay s (fault t)" "dead_stay s (emit x t)" "dead_stay s (update_timer_queue e t)" "dead_stay s (route_upd p f t)"
    "dead_stay s (snd (find_aodv_route e ip t))"
    by (rule ds_same [OF assms];
        simp add: update_timer_queue_def arm_timer_def emit_def find_aodv_route_def case_prod_beta Let_def split: list.split)+
qed

lemma ds_broadcast [ds]: "dead_stay s t \<Longrightarrow> dead_stay s (snd (local_broadcast e l m t))"
  using local_broadcast_out [of t e l m] by (auto simp: out_only_def elim!: ds_same)

lemma ds_launch [ds]: "dead_stay s t \<Longrightarrow> dead_stay s (snd (launch_rreq e a d x y n t))"
  unfolding launch_rreq_def Let_def by (intro ds; assumption?)

lemma ds_gen_rreq [ds]: "dead_stay s t \<Longrightarrow> dead_stay s (snd (gen_rreq e a b t))"
  unfolding gen_rreq_def by (intro ds; assumption?)

lemma ds_output: "dead_stay s (snd (output_handler e skb s))"
  unfolding output_handler_def Let_def by (intro ds; assumption?)

lemma ds_input: "dead_stay s (snd (input_handler e skb indev s))"
proof -
  have "dead_stay s (snd (insert_task e ty skb t))" if "dead_stay s t" for ty t
    using that by (auto simp: insert_task_def create_task_def kmalloc_def Let_def queue_aodv_task_def emit_def kfree_def fault_def dead_stay_def
        split: option.split)
  then show ?thesis
    by (simp add: input_handler_def packet_in_def valid_aodv_packet_def Let_def gone.refl ds_ops(1) [OF gone.refl] ds_same [OF gone.refl])
qed

lemma ds_event: "aodv_event e s t \<Longrightarrow> dead_stay s t"
proof (induction rule: aodv_event.induct)
  case (event_queue entry)
  show ?case by (rule ds_same [OF gone.refl]) (simp_all add: netfilter_receive_def ipq_enqueue_def Let_def emit_def)
next
  case event_timer
  have "k_live (signal_loop e now n s) = k_live s" for now n
    by (induction n arbitrary: s) (simp_all add: first_timer_due_def case_prod_beta insert_task_from_timer_def queue_aodv_task_def split: option.split)
  then show ?case
    unfolding timer_queue_signal_def by (intro ds_ops ds_same [OF gone.refl]) (simp_all add: signal_loop_fields del: signal_loop.simps)
next
  case (event_down event dev)
  show ?case by (rule ds_same [OF gone.refl]) (simp_all add: ipq_receive_event_def ipq_dev_drop_eq)
qed (rule ds_input ds_output ds_same [OF gone.refl]; simp)+

section \<open>The queue beside the module\<close>

text \<open>A run as in \<open>aodv_system\<close>, with the queue q of the code: it is initialised when the module is loaded, a turn of the thread takes a
  task and frees it, and what an event queues is linked in, in order. The flag tells whether the last task that
  was taken left others behind, so that the \<open>next\<close> of the task that is now the oldest leads to it.\<close>

inductive queue_run :: "kenv \<Rightarrow> kthread \<times> aodv_state \<Rightarrow> kthread \<times> aodv_state \<Rightarrow> task tqueue \<Rightarrow> bool \<Rightarrow> bool" for e c where
  run_loaded: "a_tasks (snd c) = [] \<Longrightarrow> queue_run e c c (init_task_queue q) False"
| run_take: "queue_run e c (th, s) q b \<Longrightarrow> th_place th = Working \<Longrightarrow> tq_deq q = Some (x, q') \<Longrightarrow>
    queue_run e c (aodv_thread e (th, s)) q' (1 < length (a_tasks s))"
| run_pass: "queue_run e c (th, s) q b \<Longrightarrow> th_place th \<noteq> Working \<Longrightarrow> queue_run e c (aodv_thread e (th, s)) q b"
| run_event: "queue_run e c (th, s) q b \<Longrightarrow> aodv_event e s t \<Longrightarrow> a_tasks t = a_tasks s @ new \<Longrightarrow> enq_all tq_enq new q = Some q' \<Longrightarrow>
    queue_run e c (kicked s t th, t) q' b"
| run_kill: "queue_run e c (th, s) q b \<Longrightarrow> queue_run e c (kill th, s) q b"

definition queue_shape :: "task tqueue \<Rightarrow> bool \<Rightarrow> aodv_state \<Rightarrow> bool" where
  "queue_shape q b s = (\<exists>nx. tq_seg q (rev (a_tasks s)) nx
     \<and> (if b then a_tasks s \<noteq> [] \<and> (\<exists>x. nx = Some x \<and> tq_heap q x = None \<and> x < k_allocs s \<and> x \<notin> k_live s) else nx = None))"

lemma shape_start: "a_tasks s = [] \<Longrightarrow> queue_shape (init_task_queue q) False s"
  by (simp add: queue_shape_def tq_seg_def init_task_queue_def)

lemma tq_enq_heap: "tq_enq t q = Some q' \<Longrightarrow> tq_heap q x = None \<Longrightarrow> x \<noteq> fst t \<Longrightarrow> tq_heap q' x = None"
  by (auto simp: tq_enq_def queue_entry_def set_prev_def Let_def split: option.splits if_splits bind_splits)

lemma enq_all_seg:
  assumes "tq_seg q (rev ts) nx" "distinct (map fst (ts @ new))"
  shows "\<exists>q'. enq_all tq_enq new q = Some q' \<and> tq_seg q' (rev (ts @ new)) (if ts = [] \<and> new \<noteq> [] then None else nx)
    \<and> (\<forall>x. tq_heap q x = None \<longrightarrow> x \<notin> fst ` set new \<longrightarrow> tq_heap q' x = None)"
  using assms
proof (induction new arbitrary: q ts nx)
  case (Cons t new)
  obtain q1 where q1: "tq_enq t q = Some q1" "tq_seg q1 (rev (ts @ [t])) (if ts = [] then None else nx)"
    using tq_enq_seg [OF Cons.prems(1), of t] Cons.prems(2) by (auto simp: nl_addrs_def)
  from Cons.IH [OF q1(2)] Cons.prems(2) obtain q' where q': "enq_all tq_enq new q1 = Some q'"
    "tq_seg q' (rev ((ts @ [t]) @ new)) (if ts = [] then None else nx)"
    "\<forall>x. tq_heap q1 x = None \<longrightarrow> x \<notin> fst ` set new \<longrightarrow> tq_heap q' x = None" by auto
  then show ?case using q1(1) tq_enq_heap [OF q1(1)] by auto
qed auto

lemma event_tasks: "aodv_event e s t \<Longrightarrow> \<exists>new. a_tasks t = a_tasks s @ new"
proof (induction rule: aodv_event.induct)
  case (event_in indev skb)
  have "\<exists>new. a_tasks (snd (insert_task e ty skb u)) = a_tasks s @ new" if "a_tasks u = a_tasks s" for ty u
    using that by (simp add: insert_task_def create_task_def kmalloc_def Let_def queue_aodv_task_def emit_def kfree_def fault_def split: option.split)
  note this [of "s\<lparr>aodv_overhead := aodv_overhead s + 1\<rparr>", simplified] this [of s, simplified]
  then show ?case by (simp add: input_handler_def packet_in_def valid_aodv_packet_def Let_def fault_def)
next
  case (event_out skb)
  have "evolves e s (snd (output_handler e skb s))" by (rule ev_output)
  then show ?case by (simp add: evolves_def same_globals_def)
next
  case event_timer
  then show ?case
    using signal_loop_moves [of s "Suc (length (a_timers s))" e "getcurrtime s"] by (simp add: timer_queue_signal_def del: signal_loop.simps)
qed (simp_all add: netfilter_receive_def ipq_enqueue_def Let_def emit_def ipq_receive_event_def ipq_dev_drop_eq)

lemma task_addrs_owned:
  assumes "heap_owned a_owned ok [] s"
  shows "distinct (map fst (a_tasks s))" "fst ` set (a_tasks s) \<subseteq> k_live s"
proof -
  have d: "distinct (task_blocks (map (apsnd data_block) ts)) \<Longrightarrow> distinct (map fst ts)"
    and i: "fst ` set ts \<subseteq> set (task_blocks (map (apsnd data_block) ts))" for ts :: "task nodes"
    by (induction ts) (auto simp: task_blocks_def split: option.splits)
  have "distinct (task_blocks (map (apsnd data_block) (a_tasks s)))" "set (task_blocks (map (apsnd data_block) (a_tasks s))) \<subseteq> k_live s"
    using assms by (auto simp: heap_owned_def a_owned_def)
  then show "distinct (map fst (a_tasks s))" "fst ` set (a_tasks s) \<subseteq> k_live s" using d i by blast+
qed

lemma queue_run_shape:
  assumes "no_oom e" "heap_owned a_owned (a_ok Settled) [] (snd c)" "queue_run e c d q b"
  shows "aodv_system e c d \<and> heap_owned a_owned (a_ok Settled) [] (snd d) \<and> queue_shape q b (snd d)"
  using assms(3)
proof induction
  case (run_loaded q)
  then show ?case using assms(2) system_refl shape_start by blast
next
  case (run_take th s q b x q')
  have sys: "aodv_system e c (aodv_thread e (th, s))" using run_take.IH system_thread by blast
  then have h: "heap_owned a_owned (a_ok Settled) [] (snd (aodv_thread e (th, s)))"
    using a_system_safe [OF assms(1)] assms(2) by (simp add: heap_safe_def)
  obtain nx where seg: "tq_seg q (rev (a_tasks s)) nx" using run_take.IH by (auto simp: queue_shape_def)
  have "queue_shape q' (1 < length (a_tasks s)) (snd (aodv_thread e (th, s)))"
  proof (cases "a_tasks s")
    case Nil
    then have "snd (aodv_thread e (th, s)) = s" "q' = q"
      using run_take.hyps seg get_entry_empty [of q nx] by (auto simp: aodv_thread_def thread_step_def get_task_def tq_deq_def)
    then show ?thesis using seg Nil by (auto simp: queue_shape_def tq_seg_def)
  next
    case (Cons k ts)
    let ?u = "dispatch e k (s\<lparr>a_tasks := ts\<rparr>)"
    have u: "snd (aodv_thread e (th, s)) = ?u"
      using run_take.hyps Cons by (simp add: aodv_thread_def thread_step_def get_task_def)
    have "heap_owned a_owned (a_ok Settled) [] s" using run_take.IH by simp
    then have "fst k < k_allocs s" using task_addrs_owned(2) [of "a_ok Settled" s] Cons by (auto simp: heap_owned_def heap_ok_def)
    moreover have "k_allocs s \<le> k_allocs ?u"
      using thread_new [OF assms(1), of s] Cons by (simp add: thread_round_def get_task_def new_routes_only_def)
    moreover have "fst k \<notin> k_live ?u" by (simp add: dispatch_def Let_def)
    moreover have "tq_heap q' (fst k) = None \<and> tq_seg q' (rev ts) (if ts = [] then None else Some (fst k))"
      using tq_deq_seg [of q "rev ts" "fst k" "snd k" nx] seg Cons run_take.hyps by auto
    ultimately show ?thesis using Cons by (auto simp: u queue_shape_def dispatch_tasks)
  qed
  then show ?case using sys h by blast
next
  case (run_pass th s q b)
  then have "snd (aodv_thread e (th, s)) = s"
    by (cases "th_place th") (auto simp: aodv_thread_def thread_step_def)
  then show ?case using run_pass.IH system_thread [of e c "(th, s)"] by simp
next
  case (run_event th s q b t new q')
  have sys: "aodv_system e c (kicked s t th, t)" using run_event.IH run_event.hyps system_event by blast
  then have h: "heap_owned a_owned (a_ok Settled) [] t"
    using a_system_safe [OF assms(1)] assms(2) by (fastforce simp: heap_safe_def)
  obtain nx where seg: "tq_seg q (rev (a_tasks s)) nx"
    and nx: "if b then a_tasks s \<noteq> [] \<and> (\<exists>x. nx = Some x \<and> tq_heap q x = None \<and> x < k_allocs s \<and> x \<notin> k_live s) else nx = None"
    using run_event.IH by (auto simp: queue_shape_def)
  obtain q2 where q2: "enq_all tq_enq new q = Some q2" "tq_seg q2 (rev (a_tasks t)) (if a_tasks s = [] \<and> new \<noteq> [] then None else nx)"
    "\<forall>x. tq_heap q x = None \<longrightarrow> x \<notin> fst ` set new \<longrightarrow> tq_heap q2 x = None"
    using enq_all_seg [OF seg, of new] task_addrs_owned(1) [OF h] run_event.hyps(3) by auto
  have "dead_stay s t" using ds_event [OF run_event.hyps(2)] .
  then have x: "x < k_allocs t \<and> x \<notin> k_live t \<and> x \<notin> fst ` set new" if "x < k_allocs s" "x \<notin> k_live s" for x
  proof -
    have "fst ` set new \<subseteq> k_live t" using task_addrs_owned(2) [OF h] run_event.hyps(3) by auto
    moreover have "x < k_allocs t" "x \<notin> k_live t" using that \<open>dead_stay s t\<close> by (auto simp: dead_stay_def)
    ultimately show ?thesis by blast
  qed
  have "queue_shape q' b t"
    using q2 nx x run_event.hyps(3,4) by (cases b) (auto simp: queue_shape_def)
  then show ?case using sys h by simp
next
  case (run_kill th s q b)
  then show ?case using system_kill by auto
qed

text \<open>Every run of the module has its queue.\<close>

lemma queue_run_exists:
  assumes "no_oom e" "heap_owned a_owned (a_ok Settled) [] (snd c)" "a_tasks (snd c) = []" "aodv_system e c d"
  shows "\<exists>q b. queue_run e c d q b"
  using assms(4)
proof induction
  case system_refl
  then show ?case using run_loaded [of c] assms(3) by blast
next
  case (system_thread d)
  obtain th s where d: "d = (th, s)" by (cases d)
  obtain q b where q: "queue_run e c (th, s) q b" using system_thread.IH d by blast
  then obtain nx where seg: "tq_seg q (rev (a_tasks s)) nx" using queue_run_shape [OF assms(1,2)] by (fastforce simp: queue_shape_def)
  have "\<exists>x q'. tq_deq q = Some (x, q')"
  proof (cases "a_tasks s")
    case Nil
    then show ?thesis using get_entry_empty [of q nx] seg by (simp add: tq_deq_def)
  next
    case (Cons k ts)
    then show ?thesis using tq_deq_seg [of q "rev ts" "fst k" "snd k" nx] seg by auto
  qed
  then show ?case using q d run_take run_pass by (cases "th_place th = Working") blast+
next
  case (system_event th s t)
  obtain q b where q: "queue_run e c (th, s) q b" using system_event.IH by blast
  then obtain nx where seg: "tq_seg q (rev (a_tasks s)) nx" and sys: "aodv_system e c (th, s)"
    using queue_run_shape [OF assms(1,2)] by (fastforce simp: queue_shape_def)
  obtain new where new: "a_tasks t = a_tasks s @ new" using event_tasks [OF system_event.hyps(2)] by blast
  have "aodv_system e c (kicked s t th, t)" using sys system_event.hyps(2) by (rule aodv_system.system_event)
  then have h: "heap_owned a_owned (a_ok Settled) [] t"
    using a_system_safe [OF assms(1)] assms(2) by (fastforce simp: heap_safe_def)
  obtain q' where "enq_all tq_enq new q = Some q'" using enq_all_seg [OF seg, of new] task_addrs_owned(1) [OF h] new by auto
  then show ?case using run_event [OF q system_event.hyps(2) new] by blast
next
  case (system_kill th s)
  then show ?case using run_kill by blast
qed

text \<open>What \<open>cleanup_task_queue\<close> does at the end.\<close>

lemma cleanup_shape:
  assumes "queue_shape q b s"
  shows "tq_fifo q (a_tasks s) \<and> (b \<longrightarrow> a_tasks s \<noteq> [])
    \<and> (case cleanup_task_queue q of None \<Rightarrow> b | Some q' \<Rightarrow> \<not> b \<and> (\<forall>a \<in> fst ` set (a_tasks s). tq_heap q' a = None))"
proof -
  obtain nx where seg: "tq_seg q (rev (a_tasks s)) nx"
    and nx: "if b then a_tasks s \<noteq> [] \<and> (\<exists>x. nx = Some x \<and> tq_heap q x = None \<and> x < k_allocs s \<and> x \<notin> k_live s) else nx = None"
    using assms by (auto simp: queue_shape_def)
  show ?thesis
    using seg nx by (subst cleanup_seg [OF seg], subst cleanup_loop.simps)
      (auto simp: tq_fifo_def tq_rep_def nl_addrs_def split: if_splits)
qed

end
