(* ===== verification/CacheSafe.thy ===== *)
theory CacheSafe
  imports Lifecycle CacheReach
begin

text \<open>
  Who owns which block of memory in the caching module, and that its operations respect it: every block is in one
  table, one queue or the task being handled, and only there, and it is live. \<open>c_heap H s\<close> says so, with H the blocks
  the running code holds; \<open>c_safe\<close> says that an operation keeps it and does nothing undefined. What
  the module reaches from loading is then free of use after free, double free and NULL pointers, as long as
  the kernel has memory and no file reply carries more than eight fragments.
\<close>

section \<open>Ownership\<close>

definition c_owned :: "c_state \<Rightarrow> addr list" where
  "c_owned s = nl_addrs (ctable s) @ nl_addrs (crlist s) @ nl_addrs (rinfo s) @ nl_addrs (extable s)
     @ nl_addrs (c_floods s) @ nl_addrs (c_timers s) @ task_blocks (map (apsnd c_data_block) (c_tasks s))"

definition reply_fits :: "kenv \<Rightarrow> u8 list \<Rightarrow> bool" where
  "reply_fits e bs = (unat (ntohl e (ucast (fp_frag_count (bytes_fileRep (ke_big_endian e) bs)))) \<le> 8)"

text \<open>A task from the network carries its message, a task from the timer none, and of a file reply everything it counts has been
  copied.\<close>

definition task_ok :: "kenv \<Rightarrow> ctask \<Rightarrow> bool" where
  "task_ok e k = (case ck_data k of
     None \<Rightarrow> ck_type k \<in> {8, 9, 10}
   | Some (b, bs) \<Rightarrow> ck_type k \<in> {1..7} \<and> (ck_type k = 2 \<longrightarrow> reply_fits e bs))"

definition replies_stored :: "fileRepInfo nodes \<Rightarrow> bool" where
  "replies_stored rs = (\<forall>r \<in> set (nl_vals rs). unat (ri_frag_count r) \<le> length (ri_map r))"

definition c_queues_ok :: "kenv \<Rightarrow> c_state \<Rightarrow> bool" where
  "c_queues_ok e s = (g_sock s \<noteq> None \<and> (\<forall>k \<in> set (nl_vals (c_tasks s)). task_ok e k)
     \<and> (\<forall>k \<in> set (nl_vals (c_timers s)). task_ok e k \<and> ck_data k = None) \<and> replies_stored (rinfo s))"

text \<open>With H the blocks the running code holds.\<close>

abbreviation (input) c_heap :: "kenv \<Rightarrow> addr list \<Rightarrow> c_state \<Rightarrow> bool" where
  "c_heap e \<equiv> heap_owned c_owned (c_queues_ok e)"

abbreviation (input) c_safe :: "kenv \<Rightarrow> c_state \<Rightarrow> c_state \<Rightarrow> bool" where
  "c_safe e \<equiv> heap_safe c_owned (c_queues_ok e)"

lemma c_state_fields:
  fixes s t :: c_state
  assumes "kstate.more t = kstate.more s"
  shows "c_tasks t = c_tasks s" "g_sock t = g_sock s" "c_my_ip t = c_my_ip s"
  using assms by (cases s; cases t; simp)+

named_theorems sv "rules for c_safe"

interpretation cs: ownership c_owned "c_queues_ok e" for e
proof unfold_locales
  fix s t :: c_state
  assume m: "kstate.more t = kstate.more s"
  show "c_owned t = c_owned s" using c_state_more [OF m] c_state_fields [OF m] by (simp add: c_owned_def)
  show "c_queues_ok e s \<Longrightarrow> c_queues_ok e t" using c_state_more [OF m] c_state_fields [OF m] by (simp add: c_queues_ok_def)
qed

lemmas cs_rules [sv] = cs.heap.rules

section \<open>Memory, timers and sending\<close>

lemmas c_safe_defs = c_owned_def c_queues_ok_def

lemma sv_data:
  "c_owned t = c_owned s \<Longrightarrow> k_live t = k_live s \<Longrightarrow> k_allocs t = k_allocs s \<Longrightarrow> k_fault t = k_fault s
   \<Longrightarrow> g_sock t = g_sock s \<Longrightarrow> c_tasks t = c_tasks s \<Longrightarrow> c_timers t = c_timers s \<Longrightarrow> (replies_stored (rinfo s) \<Longrightarrow> replies_stored (rinfo t))
   \<Longrightarrow> c_safe e s t"
  by (rule cs.safe_same) (simp_all add: c_queues_ok_def)

lemmas sv_emit = cs.safe_emit
lemmas sv_kmalloc = cs.safe_kmalloc

lemma sv_arm: "c_safe e s (c_update_timer_queue e' s)"
  by (rule sv_data) (simp_all add: c_update_timer_queue_def arm_timer_def emit_def Let_def c_owned_def split: list.split)

lemma sv_insert_timer:
  assumes "uint ty \<in> {8, 9, 10}"
  shows "c_safe e s (snd (c_insert_timer e' ty d ip f g s))"
proof (cases "ke_kmalloc_ok e' (k_allocs s)")
  case True
  let ?t = "snd (c_insert_timer e' ty d ip f g s)"
  obtain x where x: "?t = s\<lparr>k_allocs := Suc (k_allocs s), k_live := insert (k_allocs s) (k_live s),
      c_timers := link_timer e' ck_time (k_allocs s, x) (c_timers s)\<rparr>" "ck_data x = None" "task_ok e x"
    using assms True by (simp add: c_insert_timer_def c_create_task_def kmalloc_def c_queue_timer_def c_new_task_def task_ok_def)
  have "set (nl_vals (c_timers ?t)) = insert x (set (nl_vals (c_timers s)))"
    using arg_cong [where f = set_mset, OF mset_link_timer [of e' ck_time "(k_allocs s, x)" "c_timers s"]]
    by (simp add: x(1) nl_vals_def)
  then have "c_queues_ok e s \<Longrightarrow> c_queues_ok e ?t" using x by (auto simp: c_queues_ok_def)
  then show ?thesis
    by (intro cs.safe_alloc [where M = "{#k_allocs s#}"])
      (simp_all add: x(1) c_owned_def mset_addrs mset_link_timer)
next
  case False
  then show ?thesis
    by (intro cs.safe_same) (simp_all add: c_insert_timer_def c_create_task_def kmalloc_def c_safe_defs)
qed

lemma c_safe_stored: "(replies_stored (rinfo s) \<Longrightarrow> c_safe e s t) \<Longrightarrow> c_safe e s t"
  unfolding heap_safe_def heap_owned_def c_queues_ok_def by blast

lemma c_safe_sock: "(g_sock s \<noteq> None \<Longrightarrow> c_safe e s t) \<Longrightarrow> c_safe e s t"
  unfolding heap_safe_def heap_owned_def c_queues_ok_def by blast

lemma sv_send:
  "c_safe e s (snd (c_local_broadcast e' ttl d s))" "c_safe e s (snd (c_send_message e' ip ttl d s))"
proof -
  have 2: "c_safe e s (emit x (emit y s))" for x y by (rule cs.heap.trans [OF sv_emit sv_emit])
  show "c_safe e s (snd (c_local_broadcast e' ttl d s))"
    by (rule c_safe_sock) (auto simp: c_local_broadcast_def Let_def cs.heap.refl sv_emit 2)
  show "c_safe e s (snd (c_send_message e' ip ttl d s))"
    by (rule c_safe_sock) (auto simp: c_send_message_def Let_def cs.heap.refl sv_emit 2)
qed

lemmas sv_basic [sv] = sv_emit [THEN cs.heap.trans [rotated]] sv_kmalloc [THEN cs.heap.trans [rotated]]
  sv_arm [THEN cs.heap.trans [rotated]] sv_insert_timer [THEN cs.heap.trans [rotated]]
  sv_send [THEN cs.heap.trans [rotated]]

section \<open>The tables\<close>

lemma sv_update_ref: "c_safe e s (snd (update_ref f g s))"
  by (rule sv_data) (simp_all add: update_ref_def c_owned_def split: option.split)

lemma sv_creq_upd: "p \<noteq> None \<Longrightarrow> c_safe e s (creq_upd p h s)"
  by (rule sv_data) (auto simp: creq_upd_def c_owned_def)

lemma sv_rinfo:
  assumes "nl_addrs ns = nl_addrs (rinfo s)" "replies_stored (rinfo s) \<Longrightarrow> replies_stored ns"
  shows "c_safe e s (s\<lparr>rinfo := ns\<rparr>)"
  by (rule sv_data) (use assms in \<open>simp_all add: c_owned_def\<close>)

lemma sv_extable: "nl_addrs ns = nl_addrs (extable s) \<Longrightarrow> c_safe e s (s\<lparr>extable := ns\<rparr>)"
  by (rule sv_data) (simp_all add: c_owned_def)

lemma sv_create_creq: "no_oom e' \<Longrightarrow> c_safe e s (snd (create_creq e' f g s))"
  by (rule cs.safe_alloc [where M = "{#k_allocs s#}"]) (simp_all add: create_creq_cases no_oom_def c_safe_defs)

lemma sv_create_cache: "no_oom e' \<Longrightarrow> c_safe e s (snd (create_cache e' f g l s))"
  by (rule cs.safe_alloc [where M = "{#k_allocs s#}"]) (simp_all add: create_cache_cases no_oom_def c_safe_defs)

lemma sv_create_extable: "no_oom e' \<Longrightarrow> c_safe e s (snd (create_extable e' m s))"
  by (rule cs.safe_alloc [where M = "{#k_allocs s#}"])
    (simp_all add: create_extable_def insert_extable_def kmalloc_no_oom c_safe_defs)

lemma sv_insert_flood: "no_oom e' \<Longrightarrow> c_safe e s (snd (c_insert_flood_id e' a b i l s))"
  by (rule cs.safe_alloc [where M = "{#k_allocs s#}"])
    (simp_all add: c_insert_flood_id_def kmalloc_no_oom c_safe_defs)

lemma stored_Cons [simp]:
  "replies_stored [] = True"
  "replies_stored (n # ns) = (unat (ri_frag_count (snd n)) \<le> length (ri_map (snd n)) \<and> replies_stored ns)"
  by (simp_all add: replies_stored_def)

lemma stored_del [simp]: "replies_stored ns \<Longrightarrow> replies_stored (nl_del a ns)"
  by (induction ns) auto

lemma stored_expire [simp]:
  "replies_stored (map (apsnd (\<lambda>r. if P r then r\<lparr>ri_expired := x\<rparr> else r)) ns) = replies_stored ns"
  by (induction ns) auto

lemma sv_create_rinfo:
  assumes "no_oom e" "reply_fits e bs"
  shows "c_safe e s (snd (create_rinfo e bs s))"
proof -
  define w :: u32 where "w = ntohl e (ucast (fp_frag_count (bytes_fileRep (ke_big_endian e) bs)))"
  have w: "unat w \<le> 8" using assms(2) by (simp add: reply_fits_def w_def)
  then have n: "nat (sint w) = unat w" by (intro small_count) simp
  show ?thesis
    by (rule cs.safe_alloc [where M = "{#k_allocs s#}"])
      (use w in \<open>simp_all add: create_rinfo_def insert_rinfo_def kmalloc_no_oom [OF assms(1)] c_safe_defs Let_def w_def [symmetric] n\<close>)
qed

text \<open>Removing a node of the table.\<close>

lemma sv_remove_cache:
  assumes "a \<in> set (nl_addrs (ctable s))"
  shows "c_safe e s (remove_cache a s)"
proof (rule cs.safe_frees)
  show "frees [a] s (remove_cache a s)" by (simp add: frees_def remove_cache_def)
  assume "distinct (c_owned s)"
  then show "mset (c_owned s) = mset [a] + mset (c_owned (remove_cache a s))"
    using mset_nl_del [OF _ assms] by (simp add: c_owned_def remove_cache_def)
qed (simp_all add: remove_cache_def c_queues_ok_def)

lemma sv_remove_extable:
  assumes "a \<in> set (nl_addrs (extable s))"
  shows "c_safe e s (remove_extable a s)"
proof (rule cs.safe_frees)
  show "frees [a] s (remove_extable a s)" by (simp add: frees_def remove_extable_def)
  assume "distinct (c_owned s)"
  then show "mset (c_owned s) = mset [a] + mset (c_owned (remove_extable a s))"
    using mset_nl_del [OF _ assms] by (simp add: c_owned_def remove_extable_def)
qed (simp_all add: remove_extable_def c_queues_ok_def)

lemma sv_remove_rinfo:
  assumes "a \<in> set (nl_addrs (rinfo s))"
  shows "c_safe e s (remove_rinfo a s)"
proof (rule cs.safe_frees)
  show "frees [a] s (remove_rinfo a s)" by (simp add: frees_def remove_rinfo_def)
  assume "distinct (c_owned s)"
  then show "mset (c_owned s) = mset [a] + mset (c_owned (remove_rinfo a s))"
    using mset_nl_del [OF _ assms] by (simp add: c_owned_def remove_rinfo_def)
qed (simp_all add: remove_rinfo_def c_queues_ok_def)

text \<open>The loops that remove nodes walk the table as it was, which has no node twice.\<close>

lemma c_safe_distinct: "(distinct (c_owned s) \<Longrightarrow> c_safe e s t) \<Longrightarrow> c_safe e s t"
  unfolding heap_safe_def heap_owned_def by auto

lemma sv_flush_extable_loop:
  "distinct (nl_addrs xs) \<Longrightarrow> set (nl_addrs xs) \<subseteq> set (nl_addrs (extable s)) \<Longrightarrow> c_safe e s (flush_extable_loop xs s)"
proof (induction xs s rule: flush_extable_loop.induct)
  case (2 a x xs s)
  have "extable (remove_extable a s) = nl_del a (extable s)" by (simp add: remove_extable_def)
  then show ?case
    using 2 cs.heap.trans [OF sv_remove_extable [of a s] 2(1)] by auto
qed (simp add: cs.heap.refl)

lemma sv_flush_rinfo_loop:
  "distinct (nl_addrs xs) \<Longrightarrow> set (nl_addrs xs) \<subseteq> set (nl_addrs (rinfo s)) \<Longrightarrow> c_safe e s (flush_rinfo_loop xs s)"
proof (induction xs s rule: flush_rinfo_loop.induct)
  case (2 a x xs s)
  have "rinfo (remove_rinfo a s) = nl_del a (rinfo s)" by (simp add: remove_rinfo_def)
  then show ?case
    using 2 cs.heap.trans [OF sv_remove_rinfo [of a s] 2(1)] by auto
qed (simp add: cs.heap.refl)

lemma sv_flush: "c_safe e s (flush_extable s)" "c_safe e s (flush_rinfo s)"
  by (rule c_safe_distinct, simp add: flush_extable_def c_owned_def sv_flush_extable_loop)
    (rule c_safe_distinct, simp add: flush_rinfo_def c_owned_def sv_flush_rinfo_loop)

lemma sv_flush_floods: "c_safe e s (snd (c_flush_flood_id_queue e' s))"
proof -
  obtain ks s1 n where f: "flush_flood_loop e' (getcurrtime s) (c_floods s) s = (ks, s1, n)" by (metis surj_pair)
  let ?P = "\<lambda>n. ke_time_before e' (fl_lifetime (snd n)) (getcurrtime s)"
  have ks: "ks = filter (\<lambda>n. \<not> ?P n) (c_floods s)"
    using flush_flood_live [of e' "getcurrtime s" "c_floods s" s] f by (simp add: flood_live_def)
  have s1: "frees (nl_addrs (filter ?P (c_floods s))) s s1" "k_allocs s1 = k_allocs s" "kstate.more s1 = kstate.more s"
    using flush_flood_frees [of e' "getcurrtime s" "c_floods s" s] f by simp_all
  note m = c_state_more [OF s1(3)] c_state_fields [OF s1(3)]
  have "c_safe e s (s1\<lparr>c_floods := ks\<rparr>)"
  proof (rule cs.safe_frees)
    show "frees (nl_addrs (filter ?P (c_floods s))) s (s1\<lparr>c_floods := ks\<rparr>)" using s1(1) by (simp add: frees_def)
    show "mset (c_owned s) = mset (nl_addrs (filter ?P (c_floods s))) + mset (c_owned (s1\<lparr>c_floods := ks\<rparr>))"
      using mset_filter_split [of ?P "c_floods s"] by (simp add: c_owned_def m ks)
  qed (simp_all add: s1(2) c_queues_ok_def m)
  then show ?thesis
    unfolding c_flush_flood_id_queue_def f Let_def prod.case by (intro sv) simp_all
qed

lemma sv_retrieve:
  assumes "no_oom e'"
  shows "c_safe e s (snd (retrieve_frag e' d f g s))"
proof -
  have "c_safe e s (take_in e' f g s)" for s
  proof (cases "victim (ctable s)")
    case (Some v)
    then have "v \<in> set (nl_addrs (ctable s))" by (rule victim_in) (auto intro: nl_addrs_in)
    from cs.heap.trans [OF sv_remove_cache [OF this] sv_create_cache [OF assms]]
    show ?thesis using Some by (simp add: take_in_def sv_create_cache [OF assms])
  qed (simp add: take_in_def cs.heap.refl sv_create_cache [OF assms])
  moreover have "c_safe e s (s\<lparr>cPrefetch := n\<rparr>)" for n by (rule sv_data) (simp_all add: c_owned_def)
  ultimately show ?thesis unfolding retrieve_frag_eq by (auto intro: cs.heap.refl cs.heap.trans)
qed

lemmas sv_tables [sv] = sv_update_ref [THEN cs.heap.trans [rotated]] sv_flush [THEN cs.heap.trans [rotated]]
  sv_retrieve [THEN cs.heap.trans [rotated]] sv_create_extable [THEN cs.heap.trans [rotated]]
  sv_flush_floods [THEN cs.heap.trans [rotated]] sv_create_rinfo [THEN cs.heap.trans [rotated]]

section \<open>The handlers\<close>

lemma sv_generators [sv]:
  assumes "c_safe e s t"
  shows "c_safe e s (snd (gen_exchReq e' a b f g t))" "c_safe e s (snd (gen_exchRep e' a b n f g c t))"
    "c_safe e s (snd (gen_addCache e' a b f g t))" "c_safe e s (snd (gen_frreq e' a b f g t))"
    "c_safe e s (snd (gen_frreq_by_task e' k m t))" "c_safe e s (snd (gen_flrep e' a b f d t))"
  using assms
  unfolding gen_exchReq_def gen_exchRep_def gen_addCache_def gen_frreq_def gen_frreq_by_task_def gen_flrep_def Let_def
  by (intro sv; (assumption | simp)?)+

lemma sv_counts [sv]:
  "c_safe e s t \<Longrightarrow> p \<noteq> None \<Longrightarrow> c_safe e s (snd (update_count p t))"
  "c_safe e s t \<Longrightarrow> c_safe e s (snd (flush_count p t))"
  by (auto simp: update_count_def flush_count_def intro: cs.heap.trans [OF _ sv_creq_upd])

lemma sv_count_request [sv]:
  assumes "c_safe e s t" "\<And>u. c_safe e s u \<Longrightarrow> c_safe e s (act u)" "no_oom e'"
  shows "c_safe e s (count_request e' act d f g t)"
proof (cases "find_creq f g t")
  case None
  have "c_safe e s (snd (create_creq e' f g t))" by (rule cs.heap.trans [OF assms(1) sv_create_creq [OF assms(3)]])
  moreover have "fst (create_creq e' f g t) \<noteq> None" using assms(3) by (simp add: create_creq_cases no_oom_def)
  ultimately show ?thesis using None by (simp add: count_request_def Let_def case_prod_beta sv)
next
  case (Some p)
  then have "count_request e' act d f g t =
      (if reachThreshold (Some p) t
       then let s1 = snd (flush_count (map_option fst (Some p)) t);
                   s2 = act s1;
                   s3 = snd (gen_exchReq e' (c_my_ip s2) d f g s2);
                   s4 = snd (c_insert_timer e' 9 WAIT_EXCH_REP_TIME d f g s3)
               in c_update_timer_queue e' s4
       else snd (update_count (map_option fst (Some p)) t))"
    by (simp add: count_request_def Let_def)
  then show ?thesis using assms unfolding Let_def
    by (simp only:) (intro sv assms(2); (assumption | simp)?)
qed

lemma sv_agent_loop: "c_safe e s t \<Longrightarrow> c_safe e s (snd (agent_loop n f g ns best t))"
proof (induction n arbitrary: ns best t)
  case (Suc n)
  have "c_safe e s (t\<lparr>extable := nl_upd a h (extable t)\<rparr>)" for a h
    by (rule cs.heap.trans [OF Suc.prems sv_extable]) simp
  then show ?case using Suc by (auto split: option.split)
qed simp

lemma nodes_after_in: "x \<in> set (nodes_after a ns) \<Longrightarrow> x \<in> set ns"
proof -
  assume "x \<in> set (nodes_after a ns)"
  then have "x \<in> set (nl_from a ns)" unfolding nodes_after_def by (cases "nl_from a ns") simp_all
  then show "x \<in> set ns" unfolding nl_from_def by (auto dest: set_dropWhileD)
qed

lemma nearest_in: "nearest_loop n f ns best \<in> insert best (set ns)"
proof (induction n arbitrary: ns best)
  case (Suc n)
  show ?case
  proof (cases "find_rinfo ns f")
    case (Some p)
    obtain a r where p: "p = (a, r)" by (cases p)
    then have "(a, r) \<in> set ns" using Some nl_find_Some [of "live_reply f" ns a r] by (simp add: find_rinfo_def)
    moreover define best' where "best' = (if ri_dist r < ri_dist (snd best) then (a, r) else best)"
    moreover define c where "c = nearest_loop n f (nodes_after a ns) best'"
    moreover have "c \<in> insert best' (set (nodes_after a ns))" unfolding c_def by (rule Suc)
    ultimately have "c \<in> insert best (set ns)" using nodes_after_in [of c a ns] by (auto split: if_splits)
    then show ?thesis by (simp add: Some p c_def best'_def)
  qed simp
qed simp

text \<open>The fetch reads only what was copied.\<close>

lemma sv_fetch_loop': "c_safe e s (snd (fetch_loop n f buf picks en s))"
proof (induction n arbitrary: buf picks en s)
  case (Suc n)
  show ?case
  proof (cases "KVAL s - int (length buf) > 0 \<and> find_rinfo (rinfo s) f \<noteq> None")
    case True
    then obtain a r where p: "find_rinfo (rinfo s) f = Some (a, r)" by auto
    obtain b m where near: "nearest_loop (length (rinfo s)) f (nodes_after a (rinfo s)) (a, r) = (b, m)" by fastforce
    obtain buf1 picks1 en1 where pick: "pick_loop (KVAL s) (ri_dst_ip m) (ri_dist m) (take (unat (ri_frag_count m)) (ri_map m)) buf picks en
        = (buf1, picks1, en1)" by (metis prod_cases3)
    have "(a, r) \<in> set (rinfo s)" using p nl_find_Some [of "live_reply f" "rinfo s" a r] by (simp add: find_rinfo_def)
    then have bm: "(b, m) \<in> set (rinfo s)"
      using nearest_in [of "length (rinfo s)" f "nodes_after a (rinfo s)" "(a, r)"] near nodes_after_in by fastforce
    let ?u = "s\<lparr>rinfo := nl_upd b (\<lambda>r. r\<lparr>ri_expired := 1\<rparr>) (rinfo s)\<rparr>"
    have "replies_stored (rinfo s) \<Longrightarrow> replies_stored (rinfo ?u)"
      by (auto simp: replies_stored_def nl_vals_def nl_upd_def)
    then have u: "c_safe e s ?u" by (intro sv_rinfo) simp_all
    show ?thesis
    proof (rule c_safe_stored)
      assume "replies_stored (rinfo s)"
      then have "\<not> length (ri_map m) < unat (ri_frag_count m)" using bm by (force simp: replies_stored_def nl_vals_def)
      then have "fetch_loop (Suc n) f buf picks en s = fetch_loop n f buf1 picks1 en1 ?u"
        using True p near pick by simp
      then show "c_safe e s (snd (fetch_loop (Suc n) f buf picks en s))" using cs.heap.trans [OF u Suc.IH] by simp
    qed
  next
    case False
    then have "snd (fetch_loop (Suc n) f buf picks en s) = s" by (auto split: option.split)
    then show ?thesis by (simp add: cs.heap.refl)
  qed
qed (simp add: cs.heap.refl)

lemma sv_fetch_loop: "c_safe e s t \<Longrightarrow> c_safe e s (snd (fetch_loop n f buf picks en t))"
  by (rule cs.heap.trans [OF _ sv_fetch_loop'])

lemma sv_request_frag [sv]: "no_oom e' \<Longrightarrow> c_safe e s t \<Longrightarrow> c_safe e s (request_frag e' f p t)"
  unfolding request_frag_def Let_def by (cases p) (simp only: prod.case, intro sv; assumption?)

lemma sv_updates [sv]:
  "c_safe e s t \<Longrightarrow> c_safe e s (expire_replies f t)"
  "c_safe e s t \<Longrightarrow> c_safe e s (t\<lparr>cEnergy := a, cSuccess := b\<rparr>)"
  by (rule cs.heap.trans [OF _ sv_data]; simp add: expire_replies_def c_owned_def)+

text \<open>The handlers of messages, on a task that carries one.\<close>

lemma sv_message_handlers:
  assumes "no_oom e" "ck_data k = Some (b, bs)"
  shows "c_safe e s (snd (recv_exreq e k s))" "c_safe e s (snd (recv_exrep e k s))"
    "c_safe e s (snd (recv_addcache e k s))" "c_safe e s (snd (recv_frreq_ori e k s))"
    "c_safe e s (snd (recv_frreq_fwd e k s))"
    "reply_fits e bs \<Longrightarrow> c_safe e s (snd (recv_flrep e k s))"
  unfolding recv_exreq_def recv_exrep_def recv_addcache_def recv_frreq_ori_def recv_frreq_fwd_def recv_flrep_def
    assms(2) option.case prod.case Let_def
  by (intro sv assms(1); (assumption | simp)?)+

lemma sv_recv_flreq:
  assumes "no_oom e" "ck_data k = Some (b, bs)"
  shows "c_safe e s (snd (recv_flreq e k s))"
  unfolding recv_flreq_def forward_flreq_def assms(2) option.case prod.case Let_def
  by (intro sv sv_insert_flood assms(1))

lemma sv_timer_handlers:
  assumes "no_oom e"
  shows "c_safe e s (snd (process_flrep e k s))" "c_safe e s (snd (select_agent e k s))"
proof -
  show "c_safe e s (snd (process_flrep e k s))"
    unfolding process_flrep_def Let_def
    by (rule cs.heap.call_rule(2), intro sv cs.heap.fold_rule sv_fetch_loop assms)
      ((assumption | intro sv cs.heap.data_rule cs.heap.fold_rule assms)+)
  show "c_safe e s (snd (select_agent e k s))"
    unfolding select_agent_def Let_def by (intro sv sv_agent_loop assms; assumption?)
qed

section \<open>The thread\<close>

text \<open>The blocks of the task being handled are held by the thread, which frees them in the end.\<close>

definition task_held :: "addr \<times> ctask \<Rightarrow> addr list" where
  "task_held k = (case c_data_block (snd k) of None \<Rightarrow> [fst k] | Some b \<Rightarrow> [b, fst k])"

lemma c_heap_get:
  assumes "c_heap e H s" "c_tasks s = k # ks"
  shows "c_heap e (task_held k @ H) (s\<lparr>c_tasks := ks\<rparr>)" "task_ok e (snd k)"
proof -
  have "mset ((task_held k @ H) @ c_owned (s\<lparr>c_tasks := ks\<rparr>)) = mset (H @ c_owned s)"
    by (simp add: c_owned_def task_blocks_def assms(2) task_held_def split: option.split)
  from same_mset [OF this] show "c_heap e (task_held k @ H) (s\<lparr>c_tasks := ks\<rparr>)"
    using assms by (simp add: heap_owned_def heap_ok_def c_queues_ok_def)
  show "task_ok e (snd k)" using assms by (simp add: heap_owned_def c_queues_ok_def)
qed

lemma dispatch_safe:
  assumes "no_oom e" "c_heap e (task_held (a, k) @ H) s" "task_ok e k"
  shows "c_heap e H (c_dispatch e (a, k) s)"
proof (cases "ck_data k")
  case None
  then have type: "ck_type k \<in> {8, 9, 10}" and held: "c_heap e (a # H) s"
    using assms(2,3) by (simp_all add: task_ok_def task_held_def c_data_block_def)
  have "c_safe e s (snd (process_flrep e k s))" "c_safe e s (snd (select_agent e k s))"
    "c_safe e s (flush_extable (flush_rinfo (snd (c_flush_flood_id_queue e s))))"
    using sv_timer_handlers [OF assms(1)] by (auto intro!: sv)
  then show ?thesis using type held by (auto simp: c_dispatch_def heap_safe_def intro: cs.heap_kfree)
next
  case (Some d)
  obtain b bs where d: "d = (b, bs)" by (cases d)
  have type: "ck_type k \<in> {1..7}" "ck_type k = 2 \<longrightarrow> reply_fits e bs" and held: "c_heap e (b # a # H) s"
    using assms(2,3) Some by (simp_all add: task_ok_def task_held_def c_data_block_def d)
  have fin: "c_heap e H (kfree a (kfree b t))" if "c_safe e s t" for t
    using that held by (auto simp: heap_safe_def intro: cs.heap_kfree)
  have "ck_type k = 1 \<or> ck_type k = 2 \<or> ck_type k = 3 \<or> ck_type k = 4 \<or> ck_type k = 5 \<or> ck_type k = 6 \<or> ck_type k = 7"
    using type(1) by auto
  then show ?thesis
    using fin sv_message_handlers [OF assms(1) Some [unfolded d]] sv_recv_flreq [OF assms(1) Some [unfolded d]] type(2) Some
    by (elim disjE) (simp_all add: c_dispatch_def c_data_block_def kfree_opt_def d)
qed

lemma thread_safe: "no_oom e \<Longrightarrow> c_safe e s (c_thread_round e s)"
proof (cases "c_tasks s")
  case (Cons k ks)
  assume "no_oom e"
  then have "c_heap e H (c_dispatch e k (s\<lparr>c_tasks := ks\<rparr>))" if "c_heap e H s" for H
    using dispatch_safe [of e "fst k" "snd k"] c_heap_get [OF that Cons] by simp
  then show ?thesis using Cons by (simp add: heap_safe_def c_thread_round_def c_get_task_def)
qed (simp add: c_thread_round_def c_get_task_def cs.heap.refl)

section \<open>Timers and packets\<close>

lemma signal_loop_safe: "c_safe e s (c_signal_loop e' now n s)"
proof (induction n arbitrary: s)
  case (Suc n)
  show ?case
  proof (cases "c_first_timer_due e' now s")
    case (Pair r s1)
    then have q: "r = None \<Longrightarrow> s1 = s"
      "\<And>a k. r = Some (a, k) \<Longrightarrow> \<exists>ts. c_timers s = (a, k) # ts \<and> s1 = s\<lparr>c_timers := ts\<rparr>"
      by (auto simp: c_first_timer_due_def take_due_def split: list.splits if_splits)
    show ?thesis
    proof (cases r)
      case None
      then show ?thesis using Pair q(1) by (simp add: cs.heap.refl)
    next
      case (Some m)
      obtain a k where m: "m = (a, k)" by (cases m)
      obtain ts where ts: "c_timers s = (a, k) # ts" "s1 = s\<lparr>c_timers := ts\<rparr>" using q(2) Some m by blast
      let ?u = "queue_task (a, k) s1"
      have "c_safe e s ?u"
      proof (rule c_safe_distinct, cases "c_queues_ok e s")
        case True
        then have k: "task_ok e k" "ck_data k = None" by (simp_all add: c_queues_ok_def ts(1))
        have "mset (c_owned ?u) = mset (c_owned s)"
          by (simp add: c_owned_def queue_task_def emit_def ts task_blocks_def c_data_block_def k(2))
        then show "c_safe e s ?u"
          by (rule cs.safe_same)
            (use True k in \<open>auto simp: queue_task_def emit_def ts c_queues_ok_def nl_vals_def\<close>)
      qed (simp add: heap_safe_def heap_owned_def)
      then show ?thesis
        using Pair Some m cs.heap.trans [OF _ Suc.IH] by (simp add: c_insert_task_from_timer_def)
    qed
  qed
qed (simp add: cs.heap.refl)

lemma timer_safe: "c_safe e s (c_timer_queue_signal e' s)"
  unfolding c_timer_queue_signal_def by (intro sv signal_loop_safe)

lemma heap_queue:
  assumes "c_heap e (task_held (a, k) @ H) s" "task_ok e k"
  shows "c_heap e H (queue_task (a, k) s)"
proof -
  have "mset (H @ c_owned (queue_task (a, k) s)) = mset ((task_held (a, k) @ H) @ c_owned s)"
    by (simp add: c_owned_def queue_task_def emit_def task_blocks_def task_held_def split: option.split)
  from same_mset [OF this] show ?thesis
    using assms by (auto simp: heap_owned_def heap_ok_def c_queues_ok_def queue_task_def emit_def nl_vals_def)
qed

text \<open>A packet the module survives: it arrives on a device with an address, and if it is a file reply, it
  announces no more than eight fragments.\<close>

definition benign :: "skbuff \<Rightarrow> netdev \<Rightarrow> bool" where
  "benign skb indev = (nd_ip_ptr indev \<noteq> None \<and> (skb_byte skb 28 = 2 \<longrightarrow> skb_byte skb 31 \<le> 8))"

lemma insert_task_safe:
  assumes "no_oom e" "type \<in> {1..7}" "type = 2 \<longrightarrow> reply_fits e (skb_bytes p 28 (sk_len p - 28))"
  shows "c_safe e s (snd (c_insert_task e type p s))"
  unfolding heap_safe_def
proof (intro allI impI)
  fix H
  assume "c_heap e H s"
  from cs.heap_kmalloc [OF cs.heap_kmalloc [OF this kmalloc_no_oom [OF assms(1)]] kmalloc_no_oom [OF assms(1)]]
  have h: "c_heap e (Suc (k_allocs s) # k_allocs s # H) (s\<lparr>k_allocs := Suc (Suc (k_allocs s)),
      k_live := insert (Suc (k_allocs s)) (insert (k_allocs s) (k_live s))\<rparr>)" by simp
  let ?k = "(c_new_task type (getcurrtime (s\<lparr>k_allocs := Suc (k_allocs s), k_live := insert (k_allocs s) (k_live s)\<rparr>)))
     \<lparr>ck_src_ip := sk_saddr p, ck_dst_ip := sk_daddr p, ck_file_id := 0, ck_frag_id := 0, ck_ttl := ucast (sk_ttl p),
      ck_data_len := sk_len p - 28, ck_data := Some (Suc (k_allocs s), skb_bytes p 28 (sk_len p - 28))\<rparr>"
  have "task_ok e ?k" using assms(2,3) by (simp add: task_ok_def c_new_task_def)
  moreover have "task_held (k_allocs s, ?k) = [Suc (k_allocs s), k_allocs s]" by (simp add: task_held_def c_data_block_def)
  moreover have "snd (c_insert_task e type p s) = queue_task (k_allocs s, ?k) (s\<lparr>k_allocs := Suc (Suc (k_allocs s)),
      k_live := insert (Suc (k_allocs s)) (insert (k_allocs s) (k_live s))\<rparr>)"
    using assms(2) by (simp add: c_insert_task_def c_create_task_def kmalloc_no_oom [OF assms(1)] c_new_task_def getcurrtime_def)
  ultimately show "c_heap e H (snd (c_insert_task e type p s))" using heap_queue [of e "k_allocs s" ?k H] h by simp
qed

lemma valid_packet_cases:
  assumes "valid_cache_packet e n ty ip c s = (True, t)"
  shows "uint ty \<in> {1..7}" "ty = 2 \<Longrightarrow> 20 \<le> n" "c_safe e s t"
  using assms by (auto simp: valid_cache_packet_def Let_def sv_data c_owned_def split: if_splits)

lemma packet_in_safe:
  assumes "no_oom e" "ke_big_endian e" "benign p d"
  shows "c_safe e s (snd (c_packet_in e p s))"
proof -
  let ?ty = "skb_byte p 28"
  obtain ok s1 where v: "valid_cache_packet e (int (sk_len p) - 28) ?ty (skb_word e p 4) (skb_byte p 31) s = (ok, s1)"
    by fastforce
  show ?thesis
  proof (cases ok)
    case False
    then have "c_safe e s s1"
      using v by (auto simp: valid_cache_packet_def Let_def sv_data c_owned_def cs.heap.refl split: if_splits)
    then show ?thesis using v False by (simp add: c_packet_in_def Let_def)
  next
    case True
    have "valid_cache_packet e (int (sk_len p) - 28) ?ty (skb_word e p 4) (skb_byte p 31) s = (True, s1)"
      using v True by simp
    note c = valid_packet_cases [OF this]
    have "reply_fits e (skb_bytes p 28 (sk_len p - 28))" if "uint ?ty = 2"
    proof -
      have "?ty = 2" using arg_cong [where f = "word_of_int :: int \<Rightarrow> u8", OF that] by simp
      then have "20 \<le> int (sk_len p) - 28" "skb_byte p 31 \<le> 8" using c(2) assms(3) by (simp_all add: benign_def)
      then have "fp_frag_count (bytes_fileRep True (skb_bytes p 28 (sk_len p - 28))) = skb_byte p 31"
        by (simp add: bytes_fileRep_def skb_bytes_def)
      then show ?thesis
        using \<open>skb_byte p 31 \<le> 8\<close> assms(2)
        by (simp add: reply_fits_def htonl_eq_ntohl [symmetric] unsigned_ucast_eq word_le_nat_alt)
          (rule order_trans [OF take_bit_nat_less_eq_self])
    qed
    then have "c_safe e s1 (snd (c_insert_task e (uint ?ty) p s1))"
      using insert_task_safe [OF assms(1) c(1)] by blast
    define q where "q = uint ?ty"
    define u where "u = snd (c_insert_task e q p s1)"
    have "c_safe e s u" unfolding u_def q_def by (rule cs.heap.trans [OF c(3) \<open>c_safe e s1 _\<close>])
    moreover have "snd (c_packet_in e p s) = u"
      using v True by (simp add: c_packet_in_def Let_def q_def [symmetric] u_def [symmetric])
    ultimately show ?thesis by simp
  qed
qed

lemma input_safe:
  assumes "no_oom e" "ke_big_endian e" "benign skb indev" "c_input_handler e fuel skb indev s = Some (v, t)"
  shows "c_safe e s t"
proof -
  have "c_safe e s t" if "olsr_in fuel skb s = Some (v, t)"
    using that by (auto simp: olsr_in_def Let_def c_owned_def cs.heap.refl split: if_splits dest!: olsr_lasts intro!: sv_data)
  moreover have "c_safe e s (snd (aodv_in e skb s))" by (rule sv_data) (simp_all add: aodv_in_def Let_def c_owned_def)
  ultimately show ?thesis
    using assms packet_in_safe [OF assms(1-3), of s]
    by (auto simp: c_input_handler_def cs.heap.refl benign_def split: if_splits)
qed

section \<open>Runs\<close>

inductive benign_run :: "kenv \<Rightarrow> c_state \<Rightarrow> c_state \<Rightarrow> bool" for e s where
  brun_refl: "benign_run e s s"
| brun_in: "benign_run e s t \<Longrightarrow> benign skb indev \<Longrightarrow> c_input_handler e fuel skb indev t = Some (v, u) \<Longrightarrow> benign_run e s u"
| brun_timer: "benign_run e s t \<Longrightarrow> benign_run e s (c_timer_queue_signal e t)"
| brun_thread: "benign_run e s t \<Longrightarrow> benign_run e s (c_thread_round e t)"
| brun_clock: "benign_run e s t \<Longrightarrow> benign_run e s (t\<lparr>k_time := now, k_jiffies := j\<rparr>)"

text \<open>These are runs of the module.\<close>

lemma benign_run_reach: "benign_run e s t \<Longrightarrow> cache_reach e s t"
  by (induction rule: benign_run.induct) (auto intro: cache_reach.intros cache_step.intros)

lemma benign_run_safe:
  assumes "no_oom e" "ke_big_endian e"
  shows "benign_run e s t \<Longrightarrow> c_safe e s t"
proof (induction rule: benign_run.induct)
  case (brun_clock t j now)
  have "c_safe e t (t\<lparr>k_time := now, k_jiffies := j\<rparr>)" by (rule sv_data) (simp_all add: c_owned_def)
  with brun_clock show ?case by (blast intro: cs.heap.trans)
qed (blast intro: cs.heap.refl cs.heap.trans input_safe [OF assms] timer_safe thread_safe [OF assms(1)])+

section \<open>Loading\<close>

text \<open>The names in the directory that are loaded without reading through a NULL pointer.\<close>

definition loadable :: "string \<Rightarrow> bool" where
  "loadable name = (length name < 10 \<longrightarrow> CHR ''%'' \<notin> set name
     \<and> (\<exists>t p u q. strtok_r name ''-'' = (Some t, p) \<and> strtok_r p ''-'' = (Some u, q)))"

lemma init_names_heap:
  assumes "no_oom e"
  shows "\<forall>n \<in> set ns. loadable n \<Longrightarrow> c_safe e s (fold (init_cache_name e) ns s)"
proof (induction ns arbitrary: s)
  case (Cons n ns)
  have "c_safe e s (init_cache_name e n s)"
    using Cons.prems by (auto simp: init_cache_name_def loadable_def cs.heap.refl sv_create_cache [OF assms] split: if_splits)
  then show ?case using Cons by (auto intro: cs.heap.trans)
qed (simp add: cs.heap.refl)

lemma init_module_heap:
  assumes "no_oom e" "names = Some ns" "\<forall>n \<in> set ns. loadable n"
    and "c_owned s = []" "heap_ok s" "\<not> k_fault s"
  shows "c_heap e [] (snd (c_init_module e (Some a) kval nval theta buf dev (Inr sk) names s))"
proof -
  define s1 where "s1 = s\<lparr>g_act := a, KVAL := kval, NVAL := nval, THRESHOLD := theta, BUF_SIZE := buf,
     cEnergy := 0, cOverhead := 0, fOverhead := 0, cSuccess := 0, cPrefetch := 0,
     rtHeader := 0, rtHello := 0, rtHello_c := 0, rtTc := 0, aodv_hello := 0, aodv_else := 0,
     c_broadcast_ip := (case inet_aton e ''255.255.255.255'' of None \<Rightarrow> 0 | Some w \<Rightarrow> w),
     c_my_ip := c_find_dev_ip dev, g_sock := Some sk, c_tasks := [], c_timers := [], c_floods := [], ctable := [],
     ct_len := 0\<rparr>"
  have e: "ctable s = []" "crlist s = []" "rinfo s = []" "extable s = []"
    using assms(4) by (simp_all add: c_owned_def nl_addrs_def)
  have h1: "c_heap e [] s1"
    using assms(5,6) by (simp add: heap_owned_def s1_def c_owned_def heap_ok_def c_queues_ok_def e task_blocks_def)
  define s2 where "s2 = fold (init_cache_name e) ns s1"
  have f: "crlist (fold (init_cache_name e) ns u) = crlist u \<and> rinfo (fold (init_cache_name e) ns u) = rinfo u
      \<and> extable (fold (init_cache_name e) ns u) = extable u" for ns u
  proof (induction ns arbitrary: u)
    case (Cons n ns)
    have "crlist (init_cache_name e n u) = crlist u \<and> rinfo (init_cache_name e n u) = rinfo u
        \<and> extable (init_cache_name e n u) = extable u"
      by (auto simp: init_cache_name_def create_cache_cases fault_def split: option.splits prod.splits)
    with Cons show ?case by simp
  qed simp
  have h2: "c_heap e [] s2"
    using h1 init_names_heap [OF assms(1,3), of s1] by (simp add: heap_safe_def s2_def)
  have s3: "init_extable (init_rinfo (init_req_list s2)) = s2"
    using f [of ns s1] e by (simp add: init_extable_def init_rinfo_def init_req_list_def s2_def s1_def)
  have "snd (c_init_module e (Some a) kval nval theta buf dev (Inr sk) names s) =
      c_update_timer_queue e (snd (c_insert_timer e 10 FLUSH_INTERVAL (c_my_ip s2) 0 0 s2))"
    using s3 assms(2) unfolding s2_def s1_def
    by (simp add: c_init_module_def init_cache_table_def c_init_flood_id_queue_def c_init_timer_queue_def Let_def)
  moreover have "c_safe e s2 (c_update_timer_queue e (snd (c_insert_timer e 10 FLUSH_INTERVAL (c_my_ip s2) 0 0 s2)))"
    by (intro sv) simp_all
  ultimately show ?thesis using h2 by (simp add: heap_safe_def)
qed

text \<open>C22. Memory safety of the caching module on the target. From loading with a socket, on a directory whose names can be
  parsed, the module reaches no state in which memory was misused, whatever packets, timers and turns of the
  thread it goes through, as long as the kernel has memory and no file reply announces more
  than eight fragments: no block is used or freed after it was freed and no NULL pointer is followed; every
  entry of the six lists and every waiting task, with its message, is one live block that nothing else owns.\<close>

theorem cache_memory_safe:
  assumes "no_oom e" "ke_big_endian e" "\<forall>n \<in> set names. loadable n"
    and "c_owned s = []" "heap_ok s" "\<not> k_fault s"
    and "benign_run e (snd (c_init_module e (Some a) kval nval theta buf dev (Inr sk) (Some names) s)) t"
  shows "\<not> k_fault t \<and> distinct (c_owned t) \<and> set (c_owned t) \<subseteq> k_live t"
proof -
  have "c_heap e [] t"
    using init_module_heap [OF assms(1) refl assms(3-6)] benign_run_safe [OF assms(1,2,7)]
    unfolding heap_safe_def by blast
  then show ?thesis by (simp add: heap_owned_def)
qed

theorem cache_memory_safe_witness:
  "\<not> k_fault (c_thread_round demo_env (c_timer_queue_signal demo_env (snd (c_init_module demo_env (Some ''on'') 3 5 3 2
     (Some wlan0) (Inr 77) (Some [''1-1'', ''4-12'']) c_unloaded))))"
proof -
  let ?s = "snd (c_init_module demo_env (Some ''on'') 3 5 3 2 (Some wlan0) (Inr 77) (Some [''1-1'', ''4-12'']) c_unloaded)"
  have "loadable ''1-1''" "loadable ''4-12''" by (simp_all add: loadable_def strtok_r_def)
  then have "\<forall>n \<in> set [''1-1'', ''4-12'']. loadable n" by simp
  moreover have "c_owned c_unloaded = []" "heap_ok c_unloaded" "\<not> k_fault c_unloaded"
    by (simp_all add: c_unloaded_def c_owned_def task_blocks_def heap_ok_def)
  moreover have "benign_run demo_env ?s (c_thread_round demo_env (c_timer_queue_signal demo_env ?s))"
    by (rule brun_thread [OF brun_timer [OF brun_refl]])
  moreover have "ke_big_endian demo_env" by (simp add: demo_env_def)
  ultimately show ?thesis using cache_memory_safe [OF demo_no_oom] by blast
qed

end
