(* ===== verification/Unload.thy ===== *)
theory Unload
  imports QueueRun CacheSafe
begin

text \<open>
  Unloading the modules from the states they reach: when \<open>cleanup_module\<close> uses freed memory, what it frees, and what is lost.
\<close>

section \<open>The routing module\<close>

lemma free_allocs:
  "k_allocs (free_tasks ts s) = k_allocs s" "k_allocs (free_floods fs s) = k_allocs s"
proof -
  show "k_allocs (free_tasks ts s) = k_allocs s"
    by (induction ts arbitrary: s) (simp_all add: free_tasks_def kfree_opt_def split: option.split)
  show "k_allocs (free_floods fs s) = k_allocs s" by (induction fs s rule: free_floods.induct) simp_all
qed

lemma cleanup_tasks_stage:
  "frees (task_blocks (map (apsnd data_block) (rev (a_tasks s)))) s (cleanup_tasks False s)"
  "k_allocs (cleanup_tasks False s) = k_allocs s" "a_floods (cleanup_tasks False s) = a_floods s"
  "q_block (cleanup_tasks False s) = q_block s" "a_routes (cleanup_tasks False s) = a_routes s"
  using frees_free_tasks [of "map (apsnd data_block) (rev (a_tasks s))" s]
    a_state_more [OF free_tasks_more [of "map (apsnd data_block) (rev (a_tasks s))" s]]
  by (simp_all add: cleanup_tasks_def frees_def free_allocs)

lemma cleanup_floods_stage:
  "frees (nl_addrs (a_floods s)) s (cleanup_flood_id_queue s)"
  "k_allocs (cleanup_flood_id_queue s) = k_allocs s"
  "q_block (cleanup_flood_id_queue s) = q_block s" "a_routes (cleanup_flood_id_queue s) = a_routes s"
  using frees_free_floods [of "a_floods s" s] a_state_more [OF free_floods_more [of "a_floods s" s]]
  by (simp_all add: cleanup_flood_id_queue_def frees_def free_allocs)

lemma cleanup_packets_stage:
  assumes "q_block s = Some a"
  shows "frees [a] s (cleanup_packet_queue s)" "k_allocs (cleanup_packet_queue s) = k_allocs s"
    "a_routes (cleanup_packet_queue s) = a_routes s"
  using assms by (simp_all add: cleanup_packet_queue_def ipq_destroy_queue_def ipq_flush_eq frees_def)

definition mark :: "bool \<Rightarrow> 'z kstate_scheme \<Rightarrow> 'z kstate_scheme" where
  "mark b s = (if b then fault s else s)"

lemma mark_simps [simp]:
  "k_live (mark b s) = k_live s" "k_allocs (mark b s) = k_allocs s" "k_fault (mark b s) \<longleftrightarrow> b \<or> k_fault s" "mark False s = s"
  by (simp_all add: mark_def fault_def)

lemma mark_fields [simp]:
  "a_floods (mark b s) = a_floods s" "q_block (mark b s) = q_block s" "a_routes (mark b s) = a_routes s"
  by (simp_all add: mark_def fault_def)

lemma frees_mark: "frees as s t \<Longrightarrow> frees as (mark b s) (mark b t)"
  by (auto simp: frees_def)

lemma aodv_unload_frees:
  assumes "heap_owned a_owned (a_ok W) [] s" "q_block s = Some q" "b \<longrightarrow> a_tasks s \<noteq> []"
  shows "frees (a_freed s) (mark b s) (aodv_cleanup_module e b s)"
proof -
  have ok: "heap_ok s" "a_ok W s" using assms(1) by (simp_all add: heap_owned_def)
  define s1 where "s1 = close_sock s"
  define s2 where "s2 = emit DelTimer (s1\<lparr>k_timer_pending := False\<rparr>)"
  define s3 where "s3 = mark b (cleanup_tasks False s2)"
  define s4 where "s4 = cleanup_flood_id_queue s3"
  define s5 where "s5 = cleanup_packet_queue s4"
  define t where "t = cleanup_aodv_route_table e s5"
  have c: "frees (nl_addrs (a_devs s)) s s1" "k_allocs s1 = k_allocs s" "kstate.more s1 = kstate.more s"
    using ok(2) close_sock_frees [of "a_devs s" s] by (simp_all add: s1_def close_sock_def a_ok_def a_links_ok_def)
  note m = a_state_more [OF c(3)]
  have 2: "frees (nl_addrs (a_devs s)) s s2" "k_allocs s2 = k_allocs s" "a_tasks s2 = a_tasks s" "a_floods s2 = a_floods s"
    "q_block s2 = Some q" "a_routes s2 = a_routes s"
    using c(1,2) assms(2) by (simp_all add: s2_def m frees_def emit_def)
  have "cleanup_tasks b s2 = s3" using assms(3) 2(3) by (auto simp: s3_def cleanup_tasks_def Let_def mark_def)
  then have t: "aodv_cleanup_module e b s = t"
    by (simp add: aodv_cleanup_module_def Let_def s1_def [symmetric] s2_def [symmetric] s4_def s5_def t_def)
  have 3: "frees (task_blocks (map (apsnd data_block) (rev (a_tasks s)))) (mark b s2) s3" "k_allocs s3 = k_allocs s"
    "a_floods s3 = a_floods s" "q_block s3 = Some q" "a_routes s3 = a_routes s"
    using cleanup_tasks_stage [of s2] 2 frees_mark [of _ s2 "cleanup_tasks False s2" b] by (simp_all add: s3_def)
  have 4: "frees (nl_addrs (a_floods s)) s3 s4" "k_allocs s4 = k_allocs s" "q_block s4 = Some q" "a_routes s4 = a_routes s"
    using cleanup_floods_stage [of s3] 3 by (simp_all add: s4_def)
  have 5: "frees [q] s4 s5" "k_allocs s5 = k_allocs s" "a_routes s5 = a_routes s"
    using cleanup_packets_stage [OF 4(3)] 4 by (simp_all add: s5_def)
  note f = frees_append [OF frees_mark [OF 2(1)] frees_append [OF 3(1) frees_append [OF 4(1) 5(1)]]]
  have "heap_ok s5" using ok(1) f 5(2) by (auto simp: frees_def heap_ok_def)
  then have "frees (nl_addrs (a_routes s)) s5 t"
    using cleanup_route_frees [of s5 "a_routes s" e] 5(3) by (simp add: t_def cleanup_aodv_route_table_def frees_def)
  from frees_append [OF f this] show ?thesis by (simp add: a_freed_def t assms(2))
qed

lemma mset_task_blocks: "mset (task_blocks (rev ts)) = mset (task_blocks ts)"
  by (induction ts) (simp_all add: task_blocks_def)

lemma a_freed_kept: "mset (a_freed s @ a_kept s) = mset (a_owned s)"
  using mset_task_blocks [of "map (apsnd data_block) (a_tasks s)"]
  by (simp add: a_freed_def a_kept_def a_owned_def rev_map ac_simps split: option.split)

text \<open>Freeing a part of what is owned.\<close>

lemma frees_part:
  assumes "heap_owned own ok [] s" "frees as s t" "mset (as @ bs) = mset (own s)"
  shows "\<not> k_fault t \<and> k_live t = k_live s - set as \<and> set bs \<subseteq> k_live t \<and> set as \<inter> set bs = {}"
  using assms(1,2) same_mset [OF assms(3)] by (auto simp: heap_owned_def frees_def)

text \<open>C38. Unloading the routing module. After any run of it as in \<open>aodv_memory_safe\<close>, the task queue represents the waiting tasks. If the
  last task the thread took left others behind and the queue has not been empty since, the loop of \<open>cleanup_task_queue\<close> follows the
  oldest task's \<open>next\<close> into the freed task. Otherwise \<open>cleanup_module\<close> frees the interface, the waiting tasks
  with their messages, the remembered requests, the packet queue and the routes of the table, each once, and uses no
  freed block. It frees nothing else: the neighbours, the tasks in the timer queue and the routes that were created but not linked stay
  allocated with no pointer to them left.\<close>

theorem aodv_unload_leaks:
  assumes "no_oom e" "blank s" "q_block s = None" "heap_ok s" "\<not> k_fault s" "0 \<le> qs" "\<forall>n i. sc n = Inl i \<longrightarrow> i < 0"
    and "ifa_address ifa \<notin> insert 0 (static_addrs e sub)"
    and "fst (aodv_init_module e dev gw sub qs sc (Some nd) (Some [ifa]) s) = 0"
    and "c = (startup, snd (aodv_init_module e dev gw sub qs sc (Some nd) (Some [ifa]) s))"
    and "aodv_system e c (th, t)"
  shows "(\<exists>q b. queue_run e c (th, t) q b)
    \<and> (\<forall>q b. queue_run e c (th, t) q b \<longrightarrow>
         tq_fifo q (a_tasks t) \<and> (cleanup_task_queue q = None \<longleftrightarrow> b)
         \<and> (let u = aodv_cleanup_module e b t
            in (k_fault u \<longleftrightarrow> b)
               \<and> (b \<or> k_live u = k_live t - set (a_freed t) \<and> set (a_kept t) \<subseteq> k_live u \<and> set (a_freed t) \<inter> set (a_kept t) = {})))"
proof (intro conjI allI impI)
  have l: "heap_owned a_owned (a_ok Settled) [] (snd c)" "a_tasks (snd c) = []"
    using init_module_owned [OF assms(1-9)] assms(10) by simp_all
  show "\<exists>q b. queue_run e c (th, t) q b" by (rule queue_run_exists [OF assms(1) l assms(11)])
  fix q b assume run: "queue_run e c (th, t) q b"
  have h: "heap_owned a_owned (a_ok Settled) [] t" and sh: "queue_shape q b t"
    using queue_run_shape [OF assms(1) l(1) run] by simp_all
  from cleanup_shape [OF sh] show "tq_fifo q (a_tasks t)" "cleanup_task_queue q = None \<longleftrightarrow> b"
    by (auto split: option.splits)
  obtain a where "q_block t = Some a" using h by (auto simp: heap_owned_def a_ok_def a_links_ok_def)
  then have f: "frees (a_freed t) (mark b t) (aodv_cleanup_module e b t)"
    using aodv_unload_frees [OF h] cleanup_shape [OF sh] by blast
  show "let u = aodv_cleanup_module e b t in (k_fault u \<longleftrightarrow> b)
      \<and> (b \<or> k_live u = k_live t - set (a_freed t) \<and> set (a_kept t) \<subseteq> k_live u \<and> set (a_freed t) \<inter> set (a_kept t) = {})"
  proof (cases b)
    case True
    then have "k_fault (aodv_cleanup_module e b t)" using f by (simp add: frees_def)
    then show ?thesis using True by (simp only: Let_def simp_thms)
  next
    case False
    have "frees (a_freed t) t (aodv_cleanup_module e b t)" using f False by simp
    from frees_part [OF h this a_freed_kept] have "k_live (aodv_cleanup_module e b t) = k_live t - set (a_freed t)
        \<and> set (a_kept t) \<subseteq> k_live (aodv_cleanup_module e b t) \<and> set (a_freed t) \<inter> set (a_kept t) = {}"
      and "\<not> k_fault (aodv_cleanup_module e b t)" by blast+
    then show ?thesis using False unfolding Let_def by blast
  qed
qed

text \<open>The module unloaded right after it was loaded, and after two neighbours were heard while its thread was asleep and one of the two
  messages has been handled.\<close>

definition heard_two :: aodv_state where
  "heard_two = snd (input_handler demo_env (hello_from 0xc0a80003) wlan0 (snd (input_handler demo_env (hello_from 0xc0a80002) wlan0 loaded)))"

lemma heard_two_run:
  "aodv_system demo_env (startup, loaded) (startup\<lparr>th_place := Working, wait_ready := True\<rparr>, heard_two)"
proof -
  let ?s = "snd (input_handler demo_env (hello_from 0xc0a80002) wlan0 loaded)"
  have "aodv_system demo_env (startup, loaded) ((aodv_thread demo_env ^^ 3) (startup, loaded))"
    by (simp add: numeral_3_eq_3) (intro aodv_system.intros)
  then have r: "aodv_system demo_env (startup, loaded) (startup\<lparr>th_place := Asleep, wait_ready := True\<rparr>, loaded)"
    by (simp add: numeral_3_eq_3 aodv_thread_def thread_step_def startup_def)
  have e: "aodv_event demo_env s (snd (input_handler demo_env p wlan0 s))" for p s by (rule event_in) (simp add: wlan0_def)
  have "list_ex (\<lambda>x. x = WakeThread) (drop (length (k_out loaded)) (k_out ?s))" by code_simp
  then have "kicked loaded ?s (startup\<lparr>th_place := Asleep, wait_ready := True\<rparr>) = startup\<lparr>th_place := Woken, wait_ready := True\<rparr>"
    by (auto simp: kicked_def kick_def list_ex_iff startup_def)
  with system_event [OF r e, of "hello_from 0xc0a80002"]
  have w: "aodv_system demo_env (startup, loaded) (startup\<lparr>th_place := Woken, wait_ready := True\<rparr>, ?s)" by simp
  have "kicked ?s heard_two (startup\<lparr>th_place := Woken, wait_ready := True\<rparr>) = startup\<lparr>th_place := Woken, wait_ready := True\<rparr>"
    by (simp add: kicked_def kick_def startup_def)
  with system_event [OF w e, of "hello_from 0xc0a80003", folded heard_two_def]
  have "aodv_system demo_env (startup, loaded) (startup\<lparr>th_place := Woken, wait_ready := True\<rparr>, heard_two)" by simp
  from system_thread [OF this] show ?thesis by (simp add: aodv_thread_def thread_step_def startup_def)
qed

theorem aodv_unload_leaks_witness:
  "\<not> k_fault (aodv_cleanup_module demo_env False loaded)
   \<and> set (a_kept loaded) \<subseteq> k_live (aodv_cleanup_module demo_env False loaded) \<and> a_kept loaded \<noteq> []
   \<and> k_fault (aodv_cleanup_module demo_env True (thread_round demo_env heard_two))"
proof -
  let ?ifa = "\<lparr>ifa_address = 0xc0a80001, ifa_mask = 0xffffff00\<rparr>" and ?c = "(startup, loaded)"
  have ok: "no_oom demo_env" by (simp add: no_oom_def demo_env_def)
  have s: "blank unloaded" "q_block unloaded = None" "heap_ok unloaded" "\<not> k_fault unloaded"
    by (simp_all add: blank_def unloaded_def heap_ok_def)
  have "inet_aton demo_env ''127.0.0.1'' = Some 0x7f000001" by code_simp
  then have i: "ifa_address ?ifa \<notin> insert 0 (static_addrs demo_env None)" by (simp add: static_addrs_def)
  have l: "fst (aodv_init_module demo_env (Some ''wlan0'') 0 None 0 (\<lambda>_. Inr 77) (Some wlan0) (Some [?ifa]) unloaded) = 0"
    unfolding demo_load_def [symmetric] by code_simp
  have q: "\<forall>n i. (\<lambda>_ :: nat. Inr 77 :: int + nat) n = Inl i \<longrightarrow> i < 0" by simp
  have c: "?c = (startup, snd (aodv_init_module demo_env (Some ''wlan0'') 0 None 0 (\<lambda>_. Inr 77) (Some wlan0) (Some [?ifa]) unloaded))"
    by (simp add: loaded_def demo_load_def)
  note unload = aodv_unload_leaks [OF ok s order_refl q i l c]
  have "queue_run demo_env ?c ?c (init_task_queue q) False" for q
    by (rule run_loaded) (simp, code_simp)
  with unload [OF system_refl] have leak: "\<not> k_fault (aodv_cleanup_module demo_env False loaded)
      \<and> set (a_kept loaded) \<subseteq> k_live (aodv_cleanup_module demo_env False loaded)"
    unfolding Let_def by blast
  let ?w = "startup\<lparr>th_place := Working, wait_ready := True\<rparr>"
  obtain q b where q: "queue_run demo_env ?c (?w, heard_two) q b" "tq_fifo q (a_tasks heard_two)"
    using unload [OF heard_two_run] by blast
  have "length (a_tasks heard_two) = 2" by code_simp
  then obtain k ks where k: "a_tasks heard_two = k # ks" "1 < length (a_tasks heard_two)" by (auto simp: numeral_2_eq_2 length_Suc_conv)
  then obtain q' where q': "tq_deq q = Some (Some k, q')" using tq.deq_rep [of q k ks] q(2) by auto
  have r: "aodv_thread demo_env (?w, heard_two) = (?w, thread_round demo_env heard_two)"
    using aw.working_turn [of ?w heard_two demo_env] k(1) by (simp add: aodv_thread_def aodv_turn)
  have "queue_run demo_env ?c (?w, thread_round demo_env heard_two) q' True"
    using run_take [OF q(1) _ q'] k(2) by (simp add: r)
  then have "k_fault (aodv_cleanup_module demo_env True (thread_round demo_env heard_two))"
    using unload [OF system_thread [OF heard_two_run, unfolded r]] unfolding Let_def by blast
  moreover have "a_timers loaded \<noteq> []" by code_simp
  ultimately show ?thesis using leak by (simp add: a_kept_def nl_addrs_def)
qed

section \<open>The caching module\<close>

lemma c_freed_kept: "mset (c_freed s @ c_kept s) = mset (c_owned s)"
  using mset_task_blocks [of "map (apsnd c_data_block) (c_tasks s)"]
    mset_filter_split [of "\<lambda>m. ce_isServiceCenter (snd m) = 0" "ctable s"]
  by (simp add: c_freed_def c_kept_def c_owned_def rev_map ac_simps)

text \<open>Unloading the caching module, with the flag that \<open>queue_run\<close> has for the same queue. After any run of it as in \<open>cache_memory_safe\<close>,
  if the queue is empty or its oldest task leads nowhere, \<open>cleanup_module\<close> frees the waiting tasks with their
  messages, the remembered requests, the fragments the node is not the service centre of, the counters, the replies and the
  answers, each once, and uses no freed block; but the tasks still in the timer queue and the entries of the node's own
  fragments stay allocated, with no pointer to them left.\<close>

theorem c_unload_leaks:
  assumes "no_oom e" "ke_big_endian e" "\<forall>n \<in> set names. loadable n"
    and "c_owned s = []" "heap_ok s" "\<not> k_fault s"
    and "benign_run e (snd (c_init_module e (Some a) kval nval theta buf dev (Inr sk) (Some names) s)) t"
    and "u = c_cleanup_module stale t" "stale \<longrightarrow> c_tasks t = []"
  shows "\<not> k_fault u \<and> k_live u = k_live t - set (c_freed t) \<and> set (c_kept t) \<subseteq> k_live u \<and> set (c_freed t) \<inter> set (c_kept t) = {}"
proof -
  have h: "c_heap e [] t"
    using init_module_heap [OF assms(1) refl assms(3-6)] benign_run_safe [OF assms(1,2,7)]
    unfolding heap_safe_def by blast
  then obtain k where "g_sock t = Some k" by (auto simp: heap_owned_def c_queues_ok_def)
  then have "c_cleanup_module stale t = c_cleanup_module False t"
    using assms(9) by (auto simp: c_cleanup_module_def c_cleanup_tasks_def emit_def)
  then have u: "u = c_cleanup_module False t" using assms(8) by simp
  from c_unload_frees [OF \<open>g_sock t = Some k\<close>] show ?thesis unfolding u by (rule frees_part [OF h _ c_freed_kept])
qed

theorem c_unload_leaks_witness:
  "\<exists>t. \<not> k_fault (c_cleanup_module False t) \<and> set (c_kept t) \<subseteq> k_live (c_cleanup_module False t) \<and> c_kept t \<noteq> []"
proof -
  let ?s = "snd (c_init_module demo_env (Some ''on'') 3 5 3 2 (Some wlan0) (Inr 77) (Some [''1-1'', ''4-12'']) c_unloaded)"
  have "loadable ''1-1''" "loadable ''4-12''" by (simp_all add: loadable_def strtok_r_def)
  then have n: "\<forall>n \<in> set [''1-1'', ''4-12'']. loadable n" by simp
  have c: "c_owned c_unloaded = []" "heap_ok c_unloaded" "\<not> k_fault c_unloaded" "ke_big_endian demo_env"
    by (simp_all add: c_unloaded_def c_owned_def task_blocks_def heap_ok_def demo_env_def)
  have "c_timers ?s \<noteq> []" by code_simp
  then have "c_kept ?s \<noteq> []" by (simp add: c_kept_def nl_addrs_def)
  then show ?thesis using c_unload_leaks [OF demo_no_oom c(4) n c(1-3) brun_refl refl, of False] by blast
qed

end
