(* ===== verification/Signal.thy ===== *)
theory Signal
  imports AodvInv
begin

text \<open>
  \<open>kaodv/src/signal.c\<close>, which is compiled when AODV_SIGNAL is defined: asking the wireless drivers to watch the
  signals of the neighbours, and reading what they have seen (\<open>WIRELESS_EXT > 15\<close>, as in the kernel the modules are
  built for). What a driver offers and answers is a parameter.
\<close>

abbreviation (input) IW_MAX_SPY :: nat where "IW_MAX_SPY \<equiv> 8"

text \<open>\<open>dev->wireless_handlers\<close>: the handlers of SIOCSIWSPY and SIOCGIWSPY, either of which may be missing. The
  second answers with an error or with hardware addresses, noise and level.\<close>

record iw_driver =
  iw_set_spy :: "(nat \<Rightarrow> int) option"
  iw_get_spy :: "(nat \<Rightarrow> int + (u8 list \<times> u8 \<times> u8) list) option"

text \<open>The walk over the neighbours for one interface: i addresses are written so far.\<close>

fun spy_loop :: "netdev \<Rightarrow> nat \<Rightarrow> aodv_neigh nodes \<Rightarrow> u8 list list \<times> aodv_neigh nodes" where
  "spy_loop dev i [] = ([], [])"
| "spy_loop dev i ((a, n) # ns) =
     (if nb_dev n = Some dev
      then if i < IW_MAX_SPY
           then (let (sa, ns') = spy_loop dev (i + 1) ns in (nb_hw_addr n # sa, (a, n\<lparr>nb_link := 0\<rparr>) # ns'))
           else (let (sa, ns') = spy_loop dev i ns in (sa, (a, n\<lparr>nb_link := 0\<rparr>) # ns'))
      else (let (sa, ns') = spy_loop dev i ns in (sa, (a, n) # ns')))"

text \<open>\<open>set_spy\<close>; an error of the handler is only printed.\<close>

fun set_spy_loop :: "(netdev \<Rightarrow> iw_driver option) \<Rightarrow> aodv_dev nodes \<Rightarrow> aodv_state \<Rightarrow> aodv_state" where
  "set_spy_loop wireless [] s = s"
| "set_spy_loop wireless ((a, d) # ds) s =
     (case wireless (dv_dev d) of
        None \<Rightarrow> set_spy_loop wireless ds s
      | Some w \<Rightarrow>
          let (iw_sa, ns) = spy_loop (dv_dev d) 0 (a_neighs s);
              s1 = s\<lparr>a_neighs := ns\<rparr>
          in set_spy_loop wireless ds
               (case iw_set_spy w of None \<Rightarrow> s1 | Some handler \<Rightarrow> emit (SetSpy (dv_name d) iw_sa) s1))"

definition set_spy :: "(netdev \<Rightarrow> iw_driver option) \<Rightarrow> aodv_state \<Rightarrow> aodv_state" where
  "set_spy wireless s = set_spy_loop wireless (a_devs s) s"

text \<open>\<open>get_wireless_stats\<close>: the difference of noise and level is passed as a byte. An error ends it.\<close>

fun stats_loop :: "(netdev \<Rightarrow> iw_driver option) \<Rightarrow> aodv_dev nodes \<Rightarrow> aodv_state \<Rightarrow> aodv_state" where
  "stats_loop wireless [] s = s"
| "stats_loop wireless ((a, d) # ds) s =
     (case wireless (dv_dev d) of
        None \<Rightarrow> stats_loop wireless ds s
      | Some w \<Rightarrow>
          (case iw_get_spy w of
             None \<Rightarrow> stats_loop wireless ds s
           | Some handler \<Rightarrow>
               (case handler (length (k_out s)) of
                  Inl errno \<Rightarrow> s
                | Inr qual \<Rightarrow>
                    stats_loop wireless ds
                      (fold (\<lambda>(hwa, noise, level). update_aodv_neigh_link hwa (noise - level)) qual s))))"

definition get_wireless_stats :: "(netdev \<Rightarrow> iw_driver option) \<Rightarrow> aodv_state \<Rightarrow> aodv_state" where
  "get_wireless_stats wireless s = stats_loop wireless (a_devs s) s"

section \<open>What they do\<close>

text \<open>The driver is asked for the first eight neighbours on the interface; the values of all of them are reset.\<close>

lemma spy_loop_eq:
  "spy_loop dev i ns = (take (IW_MAX_SPY - i) (map nb_hw_addr (filter (\<lambda>n. nb_dev n = Some dev) (nl_vals ns))),
     map (\<lambda>(a, n). (a, if nb_dev n = Some dev then n\<lparr>nb_link := 0\<rparr> else n)) ns)"
proof (induction dev i ns rule: spy_loop.induct)
  case (2 dev i a n ns)
  show ?case
  proof (cases "i < 8")
    case True
    then have "8 - i = Suc (8 - Suc i)" by simp
    then show ?thesis using 2 True by simp
  qed (use 2 in simp)
qed simp

text \<open>They change nothing but the values of links, so that a handler which called them would keep the tables in order.\<close>

definition links_only :: "aodv_state \<Rightarrow> aodv_state \<Rightarrow> bool" where
  "links_only s t = (evolves undefined s t \<and> a_routes t = a_routes s \<and> nl_addrs (a_neighs t) = nl_addrs (a_neighs s)
     \<and> map (\<lambda>n. n\<lparr>nb_link := 0\<rparr>) (nl_vals (a_neighs t)) = map (\<lambda>n. n\<lparr>nb_link := 0\<rparr>) (nl_vals (a_neighs s)))"

interpretation lo: evolution links_only
  by unfold_locales (auto simp: links_only_def intro: evolves_refl evolves_trans)

lemma lo_map:
  assumes "t = s\<lparr>a_neighs := map (\<lambda>(a, n). (a, f a n)) (a_neighs s)\<rparr>" "\<And>a n. (f a n)\<lparr>nb_link := 0\<rparr> = n\<lparr>nb_link := 0\<rparr>"
  shows "links_only s t"
proof -
  have ip: "nb_ip (f a n) = nb_ip n" for a n
    using arg_cong [OF assms(2) [of a n], of nb_ip] by simp
  have v: "nl_addrs (a_neighs t) = nl_addrs (a_neighs s)" "map nb_ip (nl_vals (a_neighs t)) = map nb_ip (nl_vals (a_neighs s))"
    "map (\<lambda>n. n\<lparr>nb_link := 0\<rparr>) (nl_vals (a_neighs t)) = map (\<lambda>n. n\<lparr>nb_link := 0\<rparr>) (nl_vals (a_neighs s))"
    by (simp_all add: assms nl_addrs_def nl_vals_def comp_def case_prod_beta ip)
  then have "neighs_ok s \<Longrightarrow> neighs_ok t" by (simp add: assms(1) neighs_ok_def sorted_by_def)
  then have "evolves undefined s t" by (rule_tac ev_neighs) (simp_all add: assms(1) same_globals_def)
  then show ?thesis using v by (simp add: links_only_def assms(1))
qed

lemma lo_emit: "links_only s t \<Longrightarrow> links_only s (emit x t)"
  using ev_emit [of undefined t x] by (auto simp: links_only_def emit_def intro: evolves_trans)

lemma lo_spy: "links_only s (set_spy wireless s)"
proof -
  have "links_only s (set_spy_loop wireless ds s)" for ds
  proof (induction ds arbitrary: s)
    case (Cons x ds)
    obtain a d where x: "x = (a, d)" by (cases x)
    show ?case
    proof (cases "wireless (dv_dev d)")
      case None
      then show ?thesis using Cons by (simp add: x)
    next
      case (Some w)
      let ?t = "s\<lparr>a_neighs := snd (spy_loop (dv_dev d) 0 (a_neighs s))\<rparr>"
      have t: "links_only s ?t"
        by (rule lo_map [where f = "\<lambda>a n. if nb_dev n = Some (dv_dev d) then n\<lparr>nb_link := 0\<rparr> else n"]) (auto simp: spy_loop_eq)
      show ?thesis
        using lo.trans [OF t Cons.IH] lo.trans [OF lo_emit [OF t] Cons.IH] Some
        by (simp add: x case_prod_beta Let_def split: option.split)
    qed
  qed (simp add: lo.refl)
  then show ?thesis by (simp add: set_spy_def)
qed

lemma lo_link: "links_only s (update_aodv_neigh_link hw link s)"
proof (cases "nl_find (\<lambda>n. nb_hw_addr n = hw) (a_neighs s)")
  case None
  then show ?thesis by (simp add: update_aodv_neigh_link_def lo.refl)
next
  case (Some x)
  obtain a n where x: "x = (a, n)" by (cases x)
  show ?thesis
    by (rule lo_map [where f = "\<lambda>b n. if b = a then n\<lparr>nb_link := (if link \<noteq> 0 then 256 - uint link else 0)\<rparr> else n"])
      (auto simp: update_aodv_neigh_link_def Some x upd_as_map)
qed

lemma lo_stats: "links_only s (get_wireless_stats wireless s)"
proof -
  have f: "links_only s (fold (\<lambda>(hwa, noise, level). update_aodv_neigh_link hwa (noise - level)) qs s)" for qs s
  proof (rule lo.fold_rule [OF _ lo.refl])
    fix x u
    assume "links_only s u"
    then show "links_only s ((case x of (hwa, noise, level) \<Rightarrow> update_aodv_neigh_link hwa (noise - level)) u)"
      using lo.trans [OF _ lo_link] by (cases x) simp
  qed
  have "links_only s (stats_loop wireless ds s)" for ds
  proof (induction ds arbitrary: s)
    case (Cons x ds)
    have "links_only s (stats_loop wireless ds
        (fold (\<lambda>(hwa, noise, level). update_aodv_neigh_link hwa (noise - level)) qs s))" for qs
      by (rule lo.trans [OF f Cons.IH])
    then show ?case using Cons.IH [of s] by (cases x) (simp add: lo.refl split: option.split sum.split)
  qed (simp add: lo.refl)
  then show ?thesis by (simp add: get_wireless_stats_def)
qed

end
