(* ===== verification/ProcText.thy ===== *)
theory ProcText
  imports InetUtils
begin

text \<open>
  Text for \<open>/proc\<close>: the conversions of \<open>sprintf\<close> the read functions of both modules use, the remaining lifetime
  they print, and the end they all share, which hands out a piece of the text.
\<close>

section \<open>Conversions\<close>

definition newline :: string where
  "newline = [CHR 0x0A]"

definition pad_left :: "nat \<Rightarrow> string \<Rightarrow> string" where
  "pad_left w x = replicate (w - length x) CHR '' '' @ x"

definition pad_right :: "nat \<Rightarrow> string \<Rightarrow> string" where
  "pad_right w x = x @ replicate (w - length x) CHR '' ''"

text \<open>\<open>%d\<close> reads its argument as a signed number, whatever its type.\<close>

definition fmt_d :: "int \<Rightarrow> string" where
  "fmt_d i = (if i < 0 then CHR ''-'' # dec (nat (- i)) else dec (nat i))"

definition dashes :: "nat \<Rightarrow> string" where
  "dashes n = replicate n CHR ''-''"

text \<open>The time left to an entry, in 64 bits: \<open>do_div\<close> leaves the quotient in its argument and returns the remainder; an
  \<open>unsigned long\<close> has 32 bits.\<close>

definition sec_msec :: "u64 \<Rightarrow> u64 \<Rightarrow> string" where
  "sec_msec lifetime currtime =
     (let tmp_time = lifetime - currtime
      in dec (unat (ucast (tmp_time div 1000) :: u32)) @ ''/'' @ dec (unat (ucast (tmp_time mod 1000) :: u32)))"

definition time_left :: "kenv \<Rightarrow> u64 \<Rightarrow> u64 \<Rightarrow> string" where
  "time_left e lifetime currtime =
     (if ke_time_before e lifetime currtime then '' Expired!'' @ newline
      else '' sec/msec: '' @ sec_msec lifetime currtime @ '' '' @ newline)"

section \<open>Handing out a piece\<close>

text \<open>
  The kernel passes one page. The functions print the whole text from its start, whatever its length, so a text that
  does not fit with its final zero byte is written over what comes after the page; \<open>pr_overrun\<close> says that this has happened. The reply further says where in the
  buffer the piece starts, its length, and whether \<open>*eof\<close> was set.
\<close>

definition page_size :: nat where
  "page_size = 4096"

record proc_reply =
  pr_text :: string
  pr_overrun :: bool
  pr_start :: int
  pr_len :: int
  pr_eof :: bool

definition slice_reply :: "string \<Rightarrow> int \<Rightarrow> int \<Rightarrow> proc_reply" where
  "slice_reply t offset buffer_length =
     (let len = int (length t) - offset
      in \<lparr>pr_text = t, pr_overrun = (page_size < length t + 1), pr_start = offset,
          pr_len = (if len > buffer_length then buffer_length else if len < 0 then 0 else len), pr_eof = False\<rparr>)"

definition slice_reply_eof :: "string \<Rightarrow> int \<Rightarrow> int \<Rightarrow> proc_reply" where
  "slice_reply_eof t offset buffer_length =
     (let len0 = int (length t) - offset;
          len1 = (if len0 > buffer_length then buffer_length else len0)
      in \<lparr>pr_text = t, pr_overrun = (page_size < length t + 1), pr_start = offset, pr_len = (if len1 < 0 then 0 else len1),
          pr_eof = (int (length t) \<le> offset + buffer_length)\<rparr>)"

definition delivered :: "proc_reply \<Rightarrow> string" where
  "delivered r = take (nat (pr_len r)) (drop (nat (pr_start r)) (pr_text r))"

text \<open>A reader who asks for k pieces of n bytes, each where the last one ended; nothing can be said about what it gets once the page has
  been overrun.\<close>

fun read_on :: "(int \<Rightarrow> int \<Rightarrow> proc_reply) \<Rightarrow> nat \<Rightarrow> nat \<Rightarrow> string option" where
  "read_on rd n 0 = Some []"
| "read_on rd n (Suc k) =
     (let r = rd (int (k * n)) (int n)
      in case read_on rd n k of
           None \<Rightarrow> None
         | Some t \<Rightarrow> if pr_overrun r then None else Some (t @ delivered r))"

section \<open>Lengths\<close>

lemma length_dec_le: "n < 10 ^ k \<Longrightarrow> 0 < k \<Longrightarrow> length (dec n) \<le> k"
proof (induction k arbitrary: n)
  case (Suc k)
  show ?case
  proof (cases "n < 10")
    case True
    then show ?thesis by (subst dec.simps) simp
  next
    case False
    then have "k \<noteq> 0" using Suc.prems by (cases k) auto
    moreover have "n div 10 < 10 ^ k" using Suc.prems by (simp add: less_mult_imp_div_less mult.commute)
    ultimately have "length (dec (n div 10)) \<le> k" using Suc.IH by simp
    then show ?thesis using False by (subst dec.simps) simp
  qed
qed simp

lemma length_dec_pos: "Suc 0 \<le> length (dec n)"
  by (simp add: Suc_leI)

lemma length_dec_u8: "length (dec (unat (w :: u8))) \<le> 3"
  by (intro length_dec_le order_less_trans [OF unsigned_less]) simp_all

lemma length_dec_u16: "length (dec (unat (w :: u16))) \<le> 5"
  by (intro length_dec_le order_less_trans [OF unsigned_less]) simp_all

lemma length_dec_u32: "length (dec (unat (w :: u32))) \<le> 10"
  by (intro length_dec_le order_less_trans [OF unsigned_less]) simp_all

lemma length_fmt_d_pos: "Suc 0 \<le> length (fmt_d i)"
  using length_dec_pos by (simp add: fmt_d_def)

lemma length_fmt_d_u32: "length (fmt_d (sint (w :: u32))) \<le> 11"
proof -
  have "nat \<bar>sint w\<bar> \<le> 2 ^ 31" using sint_ge [of w] sint_lt [of w] by simp
  then have "length (dec (nat \<bar>sint w\<bar>)) \<le> 10" by (intro length_dec_le) simp_all
  then show ?thesis by (simp add: fmt_d_def abs_if split: if_splits)
qed

lemma length_pad_left [simp]: "length (pad_left w x) = max w (length x)"
  by (simp add: pad_left_def)

lemma length_pad_right [simp]: "length (pad_right w x) = max w (length x)"
  by (simp add: pad_right_def)

lemma length_newline [simp]: "length newline = 1"
  by (simp add: newline_def)

lemma length_dashes [simp]: "length (dashes n) = n"
  by (simp add: dashes_def)

lemma length_inet_ntoa: "length (inet_ntoa e ina) \<le> 15"
proof -
  have "length (dec (unat (b :: u8))) \<le> 3" for b by (rule length_dec_u8)
  from this [of "u32_bytes (ke_big_endian e) ina ! 0"] this [of "u32_bytes (ke_big_endian e) ina ! 1"]
    this [of "u32_bytes (ke_big_endian e) ina ! 2"] this [of "u32_bytes (ke_big_endian e) ina ! 3"]
  show ?thesis by (simp add: inet_ntoa_def dotted_def)
qed

lemma padded_address [simp]: "max 16 (length (inet_ntoa e ina)) = 16"
  using length_inet_ntoa [of e ina] by simp

lemma length_sec_msec: "3 \<le> length (sec_msec l t)" "length (sec_msec l t) \<le> 14"
proof -
  let ?m = "ucast ((l - t) mod 1000) :: u32"
  have "unat ((l - t) mod 1000) < 1000" by (simp add: unat_mod)
  then have "unat ?m < 1000" by (simp add: unsigned_ucast_eq take_bit_nat_eq_self)
  then have "length (dec (unat ?m)) \<le> 3" by (intro length_dec_le) simp_all
  then show "length (sec_msec l t) \<le> 14" using length_dec_u32 [of "ucast ((l - t) div 1000)"]
    by (simp add: sec_msec_def Let_def)
  show "3 \<le> length (sec_msec l t)"
    using length_dec_pos [of "unat ?m"] length_dec_pos [of "unat (ucast ((l - t) div 1000) :: u32)"]
    by (simp add: sec_msec_def Let_def)
qed

lemma length_time_left: "10 \<le> length (time_left e l t)" "length (time_left e l t) \<le> 27"
  using length_sec_msec [of l t] by (simp_all add: time_left_def)

text \<open>A text with one row per entry.\<close>

lemma length_rows:
  assumes "\<And>x. x \<in> set xs \<Longrightarrow> lo \<le> length (row x) \<and> length (row x) \<le> hi"
  shows "lo * length xs \<le> length (concat (map row xs))" "length (concat (map row xs)) \<le> hi * length xs"
  using assms by (induction xs) (auto simp: add_mono)

text \<open>One line per row: only the last character of a row is a line feed.\<close>

abbreviation newlines :: "string \<Rightarrow> nat" where
  "newlines x \<equiv> count_list x (CHR 0x0A)"

lemma newlines_dec [simp]: "newlines (dec n) = 0"
proof (induction n rule: dec.induct)
  case (1 n)
  have "isdigit (digit_char m)" if "m < 10" for m using that by (simp add: digit_char_simps)
  moreover have "\<not> isdigit (CHR 0x0A)" by code_simp
  ultimately have "digit_char m \<noteq> CHR 0x0A" if "m < 10" for m using that by metis
  then show ?case using 1 by (subst dec.simps) simp
qed

lemma newlines_parts [simp]:
  "newlines (fmt_d i) = 0" "newlines newline = 1" "newlines (dashes n) = 0" "newlines (inet_ntoa e a) = 0"
  "newlines (pad_left w x) = newlines x" "newlines (pad_right w x) = newlines x" "newlines (sec_msec l t) = 0" "newlines (time_left e l t) = 1"
proof -
  have r: "newlines (replicate k c) = 0" if "c \<noteq> CHR 0x0A" for k c using that by (induction k) auto
  show d: "newlines (fmt_d i) = 0" "newlines newline = 1" "newlines (dashes n) = 0" "newlines (inet_ntoa e a) = 0"
    "newlines (pad_left w x) = newlines x" "newlines (pad_right w x) = newlines x" "newlines (sec_msec l t) = 0"
    by (simp_all add: fmt_d_def newline_def dashes_def r inet_ntoa_def dotted_def pad_left_def pad_right_def sec_msec_def Let_def)
  then show "newlines (time_left e l t) = 1" by (simp add: time_left_def)
qed

lemma newlines_rows: "(\<And>x. newlines (row x) = 1) \<Longrightarrow> newlines (concat (map row xs)) = length xs"
  by (induction xs) simp_all

section \<open>Reading a file to its end\<close>

text \<open>
  What a reader relies on: a text that fits into the page is not printed beyond it, whatever piece is asked for, the reply is that piece of one and the same text,
  and after its end there is nothing. Then reading on
  from where the last piece ended delivers the whole text, once; and a text that does not fit overruns the page at every reading.
\<close>

locale proc_file =
  fixes rd :: "int \<Rightarrow> int \<Rightarrow> proc_reply"
    and contents :: string
  assumes overruns: "pr_overrun (rd off n) \<longleftrightarrow> page_size \<le> length contents"
    and piece: "0 \<le> off \<Longrightarrow> 0 \<le> n \<Longrightarrow> delivered (rd off n) = take (nat n) (drop (nat off) contents)"
    and ended: "int (length contents) \<le> off \<Longrightarrow> 0 \<le> n \<Longrightarrow> pr_len (rd off n) = 0"
begin

lemma read_pieces:
  "read_on rd n k = (if k = 0 \<or> length contents < page_size then Some (take (k * n) contents) else None)"
proof (induction k)
  case (Suc k)
  have "delivered (rd (int (k * n)) (int n)) = take n (drop (k * n) contents)"
    by (subst piece) (simp_all del: of_nat_mult)
  then show ?case
    using Suc take_add [of "k * n" n contents] overruns [of "int (k * n)" "int n"]
    by (auto simp: Let_def add.commute not_le simp del: of_nat_mult)
qed simp

lemma read_whole:
  assumes "length contents \<le> k * n" "0 < k"
  shows "read_on rd n k = (if length contents < page_size then Some contents else None)"
    "pr_len (rd (int (k * n)) (int n)) = 0"
  using assms read_pieces [of n k] ended [of "int (k * n)" "int n"] by (simp_all del: of_nat_mult)

end

lemma slice_overrun:
  "pr_overrun (slice_reply t off n) \<longleftrightarrow> page_size \<le> length t" "pr_overrun (slice_reply_eof t off n) \<longleftrightarrow> page_size \<le> length t"
  by (auto simp: slice_reply_def slice_reply_eof_def Let_def)

lemma slice_piece:
  assumes "0 \<le> off" "0 \<le> n"
  shows "delivered (slice_reply t off n) = take (nat n) (drop (nat off) t)"
    "delivered (slice_reply_eof t off n) = take (nat n) (drop (nat off) t)"
  using assms by (auto simp: delivered_def slice_reply_def slice_reply_eof_def Let_def nat_diff_distrib nat_le_iff)

lemma slice_ended:
  assumes "int (length t) \<le> off" "0 \<le> n"
  shows "pr_len (slice_reply t off n) = 0" "pr_len (slice_reply_eof t off n) = 0"
  using assms by (simp_all add: slice_reply_def slice_reply_eof_def Let_def)

end
