(* ===== verification/ProcFiles.thy ===== *)
theory ProcFiles
  imports ProcText AodvDemo CacheDemo
begin

text \<open>
  The files both modules show under \<open>/proc\<close>: the \<open>read_*_proc\<close> functions of \<open>kaodv\<close> and of \<open>caching\<close>. Each prints a
  whole table into the one page the kernel passes, whatever the length of the table, and hands out
  the piece asked for; which tables fit, and what a reader gets of them.
\<close>

section \<open>The tables of the routing module\<close>

definition route_row :: "kenv \<Rightarrow> u64 \<Rightarrow> aodv_route \<Rightarrow> string" where
  "route_row e currtime r =
     ''  '' @ pad_right 16 (inet_ntoa e (rt_ip r)) @ ''     '' @ pad_left 5 (dec (unat (rt_seq r))) @ ''       ''
     @ pad_left 3 (dec (unat (rt_metric r))) @ ''         '' @ pad_right 16 (inet_ntoa e (rt_next_hop r)) @ '' ''
     @ (if rt_self r then '' Self Route '' @ newline
        else (if rt_valid r then '' Valid '' else []) @ time_left e (rt_lifetime r) currtime)"

definition route_table_text :: "kenv \<Rightarrow> aodv_state \<Rightarrow> string" where
  "route_table_text e s =
     newline @ ''Route Table '' @ newline @ dashes 81 @ newline
     @ ''        IP        |    Seq    |   Hop Count  |     Next Hop  '' @ newline @ dashes 81 @ newline
     @ concat (map (route_row e (getcurrtime s)) (nl_vals (a_routes s))) @ dashes 81 @ newline @ newline"

definition read_route_table_proc :: "kenv \<Rightarrow> int \<Rightarrow> int \<Rightarrow> aodv_state \<Rightarrow> proc_reply" where
  "read_route_table_proc e offset buffer_length s = slice_reply (route_table_text e s) offset buffer_length"

definition neigh_row :: "kenv \<Rightarrow> u64 \<Rightarrow> aodv_neigh \<Rightarrow> string" where
  "neigh_row e currtime n =
     ''   '' @ pad_right 16 (inet_ntoa e (nb_ip n)) @ ''     '' @ fmt_d (nb_link n) @ ''        ''
     @ (if nb_valid_link n then ''+       '' else ''-       '') @ time_left e (nb_lifetime n) currtime"

definition neigh_text :: "kenv \<Rightarrow> aodv_state \<Rightarrow> string" where
  "neigh_text e s =
     newline @ ''AODV Neighbors '' @ newline @ dashes 81 @ newline
     @ ''        IP        |   Link    |    Valid    |  Lifetime '' @ newline @ dashes 81 @ newline
     @ concat (map (neigh_row e (getcurrtime s)) (nl_vals (a_neighs s))) @ dashes 81 @ newline @ newline"

definition read_neigh_proc :: "kenv \<Rightarrow> int \<Rightarrow> int \<Rightarrow> aodv_state \<Rightarrow> proc_reply" where
  "read_neigh_proc e offset buffer_length s = slice_reply (neigh_text e s) offset buffer_length"

definition flood_row :: "kenv \<Rightarrow> u64 \<Rightarrow> flood_id \<Rightarrow> string" where
  "flood_row e currtime f =
     ''Src IP: '' @ pad_right 16 (inet_ntoa e (fl_src_ip f)) @ ''  Dst IP: '' @ pad_right 16 (inet_ntoa e (fl_dst_ip f))
     @ '' Flood ID: '' @ pad_right 10 (dec (unat (fl_id f))) @ '' '' @ time_left e (fl_lifetime f) currtime"

definition flood_text :: "kenv \<Rightarrow> aodv_state \<Rightarrow> string" where
  "flood_text e s =
     newline @ ''Flood Id Queue'' @ newline @ dashes 33 @ newline
     @ concat (map (flood_row e (getcurrtime s)) (nl_vals (a_floods s))) @ newline @ dashes 33 @ newline"

definition read_flood_id_proc :: "kenv \<Rightarrow> int \<Rightarrow> int \<Rightarrow> aodv_state \<Rightarrow> proc_reply" where
  "read_flood_id_proc e offset buffer_length s = slice_reply_eof (flood_text e s) offset buffer_length"

text \<open>A type that is none of the four is printed as nothing.\<close>

definition timer_name :: "int \<Rightarrow> string" where
  "timer_name type =
     (if type = TASK_RESEND_RREQ then ''RREQ    '' else if type = TASK_CLEANUP then ''Cleanup ''
      else if type = TASK_HELLO then ''Hello   '' else if type = TASK_NEIGHBOR then ''Neighbor'' else [])"

definition timer_row :: "kenv \<Rightarrow> u64 \<Rightarrow> task \<Rightarrow> string" where
  "timer_row e currtime t =
     ''    '' @ pad_right 16 (inet_ntoa e (tk_dst_ip t)) @ ''  '' @ timer_name (tk_type t)
     @ ''    '' @ sec_msec (tk_time t) currtime @ ''       '' @ dec (unat (tk_retries t)) @ newline"

definition timer_text :: "kenv \<Rightarrow> aodv_state \<Rightarrow> string" where
  "timer_text e s =
     newline @ ''Timer Queue'' @ newline @ dashes 55 @ newline
     @ ''       ID      |     Type     |   sec/msec   |   Retries'' @ newline @ dashes 55 @ newline
     @ concat (map (timer_row e (getcurrtime s)) (nl_vals (a_timers s))) @ dashes 55 @ newline"

definition read_timer_queue_proc :: "kenv \<Rightarrow> int \<Rightarrow> int \<Rightarrow> aodv_state \<Rightarrow> proc_reply" where
  "read_timer_queue_proc e offset buffer_length s = slice_reply_eof (timer_text e s) offset buffer_length"

definition read_overhead_proc :: "int \<Rightarrow> int \<Rightarrow> aodv_state \<Rightarrow> proc_reply" where
  "read_overhead_proc offset buffer_length s =
     slice_reply (fmt_d (sint (aodv_overhead s)) @ newline) offset buffer_length"

section \<open>The tables of the caching module\<close>

definition cache_row :: "cache_entry \<Rightarrow> string" where
  "cache_row c =
     ''        '' @ pad_left 6 (fmt_d (sint (ce_file_id c))) @ ''             '' @ pad_left 6 (fmt_d (sint (ce_frag_id c)))
     @ ''        '' @ pad_left 4 (fmt_d (sint (ce_refs c))) @ ''                 ''
     @ pad_left 6 (fmt_d (sint (ce_isServiceCenter c))) @ ''  '' @ newline"

definition ctable_text :: "c_state \<Rightarrow> string" where
  "ctable_text s =
     newline @ ''Cache Table '' @ newline @ dashes 81 @ newline
     @ ''        fileId        |    fragId    |   refs  |     isServiceCenter  '' @ newline @ dashes 81 @ newline
     @ concat (map cache_row (nl_vals (ctable s))) @ dashes 81 @ newline @ newline"

definition read_ctable_proc :: "int \<Rightarrow> int \<Rightarrow> c_state \<Rightarrow> proc_reply" where
  "read_ctable_proc offset buffer_length s = slice_reply (ctable_text s) offset buffer_length"

definition creq_row :: "reqList \<Rightarrow> string" where
  "creq_row c =
     ''        '' @ pad_left 6 (fmt_d (sint (rl_file_id c))) @ ''                '' @ pad_left 6 (fmt_d (sint (rl_frag_id c)))
     @ ''            '' @ pad_left 5 (fmt_d (sint (rl_count c))) @ ''    '' @ newline"

definition creq_text :: "c_state \<Rightarrow> string" where
  "creq_text s =
     newline @ ''Fragment Request List '' @ newline @ dashes 58 @ newline
     @ ''        fileId        |      fragId      |     Count    '' @ newline @ dashes 58 @ newline
     @ concat (map creq_row (nl_vals (crlist s))) @ dashes 58 @ newline @ newline"

definition read_creq_proc :: "int \<Rightarrow> int \<Rightarrow> c_state \<Rightarrow> proc_reply" where
  "read_creq_proc offset buffer_length s = slice_reply (creq_text s) offset buffer_length"

definition metric_text :: "c_state \<Rightarrow> string" where
  "metric_text s =
     newline @ ''energy: '' @ fmt_d (sint (cEnergy s)) @ '', prefetch: '' @ fmt_d (sint (cPrefetch s)) @ newline
     @ ''framework: '' @ fmt_d (sint (fOverhead s)) @ '', caching: '' @ fmt_d (sint (cOverhead s)) @ newline
     @ ''success: '' @ fmt_d (sint (cSuccess s)) @ newline
     @ ''hello overhead: '' @ fmt_d (sint (aodv_hello s)) @ '', other overhead: '' @ fmt_d (sint (aodv_else s))
     @ newline @ newline"

definition read_metric_proc :: "int \<Rightarrow> int \<Rightarrow> c_state \<Rightarrow> proc_reply" where
  "read_metric_proc offset buffer_length s = slice_reply (metric_text s) offset buffer_length"

section \<open>What fits into the page\<close>

lemma route_row_props: "74 \<le> length (route_row e t r) \<and> length (route_row e t r) \<le> 103" "newlines (route_row e t r) = 1"
proof -
  show "74 \<le> length (route_row e t r) \<and> length (route_row e t r) \<le> 103"
    using length_dec_u32 [of "rt_seq r"] length_dec_u8 [of "rt_metric r"] length_time_left [of e "rt_lifetime r" t]
    by (simp add: route_row_def, auto simp: max_def)
  show "newlines (route_row e t r) = 1" by (simp add: route_row_def)
qed

lemma neigh_row_props:
  "51 \<le> length (neigh_row e t b)" "\<bar>nb_link b\<bar> \<le> 2 ^ 31 \<Longrightarrow> length (neigh_row e t b) \<le> 78" "newlines (neigh_row e t b) = 1"
proof -
  have "length (fmt_d (nb_link b)) \<le> 11" if "\<bar>nb_link b\<bar> \<le> 2 ^ 31"
  proof -
    have "length (dec (nat \<bar>nb_link b\<bar>)) \<le> 10" using that by (intro length_dec_le) simp_all
    then show ?thesis by (simp add: fmt_d_def abs_if split: if_splits)
  qed
  then show "\<bar>nb_link b\<bar> \<le> 2 ^ 31 \<Longrightarrow> length (neigh_row e t b) \<le> 78"
    using length_time_left [of e "nb_lifetime b" t] by (simp add: neigh_row_def)
  show "51 \<le> length (neigh_row e t b)" "newlines (neigh_row e t b) = 1"
    using length_fmt_d_pos [of "nb_link b"] length_time_left [of e "nb_lifetime b" t] by (simp_all add: neigh_row_def)
qed

lemma flood_row_props: "82 \<le> length (flood_row e t f) \<and> length (flood_row e t f) \<le> 99" "newlines (flood_row e t f) = 1"
  using length_dec_u32 [of "fl_id f"] length_time_left [of e "fl_lifetime f" t]
  by (simp_all add: flood_row_def)

lemma timer_row_props: "38 \<le> length (timer_row e t k) \<and> length (timer_row e t k) \<le> 61" "newlines (timer_row e t k) = 1"
  using length_dec_u16 [of "tk_retries k"] length_dec_pos [of "unat (tk_retries k)"] length_sec_msec [of "tk_time k" t]
  by (auto simp: timer_row_def timer_name_def)

lemma cache_row_props: "71 \<le> length (cache_row c) \<and> length (cache_row c) \<le> 93" "newlines (cache_row c) = 1"
proof -
  show "71 \<le> length (cache_row c) \<and> length (cache_row c) \<le> 93"
    using length_fmt_d_u32 [of "ce_file_id c"] length_fmt_d_u32 [of "ce_frag_id c"] length_fmt_d_u32 [of "ce_refs c"]
      length_fmt_d_u32 [of "ce_isServiceCenter c"]
    by (simp add: cache_row_def, auto simp: max_def)
  show "newlines (cache_row c) = 1" by (simp add: cache_row_def)
qed

lemma creq_row_props: "58 \<le> length (creq_row c) \<and> length (creq_row c) \<le> 74" "newlines (creq_row c) = 1"
proof -
  show "58 \<le> length (creq_row c) \<and> length (creq_row c) \<le> 74"
    using length_fmt_d_u32 [of "rl_file_id c"] length_fmt_d_u32 [of "rl_frag_id c"] length_fmt_d_u32 [of "rl_count c"]
    by (simp add: creq_row_def, auto simp: max_def)
  show "newlines (creq_row c) = 1" by (simp add: creq_row_def)
qed

text \<open>A text of m rows: the lines besides the rows, up to which m it always fits, and from which m it never does.\<close>

definition text_bounds :: "string \<Rightarrow> nat \<Rightarrow> nat \<Rightarrow> nat \<Rightarrow> nat \<Rightarrow> bool" where
  "text_bounds t m rest fits full =
     (newlines t = rest + m \<and> (m \<le> fits \<longrightarrow> length t < page_size) \<and> (full \<le> m \<longrightarrow> page_size \<le> length t))"

lemma aodv_text_bounds:
  "text_bounds (route_table_text e s) (length (a_routes s)) 7 36 51"
  "text_bounds (flood_text e s) (length (a_floods s)) 5 40 49"
  "text_bounds (timer_text e s) (length (a_timers s)) 6 62 102"
  "\<forall>b \<in> set (nl_vals (a_neighs s)). \<bar>nb_link b\<bar> \<le> 2 ^ 31 \<Longrightarrow> text_bounds (neigh_text e s) (length (a_neighs s)) 7 48 75"
  "text_bounds (fmt_d (sint (aodv_overhead s)) @ newline) 1 0 1 2"
proof -
  show "text_bounds (route_table_text e s) (length (a_routes s)) 7 36 51"
    using length_rows [of "nl_vals (a_routes s)" 74 "route_row e (getcurrtime s)" 103, OF route_row_props(1)]
    by (simp add: text_bounds_def page_size_def route_table_text_def newlines_rows route_row_props(2))
  show "text_bounds (flood_text e s) (length (a_floods s)) 5 40 49"
    using length_rows [of "nl_vals (a_floods s)" 82 "flood_row e (getcurrtime s)" 99, OF flood_row_props(1)]
    by (simp add: text_bounds_def page_size_def flood_text_def newlines_rows flood_row_props(2))
  show "text_bounds (timer_text e s) (length (a_timers s)) 6 62 102"
    using length_rows [of "nl_vals (a_timers s)" 38 "timer_row e (getcurrtime s)" 61, OF timer_row_props(1)]
    by (simp add: text_bounds_def page_size_def timer_text_def newlines_rows timer_row_props(2))
  show "text_bounds (neigh_text e s) (length (a_neighs s)) 7 48 75" if "\<forall>b \<in> set (nl_vals (a_neighs s)). \<bar>nb_link b\<bar> \<le> 2 ^ 31"
    using length_rows [of "nl_vals (a_neighs s)" 51 "neigh_row e (getcurrtime s)" 78] neigh_row_props(1,2) that
    by (simp add: text_bounds_def page_size_def neigh_text_def newlines_rows neigh_row_props(3))
  show "text_bounds (fmt_d (sint (aodv_overhead s)) @ newline) 1 0 1 2"
    using length_fmt_d_u32 [of "aodv_overhead s"] by (simp add: text_bounds_def page_size_def)
qed

lemma cache_text_bounds:
  "text_bounds (ctable_text c) (length (ctable c)) 7 40 54"
  "text_bounds (creq_text c) (length (crlist c)) 7 51 67"
  "text_bounds (metric_text c) 5 1 5 6"
proof -
  show "text_bounds (ctable_text c) (length (ctable c)) 7 40 54"
    using length_rows [of "nl_vals (ctable c)" 71 cache_row 93, OF cache_row_props(1)]
    by (simp add: text_bounds_def page_size_def ctable_text_def newlines_rows cache_row_props(2))
  show "text_bounds (creq_text c) (length (crlist c)) 7 51 67"
    using length_rows [of "nl_vals (crlist c)" 58 creq_row 74, OF creq_row_props(1)]
    by (simp add: text_bounds_def page_size_def creq_text_def newlines_rows creq_row_props(2))
  show "text_bounds (metric_text c) 5 1 5 6"
    using length_fmt_d_u32 [of "cEnergy c"] length_fmt_d_u32 [of "cPrefetch c"] length_fmt_d_u32 [of "fOverhead c"]
      length_fmt_d_u32 [of "cOverhead c"] length_fmt_d_u32 [of "cSuccess c"] length_fmt_d_u32 [of "aodv_hello c"] length_fmt_d_u32 [of "aodv_else c"]
    by (simp add: text_bounds_def page_size_def metric_text_def)
qed

section \<open>Every file can be read to its end\<close>

interpretation routes_file: proc_file "\<lambda>off n. read_route_table_proc e off n s" "route_table_text e s" for e s
  by unfold_locales (simp_all add: read_route_table_proc_def slice_piece slice_ended slice_overrun)

interpretation neighs_file: proc_file "\<lambda>off n. read_neigh_proc e off n s" "neigh_text e s" for e s
  by unfold_locales (simp_all add: read_neigh_proc_def slice_piece slice_ended slice_overrun)

interpretation floods_file: proc_file "\<lambda>off n. read_flood_id_proc e off n s" "flood_text e s" for e s
  by unfold_locales (simp_all add: read_flood_id_proc_def slice_piece slice_ended slice_overrun)

interpretation timers_file: proc_file "\<lambda>off n. read_timer_queue_proc e off n s" "timer_text e s" for e s
  by unfold_locales (simp_all add: read_timer_queue_proc_def slice_piece slice_ended slice_overrun)

interpretation ctable_file: proc_file "\<lambda>off n. read_ctable_proc off n s" "ctable_text s" for s
  by unfold_locales (simp_all add: read_ctable_proc_def slice_piece slice_ended slice_overrun)

interpretation creq_file: proc_file "\<lambda>off n. read_creq_proc off n s" "creq_text s" for s
  by unfold_locales (simp_all add: read_creq_proc_def slice_piece slice_ended slice_overrun)

interpretation overhead_file: proc_file "\<lambda>off n. read_overhead_proc off n s" "fmt_d (sint (aodv_overhead s)) @ newline" for s
  by unfold_locales (simp_all add: read_overhead_proc_def slice_piece slice_ended slice_overrun)

interpretation metric_file: proc_file "\<lambda>off n. read_metric_proc off n s" "metric_text s" for s
  by unfold_locales (simp_all add: read_metric_proc_def slice_piece slice_ended slice_overrun)

lemmas read_wholes = routes_file.read_whole neighs_file.read_whole floods_file.read_whole timers_file.read_whole
  overhead_file.read_whole ctable_file.read_whole creq_file.read_whole metric_file.read_whole

text \<open>C40. Reading the files under \<open>/proc\<close>. The text t has a line for each entry of the table besides its frame. A reader who
  asks for pieces of any positive length one after the other, while the table does not change, gets the text, every byte once, and then an empty
  piece, if the text and its final zero byte fit into the page of 4096 bytes; otherwise the first reading already writes past the page. It
  always fits for up to 36 routes, 48 neighbours, 40 remembered requests, 62 timers, 40 fragments and 51 counters, and never for
  51, 75, 49, 102, 54 and 67 or more. The two files of counters always fit.\<close>

theorem proc_files_read:
  assumes "0 < k" "length t \<le> k * n" "\<forall>b \<in> set (nl_vals (a_neighs s)). \<bar>nb_link b\<bar> \<le> 2 ^ 31"
    and "(rd, t, entries, frame, fits, full) \<in> {
      (\<lambda>off n. read_route_table_proc e off n s, route_table_text e s, length (a_routes s), 7, 36, 51),
      (\<lambda>off n. read_neigh_proc e off n s, neigh_text e s, length (a_neighs s), 7, 48, 75),
      (\<lambda>off n. read_flood_id_proc e off n s, flood_text e s, length (a_floods s), 5, 40, 49),
      (\<lambda>off n. read_timer_queue_proc e off n s, timer_text e s, length (a_timers s), 6, 62, 102),
      (\<lambda>off n. read_overhead_proc off n s, fmt_d (sint (aodv_overhead s)) @ newline, 1, 0, 1, 2),
      (\<lambda>off n. read_ctable_proc off n c, ctable_text c, length (ctable c), 7, 40, 54),
      (\<lambda>off n. read_creq_proc off n c, creq_text c, length (crlist c), 7, 51, 67),
      (\<lambda>off n. read_metric_proc off n c, metric_text c, 5, 1, 5, 6)}"
  shows "newlines t = frame + entries \<and> pr_len (rd (int (k * n)) (int n)) = 0
    \<and> read_on rd n k = (if length t < page_size then Some t else None)
    \<and> (entries \<le> fits \<longrightarrow> length t < page_size) \<and> (full \<le> entries \<longrightarrow> page_size \<le> length t)"
proof -
  have "text_bounds t entries frame fits full"
    using assms(4) aodv_text_bounds(1-3) [of e s] aodv_text_bounds(5) [of s] aodv_text_bounds(4) [OF assms(3), of e] cache_text_bounds [of c]
    by (elim insertE emptyE) simp_all
  moreover have "pr_len (rd (int (k * n)) (int n)) = 0 \<and> read_on rd n k = (if length t < page_size then Some t else None)"
    using assms(1,2,4) by (elim insertE emptyE) (simp_all add: read_wholes del: of_nat_mult)
  ultimately show ?thesis by (simp add: text_bounds_def)
qed

theorem proc_files_read_witness:
  "read_on (\<lambda>off n. read_ctable_proc off n cnode) 1 (length (ctable_text cnode)) = Some (ctable_text cnode)
   \<and> read_on (\<lambda>off n. read_ctable_proc off n (cnode\<lparr>ctable := replicate 54 (8, frag_entry 2 1 4 0)\<rparr>)) 3072 2 = None"
proof -
  let ?c = "cnode\<lparr>ctable := replicate 54 (8, frag_entry 2 1 4 0)\<rparr>"
  have n: "\<forall>b \<in> set (nl_vals (a_neighs unloaded)). \<bar>nb_link b\<bar> \<le> 2 ^ 31" by (simp add: unloaded_def)
  have "length (ctable_text cnode) > 0" "length (ctable cnode) \<le> 40" by (simp_all add: ctable_text_def cnode_def)
  then have "read_on (\<lambda>off n. read_ctable_proc off n cnode) 1 (length (ctable_text cnode)) = Some (ctable_text cnode)"
    using proc_files_read [of "length (ctable_text cnode)" "ctable_text cnode" 1 unloaded "\<lambda>off n. read_ctable_proc off n cnode"
        "length (ctable cnode)" 7 40 54 demo_env cnode, OF _ _ n] by simp
  moreover have "length (ctable_text ?c) \<le> 2 * 3072"
    using length_rows(2) [of "nl_vals (ctable ?c)" 71 cache_row 93, OF cache_row_props(1)] by (simp add: ctable_text_def)
  moreover have "length (ctable ?c) = 54" by simp
  ultimately show ?thesis
    using proc_files_read [of 2 "ctable_text ?c" 3072 unloaded "\<lambda>off n. read_ctable_proc off n ?c"
        "length (ctable ?c)" 7 40 54 demo_env ?c, OF _ _ n] by simp
qed

end
