(* ===== verification/Locks.thy ===== *)
theory Locks
  imports Prelude
begin

text \<open>
  Locks. The code of both modules guards every table by a read-write lock or a spin lock. Here a function of the code is reduced
  to what it does with locks, its \<open>code\<close>: what it acquires and releases, where it may sleep, which functions it calls, with
  conditions and loops left open. \<open>runs\<close> are its possible traces, \<open>check\<close> is a static analysis of it, and a \<open>system\<close> is any
  number of contexts on any number of processors that run such functions in any order.
\<close>

section \<open>Code and its traces\<close>

datatype mode = Reading | Writing

datatype 'l op = Acquire 'l mode | Release 'l mode | Sleep

datatype 'l code =
    Skip
  | Op "'l op"
  | Seq "'l code" "'l code"
  | Either "'l code" "'l code"
  | Repeat "'l code"
  | Return
  | Call "'l code"

fun block :: "'l code list \<Rightarrow> 'l code" where
  "block [] = Skip"
| "block (c # cs) = Seq c (block cs)"

abbreviation (input) optional :: "'l code \<Rightarrow> 'l code" where
  "optional c \<equiv> Either c Skip"

text \<open>\<open>runs c tr r\<close>: c can do tr; r tells whether it ends by returning.\<close>

inductive runs :: "'l code \<Rightarrow> 'l op list \<Rightarrow> bool \<Rightarrow> bool" where
  runs_skip: "runs Skip [] False"
| runs_op: "runs (Op x) [x] False"
| runs_return: "runs Return [] True"
| runs_seq_return: "runs c tr True \<Longrightarrow> runs (Seq c d) tr True"
| runs_seq: "runs c tr False \<Longrightarrow> runs d tr' r \<Longrightarrow> runs (Seq c d) (tr @ tr') r"
| runs_left: "runs c tr r \<Longrightarrow> runs (Either c d) tr r"
| runs_right: "runs d tr r \<Longrightarrow> runs (Either c d) tr r"
| runs_repeat_end: "runs (Repeat c) [] False"
| runs_repeat_return: "runs c tr True \<Longrightarrow> runs (Repeat c) tr True"
| runs_repeat: "runs c tr False \<Longrightarrow> runs (Repeat c) tr' r \<Longrightarrow> runs (Repeat c) (tr @ tr') r"
| runs_call: "runs c tr r \<Longrightarrow> runs (Call c) tr False"

section \<open>Lock discipline\<close>

type_synonym 'l held = "('l \<times> mode) list"

text \<open>Following a trace from the locks held: each lock is acquired after those of smaller rank only, each release is of a lock
  that is held.\<close>

fun follow :: "('l \<Rightarrow> nat) \<Rightarrow> 'l held \<Rightarrow> 'l op list \<Rightarrow> 'l held option" where
  "follow rank h [] = Some h"
| "follow rank h (Acquire l m # tr) =
     (if list_all (\<lambda>x. rank (fst x) < rank l) h then follow rank ((l, m) # h) tr else None)"
| "follow rank h (Release l m # tr) = (if (l, m) \<in> set h then follow rank (remove1 (l, m) h) tr else None)"
| "follow rank h (Sleep # tr) = follow rank h tr"

text \<open>The locks at a sleep.\<close>

fun awake :: "'l held \<Rightarrow> 'l op list \<Rightarrow> bool" where
  "awake h [] = True"
| "awake h (Acquire l m # tr) = awake ((l, m) # h) tr"
| "awake h (Release l m # tr) = awake (remove1 (l, m) h) tr"
| "awake h (Sleep # tr) = (h = [] \<and> awake h tr)"

lemma follow_append:
  "follow rank h (tr @ tr') = (case follow rank h tr of None \<Rightarrow> None | Some h' \<Rightarrow> follow rank h' tr')"
  by (induction rank h tr rule: follow.induct) auto

lemma awake_append:
  "follow rank h tr = Some h' \<Longrightarrow> awake h (tr @ tr') = (awake h tr \<and> awake h' tr')"
  by (induction rank h tr rule: follow.induct) (auto split: if_splits)

text \<open>The analysis: the locks held where the code ends and where it returns, None where it cannot; no result when the
  discipline may be broken or when what is held depends on the path. With \<open>strict\<close> no lock may be held at a sleep.\<close>

fun merge :: "'a option \<Rightarrow> 'a option \<Rightarrow> 'a option option" where
  "merge None y = Some y"
| "merge (Some x) None = Some (Some x)"
| "merge (Some x) (Some y) = (if x = y then Some (Some x) else None)"

fun check :: "bool \<Rightarrow> ('l \<Rightarrow> nat) \<Rightarrow> 'l code \<Rightarrow> 'l held \<Rightarrow> ('l held option \<times> 'l held option) option" where
  "check strict rank Skip h = Some (Some h, None)"
| "check strict rank (Op x) h =
     (case follow rank h [x] of
        None \<Rightarrow> None
      | Some h' \<Rightarrow> if strict \<and> x = Sleep \<and> h \<noteq> [] then None else Some (Some h', None))"
| "check strict rank Return h = Some (None, Some h)"
| "check strict rank (Seq c d) h =
     (case check strict rank c h of
        None \<Rightarrow> None
      | Some (None, r) \<Rightarrow> Some (None, r)
      | Some (Some h', r) \<Rightarrow>
          (case check strict rank d h' of
             None \<Rightarrow> None
           | Some (f, r') \<Rightarrow> map_option (Pair f) (merge r r')))"
| "check strict rank (Either c d) h =
     (case (check strict rank c h, check strict rank d h) of
        (Some (f, r), Some (f', r')) \<Rightarrow>
          (case (merge f f', merge r r') of (Some f'', Some r'') \<Rightarrow> Some (f'', r'') | _ \<Rightarrow> None)
      | _ \<Rightarrow> None)"
| "check strict rank (Repeat c) h =
     (case check strict rank c h of
        None \<Rightarrow> None
      | Some (f, r) \<Rightarrow> if f = None \<or> f = Some h then Some (Some h, r) else None)"
| "check strict rank (Call c) h =
     (case check strict rank c h of
        None \<Rightarrow> None
      | Some (f, r) \<Rightarrow> map_option (\<lambda>f'. (f', None)) (merge f r))"

lemma merge_None: "merge x y = Some z \<Longrightarrow> (x = Some a \<or> y = Some a) \<Longrightarrow> z = Some a"
  by (cases x; cases y) (auto split: if_splits)

lemma check_sound:
  assumes "runs c tr b" "check strict rank c h = Some (f, r)"
  shows "\<exists>h'. follow rank h tr = Some h' \<and> (if b then r else f) = Some h' \<and> (strict \<longrightarrow> awake h tr)"
  using assms
proof (induction c tr b arbitrary: h f r rule: runs.induct)
  case (runs_op x)
  then show ?case by (cases x) (auto split: if_splits)
next
  case (runs_seq_return c tr d)
  then obtain f1 r1 where c: "check strict rank c h = Some (f1, r1)" by (auto split: option.splits)
  obtain h' where h: "follow rank h tr = Some h'" "r1 = Some h'" "strict \<longrightarrow> awake h tr" using runs_seq_return.IH [OF c] by auto
  show ?case
  proof (cases f1)
    case None
    then have "r = r1" using runs_seq_return.prems c by simp
    then show ?thesis using h by simp
  next
    case (Some h1)
    then obtain f' r' where "check strict rank d h1 = Some (f', r')" "merge r1 r' = Some r"
      using runs_seq_return.prems c by (auto split: option.splits)
    then show ?thesis using h merge_None [of r1 r' r h'] by simp
  qed
next
  case (runs_seq c tr d tr' b)
  then obtain f1 r1 where c: "check strict rank c h = Some (f1, r1)" by (auto split: option.splits)
  obtain h1 where h1: "follow rank h tr = Some h1" "f1 = Some h1" "strict \<longrightarrow> awake h tr" using runs_seq.IH(1) [OF c] by auto
  obtain r' where d: "check strict rank d h1 = Some (f, r')" "merge r1 r' = Some r"
    using runs_seq.prems c h1(2) by (auto split: option.splits)
  obtain h' where h': "follow rank h1 tr' = Some h'" "(if b then r' else f) = Some h'" "strict \<longrightarrow> awake h1 tr'"
    using runs_seq.IH(2) [OF d(1)] by auto
  show ?case using h1 h' merge_None [OF d(2), of h'] by (auto simp: follow_append awake_append split: if_splits)
next
  case (runs_left c tr b d)
  then obtain f1 r1 f2 r2 where c: "check strict rank c h = Some (f1, r1)" "check strict rank d h = Some (f2, r2)"
      "merge f1 f2 = Some f" "merge r1 r2 = Some r" by (auto split: option.splits)
  obtain h' where "follow rank h tr = Some h'" "(if b then r1 else f1) = Some h'" "strict \<longrightarrow> awake h tr"
    using runs_left.IH [OF c(1)] by auto
  then show ?case using merge_None [OF c(3), of h'] merge_None [OF c(4), of h'] by (auto split: if_splits)
next
  case (runs_right d tr b c)
  then obtain f1 r1 f2 r2 where c: "check strict rank c h = Some (f1, r1)" "check strict rank d h = Some (f2, r2)"
      "merge f1 f2 = Some f" "merge r1 r2 = Some r" by (auto split: option.splits)
  obtain h' where "follow rank h tr = Some h'" "(if b then r2 else f2) = Some h'" "strict \<longrightarrow> awake h tr"
    using runs_right.IH [OF c(2)] by auto
  then show ?case using merge_None [OF c(3), of h'] merge_None [OF c(4), of h'] by (auto split: if_splits)
next
  case (runs_repeat_return c tr)
  then obtain f1 where c: "check strict rank c h = Some (f1, r)" by (auto split: option.splits if_splits)
  then show ?case using runs_repeat_return.IH [OF c] by auto
next
  case (runs_repeat c tr tr' b)
  then obtain f1 where c: "check strict rank c h = Some (f1, r)" "f1 = None \<or> f1 = Some h" by (auto split: option.splits if_splits)
  have "follow rank h tr = Some h" "strict \<longrightarrow> awake h tr" using runs_repeat.IH(1) [OF c(1)] c(2) by auto
  then show ?case using runs_repeat.IH(2) [OF runs_repeat.prems] by (auto simp: follow_append awake_append)
next
  case (runs_call c tr b)
  then obtain f1 r1 where c: "check strict rank c h = Some (f1, r1)" "merge f1 r1 = Some f" by (auto split: option.splits)
  obtain h' where "follow rank h tr = Some h'" "(if b then r1 else f1) = Some h'" "strict \<longrightarrow> awake h tr"
    using runs_call.IH [OF c(1)] by auto
  then show ?case using merge_None [OF c(2), of h'] by (auto split: if_splits)
qed (auto split: option.splits if_splits)

definition well_locked :: "bool \<Rightarrow> ('l \<Rightarrow> nat) \<Rightarrow> 'l code \<Rightarrow> bool" where
  "well_locked strict rank c =
     (case check strict rank c [] of
        None \<Rightarrow> False
      | Some (f, r) \<Rightarrow> (f = None \<or> f = Some []) \<and> (r = None \<or> r = Some []))"

lemma well_locked_runs:
  assumes "well_locked strict rank c" "runs c tr b"
  shows "follow rank [] tr = Some []" "strict \<Longrightarrow> awake [] tr"
proof -
  obtain f r where c: "check strict rank c [] = Some (f, r)" "f = None \<or> f = Some []" "r = None \<or> r = Some []"
    using assms(1) by (auto simp: well_locked_def split: option.splits)
  show "follow rank [] tr = Some []" "strict \<Longrightarrow> awake [] tr"
    using check_sound [OF assms(2) c(1)] c(2,3) by (auto split: if_splits)
qed

section \<open>Contexts\<close>

text \<open>A context is a thread, or an interrupt that may arrive, on a processor: the locks it holds and what is left of the function it runs.
  The contexts of a processor interrupt one another in the order of the list. A lock that \<open>masks\<close> is taken in a way (\<open>_bh\<close>,
  \<open>_irqsave\<close>) that keeps others off the processor while it is held. Threads that take turns without
  interrupting one another count as on processors of their own, which allows every order of their moves.\<close>

record 'l ctx =
  cx_cpu :: nat
  cx_held :: "'l held"
  cx_todo :: "'l op list"

type_synonym 'l system = "'l ctx list"

definition top :: "'l system \<Rightarrow> nat \<Rightarrow> bool" where
  "top s i = (\<forall>j < length s. i < j \<and> cx_cpu (s ! j) = cx_cpu (s ! i) \<longrightarrow> cx_todo (s ! j) = [])"

text \<open>A read-write lock is granted to any number of readers or to one writer.\<close>

fun grants :: "'l op \<Rightarrow> 'l system \<Rightarrow> bool" where
  "grants (Acquire l Reading) s = (\<forall>x \<in> set s. (l, Writing) \<notin> set (cx_held x))"
| "grants (Acquire l Writing) s = (\<forall>x \<in> set s. \<forall>m. (l, m) \<notin> set (cx_held x))"
| "grants (Release l m) s = True"
| "grants Sleep s = True"

fun does :: "'l op \<Rightarrow> 'l held \<Rightarrow> 'l held" where
  "does (Acquire l m) h = (l, m) # h"
| "does (Release l m) h = remove1 (l, m) h"
| "does Sleep h = h"

inductive moves :: "'l system \<Rightarrow> 'l system \<Rightarrow> bool" where
  moves: "i < length s \<Longrightarrow> cx_todo (s ! i) = x # tr \<Longrightarrow> top s i \<Longrightarrow> grants x s \<Longrightarrow>
    moves s (s[i := (s ! i)\<lparr>cx_held := does x (cx_held (s ! i)), cx_todo := tr\<rparr>])"

text \<open>A context begins a function when those it would interrupt hold no lock that masks.\<close>

inductive starts :: "('l \<Rightarrow> bool) \<Rightarrow> 'l code list \<Rightarrow> 'l system \<Rightarrow> 'l system \<Rightarrow> bool" for masks ops where
  starts: "i < length s \<Longrightarrow> cx_todo (s ! i) = [] \<Longrightarrow> top s i \<Longrightarrow>
    (\<forall>j < i. cx_cpu (s ! j) = cx_cpu (s ! i) \<longrightarrow> (\<forall>x \<in> set (cx_held (s ! j)). \<not> masks (fst x))) \<Longrightarrow>
    c \<in> set ops \<Longrightarrow> runs c tr r \<Longrightarrow> starts masks ops s (s[i := (s ! i)\<lparr>cx_todo := tr\<rparr>])"

definition idle :: "'l system \<Rightarrow> bool" where
  "idle s = (\<forall>x \<in> set s. cx_held x = [] \<and> cx_todo x = [])"

inductive lock_reach :: "('l \<Rightarrow> bool) \<Rightarrow> 'l code list \<Rightarrow> 'l system \<Rightarrow> bool" for masks ops where
  lreach_idle: "idle s \<Longrightarrow> lock_reach masks ops s"
| lreach_start: "lock_reach masks ops s \<Longrightarrow> starts masks ops s t \<Longrightarrow> lock_reach masks ops t"
| lreach_move: "lock_reach masks ops s \<Longrightarrow> moves s t \<Longrightarrow> lock_reach masks ops t"

text \<open>Somebody has something to do, and nobody can go on.\<close>

definition deadlocked :: "'l system \<Rightarrow> bool" where
  "deadlocked s = ((\<exists>x \<in> set s. cx_todo x \<noteq> []) \<and> \<not> (\<exists>t. moves s t))"

definition exclusive :: "'l system \<Rightarrow> bool" where
  "exclusive s = (\<forall>i < length s. \<forall>j < length s. \<forall>l m. i \<noteq> j \<longrightarrow> (l, Writing) \<in> set (cx_held (s ! i)) \<longrightarrow> (l, m) \<notin> set (cx_held (s ! j)))"

lemma exclusive_upd:
  assumes "exclusive s" "i < length s"
    and "\<And>l m j. (l, m) \<in> set (cx_held c) \<Longrightarrow> (l, m) \<notin> set (cx_held (s ! i)) \<Longrightarrow> j < length s \<Longrightarrow>
      (l, Writing) \<notin> set (cx_held (s ! j)) \<and> (m = Writing \<longrightarrow> (\<forall>m'. (l, m') \<notin> set (cx_held (s ! j))))"
  shows "exclusive (s[i := c])"
  unfolding exclusive_def
proof (intro allI impI)
  fix a b l m
  assume a: "a < length (s[i := c])" "b < length (s[i := c])" "a \<noteq> b" "(l, Writing) \<in> set (cx_held (s[i := c] ! a))"
  have old: "(l, m) \<notin> set (cx_held (s ! b))" if "(l, Writing) \<in> set (cx_held (s ! a))"
    using assms(1) a(1-3) that unfolding exclusive_def by simp
  consider "a = i" | "b = i" | "a \<noteq> i" "b \<noteq> i" by blast
  then show "(l, m) \<notin> set (cx_held (s[i := c] ! b))"
  proof cases
    case 1
    then show ?thesis using a old assms(2) assms(3) [of l Writing b] by (cases "(l, Writing) \<in> set (cx_held (s ! i))") simp_all
  next
    case 2
    then show ?thesis using a old assms(2) assms(3) [of l m a] by (cases "(l, m) \<in> set (cx_held (s ! i))") auto
  next
    case 3
    then show ?thesis using a old by simp
  qed
qed

lemma moves_exclusive:
  assumes "moves s t" "exclusive s"
  shows "exclusive t"
  using assms
proof (induction rule: moves.induct)
  case (moves i s x tr)
  show ?case
  proof (rule exclusive_upd [OF moves.prems moves.hyps(1)])
    fix l m j
    assume new: "(l, m) \<in> set (cx_held ((s ! i)\<lparr>cx_held := does x (cx_held (s ! i)), cx_todo := tr\<rparr>))" "(l, m) \<notin> set (cx_held (s ! i))"
      and j: "j < length s"
    then have "x = Acquire l m" by (cases x) (auto dest: notin_set_remove1)
    then show "(l, Writing) \<notin> set (cx_held (s ! j)) \<and> (m = Writing \<longrightarrow> (\<forall>m'. (l, m') \<notin> set (cx_held (s ! j))))"
      using moves.hyps(4) j by (cases m) simp_all
  qed
qed

lemma reach_exclusive: "lock_reach masks ops s \<Longrightarrow> exclusive s"
proof (induction rule: lock_reach.induct)
  case (lreach_idle s)
  then show ?case by (simp add: idle_def exclusive_def)
next
  case (lreach_start s t)
  from lreach_start.hyps(2) lreach_start.IH show ?case
    by (induction rule: starts.induct) (rule exclusive_upd, simp_all)
qed (rule moves_exclusive)

lemma last_index:
  fixes n :: nat
  assumes "\<exists>i < n. P i"
  obtains i where "i < n" "P i" "\<forall>j < n. i < j \<longrightarrow> \<not> P j"
proof -
  from assms have "\<exists>i < n. P i \<and> (\<forall>j < n. i < j \<longrightarrow> \<not> P j)"
  proof (induction n)
    case (Suc n)
    show ?case
    proof (cases "P n")
      case False
      then have "\<exists>i < n. P i" using Suc.prems less_Suc_eq by blast
      then show ?thesis using Suc.IH False less_Suc_eq by blast
    qed (use not_less_eq in blast)
  qed simp
  then show thesis using that by blast
qed

section \<open>What the discipline gives\<close>

text \<open>The work that is left; every move does some of it.\<close>

definition work :: "'l system \<Rightarrow> nat" where
  "work s = sum_list (map (\<lambda>x. length (cx_todo x)) s)"

lemma moves_work: "moves s t \<Longrightarrow> work s = Suc (work t)"
proof (induction rule: moves.induct)
  case (moves i s x tr)
  have "s = take i s @ s ! i # drop (Suc i) s" by (rule id_take_nth_drop [OF moves.hyps(1)])
  then have "work s = work (take i s) + length (cx_todo (s ! i)) + work (drop (Suc i) s)"
    by (metis (no_types, lifting) add.assoc list.map(2) map_append sum_list.Cons sum_list.append work_def)
  then show ?case using moves.hyps(1,2) by (simp add: work_def upd_conv_take_nth_drop)
qed

text \<open>The locks that code takes for writing.\<close>

fun written :: "'l code \<Rightarrow> 'l list" where
  "written (Op (Acquire l Writing)) = [l]"
| "written (Seq c d) = written c @ written d"
| "written (Either c d) = written c @ written d"
| "written (Repeat c) = written c"
| "written (Call c) = written c"
| "written _ = []"

lemma runs_written: "runs c tr b \<Longrightarrow> Acquire l Writing \<in> set tr \<Longrightarrow> l \<in> set (written c)"
  by (induction rule: runs.induct) auto

text \<open>A lock that does not mask, as the kernel's own that the modules read, is never taken for writing.\<close>

locale lock_order =
  fixes rank :: "'l \<Rightarrow> nat" and masks :: "'l \<Rightarrow> bool" and ops :: "'l code list" and strict :: bool
  assumes ordered: "list_all (well_locked strict rank) ops"
    and masked: "list_all masks (concat (map written ops))"
begin

definition disciplined :: "'l system \<Rightarrow> bool" where
  "disciplined s = (\<forall>i < length s. follow rank (cx_held (s ! i)) (cx_todo (s ! i)) = Some []
     \<and> (strict \<longrightarrow> awake (cx_held (s ! i)) (cx_todo (s ! i)))
     \<and> (\<forall>l. (l, Writing) \<in> set (cx_held (s ! i)) \<or> Acquire l Writing \<in> set (cx_todo (s ! i)) \<longrightarrow> masks l)
     \<and> (\<forall>j < length s. i < j \<and> cx_cpu (s ! j) = cx_cpu (s ! i) \<and> cx_todo (s ! j) \<noteq> [] \<longrightarrow>
          (\<forall>x \<in> set (cx_held (s ! i)). \<not> masks (fst x))))"

lemma reach_disciplined: "lock_reach masks ops s \<Longrightarrow> disciplined s"
proof (induction rule: lock_reach.induct)
  case (lreach_idle s)
  then show ?case by (simp add: idle_def disciplined_def)
next
  case (lreach_start s t)
  from lreach_start.hyps(2) lreach_start.IH show ?case
  proof (induction rule: starts.induct)
    case (starts i s c tr r)
    have w: "well_locked strict rank c" using ordered starts.hyps(5) by (auto simp: list_all_iff)
    have "Acquire l Writing \<in> set tr \<Longrightarrow> masks l" for l
      using masked starts.hyps(5) runs_written [OF starts.hyps(6)] by (auto simp: list_all_iff)
    moreover have "cx_held (s ! i) = []" using starts.prems starts.hyps(1,2) by (auto simp: disciplined_def)
    ultimately show ?case using starts.prems starts.hyps(1-4) well_locked_runs [OF w starts.hyps(6)]
      by (auto simp: disciplined_def nth_list_update top_def)
  qed
next
  case (lreach_move s t)
  from lreach_move.hyps(2) lreach_move.IH show ?case
  proof (induction rule: moves.induct)
    case (moves i s x tr)
    have "follow rank (cx_held (s ! i)) (x # tr) = Some []" "strict \<longrightarrow> awake (cx_held (s ! i)) (x # tr)"
      using moves.prems moves.hyps(1,2) by (auto simp: disciplined_def)
    then have "follow rank (does x (cx_held (s ! i))) tr = Some []" "strict \<longrightarrow> awake (does x (cx_held (s ! i))) tr"
      by (cases x; auto split: if_splits)+
    moreover have "masks l" if "(l, Writing) \<in> set (does x (cx_held (s ! i))) \<or> Acquire l Writing \<in> set tr" for l
      using moves.prems moves.hyps(1,2) that unfolding disciplined_def by (cases x) (auto dest: notin_set_remove1)
    ultimately show ?case using moves.prems moves.hyps(1-3) by (auto simp: disciplined_def nth_list_update top_def)
  qed
qed

lemma holder_goes_on:
  assumes "disciplined s" "j < length s" "(l, m) \<in> set (cx_held (s ! j))" "masks l"
  shows "top s j" "cx_todo (s ! j) \<noteq> []"
  using assms by (fastforce simp: disciplined_def top_def)+

lemma no_deadlock:
  assumes "disciplined s" "\<not> idle s"
  shows "\<exists>t. moves s t"
proof (rule ccontr)
  assume stuck: "\<not> (\<exists>t. moves s t)"
  define B where "B = {i. i < length s \<and> cx_todo (s ! i) \<noteq> [] \<and> top s i}"
  have "\<exists>i < length s. cx_todo (s ! i) \<noteq> []"
    using assms by (force simp: idle_def disciplined_def in_set_conv_nth)
  then obtain i where "i < length s" "cx_todo (s ! i) \<noteq> []" "\<forall>j < length s. i < j \<longrightarrow> \<not> cx_todo (s ! j) \<noteq> []"
    by (rule last_index)
  then have ne: "B \<noteq> {}" by (auto simp: B_def top_def)
  have waits: "\<exists>l m. cx_todo (s ! i) = Acquire l m # tl (cx_todo (s ! i)) \<and> \<not> grants (Acquire l m) s" if "i \<in> B" for i
  proof (cases "cx_todo (s ! i)")
    case (Cons x tr)
    then have "\<not> grants x s" using stuck moves.moves [of i s x tr] that by (auto simp: B_def)
    then show ?thesis using Cons by (cases x) auto
  qed (use that in \<open>simp add: B_def\<close>)
  define goal where "goal i = (case hd (cx_todo (s ! i)) of Acquire l m \<Rightarrow> rank l | _ \<Rightarrow> 0)" for i
  have fin: "finite (goal ` B)" by (simp add: B_def)
  then have "Max (goal ` B) \<in> goal ` B" by (rule Max_in) (simp add: ne)
  then obtain i where i: "i \<in> B" "Max (goal ` B) = goal i" by blast
  obtain l m where l: "cx_todo (s ! i) = Acquire l m # tl (cx_todo (s ! i))" "\<not> grants (Acquire l m) s" using waits [OF i(1)] by blast
  have "\<exists>x \<in> set s. \<exists>m'. (l, m') \<in> set (cx_held x) \<and> (m = Writing \<or> m' = Writing)" using l(2) by (cases m) auto
  then obtain j m' where j: "j < length s" "(l, m') \<in> set (cx_held (s ! j))" "m = Writing \<or> m' = Writing"
    by (metis in_set_conv_nth)
  have "Acquire l m \<in> set (cx_todo (s ! i))" by (metis l(1) list.set_intros(1))
  then have "masks l" using assms(1) i(1) j unfolding disciplined_def B_def by blast
  from holder_goes_on [OF assms(1) j(1,2) this] j(1) have "j \<in> B" by (simp add: B_def)
  then obtain k n where k: "cx_todo (s ! j) = Acquire k n # tl (cx_todo (s ! j))" using waits by blast
  have "follow rank (cx_held (s ! j)) (Acquire k n # tl (cx_todo (s ! j))) = Some []"
    using assms(1) j(1) k by (simp add: disciplined_def)
  then have "rank l < rank k" using j(2) by (auto simp: list_all_iff split: if_splits)
  moreover have "hd (cx_todo (s ! i)) = Acquire l m" "hd (cx_todo (s ! j)) = Acquire k n" by (metis l(1) list.sel(1), metis k list.sel(1))
  then have "goal i = rank l" "goal j = rank k" by (simp_all add: goal_def)
  moreover have "goal j \<le> goal i" using Max_ge [OF fin, of "goal j"] i(2) \<open>j \<in> B\<close> by simp
  ultimately show False by simp
qed

text \<open>Whatever was begun is finished, however the contexts are scheduled: every run goes on until as many moves are made as
  there was work, and then all is idle.\<close>

lemma goes_on: "lock_reach masks ops s \<Longrightarrow> n \<le> work s \<Longrightarrow> \<exists>t. (moves ^^ n) s t \<and> lock_reach masks ops t \<and> work s = n + work t"
proof (induction n)
  case (Suc n)
  then obtain t where t: "(moves ^^ n) s t" "lock_reach masks ops t" "work s = n + work t" by auto
  then have "work t \<noteq> 0" using Suc.prems(2) by simp
  then have "\<not> idle t" by (auto simp: idle_def work_def)
  then obtain u where "moves t u" using no_deadlock [OF reach_disciplined [OF t(2)]] by blast
  then show ?case using t by (auto intro!: exI [of _ u] intro: lreach_move dest: moves_work)
qed auto

lemma moves_n: "(moves ^^ n) s t \<Longrightarrow> lock_reach masks ops s \<Longrightarrow> lock_reach masks ops t \<and> work s = n + work t"
  by (induction n arbitrary: t) (auto intro: lreach_move dest: moves_work)

lemma all_finish:
  assumes "lock_reach masks ops s"
  shows "exclusive s" "(\<exists>t. (moves ^^ n) s t) = (n \<le> work s)" "(moves ^^ n) s t \<Longrightarrow> idle t = (n = work s)"
proof -
  show "exclusive s" by (rule reach_exclusive [OF assms])
  show "(\<exists>t. (moves ^^ n) s t) = (n \<le> work s)" by (metis goes_on [OF assms] moves_n [OF _ assms] le_add1)
  assume "(moves ^^ n) s t"
  then have t: "lock_reach masks ops t" "work s = n + work t" using moves_n assms by blast+
  have "idle t" if "\<forall>x \<in> set t. cx_todo x = []"
    using reach_disciplined [OF t(1)] that by (force simp: idle_def disciplined_def in_set_conv_nth)
  then have "idle t = (work t = 0)" by (auto simp: idle_def work_def)
  then show "idle t = (n = work s)" using t(2) by simp
qed

lemma not_deadlocked: "lock_reach masks ops s \<Longrightarrow> \<not> deadlocked s"
  using no_deadlock [OF reach_disciplined] by (auto simp: deadlocked_def idle_def)

lemma sleeps_awake:
  assumes "strict" "lock_reach masks ops s" "x \<in> set s" "cx_todo x = Sleep # tr"
  shows "cx_held x = []"
proof -
  obtain i where i: "i < length s" "x = s ! i" using assms(3) by (auto simp: in_set_conv_nth)
  then have "awake (cx_held x) (Sleep # tr)"
    using reach_disciplined [OF assms(2)] assms(1,4) unfolding disciplined_def by metis
  then show ?thesis by simp
qed

end

end
