(* ===== verification/LockOps.thy ===== *)
theory LockOps
  imports Locks
begin

text \<open>
  What the functions of the two modules do with locks, one definition per function that takes one, in the order of the files,
  and the two lock orders. The rest of a function is left out, so a loop that does nothing with locks is not there; a condition
  is a choice and a \<open>return\<close> inside the body is \<open>Return\<close>.

  The kernel enters as two parameters of the routing module: \<open>oom\<close>, that \<open>kmalloc\<close> can fail, which matters in \<open>gen_rerr\<close> only,
  and \<open>sl\<close>, that the calls into the kernel that are allowed to sleep can: \<open>ip_rt_ioctl\<close>, which takes the mutex of the kernel's
  routing tables, \<open>sock_create\<close>, and binding a socket and setting its options.
\<close>

section \<open>The locks of kaodv\<close>

datatype aodv_lock =
    RouteLock | NeighLock | TimerLock | FloodLock | TaskLock | PacketLock
  | DevBaseLock | RcuLock | McListLock

text \<open>The last three are the kernel's: \<open>dev_base_lock\<close>, the read side of RCU, which is always granted, and the \<open>mc_list_lock\<close> of the
  device. The module only reads them, and what the rest of the kernel does with them is left out. \<open>delete_aodv_neigh\<close> takes the timer lock with the neighbour lock held, and
  \<open>init_aodv_dev\<close> the locks of the kernel, one within the other, and the route lock within them.\<close>

fun aodv_rank :: "aodv_lock \<Rightarrow> nat" where
  "aodv_rank DevBaseLock = 0"
| "aodv_rank RcuLock = 1"
| "aodv_rank McListLock = 2"
| "aodv_rank TimerLock = 4"
| "aodv_rank _ = 3"

text \<open>The locks of the module are taken with \<open>_bh\<close> or \<open>_irqsave\<close>, those of the kernel are not.\<close>

fun aodv_masks :: "aodv_lock \<Rightarrow> bool" where
  "aodv_masks DevBaseLock = False"
| "aodv_masks RcuLock = False"
| "aodv_masks McListLock = False"
| "aodv_masks _ = True"

type_synonym aodv_code = "aodv_lock code"

definition queue_lock :: aodv_code where "queue_lock = Op (Acquire TaskLock Writing)"
definition queue_unlock :: aodv_code where "queue_unlock = Op (Release TaskLock Writing)"

definition timer_read_lock :: aodv_code where "timer_read_lock = Op (Acquire TimerLock Reading)"
definition timer_read_unlock :: aodv_code where "timer_read_unlock = Op (Release TimerLock Reading)"
definition timer_write_lock :: aodv_code where "timer_write_lock = Op (Acquire TimerLock Writing)"
definition timer_write_unlock :: aodv_code where "timer_write_unlock = Op (Release TimerLock Writing)"

definition flood_id_read_lock :: aodv_code where "flood_id_read_lock = Op (Acquire FloodLock Reading)"
definition flood_id_read_unlock :: aodv_code where "flood_id_read_unlock = Op (Release FloodLock Reading)"
definition flood_id_write_lock :: aodv_code where "flood_id_write_lock = Op (Acquire FloodLock Writing)"
definition flood_id_write_unlock :: aodv_code where "flood_id_write_unlock = Op (Release FloodLock Writing)"

definition neigh_read_lock :: aodv_code where "neigh_read_lock = Op (Acquire NeighLock Reading)"
definition neigh_read_unlock :: aodv_code where "neigh_read_unlock = Op (Release NeighLock Reading)"
definition neigh_write_lock :: aodv_code where "neigh_write_lock = Op (Acquire NeighLock Writing)"
definition neigh_write_unlock :: aodv_code where "neigh_write_unlock = Op (Release NeighLock Writing)"

definition route_read_lock :: aodv_code where "route_read_lock = Op (Acquire RouteLock Reading)"
definition route_read_unlock :: aodv_code where "route_read_unlock = Op (Release RouteLock Reading)"
definition route_write_lock :: aodv_code where "route_write_lock = Op (Acquire RouteLock Writing)"
definition route_write_unlock :: aodv_code where "route_write_unlock = Op (Release RouteLock Writing)"

text \<open>\<open>write_lock_bh\<close> and \<open>write_unlock_bh\<close> on the lock of the packet queue have no wrappers.\<close>

definition q_write_lock :: aodv_code where "q_write_lock = Op (Acquire PacketLock Writing)"
definition q_write_unlock :: aodv_code where "q_write_unlock = Op (Release PacketLock Writing)"

text \<open>Nor have those of the kernel.\<close>

definition dev_base_read_lock :: aodv_code where "dev_base_read_lock = Op (Acquire DevBaseLock Reading)"
definition dev_base_read_unlock :: aodv_code where "dev_base_read_unlock = Op (Release DevBaseLock Reading)"
definition rcu_lock :: aodv_code where "rcu_lock = Op (Acquire RcuLock Reading)"
definition rcu_unlock :: aodv_code where "rcu_unlock = Op (Release RcuLock Reading)"
definition mc_list_read_lock :: aodv_code where "mc_list_read_lock = Op (Acquire McListLock Reading)"
definition mc_list_read_unlock :: aodv_code where "mc_list_read_unlock = Op (Release McListLock Reading)"

lemmas aodv_lock_defs = queue_lock_def queue_unlock_def timer_read_lock_def timer_read_unlock_def timer_write_lock_def
  timer_write_unlock_def flood_id_read_lock_def flood_id_read_unlock_def flood_id_write_lock_def flood_id_write_unlock_def
  neigh_read_lock_def neigh_read_unlock_def neigh_write_lock_def neigh_write_unlock_def route_read_lock_def
  route_read_unlock_def route_write_lock_def route_write_unlock_def q_write_lock_def q_write_unlock_def
  dev_base_read_lock_def dev_base_read_unlock_def rcu_lock_def rcu_unlock_def mc_list_read_lock_def mc_list_read_unlock_def

section \<open>The task queue, the timer queue and the flood identifiers of kaodv\<close>

definition cleanup_task_queue_l :: aodv_code where "cleanup_task_queue_l = block [queue_lock, queue_unlock]"

definition queue_aodv_task_l :: aodv_code where "queue_aodv_task_l = block [queue_lock, queue_unlock, Return]"

definition get_task_l :: aodv_code where
  "get_task_l = block [queue_lock, optional (block [queue_unlock, Return]), queue_unlock, Return]"

definition first_timer_due_l :: aodv_code where
  "first_timer_due_l = block [timer_write_lock, optional (block [timer_write_unlock, Return]), timer_write_unlock, Return]"

definition update_timer_queue_l :: aodv_code where
  "update_timer_queue_l = block [timer_read_lock, optional (block [timer_read_unlock, Return]), timer_read_unlock, Return]"

definition insert_task_from_timer_l :: aodv_code where
  "insert_task_from_timer_l = block [optional Return, Call queue_aodv_task_l]"

definition timer_queue_signal_l :: aodv_code where
  "timer_queue_signal_l =
     block [Call first_timer_due_l, Repeat (block [Call insert_task_from_timer_l, Call first_timer_due_l]), Call update_timer_queue_l]"

definition queue_timer_l :: aodv_code where "queue_timer_l = block [timer_write_lock, timer_write_unlock]"

definition insert_timer_l :: aodv_code where "insert_timer_l = block [optional Return, Call queue_timer_l, Return]"

definition find_timer_l :: aodv_code where
  "find_timer_l = block [timer_read_lock, Repeat (optional (block [timer_read_unlock, Return])), timer_read_unlock, Return]"

definition delete_timer_l :: aodv_code where "delete_timer_l = block [timer_write_lock, timer_write_unlock]"

definition read_timer_queue_proc_l :: aodv_code where
  "read_timer_queue_proc_l = block [timer_read_lock, timer_read_unlock, Return]"

definition find_flood_id_l :: aodv_code where
  "find_flood_id_l =
     block [flood_id_read_lock,
       Repeat (block [optional (block [flood_id_read_unlock, Return]), optional (block [flood_id_read_unlock, Return])]),
       flood_id_read_unlock, Return]"

definition read_flood_id_proc_l :: aodv_code where
  "read_flood_id_proc_l = block [flood_id_read_lock, flood_id_read_unlock, Return]"

definition cleanup_flood_id_queue_l :: aodv_code where
  "cleanup_flood_id_queue_l = block [flood_id_write_lock, flood_id_write_unlock]"

definition insert_flood_id_l :: aodv_code where
  "insert_flood_id_l = block [optional Return, flood_id_write_lock, flood_id_write_unlock, Return]"

definition flush_flood_id_queue_l :: aodv_code where
  "flush_flood_id_queue_l =
     block [flood_id_write_lock, flood_id_write_unlock, Call insert_timer_l, Call update_timer_queue_l, Return]"

section \<open>The packet queue\<close>

definition ipq_dequeue_l :: aodv_code where
  "ipq_dequeue_l = block [q_write_lock, Repeat (optional (block [q_write_unlock, Return])), q_write_unlock, Return]"

definition ipq_flush_l :: aodv_code where
  "ipq_flush_l =
     block [q_write_lock, q_write_unlock, Call ipq_dequeue_l, Repeat (Call ipq_dequeue_l), q_write_lock, q_write_unlock]"

text \<open>\<open>goto free_drop\<close> leads to a return.\<close>

definition ipq_enqueue_l :: aodv_code where
  "ipq_enqueue_l =
     block [optional Return, q_write_lock,
       optional (block [q_write_unlock, Return]), optional (block [q_write_unlock, Return]),
       q_write_unlock, q_write_lock, q_write_unlock, Return]"

definition ipq_destroy_queue_l :: aodv_code where
  "ipq_destroy_queue_l = block [q_write_lock, q_write_unlock, Call ipq_flush_l]"

text \<open>\<open>ipq_dev_drop\<close>, \<open>ipq_send_ip\<close> and \<open>ipq_drop_ip\<close> have the same loop.\<close>

definition ipq_drop_ip_l :: aodv_code where
  "ipq_drop_ip_l = block [Call ipq_dequeue_l, Repeat (Call ipq_dequeue_l)]"

section \<open>The routes, the neighbours and the route errors\<close>

definition kernel_call :: "bool \<Rightarrow> aodv_code" where
  "kernel_call sl = (if sl then Op Sleep else Skip)"

definition insert_kernel_route_entry_l :: "bool \<Rightarrow> aodv_code" where
  "insert_kernel_route_entry_l sl = block [optional Return, kernel_call sl, Return]"

definition delete_kernel_route_entry_l :: "bool \<Rightarrow> aodv_code" where
  "delete_kernel_route_entry_l sl =
     block [optional Return, kernel_call sl, Repeat (kernel_call sl), Return]"

definition remove_aodv_route_l :: aodv_code where
  "remove_aodv_route_l = block [route_write_lock, route_write_unlock]"

definition cleanup_aodv_route_table_l :: "bool \<Rightarrow> aodv_code" where
  "cleanup_aodv_route_table_l sl =
     block [route_write_lock, Repeat (Call (delete_kernel_route_entry_l sl)), route_write_unlock, Return]"

definition flush_aodv_route_table_l :: "bool \<Rightarrow> aodv_code" where
  "flush_aodv_route_table_l sl =
     block [route_read_lock,
       Repeat (optional
         (block [Call (delete_kernel_route_entry_l sl), route_read_unlock, Call remove_aodv_route_l, route_read_lock])),
       route_read_unlock, Return]"

definition delete_aodv_route_l :: aodv_code where
  "delete_aodv_route_l =
     block [route_read_lock,
       Repeat (optional (block [route_read_unlock, Call remove_aodv_route_l, Return])),
       route_read_unlock, Return]"

definition insert_aodv_route_l :: aodv_code where
  "insert_aodv_route_l = block [route_write_lock, route_write_unlock, Return]"

definition create_aodv_route_l :: aodv_code where
  "create_aodv_route_l = block [optional Return, optional (Call insert_aodv_route_l), Return]"

definition find_aodv_route_l :: aodv_code where
  "find_aodv_route_l = block [route_read_lock, route_read_unlock, Return]"

definition read_route_table_proc_l :: aodv_code where
  "read_route_table_proc_l = block [route_read_lock, route_read_unlock, Return]"

text \<open>A failed \<open>kmalloc\<close> in the loop of \<open>gen_rerr\<close> returns without unlocking.\<close>

definition gen_rerr_l :: "bool \<Rightarrow> aodv_code" where
  "gen_rerr_l oom =
     block [route_read_lock,
       Repeat (optional (if oom then optional Return else Skip)),
       route_read_unlock, Return]"

definition find_aodv_neigh_l :: aodv_code where
  "find_aodv_neigh_l =
     block [neigh_read_lock, Repeat (optional (block [neigh_read_unlock, Return])), neigh_read_unlock, Return]"

definition update_aodv_neigh_link_l :: aodv_code where
  "update_aodv_neigh_link_l = block [neigh_write_lock, neigh_write_unlock]"

definition delete_aodv_neigh_l :: "bool \<Rightarrow> bool \<Rightarrow> aodv_code" where
  "delete_aodv_neigh_l oom sl =
     block [neigh_write_lock,
       Repeat (optional (block [
         Call delete_timer_l, Call update_timer_queue_l, neigh_write_unlock,
         Call find_aodv_route_l,
         optional (block [
           Call (delete_kernel_route_entry_l sl), Call (gen_rerr_l oom),
           Either Skip (Call remove_aodv_route_l)]),
         Return])),
       neigh_write_unlock, Return]"

definition create_aodv_neigh_l :: aodv_code where
  "create_aodv_neigh_l =
     block [neigh_write_lock,
       optional (block [neigh_write_unlock, Return]), optional (block [neigh_write_unlock, Return]),
       neigh_write_unlock, Return]"

definition read_neigh_proc_l :: aodv_code where
  "read_neigh_proc_l = block [neigh_read_lock, neigh_read_unlock, Return]"

section \<open>The device\<close>

definition init_sock_l :: "bool \<Rightarrow> aodv_code" where
  "init_sock_l sl =
     block [kernel_call sl, optional Return, kernel_call sl, optional Return, kernel_call sl, optional Return, Return]"

definition create_aodv_dev_l :: "bool \<Rightarrow> aodv_code" where
  "create_aodv_dev_l sl =
     block [Call create_aodv_route_l, optional Return, Call (insert_kernel_route_entry_l sl), Return]"

definition insert_aodv_dev_l :: "bool \<Rightarrow> aodv_code" where
  "insert_aodv_dev_l sl =
     block [optional Return, mc_list_read_lock,
       Repeat (optional (block [
         optional (block [mc_list_read_unlock, Return]),
         Call (create_aodv_dev_l sl), kernel_call sl,
         optional (block [mc_list_read_unlock, Return]),
         Call (init_sock_l sl)])),
       mc_list_read_unlock, Return]"

definition init_aodv_dev_l :: "bool \<Rightarrow> aodv_code" where
  "init_aodv_dev_l sl =
     block [dev_base_read_lock, rcu_lock, Call (insert_aodv_dev_l sl), rcu_unlock, dev_base_read_unlock,
       optional Return, Call insert_timer_l, Call update_timer_queue_l, Return]"

text \<open>The threads, hooks, timers and readers of the module hold no lock between two of these functions: what they do with locks
  is a sequence of them.\<close>

definition aodv_ops :: "bool \<Rightarrow> bool \<Rightarrow> aodv_code list" where
  "aodv_ops oom sl =
     [cleanup_task_queue_l, queue_aodv_task_l, get_task_l,
      first_timer_due_l, update_timer_queue_l, timer_queue_signal_l, queue_timer_l, insert_timer_l, find_timer_l, delete_timer_l,
      read_timer_queue_proc_l,
      find_flood_id_l, read_flood_id_proc_l, cleanup_flood_id_queue_l, insert_flood_id_l, flush_flood_id_queue_l,
      ipq_dequeue_l, ipq_flush_l, ipq_enqueue_l, ipq_destroy_queue_l, ipq_drop_ip_l,
      insert_kernel_route_entry_l sl, delete_kernel_route_entry_l sl, remove_aodv_route_l, cleanup_aodv_route_table_l sl, flush_aodv_route_table_l sl, delete_aodv_route_l, insert_aodv_route_l,
      create_aodv_route_l, find_aodv_route_l, read_route_table_proc_l, gen_rerr_l oom,
      find_aodv_neigh_l, update_aodv_neigh_link_l, delete_aodv_neigh_l oom sl, create_aodv_neigh_l, read_neigh_proc_l,
      init_sock_l sl, create_aodv_dev_l sl, insert_aodv_dev_l sl, init_aodv_dev_l sl]"

lemmas aodv_op_defs = cleanup_task_queue_l_def queue_aodv_task_l_def get_task_l_def first_timer_due_l_def
  update_timer_queue_l_def insert_task_from_timer_l_def timer_queue_signal_l_def queue_timer_l_def insert_timer_l_def find_timer_l_def
  delete_timer_l_def read_timer_queue_proc_l_def find_flood_id_l_def read_flood_id_proc_l_def cleanup_flood_id_queue_l_def
  insert_flood_id_l_def flush_flood_id_queue_l_def ipq_dequeue_l_def ipq_flush_l_def ipq_enqueue_l_def ipq_destroy_queue_l_def
  ipq_drop_ip_l_def remove_aodv_route_l_def cleanup_aodv_route_table_l_def flush_aodv_route_table_l_def
  delete_aodv_route_l_def insert_aodv_route_l_def find_aodv_route_l_def read_route_table_proc_l_def gen_rerr_l_def
  find_aodv_neigh_l_def update_aodv_neigh_link_l_def delete_aodv_neigh_l_def create_aodv_neigh_l_def read_neigh_proc_l_def
  delete_kernel_route_entry_l_def insert_kernel_route_entry_l_def kernel_call_def create_aodv_route_l_def init_sock_l_def
  create_aodv_dev_l_def insert_aodv_dev_l_def init_aodv_dev_l_def

text \<open>What the module writes it masks: the locks of the kernel it only reads. This holds whatever the kernel does.\<close>

lemma aodv_masked: "list_all aodv_masks (concat (map written (aodv_ops oom sl)))"
  by (cases oom; cases sl) (simp_all add: aodv_ops_def aodv_op_defs aodv_lock_defs)

lemma aodv_ordered: "list_all (well_locked (\<not> sl) aodv_rank) (aodv_ops False sl)"
  by (cases sl) (simp_all add: aodv_ops_def aodv_op_defs aodv_lock_defs well_locked_def)

interpretation al: lock_order aodv_rank aodv_masks "aodv_ops False sl" "\<not> sl" for sl
  by unfold_locales (rule aodv_ordered, rule aodv_masked)

end
