(* ===== verification/CacheLockOps.thy ===== *)
theory CacheLockOps
  imports Locks
begin

text \<open>
  What the functions of the caching module do with locks, as in \<open>LockOps\<close>. No function of it takes a lock with another held, and
  none may sleep with one held.
\<close>

section \<open>The locks\<close>

datatype cache_lock = CTaskLock | CTimerLock | CFloodLock | CtableLock | CrlistLock | RinfoLock | ExtableLock

fun cache_rank :: "cache_lock \<Rightarrow> nat" where
  "cache_rank _ = 0"

type_synonym cache_code = "cache_lock code"

definition c_queue_lock :: cache_code where "c_queue_lock = Op (Acquire CTaskLock Writing)"
definition c_queue_unlock :: cache_code where "c_queue_unlock = Op (Release CTaskLock Writing)"

definition c_timer_read_lock :: cache_code where "c_timer_read_lock = Op (Acquire CTimerLock Reading)"
definition c_timer_read_unlock :: cache_code where "c_timer_read_unlock = Op (Release CTimerLock Reading)"
definition c_timer_write_lock :: cache_code where "c_timer_write_lock = Op (Acquire CTimerLock Writing)"
definition c_timer_write_unlock :: cache_code where "c_timer_write_unlock = Op (Release CTimerLock Writing)"

definition c_flood_id_read_lock :: cache_code where "c_flood_id_read_lock = Op (Acquire CFloodLock Reading)"
definition c_flood_id_read_unlock :: cache_code where "c_flood_id_read_unlock = Op (Release CFloodLock Reading)"
definition c_flood_id_write_lock :: cache_code where "c_flood_id_write_lock = Op (Acquire CFloodLock Writing)"
definition c_flood_id_write_unlock :: cache_code where "c_flood_id_write_unlock = Op (Release CFloodLock Writing)"

definition ctable_read_lock :: cache_code where "ctable_read_lock = Op (Acquire CtableLock Reading)"
definition ctable_read_unlock :: cache_code where "ctable_read_unlock = Op (Release CtableLock Reading)"
definition ctable_write_lock :: cache_code where "ctable_write_lock = Op (Acquire CtableLock Writing)"
definition ctable_write_unlock :: cache_code where "ctable_write_unlock = Op (Release CtableLock Writing)"

definition crlist_read_lock :: cache_code where "crlist_read_lock = Op (Acquire CrlistLock Reading)"
definition crlist_read_unlock :: cache_code where "crlist_read_unlock = Op (Release CrlistLock Reading)"
definition crlist_write_lock :: cache_code where "crlist_write_lock = Op (Acquire CrlistLock Writing)"
definition crlist_write_unlock :: cache_code where "crlist_write_unlock = Op (Release CrlistLock Writing)"

definition rinfo_read_lock :: cache_code where "rinfo_read_lock = Op (Acquire RinfoLock Reading)"
definition rinfo_read_unlock :: cache_code where "rinfo_read_unlock = Op (Release RinfoLock Reading)"
definition rinfo_write_lock :: cache_code where "rinfo_write_lock = Op (Acquire RinfoLock Writing)"
definition rinfo_write_unlock :: cache_code where "rinfo_write_unlock = Op (Release RinfoLock Writing)"

definition extable_read_lock :: cache_code where "extable_read_lock = Op (Acquire ExtableLock Reading)"
definition extable_read_unlock :: cache_code where "extable_read_unlock = Op (Release ExtableLock Reading)"
definition extable_write_lock :: cache_code where "extable_write_lock = Op (Acquire ExtableLock Writing)"
definition extable_write_unlock :: cache_code where "extable_write_unlock = Op (Release ExtableLock Writing)"

lemmas cache_lock_defs = c_queue_lock_def c_queue_unlock_def c_timer_read_lock_def c_timer_read_unlock_def c_timer_write_lock_def
  c_timer_write_unlock_def c_flood_id_read_lock_def c_flood_id_read_unlock_def c_flood_id_write_lock_def
  c_flood_id_write_unlock_def ctable_read_lock_def ctable_read_unlock_def ctable_write_lock_def
  ctable_write_unlock_def crlist_read_lock_def crlist_read_unlock_def crlist_write_lock_def crlist_write_unlock_def
  rinfo_read_lock_def rinfo_read_unlock_def rinfo_write_lock_def rinfo_write_unlock_def extable_read_lock_def
  extable_read_unlock_def extable_write_lock_def extable_write_unlock_def

section \<open>Tasks, timers and flood identifiers\<close>

definition c_cleanup_task_queue_l :: cache_code where
  "c_cleanup_task_queue_l = block [c_queue_lock, c_queue_unlock]"

definition queue_task_l :: cache_code where
  "queue_task_l = block [c_queue_lock, c_queue_unlock, Return]"

definition c_get_task_l :: cache_code where
  "c_get_task_l = block [c_queue_lock, optional (block [c_queue_unlock, Return]), c_queue_unlock, Return]"

definition c_first_timer_due_l :: cache_code where
  "c_first_timer_due_l = block [c_timer_write_lock, optional (block [c_timer_write_unlock, Return]), c_timer_write_unlock, Return]"

definition c_update_timer_queue_l :: cache_code where
  "c_update_timer_queue_l = block [c_timer_read_lock, optional (block [c_timer_read_unlock, Return]), c_timer_read_unlock, Return]"

definition c_insert_task_from_timer_l :: cache_code where
  "c_insert_task_from_timer_l = block [optional Return, Call queue_task_l]"

definition c_timer_queue_signal_l :: cache_code where
  "c_timer_queue_signal_l =
     block [Call c_first_timer_due_l, Repeat (block [Call c_insert_task_from_timer_l, Call c_first_timer_due_l]), Call c_update_timer_queue_l]"

definition c_queue_timer_l :: cache_code where
  "c_queue_timer_l = block [c_timer_write_lock, c_timer_write_unlock]"

definition c_insert_timer_l :: cache_code where
  "c_insert_timer_l = block [optional Return, Call c_queue_timer_l, Return]"

definition c_find_flood_id_l :: cache_code where
  "c_find_flood_id_l =
     block [c_flood_id_read_lock,
       Repeat (block [optional (block [c_flood_id_read_unlock, Return]), optional (block [c_flood_id_read_unlock, Return])]),
       c_flood_id_read_unlock, Return]"

definition c_cleanup_flood_id_queue_l :: cache_code where
  "c_cleanup_flood_id_queue_l = block [c_flood_id_write_lock, c_flood_id_write_unlock]"

definition c_insert_flood_id_l :: cache_code where
  "c_insert_flood_id_l = block [optional Return, c_flood_id_write_lock, c_flood_id_write_unlock, Return]"

definition c_flush_flood_id_queue_l :: cache_code where
  "c_flush_flood_id_queue_l =
     block [c_flood_id_write_lock, c_flood_id_write_unlock, Call c_insert_timer_l, Call c_update_timer_queue_l, Return]"

section \<open>The fragment table\<close>

definition find_cache_by_fl_l :: cache_code where
  "find_cache_by_fl_l = block [ctable_read_lock, ctable_read_unlock, Return]"

definition find_cache_by_fr_l :: cache_code where
  "find_cache_by_fr_l = block [ctable_read_lock, ctable_read_unlock, Return]"

definition update_ref_l :: cache_code where
  "update_ref_l =
     block [Call find_cache_by_fr_l, ctable_write_lock, optional (block [ctable_write_unlock, Return]), ctable_write_unlock, Return]"

definition remove_cache_l :: cache_code where
  "remove_cache_l = block [ctable_write_lock, ctable_write_unlock]"

definition delete_cache_l :: cache_code where
  "delete_cache_l =
     block [Call find_cache_by_fr_l, ctable_read_lock, optional (block [ctable_read_unlock, Call remove_cache_l, Return]), ctable_read_unlock, Return]"

definition cleanup_cache_table_l :: cache_code where
  "cleanup_cache_table_l =
     block [ctable_read_lock,
       Repeat (optional (block [ctable_read_unlock, Call remove_cache_l, ctable_read_lock])),
       ctable_read_unlock, Return]"

definition insert_cache_l :: cache_code where
  "insert_cache_l = block [ctable_write_lock, optional (block [ctable_write_unlock, Return]), ctable_write_unlock, Return]"

definition create_cache_l :: cache_code where
  "create_cache_l = block [optional Return, Call insert_cache_l, Return]"

definition read_ctable_proc_l :: cache_code where
  "read_ctable_proc_l = block [ctable_read_lock, ctable_read_unlock, Return]"

section \<open>The request list\<close>

definition find_creq_l :: cache_code where
  "find_creq_l = block [crlist_read_lock, crlist_read_unlock, Return]"

definition reachThreshold_l :: cache_code where
  "reachThreshold_l = block [crlist_read_lock, optional (block [crlist_read_unlock, Return]), crlist_read_unlock, Return]"

definition update_count_l :: cache_code where
  "update_count_l = block [crlist_write_lock, crlist_write_unlock, Return]"

definition flush_count_l :: cache_code where
  "flush_count_l = block [crlist_write_lock, crlist_write_unlock, Return]"

definition remove_creq_l :: cache_code where
  "remove_creq_l = block [crlist_write_lock, crlist_write_unlock]"

definition delete_creq_l :: cache_code where
  "delete_creq_l =
     block [Call find_creq_l, crlist_read_lock, optional (block [crlist_read_unlock, Call remove_creq_l, Return]), crlist_read_unlock, Return]"

definition cleanup_req_list_l :: cache_code where
  "cleanup_req_list_l = block [crlist_write_lock, crlist_write_unlock, Return]"

definition insert_creq_l :: cache_code where
  "insert_creq_l = block [crlist_write_lock, optional (block [crlist_write_unlock, Return]), crlist_write_unlock]"

definition read_creq_proc_l :: cache_code where
  "read_creq_proc_l = block [crlist_read_lock, crlist_read_unlock, Return]"

section \<open>The file replies and the bids\<close>

definition find_rinfo_l :: cache_code where
  "find_rinfo_l = block [rinfo_read_lock, rinfo_read_unlock, Return]"

definition remove_rinfo_l :: cache_code where
  "remove_rinfo_l = block [rinfo_write_lock, rinfo_write_unlock]"

definition flush_rinfo_l :: cache_code where
  "flush_rinfo_l =
     block [rinfo_read_lock,
       Repeat (optional (block [rinfo_read_unlock, Call remove_rinfo_l, rinfo_read_lock])),
       rinfo_read_unlock]"

definition cleanup_rinfo_l :: cache_code where
  "cleanup_rinfo_l = block [rinfo_write_lock, rinfo_write_unlock, Return]"

definition insert_rinfo_l :: cache_code where
  "insert_rinfo_l = block [rinfo_write_lock, optional (block [rinfo_write_unlock, Return]), rinfo_write_unlock]"

definition find_extable_l :: cache_code where
  "find_extable_l = block [extable_read_lock, extable_read_unlock, Return]"

definition remove_extable_l :: cache_code where
  "remove_extable_l = block [extable_write_lock, extable_write_unlock]"

definition flush_extable_l :: cache_code where
  "flush_extable_l =
     block [extable_read_lock,
       Repeat (optional (block [extable_read_unlock, Call remove_extable_l, extable_read_lock])),
       extable_read_unlock]"

definition cleanup_extable_l :: cache_code where
  "cleanup_extable_l = block [extable_write_lock, extable_write_unlock, Return]"

definition insert_extable_l :: cache_code where
  "insert_extable_l = block [extable_write_lock, optional (block [extable_write_unlock, Return]), extable_write_unlock]"

definition retrieve_frag_l :: cache_code where
  "retrieve_frag_l =
     block [Call find_cache_by_fl_l, Repeat (Call find_cache_by_fl_l), optional Return,
       optional (block [ctable_read_lock, optional (block [ctable_read_unlock, Return]), ctable_read_unlock, Call remove_cache_l]),
       Call create_cache_l, Return]"

definition cache_ops :: "cache_code list" where
  "cache_ops =
     [c_cleanup_task_queue_l, queue_task_l, c_get_task_l, c_first_timer_due_l, c_update_timer_queue_l,
      c_insert_task_from_timer_l, c_timer_queue_signal_l, c_queue_timer_l, c_insert_timer_l, c_find_flood_id_l,
      c_cleanup_flood_id_queue_l, c_insert_flood_id_l, c_flush_flood_id_queue_l, find_cache_by_fl_l, find_cache_by_fr_l,
      update_ref_l, remove_cache_l, delete_cache_l, cleanup_cache_table_l, insert_cache_l, create_cache_l,
      read_ctable_proc_l, find_creq_l, reachThreshold_l, update_count_l, flush_count_l, remove_creq_l, delete_creq_l,
      cleanup_req_list_l, insert_creq_l, read_creq_proc_l, find_rinfo_l, remove_rinfo_l, flush_rinfo_l, cleanup_rinfo_l,
      insert_rinfo_l, find_extable_l, remove_extable_l, flush_extable_l, cleanup_extable_l, insert_extable_l,
      retrieve_frag_l]"

lemmas cache_op_defs = c_cleanup_task_queue_l_def queue_task_l_def c_get_task_l_def c_first_timer_due_l_def c_update_timer_queue_l_def
  c_insert_task_from_timer_l_def c_timer_queue_signal_l_def c_queue_timer_l_def c_insert_timer_l_def c_find_flood_id_l_def
  c_cleanup_flood_id_queue_l_def c_insert_flood_id_l_def c_flush_flood_id_queue_l_def find_cache_by_fl_l_def
  find_cache_by_fr_l_def update_ref_l_def remove_cache_l_def delete_cache_l_def cleanup_cache_table_l_def
  insert_cache_l_def create_cache_l_def read_ctable_proc_l_def find_creq_l_def reachThreshold_l_def update_count_l_def
  flush_count_l_def remove_creq_l_def delete_creq_l_def cleanup_req_list_l_def insert_creq_l_def read_creq_proc_l_def
  find_rinfo_l_def remove_rinfo_l_def flush_rinfo_l_def cleanup_rinfo_l_def insert_rinfo_l_def find_extable_l_def
  remove_extable_l_def flush_extable_l_def cleanup_extable_l_def insert_extable_l_def retrieve_frag_l_def

lemma cache_ordered: "list_all (well_locked True cache_rank) cache_ops"
  by (simp add: cache_ops_def cache_op_defs cache_lock_defs well_locked_def)

text \<open>Every lock of the module is taken in a way that masks.\<close>

definition cache_masks :: "cache_lock \<Rightarrow> bool" where
  "cache_masks l = True"

interpretation cl: lock_order cache_rank cache_masks cache_ops True
  by unfold_locales (rule cache_ordered, simp add: cache_masks_def list_all_iff)

end
