(* ===== verification/LockProps.thy ===== *)
theory LockProps
  imports LockOps CacheLockOps
begin

text \<open>
  Deadlock, mutual exclusion and sleeping under the locks of the two modules.
\<close>

section \<open>Traces of the functions at fault\<close>

lemma runs_block: "runs c tr False \<Longrightarrow> runs (block cs) tr' r \<Longrightarrow> runs (block (c # cs)) (tr @ tr') r"
  by (simp add: runs_seq)

lemma runs_block_return: "runs c tr True \<Longrightarrow> runs (block (c # cs)) tr True"
  by (simp add: runs_seq_return)

lemma runs_ops: "runs (block (map Op xs)) xs False"
proof (induction xs)
  case (Cons x xs)
  then show ?case using runs_block [OF runs_op [of x]] by simp
qed (simp add: runs_skip)

lemma runs_ops_return: "runs (block (map Op xs @ [Return])) xs True"
proof (induction xs)
  case Nil
  show ?case by (simp add: runs_seq_return runs_return)
next
  case (Cons x xs)
  then show ?case using runs_block [OF runs_op [of x]] by simp
qed

lemma block_return: "runs (block [Return]) [] True"
  by (simp add: runs_seq_return runs_return)

lemma runs_once: "runs c tr False \<Longrightarrow> runs (Repeat (optional c)) tr False"
  using runs_repeat [OF runs_left runs_repeat_end] by fastforce

lemma kernel_sleeps: "runs (Call (delete_kernel_route_entry_l True)) [Sleep] False"
proof -
  have "runs (block [Op Sleep, Repeat (Op Sleep), Return]) ([Sleep] @ [] @ []) True"
    by (intro runs_block runs_op runs_repeat_end block_return)
  then have "runs (delete_kernel_route_entry_l True) [Sleep] True"
    using runs_block [OF runs_right [OF runs_skip]] unfolding delete_kernel_route_entry_l_def kernel_call_def if_True by fastforce
  then show ?thesis using runs_call by fastforce
qed

lemma cleanup_sleeps:
  "runs (cleanup_aodv_route_table_l True) [Acquire RouteLock Writing, Sleep, Release RouteLock Writing] True"
proof -
  have "runs (Repeat (Call (delete_kernel_route_entry_l True))) ([Sleep] @ []) False"
    by (intro runs_repeat kernel_sleeps runs_repeat_end)
  then show ?thesis
    using runs_block [OF runs_op runs_block [OF _ runs_ops_return [of "[Release RouteLock Writing]"]]]
    unfolding cleanup_aodv_route_table_l_def aodv_lock_defs by fastforce
qed

lemma flush_sleeps:
  "runs (flush_aodv_route_table_l True)
     [Acquire RouteLock Reading, Sleep, Release RouteLock Reading, Acquire RouteLock Writing, Release RouteLock Writing,
      Acquire RouteLock Reading, Release RouteLock Reading] True"
proof -
  have "runs (Call remove_aodv_route_l) [Acquire RouteLock Writing, Release RouteLock Writing] False"
    using runs_call [OF runs_ops [of "[Acquire RouteLock Writing, Release RouteLock Writing]"]]
    by (simp add: remove_aodv_route_l_def aodv_lock_defs)
  then have "runs (block [Call (delete_kernel_route_entry_l True), route_read_unlock, Call remove_aodv_route_l, route_read_lock])
      ([Sleep] @ [Release RouteLock Reading] @ [Acquire RouteLock Writing, Release RouteLock Writing] @ [Acquire RouteLock Reading] @ []) False"
    unfolding aodv_lock_defs by (intro runs_block runs_op kernel_sleeps) (simp_all add: runs_skip)
  from runs_block [OF runs_op runs_block [OF runs_once [OF this] runs_ops_return [of "[Release RouteLock Reading]"]]]
  show ?thesis unfolding flush_aodv_route_table_l_def aodv_lock_defs by simp
qed

text \<open>\<open>delete_aodv_neigh\<close> for a neighbour whose route is gone already, when \<open>gen_rerr\<close> runs out of memory.\<close>

abbreviation stuck_trace :: "aodv_lock op list" where
  "stuck_trace \<equiv> [Acquire NeighLock Writing, Acquire TimerLock Writing, Release TimerLock Writing, Acquire TimerLock Reading,
     Release TimerLock Reading, Release NeighLock Writing, Acquire RouteLock Reading, Release RouteLock Reading,
     Acquire RouteLock Reading]"

lemma delete_neigh_oom:
  "runs (delete_aodv_neigh_l True sl) (stuck_trace @ [Acquire RouteLock Writing, Release RouteLock Writing]) True"
proof -
  have d: "runs (Call delete_timer_l) [Acquire TimerLock Writing, Release TimerLock Writing] False"
    using runs_call [OF runs_ops [of "[Acquire TimerLock Writing, Release TimerLock Writing]"]]
    by (simp add: delete_timer_l_def aodv_lock_defs)
  have "runs update_timer_queue_l ([Acquire TimerLock Reading] @ [] @ [Release TimerLock Reading] @ []) True"
    unfolding update_timer_queue_l_def aodv_lock_defs
    by (intro runs_block runs_op runs_right runs_skip) (simp add: runs_seq_return runs_return)
  then have u: "runs (Call update_timer_queue_l) [Acquire TimerLock Reading, Release TimerLock Reading] False"
    using runs_call by fastforce
  have f: "runs (Call find_aodv_route_l) [Acquire RouteLock Reading, Release RouteLock Reading] False"
    using runs_call [OF runs_ops_return [of "[Acquire RouteLock Reading, Release RouteLock Reading]"]]
    by (simp add: find_aodv_route_l_def aodv_lock_defs)
  have k: "runs (Call (delete_kernel_route_entry_l sl)) [] False"
    unfolding delete_kernel_route_entry_l_def
    by (rule runs_call [of _ _ True]) (simp add: runs_seq_return runs_left runs_return)
  have "runs (gen_rerr_l True) ([Acquire RouteLock Reading] @ []) True"
    unfolding gen_rerr_l_def aodv_lock_defs
    by (intro runs_block runs_op) (simp add: runs_seq_return runs_repeat_return runs_left runs_return)
  then have g: "runs (Call (gen_rerr_l True)) [Acquire RouteLock Reading] False" using runs_call by fastforce
  have r: "runs (Call remove_aodv_route_l) [Acquire RouteLock Writing, Release RouteLock Writing] False"
    using runs_call [OF runs_ops [of "[Acquire RouteLock Writing, Release RouteLock Writing]"]]
    by (simp add: remove_aodv_route_l_def aodv_lock_defs)
  have i: "runs (optional (block [Call (delete_kernel_route_entry_l sl), Call (gen_rerr_l True), Either Skip (Call remove_aodv_route_l)]))
      ([] @ [Acquire RouteLock Reading] @ [Acquire RouteLock Writing, Release RouteLock Writing] @ []) False"
    by (intro runs_left runs_block k g runs_right [OF r]) (simp add: runs_skip)
  have "runs (block [optional (block [Call (delete_kernel_route_entry_l sl), Call (gen_rerr_l True),
      Either Skip (Call remove_aodv_route_l)]), Return])
    [Acquire RouteLock Reading, Acquire RouteLock Writing, Release RouteLock Writing] True"
    using runs_block [OF i block_return] by simp
  note b = runs_block [OF d runs_block [OF u runs_block [OF runs_op runs_block [OF f this]]]]
  have "runs (delete_aodv_neigh_l True sl) ([Acquire NeighLock Writing] @ [Acquire TimerLock Writing, Release TimerLock Writing]
      @ [Acquire TimerLock Reading, Release TimerLock Reading] @ [Release NeighLock Writing]
      @ [Acquire RouteLock Reading, Release RouteLock Reading]
      @ [Acquire RouteLock Reading, Acquire RouteLock Writing, Release RouteLock Writing]) True"
    unfolding delete_aodv_neigh_l_def aodv_lock_defs
    by (rule runs_block [OF runs_op]) (rule runs_block_return, rule runs_repeat_return, rule runs_left, rule b)
  then show ?thesis by simp
qed

section \<open>A context alone\<close>

text \<open>The locks of a context that is alone after a trace, None when it waits for itself.\<close>

fun alone :: "'l held \<Rightarrow> 'l op list \<Rightarrow> 'l held option" where
  "alone h [] = Some h"
| "alone h (x # tr) = (if grants x [\<lparr>cx_cpu = 0, cx_held = h, cx_todo = []\<rparr>] then alone (does x h) tr else None)"

lemma alone_move:
  assumes "lock_reach masks ops [\<lparr>cx_cpu = p, cx_held = h, cx_todo = x # tr\<rparr>]" "grants x [\<lparr>cx_cpu = q, cx_held = h, cx_todo = []\<rparr>]"
  shows "lock_reach masks ops [\<lparr>cx_cpu = p, cx_held = does x h, cx_todo = tr\<rparr>]"
proof -
  have "grants x [\<lparr>cx_cpu = p, cx_held = h, cx_todo = x # tr\<rparr>]" using assms(2) by (cases "(x, [\<lparr>cx_cpu = p, cx_held = h, cx_todo = x # tr\<rparr>])" rule: grants.cases) simp_all
  then show ?thesis using moves.moves [of 0 "[\<lparr>cx_cpu = p, cx_held = h, cx_todo = x # tr\<rparr>]" x tr] lreach_move [OF assms(1)]
    by (simp add: top_def)
qed

lemma alone_reach:
  "lock_reach masks ops [\<lparr>cx_cpu = p, cx_held = h, cx_todo = tr @ tr'\<rparr>] \<Longrightarrow> alone h tr = Some h' \<Longrightarrow>
   lock_reach masks ops [\<lparr>cx_cpu = p, cx_held = h', cx_todo = tr'\<rparr>]"
  by (induction tr arbitrary: h) (auto split: if_splits dest: alone_move)

lemma alone_start:
  assumes "c \<in> set ops" "runs c tr r"
  shows "lock_reach masks ops [\<lparr>cx_cpu = 0, cx_held = [], cx_todo = tr\<rparr>]"
proof -
  have "lock_reach masks ops [\<lparr>cx_cpu = 0, cx_held = [], cx_todo = []\<rparr>]" by (rule lreach_idle) (simp add: idle_def)
  then show ?thesis using lreach_start starts.starts [of 0 "[\<lparr>cx_cpu = 0, cx_held = [], cx_todo = []\<rparr>]" masks c ops tr r] assms
    by (fastforce simp: top_def)
qed

section \<open>Deadlock\<close>

lemma oom_deadlock: "\<exists>s. lock_reach aodv_masks (aodv_ops True sl) s \<and> deadlocked s"
proof -
  let ?s = "[\<lparr>cx_cpu = 0, cx_held = [(RouteLock, Reading)], cx_todo = [Acquire RouteLock Writing, Release RouteLock Writing]\<rparr>]"
  have "delete_aodv_neigh_l True sl \<in> set (aodv_ops True sl)" by (simp add: aodv_ops_def)
  from alone_start [OF this delete_neigh_oom]
  have "lock_reach aodv_masks (aodv_ops True sl) ?s" by (rule alone_reach) simp
  moreover have "deadlocked ?s" by (auto simp: deadlocked_def elim!: moves.cases)
  ultimately show ?thesis by blast
qed

text \<open>C10. The contexts of the routing module can wait for each other for ever exactly when the kernel can run out of memory:
  then \<open>gen_rerr\<close> returns with the lock of the route table held, and \<open>delete_aodv_neigh\<close> waits for itself. Otherwise no interleaving
  of any number of threads, hooks, timers and readers on any number of processors deadlocks.\<close>

theorem aodv_deadlock: "(\<exists>s. lock_reach aodv_masks (aodv_ops oom sl) s \<and> deadlocked s) = oom"
proof (cases oom)
  case True
  then show ?thesis using oom_deadlock by simp
next
  case False
  then show ?thesis using al.not_deadlocked by auto
qed

section \<open>Progress and mutual exclusion\<close>

text \<open>A run can be continued until it has made as many moves as there are lock operations left, and exactly then everybody is
  done and holds nothing.\<close>

definition completes :: "'l system \<Rightarrow> bool" where
  "completes s = ((\<forall>n. (\<exists>t. (moves ^^ n) s t) = (n \<le> work s)) \<and> (\<forall>n t. (moves ^^ n) s t \<longrightarrow> idle t = (n = work s)))"

lemma deadlocked_incomplete:
  assumes "deadlocked s"
  shows "\<not> completes s"
proof
  assume c: "completes s"
  obtain x where "x \<in> set s" "cx_todo x \<noteq> []" using assms by (auto simp: deadlocked_def)
  then have "work s \<noteq> 0" by (auto simp: work_def)
  then have "\<exists>t. (moves ^^ 1) s t" using c unfolding completes_def by (metis less_one linorder_not_less)
  then show False using assms by (auto simp: deadlocked_def)
qed

text \<open>C11. In every state the contexts of a module reach, with or without memory, however many there are and however they are
  scheduled, a lock held for writing is held by one context and by no reader. In the caching module always, and in the routing
  module exactly as long as allocation cannot fail, what was begun is finished by as many moves as there are lock operations
  left, whichever context makes them. The routing module's functions include those that set up the device under locks of the kernel.\<close>

theorem locks_progress:
  "(\<forall>s. lock_reach aodv_masks (aodv_ops oom sl) s \<longrightarrow> exclusive s)
   \<and> (\<forall>s. lock_reach aodv_masks (aodv_ops oom sl) s \<longrightarrow> completes s) = (\<not> oom)
   \<and> (\<forall>u. lock_reach cache_masks cache_ops u \<longrightarrow> exclusive u \<and> completes u)"
proof (intro conjI allI impI)
  fix s assume "lock_reach aodv_masks (aodv_ops oom sl) s"
  then show "exclusive s" by (rule reach_exclusive)
next
  show "(\<forall>s. lock_reach aodv_masks (aodv_ops oom sl) s \<longrightarrow> completes s) = (\<not> oom)"
  proof (cases oom)
    case True
    then show ?thesis using oom_deadlock deadlocked_incomplete by auto
  next
    case False
    then show ?thesis using al.all_finish by (auto simp: completes_def)
  qed
next
  fix u assume "lock_reach cache_masks cache_ops u"
  then show "exclusive u" "completes u" using cl.all_finish by (auto simp: completes_def)
qed

text \<open>A thread inserts a route on one processor while a hook looks for one on another; the caching thread adds a fragment.\<close>

theorem locks_progress_witness:
  "completes [\<lparr>cx_cpu = 0, cx_held = [(RouteLock, Writing)], cx_todo = [Release RouteLock Writing]\<rparr>,
     \<lparr>cx_cpu = 1, cx_held = [], cx_todo = [Acquire RouteLock Reading, Release RouteLock Reading]\<rparr>]
   \<and> completes [\<lparr>cx_cpu = 0, cx_held = [], cx_todo = [Acquire CtableLock Writing, Release CtableLock Writing]\<rparr>]"
proof -
  let ?idle = "\<lambda>p. \<lparr>cx_cpu = p, cx_held = [], cx_todo = []\<rparr>"
  let ?w = "[Acquire RouteLock Writing, Release RouteLock Writing]" and ?r = "[Acquire RouteLock Reading, Release RouteLock Reading]"
  have c: "remove_cache_l \<in> set cache_ops" by (simp add: cache_ops_def)
  have "runs remove_cache_l [Acquire CtableLock Writing, Release CtableLock Writing] False"
    using runs_ops [of "[Acquire CtableLock Writing, Release CtableLock Writing]"] by (simp add: remove_cache_l_def cache_lock_defs)
  note u = alone_start [OF c this, of cache_masks]
  have o: "insert_aodv_route_l \<in> set (aodv_ops False False)" "find_aodv_route_l \<in> set (aodv_ops False False)"
    by (simp_all add: aodv_ops_def)
  have t: "runs insert_aodv_route_l ?w True" "runs find_aodv_route_l ?r True"
    using runs_ops_return [of ?w] runs_ops_return [of ?r] by (simp_all add: insert_aodv_route_l_def find_aodv_route_l_def aodv_lock_defs)
  have "lock_reach aodv_masks (aodv_ops False False) [?idle 0, ?idle 1]" by (rule lreach_idle) (simp add: idle_def)
  moreover have "starts aodv_masks (aodv_ops False False) [?idle 0, ?idle 1] [(?idle 0)\<lparr>cx_todo := ?w\<rparr>, ?idle 1]"
    using starts.starts [of 0 "[?idle 0, ?idle 1]" _ _ _ ?w] o t by (fastforce simp: top_def less_Suc_eq)
  moreover have "starts aodv_masks (aodv_ops False False) [(?idle 0)\<lparr>cx_todo := ?w\<rparr>, ?idle 1] [(?idle 0)\<lparr>cx_todo := ?w\<rparr>, (?idle 1)\<lparr>cx_todo := ?r\<rparr>]"
    using starts.starts [of 1 "[(?idle 0)\<lparr>cx_todo := ?w\<rparr>, ?idle 1]" _ _ _ ?r] o t by (fastforce simp: top_def less_Suc_eq)
  moreover have "moves [(?idle 0)\<lparr>cx_todo := ?w\<rparr>, (?idle 1)\<lparr>cx_todo := ?r\<rparr>]
      [\<lparr>cx_cpu = 0, cx_held = [(RouteLock, Writing)], cx_todo = [Release RouteLock Writing]\<rparr>, (?idle 1)\<lparr>cx_todo := ?r\<rparr>]"
    using moves.moves [of 0 "[(?idle 0)\<lparr>cx_todo := ?w\<rparr>, (?idle 1)\<lparr>cx_todo := ?r\<rparr>]" "Acquire RouteLock Writing"]
    by (simp add: top_def less_Suc_eq)
  ultimately have "lock_reach aodv_masks (aodv_ops False False)
      [\<lparr>cx_cpu = 0, cx_held = [(RouteLock, Writing)], cx_todo = [Release RouteLock Writing]\<rparr>, (?idle 1)\<lparr>cx_todo := ?r\<rparr>]"
    using lreach_start lreach_move by blast
  with u show ?thesis using locks_progress [of False False] by simp
qed

section \<open>Sleeping\<close>

abbreviation may_sleep_locked :: "aodv_code list" where
  "may_sleep_locked \<equiv>
     [cleanup_aodv_route_table_l True, flush_aodv_route_table_l True, insert_aodv_dev_l True, init_aodv_dev_l True]"

text \<open>A device with one address: the socket is created with the locks held, and that fails.\<close>

lemma insert_dev_sleeps:
  "runs (insert_aodv_dev_l True) [Acquire McListLock Reading, Sleep, Release McListLock Reading] True"
proof -
  have create: "runs (Call (create_aodv_dev_l True)) [] False"
  proof -
    have r: "runs (block (optional Return # cs)) [] True" for cs :: "aodv_code list"
      by (rule runs_block_return, rule runs_left, rule runs_return)
    show ?thesis unfolding create_aodv_dev_l_def create_aodv_route_l_def
      by (rule runs_call) (rule runs_block [of _ "[]" _ "[]", unfolded append_Nil], rule runs_call, rule r, rule r)
  qed
  have "runs (block [optional (block [mc_list_read_unlock, Return]), Call (create_aodv_dev_l True), kernel_call True,
      optional (block [mc_list_read_unlock, Return]), Call (init_sock_l True)]) ([] @ [] @ [Sleep] @ [Release McListLock Reading]) True"
    unfolding kernel_call_def aodv_lock_defs if_True
    by (rule runs_block [OF runs_right [OF runs_skip] runs_block [OF create runs_block [OF runs_op runs_block_return]]])
      (rule runs_left, use runs_ops_return [of "[Release McListLock Reading]"] in simp)
  note loop = runs_block_return [OF runs_repeat_return [OF runs_left [OF this [unfolded aodv_lock_defs append_Nil append_Cons]]]]
  have "runs (insert_aodv_dev_l True) ([] @ [Acquire McListLock Reading] @ [Sleep, Release McListLock Reading]) True"
    unfolding insert_aodv_dev_l_def aodv_lock_defs
    by (rule runs_block [OF runs_right [OF runs_skip] runs_block [OF runs_op loop]])
  then show ?thesis by simp
qed

lemma init_dev_sleeps:
  "runs (init_aodv_dev_l True) [Acquire DevBaseLock Reading, Acquire RcuLock Reading, Acquire McListLock Reading, Sleep,
     Release McListLock Reading, Release RcuLock Reading, Release DevBaseLock Reading] True"
proof -
  have "runs (block [optional Return, Call insert_timer_l, Call update_timer_queue_l, Return]) [] True"
    by (rule runs_block_return, rule runs_left, rule runs_return)
  from runs_block [OF runs_op [of "Acquire DevBaseLock Reading"] runs_block [OF runs_op [of "Acquire RcuLock Reading"]
    runs_block [OF runs_call [OF insert_dev_sleeps] runs_block [OF runs_op [of "Release RcuLock Reading"]
    runs_block [OF runs_op [of "Release DevBaseLock Reading"] this]]]]]
  show ?thesis unfolding init_aodv_dev_l_def aodv_lock_defs by simp
qed

lemma others_awake:
  "list_all (\<lambda>c. c \<in> set may_sleep_locked \<or> well_locked True aodv_rank c) (aodv_ops False True)"
  by (simp add: aodv_ops_def aodv_op_defs aodv_lock_defs well_locked_def)

lemma can_sleep: "c \<in> set may_sleep_locked \<Longrightarrow> \<exists>tr r. runs c tr r \<and> \<not> awake [] tr"
  using cleanup_sleeps flush_sleeps insert_dev_sleeps init_dev_sleeps by fastforce


end
