(* ===== verification/HookRace.thy ===== *)
theory HookRace
  imports RouteLife
begin

text \<open>
  The packet hook beside the thread. \<open>output_handler\<close> of \<open>kaodv/src/packet_out.c\<close> looks for a route with \<open>route_lock\<close> held
  and uses the pointer it gets after \<open>find_aodv_route\<close> has given the lock up. Here it is cut in two at that point, and
  other things happen in between.
\<close>

section \<open>The hook in two steps\<close>

text \<open>What the hook does once it has the pointer.\<close>

definition output_found :: "kenv \<Rightarrow> skbuff \<Rightarrow> addr option \<Rightarrow> aodv_state \<Rightarrow> verdict \<times> aodv_state" where
  "output_found e skb tmp_route s =
     (case tmp_route of
        None \<Rightarrow> (NF_QUEUE, snd (gen_rreq e (g_my_ip s) (sk_daddr skb) s))
      | Some p \<Rightarrow>
          (case route_get p s of
             None \<Rightarrow> (NF_ACCEPT, fault s)
           | Some r \<Rightarrow>
               if \<not> rt_valid r then (NF_QUEUE, snd (gen_rreq e (g_my_ip s) (sk_daddr skb) s))
               else (NF_ACCEPT,
                     if rt_self r then s
                     else route_upd p (\<lambda>r. r\<lparr>rt_lifetime := getcurrtime s + ACTIVE_ROUTE_TIMEOUT\<rparr>) s)))"

lemma output_handler_steps:
  "output_handler e skb s =
     (if sk_daddr skb = g_broadcast_ip s \<or> g_aodv_gateway s \<noteq> 0 \<and> \<not> aodv_subnet_test (sk_daddr skb) s then (NF_ACCEPT, s)
      else (let (p, t) = find_aodv_route e (sk_daddr skb) s in output_found e skb p t))"
  by (auto simp: output_handler_def output_found_def Let_def split: prod.split option.split)

section \<open>The thread frees what the hook has found\<close>

lemma output_found_safe:
  assumes "no_oom e" "route_get p t \<noteq> None"
  shows "a_safe t (snd (output_found e skb (Some p) t))"
proof -
  have "a_safe t (snd (gen_rreq e x y t))" for x y by (rule av_gen_rreq [OF as.refl assms(1)])
  moreover have "a_safe t (route_upd p (\<lambda>r. r\<lparr>rt_lifetime := l\<rparr>) t)" for l by (rule av_upd [OF as.refl assms(2)]) simp_all
  ultimately show ?thesis using assms(2) by (auto simp: output_found_def as.refl split: option.split)
qed

text \<open>What happens before the hook goes on: packets, queue verdicts, timers, devices that go down and changes of the clock, and turns
  of the thread. The flag tells whether one of these turns has freed p.\<close>

inductive meanwhile :: "kenv \<Rightarrow> addr \<Rightarrow> aodv_state \<Rightarrow> aodv_state \<Rightarrow> bool \<Rightarrow> bool" for e p s where
  meanwhile_nothing: "meanwhile e p s s False"
| meanwhile_event: "meanwhile e p s t freed \<Longrightarrow> aodv_event e t u \<Longrightarrow> meanwhile e p s u freed"
| meanwhile_turn: "meanwhile e p s t freed \<Longrightarrow> meanwhile e p s (thread_round e t) (freed \<or> turn_frees e p t)"

lemma meanwhile_route:
  assumes "no_oom e" "heap_owned a_owned (a_ok Settled) [] s" "route_get p s \<noteq> None" "meanwhile e p s t freed"
  shows "heap_owned a_owned (a_ok Settled) [] t \<and> (route_get p t = None \<longleftrightarrow> freed) \<and> p < k_allocs t"
  using assms(4)
proof induction
  case meanwhile_nothing
  have "routes_ok s" using heap_a_ok [OF assms(2)] by (simp add: a_ok_def tables_ok_def)
  then show ?case using assms(2,3) by (simp add: routes_ok_def route_get_None)
next
  case (meanwhile_event t freed u)
  have "heap_owned a_owned (a_ok Settled) [] u"
    using a_event_safe [OF assms(1) meanwhile_event.hyps(2)] meanwhile_event.IH by (simp add: heap_safe_def)
  moreover have "keeps_routes t u" "new_routes_only t u"
    using kr.rk_event nr.rk_event meanwhile_event.hyps(2) by blast+
  ultimately show ?case using meanwhile_event.IH stays_gone [of t u p]
    by (auto simp: keeps_routes_def new_routes_only_def route_get_None)
next
  case (meanwhile_turn t freed)
  let ?u = "thread_round e t"
  have "heap_owned a_owned (a_ok Settled) [] ?u"
    using a_thread_safe [OF assms(1)] meanwhile_turn.IH by (simp add: heap_safe_def)
  moreover have n: "new_routes_only t ?u" by (rule thread_new [OF assms(1)])
  moreover have "route_get p ?u = None \<longleftrightarrow> freed \<or> turn_frees e p t"
    using meanwhile_turn.IH stays_gone [OF n, of p] thread_frees [OF assms(1), of t p] by blast
  ultimately show ?case using meanwhile_turn.IH by (auto simp: new_routes_only_def)
qed

text \<open>C13. The hook on outgoing packets on one processor, at the moment \<open>find_aodv_route\<close> has returned a route and given up
  the lock, in a state that satisfies the invariant of \<open>aodv_memory_safe\<close>. Whatever other packets, queue verdicts,
  timers, devices that go down, changes of the clock and whole turns of the thread come before it goes on, it uses freed memory exactly when one of these turns
  freed the route: when the thread deleted the neighbour the route leads to, unless the route is a valid one of the node itself, or when one of the two tasks
  that sweep the table found the route invalid and out of time.\<close>

theorem hook_race:
  assumes "no_oom e" "heap_owned a_owned (a_ok Settled) [] s" "find_aodv_route e (sk_daddr skb) s = (Some p, s1)"
    and "meanwhile e p s1 t freed"
  shows "k_fault (snd (output_found e skb (Some p) t)) \<longleftrightarrow> freed"
proof -
  have s1: "s1 = snd (find_aodv_route e (sk_daddr skb) s)" by (simp add: assms(3))
  have h1: "heap_owned a_owned (a_ok Settled) [] s1" unfolding s1 by (rule heap_step [OF av_find assms(2)])
  note t = meanwhile_route [OF assms(1) h1 find_get(2) [OF assms(3)] assms(4)]
  show ?thesis
  proof (cases freed)
    case True
    then show ?thesis using t by (simp add: output_found_def fault_def)
  next
    case False
    then have g: "route_get p t \<noteq> None" using t by blast
    have "heap_owned a_owned (a_ok Settled) [] (snd (output_found e skb (Some p) t))"
      using heap_step [OF output_found_safe [OF assms(1) g]] t by blast
    then show ?thesis using False by (simp add: heap_owned_def)
  qed
qed

text \<open>The node of AodvDemo when its neighbour has been silent too long and a packet for it goes out.\<close>

definition losing :: aodv_state where
  "losing = node\<lparr>k_allocs := 31, k_live := {30, 19, 16, 11, 9, 3, 2, 1},
     a_tasks := [(30, (new_task demo_env 103 30 0)\<lparr>tk_src_ip := 0xc0a80002\<rparr>)]\<rparr>"

lemma losing_owned: "heap_owned a_owned (a_ok Settled) [] losing"
proof -
  have "tables_ok losing" using node_ok
    by (simp add: losing_def tables_ok_def routes_ok_def route_addrs_def neighs_ok_def queue_ok_def timers_ok_def floods_ok_def) (simp add: demo_defs)
  then have "a_ok Settled losing"
    by (simp add: a_ok_def a_links_ok_def my_route_ok_def a_task_ok_def losing_def new_task_def) (simp add: demo_defs)
  then show ?thesis
    by (simp add: heap_owned_def heap_ok_def a_owned_def losing_def task_blocks_def data_block_def new_task_def) (simp add: demo_defs)
qed

theorem hook_race_witness:
  "k_fault (snd (output_found demo_env (hello_from 0xc0a80001\<lparr>sk_daddr := 0xc0a80002\<rparr>) (Some 11)
     (thread_round demo_env (snd (find_aodv_route demo_env 0xc0a80002 losing)))))
   \<and> \<not> k_fault (snd (output_found demo_env (hello_from 0xc0a80001\<lparr>sk_daddr := 0xc0a80002\<rparr>) (Some 11)
     (snd (find_aodv_route demo_env 0xc0a80002 losing))))"
proof -
  let ?p = "hello_from 0xc0a80001\<lparr>sk_daddr := 0xc0a80002\<rparr>"
  let ?t = "snd (find_aodv_route demo_env 0xc0a80002 losing)"
  have f: "find_aodv_route demo_env (sk_daddr ?p) losing = (Some 11, ?t)"
    by (simp add: prod_eq_iff) code_simp
  have "turn_frees demo_env 11 ?t" by code_simp
  then have "meanwhile demo_env 11 ?t (thread_round demo_env ?t) True"
    using meanwhile_turn [OF meanwhile_nothing, of demo_env 11 ?t] by simp
  then show ?thesis
    using hook_race [OF demo_no_oom losing_owned f] meanwhile_nothing [of demo_env 11 ?t] by blast
qed

end
