(* ===== verification/Spec2Isabelle.thy ===== *)
theory Spec2Isabelle
  imports AodvProps Discovery Retrieval Placement CacheProps FetchProps TrafficProps SfsProps TaskQueue LinkedList Unload Signal
    ProcFiles LockProps HookRace
begin

text \<open>
  A model of MobileCloudCaching: two modules for the Linux kernel 2.6.32 and a tool in user space, with
  which the nodes of a wireless network find routes to one another and keep coded fragments of
  files near the nodes that ask for them.

  \<^bold>\<open>The program.\<close>
  \<^item> \<open>kaodv/src\<close> routes (AODV). Netfilter hooks see every packet: the hook on incoming packets queues routing messages
    as tasks, the hook on outgoing ones holds packets without a route. A kernel thread takes the tasks one after the
    other. The handlers keep a route table, a list of neighbours, a queue of seen requests and a timer queue, write the
    kernel's routing table and send messages.
  \<^item> \<open>caching/src\<close> caches. It has the same structure, hook, task queue, thread and timer queue, with other messages: a
    node asks all others for a file, learns who has which fragments, fetches the nearest ones, and counts the requests
    that pass through it; after THRESHOLD of them it asks the nodes around for their scores and gives the fragment
    to the best one, which evicts its least used entry when its table is full.
  \<^item> \<open>simpleFS/src\<close> is the tool: it creates the files that stand for fragments and broadcasts file requests.

  The modules share no memory. They meet on the network: the tool's request is a packet to the caching
  module (SfsProps), and the packets of both cross the hooks of both.

  \<^bold>\<open>How the model reads.\<close> A struct is a record, a table of linked entries a list of nodes (address, contents) in link
  order, a machine integer a word of its width, so that sums wrap. The state of a module is one record that
  extends the kernel's (KernelEnv), and a function of the code is a HOL function of the same name on it. What the kernel,
  the C library or the network answers is a parameter: the record \<open>kenv\<close>, an argument, or the
  number of events so far. Everything the module makes the kernel do (messages, verdicts on packets, writes to the
  routing table, the timer) is an event in \<open>k_out\<close>. Using a NULL pointer or a freed block and freeing twice set \<open>k_fault\<close>.
  A handler runs as one step, and the clock moves between steps. What happens inside a handler with locks is a model of its own
  (Locks): there a function is what it acquires and releases and where it may sleep, and any number of contexts on any number
  of processors run such functions step by step.
  The theories, in the order of the code:

  \<^item> Prelude, KernelEnv: types, node lists; clock, \<open>kmalloc\<close>, events (\<open>getcurrtime\<close> of \<open>utils.c\<close>).
  \<^item> InetUtils: \<open>kaodv/src/utils.c\<close>, addresses as text, masks, sequence numbers.
  \<^item> LinkedList: the pointers behind the node lists. The code that links and unlinks an entry is the same in every table; it
    is run on a heap of cells and refines the list operations of the other theories. TaskQueue: \<open>task_queue.c\<close> and
    \<open>cTask.c\<close> on the same heap, as an instance of the interface \<open>fifo\<close>.
  \<^item> FloodCore, TimerCore: the flood queue (\<open>flood_id.c\<close>, \<open>cFlood.c\<close>), an instance of the interface \<open>dup_filter\<close>,
    and the timer queue (\<open>timer_queue.c\<close>, \<open>cTimer.c\<close>), for both modules.
  \<^item> AodvData: \<open>aodv.h\<close>, entries, messages and their bytes. AodvTimers, AodvFlood: the tasks, timers and flood queue of
    kaodv. KernelRoute: \<open>kernel_route.c\<close>. PacketQueue: \<open>packet_queue.c\<close>. RouteTable: \<open>aodv_route.c\<close>.
    NeighTable: \<open>aodv_neigh.c\<close>. AodvDev: \<open>aodv_dev.c\<close>, \<open>socket.c\<close>. AodvHello, AodvRerr, AodvRreq: \<open>hello.c\<close>
    and \<open>rrep.c\<close>, \<open>rerr.c\<close>, \<open>rreq.c\<close>. AodvMain: \<open>packet_in.c\<close>, \<open>packet_out.c\<close>, \<open>aodv_thread.c\<close>, \<open>module.c\<close>.
  \<^item> CacheData: \<open>cache.h\<close>, \<open>cSocket.c\<close>, \<open>cDev.c\<close>. CacheTimers: \<open>cTask.c\<close>, \<open>cTimer.c\<close>, \<open>cFlood.c\<close>. CacheTable:
    \<open>cacheTable.c\<close>, \<open>utils.c\<close>. CacheReq: \<open>cReqList.c\<close>. CacheExchange: \<open>cExchange.c\<close>. CacheFile: \<open>cFragReq.c\<close>,
    \<open>cFileReq.c\<close>, \<open>cFileRep.c\<close>. CacheMain: \<open>cPacketIn.c\<close>, \<open>cThread.c\<close>, \<open>module.c\<close>.
  \<^item> Signal: \<open>signal.c\<close>, the link values the wireless drivers report.
  \<^item> Threads: the threads of \<open>aodv_thread.c\<close> and \<open>cThread.c\<close> as a state machine between whose steps packets, timers and the
    order to stop fall; both are instances of the interface \<open>worker\<close>. \<open>aodv_system\<close> is the routing module with its
    thread, and what holds when a turn of the thread is one step holds of it (\<open>system_reach\<close>).
  \<^item> Lifecycle: \<open>init_sock\<close> and \<open>cleanup_module\<close> of both modules. ProcText, ProcFiles: the \<open>read_*_proc\<close> functions, instances of
    the interface \<open>proc_file\<close>.
  \<^item> SimpleFS: \<open>simpleFS/src/main.c\<close> and \<open>fUtils.c\<close>.
  \<^item> Locks: programs with locks, a static check of them, the contexts that run them, and the interface \<open>lock_order\<close>.
    LockOps and CacheLockOps: every function of the two modules that takes a lock or can sleep, those that set up the
    device under locks of the kernel included, and the instances of that interface.

  \<^bold>\<open>What is proved.\<close>
  \<^item> Evolution is an interface for relations that every handler keeps; its rules follow the syntax of a handler.
    AodvInv and AodvReach are an instance: from loading on, through any packets, timers and turns of the thread, the
    route table stays ordered and free of duplicates, and the packet queue within its bound. CacheInv and CacheReach: the same
    for the tables of the caching module; fragments the node is the service centre of are never evicted, and a request
    seen is not forgotten before its time.
  \<^item> Ownership is an interface for modules that own blocks of memory, and yields another instance of Evolution for
    each. CacheSafe, and AodvHeap, AodvSafe and AodvMemory: in every state a loaded module reaches, each block in its tables and
    queues has one owner and is live, and no block is used after it is freed. In the routing module this rests
    on the node's own route, which is kept as a pointer and which nothing must remove.
  \<^item> Threads: when a task that is queued is handled, and when an order to stop is obeyed; both can be lost.
  \<^item> RouteProps: what a search of the route table finds, what news about a destination changes, how routes
    expire, which held packets are released. HandlerProps and RequestProps: what each message changes, and the life of a
    route discovery. AodvProps: tasks, timers, wire formats, the thread.
  \<^item> RouteView, RouteHop, Discovery: what one node does with one message of a discovery, seen as a map from addresses to
    routes, and the discovery over a chain of nodes as the composition of these hops.
  \<^item> CacheProps, FetchProps, TrafficProps: which fragment is taken in and evicted, who is asked for what, who
    receives a fragment, when an exchange starts, what the hook accepts.
  \<^item> CacheHop, Retrieval, Placement: one hop of a caching message, and composed of such hops the retrieval of a file
    and the exchange of a fragment between a node and its neighbours.
  \<^item> SfsProps: the tool's request is what the module parses, and the files it makes are what the module loads.
  \<^item> LockProps: kaodv deadlocks only after a failed allocation, the caching module never; writers exclude everybody else, and
    what was begun is finished as long as it does not; four functions can sleep with a lock held.
  \<^item> RouteLife: the two handlers that free a route, when they do, and that an address does not come back. HookRace: the hook for
    outgoing packets cut in two where it gives up the lock of the route table; it uses freed memory exactly when a turn of the
    thread in between freed the route it has found.
  \<^item> QueueRun: a run of the routing module that carries the pointers of its task queue. Unload: when unloading follows
    a stale pointer of that queue, what it frees otherwise, and what it leaves allocated; the same for the caching module,
    but there that the queue has no stale pointer is a hypothesis.
  \<^item> ProcFiles: which tables fit into the page their file is printed into, and that those are delivered whole, a line per entry.
  \<^item> TaskQueue, LinkedList, InetUtils: the queues and tables at pointer level, address text.

  Several theorems state what the code does where that is not what it means to do: counters looked up by one
  byte, a score that wraps, blocks that are never freed, a list of eight fragments that is written past.

  \<^bold>\<open>Bounds and fuel.\<close> Loops over tables are recursions over the list and end. The loop of a thread has as fuel the tasks
  that wait: no round queues one itself, so there is one round per task (\<open>aodv_wakeup\<close>). The loop over the
  messages of an OLSR packet advances by a size the packet announces and need not end: it has fuel, and None means
  that the fuel was not enough; on a well-formed packet as many rounds as messages are enough,
  for a message of size zero no fuel is (\<open>olsr_loop_ends\<close>). The loops over pointers in
  LinkedList and TaskQueue are \<open>partial_function\<close>s, and that they return is part of their theorems. The page of a \<open>/proc\<close> file has 4096
  bytes, and the count of a file reply is a signed number, as in C; a walk over more fragments than were copied is an error
  of memory. The
  instances that show the hypotheses can hold run in AodvDemo and CacheDemo, on the kernel of Demo.

  \<^bold>\<open>Not modelled.\<close> What other processors do to the tables between two critical sections of one handler, except in HookRace, and data races
  inside them; the locks of the kernel itself, except those \<open>aodv_dev.c\<close> takes; signals to the kernel threads;
  registering hooks and \<open>/proc\<close> entries; what \<open>LINK_LIMIT\<close> and \<open>AODV_SIGNAL\<close> guard in the handlers, which \<open>aodv.h\<close> leaves out; \<open>create_hello\<close>, which nothing calls; the \<open>first_*\<close> accessors, which only return the head of a list; \<open>printk\<close> and text on the terminal; code in
  comments; \<open>olsr_protocol.h\<close>, the headers of another program.
\<close>

end
